(* ===== verification/Prelude.thy ===== *)
theory Prelude
  imports Main "HOL-Library.Word" "HOL-Library.Monad_Syntax" "HOL-Library.List_Lexorder"
begin

text \<open>
  The vocabulary shared by all components: machine words, byte slices with Go's bounds checks,
  little-endian fields, Go's \<open>copy\<close>, and the lemma collections the component proofs use.

  A computation that can panic at run time has an \<open>option\<close> type, and \<open>None\<close> is the panic
  (an index or slice bound outside the slice, a nil dereference, or an unsafe access outside the
  slice).  A Go \<open>int\<close> used as an index is an \<open>int\<close>, so that a negative index is a value of the
  model.  A byte slice is the list of its bytes; its capacity is taken to be its length.
\<close>

unbundle bit_operations_syntax

type_synonym u8 = "8 word"
type_synonym u16 = "16 word"
type_synonym u32 = "32 word"
type_synonym u64 = "64 word"
type_synonym bytes = "u8 list"

named_theorems byte_simps "reading and writing fields of byte slices"
named_theorems header_simps "reading header fields, also after writes"

section \<open>Reading bytes\<close>

definition rd8 :: "bytes \<Rightarrow> int \<Rightarrow> u8 option" where
  "rd8 d i = (if 0 \<le> i \<and> i < int (length d) then Some (d ! nat i) else None)"

definition le16 :: "u8 \<Rightarrow> u8 \<Rightarrow> u16" where
  "le16 a b = ucast a OR push_bit 8 (ucast b)"

definition le32 :: "u8 \<Rightarrow> u8 \<Rightarrow> u8 \<Rightarrow> u8 \<Rightarrow> u32" where
  "le32 a b c d = ucast a OR push_bit 8 (ucast b) OR push_bit 16 (ucast c) OR push_bit 24 (ucast d)"

definition le64 :: "u32 \<Rightarrow> u32 \<Rightarrow> u64" where
  "le64 lo hi = ucast lo OR push_bit 32 (ucast hi)"

definition rd16 :: "bytes \<Rightarrow> int \<Rightarrow> u16 option" where
  "rd16 d i = do { a \<leftarrow> rd8 d i; b \<leftarrow> rd8 d (i + 1); Some (le16 a b) }"

definition rd32 :: "bytes \<Rightarrow> int \<Rightarrow> u32 option" where
  "rd32 d i = do { a \<leftarrow> rd8 d i; b \<leftarrow> rd8 d (i + 1); c \<leftarrow> rd8 d (i + 2); e \<leftarrow> rd8 d (i + 3);
                   Some (le32 a b c e) }"

definition rd64 :: "bytes \<Rightarrow> int \<Rightarrow> u64 option" where
  "rd64 d i = do { lo \<leftarrow> rd32 d i; hi \<leftarrow> rd32 d (i + 4); Some (le64 lo hi) }"

text \<open>Go's slice expression \<open>d[a:b]\<close>.\<close>

definition slice :: "bytes \<Rightarrow> int \<Rightarrow> int \<Rightarrow> bytes option" where
  "slice d a b = (if 0 \<le> a \<and> a \<le> b \<and> b \<le> int (length d)
                  then Some (take (nat (b - a)) (drop (nat a) d)) else None)"

section \<open>Writing bytes\<close>

text \<open>Overwriting from an offset on; what does not fit is dropped, as Go's \<open>copy\<close> does.\<close>

definition blit :: "bytes \<Rightarrow> nat \<Rightarrow> bytes \<Rightarrow> bytes" where
  "blit d off s = take off d @ take (length d - off) s @ drop (off + length s) d"

text \<open>Go's \<open>copy(d[off:], s)\<close>: it panics when \<open>off\<close> is past the end of \<open>d\<close>.\<close>

definition go_copy :: "bytes \<Rightarrow> int \<Rightarrow> bytes \<Rightarrow> bytes option" where
  "go_copy d off s = (if 0 \<le> off \<and> off \<le> int (length d) then Some (blit d (nat off) s) else None)"

definition enc16 :: "u16 \<Rightarrow> bytes" where
  "enc16 v = [ucast v, ucast (drop_bit 8 v)]"

definition enc32 :: "u32 \<Rightarrow> bytes" where
  "enc32 v = [ucast v, ucast (drop_bit 8 v), ucast (drop_bit 16 v), ucast (drop_bit 24 v)]"

definition enc64 :: "u64 \<Rightarrow> bytes" where
  "enc64 v = enc32 (ucast v) @ enc32 (ucast (drop_bit 32 v))"

definition putUint16LE :: "bytes \<Rightarrow> int \<Rightarrow> u16 \<Rightarrow> bytes option" where
  "putUint16LE d off v =
     (if 0 \<le> off \<and> off + 2 \<le> int (length d) then Some (blit d (nat off) (enc16 v)) else None)"

definition putUint32LE :: "bytes \<Rightarrow> int \<Rightarrow> u32 \<Rightarrow> bytes option" where
  "putUint32LE d off v =
     (if 0 \<le> off \<and> off + 4 \<le> int (length d) then Some (blit d (nat off) (enc32 v)) else None)"

definition putUint64LE :: "bytes \<Rightarrow> int \<Rightarrow> u64 \<Rightarrow> bytes option" where
  "putUint64LE d off v =
     (if 0 \<le> off \<and> off + 8 \<le> int (length d) then Some (blit d (nat off) (enc64 v)) else None)"

definition getUint16LE :: "bytes \<Rightarrow> u16 option" where "getUint16LE d = rd16 d 0"
definition getUint32LE :: "bytes \<Rightarrow> u32 option" where "getUint32LE d = rd32 d 0"
definition getUint64LE :: "bytes \<Rightarrow> u64 option" where "getUint64LE d = rd64 d 0"

section \<open>Total readers used in proofs\<close>

definition g16 :: "bytes \<Rightarrow> nat \<Rightarrow> u16" where "g16 d i = le16 (d ! i) (d ! (i + 1))"
definition g32 :: "bytes \<Rightarrow> nat \<Rightarrow> u32" where
  "g32 d i = le32 (d ! i) (d ! (i + 1)) (d ! (i + 2)) (d ! (i + 3))"
definition g64 :: "bytes \<Rightarrow> nat \<Rightarrow> u64" where "g64 d i = le64 (g32 d i) (g32 d (i + 4))"

lemma rd8_Some [byte_simps]: "i < length d \<Longrightarrow> rd8 d (int i) = Some (d ! i)"
  by (simp add: rd8_def)

lemma rd16_nat: "rd16 d (int i) = (if i + 1 < length d then Some (g16 d i) else None)"
  by (auto simp: rd16_def rd8_def g16_def nat_add_distrib)

lemma rd32_nat: "rd32 d (int i) = (if i + 3 < length d then Some (g32 d i) else None)"
  by (auto simp: rd32_def rd8_def g32_def nat_add_distrib)

lemma rd64_nat: "rd64 d (int i) = (if i + 7 < length d then Some (g64 d i) else None)"
proof -
  have "int i + 4 = int (i + 4)" by simp
  then show ?thesis
    unfolding rd64_def g64_def by (simp only: rd32_nat) (auto simp: rd32_nat)
qed

lemma rd16_Some [byte_simps]: "i + 1 < length d \<Longrightarrow> rd16 d (int i) = Some (g16 d i)"
  by (simp add: rd16_nat)

lemma rd32_Some [byte_simps]: "i + 3 < length d \<Longrightarrow> rd32 d (int i) = Some (g32 d i)"
  by (simp add: rd32_nat)

lemma rd64_Some [byte_simps]: "i + 7 < length d \<Longrightarrow> rd64 d (int i) = Some (g64 d i)"
  by (simp add: rd64_nat)

lemma slice_nat: "a \<le> b \<Longrightarrow> b \<le> length d \<Longrightarrow>
   slice d (int a) (int b) = Some (take (b - a) (drop a d))"
  by (simp add: slice_def flip: of_nat_diff)

section \<open>Little-endian fields\<close>

lemma unat_u8 [simp]: "unat (a :: u8) < 256"
  by (rule order_less_le_trans [OF unsigned_less]) simp

lemma unat_u16 [simp]: "unat (a :: u16) < 65536"
  by (rule order_less_le_trans [OF unsigned_less]) simp

lemma le16_eq: "le16 a b = ucast a + push_bit 8 (ucast b)"
proof -
  have "ucast a AND push_bit 8 (ucast b :: u16) = (0 :: u16)"
    by (rule bit_word_eqI) (auto simp: bit_simps dest: bit_imp_le_length)
  then show ?thesis
    unfolding le16_def by (rule disjunctive_add_eq_or [symmetric])
qed

lemma unat_ucast8_16 [simp]: "unat (ucast (a :: u8) :: u16) = unat a"
  by (simp add: unsigned_ucast_eq take_bit_nat_eq_self order_less_trans [OF unat_u8])

lemma unat_le16: "unat (le16 a b) = unat a + 256 * unat b"
proof -
  have lt: "unat a + 256 * unat b < 65536"
    using unat_u8 [of a] unat_u8 [of b] by arith
  have "unat (256 * ucast b :: u16) = 256 * unat b"
    using lt by (subst unat_word_ariths(2)) simp
  then have "unat (ucast a + 256 * ucast b :: u16) = unat a + 256 * unat b"
    using lt by (subst unat_word_ariths(1)) simp
  moreover have "le16 a b = ucast a + 256 * ucast b"
    by (simp add: le16_eq push_bit_eq_mult)
  ultimately show ?thesis by simp
qed

lemma le16_enc [simp]: "le16 (ucast v) (ucast (drop_bit 8 v)) = v"
  by (rule bit_word_eqI) (auto simp: le16_def bit_simps)

lemma le32_enc [simp]:
  "le32 (ucast v) (ucast (drop_bit 8 v)) (ucast (drop_bit 16 v)) (ucast (drop_bit 24 v)) = v"
proof (rule bit_word_eqI)
  fix n assume "n < LENGTH(32)"
  then have "n < 8 \<or> (8 \<le> n \<and> n < 16) \<or> (16 \<le> n \<and> n < 24) \<or> (24 \<le> n \<and> n < 32)"
    by auto
  then show "bit (le32 (ucast v) (ucast (drop_bit 8 v)) (ucast (drop_bit 16 v))
     (ucast (drop_bit 24 v))) n = bit v n"
    by (elim disjE) (auto simp: le32_def bit_simps)
qed

lemma le64_enc [simp]: "le64 (ucast v) (ucast (drop_bit 32 v)) = v"
  by (rule bit_word_eqI) (auto simp: le64_def bit_simps)

lemma length_enc [simp]: "length (enc16 v) = 2" "length (enc32 w) = 4" "length (enc64 x) = 8"
  by (simp_all add: enc16_def enc32_def enc64_def)

section \<open>Overwriting\<close>

lemma length_blit [simp]: "off \<le> length d \<Longrightarrow> length (blit d off s) = length d"
  by (auto simp: blit_def)

lemma nth_blit:
  assumes "off + length s \<le> length d" "i < length d"
  shows "blit d off s ! i = (if off \<le> i \<and> i < off + length s then s ! (i - off) else d ! i)"
  using assms by (auto simp: blit_def nth_append min_def)

lemma nth_blit_out [byte_simps]:
  "off + length s \<le> length d \<Longrightarrow> i < length d \<Longrightarrow> i < off \<or> off + length s \<le> i \<Longrightarrow>
   blit d off s ! i = d ! i"
  by (auto simp: nth_blit)

lemma nth_blit_in [byte_simps]:
  "off + length s \<le> length d \<Longrightarrow> off \<le> i \<Longrightarrow> i < off + length s \<Longrightarrow> blit d off s ! i = s ! (i - off)"
  by (auto simp: nth_blit)

lemma blit_self: "off + n \<le> length d \<Longrightarrow> blit d off (take n (drop off d)) = d"
  by (auto simp: blit_def min_def) (metis add.commute append_assoc append_take_drop_id drop_drop)

lemma take_drop_blit_out:
  assumes "off + length s \<le> length d" "a + n \<le> off \<or> off + length s \<le> a"
  shows "take n (drop a (blit d off s)) = take n (drop a d)"
  using assms by (intro nth_equalityI) (auto simp: nth_blit)

lemma take_drop_blit_same:
  assumes "off + length s \<le> length d"
  shows "take (length s) (drop off (blit d off s)) = s"
  using assms by (intro nth_equalityI) (auto simp: nth_blit)

lemma take_drop_blit_in:
  assumes "off + length s \<le> length d" "off \<le> a" "a + n \<le> off + length s"
  shows "take n (drop a (blit d off s)) = take n (drop (a - off) s)"
  using assms by (intro nth_equalityI) (auto simp: nth_blit)

lemma g16_blit_out [byte_simps]:
  "off + length s \<le> length d \<Longrightarrow> i + 1 < length d \<Longrightarrow> i + 2 \<le> off \<or> off + length s \<le> i \<Longrightarrow>
   g16 (blit d off s) i = g16 d i"
  by (auto simp: g16_def nth_blit)

lemma g32_blit_out [byte_simps]:
  "off + length s \<le> length d \<Longrightarrow> i + 3 < length d \<Longrightarrow> i + 4 \<le> off \<or> off + length s \<le> i \<Longrightarrow>
   g32 (blit d off s) i = g32 d i"
  by (auto simp: g32_def nth_blit)

lemma g64_blit_out [byte_simps]:
  "off + length s \<le> length d \<Longrightarrow> i + 7 < length d \<Longrightarrow> i + 8 \<le> off \<or> off + length s \<le> i \<Longrightarrow>
   g64 (blit d off s) i = g64 d i"
  by (auto simp: g64_def g32_def nth_blit)

lemma g16_blit_same [byte_simps]: "off + 2 \<le> length d \<Longrightarrow> g16 (blit d off (enc16 v)) off = v"
  by (simp add: g16_def nth_blit enc16_def)

lemma g32_blit_same [byte_simps]: "off + 4 \<le> length d \<Longrightarrow> g32 (blit d off (enc32 v)) off = v"
  by (simp add: g32_def nth_blit enc32_def numeral_2_eq_2 numeral_3_eq_3)

lemma g64_blit_same [byte_simps]: "off + 8 \<le> length d \<Longrightarrow> g64 (blit d off (enc64 v)) off = v"
proof -
  assume "off + 8 \<le> length d"
  then have "g32 (blit d off (enc64 v)) off = ucast v"
    and "g32 (blit d off (enc64 v)) (off + 4) = ucast (drop_bit 32 v)"
    by (simp_all add: g32_def nth_blit enc64_def enc32_def nth_append nth_Cons')
  then show ?thesis by (simp add: g64_def)
qed

lemma g16_take_drop:
  "i + 2 \<le> n \<Longrightarrow> a + n \<le> length d \<Longrightarrow> g16 (take n (drop a d)) i = g16 d (a + i)"
  by (simp add: g16_def)

lemma g32_take_drop:
  "i + 4 \<le> n \<Longrightarrow> a + n \<le> length d \<Longrightarrow> g32 (take n (drop a d)) i = g32 d (a + i)"
  by (simp add: g32_def add.assoc)

text \<open>Encoding a field that was read gives its bytes back.\<close>

lemma ucast_le16 [simp]: "ucast (le16 a b) = (a :: u8)" "ucast (drop_bit 8 (le16 a b)) = (b :: u8)"
  by (rule bit_word_eqI; auto simp: le16_def bit_simps dest: bit_imp_le_length)+

lemma ucast_le32 [simp]:
  "ucast (le32 a b c d) = (a :: u8)" "ucast (drop_bit 8 (le32 a b c d)) = (b :: u8)"
  "ucast (drop_bit 16 (le32 a b c d)) = (c :: u8)" "ucast (drop_bit 24 (le32 a b c d)) = (d :: u8)"
  by (rule bit_word_eqI; auto simp: le32_def bit_simps dest: bit_imp_le_length)+

lemma ucast_le64 [simp]: "ucast (le64 a b) = (a :: u32)" "ucast (drop_bit 32 (le64 a b)) = (b :: u32)"
  by (rule bit_word_eqI; auto simp: le64_def bit_simps dest: bit_imp_le_length)+

lemma enc16_g16: "i + 2 \<le> length d \<Longrightarrow> enc16 (g16 d i) = take 2 (drop i d)"
  by (rule nth_equalityI) (auto simp: enc16_def g16_def less_Suc_eq)

lemma enc32_g32: "i + 4 \<le> length d \<Longrightarrow> enc32 (g32 d i) = take 4 (drop i d)"
proof (rule nth_equalityI)
  assume i: "i + 4 \<le> length d"
  show "length (enc32 (g32 d i)) = length (take 4 (drop i d))" using i by simp
  fix k assume "k < length (enc32 (g32 d i))"
  then have "k = 0 \<or> k = 1 \<or> k = 2 \<or> k = 3" by auto
  then show "enc32 (g32 d i) ! k = take 4 (drop i d) ! k"
    using i by (elim disjE) (simp_all add: enc32_def g32_def)
qed

lemma enc64_g64: "i + 8 \<le> length d \<Longrightarrow> enc64 (g64 d i) = take 8 (drop i d)"
proof -
  assume i: "i + 8 \<le> length d"
  have "enc64 (g64 d i) = take 4 (drop i d) @ take 4 (drop (i + 4) d)"
    using i by (simp add: enc64_def g64_def enc32_g32)
  also have "\<dots> = take (4 + 4) (drop i d)" by (simp only: take_add drop_drop add.commute)
  finally show ?thesis by simp
qed

section \<open>Word arithmetic without wrap-around\<close>

lemma unat_add_nowrap16: "unat (a :: u16) + unat b < 65536 \<Longrightarrow> unat (a + b) = unat a + unat b"
  by (simp add: unat_word_ariths)

lemma unat_sub_nowrap16: "b \<le> (a :: u16) \<Longrightarrow> unat (a - b) = unat a - unat b"
  by (simp add: unat_sub)

lemma unat_of_nat16: "n < 65536 \<Longrightarrow> unat (of_nat n :: u16) = n"
  by (simp add: unat_of_nat)

section \<open>Go's bytes.Compare\<close>

definition bytes_compare :: "bytes \<Rightarrow> bytes \<Rightarrow> int" where
  "bytes_compare a b = (if a < b then - 1 else if a = b then 0 else 1)"

lemma bytes_compare_simps [simp]:
  "bytes_compare a b < 0 \<longleftrightarrow> a < b"
  "0 < bytes_compare a b \<longleftrightarrow> b < a"
  "bytes_compare a b = 0 \<longleftrightarrow> a = b"
  by (auto simp: bytes_compare_def)

end
