(* ===== verification/Constants.thy ===== *)
theory Constants
  imports Prelude
begin

text \<open>
  The numeric constants of constants.go, page.go, node.go and meta.go that the modelled code uses,
  at the width the code gives them (an untyped \<open>uint\<close> constant is a 64-bit word, an untyped
  integer constant an \<open>int\<close>).  The lemmas state what the format relies on: the flags of one
  family are distinct single bits, and the public and the internal spelling agree.
\<close>

section \<open>File format\<close>

definition Magic :: u64 where "Magic = 0x59659dbdef4c11"
definition DataVersion :: u64 where "DataVersion = 3"
definition LockVersion :: u64 where "LockVersion = 6"
definition DataMagic :: u64 where "DataMagic = push_bit 8 Magic + DataVersion"
definition LockMagic :: u64 where "LockMagic = push_bit 8 Magic + LockVersion"

section \<open>Page sizes, header sizes, limits\<close>

definition MinPageSize :: int where "MinPageSize = 256"
definition MaxPageSize :: int where "MaxPageSize = 65536"
definition DefaultPageSize :: int where "DefaultPageSize = 4096"
definition PageHeaderSize :: int where "PageHeaderSize = 20"
definition NodeHeaderSize :: int where "NodeHeaderSize = 8"
definition MaxDBI :: u32 where "MaxDBI = 32765"
definition MaxDataSize :: int where "MaxDataSize = 0x7fff0000"
definition MaxPageNo :: u32 where "MaxPageNo = 0x7fffffff"
definition NumMetas :: int where "NumMetas = 3"
definition MinPageNo :: int where "MinPageNo = NumMetas"
definition CoreDBs :: u32 where "CoreDBs = 2"
definition FreeDBI :: u32 where "FreeDBI = 0"
definition MainDBI :: u32 where "MainDBI = 1"
definition MinTxnID :: u64 where "MinTxnID = 1"
definition InitialTxnID :: u64 where "InitialTxnID = MinTxnID + of_int NumMetas - 1"
definition InvalidTxnID :: u64 where "InvalidTxnID = 0xffffffffffffffff"
definition InvalidPageNo :: u32 where "InvalidPageNo = 0xffffffff"

section \<open>Page and node flags, public spelling\<close>

definition PageBranch :: u16 where "PageBranch = 0x01"
definition PageLeaf :: u16 where "PageLeaf = 0x02"
definition PageLarge :: u16 where "PageLarge = 0x04"
definition PageMeta :: u16 where "PageMeta = 0x08"
definition PageLegacyDirty :: u16 where "PageLegacyDirty = 0x10"
definition PageDupfix :: u16 where "PageDupfix = 0x20"
definition PageSubP :: u16 where "PageSubP = 0x40"
definition PageSpilled :: u16 where "PageSpilled = 0x2000"
definition PageLoose :: u16 where "PageLoose = 0x4000"
definition PageFrozen :: u16 where "PageFrozen = 0x8000"
definition PageBad :: u16 where "PageBad = PageLegacyDirty"
definition NodeBig :: u8 where "NodeBig = 0x01"
definition NodeTree :: u8 where "NodeTree = 0x02"
definition NodeDup :: u8 where "NodeDup = 0x04"

section \<open>Environment, transaction, database and put flags\<close>

definition EnvDefaults :: u64 where "EnvDefaults = 0"
definition Validation :: u64 where "Validation = 0x00002000"
definition NoSubdir :: u64 where "NoSubdir = 0x00004000"
definition ReadOnly :: u64 where "ReadOnly = 0x00020000"
definition Exclusive :: u64 where "Exclusive = 0x00400000"
definition Accede :: u64 where "Accede = 0x40000000"
definition WriteMap :: u64 where "WriteMap = 0x00080000"
definition NoStickyThreads :: u64 where "NoStickyThreads = 0x00200000"
definition NoReadAhead :: u64 where "NoReadAhead = 0x00800000"
definition NoMemInit :: u64 where "NoMemInit = 0x01000000"
definition LifoReclaim :: u64 where "LifoReclaim = 0x04000000"
definition PagePerturb :: u64 where "PagePerturb = 0x08000000"
definition NoMetaSync :: u64 where "NoMetaSync = 0x00040000"
definition SafeNoSync :: u64 where "SafeNoSync = 0x00010000"
definition UtterlyNoSync :: u64 where "UtterlyNoSync = SafeNoSync OR NoMetaSync"
definition TxnReadWrite :: u64 where "TxnReadWrite = 0"
definition TxnReadOnly :: u64 where "TxnReadOnly = 0x20000"
definition TxnReadOnlyPrepare :: u64 where "TxnReadOnlyPrepare = TxnReadOnly OR 0x01000000"
definition TxnTry :: u64 where "TxnTry = 0x10000000"
definition TxnNoMetaSync :: u64 where "TxnNoMetaSync = 0x00040000"
definition TxnNoSync :: u64 where "TxnNoSync = 0x00010000"
definition DBDefaults :: u64 where "DBDefaults = 0"
definition ReverseKey :: u64 where "ReverseKey = 0x02"
definition DupSort :: u64 where "DupSort = 0x04"
definition IntegerKey :: u64 where "IntegerKey = 0x08"
definition DupFixed :: u64 where "DupFixed = 0x10"
definition IntegerDup :: u64 where "IntegerDup = 0x20"
definition ReverseDup :: u64 where "ReverseDup = 0x40"
definition Create :: u64 where "Create = 0x40000"
definition DBAccede :: u64 where "DBAccede = 0x40000000"
definition Upsert :: u64 where "Upsert = 0"
definition NoOverwrite :: u64 where "NoOverwrite = 0x10"
definition NoDupData :: u64 where "NoDupData = 0x20"
definition Current :: u64 where "Current = 0x40"
definition AllDups :: u64 where "AllDups = 0x80"
definition Reserve :: u64 where "Reserve = 0x10000"
definition Append :: u64 where "Append = 0x20000"
definition AppendDup :: u64 where "AppendDup = 0x40000"
definition Multiple :: u64 where "Multiple = 0x80000"

section \<open>Internal spelling: page.go, node.go\<close>

definition pageHeaderSize :: int where "pageHeaderSize = 20"
definition invalidPgno :: u32 where "invalidPgno = 0xffffffff"
definition maxPgno :: u32 where "maxPgno = 0x7fffffff"
definition pageBranch :: u16 where "pageBranch = 0x01"
definition pageLeaf :: u16 where "pageLeaf = 0x02"
definition pageLarge :: u16 where "pageLarge = 0x04"
definition pageMeta :: u16 where "pageMeta = 0x08"
definition pageLegacyDirty :: u16 where "pageLegacyDirty = 0x10"
definition pageBad :: u16 where "pageBad = pageLegacyDirty"
definition pageDupfix :: u16 where "pageDupfix = 0x20"
definition pageSubP :: u16 where "pageSubP = 0x40"
definition pageSpilled :: u16 where "pageSpilled = 0x2000"
definition pageLoose :: u16 where "pageLoose = 0x4000"
definition pageFrozen :: u16 where "pageFrozen = 0x8000"
definition pageTypeMask :: u16 where "pageTypeMask = pageBranch OR pageLeaf OR pageLarge OR pageMeta OR pageDupfix OR pageSubP"
definition nodeSize :: int where "nodeSize = 8"
definition nodeBig :: u8 where "nodeBig = 0x01"
definition nodeTree :: u8 where "nodeTree = 0x02"
definition nodeDup :: u8 where "nodeDup = 0x04"

section \<open>Internal spelling: meta.go\<close>

definition numMetas :: nat where "numMetas = 3"
definition metaMagic :: u64 where "metaMagic = 0x59659dbdef4c11"
definition metaDataVersion :: u64 where "metaDataVersion = 3"
definition metaDataMagic :: u64 where "metaDataMagic = push_bit 8 metaMagic + metaDataVersion"
definition geoSize :: int where "geoSize = 20"
definition treeSize :: int where "treeSize = 48"
definition canarySize :: int where "canarySize = 32"
definition treeFlagReverseKey :: u16 where "treeFlagReverseKey = 0x02"
definition treeFlagDupSort :: u16 where "treeFlagDupSort = 0x04"
definition treeFlagIntegerKey :: u16 where "treeFlagIntegerKey = 0x08"
definition treeFlagDupFixed :: u16 where "treeFlagDupFixed = 0x10"
definition treeFlagIntegerDup :: u16 where "treeFlagIntegerDup = 0x20"
definition treeFlagReverseDup :: u16 where "treeFlagReverseDup = 0x40"
definition datasignWeak :: u64 where "datasignWeak = 1"
definition datasignSteady :: u64 where "datasignSteady = 0xffffffffffffffff"

section \<open>Lemma bundles\<close>

lemmas size_consts = MinPageSize_def MaxPageSize_def DefaultPageSize_def PageHeaderSize_def
  NodeHeaderSize_def pageHeaderSize_def nodeSize_def

lemmas page_flag_consts = pageBranch_def pageLeaf_def pageLarge_def pageMeta_def
  pageLegacyDirty_def pageBad_def pageDupfix_def pageSubP_def pageSpilled_def pageLoose_def
  pageFrozen_def pageTypeMask_def

lemmas PageFlag_consts = PageBranch_def PageLeaf_def PageLarge_def PageMeta_def
  PageLegacyDirty_def PageBad_def PageDupfix_def PageSubP_def PageSpilled_def PageLoose_def
  PageFrozen_def

lemmas node_flag_consts = nodeBig_def nodeTree_def nodeDup_def

lemmas tree_flag_consts = treeFlagReverseKey_def treeFlagDupSort_def treeFlagIntegerKey_def
  treeFlagDupFixed_def treeFlagIntegerDup_def treeFlagReverseDup_def

lemmas db_flag_consts = DBDefaults_def ReverseKey_def DupSort_def IntegerKey_def DupFixed_def
  IntegerDup_def ReverseDup_def Create_def DBAccede_def

lemmas magic_consts = Magic_def DataVersion_def LockVersion_def DataMagic_def LockMagic_def
  metaMagic_def metaDataVersion_def metaDataMagic_def

lemmas env_flag_consts = EnvDefaults_def Validation_def NoSubdir_def ReadOnly_def Exclusive_def
  Accede_def WriteMap_def NoStickyThreads_def NoReadAhead_def NoMemInit_def LifoReclaim_def
  PagePerturb_def NoMetaSync_def SafeNoSync_def UtterlyNoSync_def

lemmas put_flag_consts = Upsert_def NoOverwrite_def NoDupData_def Current_def AllDups_def
  Reserve_def Append_def AppendDup_def Multiple_def

section \<open>What the format relies on\<close>

definition single_bits :: "'a::len word list \<Rightarrow> bool" where
  "single_bits ws \<longleftrightarrow> distinct ws \<and> (\<forall>w \<in> set ws. w \<noteq> 0 \<and> w AND (w - 1) = 0)"

lemma page_flags_single_bits: "single_bits [pageBranch, pageLeaf, pageLarge, pageMeta,
    pageLegacyDirty, pageDupfix, pageSubP, pageSpilled, pageLoose, pageFrozen]"
  by (simp add: single_bits_def page_flag_consts)

lemma node_flags_single_bits: "single_bits [nodeBig, nodeTree, nodeDup]"
  by (simp add: single_bits_def node_flag_consts)

lemma tree_flags_single_bits: "single_bits [treeFlagReverseKey, treeFlagDupSort,
    treeFlagIntegerKey, treeFlagDupFixed, treeFlagIntegerDup, treeFlagReverseDup]"
  by (simp add: single_bits_def tree_flag_consts)

lemma tree_flags_are_db_flags:
  "map ucast [treeFlagReverseKey, treeFlagDupSort, treeFlagIntegerKey, treeFlagDupFixed,
     treeFlagIntegerDup, treeFlagReverseDup] =
   [ReverseKey, DupSort, IntegerKey, DupFixed, IntegerDup, ReverseDup]"
  by (simp add: tree_flag_consts db_flag_consts)

lemma internal_page_flags_agree:
  "[pageBranch, pageLeaf, pageLarge, pageMeta, pageLegacyDirty, pageDupfix, pageSubP,
    pageSpilled, pageLoose, pageFrozen] =
   [PageBranch, PageLeaf, PageLarge, PageMeta, PageLegacyDirty, PageDupfix, PageSubP,
    PageSpilled, PageLoose, PageFrozen]"
  by (simp add: page_flag_consts PageFlag_consts)

lemma DataMagic_split: "drop_bit 8 DataMagic = Magic" "DataMagic AND 0xff = DataVersion"
  by (simp_all add: magic_consts)

lemma metaDataMagic_eq [simp]: "metaDataMagic = DataMagic"
  by (simp add: magic_consts)

end
