(* ===== verification/Errors.thy ===== *)
theory Errors
  imports Prelude
begin

text \<open>
  errors.go: the error codes, the error values and the predicates on them.  A Go error value is a
  chain: a \<open>*Error\<close> with a code, a message and perhaps a wrapped error, another error type that
  wraps one (\<open>Wraps\<close>), or a leaf of another type (\<open>Plain\<close>).  \<open>errors.As\<close> returns the first
  \<open>*Error\<close> of the chain.  The pointer comparisons with a sentinel are shortcuts for values whose
  code is the sentinel's; they are modelled as equality of the values.
\<close>

type_synonym ErrorCode = int

section \<open>Error codes\<close>

definition Success :: ErrorCode where "Success = 0"
definition ResultTrue :: ErrorCode where "ResultTrue = - 1"
definition ErrKeyExist :: ErrorCode where "ErrKeyExist = - 30799"
definition ErrNotFound :: ErrorCode where "ErrNotFound = - 30798"
definition ErrPageNotFound :: ErrorCode where "ErrPageNotFound = - 30797"
definition ErrCorrupted :: ErrorCode where "ErrCorrupted = - 30796"
definition ErrPanic :: ErrorCode where "ErrPanic = - 30795"
definition ErrVersionMismatch :: ErrorCode where "ErrVersionMismatch = - 30794"
definition ErrInvalid :: ErrorCode where "ErrInvalid = - 30793"
definition ErrMapFull :: ErrorCode where "ErrMapFull = - 30792"
definition ErrDBsFull :: ErrorCode where "ErrDBsFull = - 30791"
definition ErrReadersFull :: ErrorCode where "ErrReadersFull = - 30790"
definition ErrTxnFull :: ErrorCode where "ErrTxnFull = - 30788"
definition ErrCursorFull :: ErrorCode where "ErrCursorFull = - 30787"
definition ErrPageFull :: ErrorCode where "ErrPageFull = - 30786"
definition ErrUnableExtendMapsize :: ErrorCode where "ErrUnableExtendMapsize = - 30785"
definition ErrIncompatible :: ErrorCode where "ErrIncompatible = - 30784"
definition ErrBadRSlot :: ErrorCode where "ErrBadRSlot = - 30783"
definition ErrBadTxn :: ErrorCode where "ErrBadTxn = - 30782"
definition ErrBadValSize :: ErrorCode where "ErrBadValSize = - 30781"
definition ErrBadDBI :: ErrorCode where "ErrBadDBI = - 30780"
definition ErrProblem :: ErrorCode where "ErrProblem = - 30779"
definition ErrBusy :: ErrorCode where "ErrBusy = - 30778"
definition ErrMultiVal :: ErrorCode where "ErrMultiVal = - 30421"
definition ErrBadSign :: ErrorCode where "ErrBadSign = - 30420"
definition ErrWannaRecovery :: ErrorCode where "ErrWannaRecovery = - 30419"
definition ErrKeyMismatch :: ErrorCode where "ErrKeyMismatch = - 30418"
definition ErrTooLarge :: ErrorCode where "ErrTooLarge = - 30417"
definition ErrThreadMismatch :: ErrorCode where "ErrThreadMismatch = - 30416"
definition ErrTxnOverlapping :: ErrorCode where "ErrTxnOverlapping = - 30415"
definition ErrBacklogDepleted :: ErrorCode where "ErrBacklogDepleted = - 30414"
definition ErrDuplicatedCLK :: ErrorCode where "ErrDuplicatedCLK = - 30413"
definition ErrDanglingDBI :: ErrorCode where "ErrDanglingDBI = - 30412"
definition ErrOusted :: ErrorCode where "ErrOusted = - 30411"
definition ErrMVCCRetarded :: ErrorCode where "ErrMVCCRetarded = - 30410"
definition ErrSuccess :: ErrorCode where "ErrSuccess = Success"
definition ResultFalse :: ErrorCode where "ResultFalse = Success"
definition ErrMultival :: ErrorCode where "ErrMultival = ErrMultiVal"

lemmas error_code_defs = Success_def ResultTrue_def ErrKeyExist_def ErrNotFound_def
  ErrPageNotFound_def ErrCorrupted_def ErrPanic_def ErrVersionMismatch_def ErrInvalid_def
  ErrMapFull_def ErrDBsFull_def ErrReadersFull_def ErrTxnFull_def ErrCursorFull_def
  ErrPageFull_def ErrUnableExtendMapsize_def ErrIncompatible_def ErrBadRSlot_def ErrBadTxn_def
  ErrBadValSize_def ErrBadDBI_def ErrProblem_def ErrBusy_def ErrMultiVal_def ErrBadSign_def
  ErrWannaRecovery_def ErrKeyMismatch_def ErrTooLarge_def ErrThreadMismatch_def
  ErrTxnOverlapping_def ErrBacklogDepleted_def ErrDuplicatedCLK_def ErrDanglingDBI_def
  ErrOusted_def ErrMVCCRetarded_def ErrSuccess_def ResultFalse_def ErrMultival_def

definition errorMessages :: "(ErrorCode \<times> string) list" where
  "errorMessages = [
     (Success, ''success''),
     (ResultTrue, ''operation result true''),
     (ErrKeyExist, ''key/data pair already exists''),
     (ErrNotFound, ''key/data pair not found''),
     (ErrPageNotFound, ''requested page not found''),
     (ErrCorrupted, ''database is corrupted''),
     (ErrPanic, ''fatal environment error''),
     (ErrVersionMismatch, ''database version mismatch''),
     (ErrInvalid, ''file is not a valid MDBX database''),
     (ErrMapFull, ''environment mapsize limit reached''),
     (ErrDBsFull, ''environment maxdbs limit reached''),
     (ErrReadersFull, ''environment maxreaders limit reached''),
     (ErrTxnFull, ''transaction has too many dirty pages''),
     (ErrCursorFull, ''cursor stack overflow''),
     (ErrPageFull, ''page has no space''),
     (ErrUnableExtendMapsize, ''unable to extend memory mapping''),
     (ErrIncompatible, ''incompatible operation or flags''),
     (ErrBadRSlot, ''reader slot corrupted''),
     (ErrBadTxn, ''transaction is invalid''),
     (ErrBadValSize, ''invalid key or value size''),
     (ErrBadDBI, ''invalid DBI handle''),
     (ErrProblem, ''unexpected internal error''),
     (ErrBusy, ''another write transaction is running''),
     (ErrMultiVal, ''key has multiple values''),
     (ErrBadSign, ''bad signature''),
     (ErrWannaRecovery, ''recovery needed but database is read-only''),
     (ErrKeyMismatch, ''key mismatch with cursor position''),
     (ErrTooLarge, ''database too large for system''),
     (ErrThreadMismatch, ''thread attempted to use unowned object''),
     (ErrTxnOverlapping, ''overlapping transactions''),
     (ErrBacklogDepleted, ''GC backlog depleted''),
     (ErrDuplicatedCLK, ''duplicate lock file exists''),
     (ErrDanglingDBI, ''dangling DBI handle''),
     (ErrOusted, ''parked transaction was evicted''),
     (ErrMVCCRetarded, ''MVCC snapshot is too old'')]"

section \<open>Error values\<close>

datatype goerror =
    Error (Code': ErrorCode) (Message: string) (Err: "goerror option")
  | Wraps string goerror
  | Plain string

text \<open>The decimal notation of an \<open>int\<close>, as \<open>fmt.Sprintf\<close> prints \<open>%d\<close>.\<close>

fun dec_digits :: "nat \<Rightarrow> string" where
  "dec_digits n = (if n < 10 then [char_of (48 + n)]
                   else dec_digits (n div 10) @ [char_of (48 + n mod 10)])"

declare dec_digits.simps [simp del]

definition sprint_d :: "int \<Rightarrow> string" where
  "sprint_d i = (if i < 0 then ''-'' @ dec_digits (nat (- i)) else dec_digits (nat i))"

fun Error_string :: "goerror \<Rightarrow> string" where
  "Error_string (Error c m (Some e)) = ''gdbx: '' @ m @ '': '' @ Error_string e"
| "Error_string (Error c m None) = ''gdbx: '' @ m"
| "Error_string (Wraps m e) = m @ '': '' @ Error_string e"
| "Error_string (Plain m) = m"

fun Unwrap :: "goerror \<Rightarrow> goerror option" where
  "Unwrap (Error c m e) = e"
| "Unwrap (Wraps m e) = Some e"
| "Unwrap (Plain m) = None"

definition NewError :: "ErrorCode \<Rightarrow> goerror" where
  "NewError code =
     (case map_of errorMessages code of
        Some msg \<Rightarrow> Error code msg None
      | None \<Rightarrow> Error code (''unknown error code '' @ sprint_d code) None)"

definition WrapError :: "ErrorCode \<Rightarrow> goerror \<Rightarrow> goerror" where
  "WrapError code err = (case NewError code of Error c m _ \<Rightarrow> Error c m (Some err) | e \<Rightarrow> e)"

text \<open>\<open>errors.As(err, &e)\<close> with \<open>e\<close> a \<open>*Error\<close>: the first one of the chain.\<close>

fun errors_As :: "goerror \<Rightarrow> goerror option" where
  "errors_As (Error c m e) = Some (Error c m e)"
| "errors_As (Wraps m e) = errors_As e"
| "errors_As (Plain m) = None"

definition ErrKeyExistError :: goerror where "ErrKeyExistError = NewError ErrKeyExist"
definition ErrNotFoundError :: goerror where "ErrNotFoundError = NewError ErrNotFound"
definition ErrCorruptedError :: goerror where "ErrCorruptedError = NewError ErrCorrupted"
definition ErrCursorFullError :: goerror where "ErrCursorFullError = NewError ErrCursorFull"
definition ErrBadTxnError :: goerror where "ErrBadTxnError = NewError ErrBadTxn"
definition ErrBadDBIError :: goerror where "ErrBadDBIError = NewError ErrBadDBI"

definition NotFound :: goerror where "NotFound = Plain ''key not found''"

definition IsNotFound :: "goerror option \<Rightarrow> bool" where
  "IsNotFound err =
     (if err = Some ErrNotFoundError then True
      else case Option.bind err errors_As of Some e \<Rightarrow> Code' e = ErrNotFound | None \<Rightarrow> False)"

definition IsKeyExist :: "goerror option \<Rightarrow> bool" where
  "IsKeyExist err =
     (if err = Some ErrKeyExistError then True
      else case Option.bind err errors_As of Some e \<Rightarrow> Code' e = ErrKeyExist | None \<Rightarrow> False)"

definition IsKeyExists :: "goerror option \<Rightarrow> bool" where
  "IsKeyExists err = IsKeyExist err"

definition IsCorrupted :: "goerror option \<Rightarrow> bool" where
  "IsCorrupted err =
     (case Option.bind err errors_As of
        Some e \<Rightarrow> Code' e = ErrCorrupted \<or> Code' e = ErrPageNotFound | None \<Rightarrow> False)"

definition IsMapFull :: "goerror option \<Rightarrow> bool" where
  "IsMapFull err =
     (case Option.bind err errors_As of Some e \<Rightarrow> Code' e = ErrMapFull | None \<Rightarrow> False)"

definition Code :: "goerror option \<Rightarrow> ErrorCode" where
  "Code err =
     (case err of None \<Rightarrow> Success
      | Some e \<Rightarrow> (case errors_As e of Some e' \<Rightarrow> Code' e' | None \<Rightarrow> ErrProblem))"

section \<open>The codes are distinct and all have a message\<close>

lemma errorMessages_distinct: "distinct (map fst errorMessages)"
  by (simp add: errorMessages_def error_code_defs)

lemma NewError_known: "(c, m) \<in> set errorMessages \<Longrightarrow> NewError c = Error c m None"
  by (simp add: NewError_def map_of_is_SomeI [OF errorMessages_distinct])

lemma NewError_is_Error: "\<exists>m. NewError c = Error c m None"
  by (simp add: NewError_def split: option.split)

lemma Code'_NewError [simp]: "Code' (NewError c) = c"
  using NewError_is_Error [of c] by auto

lemma errors_As_NewError [simp]: "errors_As (NewError c) = Some (NewError c)"
  using NewError_is_Error [of c] by auto

lemma NewError_inject [simp]: "NewError c = NewError d \<longleftrightarrow> c = d"
  by (metis Code'_NewError)

lemma WrapError_shape: "\<exists>m. WrapError c e = Error c m (Some e)"
  using NewError_is_Error [of c] by (auto simp: WrapError_def)

lemma errors_As_Error: "errors_As e = Some e' \<Longrightarrow> \<exists>c m w. e' = Error c m w"
  by (induction e rule: errors_As.induct) auto

text \<open>The predicates decide the code of the first gdbx error of the chain, and nothing else.\<close>

lemma IsNotFound_iff: "IsNotFound err \<longleftrightarrow> Code err = ErrNotFound"
  by (cases err) (auto simp: IsNotFound_def Code_def ErrNotFoundError_def error_code_defs
      split: option.splits)

lemma IsKeyExist_iff: "IsKeyExist err \<longleftrightarrow> Code err = ErrKeyExist"
  by (cases err) (auto simp: IsKeyExist_def Code_def ErrKeyExistError_def error_code_defs
      split: option.splits)

lemma IsMapFull_iff: "IsMapFull err \<longleftrightarrow> Code err = ErrMapFull"
  by (cases err) (auto simp: IsMapFull_def Code_def error_code_defs split: option.splits)

lemma IsCorrupted_iff: "IsCorrupted err \<longleftrightarrow> Code err = ErrCorrupted \<or> Code err = ErrPageNotFound"
  by (cases err) (auto simp: IsCorrupted_def Code_def error_code_defs split: option.splits)

lemma Code_Wraps [simp]: "Code (Some (Wraps m e)) = Code (Some e)"
  by (simp add: Code_def)

lemma NotFound_not_found: "\<not> IsNotFound (Some NotFound)" "Code (Some NotFound) = ErrProblem"
  by (simp_all add: IsNotFound_iff Code_def NotFound_def error_code_defs)

end
