(* ===== verification/Page.thy ===== *)
theory Page
  imports Constants Errors
begin

text \<open>
  page.go: a page is its bytes; the header fields are little-endian fields of the first 20 bytes
  and a write through the header pointer is a write to those bytes.  All operations of the file are
  here in its order: accessors, \<open>init\<close>, \<open>validate\<close>, the accessors on raw slices, and the operations
  that change a page, which return the changed page.  Entry pointers and offsets are 16-bit words
  and wrap as in the code.
\<close>

section \<open>Header\<close>

record pageHeader =
  hTxnid :: u64
  hDupfixKsize :: u16
  hFlags :: u16
  hLower :: u16
  hUpper :: u16
  hPageNo :: u32

record page =
  Data :: bytes

abbreviation phs16 :: u16 where "phs16 \<equiv> of_int pageHeaderSize"

text \<open>\<open>None\<close> is the nil pointer; dereferencing it is a panic.\<close>

definition header :: "page \<Rightarrow> pageHeader option" where
  "header p =
     (if int (length (Data p)) < pageHeaderSize then None
      else Some \<lparr>hTxnid = g64 (Data p) 0, hDupfixKsize = g16 (Data p) 8, hFlags = g16 (Data p) 10,
                 hLower = g16 (Data p) 12, hUpper = g16 (Data p) 14, hPageNo = g32 (Data p) 16\<rparr>)"

definition setTxnid_h :: "page \<Rightarrow> u64 \<Rightarrow> page option" where
  "setTxnid_h p v = (if header p = None then None else Some (p\<lparr>Data := blit (Data p) 0 (enc64 v)\<rparr>))"
definition setDupfixKsize :: "page \<Rightarrow> u16 \<Rightarrow> page option" where
  "setDupfixKsize p v = (if header p = None then None else Some (p\<lparr>Data := blit (Data p) 8 (enc16 v)\<rparr>))"
definition setFlags :: "page \<Rightarrow> u16 \<Rightarrow> page option" where
  "setFlags p v = (if header p = None then None else Some (p\<lparr>Data := blit (Data p) 10 (enc16 v)\<rparr>))"
definition setLower :: "page \<Rightarrow> u16 \<Rightarrow> page option" where
  "setLower p v = (if header p = None then None else Some (p\<lparr>Data := blit (Data p) 12 (enc16 v)\<rparr>))"
definition setUpper :: "page \<Rightarrow> u16 \<Rightarrow> page option" where
  "setUpper p v = (if header p = None then None else Some (p\<lparr>Data := blit (Data p) 14 (enc16 v)\<rparr>))"
definition setPageNo :: "page \<Rightarrow> u32 \<Rightarrow> page option" where
  "setPageNo p v = (if header p = None then None else Some (p\<lparr>Data := blit (Data p) 16 (enc32 v)\<rparr>))"

definition pageNo :: "page \<Rightarrow> u32 option" where
  "pageNo p = do { h \<leftarrow> header p; Some (hPageNo h) }"

definition pageType :: "page \<Rightarrow> u16 option" where
  "pageType p = do { h \<leftarrow> header p; Some (hFlags h AND pageTypeMask) }"

definition isBranch :: "page \<Rightarrow> bool option" where
  "isBranch p = do { h \<leftarrow> header p; Some (hFlags h AND pageBranch \<noteq> 0) }"
definition isLeaf :: "page \<Rightarrow> bool option" where
  "isLeaf p = do { h \<leftarrow> header p; Some (hFlags h AND pageLeaf \<noteq> 0) }"
definition isLarge :: "page \<Rightarrow> bool option" where
  "isLarge p = do { h \<leftarrow> header p; Some (hFlags h AND pageLarge \<noteq> 0) }"
definition isMeta :: "page \<Rightarrow> bool option" where
  "isMeta p = do { h \<leftarrow> header p; Some (hFlags h AND pageMeta \<noteq> 0) }"
definition isDupfix :: "page \<Rightarrow> bool option" where
  "isDupfix p = do { h \<leftarrow> header p; Some (hFlags h AND pageDupfix \<noteq> 0) }"
definition isSubPage :: "page \<Rightarrow> bool option" where
  "isSubPage p = do { h \<leftarrow> header p; Some (hFlags h AND pageSubP \<noteq> 0) }"

definition numEntries :: "page \<Rightarrow> int" where
  "numEntries p = (case header p of None \<Rightarrow> 0 | Some h \<Rightarrow> drop_bit 1 (uint (hLower h)))"

definition entryOffset :: "page \<Rightarrow> int \<Rightarrow> u16 option" where
  "entryOffset p idx =
     (if idx < 0 \<or> idx \<ge> numEntries p then Some 0
      else let offset = pageHeaderSize + idx * 2 in
        do { storedOffset \<leftarrow> rd16 (Data p) offset; Some (storedOffset + phs16) })"

definition freeSpace :: "page \<Rightarrow> int" where
  "freeSpace p = (case header p of None \<Rightarrow> 0 | Some h \<Rightarrow> uint (hUpper h) - uint (hLower h))"

definition overflowPages :: "page \<Rightarrow> u32 option" where
  "overflowPages p =
     do { large \<leftarrow> isLarge p;
          if \<not> large then Some 1
          else do { h \<leftarrow> header p;
                    Some ((ucast (hLower h) :: u32) OR push_bit 16 (ucast (hUpper h))) } }"

definition setOverflowPages :: "page \<Rightarrow> u32 \<Rightarrow> page option" where
  "setOverflowPages p n =
     do { p1 \<leftarrow> setLower p (ucast (n AND 0xFFFF)); setUpper p1 (ucast (drop_bit 16 n)) }"

definition init :: "page \<Rightarrow> u32 \<Rightarrow> u16 \<Rightarrow> u16 \<Rightarrow> page option" where
  "init p pno flags pageSize =
     do { rd8 (Data p) 19;
          d1 \<leftarrow> putUint64LE (Data p) 0 0;
          let upper = pageSize - phs16;
              val = push_bit 16 (ucast flags :: u64) OR push_bit 48 (ucast upper :: u64)
          in do { d2 \<leftarrow> putUint64LE d1 8 val;
                  d3 \<leftarrow> putUint32LE d2 16 pno;
                  Some (p\<lparr>Data := d3\<rparr>) } }"

section \<open>Validation\<close>

definition pageError :: "string \<Rightarrow> goerror" where "pageError msg = Plain (''page: '' @ msg)"

definition errPageTooSmall :: goerror where "errPageTooSmall = pageError ''page too small''"
definition errPageInvalidFlags :: goerror where "errPageInvalidFlags = pageError ''invalid page flags''"
definition errPageInvalidUpper :: goerror where "errPageInvalidUpper = pageError ''invalid upper bound''"
definition errPageInvalidBounds :: goerror where "errPageInvalidBounds = pageError ''lower > upper''"

text \<open>The result is the error, or \<open>None\<close> for nil; the header exists once the length is checked.\<close>

definition validate :: "page \<Rightarrow> u64 \<Rightarrow> goerror option" where
  "validate p pageSize =
     (case header p of None \<Rightarrow> Some errPageTooSmall
      | Some h \<Rightarrow>
          if hFlags h AND NOT (pageTypeMask OR pageSpilled OR pageLoose OR pageFrozen OR pageLegacyDirty) \<noteq> 0
          then Some errPageInvalidFlags
          else if hFlags h AND pageLarge = 0 then
            (if hUpper h + phs16 > ucast pageSize then Some errPageInvalidUpper
             else if hLower h > hUpper h then Some errPageInvalidBounds
             else None)
          else None)"

section \<open>Accessors on raw slices\<close>

definition pageFlagsDirect :: "bytes \<Rightarrow> u16" where
  "pageFlagsDirect d = (if int (length d) < pageHeaderSize then 0 else le16 (d ! 10) (d ! 11))"

definition pageIsLeafDirect :: "bytes \<Rightarrow> bool" where
  "pageIsLeafDirect d \<longleftrightarrow> pageFlagsDirect d AND pageLeaf \<noteq> 0"
definition pageIsBranchDirect :: "bytes \<Rightarrow> bool" where
  "pageIsBranchDirect d \<longleftrightarrow> pageFlagsDirect d AND pageBranch \<noteq> 0"

definition pageNumEntriesDirect :: "bytes \<Rightarrow> int" where
  "pageNumEntriesDirect d =
     (if int (length d) < pageHeaderSize then 0 else drop_bit 1 (uint (le16 (d ! 12) (d ! 13))))"

definition pageEntryOffsetDirect :: "bytes \<Rightarrow> int \<Rightarrow> u16 option" where
  "pageEntryOffsetDirect d idx =
     (if idx < 0 \<or> idx \<ge> pageNumEntriesDirect d then Some 0
      else let offset = pageHeaderSize + idx * 2 in
        do { storedOffset \<leftarrow> rd16 d offset; Some (storedOffset + phs16) })"

definition pageEntryOffsetUnchecked :: "bytes \<Rightarrow> int \<Rightarrow> u16 option" where
  "pageEntryOffsetUnchecked d idx =
     do { storedOffset \<leftarrow> rd16 d (pageHeaderSize + idx * 2); Some (storedOffset + phs16) }"

definition entryOffsetFast :: "page \<Rightarrow> int \<Rightarrow> u16 option" where
  "entryOffsetFast p idx =
     do { storedOffset \<leftarrow> rd16 (Data p) (pageHeaderSize + idx * 2); Some (storedOffset + phs16) }"

definition isBranchFast :: "page \<Rightarrow> bool option" where
  "isBranchFast p = do { flags \<leftarrow> rd16 (Data p) 10; Some (flags AND pageBranch \<noteq> 0) }"

definition numEntriesFast :: "page \<Rightarrow> int option" where
  "numEntriesFast p = do { lower \<leftarrow> rd16 (Data p) 12; Some (drop_bit 1 (uint lower)) }"

definition isLeafFast :: "page \<Rightarrow> bool option" where
  "isLeafFast p = do { flags \<leftarrow> rd16 (Data p) 10; Some (flags AND pageLeaf \<noteq> 0) }"

section \<open>Node sizes\<close>

definition calcNodeSizeFast :: "page \<Rightarrow> int \<Rightarrow> int option" where
  "calcNodeSizeFast p idx =
     do { nodeOffset \<leftarrow> entryOffsetFast p idx;
          dsize \<leftarrow> rd32 (Data p) (uint nodeOffset);
          flags \<leftarrow> rd8 (Data p) (uint (nodeOffset + 4));
          ksize \<leftarrow> rd16 (Data p) (uint (nodeOffset + 6));
          let sz = 8 + uint ksize in
          do { br \<leftarrow> isBranchFast p;
               if br then Some sz
               else if flags AND 0x01 \<noteq> 0 then Some (sz + 4)
               else Some (sz + uint dsize) } }"

definition calcNodeSize :: "page \<Rightarrow> int \<Rightarrow> int option" where
  "calcNodeSize p idx =
     do { n \<leftarrow> numEntriesFast p;
          if idx < 0 \<or> idx \<ge> n then Some 0 else calcNodeSizeFast p idx }"

section \<open>Compaction\<close>

text \<open>
  The temporary buffer of a compaction: the gap of the page itself (from one offset to another),
  or a buffer of its own (the caller's scratch buffer or one from the pool).
\<close>

datatype tempbuf = GapBuf int int | OwnBuf bytes

definition tb_write :: "page \<Rightarrow> tempbuf \<Rightarrow> int \<Rightarrow> int \<Rightarrow> bytes \<Rightarrow> (page \<times> tempbuf) option" where
  "tb_write p t a e src =
     (case t of
        OwnBuf b \<Rightarrow>
          do { dst \<leftarrow> slice b a e;
               Some (p, OwnBuf (blit b (nat a) (take (length dst) src))) }
      | GapBuf lo hi \<Rightarrow>
          do { tmp \<leftarrow> slice (Data p) lo hi; dst \<leftarrow> slice tmp a e;
               Some (p\<lparr>Data := blit (Data p) (nat (lo + a)) (take (length dst) src)\<rparr>, t) })"

definition tb_read :: "page \<Rightarrow> tempbuf \<Rightarrow> int \<Rightarrow> int \<Rightarrow> bytes option" where
  "tb_read p t a e =
     (case t of
        OwnBuf b \<Rightarrow> slice b a e
      | GapBuf lo hi \<Rightarrow> do { tmp \<leftarrow> slice (Data p) lo hi; slice tmp a e })"

fun copy_out :: "page \<Rightarrow> tempbuf \<Rightarrow> u16 \<Rightarrow> (nat \<times> u16) list \<Rightarrow> (page \<times> tempbuf) option" where
  "copy_out p t tempPos [] = Some (p, t)"
| "copy_out p t tempPos ((i, s) # rest) =
     do { srcOffset \<leftarrow> entryOffsetFast p (int i);
          src \<leftarrow> slice (Data p) (uint srcOffset) (uint (srcOffset + s));
          (p', t') \<leftarrow> tb_write p t (uint tempPos) (uint (tempPos + s)) src;
          copy_out p' t' (tempPos + s) rest }"

fun write_back :: "page \<Rightarrow> tempbuf \<Rightarrow> u16 \<Rightarrow> u16 \<Rightarrow> (nat \<times> u16) list \<Rightarrow> (page \<times> u16) option" where
  "write_back p t writePos tempPos [] = Some (p, writePos)"
| "write_back p t writePos tempPos ((i, s) # rest) =
     (let writePos' = writePos - s in
      do { dst \<leftarrow> slice (Data p) (uint writePos') (uint (writePos' + s));
           src \<leftarrow> tb_read p t (uint tempPos) (uint (tempPos + s));
           d \<leftarrow> go_copy (Data p) (uint writePos') (take (length dst) src);
           d' \<leftarrow> putUint16LE d (pageHeaderSize + int i * 2) (writePos' - phs16);
           write_back (p\<lparr>Data := d'\<rparr>) t writePos' (tempPos + s) rest })"

text \<open>\<open>pooled\<close> is the buffer that \<open>compactBufferPool.Get\<close> returns.\<close>

definition getCompactBuffer :: "bytes \<Rightarrow> nat \<Rightarrow> bytes" where
  "getCompactBuffer pooled n =
     (if length pooled < n then replicate n 0 else take n pooled)"

definition compactWithBuf :: "page \<Rightarrow> bytes \<Rightarrow> bytes \<Rightarrow> (page \<times> int) option" where
  "compactWithBuf p scratchBuf pooled =
     do { n \<leftarrow> numEntriesFast p;
          h \<leftarrow> header p;
          let pageSize = (of_nat (length (Data p)) :: u16) in
          if n = 0 then
            do { p' \<leftarrow> setUpper p (pageSize - phs16);
                 Some (p', uint (pageSize - phs16 - hUpper h)) }
          else
            do { sizes \<leftarrow> those (map (\<lambda>i. map_option (\<lambda>s. of_int s :: u16) (calcNodeSizeFast p (int i))) [0..<nat n]);
                 let totalSize = sum_list sizes;
                     expectedUpper = pageSize - phs16 - totalSize
                 in
                 if hUpper h = expectedUpper then Some (p, 0)
                 else
                   let entryPointersEnd = (of_int (pageHeaderSize + n * 2) :: u16);
                       dataStart = hUpper h + phs16;
                       gapSize = uint (dataStart - entryPointersEnd);
                       indexed = zip [0..<nat n] sizes
                   in
                   do { tempBuf \<leftarrow>
                          (if gapSize \<ge> uint totalSize then
                             do { slice (Data p) (uint entryPointersEnd) (uint dataStart);
                                  Some (GapBuf (uint entryPointersEnd) (uint dataStart)) }
                           else if int (length scratchBuf) \<ge> uint totalSize then
                             Some (OwnBuf (take (unat totalSize) scratchBuf))
                           else Some (OwnBuf (getCompactBuffer pooled (unat totalSize))));
                        (p1, t1) \<leftarrow> copy_out p tempBuf 0 indexed;
                        (p2, writePos) \<leftarrow> write_back p1 t1 pageSize 0 indexed;
                        h2 \<leftarrow> header p2;
                        p3 \<leftarrow> setUpper p2 (writePos - phs16);
                        Some (p3, uint (writePos - phs16 - hUpper h2)) } } }"

definition compact :: "page \<Rightarrow> bytes \<Rightarrow> (page \<times> int) option" where
  "compact p pooled = compactWithBuf p [] pooled"

section \<open>Inserting and removing entries\<close>

text \<open>The part of \<open>insertEntryWithBuf\<close> after the space check; \<open>n\<close> is the number of entries.\<close>

definition insert_alloc :: "page \<Rightarrow> int \<Rightarrow> int \<Rightarrow> bytes \<Rightarrow> page option" where
  "insert_alloc p idx n nodeData =
     do { h \<leftarrow> header p;
          let newUpper = hUpper h - of_nat (length nodeData) in
          do { p1 \<leftarrow> setUpper p newUpper;
               d2 \<leftarrow> go_copy (Data p1) (uint (newUpper + phs16)) nodeData;
               d3 \<leftarrow> (if idx < n then
                        let src = pageHeaderSize + idx * 2; moveSize = (n - idx) * 2 in
                        do { s \<leftarrow> slice d2 src (src + moveSize); go_copy d2 (src + 2) s }
                      else Some d2);
               d4 \<leftarrow> putUint16LE d3 (pageHeaderSize + idx * 2) newUpper;
               let p4 = p1\<lparr>Data := d4\<rparr> in
               do { h4 \<leftarrow> header p4; setLower p4 (hLower h4 + 2) } } }"

definition insertEntryWithBuf :: "page \<Rightarrow> int \<Rightarrow> bytes \<Rightarrow> bytes \<Rightarrow> bytes \<Rightarrow> (page \<times> bool) option" where
  "insertEntryWithBuf p idx nodeData scratchBuf pooled =
     (let n = numEntries p; requiredSpace = 2 + int (length nodeData) in
      if idx < 0 \<or> idx > n then Some (p, False)
      else if freeSpace p < requiredSpace then
        do { (p', reclaimed) \<leftarrow> compactWithBuf p scratchBuf pooled;
             if reclaimed = 0 \<or> freeSpace p' < requiredSpace then Some (p', False)
             else do { p'' \<leftarrow> insert_alloc p' idx n nodeData; Some (p'', True) } }
      else do { p'' \<leftarrow> insert_alloc p idx n nodeData; Some (p'', True) })"

definition insertEntry :: "page \<Rightarrow> int \<Rightarrow> bytes \<Rightarrow> bytes \<Rightarrow> (page \<times> bool) option" where
  "insertEntry p idx nodeData pooled = insertEntryWithBuf p idx nodeData [] pooled"

definition removeEntry :: "page \<Rightarrow> int \<Rightarrow> (page \<times> bool) option" where
  "removeEntry p idx =
     (let n = numEntries p in
      if idx < 0 \<or> idx \<ge> n then Some (p, False)
      else
        do { d1 \<leftarrow> (if idx < n - 1 then
                     let src = pageHeaderSize + (idx + 1) * 2; dst = pageHeaderSize + idx * 2;
                         moveSize = (n - 1 - idx) * 2
                     in do { s \<leftarrow> slice (Data p) src (src + moveSize); go_copy (Data p) dst s }
                   else Some (Data p));
             let p1 = p\<lparr>Data := d1\<rparr> in
             do { h \<leftarrow> header p1; p2 \<leftarrow> setLower p1 (hLower h - 2); Some (p2, True) } })"

definition removeEntriesFrom :: "page \<Rightarrow> int \<Rightarrow> page option" where
  "removeEntriesFrom p startIdx =
     (let n = numEntries p in
      if startIdx < 0 \<or> startIdx \<ge> n then Some p
      else let entriesToRemove = n - startIdx in
        do { h \<leftarrow> header p; setLower p (hLower h - of_int (entriesToRemove * 2)) })"

definition updateEntry :: "page \<Rightarrow> int \<Rightarrow> bytes \<Rightarrow> (page \<times> bool) option" where
  "updateEntry p idx nodeData =
     (let n = numEntries p in
      if idx < 0 \<or> idx \<ge> n then Some (p, False)
      else
        do { oldSize \<leftarrow> calcNodeSize p idx;
             let newSize = int (length nodeData) in
             if newSize \<le> oldSize then
               do { offset \<leftarrow> entryOffset p idx;
                    d \<leftarrow> go_copy (Data p) (uint offset) nodeData;
                    Some (p\<lparr>Data := d\<rparr>, True) }
             else
               let extraSpace = newSize - oldSize in
               if freeSpace p < extraSpace then Some (p, False)
               else do { h \<leftarrow> header p;
                 let newUpperInt = uint (hUpper h) - newSize in
                 if newUpperInt < uint (hLower h) then Some (p, False)
                 else let newUpper = (of_int newUpperInt :: u16) in
                   do { p1 \<leftarrow> setUpper p newUpper;
                        d2 \<leftarrow> go_copy (Data p1) (uint (newUpper + phs16)) nodeData;
                        d3 \<leftarrow> putUint16LE d2 (pageHeaderSize + idx * 2) newUpper;
                        Some (p1\<lparr>Data := d3\<rparr>, True) } } })"

section \<open>Choosing a split point\<close>

text \<open>\<open>sizes\<close> are the sizes of the page's nodes, which the closure of the code reads off the page.\<close>

definition isValidSplit :: "int list \<Rightarrow> int \<Rightarrow> int \<Rightarrow> int \<Rightarrow> int \<Rightarrow> bool" where
  "isValidSplit sizes maxSpace newNodeSize insertIdx splitIdx =
     (let n = int (length sizes) in
      if splitIdx < 0 \<or> splitIdx > n then False
      else
        let leftDataSize = sum_list (take (nat splitIdx) sizes);
            rightDataSize = sum_list sizes - leftDataSize;
            leftEntries = splitIdx;
            rightEntries = n - splitIdx;
            (leftEntries, leftDataSize, rightEntries, rightDataSize) =
              (if splitIdx = 0 then (1, newNodeSize, rightEntries, rightDataSize)
               else if insertIdx < splitIdx then
                 (leftEntries + 1, leftDataSize + newNodeSize, rightEntries, rightDataSize)
               else (leftEntries, leftDataSize, rightEntries + 1, rightDataSize + newNodeSize))
        in
        if leftEntries = 0 \<or> rightEntries = 0 then False
        else leftEntries * 2 + leftDataSize \<le> maxSpace \<and> rightEntries * 2 + rightDataSize \<le> maxSpace)"

fun search_outward :: "(int \<Rightarrow> bool) \<Rightarrow> int \<Rightarrow> int \<Rightarrow> int \<Rightarrow> int list \<Rightarrow> int" where
  "search_outward valid n insertIdx mid [] = mid"
| "search_outward valid n insertIdx mid (delta # rest) =
     (if insertIdx < mid then
        (if mid - delta \<ge> 0 \<and> valid (mid - delta) then mid - delta
         else if mid + delta \<le> n \<and> valid (mid + delta) then mid + delta
         else search_outward valid n insertIdx mid rest)
      else
        (if mid + delta \<le> n \<and> valid (mid + delta) then mid + delta
         else if mid - delta \<ge> 0 \<and> valid (mid - delta) then mid - delta
         else search_outward valid n insertIdx mid rest))"

definition splitPoint :: "page \<Rightarrow> int \<Rightarrow> int \<Rightarrow> int option" where
  "splitPoint p newNodeSize insertIdx =
     do { n \<leftarrow> numEntriesFast p;
          if n = 0 then Some 0
          else
            do { sizes \<leftarrow> those (map (\<lambda>i. calcNodeSizeFast p (int i)) [0..<nat n]);
                 let maxSpace = int (length (Data p)) - pageHeaderSize;
                     totalExisting = sum_list sizes
                 in
                 if insertIdx \<ge> n \<and> n * 2 + totalExisting \<le> maxSpace \<and> 2 + newNodeSize \<le> maxSpace
                 then Some n
                 else
                   let valid = isValidSplit sizes maxSpace newNodeSize insertIdx;
                       mid = (if n div 2 = 0 then 1 else n div 2)
                   in
                   if valid mid then Some mid
                   else Some (search_outward valid n insertIdx mid [1..n]) } }"

section \<open>Compacting into another page\<close>

fun compact_entries :: "page \<Rightarrow> page \<Rightarrow> bytes \<Rightarrow> int list \<Rightarrow> page option" where
  "compact_entries p dst pooled [] = Some dst"
| "compact_entries p dst pooled (i # rest) =
     do { offset \<leftarrow> entryOffset p i;
          sz \<leftarrow> calcNodeSize p i;
          dst' \<leftarrow>
            (if sz > 0 \<and> uint offset + sz \<le> int (length (Data p)) then
               do { s \<leftarrow> slice (Data p) (uint offset) (uint (offset + of_int sz));
                    (dst', ok) \<leftarrow> insertEntry dst i s pooled;
                    Some dst' }
             else Some dst);
          compact_entries p dst' pooled rest }"

definition compactTo :: "page \<Rightarrow> page \<Rightarrow> u16 \<Rightarrow> bytes \<Rightarrow> page option" where
  "compactTo p dst pageSize pooled =
     do { h \<leftarrow> header p;
          dst \<leftarrow> setPageNo dst (hPageNo h);
          dst \<leftarrow> setFlags dst (hFlags h);
          dst \<leftarrow> setTxnid_h dst (hTxnid h);
          dst \<leftarrow> setDupfixKsize dst (hDupfixKsize h);
          dst \<leftarrow> setLower dst 0;
          dst \<leftarrow> setUpper dst (pageSize - phs16);
          compact_entries p dst pooled [0..numEntries p - 1] }"

end
