(* ===== verification/PageEntries.thy ===== *)
theory PageEntries
  imports Page
begin

text \<open>
  The page as the list of its nodes.  \<open>entries p\<close> is the list of node byte strings in entry order,
  and \<open>page_ok p\<close> is the layout invariant every operation relies on and keeps: the pointer array
  and the node area do not overlap, and the nodes are pairwise disjoint and inside the page.  The
  invariant asks for a page of less than 65536 bytes, so that no 16-bit offset wraps.
\<close>

declare size_consts [simp]

section \<open>Reading the layout\<close>

definition low :: "page \<Rightarrow> nat" where "low p = unat (g16 (Data p) 12)"
definition upp :: "page \<Rightarrow> nat" where "upp p = unat (g16 (Data p) 14)"
definition nents :: "page \<Rightarrow> nat" where "nents p = low p div 2"
definition brp :: "page \<Rightarrow> bool" where "brp p \<longleftrightarrow> g16 (Data p) 10 AND pageBranch \<noteq> 0"
definition ptr :: "page \<Rightarrow> nat \<Rightarrow> nat" where "ptr p i = unat (g16 (Data p) (20 + 2 * i))"

definition nodesz :: "bool \<Rightarrow> bytes \<Rightarrow> nat \<Rightarrow> nat" where
  "nodesz br d o1 = 8 + unat (g16 d (o1 + 6)) +
     (if br then 0 else if d ! (o1 + 4) AND 1 \<noteq> 0 then 4 else unat (g32 d o1))"

definition nsz :: "page \<Rightarrow> nat \<Rightarrow> nat" where "nsz p i = nodesz (brp p) (Data p) (20 + ptr p i)"

definition node_at :: "page \<Rightarrow> nat \<Rightarrow> bytes" where
  "node_at p i = take (nsz p i) (drop (20 + ptr p i) (Data p))"

definition entries :: "page \<Rightarrow> bytes list" where
  "entries p = map (node_at p) [0..<nents p]"

text \<open>A byte string that is a node of a branch page (\<open>br\<close>) or of a leaf page.\<close>

definition node_wf :: "bool \<Rightarrow> bytes \<Rightarrow> bool" where
  "node_wf br nd \<longleftrightarrow> 8 \<le> length nd \<and> nodesz br nd 0 = length nd"

definition page_ok :: "page \<Rightarrow> bool" where
  "page_ok p \<longleftrightarrow>
     20 \<le> length (Data p) \<and> length (Data p) < 65536 \<and> even (low p) \<and>
     low p \<le> upp p \<and> upp p + 20 \<le> length (Data p) \<and>
     (\<forall>i < nents p. upp p \<le> ptr p i \<and> 20 + ptr p i + nsz p i \<le> length (Data p)) \<and>
     (\<forall>i < nents p. \<forall>j < nents p. i \<noteq> j \<longrightarrow>
        ptr p i + nsz p i \<le> ptr p j \<or> ptr p j + nsz p j \<le> ptr p i)"

lemma length_entries [simp]: "length (entries p) = nents p"
  by (simp add: entries_def)

lemma nth_entries [simp]: "i < nents p \<Longrightarrow> entries p ! i = node_at p i"
  by (simp add: entries_def)

lemma nodesz_ge8: "8 \<le> nodesz br d o1"
  by (simp add: nodesz_def)

lemma nsz_ge8: "8 \<le> nsz p i"
  by (simp add: nsz_def nodesz_ge8)

lemma page_okD:
  assumes "page_ok p"
  shows "20 \<le> length (Data p)" "length (Data p) < 65536" "even (low p)" "low p \<le> upp p"
    "upp p + 20 \<le> length (Data p)" "low p = 2 * nents p"
  using assms by (auto simp: page_ok_def nents_def)

lemma page_ok_entry:
  assumes "page_ok p" "i < nents p"
  shows "upp p \<le> ptr p i" "20 + ptr p i + nsz p i \<le> length (Data p)" "28 + ptr p i \<le> length (Data p)"
    "22 + 2 * i \<le> length (Data p)" "ptr p i + 20 < 65536"
  using assms nsz_ge8 [of p i] page_okD [OF assms(1)] by (fastforce simp: page_ok_def)+

lemma page_ok_disjoint:
  "page_ok p \<Longrightarrow> i < nents p \<Longrightarrow> j < nents p \<Longrightarrow> i \<noteq> j \<Longrightarrow>
   ptr p i + nsz p i \<le> ptr p j \<or> ptr p j + nsz p j \<le> ptr p i"
  by (simp add: page_ok_def)

lemma length_node_at [simp]: "page_ok p \<Longrightarrow> i < nents p \<Longrightarrow> length (node_at p i) = nsz p i"
  using page_ok_entry(2) [of p i] by (simp add: node_at_def)

section \<open>What the accessors of the code return on a well-formed page\<close>

lemma header_Some:
  "20 \<le> length (Data p) \<Longrightarrow> header p =
     Some \<lparr>hTxnid = g64 (Data p) 0, hDupfixKsize = g16 (Data p) 8, hFlags = g16 (Data p) 10,
           hLower = g16 (Data p) 12, hUpper = g16 (Data p) 14, hPageNo = g32 (Data p) 16\<rparr>"
  by (simp add: header_def)

lemma set_header_simps [header_simps]:
  assumes "20 \<le> length (Data p)"
  shows "setLower p v = Some (p\<lparr>Data := blit (Data p) 12 (enc16 v)\<rparr>)"
    "setUpper p v = Some (p\<lparr>Data := blit (Data p) 14 (enc16 v)\<rparr>)"
    "setFlags p v = Some (p\<lparr>Data := blit (Data p) 10 (enc16 v)\<rparr>)"
    "setDupfixKsize p v = Some (p\<lparr>Data := blit (Data p) 8 (enc16 v)\<rparr>)"
    "setTxnid_h p t = Some (p\<lparr>Data := blit (Data p) 0 (enc64 t)\<rparr>)"
    "setPageNo p n = Some (p\<lparr>Data := blit (Data p) 16 (enc32 n)\<rparr>)"
  using assms by (simp_all add: header_Some setLower_def setUpper_def setFlags_def
      setDupfixKsize_def setTxnid_h_def setPageNo_def)

lemma drop_bit1_uint: "drop_bit 1 (uint (w :: u16)) = int (unat w div 2)"
  "drop_bit (Suc 0) (uint (w :: u16)) = int (unat w div 2)"
  by (simp_all add: drop_bit_eq_div zdiv_int)

lemma numEntries_eq [header_simps]: "20 \<le> length (Data p) \<Longrightarrow> numEntries p = int (nents p)"
  by (simp add: numEntries_def header_Some drop_bit1_uint nents_def low_def)

lemma rd16_const: "numeral k + 1 < length d \<Longrightarrow> rd16 d (numeral k) = Some (g16 d (numeral k))"
  using rd16_Some [of "numeral k" d] by simp

lemma numEntriesFast_eq [header_simps]:
  "20 \<le> length (Data p) \<Longrightarrow> numEntriesFast p = Some (int (nents p))"
  by (simp add: numEntriesFast_def rd16_const drop_bit1_uint nents_def low_def)

lemma isBranchFast_eq [header_simps]: "20 \<le> length (Data p) \<Longrightarrow> isBranchFast p = Some (brp p)"
  by (simp add: isBranchFast_def rd16_const brp_def)

lemma freeSpace_eq [header_simps]:
  "20 \<le> length (Data p) \<Longrightarrow> freeSpace p = int (upp p) - int (low p)"
  by (simp add: freeSpace_def header_Some upp_def low_def)

lemma entryOffsetFast_eq:
  assumes "page_ok p" "i < nents p"
  shows "entryOffsetFast p (int i) = Some (of_nat (20 + ptr p i))"
proof -
  have "rd16 (Data p) (20 + int i * 2) = Some (g16 (Data p) (20 + 2 * i))"
    using rd16_Some [of "20 + 2 * i" "Data p"] page_ok_entry(4) [OF assms]
    by (simp add: mult.commute)
  then show ?thesis
    by (simp add: entryOffsetFast_def ptr_def add.commute)
qed

lemma unat_entry_off:
  "page_ok p \<Longrightarrow> i < nents p \<Longrightarrow> unat (of_nat (20 + ptr p i) :: u16) = 20 + ptr p i"
  using page_ok_entry(5) [of p i] by (simp add: unat_of_nat del: of_nat_add)

lemma uint_of_nat16: "n < 65536 \<Longrightarrow> uint (of_nat n :: u16) = int n"
  by (simp add: unsigned_of_nat take_bit_nat_eq_self)

lemma entryOffset_eq:
  assumes "page_ok p" "i < nents p"
  shows "entryOffset p (int i) = Some (of_nat (20 + ptr p i))"
  using entryOffsetFast_eq [OF assms] assms(2) page_okD(1) [OF assms(1)]
  by (simp add: entryOffset_def entryOffsetFast_def header_simps Let_def)

lemma calcNodeSizeFast_eq:
  assumes "page_ok p" "i < nents p"
  shows "calcNodeSizeFast p (int i) = Some (int (nsz p i))"
proof -
  let ?o = "20 + ptr p i"
  note e = page_ok_entry [OF assms] and l = page_okD [OF assms(1)]
  have w: "uint (of_nat ?o :: u16) = int ?o" "uint (of_nat ?o + 4 :: u16) = int (?o + 4)"
    "uint (of_nat ?o + 6 :: u16) = int (?o + 6)"
    using uint_of_nat16 [of ?o] uint_of_nat16 [of "?o + 4"] uint_of_nat16 [of "?o + 6"] e(3) l(2)
    by (simp_all add: ac_simps)
  have r: "rd32 (Data p) (int ?o) = Some (g32 (Data p) ?o)"
    "rd8 (Data p) (int (?o + 4)) = Some (Data p ! (?o + 4))"
    "rd16 (Data p) (int (?o + 6)) = Some (g16 (Data p) (?o + 6))"
    using e(3) by (intro rd32_Some rd8_Some rd16_Some; simp)+
  show ?thesis
    unfolding calcNodeSizeFast_def
    using entryOffsetFast_eq [OF assms] l(1)
    by (simp only: w r bind.bind_lunit header_simps Let_def)
       (simp add: nsz_def nodesz_def)
qed

lemma calcNodeSize_eq:
  "page_ok p \<Longrightarrow> i < nents p \<Longrightarrow> calcNodeSize p (int i) = Some (int (nsz p i))"
  by (simp add: calcNodeSize_def header_simps page_okD calcNodeSizeFast_eq)

section \<open>Frame: a node depends on its pointer and its bytes only\<close>

lemma nodesz_cong:
  assumes "\<And>k. k < 8 \<Longrightarrow> d' ! (o2 + k) = d ! (o1 + k)"
  shows "nodesz br d' o2 = nodesz br d o1"
proof -
  have "g16 d' (o2 + 6) = g16 d (o1 + 6)"
    using assms [of 6] assms [of 7] by (simp add: g16_def ac_simps)
  moreover have "d' ! (o2 + 4) = d ! (o1 + 4)" using assms [of 4] by simp
  moreover have "g32 d' o2 = g32 d o1"
    using assms [of 0] assms [of 1] assms [of 2] assms [of 3] by (simp add: g32_def)
  ultimately show ?thesis by (simp add: nodesz_def)
qed

lemma node_frame:
  assumes "brp p' = brp p" "length (Data p') = length (Data p)"
    and "20 + ptr p i + nsz p i \<le> length (Data p)" "20 + ptr p' j + nsz p i \<le> length (Data p)"
    and "\<And>k. k < nsz p i \<Longrightarrow> Data p' ! (20 + ptr p' j + k) = Data p ! (20 + ptr p i + k)"
  shows "nsz p' j = nsz p i" "node_at p' j = node_at p i"
proof -
  show sz: "nsz p' j = nsz p i"
    unfolding nsz_def assms(1)
    by (rule nodesz_cong) (use assms(5) nsz_ge8 [of p i] in auto)
  show "node_at p' j = node_at p i"
    unfolding node_at_def sz
    by (rule nth_equalityI) (use assms in auto)
qed

lemma node_wf_node_at:
  assumes "page_ok p" "i < nents p"
  shows "node_wf (brp p) (node_at p i)"
proof -
  have "nodesz (brp p) (node_at p i) 0 = nsz p i"
    unfolding nsz_def
    by (rule nodesz_cong) (use nsz_ge8 [of p i] page_ok_entry [OF assms] in \<open>auto simp: node_at_def\<close>)
  then show ?thesis
    using assms nsz_ge8 [of p i] by (simp add: node_wf_def)
qed

end
