(* ===== verification/PageOps.thy ===== *)
theory PageOps
  imports PageEntries
begin

text \<open>
  \<open>insertEntry\<close>, \<open>removeEntry\<close>, \<open>removeEntriesFrom\<close> and \<open>updateEntry\<close> as operations on the list
  of nodes.  Each keeps the layout invariant \<open>page_ok\<close> and changes \<open>entries\<close> as the list operation
  of the same name does; none of them panics on a well-formed page.
\<close>

section \<open>Building a well-formed page from the old one\<close>

text \<open>
  The rule the operations share: every node of the new page is either the old node of index
  \<open>src j\<close>, at the same place, or a fresh node below all of them.
\<close>

lemma page_okI_from:
  assumes ok: "page_ok p"
    and len: "length (Data p') = length (Data p)" and br: "brp p' = brp p"
    and low: "low p' = 2 * m" and lu: "2 * m \<le> upp p'" and up: "upp p' \<le> upp p"
    and src: "\<And>j. j < m \<Longrightarrow> j \<noteq> fresh \<Longrightarrow> src j < nents p \<and> ptr p' j = ptr p (src j)"
    and inj: "\<And>j k. j < m \<Longrightarrow> k < m \<Longrightarrow> j \<noteq> fresh \<Longrightarrow> k \<noteq> fresh \<Longrightarrow> j \<noteq> k \<Longrightarrow> src j \<noteq> src k"
    and frame: "\<And>k j. j < m \<Longrightarrow> j \<noteq> fresh \<Longrightarrow> k < nsz p (src j) \<Longrightarrow>
       Data p' ! (20 + ptr p (src j) + k) = Data p ! (20 + ptr p (src j) + k)"
    and fresh: "fresh < m \<Longrightarrow> upp p' \<le> ptr p' fresh \<and> 20 + ptr p' fresh + nsz p' fresh \<le> length (Data p)"
    and apart: "\<And>j. fresh < m \<Longrightarrow> j < m \<Longrightarrow> j \<noteq> fresh \<Longrightarrow>
       ptr p' fresh + nsz p' fresh \<le> ptr p (src j) \<or> ptr p (src j) + nsz p (src j) \<le> ptr p' fresh"
  shows "page_ok p' \<and> nents p' = m \<and> (\<forall>j < m. j \<noteq> fresh \<longrightarrow> node_at p' j = node_at p (src j))"
proof -
  note l = page_okD [OF ok]
  have n': "nents p' = m" using low by (simp add: nents_def)
  have old: "nsz p' j = nsz p (src j)" "node_at p' j = node_at p (src j)"
    "upp p \<le> ptr p' j" "20 + ptr p' j + nsz p' j \<le> length (Data p)"
    if j: "j < m" "j \<noteq> fresh" for j
  proof -
    note s = src [OF j]
    note e = page_ok_entry [OF ok conjunct1 [OF s]]
    show sz: "nsz p' j = nsz p (src j)" and na: "node_at p' j = node_at p (src j)"
      using node_frame [OF br len, of "src j" j] e s frame [OF j] by simp_all
    show "upp p \<le> ptr p' j" "20 + ptr p' j + nsz p' j \<le> length (Data p)"
      using e s sz by simp_all
  qed
  have ent: "upp p' \<le> ptr p' j \<and> 20 + ptr p' j + nsz p' j \<le> length (Data p')" if "j < m" for j
    using old [OF that] fresh that up len by (cases "j = fresh") force+
  have far: "ptr p' fresh + nsz p' fresh \<le> ptr p' j \<or> ptr p' j + nsz p' j \<le> ptr p' fresh"
    if "fresh < m" "j < m" "j \<noteq> fresh" for j
    using apart [OF that] src [OF that(2,3)] old(1) [OF that(2,3)] by simp
  have dis: "ptr p' i + nsz p' i \<le> ptr p' j \<or> ptr p' j + nsz p' j \<le> ptr p' i"
    if i: "i < m" and j: "j < m" and ne: "i \<noteq> j" for i j
  proof -
    consider "i = fresh" | "j = fresh" | "i \<noteq> fresh" "j \<noteq> fresh" by blast
    then show ?thesis
    proof cases
      case 3
      then show ?thesis
        using page_ok_disjoint [OF ok _ _ inj [OF i j 3 ne]] src [OF i 3(1)] src [OF j 3(2)]
          old(1) [OF i 3(1)] old(1) [OF j 3(2)] by simp
    qed (use far i j ne in blast)+
  qed
  have "page_ok p'"
    unfolding page_ok_def n' using l len low lu up ent dis by auto
  then show ?thesis using n' old(2) by blast
qed

section \<open>Inserting\<close>

definition shift_right :: "bytes \<Rightarrow> nat \<Rightarrow> nat \<Rightarrow> bytes" where
  "shift_right d i n = blit d (22 + 2 * i) (take (2 * (n - i)) (drop (20 + 2 * i) d))"

definition ins_bytes :: "bytes \<Rightarrow> nat \<Rightarrow> nat \<Rightarrow> u16 \<Rightarrow> u16 \<Rightarrow> bytes \<Rightarrow> bytes" where
  "ins_bytes d i n nu lo nd =
     blit (blit (shift_right (blit (blit d 14 (enc16 nu)) (unat nu + 20) nd) i n)
            (20 + 2 * i) (enc16 nu)) 12 (enc16 lo)"

lemma go_copy_nat [byte_simps]: "off \<le> length d \<Longrightarrow> go_copy d (int off) s = Some (blit d off s)"
  by (simp add: go_copy_def)

lemma putUint16LE_nat [byte_simps]:
  "off + 2 \<le> length d \<Longrightarrow> putUint16LE d (int off) v = Some (blit d off (enc16 v))"
  by (simp add: putUint16LE_def)

lemma blit_Nil [simp]: "off \<le> length d \<Longrightarrow> blit d off [] = d"
  by (simp add: blit_def)

lemma of_nat_upp [simp]: "of_nat (upp p) = g16 (Data p) 14" "of_nat (low p) = g16 (Data p) 12"
  by (simp_all add: upp_def low_def)

lemma insert_alloc_eq:
  assumes ok: "page_ok p" and i: "i \<le> nents p" and sp: "low p + 2 + length nd \<le> upp p"
  defines "nu \<equiv> of_nat (upp p - length nd) :: u16"
  shows "insert_alloc p (int i) (int (nents p)) nd =
    Some (p\<lparr>Data := ins_bytes (Data p) i (nents p) nu (of_nat (low p + 2)) nd\<rparr>)"
proof -
  let ?d = "Data p" and ?n = "nents p"
  note l = page_okD [OF ok]
  have nu: "g16 ?d 14 - of_nat (length nd) = nu"
    using sp by (simp add: nu_def of_nat_diff)
  have un: "unat nu = upp p - length nd"
    unfolding nu_def by (rule unat_of_nat16) (use l in simp)
  have off: "uint (nu + phs16) = int (unat nu + 20)"
  proof -
    have "nu + phs16 = of_nat (unat nu + 20)" by simp
    then show ?thesis by (simp only:) (rule uint_of_nat16, use un l sp in simp)
  qed
  define d1 where "d1 = blit ?d 14 (enc16 nu)"
  define d2 where "d2 = blit d1 (unat nu + 20) nd"
  define d3 where "d3 = shift_right d2 i ?n"
  have len: "length d1 = length ?d" "length d2 = length ?d"
    using l un sp by (simp_all add: d1_def d2_def)
  have room: "22 + 2 * ?n \<le> length ?d" using l sp by simp
  have len3: "length d3 = length ?d"
    using i room len by (simp add: d3_def shift_right_def)
  have c1: "20 + int i * 2 = int (20 + 2 * i)" by simp
  define sh where "sh = take (2 * (?n - i)) (drop (20 + 2 * i) d2)"
  have s1: "slice d2 (20 + int i * 2) (20 + int ?n * 2) = Some sh"
  proof -
    have "slice d2 (int (20 + 2 * i)) (int (20 + 2 * ?n)) =
      Some (take (20 + 2 * ?n - (20 + 2 * i)) (drop (20 + 2 * i) d2))"
      by (rule slice_nat) (use i room len in auto)
    then show ?thesis by (simp add: sh_def diff_mult_distrib2 mult.commute)
  qed
  have s2: "go_copy d2 (22 + int i * 2) sh = Some d3"
    using go_copy_nat [of "22 + 2 * i" d2 sh] i room len
    by (simp add: d3_def shift_right_def sh_def mult.commute)
  have s3: "d3 = d2" if "\<not> i < ?n"
    using that i room len by (simp add: d3_def shift_right_def)
  have lo: "g16 (blit d3 (20 + 2 * i) (enc16 nu)) 12 = g16 ?d 12"
    using room i len un sp l
    by (simp add: g16_blit_out d3_def shift_right_def d2_def d1_def)
  have p1: "20 \<le> length (Data (p\<lparr>Data := d\<rparr>))" if "length d = length ?d" for d
    using l that by simp
  have put: "putUint16LE d3 (20 + int i * 2) nu = Some (blit d3 (20 + 2 * i) (enc16 nu))"
    unfolding c1 using room i len3 by (intro putUint16LE_nat) simp
  have "go_copy d1 (uint (nu + phs16)) nd = Some d2"
    unfolding off d2_def by (rule go_copy_nat) (use un l sp len in simp)
  then have cp: "go_copy d1 (uint (nu + 20)) nd = Some d2" by simp
  have e1: "insert_alloc p (int i) (int ?n) nd =
     setLower (p\<lparr>Data := blit d3 (20 + 2 * i) (enc16 nu)\<rparr>) (g16 ?d 12 + 2)"
  proof (cases "i < ?n")
    case True
    then show ?thesis
      unfolding insert_alloc_def using l len len3 room i
      by (simp add: header_Some header_simps nu Let_def cp s1 s2 put lo
          flip: d1_def del: of_int_numeral)
  next
    case False
    with i have "i = ?n" by simp
    then show ?thesis
      unfolding insert_alloc_def using l len len3 room put lo s3 [OF False]
      by (simp add: header_Some header_simps nu Let_def cp flip: d1_def del: of_int_numeral)
  qed
  moreover have "length (blit d3 (20 + 2 * i) (enc16 nu)) = length ?d"
    using len3 room i by simp
  moreover have "ins_bytes ?d i ?n nu (of_nat (low p + 2)) nd =
      blit (blit d3 (20 + 2 * i) (enc16 nu)) 12 (enc16 (g16 ?d 12 + 2))"
    by (simp add: ins_bytes_def d3_def d2_def d1_def add.commute)
  ultimately show ?thesis
    using l(1) by (simp add: header_simps)
qed

text \<open>The bytes after an insertion, field by field.\<close>

lemma ins_bytes_props:
  assumes ok: "page_ok p" and i: "i \<le> nents p" and sp: "low p + 2 + length nd \<le> upp p"
  defines "nu \<equiv> of_nat (upp p - length nd) :: u16"
  defines "p' \<equiv> p\<lparr>Data := ins_bytes (Data p) i (nents p) nu (of_nat (low p + 2)) nd\<rparr>"
  shows "length (Data p') = length (Data p)" "brp p' = brp p" "low p' = low p + 2"
    "upp p' = upp p - length nd"
    "\<And>j. j \<le> nents p \<Longrightarrow>
       ptr p' j = (if j < i then ptr p j else if j = i then upp p - length nd else ptr p (j - 1))"
    "\<And>k. k < length nd \<Longrightarrow> Data p' ! (20 + (upp p - length nd) + k) = nd ! k"
    "\<And>k. upp p + 20 \<le> k \<Longrightarrow> k < length (Data p) \<Longrightarrow> Data p' ! k = Data p ! k"
    "\<And>k. k < 12 \<or> 16 \<le> k \<and> k < 20 \<Longrightarrow> Data p' ! k = Data p ! k"
proof -
  let ?d = "Data p" and ?n = "nents p"
  define u where "u = upp p - length nd"
  have ueq: "upp p = u + length nd" using sp by (simp add: u_def)
  note l = page_okD [OF ok]
  have un: "unat nu = u" unfolding nu_def u_def by (rule unat_of_nat16) (use l in simp)
  have ul: "unat (of_nat (low p + 2) :: u16) = low p + 2" by (rule unat_of_nat16) (use l sp in simp)
  have room: "22 + 2 * ?n \<le> length ?d" and gap: "22 + 2 * ?n \<le> 20 + u" using l sp ueq by simp_all
  define d2 where "d2 = blit (blit ?d 14 (enc16 nu)) (u + 20) nd"
  define sh where "sh = take (2 * (?n - i)) (drop (20 + 2 * i) d2)"
  have len2 [simp]: "length d2 = length ?d" using l ueq by (simp add: d2_def)
  have lsh [simp]: "length sh = 2 * (?n - i)" using i room by (simp add: sh_def)
  have D: "Data p' = blit (blit (blit d2 (22 + 2 * i) sh) (20 + 2 * i) (enc16 nu)) 12
      (enc16 (of_nat (low p + 2)))"
    by (simp add: p'_def ins_bytes_def shift_right_def un d2_def sh_def)
  show len: "length (Data p') = length ?d" using l room i by (simp add: D)
  have nth: "Data p' ! k =
     (if 12 \<le> k \<and> k < 14 then enc16 (of_nat (low p + 2)) ! (k - 12)
      else if 20 + 2 * i \<le> k \<and> k < 22 + 2 * i then enc16 nu ! (k - (20 + 2 * i))
      else if 22 + 2 * i \<le> k \<and> k < 22 + 2 * ?n then d2 ! (k - 2) else d2 ! k)"
    if "k < length ?d" for k
    using that room i unfolding D
    by (subst nth_blit, simp, simp, subst nth_blit, simp, simp, subst nth_blit)
       (auto simp: sh_def)
  have d2: "d2 ! k = (if u + 20 \<le> k \<and> k < u + 20 + length nd then nd ! (k - (u + 20))
      else if 14 \<le> k \<and> k < 16 then enc16 nu ! (k - 14) else ?d ! k)" if "k < length ?d" for k
    using that l ueq unfolding d2_def
    by (subst nth_blit, simp, simp, subst nth_blit) auto
  show rest: "Data p' ! k = ?d ! k" if "k < 12 \<or> 16 \<le> k \<and> k < 20" for k
    using that l gap ueq by (subst nth) (auto simp: d2)
  show upper: "Data p' ! k = ?d ! k" if "upp p + 20 \<le> k" "k < length ?d" for k
    using that gap ueq i by (subst nth) (auto simp: d2)
  show "Data p' ! (20 + (upp p - length nd) + k) = nd ! k" if "k < length nd" for k
  proof -
    define m where "m = 20 + u + k"
    have m: "22 + 2 * ?n \<le> m" "m < length ?d" "u + 20 \<le> m" "m < u + 20 + length nd"
      "m - (u + 20) = k"
      using that gap l ueq by (simp_all add: m_def)
    have "\<not> m < 14" "\<not> m < 22 + 2 * i" "\<not> m < 22 + 2 * ?n" using m(1) i by simp_all
    then have "Data p' ! m = d2 ! m" using nth [OF m(2)] by simp
    also have "\<dots> = nd ! k" using d2 [OF m(2)] m(3-5) by simp
    finally show ?thesis by (simp add: m_def u_def)
  qed
  have g10: "g16 (Data p') 10 = g16 ?d 10" using rest [of 10] rest [of 11] by (simp add: g16_def)
  then show "brp p' = brp p" by (simp add: brp_def)
  have "g16 (Data p') 12 = of_nat (low p + 2)"
    unfolding D using l room i by (intro g16_blit_same) simp
  then show "low p' = low p + 2" using ul by (simp add: low_def [of p'])
  have "g16 (Data p') 14 = nu"
    using l gap i by (simp add: g16_def nth d2 enc16_def)
  then show "upp p' = upp p - length nd" using un by (simp add: upp_def [of p'] u_def)
  show "ptr p' j = (if j < i then ptr p j else if j = i then upp p - length nd else ptr p (j - 1))"
    if "j \<le> ?n" for j
  proof -
    have r: "20 + 2 * j + 1 < length ?d" using that room by simp
    consider "j < i" | "j = i" | "i < j" by linarith
    then show ?thesis
    proof cases
      case 1
      then have "g16 (Data p') (20 + 2 * j) = g16 ?d (20 + 2 * j)"
        using r gap that by (simp add: g16_def nth d2)
      with 1 show ?thesis by (simp add: ptr_def)
    next
      case 2
      then have "g16 (Data p') (20 + 2 * j) = nu"
        using r gap by (simp add: g16_def nth enc16_def)
      with 2 un show ?thesis by (simp add: ptr_def u_def)
    next
      case 3
      then obtain j' where j': "j = Suc j'" by (cases j) auto
      have "g16 (Data p') (20 + 2 * j) = g16 ?d (20 + 2 * j')"
        using r gap that 3 by (simp add: g16_def nth d2 j')
      with 3 show ?thesis by (simp add: ptr_def j')
    qed
  qed
qed


lemma insert_alloc_ok:
  assumes ok: "page_ok p" and i: "i \<le> nents p" and sp: "low p + 2 + length nd \<le> upp p"
    and wf: "node_wf (brp p) nd"
  shows "\<exists>p'. insert_alloc p (int i) (int (nents p)) nd = Some p' \<and> page_ok p' \<and>
    entries p' = take i (entries p) @ nd # drop i (entries p) \<and>
    length (Data p') = length (Data p) \<and> brp p' = brp p \<and>
    low p' = low p + 2 \<and> upp p' = upp p - length nd \<and>
    (\<forall>k. k < 12 \<or> 16 \<le> k \<and> k < 20 \<longrightarrow> Data p' ! k = Data p ! k)"
proof -
  define p' where "p' = p\<lparr>Data := ins_bytes (Data p) i (nents p)
      (of_nat (upp p - length nd)) (of_nat (low p + 2)) nd\<rparr>"
  note b = ins_bytes_props [OF ok i sp, folded p'_def]
  note l = page_okD [OF ok]
  define src where "src j = (if j < i then j else j - 1)" for j
  have sz: "nodesz (brp p) (Data p') (20 + (upp p - length nd)) = length nd"
  proof -
    have "nodesz (brp p) (Data p') (20 + (upp p - length nd)) = nodesz (brp p) nd 0"
      by (rule nodesz_cong) (use b(6) wf in \<open>auto simp: node_wf_def\<close>)
    then show ?thesis using wf by (simp add: node_wf_def)
  qed
  have fresh: "ptr p' i = upp p - length nd" "nsz p' i = length nd" "node_at p' i = nd"
  proof -
    show p: "ptr p' i = upp p - length nd" using b(5) [OF i] by simp
    show s: "nsz p' i = length nd" using sz b(2) by (simp add: nsz_def p)
    show "node_at p' i = nd"
      unfolding node_at_def s p
      by (rule nth_equalityI) (use b(1,6) l sp in auto)
  qed
  have new: "page_ok p' \<and> nents p' = Suc (nents p) \<and>
      (\<forall>j < Suc (nents p). j \<noteq> i \<longrightarrow> node_at p' j = node_at p (src j))"
  proof (rule page_okI_from [OF ok b(1) b(2), where m = "Suc (nents p)" and fresh = i and src = src])
    fix j assume "j < Suc (nents p)" "j \<noteq> i"
    then show "src j < nents p \<and> ptr p' j = ptr p (src j)"
      using b(5) [of j] i by (auto simp: src_def)
  next
    fix k j assume "j < Suc (nents p)" "j \<noteq> i" "k < nsz p (src j)"
    moreover from this have "src j < nents p" using i by (auto simp: src_def)
    ultimately show "Data p' ! (20 + ptr p (src j) + k) = Data p ! (20 + ptr p (src j) + k)"
      using page_ok_entry [OF ok, of "src j"] by (intro b(7)) auto
  next
    fix j k assume "j < Suc (nents p)" "k < Suc (nents p)" "j \<noteq> i" "k \<noteq> i" "j \<noteq> k"
    then show "src j \<noteq> src k" by (simp add: src_def) arith
  next
    show "low p' = 2 * Suc (nents p)" using b(3) l(6) by simp
    show "2 * Suc (nents p) \<le> upp p'" "upp p' \<le> upp p" using b(4) sp l(6) by simp_all
    show "upp p' \<le> ptr p' i \<and> 20 + ptr p' i + nsz p' i \<le> length (Data p)"
      using b(4) fresh(1,2) sp l by simp
  next
    fix j assume "j < Suc (nents p)" "j \<noteq> i"
    then have "src j < nents p" using i by (auto simp: src_def)
    then show "ptr p' i + nsz p' i \<le> ptr p (src j) \<or> ptr p (src j) + nsz p (src j) \<le> ptr p' i"
      using page_ok_entry(1) [OF ok] fresh(1,2) sp by fastforce
  qed
  have "entries p' = take i (entries p) @ nd # drop i (entries p)"
  proof (rule nth_equalityI)
    fix j assume "j < length (entries p')"
    then have j: "j < Suc (nents p)" using new by simp
    then show "entries p' ! j = (take i (entries p) @ nd # drop i (entries p)) ! j"
      using new j fresh(3) i by (auto simp: nth_append nth_Cons' src_def min_def)
  qed (use new i in simp)
  then show ?thesis
    using insert_alloc_eq [OF ok i sp, folded p'_def] new b(1-4,8) by blast
qed

section \<open>Removing\<close>

text \<open>Lowering \<open>Lower\<close> after moving pointers: what the two removals have in common.\<close>

lemma remove_frame:
  assumes ok: "page_ok p" and m: "m \<le> nents p" and len: "length d = length (Data p)"
    and same: "\<And>k. k < 20 \<Longrightarrow> d ! k = Data p ! k"
    and node: "\<And>k. low p + 20 \<le> k \<Longrightarrow> k < length d \<Longrightarrow> d ! k = Data p ! k"
    and src: "\<And>j. j < m \<Longrightarrow> src j < nents p \<and> g16 d (20 + 2 * j) = g16 (Data p) (20 + 2 * src j)"
    and inj: "\<And>j k. j < m \<Longrightarrow> k < m \<Longrightarrow> j \<noteq> k \<Longrightarrow> src j \<noteq> src k"
  defines "p' \<equiv> p\<lparr>Data := blit d 12 (enc16 (of_nat (2 * m)))\<rparr>"
  shows "page_ok p' \<and> nents p' = m \<and> entries p' = map (\<lambda>j. entries p ! src j) [0..<m] \<and>
    length (Data p') = length (Data p) \<and> brp p' = brp p \<and> upp p' = upp p"
proof -
  note l = page_okD [OF ok]
  have um: "unat (of_nat (2 * m) :: u16) = 2 * m" by (rule unat_of_nat16) (use m l in simp)
  have len': "length (Data p') = length (Data p)" using len l by (simp add: p'_def)
  have nth: "Data p' ! k = d ! k" if "k < 12 \<or> 14 \<le> k" "k < length d" for k
    using that len l by (auto simp: p'_def nth_blit)
  have br: "brp p' = brp p"
    using len l nth [of 10] nth [of 11] same [of 10] same [of 11] by (simp add: brp_def g16_def)
  have up: "upp p' = upp p"
    using len l nth [of 14] nth [of 15] same [of 14] same [of 15] by (simp add: upp_def g16_def)
  have lo: "low p' = 2 * m"
    using len l um by (simp add: low_def p'_def g16_blit_same del: of_nat_mult)
  have pt: "ptr p' j = ptr p (src j)" if "j < m" for j
  proof -
    have "g16 (Data p') (20 + 2 * j) = g16 d (20 + 2 * j)"
      using nth [of "20 + 2 * j"] nth [of "20 + 2 * j + 1"] that m l len by (simp add: g16_def)
    then show ?thesis using src [OF that] by (simp add: ptr_def)
  qed
  have "page_ok p' \<and> nents p' = m \<and> (\<forall>j < m. j \<noteq> m \<longrightarrow> node_at p' j = node_at p (src j))"
  proof (rule page_okI_from [OF ok len' br lo])
    fix k j assume jk: "j < m" "j \<noteq> m" "k < nsz p (src j)"
    then have "src j < nents p" using src by blast
    note e = page_ok_entry [OF ok this]
    have "Data p' ! (20 + ptr p (src j) + k) = d ! (20 + ptr p (src j) + k)"
      using e jk l len by (intro nth) auto
    also have "\<dots> = Data p ! (20 + ptr p (src j) + k)"
      using e jk l len by (intro node) auto
    finally show "Data p' ! (20 + ptr p (src j) + k) = Data p ! (20 + ptr p (src j) + k)" .
  qed (use src inj pt up m l in auto)
  then show ?thesis using len' br up src
    by (auto simp: entries_def intro!: nth_equalityI)
qed

lemma removeEntry_out:
  "20 \<le> length (Data p) \<Longrightarrow> idx < 0 \<or> int (nents p) \<le> idx \<Longrightarrow> removeEntry p idx = Some (p, False)"
  by (auto simp: removeEntry_def header_simps Let_def)

lemma removeEntry_ok:
  assumes ok: "page_ok p" and i: "i < nents p"
  shows "\<exists>p'. removeEntry p (int i) = Some (p', True) \<and> page_ok p' \<and>
    entries p' = take i (entries p) @ drop (Suc i) (entries p) \<and>
    length (Data p') = length (Data p) \<and> brp p' = brp p \<and> upp p' = upp p \<and>
    (\<forall>k. k < 12 \<or> 16 \<le> k \<and> k < 20 \<longrightarrow> Data p' ! k = Data p ! k)"
proof -
  let ?d = "Data p" and ?n = "nents p"
  note l = page_okD [OF ok]
  have room: "20 + 2 * ?n \<le> length ?d" using l by simp
  define sh where "sh = take (2 * (?n - 1 - i)) (drop (22 + 2 * i) ?d)"
  define d1 where "d1 = blit ?d (20 + 2 * i) sh"
  have lsh [simp]: "length sh = 2 * (?n - 1 - i)" using i room by (simp add: sh_def)
  have len [simp]: "length d1 = length ?d" using i room by (simp add: d1_def)
  have s1: "slice ?d (22 + int i * 2) (20 + int ?n * 2) = Some sh"
  proof -
    have "slice ?d (int (22 + 2 * i)) (int (20 + 2 * ?n)) =
      Some (take (20 + 2 * ?n - (22 + 2 * i)) (drop (22 + 2 * i) ?d))"
      by (rule slice_nat) (use i room in auto)
    then show ?thesis by (simp add: sh_def diff_mult_distrib2 mult.commute)
  qed
  have s2: "go_copy ?d (20 + int i * 2) sh = Some d1"
    using go_copy_nat [of "20 + 2 * i" ?d sh] i room by (simp add: d1_def mult.commute)
  have nth: "d1 ! k = (if 20 + 2 * i \<le> k \<and> k < 20 + 2 * (?n - 1) then ?d ! (k + 2) else ?d ! k)"
    if "k < length ?d" for k
    using that i room unfolding d1_def by (subst nth_blit) (auto simp: sh_def add.commute)
  have hl: "g16 d1 12 = g16 ?d 12" using l by (simp add: g16_def nth)
  have low2: "of_nat (2 * (?n - Suc 0)) = g16 ?d 12 - 2"
  proof -
    have "of_nat (2 * (?n - 1)) + 2 = (of_nat (2 * (?n - 1) + 2) :: u16)" by simp
    also have "2 * (?n - 1) + 2 = low p" using i l by simp
    finally have "of_nat (2 * (?n - 1)) + 2 = g16 ?d 12" by simp
    then show ?thesis by (simp add: eq_diff_eq)
  qed
  have call: "removeEntry p (int i) =
    Some (p\<lparr>Data := blit d1 12 (enc16 (of_nat (2 * (?n - 1))))\<rparr>, True)"
  proof (cases "Suc i < ?n")
    case True
    have "pageHeaderSize + (int i + 1) * 2 = 22 + int i * 2"
      "22 + int i * 2 + (int ?n - 1 - int i) * 2 = 20 + int ?n * 2" by simp_all
    with True show ?thesis
      using i l(1)
      by (simp add: removeEntry_def header_simps Let_def s1 s2 header_Some hl low2 del: of_nat_mult)
  next
    case False
    then have "sh = []" using i by (simp add: sh_def)
    then have "d1 = ?d" using i room by (simp add: d1_def)
    with False show ?thesis
      using i l(1)
      by (simp add: removeEntry_def header_simps Let_def header_Some hl low2 del: of_nat_mult)
  qed
  have "page_ok (p\<lparr>Data := blit d1 12 (enc16 (of_nat (2 * (?n - 1))))\<rparr>) \<and>
     nents (p\<lparr>Data := blit d1 12 (enc16 (of_nat (2 * (?n - 1))))\<rparr>) = ?n - 1 \<and>
     entries (p\<lparr>Data := blit d1 12 (enc16 (of_nat (2 * (?n - 1))))\<rparr>) =
       map (\<lambda>j. entries p ! (if j < i then j else Suc j)) [0..<?n - 1] \<and>
     length (Data (p\<lparr>Data := blit d1 12 (enc16 (of_nat (2 * (?n - 1))))\<rparr>)) = length ?d \<and>
     brp (p\<lparr>Data := blit d1 12 (enc16 (of_nat (2 * (?n - 1))))\<rparr>) = brp p \<and>
     upp (p\<lparr>Data := blit d1 12 (enc16 (of_nat (2 * (?n - 1))))\<rparr>) = upp p"
  proof (rule remove_frame [OF ok])
    fix j assume "j < ?n - 1"
    then show "(if j < i then j else Suc j) < ?n \<and>
        g16 d1 (20 + 2 * j) = g16 ?d (20 + 2 * (if j < i then j else Suc j))"
      using room by (auto simp: g16_def nth add.commute)
  qed (use i l room in \<open>auto simp: nth\<close>)
  moreover have "map (\<lambda>j. entries p ! (if j < i then j else Suc j)) [0..<?n - 1] =
      take i (entries p) @ drop (Suc i) (entries p)"
    using i by (intro nth_equalityI) (auto simp: nth_append min_def)
  moreover have "\<forall>k. k < 12 \<or> 16 \<le> k \<and> k < 20 \<longrightarrow> blit d1 12 (enc16 (of_nat (2 * (?n - 1)))) ! k = ?d ! k"
    using room i by (auto simp: nth_blit nth)
  ultimately show ?thesis using call by auto
qed

lemma removeEntriesFrom_ok:
  assumes ok: "page_ok p" and i: "0 \<le> i"
  shows "\<exists>p'. removeEntriesFrom p i = Some p' \<and> page_ok p' \<and>
    entries p' = take (nat i) (entries p) \<and>
    length (Data p') = length (Data p) \<and> brp p' = brp p \<and> upp p' = upp p"
proof (cases "nat i < nents p")
  case False
  then show ?thesis
    using ok i page_okD(1) [OF ok] by (auto simp: removeEntriesFrom_def header_simps Let_def)
next
  case True
  let ?d = "Data p" and ?n = "nents p" and ?i = "nat i"
  note l = page_okD [OF ok]
  have lo: "g16 ?d 12 - of_int ((int ?n - i) * 2) = of_nat (2 * ?i)"
  proof -
    have "of_nat (2 * ?i) + of_nat ((?n - ?i) * 2) = (of_nat (2 * ?i + (?n - ?i) * 2) :: u16)"
      by simp
    also have "2 * ?i + (?n - ?i) * 2 = low p" using True l by simp
    finally have "of_nat (2 * ?i) + of_nat ((?n - ?i) * 2) = g16 ?d 12" by simp
    moreover have "(int ?n - i) * 2 = int ((?n - ?i) * 2)" using True i by (simp add: of_nat_diff)
    ultimately show ?thesis
      by (metis add_diff_cancel_right' of_int_of_nat_eq)
  qed
  have call: "removeEntriesFrom p i = Some (p\<lparr>Data := blit ?d 12 (enc16 (of_nat (2 * ?i)))\<rparr>)"
    using True i l(1) lo
    by (simp add: removeEntriesFrom_def header_simps Let_def header_Some del: of_nat_mult)
  show ?thesis
    using remove_frame [OF ok _ refl, of ?i "\<lambda>j. j"] call True
    by (auto simp: less_imp_le intro!: nth_equalityI)
qed


section \<open>Updating in place\<close>

lemma updateEntry_out:
  "20 \<le> length (Data p) \<Longrightarrow> idx < 0 \<or> int (nents p) \<le> idx \<Longrightarrow> updateEntry p idx nd = Some (p, False)"
  by (auto simp: updateEntry_def header_simps Let_def)

lemma put_entry:
  assumes ok: "page_ok p" and i: "i < nents p" and fit: "length nd \<le> nsz p i"
    and wf: "node_wf (brp p) nd"
  defines "p' \<equiv> p\<lparr>Data := blit (Data p) (20 + ptr p i) nd\<rparr>"
  shows "page_ok p' \<and> entries p' = (entries p)[i := nd] \<and> length (Data p') = length (Data p) \<and> brp p' = brp p \<and>
    (\<forall>k < 20. Data p' ! k = Data p ! k)"
proof -
  note l = page_okD [OF ok] and e = page_ok_entry [OF ok i]
  let ?o = "20 + ptr p i" and ?d = "Data p"
  have len: "length (Data p') = length ?d" using e by (simp add: p'_def)
  have nth: "Data p' ! k = (if ?o \<le> k \<and> k < ?o + length nd then nd ! (k - ?o) else ?d ! k)"
    if "k < length ?d" for k
    using that fit e unfolding p'_def by (simp add: nth_blit)
  have hdr: "g16 (Data p') k = g16 ?d k" if "k + 1 < 20 + 2 * nents p" for k
    using that e l by (simp add: g16_def nth)
  have br: "brp p' = brp p" and lo: "low p' = low p" and up: "upp p' = upp p"
    by (simp_all add: brp_def low_def upp_def hdr)
  have pt: "ptr p' j = ptr p j" if "j < nents p" for j
    using that hdr [of "20 + 2 * j"] by (simp add: ptr_def)
  have sz: "nsz p' i = length nd"
  proof -
    have "nodesz (brp p) (Data p') ?o = nodesz (brp p) nd 0"
      by (rule nodesz_cong) (use wf fit e in \<open>auto simp: nth node_wf_def\<close>)
    then show ?thesis using wf br pt [OF i] by (simp add: nsz_def node_wf_def)
  qed
  have nd: "node_at p' i = nd"
    unfolding node_at_def sz pt [OF i]
    by (rule nth_equalityI) (use len e fit in \<open>auto simp: nth\<close>)
  have "page_ok p' \<and> nents p' = nents p \<and> (\<forall>j < nents p. j \<noteq> i \<longrightarrow> node_at p' j = node_at p j)"
  proof (rule page_okI_from [OF ok len br])
    fix k j assume jk: "j < nents p" "j \<noteq> i" "k < nsz p j"
    have "ptr p i + nsz p i \<le> ptr p j \<or> ptr p j + nsz p j \<le> ptr p i"
      using page_ok_disjoint [OF ok] jk i by simp
    then show "Data p' ! (20 + ptr p j + k) = Data p ! (20 + ptr p j + k)"
      using jk page_ok_entry [OF ok jk(1)] fit by (auto simp: nth)
  next
    fix j assume "j < nents p" "j \<noteq> i"
    then have "ptr p i + nsz p i \<le> ptr p j \<or> ptr p j + nsz p j \<le> ptr p i"
      using page_ok_disjoint [OF ok] i by simp
    then show "ptr p' i + nsz p' i \<le> ptr p j \<or> ptr p j + nsz p j \<le> ptr p' i"
      using fit sz pt [OF i] by auto
  qed (use lo up l pt i sz e fit in auto)
  moreover from this have "entries p' = (entries p)[i := nd]"
    by (intro nth_equalityI [of "entries p'"]) (use nd i in \<open>auto simp: nth_list_update\<close>)
  moreover have "\<forall>k < 20. Data p' ! k = Data p ! k" using l by (simp add: nth)
  ultimately show ?thesis using len br by blast
qed

lemma updateEntry_in_place:
  assumes ok: "page_ok p" and i: "i < nents p" and fit: "length nd \<le> nsz p i" and wf: "node_wf (brp p) nd"
  shows "\<exists>p'. updateEntry p (int i) nd = Some (p', True) \<and> page_ok p' \<and>
    entries p' = (entries p)[i := nd] \<and> length (Data p') = length (Data p) \<and> brp p' = brp p \<and>
    (\<forall>k. k < 12 \<or> 16 \<le> k \<and> k < 20 \<longrightarrow> Data p' ! k = Data p ! k)"
proof -
  note l = page_okD [OF ok] and e = page_ok_entry [OF ok i]
  have "updateEntry p (int i) nd = Some (p\<lparr>Data := blit (Data p) (20 + ptr p i) nd\<rparr>, True)"
    using i l(1) fit e(3) go_copy_nat [of "20 + ptr p i" "Data p" nd] uint_of_nat16 [of "20 + ptr p i"] e(5)
    by (simp add: updateEntry_def header_simps Let_def calcNodeSize_eq [OF ok i] entryOffset_eq [OF ok i])
  then show ?thesis using put_entry [OF assms] by auto
qed

lemma updateEntry_grow:
  assumes ok: "page_ok p" and i: "i < nents p" and big: "nsz p i < length nd"
    and sp: "low p + length nd \<le> upp p" and wf: "node_wf (brp p) nd"
  shows "\<exists>p'. updateEntry p (int i) nd = Some (p', True) \<and> page_ok p' \<and>
    entries p' = (entries p)[i := nd] \<and> length (Data p') = length (Data p) \<and> brp p' = brp p \<and>
    (\<forall>k. k < 12 \<or> 16 \<le> k \<and> k < 20 \<longrightarrow> Data p' ! k = Data p ! k)"
proof -
  note l = page_okD [OF ok] and e = page_ok_entry [OF ok i]
  let ?d = "Data p"
  define u where "u = upp p - length nd"
  define nu :: u16 where "nu = of_nat u"
  have ueq: "upp p = u + length nd" using sp by (simp add: u_def)
  have un: "unat nu = u" unfolding nu_def by (rule unat_of_nat16) (use l ueq in simp)
  have off: "uint (nu + 20) = int (u + 20)"
  proof -
    have "nu + 20 = of_nat (u + 20)" by (simp add: nu_def)
    then show ?thesis by (simp only:) (rule uint_of_nat16, use l ueq in simp)
  qed
  define d1 where "d1 = blit ?d 14 (enc16 nu)"
  define d2 where "d2 = blit d1 (u + 20) nd"
  define d3 where "d3 = blit d2 (20 + 2 * i) (enc16 nu)"
  define p' where "p' = p\<lparr>Data := d3\<rparr>"
  have len1 [simp]: "length d1 = length ?d" using l by (simp add: d1_def)
  have len2 [simp]: "length d2 = length ?d" using l ueq by (simp add: d2_def)
  have len3 [simp]: "length d3 = length ?d" using e by (simp add: d3_def)
  have gap: "20 + 2 * nents p \<le> 20 + u" using sp l ueq by simp
  have cp: "go_copy d1 (uint (nu + 20)) nd = Some d2"
    unfolding off d2_def by (rule go_copy_nat) (use l ueq in simp)
  have pu: "putUint16LE d2 (20 + int i * 2) nu = Some d3"
    using putUint16LE_nat [of "20 + 2 * i" d2 nu] e by (simp add: d3_def mult.commute)
  have nui: "of_int (int (upp p) - int (length nd)) = nu"
    using ueq by (simp add: nu_def)
  have uu: "uint (g16 ?d 14) = int (upp p)" "uint (g16 ?d 12) = int (low p)"
    by (simp_all add: upp_def low_def)
  have call: "updateEntry p (int i) nd = Some (p', True)"
    using i l(1) big sp nsz_ge8 [of p i]
    by (simp add: updateEntry_def header_simps Let_def calcNodeSize_eq [OF ok i] header_Some uu
        nui p'_def cp pu d1_def [symmetric] del: of_int_diff)
  have nth: "d3 ! k = (if 20 + 2 * i \<le> k \<and> k < 22 + 2 * i then enc16 nu ! (k - (20 + 2 * i))
      else if u + 20 \<le> k \<and> k < u + 20 + length nd then nd ! (k - (u + 20))
      else if 14 \<le> k \<and> k < 16 then enc16 nu ! (k - 14) else ?d ! k)" if "k < length ?d" for k
    using that e l ueq unfolding d3_def d2_def d1_def
    by (subst nth_blit, simp, simp, subst nth_blit, simp, simp, subst nth_blit) auto
  have len: "length (Data p') = length ?d" by (simp add: p'_def)
  have br: "brp p' = brp p" and lo: "low p' = low p"
    using l gap by (simp_all add: brp_def low_def p'_def g16_def nth)
  have up: "upp p' = u"
    using l gap un e by (simp add: upp_def p'_def g16_def nth enc16_def)
  have pt: "ptr p' j = (if j = i then u else ptr p j)" if "j < nents p" for j
  proof -
    have "g16 d3 (20 + 2 * j) = (if j = i then nu else g16 ?d (20 + 2 * j))"
      using that gap l i by (auto simp: g16_def nth enc16_def)
    then show ?thesis using un by (simp add: ptr_def p'_def)
  qed
  have sz: "nsz p' i = length nd"
  proof -
    have "nodesz (brp p) d3 (20 + u) = nodesz (brp p) nd 0"
      by (rule nodesz_cong) (use wf gap l ueq i in \<open>auto simp: nth node_wf_def\<close>)
    then show ?thesis using wf br pt [OF i] by (simp add: nsz_def node_wf_def p'_def)
  qed
  have nd: "node_at p' i = nd"
    unfolding node_at_def sz using pt [OF i] l ueq gap i
    by (intro nth_equalityI) (auto simp: nth p'_def)
  have old: "u + length nd \<le> ptr p j" if "j < nents p" for j
    using page_ok_entry(1) [OF ok that] ueq by simp
  have "page_ok p' \<and> nents p' = nents p \<and> (\<forall>j < nents p. j \<noteq> i \<longrightarrow> node_at p' j = node_at p j)"
  proof (rule page_okI_from [OF ok len br])
    fix k j assume jk: "j < nents p" "j \<noteq> i" "k < nsz p j"
    show "Data p' ! (20 + ptr p j + k) = Data p ! (20 + ptr p j + k)"
      using jk page_ok_entry [OF ok jk(1)] old [OF jk(1)] gap i by (auto simp: nth p'_def)
  next
    fix j assume "j < nents p" "j \<noteq> i"
    then show "ptr p' i + nsz p' i \<le> ptr p j \<or> ptr p j + nsz p j \<le> ptr p' i"
      using old [of j] sz pt [OF i] by auto
  qed (use lo up l pt i sz gap ueq in auto)
  moreover from this have "entries p' = (entries p)[i := nd]"
    by (intro nth_equalityI [of "entries p'"]) (use nd i in \<open>auto simp: nth_list_update\<close>)
  moreover have "\<forall>k. k < 12 \<or> 16 \<le> k \<and> k < 20 \<longrightarrow> Data p' ! k = Data p ! k"
    using l gap by (auto simp: nth p'_def)
  ultimately show ?thesis using call len br by blast
qed

lemma updateEntry_full:
  assumes ok: "page_ok p" and i: "i < nents p" and big: "nsz p i < length nd"
    and sp: "upp p < low p + length nd"
  shows "updateEntry p (int i) nd = Some (p, False)"
proof -
  have uu: "uint (g16 (Data p) 14) = int (upp p)" "uint (g16 (Data p) 12) = int (low p)"
    by (simp_all add: upp_def low_def)
  show ?thesis
    using i page_okD [OF ok] big sp
    by (simp add: updateEntry_def header_simps Let_def calcNodeSize_eq [OF ok i] header_Some uu)
qed

end
