(* ===== verification/PageCompact.thy ===== *)
theory PageCompact
  imports PageOps
begin

text \<open>
  Compaction: \<open>compactWithBuf\<close> repacks the nodes against the end of the page.  Whatever temporary
  buffer it uses (the page's own gap, the caller's scratch buffer, a pooled one), it keeps the list
  of nodes and leaves no hole; \<open>insertEntry\<close> therefore succeeds exactly when the nodes and their
  pointers fit.
\<close>

section \<open>The space the nodes take\<close>

definition pre :: "page \<Rightarrow> nat \<Rightarrow> nat" where "pre p i = (\<Sum>j < i. nsz p j)"
definition total :: "page \<Rightarrow> nat" where "total p = pre p (nents p)"

lemma pre_Suc [simp]: "pre p (Suc i) = pre p i + nsz p i" and pre_0 [simp]: "pre p 0 = 0"
  by (simp_all add: pre_def)

lemma pre_mono: "i \<le> j \<Longrightarrow> pre p i \<le> pre p j"
  unfolding pre_def by (rule sum_mono2) auto

lemma pre_le_total: "i < nents p \<Longrightarrow> pre p i + nsz p i \<le> total p"
  using pre_mono [of "Suc i" "nents p" p] by (simp add: total_def)

lemma pre_le_total': "i \<le> nents p \<Longrightarrow> pre p i \<le> total p"
  unfolding total_def by (rule pre_mono)

lemma total_entries: "page_ok p \<Longrightarrow> total p = sum_list (map length (entries p))"
  by (simp add: total_def pre_def entries_def comp_def sum_list_sum_nth atLeast0LessThan)

text \<open>Disjoint nodes inside the node area take no more than the area.\<close>

lemma total_bound:
  assumes ok: "page_ok p" shows "upp p + total p + 20 \<le> length (Data p)"
proof -
  define I where "I i = {ptr p i ..< ptr p i + nsz p i}" for i
  note l = page_okD [OF ok]
  have "total p = (\<Sum>i \<in> {..< nents p}. card (I i))"
    by (simp add: total_def pre_def I_def)
  also have "\<dots> = card (\<Union>i \<in> {..< nents p}. I i)"
  proof (rule card_UN_disjoint [symmetric])
    show "\<forall>i \<in> {..< nents p}. \<forall>j \<in> {..< nents p}. i \<noteq> j \<longrightarrow> I i \<inter> I j = {}"
    proof (intro ballI impI)
      fix i j assume "i \<in> {..< nents p}" "j \<in> {..< nents p}" "i \<noteq> j"
      then have "ptr p i + nsz p i \<le> ptr p j \<or> ptr p j + nsz p j \<le> ptr p i"
        using page_ok_disjoint [OF ok] by simp
      then show "I i \<inter> I j = {}" by (auto simp: I_def)
    qed
  qed (auto simp: I_def)
  also have "\<dots> \<le> card {upp p ..< length (Data p) - 20}"
  proof (rule card_mono)
    show "(\<Union>i \<in> {..< nents p}. I i) \<subseteq> {upp p ..< length (Data p) - 20}"
      using page_ok_entry [OF ok] by (fastforce simp: I_def)
  qed simp
  finally show ?thesis using l by simp
qed

section \<open>The temporary buffer\<close>

definition tb_ok :: "nat \<Rightarrow> nat \<Rightarrow> tempbuf \<Rightarrow> bool" where
  "tb_ok L H t \<longleftrightarrow> (case t of GapBuf lo hi \<Rightarrow> lo = int L \<and> hi = int H | OwnBuf b \<Rightarrow> True)"

definition tb_bytes :: "page \<Rightarrow> tempbuf \<Rightarrow> bytes" where
  "tb_bytes p t = (case t of GapBuf lo hi \<Rightarrow> take (nat hi - nat lo) (drop (nat lo) (Data p)) | OwnBuf b \<Rightarrow> b)"

text \<open>Two pages that agree outside the gap.\<close>

definition same_out :: "nat \<Rightarrow> nat \<Rightarrow> page \<Rightarrow> page \<Rightarrow> bool" where
  "same_out L H p q \<longleftrightarrow> length (Data p) = length (Data q) \<and>
     (\<forall>k. (k < L \<or> H \<le> k) \<and> k < length (Data q) \<longrightarrow> Data p ! k = Data q ! k)"

lemma blit_gap:
  assumes "L + n \<le> length d" "a + length s \<le> n"
  shows "take n (drop L (blit d (L + a) s)) = blit (take n (drop L d)) a s"
  using assms by (intro nth_equalityI) (auto simp: nth_blit)

lemma tb_write_ok:
  assumes t: "tb_ok L H t" and LH: "L \<le> H" "H \<le> length (Data p)"
    and a: "a + length src \<le> length (tb_bytes p t)"
  shows "\<exists>p' t'. tb_write p t (int a) (int (a + length src)) src = Some (p', t') \<and> tb_ok L H t' \<and>
     same_out L H p' p \<and> tb_bytes p' t' = blit (tb_bytes p t) a src"
proof (cases t)
  case (OwnBuf b)
  then show ?thesis
    using a slice_nat [of a "a + length src" b]
    by (simp add: tb_write_def tb_bytes_def tb_ok_def same_out_def)
next
  case (GapBuf lo hi)
  with t have lh: "lo = int L" "hi = int H" by (simp_all add: tb_ok_def)
  have tb: "tb_bytes p t = take (H - L) (drop L (Data p))"
    by (simp add: tb_bytes_def GapBuf lh)
  have s1: "slice (Data p) (int L) (int H) = Some (take (H - L) (drop L (Data p)))"
    by (rule slice_nat) (use LH in auto)
  have a': "a + length src \<le> H - L" using a LH by (simp add: tb)
  have s2: "slice (take (H - L) (drop L (Data p))) (int a) (int (a + length src)) =
      Some (take (length src) (drop a (take (H - L) (drop L (Data p)))))"
    using slice_nat [of a "a + length src" "take (H - L) (drop L (Data p))"] a' LH by simp
  have n: "nat (int L + int a) = L + a" by simp
  have "tb_write p t (int a) (int (a + length src)) src =
     Some (p\<lparr>Data := blit (Data p) (L + a) src\<rparr>, t)"
    unfolding tb_write_def GapBuf lh tempbuf.case s1 bind.bind_lunit s2 n
    using a' LH by simp
  then show ?thesis
    using t a' LH GapBuf lh
    by (auto simp: same_out_def nth_blit tb_bytes_def blit_gap)
qed

lemma tb_read_ok:
  assumes t: "tb_ok L H t" and LH: "L \<le> H" "H \<le> length (Data p)"
    and a: "a + n \<le> length (tb_bytes p t)"
  shows "tb_read p t (int a) (int (a + n)) = Some (take n (drop a (tb_bytes p t)))"
proof (cases t)
  case (OwnBuf b)
  then show ?thesis
    using a slice_nat [of a "a + n" b] by (simp add: tb_read_def tb_bytes_def)
next
  case (GapBuf lo hi)
  with t have lh: "lo = int L" "hi = int H" by (simp_all add: tb_ok_def)
  have tb: "tb_bytes p t = take (H - L) (drop L (Data p))"
    by (simp add: tb_bytes_def GapBuf lh)
  have s1: "slice (Data p) (int L) (int H) = Some (tb_bytes p t)"
    unfolding tb by (rule slice_nat) (use LH in auto)
  show ?thesis
    unfolding tb_read_def GapBuf lh tempbuf.case s1 [unfolded GapBuf lh] bind.bind_lunit
    using slice_nat [of a "a + n" "tb_bytes p t"] a by (simp add: GapBuf lh)
qed

section \<open>Copying the nodes out\<close>

lemma uint_pos16: "n < 65536 \<Longrightarrow> uint (of_nat n :: u16) = int n"
  by (rule uint_of_nat16)

lemma blit_blit_append:
  assumes "a + length s + length s' \<le> length d"
  shows "blit (blit d a s) (a + length s) s' = blit d a (s @ s')"
  using assms by (intro nth_equalityI) (auto simp: nth_blit nth_append)

lemma copy_out_ok:
  assumes ok: "page_ok q" and i: "i \<le> nents q"
    and t: "tb_ok L H t" and L: "L = 20 + 2 * nents q" and H: "H = upp q + 20"
    and s: "same_out L H p q" and room: "total q \<le> length (tb_bytes p t)"
  shows "\<exists>p' t'. copy_out p t (of_nat (pre q i)) (map (\<lambda>j. (j, of_nat (nsz q j))) [i..<nents q])
      = Some (p', t') \<and> tb_ok L H t' \<and> same_out L H p' q \<and>
      tb_bytes p' t' = blit (tb_bytes p t) (pre q i) (concat (map (node_at q) [i..<nents q]))"
  using i t s room
proof (induction "nents q - i" arbitrary: i p t)
  case 0
  then show ?case using pre_le_total' [of i q] by (auto simp: total_def)
next
  case (Suc m)
  note l = page_okD [OF ok] and tb = total_bound [OF ok]
  have i: "i < nents q" using Suc.hyps by simp
  note e = page_ok_entry [OF ok i]
  have LH: "L \<le> H" "H \<le> length (Data p)" using l Suc.prems(3) by (simp_all add: L H same_out_def)
  have out: "Data p ! k = Data q ! k" if "k < L \<or> H \<le> k" "k < length (Data q)" for k
    using Suc.prems(3) that by (simp add: same_out_def)
  have len: "length (Data p) = length (Data q)" using Suc.prems(3) by (simp add: same_out_def)
  have off: "entryOffsetFast p (int i) = Some (of_nat (20 + ptr q i))"
  proof -
    have "g16 (Data p) (20 + 2 * i) = g16 (Data q) (20 + 2 * i)"
      using out [of "20 + 2 * i"] out [of "20 + 2 * i + 1"] i e(4) by (simp add: g16_def L)
    moreover have "rd16 (Data p) (20 + int i * 2) = Some (g16 (Data p) (20 + 2 * i))"
      using rd16_Some [of "20 + 2 * i" "Data p"] e(4) len by (simp add: mult.commute)
    ultimately show ?thesis by (simp add: entryOffsetFast_def ptr_def add.commute)
  qed
  have src: "slice (Data p) (uint (of_nat (20 + ptr q i) :: u16))
      (uint (of_nat (20 + ptr q i) + of_nat (nsz q i) :: u16)) = Some (node_at q i)"
  proof -
    have 1: "uint (of_nat (20 + ptr q i) :: u16) = int (20 + ptr q i)"
      by (rule uint_of_nat16) (use e l in simp)
    have 2: "uint (of_nat (20 + ptr q i) + of_nat (nsz q i) :: u16) = int (20 + ptr q i + nsz q i)"
      unfolding of_nat_add [symmetric] by (rule uint_of_nat16) (use e l in simp)
    have "take (nsz q i) (drop (20 + ptr q i) (Data p)) = node_at q i"
      unfolding node_at_def using e len
      by (intro nth_equalityI) (auto intro!: out simp: H)
    then show ?thesis
      unfolding 1 2 using slice_nat [of "20 + ptr q i" "20 + ptr q i + nsz q i" "Data p"] e len by simp
  qed
  have pos: "uint (of_nat (pre q i) :: u16) = int (pre q i)"
    "uint (of_nat (pre q i) + of_nat (nsz q i) :: u16) = int (pre q i + length (node_at q i))"
    using pre_le_total [OF i] tb l length_node_at [OF ok i]
    by (simp_all add: uint_of_nat16 flip: of_nat_add)
  have "pre q i + length (node_at q i) \<le> length (tb_bytes p t)"
    using pre_le_total [OF i] Suc.prems(4) length_node_at [OF ok i] by simp
  from tb_write_ok [OF Suc.prems(2) LH this] obtain p1 t1 where
    w: "tb_write p t (int (pre q i)) (int (pre q i + length (node_at q i))) (node_at q i) = Some (p1, t1)"
    and t1: "tb_ok L H t1" and s1: "same_out L H p1 p"
    and b1: "tb_bytes p1 t1 = blit (tb_bytes p t) (pre q i) (node_at q i)" by blast
  have s1': "same_out L H p1 q" using s1 Suc.prems(3) by (auto simp: same_out_def)
  have lb: "length (tb_bytes p1 t1) = length (tb_bytes p t)"
    using b1 pre_le_total [OF i] Suc.prems(4) by simp
  have m: "m = nents q - Suc i" using Suc.hyps(2) by simp
  have i': "Suc i \<le> nents q" and room': "total q \<le> length (tb_bytes p1 t1)"
    using i lb Suc.prems(4) by simp_all
  obtain p2 t2 where IH: "copy_out p1 t1 (of_nat (pre q (Suc i)))
      (map (\<lambda>j. (j, of_nat (nsz q j))) [Suc i..<nents q]) = Some (p2, t2)"
    "tb_ok L H t2" "same_out L H p2 q"
    "tb_bytes p2 t2 = blit (tb_bytes p1 t1) (pre q (Suc i)) (concat (map (node_at q) [Suc i..<nents q]))"
    using Suc.hyps(1) [OF m i' t1 s1' room'] by blast
  have cl: "pre q i + length (node_at q i) + length (concat (map (node_at q) [Suc i..<nents q])) = total q"
  proof -
    have "length (concat (map (node_at q) [Suc i..<nents q])) = (\<Sum>j \<in> {Suc i..<nents q}. nsz q j)"
      using ok by (simp add: length_concat comp_def interv_sum_list_conv_sum_set_nat)
    moreover have "pre q (Suc i) + (\<Sum>j \<in> {Suc i..<nents q}. nsz q j) = total q"
      unfolding pre_def total_def using i
      by (subst sum.union_disjoint [symmetric]) (auto intro!: sum.cong)
    ultimately show ?thesis using length_node_at [OF ok i] by simp
  qed
  have "blit (blit (tb_bytes p t) (pre q i) (node_at q i)) (pre q (Suc i)) (concat (map (node_at q) [Suc i..<nents q]))
     = blit (tb_bytes p t) (pre q i) (concat (map (node_at q) [i..<nents q]))"
    using blit_blit_append [of "pre q i" "node_at q i" "concat (map (node_at q) [Suc i..<nents q])" "tb_bytes p t"]
      cl Suc.prems(4) i length_node_at [OF ok i] by (simp add: upt_conv_Cons)
  then show ?case
    using IH i w unfolding upt_conv_Cons [OF i]
    by (simp add: off src pos b1 del: of_nat_add) (simp add: add.commute)
qed

section \<open>Writing them back\<close>

text \<open>Where node \<open>j\<close> of \<open>q\<close> starts once it is packed.\<close>

definition packed :: "page \<Rightarrow> nat \<Rightarrow> nat" where
  "packed q j = length (Data q) - pre q (Suc j)"

definition written :: "page \<Rightarrow> page \<Rightarrow> nat \<Rightarrow> bool" where
  "written q p j \<longleftrightarrow> g16 (Data p) (20 + 2 * j) = of_nat (packed q j - 20) \<and>
     take (nsz q j) (drop (packed q j) (Data p)) = node_at q j"

lemma packed_bounds:
  assumes ok: "page_ok q" and j: "j < nents q"
  shows "upp q + 20 \<le> packed q j" "packed q j + nsz q j = length (Data q) - pre q j"
    "packed q j + nsz q j \<le> length (Data q)"
  using total_bound [OF ok] pre_le_total [OF j] by (simp_all add: packed_def)

lemma tb_bytes_cong:
  assumes "tb_ok L H t" "H \<le> length (Data p)" "length (Data p') = length (Data p)"
    "\<And>k. L \<le> k \<Longrightarrow> k < H \<Longrightarrow> Data p' ! k = Data p ! k"
  shows "tb_bytes p' t = tb_bytes p t"
  using assms
  by (cases t) (auto simp: tb_bytes_def tb_ok_def intro!: nth_equalityI)

lemma write_back_ok:
  assumes ok: "page_ok q" and i: "i \<le> nents q"
    and t: "tb_ok L H t" and L: "L = 20 + 2 * nents q" and H: "H = upp q + 20"
    and room: "total q \<le> length (tb_bytes p t)"
    and tb: "\<And>j. j < nents q \<Longrightarrow> take (nsz q j) (drop (pre q j) (tb_bytes p t)) = node_at q j"
    and len: "length (Data p) = length (Data q)"
    and hdr: "\<And>k. k < 20 \<Longrightarrow> Data p ! k = Data q ! k"
    and wr: "\<And>j. j < i \<Longrightarrow> written q p j"
  shows "\<exists>p'. write_back p t (of_nat (length (Data q) - pre q i)) (of_nat (pre q i))
        (map (\<lambda>j. (j, of_nat (nsz q j))) [i..<nents q]) =
        Some (p', of_nat (length (Data q) - total q)) \<and>
      length (Data p') = length (Data q) \<and> (\<forall>k < 20. Data p' ! k = Data q ! k) \<and>
      (\<forall>j < nents q. written q p' j)"
  using i room tb len hdr wr
proof (induction "nents q - i" arbitrary: i p)
  case 0
  then show ?case by (auto simp: total_def)
next
  case (Suc m)
  note l = page_okD [OF ok] and tbd = total_bound [OF ok]
  have i: "i < nents q" using Suc.hyps by simp
  have m: "m = nents q - Suc i" using Suc.hyps(2) by simp
  note pk = packed_bounds [OF ok i] and e = page_ok_entry [OF ok i] and ln = length_node_at [OF ok i]
  have LH: "L \<le> H" "H \<le> length (Data p)" using l Suc.prems(4) by (simp_all add: L H)
  let ?nd = "node_at q i" and ?w = "packed q i"
  define wp :: u16 where "wp = of_nat ?w"
  have wsub: "of_nat (length (Data q) - pre q i) - of_nat (nsz q i) = wp"
    using pk by (simp add: wp_def flip: of_nat_diff) (simp add: packed_def)
  have uw: "uint wp = int ?w" "uint (wp + of_nat (nsz q i)) = int (?w + nsz q i)"
  proof -
    show "uint wp = int ?w" unfolding wp_def by (rule uint_of_nat16) (use pk l in simp)
    show "uint (wp + of_nat (nsz q i)) = int (?w + nsz q i)"
      unfolding wp_def of_nat_add [symmetric] by (rule uint_of_nat16) (use pk l in simp)
  qed
  have wp20: "wp - 20 = of_nat (?w - 20)"
    using pk by (simp add: wp_def of_nat_diff)
  have up: "uint (of_nat (pre q i) :: u16) = int (pre q i)"
    "uint (of_nat (pre q i) + of_nat (nsz q i) :: u16) = int (pre q i + nsz q i)"
    using pre_le_total [OF i] tbd l by (simp_all add: uint_of_nat16 flip: of_nat_add)
  have dst: "slice (Data p) (int ?w) (int (?w + nsz q i)) = Some (take (nsz q i) (drop ?w (Data p)))"
    using slice_nat [of ?w "?w + nsz q i" "Data p"] pk(3) Suc.prems(4) by simp
  have rd: "tb_read p t (int (pre q i)) (int (pre q i + nsz q i)) = Some ?nd"
    using tb_read_ok [OF t LH, of "pre q i" "nsz q i"] pre_le_total [OF i] Suc.prems(2,3) i by simp
  define d where "d = blit (Data p) ?w ?nd"
  define d' where "d' = blit d (20 + 2 * i) (enc16 (wp - 20))"
  have ld: "length d = length (Data q)" "length d' = length (Data q)"
    using pk ln Suc.prems(4) e(4) by (simp_all add: d_def d'_def)
  have cp: "go_copy (Data p) (int ?w) ?nd = Some d"
    unfolding d_def by (rule go_copy_nat) (use pk Suc.prems(4) in simp)
  have pt: "putUint16LE d (20 + int i * 2) (wp - 20) = Some d'"
    using putUint16LE_nat [of "20 + 2 * i" d "wp - 20"] e(4) ld by (simp add: d'_def mult.commute)
  have nth: "d' ! k = (if 20 + 2 * i \<le> k \<and> k < 22 + 2 * i then enc16 (wp - 20) ! (k - (20 + 2 * i))
     else if ?w \<le> k \<and> k < ?w + nsz q i then ?nd ! (k - ?w) else Data p ! k)" if "k < length (Data q)" for k
    using that pk ln Suc.prems(4) e(4) unfolding d'_def d_def
    by (subst nth_blit, simp, simp, subst nth_blit) auto
  define p1 where "p1 = p\<lparr>Data := d'\<rparr>"
  have far: "22 + 2 * i \<le> L" "L \<le> ?w" "H \<le> ?w" using i pk l by (simp_all add: L H)
  have tb1: "tb_bytes p1 t = tb_bytes p t"
    by (rule tb_bytes_cong [OF t LH(2)]) (use ld Suc.prems(4) far LH in \<open>auto simp: p1_def nth\<close>)
  have wr1: "written q p1 j" if "j < Suc i" for j
  proof (cases "j = i")
    case True
    have "g16 d' (20 + 2 * i) = wp - 20"
      unfolding d'_def by (rule g16_blit_same) (use ld e(4) in simp)
    moreover have "take (nsz q i) (drop ?w d') = ?nd"
      using far pk ln ld by (intro nth_equalityI) (auto simp: nth)
    ultimately show ?thesis using True wp20 by (simp add: written_def p1_def)
  next
    case False
    with that have j: "j < i" by simp
    have jn: "j < nents q" using j i by simp
    note pj = packed_bounds [OF ok jn]
    have ge: "?w + nsz q i \<le> packed q j"
      using pre_mono [of "Suc j" i q] j pk tbd pre_le_total' [of i q] i by (simp add: packed_def)
    have "g16 d' (20 + 2 * j) = g16 (Data p) (20 + 2 * j)"
      using j far pk ld by (simp add: g16_def nth)
    moreover have "take (nsz q j) (drop (packed q j) d') = take (nsz q j) (drop (packed q j) (Data p))"
      using ge pj far ld Suc.prems(4) by (intro nth_equalityI) (auto simp: nth)
    ultimately show ?thesis using Suc.prems(6) [OF j] by (simp add: written_def p1_def)
  qed
  have hdr1: "Data p1 ! k = Data q ! k" if "k < 20" for k
    using that far pk l Suc.prems(5) [OF that] by (simp add: p1_def nth)
  have i': "Suc i \<le> nents q" using i by simp
  have "\<exists>p'. write_back p1 t (of_nat (length (Data q) - pre q (Suc i))) (of_nat (pre q (Suc i)))
        (map (\<lambda>j. (j, of_nat (nsz q j))) [Suc i..<nents q]) =
        Some (p', of_nat (length (Data q) - total q)) \<and>
      length (Data p') = length (Data q) \<and> (\<forall>k < 20. Data p' ! k = Data q ! k) \<and>
      (\<forall>j < nents q. written q p' j)"
    by (rule Suc.hyps(1) [OF m i']) (use tb1 Suc.prems ld hdr1 wr1 in \<open>simp_all add: p1_def\<close>)
  moreover have "of_nat (length (Data q) - pre q (Suc i)) = wp" by (simp add: wp_def packed_def)
  moreover have "min (length (Data p) - ?w) (nsz q i) = nsz q i" using pk Suc.prems(4) by simp
  moreover have "take (nsz q i) ?nd = ?nd" using ln by simp
  ultimately show ?case
    unfolding upt_conv_Cons [OF i]
    using dst rd
    by (simp add: Let_def wsub uw up [unfolded of_nat_add] cp pt p1_def)
qed

section \<open>The whole compaction\<close>

lemma packed_page_ok:
  assumes ok: "page_ok q" and len: "length (Data p) = length (Data q)"
    and hdr: "\<And>k. k < 20 \<Longrightarrow> Data p ! k = Data q ! k"
    and wr: "\<And>j. j < nents q \<Longrightarrow> written q p j"
  defines "p' \<equiv> p\<lparr>Data := blit (Data p) 14 (enc16 (of_nat (length (Data q) - 20 - total q)))\<rparr>"
  shows "page_ok p' \<and> entries p' = entries q \<and> brp p' = brp q \<and> low p' = low q \<and>
    upp p' = length (Data q) - 20 - total q \<and> length (Data p') = length (Data q) \<and>
    (\<forall>k. k < 14 \<or> 16 \<le> k \<and> k < 20 \<longrightarrow> Data p' ! k = Data q ! k)"
proof -
  note l = page_okD [OF ok] and tbd = total_bound [OF ok]
  have len': "length (Data p') = length (Data q)" using len l by (simp add: p'_def)
  have nth: "Data p' ! k = Data p ! k" if "k < 14 \<or> 16 \<le> k" "k < length (Data q)" for k
    using that len l by (auto simp: p'_def nth_blit)
  have h: "Data p' ! k = Data q ! k" if "k < 14 \<or> 16 \<le> k \<and> k < 20" for k
    using that nth [of k] hdr [of k] l by auto
  have br: "brp p' = brp q" and lo: "low p' = low q" by (simp_all add: brp_def low_def g16_def h)
  have up: "upp p' = length (Data q) - 20 - total q"
  proof -
    have "unat (of_nat (length (Data q) - 20 - total q) :: u16) = length (Data q) - 20 - total q"
      by (rule unat_of_nat16) (use l in simp)
    then show ?thesis using len l by (simp add: upp_def p'_def g16_blit_same)
  qed
  have n: "nents p' = nents q" using lo by (simp add: nents_def)
  have node: "ptr p' j + 20 = packed q j" "nsz p' j = nsz q j" "node_at p' j = node_at q j"
    if j: "j < nents q" for j
  proof -
    note pk = packed_bounds [OF ok j] and e = page_ok_entry [OF ok j]
    have "g16 (Data p') (20 + 2 * j) = g16 (Data p) (20 + 2 * j)"
      using nth [of "20 + 2 * j"] nth [of "20 + 2 * j + 1"] e(4) by (simp add: g16_def)
    then have "ptr p' j = unat (of_nat (packed q j - 20) :: u16)"
      using wr [OF j] unfolding ptr_def written_def by simp
    moreover have "unat (of_nat (packed q j - 20) :: u16) = packed q j - 20"
      by (rule unat_of_nat16) (use pk l in simp)
    ultimately have "ptr p' j = packed q j - 20" by (rule trans)
    then show pt: "ptr p' j + 20 = packed q j" using pk by simp
    have nb: "Data p' ! (packed q j + k) = node_at q j ! k" if "k < nsz q j" for k
    proof -
      have "Data p' ! (packed q j + k) = take (nsz q j) (drop (packed q j) (Data p)) ! k"
        using that pk nth [of "packed q j + k"] l len by simp
      then show ?thesis using wr [OF j] by (simp add: written_def)
    qed
    have "nodesz (brp q) (Data p') (packed q j) = nodesz (brp q) (node_at q j) 0"
      by (rule nodesz_cong) (use nb nsz_ge8 [of q j] in auto)
    also have "\<dots> = nsz q j"
      using node_wf_node_at [OF ok j] length_node_at [OF ok j] by (simp add: node_wf_def)
    finally show sz: "nsz p' j = nsz q j" using br pt by (simp add: nsz_def add.commute)
    show "node_at p' j = node_at q j"
    proof (rule nth_equalityI)
      show "length (node_at p' j) = length (node_at q j)"
        using sz pt pk len' length_node_at [OF ok j] by (simp add: node_at_def)
      fix k assume "k < length (node_at p' j)"
      then have "k < nsz q j" using sz by (simp add: node_at_def)
      then show "node_at p' j ! k = node_at q j ! k"
        using nb [of k] sz pt pk len' by (simp add: node_at_def add.commute)
    qed
  qed
  have ent: "upp p' \<le> ptr p' j \<and> 20 + ptr p' j + nsz p' j \<le> length (Data p')" if j: "j < nents q" for j
  proof -
    have "length (Data q) - total q \<le> packed q j"
      using pre_le_total [OF j] by (simp add: packed_def)
    then show ?thesis
      using node [OF j] packed_bounds [OF ok j] up len' by linarith
  qed
  have dis: "ptr p' j + nsz p' j \<le> ptr p' i" if "i < j" "j < nents q" for i j
  proof -
    have i: "i < nents q" using that by simp
    have "packed q j + nsz q j \<le> packed q i"
      using pre_mono [of "Suc i" j q] that packed_bounds [OF ok that(2)]
        pre_le_total [OF that(2)] tbd by (simp add: packed_def)
    then show ?thesis using node [OF that(2)] node [OF i] by simp
  qed
  have "page_ok p'"
    unfolding page_ok_def n
  proof (intro conjI allI impI)
    fix i j assume "i < nents q" "j < nents q" "i \<noteq> j"
    then show "ptr p' i + nsz p' i \<le> ptr p' j \<or> ptr p' j + nsz p' j \<le> ptr p' i"
      using dis [of i j] dis [of j i] by (cases "i < j") auto
  qed (use l len' lo up tbd ent in auto)
  moreover have "entries p' = entries q" using node(3) n by (simp add: entries_def)
  ultimately show ?thesis using br lo up len' h by blast
qed

lemma those_map_Some: "(\<And>x. x \<in> set xs \<Longrightarrow> f x = Some (g x)) \<Longrightarrow> those (map f xs) = Some (map g xs)"
  by (induction xs) auto

lemma sum_list_of_nat16: "sum_list (map (\<lambda>i. of_nat (f i) :: u16) xs) = of_nat (sum_list (map f xs))"
  by (induction xs) auto

lemma sizes_eq:
  assumes ok: "page_ok p"
  shows "those (map (\<lambda>i. map_option (\<lambda>s. of_int s :: u16) (calcNodeSizeFast p (int i))) [0..<nents p]) =
      Some (map (\<lambda>i. of_nat (nsz p i)) [0..<nents p])"
    and "sum_list (map (\<lambda>i. of_nat (nsz p i) :: u16) [0..<nents p]) = of_nat (total p)"
proof -
  show "those (map (\<lambda>i. map_option (\<lambda>s. of_int s :: u16) (calcNodeSizeFast p (int i))) [0..<nents p]) =
      Some (map (\<lambda>i. of_nat (nsz p i)) [0..<nents p])"
    by (rule those_map_Some) (simp add: calcNodeSizeFast_eq [OF ok])
  have "sum_list (map (nsz p) [0..<nents p]) = total p"
    by (simp add: total_def pre_def interv_sum_list_conv_sum_set_nat atLeast0LessThan)
  then show "sum_list (map (\<lambda>i. of_nat (nsz p i) :: u16) [0..<nents p]) = of_nat (total p)"
    unfolding sum_list_of_nat16 by simp
qed

definition compacted :: "page \<Rightarrow> page \<Rightarrow> bool" where
  "compacted p p' \<longleftrightarrow> page_ok p' \<and> entries p' = entries p \<and> brp p' = brp p \<and> low p' = low p \<and>
    upp p' = length (Data p) - 20 - total p \<and> length (Data p') = length (Data p) \<and>
    (\<forall>k. k < 14 \<or> 16 \<le> k \<and> k < 20 \<longrightarrow> Data p' ! k = Data p ! k)"

lemma concat_piece:
  assumes ok: "page_ok p" and j: "j < nents p" and room: "total p \<le> length b"
  shows "take (nsz p j) (drop (pre p j) (blit b 0 (concat (map (node_at p) [0..<nents p])))) = node_at p j"
proof -
  have ln: "length (concat (map (node_at p) [0..<m])) = pre p m" if "m \<le> nents p" for m
    using that ok by (induction m) auto
  have "[0..<nents p] = [0..<j] @ j # [Suc j..<nents p]"
    using j by (metis le0 less_imp_le_nat upt_conv_Cons upt_add_eq_append le_Suc_ex add_0)
  then obtain r where r: "concat (map (node_at p) [0..<nents p]) =
      concat (map (node_at p) [0..<j]) @ node_at p j @ r" by simp
  have "pre p j = length (concat (map (node_at p) [0..<j]))" using ln [of j] j by simp
  moreover have "nsz p j = length (node_at p j)" using ok j by simp
  ultimately show ?thesis
    using ln [of "nents p"] room by (simp add: blit_def r total_def)
qed

lemma compactWithBuf_ok:
  assumes ok: "page_ok p"
  shows "\<exists>p'. compactWithBuf p sb pool = Some (p', int (upp p') - int (upp p)) \<and> compacted p p'"
proof -
  note l = page_okD [OF ok] and tbd = total_bound [OF ok]
  let ?L = "length (Data p)" and ?n = "nents p"
  have uu: "g16 (Data p) 14 = of_nat (upp p)" "g16 (Data p) 12 = of_nat (low p)" by simp_all
  have szs: "those (map (\<lambda>i. map_option (\<lambda>s. of_int s :: u16) (calcNodeSizeFast p (int i))) [0..<?n]) =
      Some (map (\<lambda>i. of_nat (nsz p i)) [0..<?n])"
    and tot: "sum_list (map (\<lambda>i. of_nat (nsz p i) :: u16) [0..<?n]) = of_nat (total p)"
    using sizes_eq [OF ok] .
  have ex: "of_nat ?L - 20 - of_nat (total p) = (of_nat (?L - 20 - total p) :: u16)"
    using tbd by (simp add: of_nat_diff)
  have res: "uint (of_nat (?L - 20 - total p) - of_nat (upp p) :: u16) =
      int (?L - 20 - total p) - int (upp p)"
  proof -
    have "of_nat (?L - 20 - total p) - of_nat (upp p) = (of_nat (?L - 20 - total p - upp p) :: u16)"
      using tbd by (intro of_nat_diff [symmetric]) simp
    moreover have "uint (of_nat (?L - 20 - total p - upp p) :: u16) = int (?L - 20 - total p - upp p)"
      by (rule uint_of_nat16) (use l in simp)
    ultimately have "uint (of_nat (?L - 20 - total p) - of_nat (upp p) :: u16) =
        int (?L - 20 - total p - upp p)" by (simp only:)
    also have "\<dots> = int (?L - 20 - total p) - int (upp p)" by (rule of_nat_diff) (use tbd in simp)
    finally show ?thesis .
  qed
  define nu :: u16 where "nu = of_nat (?L - 20 - total p)"
  have ex': "of_nat ?L - phs16 - of_nat (total p) = nu" using ex by (simp add: nu_def)
  have res': "uint (nu - g16 (Data p) 14) = int (?L - 20 - total p) - int (upp p)"
    using res by (simp add: nu_def)
  have h: "header p = Some \<lparr>hTxnid = g64 (Data p) 0, hDupfixKsize = g16 (Data p) 8, hFlags = g16 (Data p) 10,
           hLower = g16 (Data p) 12, hUpper = g16 (Data p) 14, hPageNo = g32 (Data p) 16\<rparr>"
    using l(1) by (rule header_Some)
  consider "?n = 0" | "?n \<noteq> 0" "g16 (Data p) 14 = nu" | "?n \<noteq> 0" "g16 (Data p) 14 \<noteq> nu"
    by blast
  then show ?thesis
  proof cases
    case 1
    then have t0: "total p = 0" by (simp add: total_def)
    define p' where "p' = p\<lparr>Data := blit (Data p) 14 (enc16 nu)\<rparr>"
    have c: "compacted p p'"
      unfolding compacted_def p'_def nu_def by (rule packed_page_ok [OF ok]) (use 1 in auto)
    have nu: "of_nat ?L - phs16 = nu" using ex' t0 by simp
    have "setUpper p nu = Some p'" using l(1) by (simp add: header_simps p'_def)
    then have "compactWithBuf p sb pool = Some (p', uint (nu - g16 (Data p) 14))"
      using 1 l(1) unfolding compactWithBuf_def h by (simp only: header_simps Let_def bind.bind_lunit nu) simp
    with c res' show ?thesis by (auto simp: compacted_def)
  next
    case 2
    have "compactWithBuf p sb pool = Some (p, 0)"
      using 2 l(1) szs tot unfolding compactWithBuf_def h
      by (simp only: header_simps Let_def bind.bind_lunit nat_int ex') simp
    moreover have "upp p = ?L - 20 - total p"
      using arg_cong [OF 2(2), of unat] unat_of_nat16 [of "?L - 20 - total p"] l
      by (simp only: nu_def upp_def)
    ultimately show ?thesis using ok by (auto simp: compacted_def)
  next
    case 3
    let ?idx = "map (\<lambda>j. (j, of_nat (nsz p j) :: u16)) [0..<?n]"
    have zip: "zip [0..<?n] (map (\<lambda>i. of_nat (nsz p i) :: u16) [0..<?n]) = ?idx"
      by (simp add: zip_map2 zip_same_conv_map)
    define L where "L = 20 + 2 * ?n"
    define H where "H = upp p + 20"
    define epe :: u16 where "epe = of_int (pageHeaderSize + int ?n * 2)"
    define ds :: u16 where "ds = g16 (Data p) 14 + phs16"
    have "epe = of_nat L" by (simp add: epe_def L_def mult.commute)
    moreover have "uint (of_nat L :: u16) = int L" by (rule uint_of_nat16) (use l in \<open>simp add: L_def\<close>)
    ultimately have ue: "uint epe = int L" by (simp only:)
    have "ds = of_nat H" by (simp add: ds_def H_def)
    moreover have "uint (of_nat H :: u16) = int H" by (rule uint_of_nat16) (use l in \<open>simp add: H_def\<close>)
    ultimately have ud: "uint ds = int H" by (simp only:)
    have LH: "L \<le> H" "H \<le> ?L" using l by (simp_all add: L_def H_def)
    have gap: "uint (ds - epe) = int (H - L)"
    proof -
      have "epe \<le> ds" using ue ud LH by (simp add: word_le_def)
      then show ?thesis using ue ud LH by (simp add: uint_minus_simple_alt of_nat_diff)
    qed
    have ut: "uint (of_nat (total p) :: u16) = int (total p)"
      by (rule uint_of_nat16) (use l tbd in simp)
    have nt: "unat (of_nat (total p) :: u16) = total p"
      by (rule unat_of_nat16) (use l tbd in simp)
    have sl: "slice (Data p) (int L) (int H) = Some (take (H - L) (drop L (Data p)))"
      using LH by (rule slice_nat)
    define tbe where "tbe = (if int (H - L) \<ge> int (total p) then
         do { slice (Data p) (int L) (int H); Some (GapBuf (int L) (int H)) }
       else if int (length sb) \<ge> int (total p) then Some (OwnBuf (take (total p) sb))
       else Some (OwnBuf (getCompactBuffer pool (total p))))"
    have "\<exists>t. tbe = Some t \<and> tb_ok L H t \<and> total p \<le> length (tb_bytes p t)"
    proof (cases "total p \<le> H - L")
      case True
      then show ?thesis
        using LH by (intro exI [of _ "GapBuf (int L) (int H)"])
          (auto simp: tbe_def sl tb_ok_def tb_bytes_def)
    next
      case False
      then show ?thesis
        by (auto simp: tbe_def tb_ok_def tb_bytes_def getCompactBuffer_def)
    qed
    then obtain t where t: "tbe = Some t" "tb_ok L H t" "total p \<le> length (tb_bytes p t)"
      by blast
    have "\<exists>p1 t1. copy_out p t (of_nat (pre p 0)) (map (\<lambda>j. (j, of_nat (nsz p j))) [0..<?n])
      = Some (p1, t1) \<and> tb_ok L H t1 \<and> same_out L H p1 p \<and>
      tb_bytes p1 t1 = blit (tb_bytes p t) (pre p 0) (concat (map (node_at p) [0..<?n]))"
      by (rule copy_out_ok [OF ok _ t(2) L_def H_def _ t(3)]) (auto simp: same_out_def)
    then obtain p1 t1 where co: "copy_out p t 0 ?idx = Some (p1, t1)" "tb_ok L H t1" "same_out L H p1 p"
      "tb_bytes p1 t1 = blit (tb_bytes p t) 0 (concat (map (node_at p) [0..<?n]))"
      by auto
    have "\<exists>p2. write_back p1 t1 (of_nat (?L - pre p 0)) (of_nat (pre p 0))
        (map (\<lambda>j. (j, of_nat (nsz p j))) [0..<?n]) = Some (p2, of_nat (?L - total p)) \<and>
      length (Data p2) = ?L \<and> (\<forall>k < 20. Data p2 ! k = Data p ! k) \<and> (\<forall>j < ?n. written p p2 j)"
    proof (rule write_back_ok [OF ok _ co(2) L_def H_def])
      show "total p \<le> length (tb_bytes p1 t1)" using t(3) co(4) by simp
      fix j assume j: "j < ?n"
      show "take (nsz p j) (drop (pre p j) (tb_bytes p1 t1)) = node_at p j"
        unfolding co(4) by (rule concat_piece [OF ok j t(3)])
    qed (use co(3) l(1) in \<open>auto simp: same_out_def L_def\<close>)
    then obtain p2 where wb: "write_back p1 t1 (of_nat ?L) 0 ?idx = Some (p2, of_nat (?L - total p))"
      and p2: "length (Data p2) = ?L" "\<forall>k < 20. Data p2 ! k = Data p ! k" "\<forall>j < ?n. written p p2 j"
      by auto
    define p3 where "p3 = p2\<lparr>Data := blit (Data p2) 14 (enc16 nu)\<rparr>"
    have c: "compacted p p3"
      unfolding compacted_def p3_def nu_def
      by (rule packed_page_ok [OF ok p2(1)]) (use p2 in auto)
    have wp: "of_nat (?L - total p) - phs16 = nu"
    proof -
      have "of_nat (?L - total p) - of_nat 20 = (of_nat (?L - total p - 20) :: u16)"
        using tbd by (intro of_nat_diff [symmetric]) simp
      then show ?thesis by (simp add: nu_def diff_diff_left add.commute)
    qed
    have su: "setUpper p2 nu = Some p3" using l(1) p2(1) by (simp add: header_simps p3_def)
    have h2: "header p2 = Some \<lparr>hTxnid = g64 (Data p2) 0, hDupfixKsize = g16 (Data p2) 8, hFlags = g16 (Data p2) 10,
           hLower = g16 (Data p2) 12, hUpper = g16 (Data p2) 14, hPageNo = g32 (Data p2) 16\<rparr>"
      using l(1) p2(1) by (intro header_Some) simp
    have g2: "g16 (Data p2) 14 = g16 (Data p) 14" using p2(2) by (simp add: g16_def)
    have ne: "(int ?n = 0) = False" "(g16 (Data p) 14 = nu) = False" using 3 by simp_all
    have "compactWithBuf p sb pool = Some (p3, uint (nu - g16 (Data p) 14))"
      unfolding compactWithBuf_def h numEntriesFast_eq [OF l(1)] bind.bind_lunit ne(1) if_False nat_int
        szs Let_def tot ex' pageHeader.simps ne(2) zip
      unfolding epe_def [symmetric] ds_def [symmetric] gap ut ue ud nt tbe_def [symmetric] t(1) bind.bind_lunit
        co(1) prod.case wb h2 pageHeader.simps wp su g2
      by (rule refl)
    with c res' show ?thesis by (auto simp: compacted_def)
  qed
qed

text \<open>\<open>compact\<close> is \<open>compactWithBuf\<close> without a scratch buffer.\<close>

lemma compact_ok:
  assumes "page_ok p"
  shows "\<exists>p'. compact p pool = Some (p', int (upp p') - int (upp p)) \<and> compacted p p'"
  unfolding compact_def by (rule compactWithBuf_ok [OF assms])

section \<open>Inserting into a page that may need compaction\<close>

definition insert_fits :: "page \<Rightarrow> bytes \<Rightarrow> bool" where
  "insert_fits p nd \<longleftrightarrow> 20 + low p + 2 + length nd + total p \<le> length (Data p)"

lemma insertEntryWithBuf_fits:
  assumes ok: "page_ok p" and i: "i \<le> nents p" and wf: "node_wf (brp p) nd" and fits: "insert_fits p nd"
  shows "\<exists>p'. insertEntryWithBuf p (int i) nd sb pool = Some (p', True) \<and> page_ok p' \<and>
    entries p' = take i (entries p) @ nd # drop i (entries p) \<and>
    length (Data p') = length (Data p) \<and> brp p' = brp p \<and> low p' = low p + 2 \<and>
    (\<forall>k. k < 12 \<or> 16 \<le> k \<and> k < 20 \<longrightarrow> Data p' ! k = Data p ! k)"
proof (cases "low p + 2 + length nd \<le> upp p")
  case True
  note l = page_okD [OF ok]
  from insert_alloc_ok [OF ok i True wf] show ?thesis
    using l True i by (auto simp: insertEntryWithBuf_def header_simps)
next
  case False
  note l = page_okD [OF ok] and tbd = total_bound [OF ok]
  from compactWithBuf_ok [OF ok] obtain p1 where
    c: "compactWithBuf p sb pool = Some (p1, int (upp p1) - int (upp p))" and cp: "compacted p p1" by blast
  have ok1: "page_ok p1" using cp by (simp add: compacted_def)
  have n1: "nents p1 = nents p" using cp by (simp add: compacted_def nents_def)
  have sp: "low p1 + 2 + length nd \<le> upp p1" using cp fits by (simp add: compacted_def insert_fits_def)
  have wf1: "node_wf (brp p1) nd" using wf cp by (simp add: compacted_def)
  have i1: "i \<le> nents p1" using i n1 by simp
  from insert_alloc_ok [OF ok1 i1 sp wf1] obtain p2 where
    a: "insert_alloc p1 (int i) (int (nents p)) nd = Some p2" and
    b: "page_ok p2" "entries p2 = take i (entries p1) @ nd # drop i (entries p1)"
      "length (Data p2) = length (Data p1)" "brp p2 = brp p1" "low p2 = low p1 + 2"
      "\<forall>k. k < 12 \<or> 16 \<le> k \<and> k < 20 \<longrightarrow> Data p2 ! k = Data p1 ! k"
    using n1 by auto
  have ne: "int (upp p1) - int (upp p) \<noteq> 0" using False sp cp by (auto simp: compacted_def)
  have f1: "freeSpace p1 = int (upp p1) - int (low p1)"
    by (rule freeSpace_eq) (use page_okD [OF ok1] in simp)
  have "insertEntryWithBuf p (int i) nd sb pool = Some (p2, True)"
    using l i c a False ne sp by (simp add: insertEntryWithBuf_def header_simps f1)
  then show ?thesis using b cp by (auto simp: compacted_def)
qed

lemma insertEntryWithBuf_full:
  assumes ok: "page_ok p" and i: "i \<le> nents p" and full: "\<not> insert_fits p nd"
  shows "\<exists>p'. insertEntryWithBuf p (int i) nd sb pool = Some (p', False) \<and> compacted p p'"
proof -
  note l = page_okD [OF ok] and tbd = total_bound [OF ok]
  from compactWithBuf_ok [OF ok] obtain p1 where
    c: "compactWithBuf p sb pool = Some (p1, int (upp p1) - int (upp p))" and cp: "compacted p p1" by blast
  have ok1: "page_ok p1" using cp by (simp add: compacted_def)
  have f1: "freeSpace p1 = int (upp p1) - int (low p1)"
    by (rule freeSpace_eq) (use page_okD [OF ok1] in simp)
  have no: "upp p < low p + 2 + length nd" "upp p1 < low p1 + 2 + length nd"
    using full tbd cp by (auto simp: insert_fits_def compacted_def)
  have "insertEntryWithBuf p (int i) nd sb pool = Some (p1, False)"
    using l i c no by (simp add: insertEntryWithBuf_def header_simps f1)
  then show ?thesis using cp by blast
qed

lemma insertEntryWithBuf_out:
  assumes "20 \<le> length (Data p)" "idx < 0 \<or> int (nents p) < idx"
  shows "insertEntryWithBuf p idx nd sb pool = Some (p, False)"
  using assms by (auto simp: insertEntryWithBuf_def header_simps)

lemmas insertEntry_fits = insertEntryWithBuf_fits [where sb = "[]", folded insertEntry_def]
lemmas insertEntry_full = insertEntryWithBuf_full [where sb = "[]", folded insertEntry_def]

end
