(* ===== verification/PageSplit.thy ===== *)
theory PageSplit
  imports PageCompact
begin

text \<open>
  \<open>init\<close>, \<open>splitPoint\<close> and \<open>compactTo\<close>.  The search of \<open>splitPoint\<close> is complete: it returns a
  split both halves of which fit in a page whenever one exists.
\<close>

section \<open>A fresh page\<close>

definition fresh_page :: "page \<Rightarrow> bool \<Rightarrow> bool" where
  "fresh_page p br \<longleftrightarrow> page_ok p \<and> entries p = [] \<and> brp p = br \<and> low p = 0 \<and> upp p = length (Data p) - 20"

lemma fresh_pageI:
  assumes "20 \<le> length (Data p)" "length (Data p) < 65536" "low p = 0" "upp p = length (Data p) - 20"
    "brp p = br"
  shows "fresh_page p br"
  using assms by (simp add: fresh_page_def page_ok_def entries_def nents_def)

text \<open>\<open>init\<close> writes the header with three unaligned stores; the middle one packs four fields.\<close>

lemma init_word_fields:
  fixes flags upper :: u16
  defines "v \<equiv> push_bit 16 (ucast flags :: u64) OR push_bit 48 (ucast upper :: u64)"
  shows "le16 (ucast v) (ucast (drop_bit 8 v)) = 0"
    "le16 (ucast (drop_bit 16 v)) (ucast (drop_bit 24 v)) = flags"
    "le16 (ucast (drop_bit 32 v)) (ucast (drop_bit 40 v)) = 0"
    "le16 (ucast (drop_bit 48 v)) (ucast (drop_bit 56 v)) = upper"
  by (rule bit_word_eqI; auto simp: v_def le16_def bit_simps dest: bit_imp_le_length)+

lemma enc64_eq: "enc64 v = [ucast v, ucast (drop_bit 8 v), ucast (drop_bit 16 v), ucast (drop_bit 24 v),
    ucast (drop_bit 32 v), ucast (drop_bit 40 v), ucast (drop_bit 48 v), ucast (drop_bit 56 v)]"
proof -
  have "ucast (ucast v :: u32) = (ucast v :: u8)" "ucast (drop_bit 8 (ucast v :: u32)) = (ucast (drop_bit 8 v) :: u8)"
    "ucast (drop_bit 16 (ucast v :: u32)) = (ucast (drop_bit 16 v) :: u8)"
    "ucast (drop_bit 24 (ucast v :: u32)) = (ucast (drop_bit 24 v) :: u8)"
    "ucast (ucast (drop_bit 32 v) :: u32) = (ucast (drop_bit 32 v) :: u8)"
    "ucast (drop_bit 8 (ucast (drop_bit 32 v) :: u32)) = (ucast (drop_bit 40 v) :: u8)"
    "ucast (drop_bit 16 (ucast (drop_bit 32 v) :: u32)) = (ucast (drop_bit 48 v) :: u8)"
    "ucast (drop_bit 24 (ucast (drop_bit 32 v) :: u32)) = (ucast (drop_bit 56 v) :: u8)" for v :: u64
    by (rule bit_word_eqI; auto simp: bit_simps)+
  then show ?thesis by (simp add: enc64_def enc32_def)
qed

lemma init_ok:
  assumes len: "20 \<le> length (Data p)" "length (Data p) < 65536"
  shows "\<exists>p'. init p pno fl (of_nat (length (Data p))) = Some p' \<and>
    fresh_page p' (fl AND pageBranch \<noteq> 0) \<and> length (Data p') = length (Data p) \<and>
    header p' = Some \<lparr>hTxnid = 0, hDupfixKsize = 0, hFlags = fl, hLower = 0,
      hUpper = of_nat (length (Data p) - 20), hPageNo = pno\<rparr>"
proof -
  let ?L = "length (Data p)"
  define up :: u16 where "up = of_nat ?L - phs16"
  have up: "up = of_nat (?L - 20)" using len by (simp add: up_def of_nat_diff)
  define v where "v = push_bit 16 (ucast fl :: u64) OR push_bit 48 (ucast up :: u64)"
  define d where "d = blit (blit (blit (Data p) 0 (enc64 0)) 8 (enc64 v)) 16 (enc32 pno)"
  define p' where "p' = p\<lparr>Data := d\<rparr>"
  have ld: "length d = ?L" using len by (simp add: d_def)
  have call: "init p pno fl (of_nat ?L) = Some p'"
    using len unfolding init_def Let_def v_def [symmetric] up_def [symmetric]
    by (simp add: rd8_def putUint64LE_def putUint32LE_def d_def p'_def)
  have mid: "d ! k = enc64 v ! (k - 8)" if "8 \<le> k" "k < 16" for k
    using that len by (simp add: d_def nth_blit)
  have g: "g16 d 8 = 0" "g16 d 10 = fl" "g16 d 12 = 0" "g16 d 14 = up"
    using init_word_fields [of fl up, folded v_def]
    by (simp_all add: g16_def mid enc64_eq)
  have g0: "g64 d 0 = 0"
    unfolding d_def using len by (simp add: g64_blit_out g64_blit_same)
  have g16: "g32 d 16 = pno" unfolding d_def using len by (simp add: g32_blit_same)
  have h: "header p' = Some \<lparr>hTxnid = 0, hDupfixKsize = 0, hFlags = fl, hLower = 0,
      hUpper = of_nat (?L - 20), hPageNo = pno\<rparr>"
    using len ld by (simp add: header_Some p'_def g g0 g16 flip: up)
  have un: "unat up = ?L - 20" unfolding up by (rule unat_of_nat16) (use len in simp)
  have "fresh_page p' (fl AND pageBranch \<noteq> 0)"
    by (rule fresh_pageI) (use len ld un in \<open>simp_all add: p'_def low_def upp_def brp_def g\<close>)
  then show ?thesis using call h ld by (auto simp: p'_def)
qed

section \<open>The search for a split point\<close>

lemma search_outward_valid:
  assumes "\<And>k. valid k \<Longrightarrow> 0 \<le> k \<and> k \<le> n"
    and "\<exists>d \<in> set ds. valid (mid - d) \<or> valid (mid + d)"
  shows "valid (search_outward valid n ii mid ds)"
  using assms(2) by (induction ds) (auto dest: assms(1))

lemma search_outward_none:
  assumes "\<And>d. d \<in> set ds \<Longrightarrow> \<not> valid (mid - d) \<and> \<not> valid (mid + d)"
  shows "search_outward valid n ii mid ds = mid"
  using assms by (induction ds) auto

text \<open>
  The two halves a split at \<open>k\<close> gives: the nodes below \<open>k\<close> stay, the others move right, and the new
  node goes where \<open>splitAndInsert\<close> puts it.
\<close>

definition insert_at :: "nat \<Rightarrow> 'a \<Rightarrow> 'a list \<Rightarrow> 'a list" where
  "insert_at i x xs = take i xs @ x # drop i xs"

definition split_halves :: "bytes list \<Rightarrow> nat \<Rightarrow> bytes \<Rightarrow> nat \<Rightarrow> bytes list \<times> bytes list" where
  "split_halves es i nd k =
     (if k = 0 then ([nd], es)
      else if i < k then (insert_at i nd (take k es), drop k es)
      else (take k es, insert_at (i - k) nd (drop k es)))"

definition fits_page :: "nat \<Rightarrow> bytes list \<Rightarrow> bool" where
  "fits_page L es \<longleftrightarrow> 20 + 2 * length es + sum_list (map length es) \<le> L"

definition good_split :: "nat \<Rightarrow> bytes list \<Rightarrow> nat \<Rightarrow> bytes \<Rightarrow> nat \<Rightarrow> bool" where
  "good_split L es i nd k \<longleftrightarrow> k \<le> length es \<and>
     (case split_halves es i nd k of (l, r) \<Rightarrow> l \<noteq> [] \<and> r \<noteq> [] \<and> fits_page L l \<and> fits_page L r)"

lemma length_insert_at [simp]: "length (insert_at i x xs) = Suc (length xs)"
  by (simp add: insert_at_def min_def)

lemma insert_at_ne [simp]: "insert_at i x xs \<noteq> []"
  by (simp add: insert_at_def)

lemma sum_insert_at [simp]:
  "sum_list (map length (insert_at i x xs)) = length x + sum_list (map length xs)"
proof -
  have "sum_list (map length (take i xs)) + sum_list (map length (drop i xs)) = sum_list (map length xs)"
    by (simp flip: sum_list_append map_append)
  then show ?thesis by (simp add: insert_at_def)
qed

lemma sum_take_drop: "sum_list (map length (take k es)) + sum_list (map length (drop k es)) = sum_list (map length es)"
  by (simp flip: sum_list_append map_append)

text \<open>Cutting between the neighbours keeps the order of the nodes, except for the cut at 0.\<close>

lemma split_halves_order:
  assumes "i \<le> length es" "k \<le> length es" "k \<noteq> 0 \<or> i = 0"
  shows "fst (split_halves es i nd k) @ snd (split_halves es i nd k) = insert_at i nd es"
proof -
  have "take i (take k es) @ nd # drop i (take k es) @ drop k es = insert_at i nd es" if "i < k"
  proof -
    have "drop i es = drop i (take k es) @ drop (i + (k - i)) es"
      by (metis append_take_drop_id drop_drop drop_take add.commute)
    then show ?thesis using that by (simp add: insert_at_def min_def)
  qed
  moreover have "take k es @ take (i - k) (drop k es) = take i es" if "k \<le> i"
    using that by (metis le_add_diff_inverse take_add)
  ultimately show ?thesis
    using assms by (auto simp: split_halves_def insert_at_def)
qed

lemma sum_list_take_int: "sum_list (take k (map (\<lambda>e. int (length e)) es)) = int (sum_list (map length (take k es)))"
  by (induction es arbitrary: k) (auto simp: take_Cons split: nat.splits)

lemma sum_list_int: "sum_list (map (\<lambda>e. int (length e)) es) = int (sum_list (map length es))"
  by (induction es) auto

lemma isValidSplit_iff:
  assumes ne: "es \<noteq> []" and L: "20 \<le> L" and i: "i \<le> length es"
  shows "isValidSplit (map (\<lambda>e. int (length e)) es) (int L - 20) (int (length nd)) (int i) k \<longleftrightarrow>
     0 \<le> k \<and> good_split L es i nd (nat k)"
proof (cases "0 \<le> k \<and> k \<le> int (length es)")
  case True
  define m where "m = nat k"
  have k: "k = int m" and m: "m \<le> length es" using True by (simp_all add: m_def nat_le_iff)
  define T where "T = sum_list (map length (take m es))"
  define R where "R = sum_list (map length (drop m es))"
  have S: "sum_list (map length es) = T + R" by (simp add: T_def R_def sum_take_drop)
  have T0: "m = 0 \<Longrightarrow> T = 0" by (simp add: T_def)
  obtain r where r: "length es = m + r" using m le_Suc_ex by blast
  have dr: "drop m es = [] \<longleftrightarrow> r = 0" and tk: "take m es = [] \<longleftrightarrow> m = 0" using ne r by auto
  have n: "m = 0 \<Longrightarrow> r \<noteq> 0" using ne r by auto
  have ld: "length (drop m es) = r" "length (take m es) = m" using r by simp_all
  have v: "isValidSplit (map (\<lambda>e. int (length e)) es) (int L - 20) (int (length nd)) (int i) k \<longleftrightarrow>
    (if m = 0 then 22 + length nd \<le> L \<and> 20 + r * 2 + R \<le> L
     else if i < m then r \<noteq> 0 \<and> 22 + m * 2 + length nd + T \<le> L \<and> 20 + r * 2 + R \<le> L
     else 20 + m * 2 + T \<le> L \<and> 22 + r * 2 + length nd + R \<le> L)"
    unfolding k isValidSplit_def Let_def using n T0
    by (auto simp: sum_list_take_int sum_list_int S r simp flip: T_def)
  show ?thesis
    unfolding v good_split_def split_halves_def fits_page_def
    using m n T0 ne by (auto simp: k ld dr tk S r simp flip: T_def R_def)
next
  case False
  then show ?thesis by (auto simp: isValidSplit_def good_split_def)
qed

lemma sizes_int:
  assumes ok: "page_ok p"
  shows "those (map (\<lambda>i. calcNodeSizeFast p (int i)) [0..<nents p]) =
      Some (map (\<lambda>e. int (length e)) (entries p))"
proof -
  have "those (map (\<lambda>i. calcNodeSizeFast p (int i)) [0..<nents p]) = Some (map (\<lambda>i. int (nsz p i)) [0..<nents p])"
    by (rule those_map_Some) (simp add: calcNodeSizeFast_eq [OF ok])
  also have "map (\<lambda>i. int (nsz p i)) [0..<nents p] = map (\<lambda>e. int (length e)) (entries p)"
    using ok by (simp add: entries_def)
  finally show ?thesis .
qed

lemma entries_fit: "page_ok p \<Longrightarrow> fits_page (length (Data p)) (entries p)"
  using total_bound [of p] page_okD [of p] total_entries [of p] by (simp add: fits_page_def)

lemma good_split_0:
  assumes "page_ok p" "nents p \<noteq> 0" "22 + length nd \<le> length (Data p)"
  shows "good_split (length (Data p)) (entries p) i nd 0"
proof -
  have "entries p \<noteq> []" using assms(2) length_entries [of p] by (metis list.size(3))
  then show ?thesis
    using assms entries_fit [OF assms(1)] by (auto simp: good_split_def split_halves_def fits_page_def)
qed

text \<open>The split \<open>splitPoint\<close> returns is good as soon as the new node fits in an empty page.\<close>

lemma splitPoint_good:
  assumes ok: "page_ok p" and n: "nents p \<noteq> 0" and i: "i \<le> nents p"
    and fits: "22 + length nd \<le> length (Data p)"
  shows "\<exists>k. splitPoint p (int (length nd)) (int i) = Some (int k) \<and>
    good_split (length (Data p)) (entries p) i nd k"
proof -
  let ?L = "length (Data p)" and ?es = "entries p" and ?n = "nents p"
  note l = page_okD [OF ok]
  have ne: "?es \<noteq> []" using n length_entries [of p] by (metis list.size(3))
  define sizes where "sizes = map (\<lambda>e. int (length e)) ?es"
  define valid where "valid = isValidSplit sizes (int ?L - 20) (int (length nd)) (int i)"
  have viff: "valid k \<longleftrightarrow> 0 \<le> k \<and> good_split ?L ?es i nd (nat k)" for k
    unfolding valid_def sizes_def by (rule isValidSplit_iff) (use ne l i in auto)
  have vb: "0 \<le> k \<and> k \<le> int ?n" if "valid k" for k
    using that by (auto simp: viff good_split_def)
  define mid where "mid = (if int ?n div 2 = 0 then 1 else int ?n div 2)"
  have mid: "0 \<le> mid" "mid \<le> int ?n" "1 \<le> mid" using n by (auto simp: mid_def)
  have v0: "valid 0" using good_split_0 [OF ok n fits] by (simp add: viff)
  have srch: "valid (search_outward valid (int ?n) (int i) mid [1..int ?n])"
    by (rule search_outward_valid) (use vb v0 mid in \<open>auto intro!: bexI [of _ mid]\<close>)
  have vn: "valid (int ?n)" if "?n \<le> i" "int ?n * 2 + sum_list sizes \<le> int ?L - 20"
  proof -
    have "i = ?n" using that i by simp
    then show ?thesis
      using that fits n ne
      by (auto simp: viff good_split_def split_halves_def fits_page_def sizes_def sum_list_int insert_at_def)
  qed
  have "\<exists>k. splitPoint p (int (length nd)) (int i) = Some k \<and> valid k"
  proof (cases "?n \<le> i \<and> int ?n * 2 + sum_list sizes \<le> int ?L - 20")
    case True
    then have "splitPoint p (int (length nd)) (int i) = Some (int ?n)"
      using l fits n unfolding splitPoint_def numEntriesFast_eq [OF l(1)] bind.bind_lunit nat_int
        sizes_int [OF ok] Let_def by (simp add: sizes_def)
    with vn True show ?thesis by blast
  next
    case False
    then have "\<not> (int i \<ge> int ?n \<and> int ?n * 2 + sum_list sizes \<le> int ?L - pageHeaderSize \<and>
        2 + int (length nd) \<le> int ?L - pageHeaderSize)" by auto
    then have "splitPoint p (int (length nd)) (int i) =
      (if valid mid then Some mid else Some (search_outward valid (int ?n) (int i) mid [1..int ?n]))"
      using n unfolding splitPoint_def numEntriesFast_eq [OF l(1)] bind.bind_lunit nat_int
        sizes_int [OF ok] Let_def sizes_def [symmetric]
      by (simp only: if_False of_nat_eq_0_iff) (simp only: valid_def mid_def pageHeaderSize_def PageHeaderSize_def)
    with srch show ?thesis by auto
  qed
  then obtain k where k: "splitPoint p (int (length nd)) (int i) = Some k" "valid k" by blast
  then show ?thesis using viff [of k] by (intro exI [of _ "nat k"]) auto
qed

section \<open>Appending nodes to a page\<close>

text \<open>
  What the copying loops do: the nodes of \<open>p\<close> from \<open>a\<close> on are appended to a page of the same kind
  that already holds those before.
\<close>

lemma append_ok:
  assumes dst: "page_ok dst" and wf: "node_wf (brp dst) nd"
    and fits: "fits_page (length (Data dst)) (entries dst @ [nd])"
  shows "\<exists>d'. insertEntry dst (int (nents dst)) nd pool = Some (d', True) \<and> page_ok d' \<and>
    entries d' = entries dst @ [nd] \<and> length (Data d') = length (Data dst) \<and> brp d' = brp dst \<and>
    (\<forall>k. k < 12 \<or> 16 \<le> k \<and> k < 20 \<longrightarrow> Data d' ! k = Data dst ! k)"
proof -
  have "insert_fits dst nd"
    using fits total_entries [OF dst] page_okD(6) [OF dst]
    by (simp add: insert_fits_def fits_page_def)
  from insertEntry_fits [OF dst le_refl wf this, of pool] show ?thesis by auto
qed

lemma fits_page_take: "fits_page L es \<Longrightarrow> fits_page L (take k es)"
  using sum_take_drop [of k es] by (simp add: fits_page_def)

lemma upto_upt: "[0..int n - 1] = map int [0..<n]"
  by (induction n) (auto simp: upto_rec2)

lemma compact_entries_ok:
  assumes p: "page_ok p" and i: "i \<le> nents p"
    and dst: "page_ok dst" and br: "brp dst = brp p" and len: "length (Data dst) = length (Data p)"
    and ent: "entries dst = take i (entries p)"
  shows "\<exists>d'. compact_entries p dst pool (map int [i..<nents p]) = Some d' \<and> page_ok d' \<and>
    entries d' = entries p \<and> brp d' = brp p \<and> length (Data d') = length (Data p) \<and>
    (\<forall>k. k < 12 \<or> 16 \<le> k \<and> k < 20 \<longrightarrow> Data d' ! k = Data dst ! k)"
  using i dst br len ent
proof (induction "nents p - i" arbitrary: i dst)
  case 0
  then show ?case by auto
next
  case (Suc m)
  have i: "i < nents p" using Suc.hyps(2) by simp
  have m: "m = nents p - Suc i" and i': "Suc i \<le> nents p" using Suc.hyps(2) by simp_all
  note e = page_ok_entry [OF p i] and l = page_okD [OF p]
  have nd: "nents dst = i" using Suc.prems(5) i length_entries [of dst] by simp
  have wf: "node_wf (brp dst) (node_at p i)" using node_wf_node_at [OF p i] Suc.prems(3) by simp
  have tk: "take i (entries p) @ [node_at p i] = take (Suc i) (entries p)"
    using i by (simp add: take_Suc_conv_app_nth)
  have "fits_page (length (Data dst)) (entries dst @ [node_at p i])"
    using Suc.prems(4,5) tk fits_page_take [OF entries_fit [OF p]] by simp
  from append_ok [OF Suc.prems(2) wf this, of pool] obtain d1 where
    d1: "insertEntry dst (int i) (node_at p i) pool = Some (d1, True)" "page_ok d1"
      "entries d1 = take (Suc i) (entries p)" "length (Data d1) = length (Data p)" "brp d1 = brp p"
      "\<forall>k. k < 12 \<or> 16 \<le> k \<and> k < 20 \<longrightarrow> Data d1 ! k = Data dst ! k"
    using Suc.prems nd tk by auto
  from Suc.hyps(1) [OF m i' d1(2,5,4,3)] obtain d' where
    d': "compact_entries p d1 pool (map int [Suc i..<nents p]) = Some d'" "page_ok d'"
      "entries d' = entries p" "brp d' = brp p" "length (Data d') = length (Data p)"
      "\<forall>k. k < 12 \<or> 16 \<le> k \<and> k < 20 \<longrightarrow> Data d' ! k = Data d1 ! k" by blast
  have off: "uint (of_nat (20 + ptr p i) :: u16) = int (20 + ptr p i)"
    by (rule uint_of_nat16) (use e in simp)
  have off2: "uint (of_nat (20 + ptr p i) + of_int (int (nsz p i)) :: u16) = int (20 + ptr p i + nsz p i)"
  proof -
    have "of_nat (20 + ptr p i) + of_int (int (nsz p i)) = (of_nat (20 + ptr p i + nsz p i) :: u16)" by simp
    then show ?thesis by (simp only:) (rule uint_of_nat16, use e l in simp)
  qed
  have sl: "slice (Data p) (int (20 + ptr p i)) (int (20 + ptr p i + nsz p i)) = Some (node_at p i)"
    using slice_nat [of "20 + ptr p i" "20 + ptr p i + nsz p i" "Data p"] e by (simp add: node_at_def)
  have "int (nsz p i) > 0 \<and> int (20 + ptr p i) + int (nsz p i) \<le> int (length (Data p))"
    using e nsz_ge8 [of p i] by simp
  then have "compact_entries p dst pool (map int [i..<nents p]) = Some d'"
    unfolding upt_conv_Cons [OF i] list.map compact_entries.simps entryOffset_eq [OF p i]
      calcNodeSize_eq [OF p i] bind.bind_lunit off off2 sl d1(1) prod.case
    by (simp add: sl d1(1) d'(1) del: of_nat_add)
  then show ?case using d' d1(6) by auto
qed

lemma compactTo_ok:
  assumes p: "page_ok p" and len: "length (Data dst) = length (Data p)"
  shows "\<exists>d'. compactTo p dst (of_nat (length (Data p))) pool = Some d' \<and> page_ok d' \<and>
    entries d' = entries p \<and> brp d' = brp p \<and> length (Data d') = length (Data p) \<and>
    (\<forall>k. k < 12 \<or> 16 \<le> k \<and> k < 20 \<longrightarrow> Data d' ! k = Data p ! k)"
proof -
  note l = page_okD [OF p]
  let ?d = "Data p" and ?L = "length (Data p)"
  define d where "d = blit (blit (blit (blit (blit (blit (Data dst) 16 (enc32 (g32 ?d 16))) 10 (enc16 (g16 ?d 10)))
     0 (enc64 (g64 ?d 0))) 8 (enc16 (g16 ?d 8))) 12 (enc16 0)) 14 (enc16 (of_nat ?L - phs16))"
  define q where "q = dst\<lparr>Data := d\<rparr>"
  have up: "of_nat ?L - phs16 = (of_nat (?L - 20) :: u16)" using l by (simp add: of_nat_diff)
  have ld: "length d = ?L" using l len by (simp add: d_def)
  have f: "g32 d 16 = g32 ?d 16" "g16 d 10 = g16 ?d 10" "g64 d 0 = g64 ?d 0" "g16 d 8 = g16 ?d 8"
    "g16 d 12 = 0" "g16 d 14 = of_nat ?L - phs16"
    unfolding d_def using l len by (simp_all add: byte_simps)
  have un: "unat (of_nat (?L - 20) :: u16) = ?L - 20" by (rule unat_of_nat16) (use l in simp)
  have fr: "fresh_page q (brp p)"
    by (rule fresh_pageI) (use l ld un f up in \<open>simp_all add: q_def low_def upp_def brp_def\<close>)
  have hb: "d ! k = ?d ! k" if "k < 12 \<or> 16 \<le> k \<and> k < 20" for k
  proof -
    have e: "enc32 (g32 ?d 16) = take 4 (drop 16 ?d)" "enc16 (g16 ?d 10) = take 2 (drop 10 ?d)"
      "enc64 (g64 ?d 0) = take 8 (drop 0 ?d)" "enc16 (g16 ?d 8) = take 2 (drop 8 ?d)"
      using l by (intro enc32_g32 enc16_g16 enc64_g64; simp)+
    show ?thesis
      using that l len unfolding d_def e
      by (auto simp: nth_blit)
  qed
  have "\<exists>d'. compact_entries p q pool (map int [0..<nents p]) = Some d' \<and> page_ok d' \<and>
    entries d' = entries p \<and> brp d' = brp p \<and> length (Data d') = length (Data p) \<and>
    (\<forall>k. k < 12 \<or> 16 \<le> k \<and> k < 20 \<longrightarrow> Data d' ! k = Data q ! k)"
    by (rule compact_entries_ok [OF p]) (use fr ld in \<open>auto simp: fresh_page_def q_def\<close>)
  moreover have "[0..numEntries p - 1] = map int [0..<nents p]"
    using l by (simp add: header_simps upto_upt)
  moreover have "compactTo p dst (of_nat ?L) pool = compact_entries p q pool [0..numEntries p - 1]"
    unfolding compactTo_def using l len
    by (simp add: header_Some header_simps q_def d_def)
  ultimately show ?thesis using hb by (auto simp: q_def)
qed

end
