(* ===== verification/Node.thy ===== *)
theory Node
  imports PageSplit
begin

text \<open>
  node.go: nodes inside a page.  The file has five families of accessors (through a node value, the
  \<open>Direct\<close> ones with bounds checks, the \<open>Raw\<close> ones on slices, and the \<open>Unchecked\<close> and \<open>Fast\<close> ones
  without checks).  An accessor that may return the nil slice has type \<open>bytes option option\<close>: the
  outer \<open>None\<close> is a panic, the inner one is nil.  On a well-formed page all families read the same
  key, data, flags and page number, and none of them panics.
\<close>

section \<open>Reading at a 16-bit offset\<close>

text \<open>An index \<open>offset+k\<close> with \<open>offset\<close> a \<open>uint16\<close> wraps at 65536, as the code computes it.\<close>

definition rdw16 :: "bytes \<Rightarrow> u16 \<Rightarrow> u16 option" where
  "rdw16 d off = do { a \<leftarrow> rd8 d (uint off); b \<leftarrow> rd8 d (uint (off + 1)); Some (le16 a b) }"

definition rdw32 :: "bytes \<Rightarrow> u16 \<Rightarrow> u32 option" where
  "rdw32 d off =
     do { a \<leftarrow> rd8 d (uint off); b \<leftarrow> rd8 d (uint (off + 1)); c \<leftarrow> rd8 d (uint (off + 2));
          e \<leftarrow> rd8 d (uint (off + 3)); Some (le32 a b c e) }"

section \<open>Node values\<close>

record nodeHeader =
  DataSize :: u32
  Flags :: u8
  Extra :: u8
  KeySize :: u16

record node =
  ndata :: bytes
  offset :: u16

abbreviation ns16 :: u16 where "ns16 \<equiv> of_int nodeSize"

definition nodeFromPage :: "page \<Rightarrow> int \<Rightarrow> node option option" where
  "nodeFromPage p idx =
     do { off \<leftarrow> entryOffset p idx;
          if off = 0 \<or> uint off \<ge> int (length (Data p)) then Some None
          else if uint off + nodeSize \<le> int (length (Data p))
          then Some (Some \<lparr>ndata = drop (unat off) (Data p), offset = off\<rparr>)
          else Some None }"

definition nodeFromBytes :: "bytes \<Rightarrow> node option" where
  "nodeFromBytes data = (if int (length data) < nodeSize then None else Some \<lparr>ndata = data, offset = 0\<rparr>)"

definition nheader :: "node \<Rightarrow> nodeHeader option" where
  "nheader n =
     (if int (length (ndata n)) < nodeSize then None
      else Some \<lparr>DataSize = g32 (ndata n) 0, Flags = ndata n ! 4, Extra = ndata n ! 5,
                 KeySize = g16 (ndata n) 6\<rparr>)"

definition keySize :: "node \<Rightarrow> u16 option" where
  "keySize n = do { h \<leftarrow> nheader n; Some (KeySize h) }"
definition dataSize :: "node \<Rightarrow> u32 option" where
  "dataSize n = do { h \<leftarrow> nheader n; Some (DataSize h) }"
definition childPgno :: "node \<Rightarrow> u32 option" where
  "childPgno n = do { h \<leftarrow> nheader n; Some (DataSize h) }"
definition flags :: "node \<Rightarrow> u8 option" where
  "flags n = do { h \<leftarrow> nheader n; Some (Flags h) }"
definition isBig :: "node \<Rightarrow> bool option" where
  "isBig n = do { h \<leftarrow> nheader n; Some (Flags h AND nodeBig \<noteq> 0) }"
definition isTree :: "node \<Rightarrow> bool option" where
  "isTree n = do { h \<leftarrow> nheader n; Some (Flags h AND nodeTree \<noteq> 0) }"
definition isDup :: "node \<Rightarrow> bool option" where
  "isDup n = do { h \<leftarrow> nheader n; Some (Flags h AND nodeDup \<noteq> 0) }"

definition key :: "node \<Rightarrow> bytes option option" where
  "key n =
     (case nheader n of None \<Rightarrow> Some None
      | Some h \<Rightarrow>
          if int (length (ndata n)) < nodeSize + uint (KeySize h) then Some None
          else map_option Some (slice (ndata n) nodeSize (uint (ns16 + KeySize h))))"

definition nodeData :: "node \<Rightarrow> bytes option option" where
  "nodeData n =
     (case nheader n of None \<Rightarrow> Some None
      | Some h \<Rightarrow>
          let dataOffset = nodeSize + uint (KeySize h) in
          if Flags h AND nodeBig \<noteq> 0 then
            (if int (length (ndata n)) < dataOffset + 4 then Some None
             else map_option Some (slice (ndata n) dataOffset (dataOffset + 4)))
          else
            let dataEnd = dataOffset + uint (DataSize h) in
            if int (length (ndata n)) < dataEnd then Some None
            else map_option Some (slice (ndata n) dataOffset dataEnd))"

definition overflowPgno :: "node \<Rightarrow> u32 option" where
  "overflowPgno n =
     do { big \<leftarrow> isBig n;
          if \<not> big then Some invalidPgno
          else do { h \<leftarrow> nheader n;
            let dataOffset = nodeSize + uint (KeySize h) in
            if int (length (ndata n)) < dataOffset + 4 then Some invalidPgno
            else rd32 (ndata n) dataOffset } }"

definition totalSize :: "node \<Rightarrow> int" where
  "totalSize n =
     (case nheader n of None \<Rightarrow> 0
      | Some h \<Rightarrow>
          let sz = nodeSize + uint (KeySize h) in
          if Flags h AND nodeBig \<noteq> 0 then sz + 4 else sz + uint (DataSize h))"

definition nodeCalcSize :: "int \<Rightarrow> int \<Rightarrow> bool \<Rightarrow> int" where
  "nodeCalcSize ks ds big = (let sz = nodeSize + ks in if big then sz + 4 else sz + ds)"

definition nodeMaxKeySize :: "int \<Rightarrow> int" where
  "nodeMaxKeySize pageSize = pageSize div 2 - nodeSize - 2"

definition nodeMaxDataSize :: "int \<Rightarrow> int" where
  "nodeMaxDataSize pageSize = (pageSize - pageHeaderSize - 4) div 2 - nodeSize - 1"

section \<open>Accessors with bounds checks\<close>

definition nodeGetKeyDirect :: "page \<Rightarrow> int \<Rightarrow> bytes option option" where
  "nodeGetKeyDirect p idx =
     do { off \<leftarrow> entryOffset p idx;
          if off = 0 \<or> uint off + nodeSize > int (length (Data p)) then Some None
          else do { ks \<leftarrow> rdw16 (Data p) (off + 6);
            let e = off + ns16 + ks in
            if uint e > int (length (Data p)) then Some None
            else map_option Some (slice (Data p) (uint (off + ns16)) (uint e)) } }"

definition nodeGetDataDirect :: "page \<Rightarrow> int \<Rightarrow> bytes option option" where
  "nodeGetDataDirect p idx =
     do { off \<leftarrow> entryOffset p idx;
          if off = 0 \<or> uint off + nodeSize > int (length (Data p)) then Some None
          else do { ds \<leftarrow> rdw32 (Data p) off; fl \<leftarrow> rd8 (Data p) (uint (off + 4));
            ks \<leftarrow> rdw16 (Data p) (off + 6);
            if fl AND nodeBig \<noteq> 0 then Some None
            else
              let dataStart = uint off + nodeSize + uint ks; dataEnd = dataStart + uint ds in
              if dataEnd > int (length (Data p)) then Some None
              else map_option Some (slice (Data p) dataStart dataEnd) } }"

definition nodeGetChildPgnoDirect :: "page \<Rightarrow> int \<Rightarrow> u32 option" where
  "nodeGetChildPgnoDirect p idx =
     do { off \<leftarrow> entryOffset p idx;
          if off = 0 \<or> uint off + 4 > int (length (Data p)) then Some invalidPgno
          else rdw32 (Data p) off }"

definition nodeGetFlagsDirect :: "page \<Rightarrow> int \<Rightarrow> u8 option" where
  "nodeGetFlagsDirect p idx =
     do { off \<leftarrow> entryOffset p idx;
          if off = 0 \<or> uint off + 5 > int (length (Data p)) then Some 0
          else rd8 (Data p) (uint (off + 4)) }"

definition nodeGetOverflowPgnoDirect :: "page \<Rightarrow> int \<Rightarrow> u32 option" where
  "nodeGetOverflowPgnoDirect p idx =
     do { off \<leftarrow> entryOffset p idx;
          if off = 0 \<or> uint off + nodeSize > int (length (Data p)) then Some invalidPgno
          else do { ks \<leftarrow> rdw16 (Data p) (off + 6);
            let pgnoOffset = uint off + nodeSize + uint ks in
            if pgnoOffset + 4 > int (length (Data p)) then Some invalidPgno
            else rd32 (Data p) pgnoOffset } }"

definition nodeGetDataSizeDirect :: "page \<Rightarrow> int \<Rightarrow> u32 option" where
  "nodeGetDataSizeDirect p idx =
     do { off \<leftarrow> entryOffset p idx;
          if off = 0 \<or> uint off + 4 > int (length (Data p)) then Some 0
          else rdw32 (Data p) off }"

section \<open>Accessors on raw slices\<close>

definition nodeGetKeyRaw :: "bytes \<Rightarrow> int \<Rightarrow> bytes option option" where
  "nodeGetKeyRaw d idx =
     do { off \<leftarrow> pageEntryOffsetDirect d idx;
          if off = 0 \<or> uint off + nodeSize > int (length d) then Some None
          else do { ks \<leftarrow> rdw16 d (off + 6);
            if uint off + nodeSize + uint ks > int (length d) then Some None
            else map_option Some (slice d (uint (off + ns16)) (uint off + nodeSize + uint ks)) } }"

definition nodeGetKeyUnchecked :: "bytes \<Rightarrow> int \<Rightarrow> bytes option" where
  "nodeGetKeyUnchecked d idx =
     do { off \<leftarrow> pageEntryOffsetUnchecked d idx; ks \<leftarrow> rdw16 d (off + 6);
          slice d (uint (off + ns16)) (uint off + nodeSize + uint ks) }"

definition nodeGetDataUnchecked :: "bytes \<Rightarrow> int \<Rightarrow> bytes option" where
  "nodeGetDataUnchecked d idx =
     do { off \<leftarrow> pageEntryOffsetUnchecked d idx; ds \<leftarrow> rdw32 d off; ks \<leftarrow> rdw16 d (off + 6);
          let dataStart = uint off + nodeSize + uint ks in
          slice d dataStart (dataStart + uint ds) }"

definition nodeGetDataRaw :: "bytes \<Rightarrow> int \<Rightarrow> bytes option option" where
  "nodeGetDataRaw d idx =
     do { off \<leftarrow> pageEntryOffsetDirect d idx;
          if off = 0 \<or> uint off + nodeSize > int (length d) then Some None
          else do { ds \<leftarrow> rdw32 d off; fl \<leftarrow> rd8 d (uint (off + 4)); ks \<leftarrow> rdw16 d (off + 6);
            if fl AND nodeBig \<noteq> 0 then Some None
            else
              let dataStart = uint off + nodeSize + uint ks; dataEnd = dataStart + uint ds in
              if dataEnd > int (length d) then Some None
              else map_option Some (slice d dataStart dataEnd) } }"

definition nodeGetChildPgnoRaw :: "bytes \<Rightarrow> int \<Rightarrow> u32 option" where
  "nodeGetChildPgnoRaw d idx =
     do { off \<leftarrow> pageEntryOffsetDirect d idx;
          if off = 0 \<or> uint off + 4 > int (length d) then Some invalidPgno else rdw32 d off }"

definition nodeGetChildPgnoUnchecked :: "bytes \<Rightarrow> int \<Rightarrow> u32 option" where
  "nodeGetChildPgnoUnchecked d idx = do { off \<leftarrow> pageEntryOffsetUnchecked d idx; rdw32 d off }"

definition nodeGetFirstChildPgno :: "bytes \<Rightarrow> u32 option" where
  "nodeGetFirstChildPgno d =
     do { storedOffset \<leftarrow> rd16 d pageHeaderSize; rdw32 d (storedOffset + phs16) }"

definition nodeGetFirstKey :: "bytes \<Rightarrow> bytes option" where
  "nodeGetFirstKey d =
     do { storedOffset \<leftarrow> rd16 d pageHeaderSize;
          let off = uint (storedOffset + phs16) in
          do { ks \<leftarrow> rd16 d (off + 6); slice d (off + nodeSize) (off + nodeSize + uint ks) } }"

definition lastIdx_of :: "bytes \<Rightarrow> int option" where
  "lastIdx_of d = do { lower \<leftarrow> rd16 d 12; Some (drop_bit 1 (uint lower) - 1) }"

definition nodeGetLastChildPgno :: "bytes \<Rightarrow> u32 option" where
  "nodeGetLastChildPgno d =
     do { lastIdx \<leftarrow> lastIdx_of d; storedOffset \<leftarrow> rd16 d (pageHeaderSize + lastIdx * 2);
          rdw32 d (storedOffset + phs16) }"

definition nodeGetLastKey :: "bytes \<Rightarrow> bytes option" where
  "nodeGetLastKey d =
     do { lastIdx \<leftarrow> lastIdx_of d; storedOffset \<leftarrow> rd16 d (pageHeaderSize + lastIdx * 2);
          let off = uint (storedOffset + phs16) in
          do { ks \<leftarrow> rd16 d (off + 6); slice d (off + nodeSize) (off + nodeSize + uint ks) } }"

definition nodeGetFlagsRaw :: "bytes \<Rightarrow> int \<Rightarrow> u8 option" where
  "nodeGetFlagsRaw d idx =
     do { off \<leftarrow> pageEntryOffsetDirect d idx;
          if off = 0 \<or> uint off + 5 > int (length d) then Some 0 else rd8 d (uint (off + 4)) }"

definition nodeGetFlagsUnchecked :: "bytes \<Rightarrow> int \<Rightarrow> u8 option" where
  "nodeGetFlagsUnchecked d idx =
     do { off \<leftarrow> pageEntryOffsetUnchecked d idx; rd8 d (uint (off + 4)) }"

definition nodeGetNodeDataUnchecked :: "bytes \<Rightarrow> int \<Rightarrow> (bytes \<times> u8 \<times> bytes option) option" where
  "nodeGetNodeDataUnchecked d idx =
     do { off \<leftarrow> pageEntryOffsetUnchecked d idx; ds \<leftarrow> rdw32 d off; fl \<leftarrow> rd8 d (uint (off + 4));
          ks \<leftarrow> rdw16 d (off + 6);
          let keyStart = uint off + nodeSize in
          do { k \<leftarrow> slice d keyStart (keyStart + uint ks);
               if fl AND nodeBig \<noteq> 0 then Some (k, fl, None)
               else let dataStart = keyStart + uint ks in
                 do { nd \<leftarrow> slice d dataStart (dataStart + uint ds); Some (k, fl, Some nd) } } }"

definition nodeGetOverflowPgnoRaw :: "bytes \<Rightarrow> int \<Rightarrow> u32 option" where
  "nodeGetOverflowPgnoRaw d idx =
     do { off \<leftarrow> pageEntryOffsetDirect d idx;
          if off = 0 \<or> uint off + nodeSize > int (length d) then Some invalidPgno
          else do { ks \<leftarrow> rdw16 d (off + 6);
            let pgnoOffset = uint off + nodeSize + uint ks in
            if pgnoOffset + 4 > int (length d) then Some invalidPgno
            else rd32 d pgnoOffset } }"

definition nodeGetDataSizeRaw :: "bytes \<Rightarrow> int \<Rightarrow> u32 option" where
  "nodeGetDataSizeRaw d idx =
     do { off \<leftarrow> pageEntryOffsetDirect d idx;
          if off = 0 \<or> uint off + 4 > int (length d) then Some 0 else rdw32 d off }"

section \<open>Accessors on pages without bounds checks\<close>

definition nodeGetKeyFast :: "page \<Rightarrow> int \<Rightarrow> bytes option" where
  "nodeGetKeyFast p idx =
     do { off \<leftarrow> entryOffsetFast p idx; ks \<leftarrow> rdw16 (Data p) (off + 6);
          slice (Data p) (uint (off + ns16)) (uint (off + ns16 + ks)) }"

definition nodeGetDataFast :: "page \<Rightarrow> int \<Rightarrow> bytes option" where
  "nodeGetDataFast p idx =
     do { off \<leftarrow> entryOffsetFast p idx; ds \<leftarrow> rdw32 (Data p) off; ks \<leftarrow> rdw16 (Data p) (off + 6);
          let dataStart = uint off + nodeSize + uint ks in
          slice (Data p) dataStart (dataStart + uint ds) }"

definition nodeGetChildPgnoFast :: "page \<Rightarrow> int \<Rightarrow> u32 option" where
  "nodeGetChildPgnoFast p idx = do { off \<leftarrow> entryOffsetFast p idx; rdw32 (Data p) off }"

definition nodeGetFlagsFast :: "page \<Rightarrow> int \<Rightarrow> u8 option" where
  "nodeGetFlagsFast p idx = do { off \<leftarrow> entryOffsetFast p idx; rd8 (Data p) (uint (off + 4)) }"

definition nodeGetKeyFlagsDataFast :: "page \<Rightarrow> int \<Rightarrow> (bytes \<times> u8 \<times> bytes) option" where
  "nodeGetKeyFlagsDataFast p idx =
     do { off \<leftarrow> entryOffsetFast p idx; ds \<leftarrow> rdw32 (Data p) off; fl \<leftarrow> rd8 (Data p) (uint (off + 4));
          ks \<leftarrow> rdw16 (Data p) (off + 6);
          k \<leftarrow> slice (Data p) (uint (off + ns16)) (uint (off + ns16 + ks));
          let dataStart = uint off + nodeSize + uint ks in
          do { nd \<leftarrow> slice (Data p) dataStart (dataStart + uint ds); Some (k, fl, nd) } }"

end
