(* ===== verification/NodeSpec.thy ===== *)
theory NodeSpec
  imports Node
begin

text \<open>
  What a node holds, read off its byte string, and the agreement of the accessors of node.go with
  it on every entry of a well-formed page.
\<close>

section \<open>The parts of a node\<close>

definition nd_klen :: "bytes \<Rightarrow> nat" where "nd_klen nd = unat (g16 nd 6)"
definition nd_key :: "bytes \<Rightarrow> bytes" where "nd_key nd = take (nd_klen nd) (drop 8 nd)"
definition nd_flags :: "bytes \<Rightarrow> u8" where "nd_flags nd = nd ! 4"
definition nd_big :: "bytes \<Rightarrow> bool" where "nd_big nd \<longleftrightarrow> nd_flags nd AND nodeBig \<noteq> 0"
definition nd_dsize :: "bytes \<Rightarrow> u32" where "nd_dsize nd = g32 nd 0"

text \<open>What follows the key: the data, or the overflow page number of a big node.\<close>

definition nd_data :: "bytes \<Rightarrow> bytes" where "nd_data nd = drop (8 + nd_klen nd) nd"
definition nd_ovpg :: "bytes \<Rightarrow> u32" where "nd_ovpg nd = g32 nd (8 + nd_klen nd)"

lemma length_branch_node: "node_wf True nd \<Longrightarrow> length nd = 8 + nd_klen nd"
  by (simp add: node_wf_def nodesz_def nd_klen_def)

lemma length_leaf_node: "node_wf False nd \<Longrightarrow>
   length nd = 8 + nd_klen nd + (if nd_big nd then 4 else unat (nd_dsize nd))"
  by (auto simp: node_wf_def nodesz_def nd_klen_def nd_big_def nd_flags_def nd_dsize_def nodeBig_def)

lemma node_wf_klen: "node_wf br nd \<Longrightarrow> 8 + nd_klen nd \<le> length nd"
  by (auto simp: node_wf_def nodesz_def nd_klen_def)

lemma length_nd_key: "node_wf br nd \<Longrightarrow> length (nd_key nd) = nd_klen nd"
  using node_wf_klen [of br nd] by (simp add: nd_key_def)

section \<open>Reading at the offset of an entry\<close>

lemma rdw16_nat:
  assumes "off + 1 < length d" "length d < 65536" "\<And>k. k \<le> 1 \<Longrightarrow> uint (w + of_nat k) = int (off + k)"
  shows "rdw16 d w = Some (g16 d off)"
  using assms(1,2) assms(3) [of 0] assms(3) [of 1]
  by (simp add: rdw16_def rd8_def g16_def nat_add_distrib flip: int_eq_iff_numeral)

lemma rdw32_nat:
  assumes "off + 3 < length d" "length d < 65536" "\<And>k. k \<le> 3 \<Longrightarrow> uint (w + of_nat k) = int (off + k)"
  shows "rdw32 d w = Some (g32 d off)"
  using assms(1,2) assms(3) [of 0] assms(3) [of 1] assms(3) [of 2] assms(3) [of 3]
  by (simp add: rdw32_def rd8_def g32_def nat_add_distrib)

text \<open>
  What every accessor reads: the 16-bit offset of the entry, the fields there, and the slices
  between positions of the node.
\<close>

definition ew :: "page \<Rightarrow> nat \<Rightarrow> u16" where "ew p i = of_nat (20 + ptr p i)"

lemma entry_off:
  assumes ok: "page_ok p" "i < nents p"
  shows "entryOffset p (int i) = Some (ew p i)" "entryOffsetFast p (int i) = Some (ew p i)"
    "pageEntryOffsetDirect (Data p) (int i) = Some (ew p i)"
    "pageEntryOffsetUnchecked (Data p) (int i) = Some (ew p i)"
    "(ew p i = 0) = False" "unat (ew p i) = 20 + ptr p i"
proof -
  note l = page_okD [OF ok(1)]
  show off: "entryOffset p (int i) = Some (ew p i)" "entryOffsetFast p (int i) = Some (ew p i)"
    using entryOffset_eq [OF ok] entryOffsetFast_eq [OF ok] by (simp_all add: ew_def)
  show un: "pageEntryOffsetUnchecked (Data p) (int i) = Some (ew p i)"
    using off(2) by (simp add: pageEntryOffsetUnchecked_def entryOffsetFast_def)
  have "pageNumEntriesDirect (Data p) = int (nents p)"
    using l(1) by (simp add: pageNumEntriesDirect_def nents_def low_def g16_def drop_bit1_uint)
  then show "pageEntryOffsetDirect (Data p) (int i) = Some (ew p i)"
    using un ok(2) by (simp add: pageEntryOffsetDirect_def pageEntryOffsetUnchecked_def Let_def)
  show uw: "unat (ew p i) = 20 + ptr p i" unfolding ew_def by (rule unat_entry_off [OF ok])
  then show "(ew p i = 0) = False" by auto
qed

lemma entry_uint:
  assumes ok: "page_ok p" "i < nents p"
  shows "k \<le> nsz p i \<Longrightarrow> uint (ew p i + of_nat k) = int (20 + ptr p i + k)"
    "uint (ew p i) = int (20 + ptr p i)" "uint (ew p i + 8) = int (20 + ptr p i + 8)"
    "uint (ew p i + 4) = int (20 + ptr p i + 4)"
proof -
  note e = page_ok_entry [OF ok] and s = nsz_ge8 [of p i] and l = page_okD [OF ok(1)]
  show uk: "uint (ew p i + of_nat k) = int (20 + ptr p i + k)" if "k \<le> nsz p i" for k
    unfolding ew_def of_nat_add [symmetric] by (rule uint_of_nat16) (use that e l in simp)
  show "uint (ew p i) = int (20 + ptr p i)" "uint (ew p i + 8) = int (20 + ptr p i + 8)"
    "uint (ew p i + 4) = int (20 + ptr p i + 4)"
    using uk [of 0] uk [of 8] uk [of 4] s by simp_all
qed

lemma entry_fields:
  assumes ok: "page_ok p" "i < nents p"
  shows "rdw16 (Data p) (ew p i + 6) = Some (g16 (node_at p i) 6)"
    "rdw32 (Data p) (ew p i) = Some (g32 (node_at p i) 0)"
    "rd8 (Data p) (int (20 + ptr p i + 4)) = Some (node_at p i ! 4)"
proof -
  note e = page_ok_entry [OF ok] and s = nsz_ge8 [of p i] and l = page_okD [OF ok(1)]
  have u6: "uint (ew p i + 6 + of_nat k) = int (20 + ptr p i + 6 + k)" if "k \<le> 1" for k
    using entry_uint(1) [OF ok, of "6 + k"] s that by (simp add: add.assoc)
  have u0: "uint (ew p i + of_nat k) = int (20 + ptr p i + k)" if "k \<le> 3" for k
    using entry_uint(1) [OF ok, of k] s that by simp
  show "rdw16 (Data p) (ew p i + 6) = Some (g16 (node_at p i) 6)"
    using rdw16_nat [OF _ l(2) u6] e s by (simp add: g16_def node_at_def add.commute)
  show "rdw32 (Data p) (ew p i) = Some (g32 (node_at p i) 0)"
    using rdw32_nat [OF _ l(2) u0] e s by (simp add: g32_def node_at_def add.commute)
  show "rd8 (Data p) (int (20 + ptr p i + 4)) = Some (node_at p i ! 4)"
    using rd8_Some [of "20 + ptr p i + 4" "Data p"] s e by (simp add: node_at_def add.commute)
qed

lemma entry_slice:
  assumes "page_ok p" "i < nents p" "a \<le> b" "b \<le> nsz p i"
  shows "slice (Data p) (int (20 + ptr p i + a)) (int (20 + ptr p i + b)) =
       Some (take (b - a) (drop a (node_at p i)))"
  using slice_nat [of "20 + ptr p i + a" "20 + ptr p i + b" "Data p"] assms page_ok_entry [OF assms(1,2)]
  by (simp add: node_at_def drop_take add.commute min_def)

lemma entry_inside:
  assumes "page_ok p" "i < nents p" "b \<le> nsz p i"
  shows "(int (length (Data p)) < int (20 + ptr p i + b)) = False"
  unfolding of_nat_less_iff using assms page_ok_entry(2) [OF assms(1,2)] by simp

lemmas entry_simps = entry_off(1-5) entry_uint(2-4) entry_fields

section \<open>The accessors agree with the node\<close>

lemma node_at_klen:
  assumes "page_ok p" "i < nents p"
  shows "8 + nd_klen (node_at p i) \<le> nsz p i"
  using node_wf_klen [OF node_wf_node_at [OF assms]] assms by simp

lemma key_accessors:
  assumes ok: "page_ok p" "i < nents p"
  shows "nodeGetKeyDirect p (int i) = Some (Some (nd_key (node_at p i)))"
    "nodeGetKeyRaw (Data p) (int i) = Some (Some (nd_key (node_at p i)))"
    "nodeGetKeyUnchecked (Data p) (int i) = Some (nd_key (node_at p i))"
    "nodeGetKeyFast p (int i) = Some (nd_key (node_at p i))"
proof -
  define ks where "ks = g16 (node_at p i) 6"
  have ksn: "nd_klen (node_at p i) = unat ks" by (simp add: nd_klen_def ks_def)
  have kb: "8 + unat ks \<le> nsz p i" and k8: "8 \<le> nsz p i" using node_at_klen [OF ok] by (simp_all add: ksn)
  have "ew p i + 8 + ks = ew p i + of_nat (8 + unat ks)" by simp
  then have wk: "uint (ew p i + 8 + ks) = int (20 + ptr p i + (8 + unat ks))"
    using entry_uint(1) [OF ok kb] by (simp only:)
  have i8: "int (20 + ptr p i + 8) + uint ks = int (20 + ptr p i + (8 + unat ks))"
    "int (20 + ptr p i) + 8 = int (20 + ptr p i + 8)" by simp_all
  have sl: "slice (Data p) (int (20 + ptr p i + 8)) (int (20 + ptr p i + (8 + unat ks))) = Some (nd_key (node_at p i))"
    using entry_slice [OF ok _ kb, of 8] by (simp add: nd_key_def ksn)
  show "nodeGetKeyDirect p (int i) = Some (Some (nd_key (node_at p i)))"
    "nodeGetKeyRaw (Data p) (int i) = Some (Some (nd_key (node_at p i)))"
    "nodeGetKeyUnchecked (Data p) (int i) = Some (nd_key (node_at p i))"
    "nodeGetKeyFast p (int i) = Some (nd_key (node_at p i))"
    unfolding nodeGetKeyDirect_def nodeGetKeyRaw_def nodeGetKeyUnchecked_def nodeGetKeyFast_def
      entry_simps [OF ok] bind.bind_lunit Let_def nodeSize_def of_int_numeral
    by (simp_all only: flip: ks_def)
       (simp_all only: wk i8 sl entry_inside [OF ok kb] entry_inside [OF ok k8] simp_thms if_False option.map)
qed

lemma child_accessors:
  assumes ok: "page_ok p" "i < nents p"
  shows "nodeGetChildPgnoDirect p (int i) = Some (nd_dsize (node_at p i))"
    "nodeGetChildPgnoRaw (Data p) (int i) = Some (nd_dsize (node_at p i))"
    "nodeGetChildPgnoUnchecked (Data p) (int i) = Some (nd_dsize (node_at p i))"
    "nodeGetChildPgnoFast p (int i) = Some (nd_dsize (node_at p i))"
    "nodeGetDataSizeDirect p (int i) = Some (nd_dsize (node_at p i))"
    "nodeGetDataSizeRaw (Data p) (int i) = Some (nd_dsize (node_at p i))"
proof -
  have k4: "4 \<le> nsz p i" using nsz_ge8 [of p i] by simp
  have i4: "int (20 + ptr p i) + 4 = int (20 + ptr p i + 4)" by simp
  show "nodeGetChildPgnoDirect p (int i) = Some (nd_dsize (node_at p i))"
    "nodeGetChildPgnoRaw (Data p) (int i) = Some (nd_dsize (node_at p i))"
    "nodeGetChildPgnoUnchecked (Data p) (int i) = Some (nd_dsize (node_at p i))"
    "nodeGetChildPgnoFast p (int i) = Some (nd_dsize (node_at p i))"
    "nodeGetDataSizeDirect p (int i) = Some (nd_dsize (node_at p i))"
    "nodeGetDataSizeRaw (Data p) (int i) = Some (nd_dsize (node_at p i))"
    unfolding nodeGetChildPgnoDirect_def nodeGetChildPgnoRaw_def nodeGetChildPgnoUnchecked_def
      nodeGetChildPgnoFast_def nodeGetDataSizeDirect_def nodeGetDataSizeRaw_def nd_dsize_def
      entry_simps [OF ok] bind.bind_lunit
    by (simp_all only: i4 entry_inside [OF ok k4] simp_thms if_False)
qed

lemma flag_accessors:
  assumes ok: "page_ok p" "i < nents p"
  shows "nodeGetFlagsDirect p (int i) = Some (nd_flags (node_at p i))"
    "nodeGetFlagsRaw (Data p) (int i) = Some (nd_flags (node_at p i))"
    "nodeGetFlagsUnchecked (Data p) (int i) = Some (nd_flags (node_at p i))"
    "nodeGetFlagsFast p (int i) = Some (nd_flags (node_at p i))"
proof -
  have k5: "5 \<le> nsz p i" using nsz_ge8 [of p i] by simp
  have i5: "int (20 + ptr p i) + 5 = int (20 + ptr p i + 5)" by simp
  show "nodeGetFlagsDirect p (int i) = Some (nd_flags (node_at p i))"
    "nodeGetFlagsRaw (Data p) (int i) = Some (nd_flags (node_at p i))"
    "nodeGetFlagsUnchecked (Data p) (int i) = Some (nd_flags (node_at p i))"
    "nodeGetFlagsFast p (int i) = Some (nd_flags (node_at p i))"
    unfolding nodeGetFlagsDirect_def nodeGetFlagsRaw_def nodeGetFlagsUnchecked_def
      nodeGetFlagsFast_def nd_flags_def entry_simps [OF ok] bind.bind_lunit
    by (simp_all only: i5 entry_inside [OF ok k5] simp_thms if_False)
qed

text \<open>A leaf node that is not big ends with its data; a big one with the overflow page number.\<close>

lemma data_accessors:
  assumes ok: "page_ok p" "i < nents p" and leaf: "\<not> brp p" and nb: "\<not> nd_big (node_at p i)"
  shows "nodeGetDataDirect p (int i) = Some (Some (nd_data (node_at p i)))"
    "nodeGetDataRaw (Data p) (int i) = Some (Some (nd_data (node_at p i)))"
    "nodeGetDataUnchecked (Data p) (int i) = Some (nd_data (node_at p i))"
    "nodeGetDataFast p (int i) = Some (nd_data (node_at p i))"
    "nodeGetNodeDataUnchecked (Data p) (int i) =
       Some (nd_key (node_at p i), nd_flags (node_at p i), Some (nd_data (node_at p i)))"
    "nodeGetKeyFlagsDataFast p (int i) =
       Some (nd_key (node_at p i), nd_flags (node_at p i), nd_data (node_at p i))"
proof -
  let ?nd = "node_at p i"
  define ks where "ks = g16 ?nd 6"
  define ds where "ds = g32 ?nd 0"
  have ksn: "nd_klen ?nd = unat ks" by (simp add: nd_klen_def ks_def)
  have ln: "length ?nd = nsz p i" using ok by simp
  have sz: "nsz p i = 8 + unat ks + unat ds"
    using length_leaf_node [of ?nd] node_wf_node_at [OF ok] leaf nb ln
    by (simp add: ksn nd_dsize_def ds_def)
  have kb: "8 + unat ks \<le> nsz p i" and k8: "8 \<le> nsz p i" and kk: "8 \<le> 8 + unat ks" by (simp_all add: sz)
  have "ew p i + 8 + ks = ew p i + of_nat (8 + unat ks)" by simp
  then have wk: "uint (ew p i + 8 + ks) = int (20 + ptr p i + (8 + unat ks))"
    using entry_uint(1) [OF ok kb] by (simp only:)
  have ii: "int (20 + ptr p i + 8) + uint ks = int (20 + ptr p i + (8 + unat ks))"
    "int (20 + ptr p i) + 8 = int (20 + ptr p i + 8)"
    "int (20 + ptr p i + (8 + unat ks)) + uint ds = int (20 + ptr p i + nsz p i)" by (simp_all add: sz)
  have sl: "slice (Data p) (int (20 + ptr p i + 8)) (int (20 + ptr p i + (8 + unat ks))) = Some (nd_key ?nd)"
    using entry_slice [OF ok kk kb] by (simp add: nd_key_def ksn)
  have sd: "slice (Data p) (int (20 + ptr p i + (8 + unat ks))) (int (20 + ptr p i + nsz p i)) = Some (nd_data ?nd)"
    using entry_slice [OF ok kb le_refl] ln by (simp add: nd_data_def ksn)
  have fl: "(?nd ! 4 AND nodeBig \<noteq> 0) = False" using nb by (simp add: nd_big_def nd_flags_def)
  note in_ = entry_inside [OF ok k8] entry_inside [OF ok le_refl]
  show "nodeGetDataDirect p (int i) = Some (Some (nd_data ?nd))"
    "nodeGetDataRaw (Data p) (int i) = Some (Some (nd_data ?nd))"
    "nodeGetDataUnchecked (Data p) (int i) = Some (nd_data ?nd)"
    "nodeGetDataFast p (int i) = Some (nd_data ?nd)"
    "nodeGetNodeDataUnchecked (Data p) (int i) = Some (nd_key ?nd, nd_flags ?nd, Some (nd_data ?nd))"
    "nodeGetKeyFlagsDataFast p (int i) = Some (nd_key ?nd, nd_flags ?nd, nd_data ?nd)"
    unfolding nodeGetDataDirect_def nodeGetDataRaw_def nodeGetDataUnchecked_def nodeGetDataFast_def
      nodeGetNodeDataUnchecked_def nodeGetKeyFlagsDataFast_def
      entry_simps [OF ok] bind.bind_lunit Let_def nodeSize_def of_int_numeral nd_flags_def
    by (simp_all only: flip: ks_def ds_def)
       (simp_all only: ii wk sl sd in_ fl simp_thms if_False option.map bind.bind_lunit)
qed

lemma big_accessors:
  assumes ok: "page_ok p" "i < nents p" and leaf: "\<not> brp p" and big: "nd_big (node_at p i)"
  shows "nodeGetOverflowPgnoDirect p (int i) = Some (nd_ovpg (node_at p i))"
    "nodeGetOverflowPgnoRaw (Data p) (int i) = Some (nd_ovpg (node_at p i))"
    "nodeGetDataDirect p (int i) = Some None" "nodeGetDataRaw (Data p) (int i) = Some None"
proof -
  let ?nd = "node_at p i"
  define ks where "ks = g16 ?nd 6"
  have ksn: "nd_klen ?nd = unat ks" by (simp add: nd_klen_def ks_def)
  have ln: "length ?nd = nsz p i" using ok by simp
  have sz: "nsz p i = 8 + unat ks + 4"
    using length_leaf_node [of ?nd] node_wf_node_at [OF ok] leaf big ln by (simp add: ksn)
  have k8: "8 \<le> nsz p i" by (simp add: sz)
  have ii: "int (20 + ptr p i + 8) + uint ks = int (20 + ptr p i + (8 + unat ks))"
    "int (20 + ptr p i) + 8 = int (20 + ptr p i + 8)"
    "int (20 + ptr p i + (8 + unat ks)) + 4 = int (20 + ptr p i + nsz p i)" by (simp_all add: sz)
  have rd: "rd32 (Data p) (int (20 + ptr p i + (8 + unat ks))) = Some (nd_ovpg ?nd)"
  proof -
    have b: "20 + ptr p i + (8 + unat ks) + 3 < length (Data p)"
      using page_ok_entry(2) [OF ok] by (simp add: sz)
    have "g32 ?nd (8 + unat ks) = g32 (Data p) (20 + ptr p i + (8 + unat ks))"
      unfolding node_at_def by (rule g32_take_drop) (use page_ok_entry(2) [OF ok] sz in simp_all)
    then show ?thesis using rd32_Some [OF b] by (simp only: nd_ovpg_def ksn)
  qed
  have fl: "(?nd ! 4 AND nodeBig \<noteq> 0) = True" using big by (simp add: nd_big_def nd_flags_def)
  note in_ = entry_inside [OF ok k8] entry_inside [OF ok le_refl]
  show "nodeGetOverflowPgnoDirect p (int i) = Some (nd_ovpg ?nd)"
    "nodeGetOverflowPgnoRaw (Data p) (int i) = Some (nd_ovpg ?nd)"
    "nodeGetDataDirect p (int i) = Some None" "nodeGetDataRaw (Data p) (int i) = Some None"
    unfolding nodeGetOverflowPgnoDirect_def nodeGetOverflowPgnoRaw_def nodeGetDataDirect_def
      nodeGetDataRaw_def entry_simps [OF ok] bind.bind_lunit Let_def nodeSize_def
    by (simp_all only: flip: ks_def)
       (simp_all only: ii rd in_ fl simp_thms if_False if_True)
qed

section \<open>First and last entry\<close>

text \<open>The two accessors of the first and of the last entry are the unchecked ones at 0 and \<open>n - 1\<close>.\<close>

lemma rd16_eq_rdw16:
  assumes "uint w = i" "uint (w + 1) = i + 1" shows "rd16 d i = rdw16 d w"
  using assms by (simp add: rd16_def rdw16_def)

lemma first_last_accessors:
  assumes ok: "page_ok p" "0 < nents p"
  shows "nodeGetFirstChildPgno (Data p) = Some (nd_dsize (node_at p 0))"
    "nodeGetFirstKey (Data p) = Some (nd_key (node_at p 0))"
    "nodeGetLastChildPgno (Data p) = Some (nd_dsize (node_at p (nents p - 1)))"
    "nodeGetLastKey (Data p) = Some (nd_key (node_at p (nents p - 1)))"
proof -
  have li: "lastIdx_of (Data p) = Some (int (nents p - 1))"
    using numEntriesFast_eq [OF page_okD(1) [OF ok(1)]] ok(2)
    by (auto simp: lastIdx_of_def numEntriesFast_def bind_eq_Some_conv of_nat_diff)
  have st: "\<exists>st. rd16 (Data p) (pageHeaderSize + int i * 2) = Some st \<and> st + phs16 = ew p i"
    if "i < nents p" for i
    using entry_off(4) [OF ok(1) that]
    by (auto simp: pageEntryOffsetUnchecked_def bind_eq_Some_conv)
  have key: "(let off = uint (ew p i) in
      do { ks \<leftarrow> rd16 (Data p) (off + 6); slice (Data p) (off + nodeSize) (off + nodeSize + uint ks) }) =
      Some (nd_key (node_at p i))" if i: "i < nents p" for i
  proof -
    have "rd16 (Data p) (uint (ew p i) + 6) = rdw16 (Data p) (ew p i + 6)"
    proof (rule rd16_eq_rdw16)
      show "uint (ew p i + 6) = uint (ew p i) + 6"
        using entry_uint(1) [OF ok(1) i, of 6] entry_uint(2) [OF ok(1) i] nsz_ge8 [of p i] by simp
      have "ew p i + 6 + 1 = ew p i + of_nat 7" by simp
      then show "uint (ew p i + 6 + 1) = uint (ew p i) + 6 + 1"
        using entry_uint(1) [OF ok(1) i, of 7] entry_uint(2) [OF ok(1) i] nsz_ge8 [of p i] by (simp only:)
    qed
    moreover have "nodeGetKeyUnchecked (Data p) (int i) = Some (nd_key (node_at p i))"
      by (rule key_accessors [OF ok(1) i])
    ultimately show ?thesis
      using entry_uint(2,3) [OF ok(1) i]
      by (simp add: nodeGetKeyUnchecked_def entry_off [OF ok(1) i] Let_def)
  qed
  have child: "rdw32 (Data p) (ew p i) = Some (nd_dsize (node_at p i))" if "i < nents p" for i
    using entry_fields(2) [OF ok(1) that] by (simp add: nd_dsize_def)
  obtain s0 where s0: "rd16 (Data p) pageHeaderSize = Some s0" "s0 + phs16 = ew p 0"
    using st [OF ok(2)] by auto
  show "nodeGetFirstChildPgno (Data p) = Some (nd_dsize (node_at p 0))"
    "nodeGetFirstKey (Data p) = Some (nd_key (node_at p 0))"
    unfolding nodeGetFirstChildPgno_def nodeGetFirstKey_def s0 bind.bind_lunit
    by (rule child [OF ok(2)], rule key [OF ok(2)])
  have last: "nents p - 1 < nents p" using ok(2) by simp
  obtain s1 where s1: "rd16 (Data p) (pageHeaderSize + int (nents p - 1) * 2) = Some s1"
    "s1 + phs16 = ew p (nents p - 1)" using st [OF last] by auto
  show "nodeGetLastChildPgno (Data p) = Some (nd_dsize (node_at p (nents p - 1)))"
    "nodeGetLastKey (Data p) = Some (nd_key (node_at p (nents p - 1)))"
    unfolding nodeGetLastChildPgno_def nodeGetLastKey_def li bind.bind_lunit s1
    by (rule child [OF last], rule key [OF last])
qed

section \<open>Node values\<close>

lemma nodeFromPage_ok:
  assumes ok: "page_ok p" "i < nents p"
  shows "nodeFromPage p (int i) = Some (Some \<lparr>ndata = drop (20 + ptr p i) (Data p), offset = ew p i\<rparr>)"
proof -
  have k0: "\<not> int (20 + ptr p i) \<ge> int (length (Data p))" "int (20 + ptr p i) + 8 \<le> int (length (Data p))"
    using page_ok_entry [OF ok] by simp_all
  show ?thesis
    unfolding nodeFromPage_def entry_simps [OF ok] bind.bind_lunit entry_off(6) [OF ok] nodeSize_def
    by (simp only: k0 simp_thms if_False if_True)
qed

text \<open>A node value whose bytes start with the node \<open>nd\<close>.\<close>

lemma node_value:
  assumes "node_wf False nd" "ndata n = nd @ rest"
  shows "nd_klen nd < 65528 \<Longrightarrow> key n = Some (Some (nd_key nd))"
    "nodeData n = Some (Some (nd_data nd))" "totalSize n = int (length nd)"
    "flags n = Some (nd_flags nd)" "isBig n = Some (nd_big nd)"
    "overflowPgno n = Some (if nd_big nd then nd_ovpg nd else invalidPgno)"
proof -
  have l8: "8 \<le> length nd" using assms(1) by (simp add: node_wf_def)
  then have ne: "nd \<noteq> []" by auto
  have h: "nheader n = Some \<lparr>DataSize = nd_dsize nd, Flags = nd_flags nd, Extra = nd ! 5, KeySize = g16 nd 6\<rparr>"
    using l8 ne assms(2) by (simp add: nheader_def g32_def g16_def nth_append nd_dsize_def nd_flags_def)
  note ln = length_leaf_node [OF assms(1)]
  have fb: "nd_flags nd AND nodeBig \<noteq> 0 \<longleftrightarrow> nd_big nd" by (simp add: nd_big_def)
  have uk: "uint (g16 nd 6) = int (nd_klen nd)" by (simp add: nd_klen_def)
  have ud: "uint (nd_dsize nd) = int (unat (nd_dsize nd))" by simp
  show "flags n = Some (nd_flags nd)" "isBig n = Some (nd_big nd)"
    by (simp_all add: flags_def isBig_def h fb)
  show "totalSize n = int (length nd)"
    using ln by (simp add: totalSize_def h fb uk)
  have sl: "slice (nd @ rest) (int a) (int b) = Some (take (b - a) (drop a nd))"
    if "a \<le> b" "b \<le> length nd" for a b
    using slice_nat [of a b "nd @ rest"] that by simp
  show "nodeData n = Some (Some (nd_data nd))"
  proof (cases "nd_big nd")
    case True
    then show ?thesis
      using ln sl [of "8 + nd_klen nd" "8 + nd_klen nd + 4"] assms(2)
      by (simp add: nodeData_def h fb uk nd_data_def Let_def)
  next
    case False
    then show ?thesis
      using ln sl [of "8 + nd_klen nd" "length nd"] assms(2)
      by (simp add: nodeData_def h fb uk nd_data_def Let_def)
  qed
  show "overflowPgno n = Some (if nd_big nd then nd_ovpg nd else invalidPgno)"
  proof (cases "nd_big nd")
    case True
    then have "rd32 (ndata n) (int (8 + nd_klen nd)) = Some (nd_ovpg nd)"
      using ln assms(2) by (subst rd32_Some) (auto simp: g32_def nth_append nd_ovpg_def)
    then show ?thesis
      using True ln assms(2) by (simp add: overflowPgno_def isBig_def h fb uk)
  qed (simp add: overflowPgno_def isBig_def h fb)
  show "key n = Some (Some (nd_key nd))" if lt: "nd_klen nd < 65528"
  proof -
    have "ns16 + g16 nd 6 = of_nat (8 + nd_klen nd)" by (simp add: nd_klen_def)
    moreover have "uint (of_nat (8 + nd_klen nd) :: u16) = int (8 + nd_klen nd)"
      by (rule uint_of_nat16) (use lt in simp)
    ultimately have "uint (ns16 + g16 nd 6) = int (8 + nd_klen nd)" by (simp only:)
    then show ?thesis
      using ln sl [of 8 "8 + nd_klen nd"] assms(2) by (simp add: key_def h uk nd_key_def)
  qed
qed

end
