(* ===== verification/KeyOrder.thy ===== *)
theory KeyOrder
  imports Prelude
begin

text \<open>
  The interface of a key comparator (env.SetCompare, env.SetDupCompare and the default
  bytes.Compare): an int-valued three-way comparison that is a total preorder.  Against it, what a
  search among sorted keys must return: the position of a key in a leaf and the child to descend
  to in a branch, as functions of the key list.  The binary search loop all the page searches of
  cursor.go, txn.go and search_other.go share is translated once and proved once, for every
  comparator of the interface.
\<close>

section \<open>Positions among sorted keys\<close>

text \<open>\<open>sorted_from cmp m ks\<close>: the keys from index \<open>m\<close> on strictly increase.\<close>

definition sorted_from :: "(bytes \<Rightarrow> bytes \<Rightarrow> int) \<Rightarrow> nat \<Rightarrow> bytes list \<Rightarrow> bool" where
  "sorted_from cmp m ks \<longleftrightarrow> sorted_wrt (\<lambda>a b. cmp a b < 0) (drop m ks)"

text \<open>
  In a leaf: how many keys are smaller than \<open>k\<close>, and whether \<open>k\<close> is there.  In a branch, whose
  entry 0 has no key: how many separators are not greater than \<open>k\<close>.
\<close>

definition leaf_pos :: "(bytes \<Rightarrow> bytes \<Rightarrow> int) \<Rightarrow> bytes list \<Rightarrow> bytes \<Rightarrow> nat" where
  "leaf_pos cmp ks k = length (filter (\<lambda>x. 0 < cmp k x) ks)"

definition branch_pos :: "(bytes \<Rightarrow> bytes \<Rightarrow> int) \<Rightarrow> bytes list \<Rightarrow> bytes \<Rightarrow> nat" where
  "branch_pos cmp ks k = length (filter (\<lambda>x. 0 \<le> cmp k x) (tl ks))"

definition has_key :: "(bytes \<Rightarrow> bytes \<Rightarrow> int) \<Rightarrow> bytes list \<Rightarrow> bytes \<Rightarrow> bool" where
  "has_key cmp ks k \<longleftrightarrow> (\<exists>x \<in> set ks. cmp k x = 0)"

section \<open>The loop of every binary search (cursor.go, txn.go, search_other.go)\<close>

text \<open>
  \<open>c mid\<close> is the comparison of the search key with the key of entry \<open>mid\<close> (\<open>None\<close>: the access
  panics).  \<open>Inl mid\<close>: the loop returned at an equal key; \<open>Inr low\<close>: it ended with this \<open>low\<close>.
\<close>

function bsearch :: "(int \<Rightarrow> int option) \<Rightarrow> int \<Rightarrow> int \<Rightarrow> (int + int) option" where
  "bsearch c low high =
     (if low \<le> high then
        let mid = (low + high) div 2 in
        (case c mid of
           None \<Rightarrow> None
         | Some r \<Rightarrow> if r < 0 then bsearch c low (mid - 1)
                     else if 0 < r then bsearch c (mid + 1) high
                     else Some (Inl mid))
      else Some (Inr low))"
  by auto
termination
  by (relation "measure (\<lambda>(c, low, high). nat (high + 1 - low))") auto

declare bsearch.simps [simp del]

lemma length_filter_prefix:
  assumes "j \<le> length xs" "\<And>i. i < j \<Longrightarrow> P (xs ! i)" "\<And>i. j \<le> i \<Longrightarrow> i < length xs \<Longrightarrow> \<not> P (xs ! i)"
  shows "length (filter P xs) = j"
proof -
  have "filter P (take j xs) = take j xs" using assms(1,2) by (auto simp: filter_id_conv in_set_conv_nth)
  moreover have "filter P (drop j xs) = []" using assms(1,3) by (auto simp: filter_empty_conv in_set_conv_nth)
  ultimately show ?thesis
    using assms(1) filter_append [of P "take j xs" "drop j xs"] by simp
qed

section \<open>The comparator interface\<close>

locale key_order =
  fixes cmp :: "bytes \<Rightarrow> bytes \<Rightarrow> int"
  assumes cmp_refl: "cmp a a = 0"
    and cmp_flip: "cmp a b < 0 \<longleftrightarrow> 0 < cmp b a"
    and cmp_trans: "cmp a b \<le> 0 \<Longrightarrow> cmp b c \<le> 0 \<Longrightarrow> cmp a c \<le> 0"
begin

lemma cmp_le_flip: "cmp a b \<le> 0 \<longleftrightarrow> 0 \<le> cmp b a"
  using cmp_flip [of b a] by linarith

lemma cmp_eq_flip: "cmp a b = 0 \<longleftrightarrow> cmp b a = 0"
  using cmp_flip [of a b] cmp_flip [of b a] by linarith

lemma less_trans: "cmp a b < 0 \<Longrightarrow> cmp b c \<le> 0 \<Longrightarrow> cmp a c < 0"
  using cmp_trans [of b c a] cmp_flip [of a b] cmp_le_flip [of c a] by linarith

lemma less_trans': "cmp a b \<le> 0 \<Longrightarrow> cmp b c < 0 \<Longrightarrow> cmp a c < 0"
  using cmp_trans [of c a b] cmp_flip [of b c] cmp_le_flip [of c a] by linarith

text \<open>Where the loop stops, among keys sorted from \<open>m\<close> on.\<close>

lemma sorted_fromD:
  assumes "sorted_from cmp m ks" "m \<le> i" "i < j" "j < length ks"
  shows "cmp (ks ! i) (ks ! j) < 0"
  using sorted_wrt_nth_less [of "\<lambda>a b. cmp a b < 0" "drop m ks" "i - m" "j - m"] assms
  by (simp add: sorted_from_def)

definition splits_at :: "bytes list \<Rightarrow> nat \<Rightarrow> bytes \<Rightarrow> nat \<Rightarrow> bool" where
  "splits_at ks m k l \<longleftrightarrow> m \<le> l \<and> l \<le> length ks \<and>
     (\<forall>i. m \<le> i \<longrightarrow> i < l \<longrightarrow> 0 < cmp k (ks ! i)) \<and> (\<forall>i. l \<le> i \<longrightarrow> i < length ks \<longrightarrow> cmp k (ks ! i) \<le> 0)"

lemma bsearch_ok:
  assumes "sorted_from cmp m ks" "\<And>i. m \<le> i \<Longrightarrow> i < h \<Longrightarrow> c (int i) = Some (cmp k (ks ! i))"
    and "m \<le> l" "l \<le> h" "h \<le> length ks"
    and "\<And>i. m \<le> i \<Longrightarrow> i < l \<Longrightarrow> 0 < cmp k (ks ! i)"
    and "\<And>i. h \<le> i \<Longrightarrow> i < length ks \<Longrightarrow> cmp k (ks ! i) < 0"
  shows "(\<exists>j. bsearch c (int l) (int h - 1) = Some (Inl (int j)) \<and> m \<le> j \<and> j < length ks \<and> cmp k (ks ! j) = 0) \<or>
    (\<exists>j. bsearch c (int l) (int h - 1) = Some (Inr (int j)) \<and> splits_at ks m k j \<and>
         (\<forall>i. j \<le> i \<longrightarrow> i < length ks \<longrightarrow> cmp k (ks ! i) < 0))"
  using assms(2-)
proof (induction "h - l" arbitrary: l h rule: less_induct)
  case less
  note prems = less.prems
  show ?case
  proof (cases "l < h")
    case False
    then have "l = h" using prems by simp
    then show ?thesis
      using prems by (subst (1 2) bsearch.simps) (auto simp: splits_at_def intro!: less_imp_le)
  next
    case True
    define mid where "mid = (l + h - 1) div 2"
    have mid: "l \<le> mid" "mid < h" using True by (auto simp: mid_def)
    have mi: "(int l + (int h - 1)) div 2 = int mid"
      using True by (simp add: mid_def zdiv_int)
    have cm: "c (int mid) = Some (cmp k (ks ! mid))" using prems mid by simp
    have le: "int l \<le> int h - 1" using True by simp
    note st = bsearch.simps [of c "int l" "int h - 1", unfolded mi Let_def cm, simplified le if_True option.case]
    consider "cmp k (ks ! mid) < 0" | "0 < cmp k (ks ! mid)" | "cmp k (ks ! mid) = 0" by linarith
    then show ?thesis
    proof cases
      case 1
      have "cmp k (ks ! i) < 0" if "mid \<le> i" "i < length ks" for i
      proof (cases "i = mid")
        case False
        then have "cmp (ks ! mid) (ks ! i) < 0"
          using sorted_fromD [OF assms(1), of mid i] that prems mid by simp
        then show ?thesis using less_trans [OF 1, of "ks ! i"] by simp
      qed (use 1 in simp)
      then show ?thesis
        using less.hyps [of mid l] prems mid 1 by (simp add: st)
    next
      case 2
      have "0 < cmp k (ks ! i)" if "m \<le> i" "i < Suc mid" for i
      proof (cases "i = mid")
        case False
        then have "cmp (ks ! i) (ks ! mid) < 0"
          using sorted_fromD [OF assms(1), of i mid] that prems mid by simp
        moreover have "cmp (ks ! mid) k < 0" using 2 cmp_flip by blast
        ultimately have "cmp (ks ! i) k < 0" by (rule less_trans [OF _ less_imp_le])
        then show ?thesis by (simp only: cmp_flip)
      qed (use 2 in simp)
      then show ?thesis
        using less.hyps [of h "Suc mid"] prems mid 2 not_less_iff_gr_or_eq [of 0 "cmp k (ks ! mid)"]
        by (simp add: st add.commute not_less)
    next
      case 3
      then show ?thesis using prems mid by (auto simp: st)
    qed
  qed
qed

lemma key_before:
  assumes "sorted_from cmp m ks" "m \<le> i" "i < j" "j < length ks" "0 \<le> cmp k (ks ! j)"
  shows "0 < cmp k (ks ! i)"
proof -
  have "cmp (ks ! i) (ks ! j) < 0" by (rule sorted_fromD [OF assms(1-4)])
  moreover have "cmp (ks ! j) k \<le> 0" using assms(5) by (simp add: cmp_le_flip)
  ultimately have "cmp (ks ! i) k < 0" by (rule less_trans)
  then show ?thesis by (simp only: cmp_flip)
qed

lemma key_after:
  assumes "sorted_from cmp m ks" "m \<le> j" "j < i" "i < length ks" "cmp k (ks ! j) \<le> 0"
  shows "cmp k (ks ! i) < 0"
  using less_trans' [OF assms(5) sorted_fromD [OF assms(1-4)]] .

lemma leaf_search:
  assumes "sorted_from cmp 0 ks" "\<And>i. i < h \<Longrightarrow> c (int i) = Some (cmp k (ks ! i))"
    and "h \<le> length ks" "\<And>i. h \<le> i \<Longrightarrow> i < length ks \<Longrightarrow> cmp k (ks ! i) < 0"
  shows "bsearch c 0 (int h - 1) =
     Some (if has_key cmp ks k then Inl (int (leaf_pos cmp ks k)) else Inr (int (leaf_pos cmp ks k)))"
proof -
  have pos: "leaf_pos cmp ks k = j"
    if "j \<le> length ks" "\<And>i. i < j \<Longrightarrow> 0 < cmp k (ks ! i)"
      "\<And>i. j \<le> i \<Longrightarrow> i < length ks \<Longrightarrow> \<not> 0 < cmp k (ks ! i)" for j
    unfolding leaf_pos_def using that by (rule length_filter_prefix)
  consider (hit) j where "bsearch c 0 (int h - 1) = Some (Inl (int j))" "j < length ks" "cmp k (ks ! j) = 0"
    | (gap) j where "bsearch c 0 (int h - 1) = Some (Inr (int j))" "splits_at ks 0 k j"
        "\<forall>i\<ge>j. i < length ks \<longrightarrow> cmp k (ks ! i) < 0"
    using bsearch_ok [of 0 ks h c k 0] assms by auto
  then show ?thesis
  proof cases
    case j: hit
    have "leaf_pos cmp ks k = j"
      using j key_before [OF assms(1), of _ j k] key_after [OF assms(1), of j _ k]
      by (intro pos) (auto simp: le_less not_less)
    moreover have "has_key cmp ks k" using j(2,3) nth_mem by (auto simp: has_key_def)
    ultimately show ?thesis by (simp add: j(1))
  next
    case j: gap
    have "leaf_pos cmp ks k = j"
      using j(2) by (intro pos) (auto simp: splits_at_def not_less)
    moreover have "\<not> has_key cmp ks k"
    proof
      assume "has_key cmp ks k"
      then obtain i where i: "i < length ks" "cmp k (ks ! i) = 0" by (auto simp: has_key_def in_set_conv_nth)
      show False using i j(2) j(3) [rule_format, of i] by (cases "i < j") (auto simp: splits_at_def)
    qed
    ultimately show ?thesis by (simp add: j(1))
  qed
qed

lemma branch_search:
  assumes "sorted_from cmp 1 ks" "\<And>i. 1 \<le> i \<Longrightarrow> i < h \<Longrightarrow> c (int i) = Some (cmp k (ks ! i))"
    and "1 \<le> h" "h \<le> length ks" "\<And>i. h \<le> i \<Longrightarrow> i < length ks \<Longrightarrow> cmp k (ks ! i) < 0"
  shows "bsearch c 1 (int h - 1) =
     Some (if has_key cmp (tl ks) k then Inl (int (branch_pos cmp ks k)) else Inr (int (branch_pos cmp ks k) + 1))"
proof -
  have pos: "branch_pos cmp ks k = j - 1"
    if "1 \<le> j" "j \<le> length ks" "\<And>i. 1 \<le> i \<Longrightarrow> i < j \<Longrightarrow> 0 \<le> cmp k (ks ! i)"
      "\<And>i. j \<le> i \<Longrightarrow> i < length ks \<Longrightarrow> \<not> 0 \<le> cmp k (ks ! i)" for j
    unfolding branch_pos_def using that
    by (intro length_filter_prefix) (auto simp: nth_tl)
  consider (hit) j where "bsearch c 1 (int h - 1) = Some (Inl (int j))" "Suc 0 \<le> j" "j < length ks" "cmp k (ks ! j) = 0"
    | (gap) j where "bsearch c 1 (int h - 1) = Some (Inr (int j))" "splits_at ks (Suc 0) k j"
        "\<forall>i\<ge>j. i < length ks \<longrightarrow> cmp k (ks ! i) < 0"
    using bsearch_ok [of 1 ks h c k 1] assms by auto
  then show ?thesis
  proof cases
    case j: hit
    have "branch_pos cmp ks k = Suc j - 1"
    proof (rule pos)
      show "0 \<le> cmp k (ks ! i)" if "1 \<le> i" "i < Suc j" for i
        using j key_before [OF assms(1) that(1), of j k] that by (cases "i = j") auto
      show "\<not> 0 \<le> cmp k (ks ! i)" if "Suc j \<le> i" "i < length ks" for i
        using j key_after [OF assms(1), of j i k] that by simp
    qed (use j in auto)
    moreover have "has_key cmp (tl ks) k"
      using j(2-4) nth_mem [of "j - 1" "tl ks"] by (auto simp: has_key_def nth_tl intro!: bexI)
    ultimately show ?thesis by (simp add: j(1))
  next
    case j: gap
    have "branch_pos cmp ks k = j - 1"
      using j(2,3) by (intro pos) (auto simp: splits_at_def less_imp_le not_le)
    moreover have "\<not> has_key cmp (tl ks) k"
    proof
      assume "has_key cmp (tl ks) k"
      then obtain i where "i < length (tl ks)" "cmp k (tl ks ! i) = 0"
        by (auto simp: has_key_def in_set_conv_nth)
      then have i: "Suc i < length ks" "cmp k (ks ! Suc i) = 0" by (simp_all add: nth_tl)
      show False using i j(2) j(3) [rule_format, of "Suc i"] by (cases "Suc i < j") (auto simp: splits_at_def)
    qed
    moreover have "1 \<le> j" using j(2) by (simp add: splits_at_def)
    ultimately show ?thesis by (simp add: j(1) of_nat_diff)
  qed
qed

text \<open>Both positions stay inside the page.\<close>

lemma leaf_pos_le: "leaf_pos cmp ks k \<le> length ks"
  by (simp add: leaf_pos_def length_filter_le)

lemma branch_pos_less: "ks \<noteq> [] \<Longrightarrow> branch_pos cmp ks k < length ks"
  using length_filter_le [of "\<lambda>x. 0 \<le> cmp k x" "tl ks"]
  by (cases ks) (simp_all add: branch_pos_def less_Suc_eq_le)

lemma leaf_pos_hit:
  assumes "sorted_from cmp 0 ks" "has_key cmp ks k"
  shows "leaf_pos cmp ks k < length ks" "cmp k (ks ! leaf_pos cmp ks k) = 0"
proof -
  obtain j where j: "j < length ks" "cmp k (ks ! j) = 0"
    using assms(2) by (auto simp: has_key_def in_set_conv_nth)
  have "leaf_pos cmp ks k = j"
    unfolding leaf_pos_def
    using j key_before [OF assms(1), of _ j k] key_after [OF assms(1), of j _ k]
    by (intro length_filter_prefix) (auto simp: le_less not_less)
  then show "leaf_pos cmp ks k < length ks" "cmp k (ks ! leaf_pos cmp ks k) = 0" using j by simp_all
qed

end

section \<open>The default comparator\<close>

interpretation bytes: key_order bytes_compare
  by unfold_locales (auto simp: bytes_compare_def split: if_splits)

end
