(* ===== verification/Search.thy ===== *)
theory Search
  imports NodeSpec KeyOrder
begin

text \<open>
  The searches within a page: cursor.searchPage and cursor.searchPageAsm with the portable search
  functions of search_other.go, and txn.searchPageRawExact.  All of them return, on a well-formed
  page whose keys are sorted, the position that \<open>leaf_pos\<close> and \<open>branch_pos\<close> define on its key list.
\<close>

section \<open>search_other.go\<close>

definition getKeyAndCompareAsm :: "bytes \<Rightarrow> int \<Rightarrow> bytes \<Rightarrow> int option" where
  "getKeyAndCompareAsm pageData idx searchKey =
     do { storedOffset \<leftarrow> rd16 pageData (20 + idx * 2);
          let offset = uint storedOffset + 20;
          keySize \<leftarrow> rd16 pageData (offset + 6);
          let keyStart = offset + 8;
          nodeKey \<leftarrow> slice pageData keyStart (keyStart + uint keySize);
          Some (bytes_compare searchKey nodeKey) }"

definition binarySearchLeaf8 :: "bytes \<Rightarrow> u64 \<Rightarrow> int \<Rightarrow> int" where
  "binarySearchLeaf8 pageData skey n = - 1"

definition binarySearchBranch8 :: "bytes \<Rightarrow> u64 \<Rightarrow> int \<Rightarrow> int" where
  "binarySearchBranch8 pageData skey n = - 1"

definition binarySearchLeafN :: "bytes \<Rightarrow> bytes \<Rightarrow> int \<Rightarrow> int option" where
  "binarySearchLeafN pageData skey n =
     (if n \<le> 0 then Some 0
      else do {
        cmp \<leftarrow> getKeyAndCompareAsm pageData (n - 1) skey;
        if cmp > 0 then Some n
        else if cmp = 0 then Some (n - 1)
        else do {
          r \<leftarrow> bsearch (\<lambda>mid. getKeyAndCompareAsm pageData mid skey) 0 (n - 2);
          Some (case r of Inl mid \<Rightarrow> mid | Inr lo \<Rightarrow> lo) } })"

definition binarySearchBranchN :: "bytes \<Rightarrow> bytes \<Rightarrow> int \<Rightarrow> int option" where
  "binarySearchBranchN pageData skey n =
     (if n \<le> 1 then Some 0
      else do {
        cmp \<leftarrow> getKeyAndCompareAsm pageData (n - 1) skey;
        if cmp \<ge> 0 then Some (n - 1)
        else do {
          r \<leftarrow> bsearch (\<lambda>mid. getKeyAndCompareAsm pageData mid skey) 1 (n - 2);
          Some (case r of Inl mid \<Rightarrow> mid | Inr lo \<Rightarrow> lo - 1) } })"

section \<open>cursor.go: searchPage\<close>

text \<open>binary.BigEndian.Uint64, read off an 8-byte key.\<close>

definition bigEndianUint64 :: "bytes \<Rightarrow> u64 option" where
  "bigEndianUint64 b =
     (if length b < 8 then None
      else Some (le64 (le32 (b ! 7) (b ! 6) (b ! 5) (b ! 4)) (le32 (b ! 3) (b ! 2) (b ! 1) (b ! 0))))"

definition searchPageAsm :: "page \<Rightarrow> bytes \<Rightarrow> int \<Rightarrow> int option" where
  "searchPageAsm p skey n =
     do {
       let keyLen = int (length skey);
       early \<leftarrow>
         (if keyLen = 8 then do {
            key64 \<leftarrow> bigEndianUint64 skey;
            br \<leftarrow> isBranchFast p;
            let result = (if br then binarySearchBranch8 (Data p) key64 n
                          else binarySearchLeaf8 (Data p) key64 n);
            Some (if result \<ge> 0 then Some result else None) }
          else if keyLen > 8 then do {
            br \<leftarrow> isBranchFast p;
            r \<leftarrow> (if br then binarySearchBranchN (Data p) skey n else binarySearchLeafN (Data p) skey n);
            Some (Some r) }
          else Some None);
       case early of
         Some result \<Rightarrow> Some result
       | None \<Rightarrow> do {
           br \<leftarrow> isBranchFast p;
           if br then
             (if n = 1 then Some 0
              else do {
                cmp \<leftarrow> getKeyAndCompareAsm (Data p) (n - 1) skey;
                if cmp > 0 then Some (n - 1)
                else if cmp = 0 then Some (n - 1)
                else do {
                  r \<leftarrow> bsearch (\<lambda>mid. getKeyAndCompareAsm (Data p) mid skey) 1 (n - 2);
                  Some (case r of Inl mid \<Rightarrow> mid | Inr lo \<Rightarrow> lo - 1) } })
           else do {
             cmp \<leftarrow> getKeyAndCompareAsm (Data p) (n - 1) skey;
             if cmp > 0 then Some n
             else if cmp = 0 then Some (n - 1)
             else do {
               r \<leftarrow> bsearch (\<lambda>mid. getKeyAndCompareAsm (Data p) mid skey) 0 (n - 2);
               Some (case r of Inl mid \<Rightarrow> mid | Inr lo \<Rightarrow> lo) } } } }"

text \<open>
  \<open>usesDefaultCmp\<close> is the transaction's dbiUsesDefaultCmp entry of the cursor's table and \<open>cmp\<close>
  its cached comparator (txn.compareKeys).
\<close>

definition searchPage :: "bool \<Rightarrow> (bytes \<Rightarrow> bytes \<Rightarrow> int) \<Rightarrow> page \<Rightarrow> bytes \<Rightarrow> int option" where
  "searchPage usesDefaultCmp cmp p skey =
     do {
       n \<leftarrow> numEntriesFast p;
       if n = 0 then Some 0
       else if usesDefaultCmp then searchPageAsm p skey n
       else do {
         let at = (\<lambda>mid. map_option (cmp skey) (nodeGetKeyFast p mid));
         br \<leftarrow> isBranchFast p;
         if br then
           (if n = 1 then Some 0
            else do {
              c \<leftarrow> at (n - 1);
              if c > 0 then Some (n - 1)
              else if c = 0 then Some (n - 1)
              else do {
                r \<leftarrow> bsearch at 1 (n - 2);
                Some (case r of Inl mid \<Rightarrow> mid | Inr lo \<Rightarrow> lo - 1) } })
         else do {
           c \<leftarrow> at (n - 1);
           if c > 0 then Some n
           else if c = 0 then Some (n - 1)
           else do {
             r \<leftarrow> bsearch at 0 (n - 2);
             Some (case r of Inl mid \<Rightarrow> mid | Inr lo \<Rightarrow> lo) } } } }"

section \<open>txn.go: searchPageRawExact\<close>

definition searchPageRawExact ::
    "bytes \<Rightarrow> bytes \<Rightarrow> (bytes \<Rightarrow> bytes \<Rightarrow> int) \<Rightarrow> (int \<times> bool) option" where
  "searchPageRawExact data skey cmp =
     (let n = pageNumEntriesDirect data;
          at = (\<lambda>mid. map_option (cmp skey) (nodeGetKeyUnchecked data mid)) in
      if n = 0 then Some (0, False)
      else if pageIsBranchDirect data then
        (if n = 1 then Some (0, False)
         else do {
           r \<leftarrow> bsearch at 1 (n - 1);
           Some (case r of Inl mid \<Rightarrow> (mid, True) | Inr lo \<Rightarrow> (lo - 1, False)) })
      else do {
        r \<leftarrow> bsearch at 0 (n - 1);
        Some (case r of Inl mid \<Rightarrow> (mid, True) | Inr lo \<Rightarrow> (lo, False)) })"

section \<open>The keys of a page\<close>

definition keys_of :: "page \<Rightarrow> bytes list" where
  "keys_of p = map nd_key (entries p)"

lemma length_keys_of [simp]: "length (keys_of p) = nents p"
  by (simp add: keys_of_def)

lemma nth_keys_of [simp]: "i < nents p \<Longrightarrow> keys_of p ! i = nd_key (node_at p i)"
  by (simp add: keys_of_def)

text \<open>The keys a search relies on: all of a leaf, all but the first of a branch.\<close>

definition keys_sorted :: "(bytes \<Rightarrow> bytes \<Rightarrow> int) \<Rightarrow> page \<Rightarrow> bool" where
  "keys_sorted cmp p \<longleftrightarrow> sorted_from cmp (if brp p then 1 else 0) (keys_of p)"

text \<open>What a search must return: the index, and whether the key at that index is equal.\<close>

definition search_result :: "(bytes \<Rightarrow> bytes \<Rightarrow> int) \<Rightarrow> page \<Rightarrow> bytes \<Rightarrow> nat \<times> bool" where
  "search_result cmp p skey =
     (if brp p then (branch_pos cmp (keys_of p) skey, has_key cmp (tl (keys_of p)) skey)
      else (leaf_pos cmp (keys_of p) skey, has_key cmp (keys_of p) skey))"

lemma compare_at:
  assumes "page_ok p" "i < nents p"
  shows "getKeyAndCompareAsm (Data p) (int i) skey = Some (bytes_compare skey (keys_of p ! i))"
    "map_option (cmp skey) (nodeGetKeyFast p (int i)) = Some (cmp skey (keys_of p ! i))"
    "map_option (cmp skey) (nodeGetKeyUnchecked (Data p) (int i)) = Some (cmp skey (keys_of p ! i))"
proof -
  let ?nd = "node_at p i"
  note e = page_ok_entry [OF assms] and k = node_at_klen [OF assms]
  have st: "rd16 (Data p) (20 + int i * 2) = Some (g16 (Data p) (20 + 2 * i))"
    using rd16_Some [of "20 + 2 * i" "Data p"] e(4) by (simp add: mult.commute)
  have off: "uint (g16 (Data p) (20 + 2 * i)) + 20 = int (20 + ptr p i)" by (simp add: ptr_def)
  have "rd16 (Data p) (int (20 + ptr p i) + 6) = Some (g16 (Data p) (20 + ptr p i + 6))"
    using rd16_Some [of "20 + ptr p i + 6" "Data p"] e(3) by simp
  moreover have "g16 (Data p) (20 + ptr p i + 6) = g16 ?nd 6"
    unfolding node_at_def using nsz_ge8 [of p i] e(2) by (simp add: g16_def add.commute)
  ultimately have ks: "rd16 (Data p) (int (20 + ptr p i) + 6) = Some (g16 ?nd 6)" by simp
  have "slice (Data p) (int (20 + ptr p i + 8)) (int (20 + ptr p i + (8 + nd_klen ?nd))) = Some (nd_key ?nd)"
    using entry_slice [OF assms, of 8 "8 + nd_klen ?nd"] k by (simp add: nd_key_def)
  then have sl: "slice (Data p) (int (20 + ptr p i) + 8) (int (20 + ptr p i) + 8 + uint (g16 ?nd 6)) = Some (nd_key ?nd)"
    by (simp add: nd_klen_def add.assoc)
  show "getKeyAndCompareAsm (Data p) (int i) skey = Some (bytes_compare skey (keys_of p ! i))"
    unfolding getKeyAndCompareAsm_def st bind.bind_lunit Let_def off ks sl using assms(2) by simp
  show "map_option (cmp skey) (nodeGetKeyFast p (int i)) = Some (cmp skey (keys_of p ! i))"
    "map_option (cmp skey) (nodeGetKeyUnchecked (Data p) (int i)) = Some (cmp skey (keys_of p ! i))"
    using key_accessors [OF assms] assms(2) by simp_all
qed

lemma raw_header:
  assumes "page_ok p"
  shows "pageNumEntriesDirect (Data p) = int (nents p)" "pageIsBranchDirect (Data p) = brp p"
  using page_okD(1) [OF assms]
  by (simp_all add: pageNumEntriesDirect_def pageIsBranchDirect_def pageFlagsDirect_def nents_def low_def
      g16_def drop_bit1_uint brp_def)

section \<open>The searches that look at the last key first\<close>

lemma two_tests:
  "(if d > 0 then u else if d = 0 then u else v) = (if (d :: int) \<ge> 0 then u else v)"
  by auto

context key_order
begin

lemma leaf_last:
  assumes "sorted_from cmp 0 ks" "\<And>i. i < length ks \<Longrightarrow> c (int i) = Some (cmp k (ks ! i))" "ks \<noteq> []"
  shows "do { d \<leftarrow> c (int (length ks) - 1);
              if d > 0 then Some (int (length ks))
              else if d = 0 then Some (int (length ks) - 1)
              else do { r \<leftarrow> bsearch c 0 (int (length ks) - 2);
                        Some (case r of Inl mid \<Rightarrow> mid | Inr lo \<Rightarrow> lo) } } = Some (int (leaf_pos cmp ks k))"
proof -
  define h where "h = length ks - 1"
  have h: "length ks = Suc h" using assms(3) by (simp add: h_def)
  then have ch: "c (int (length ks) - 1) = Some (cmp k (ks ! h))" using assms(2) [of h] by simp
  consider "0 < cmp k (ks ! h)" | "cmp k (ks ! h) = 0" | "cmp k (ks ! h) < 0" by linarith
  then show ?thesis
  proof cases
    case 1
    have "leaf_pos cmp ks k = length ks" unfolding leaf_pos_def
      using key_before [OF assms(1), of _ h k] 1 h
      by (intro length_filter_prefix) (auto simp: less_Suc_eq)
    then show ?thesis using 1 unfolding ch bind.bind_lunit by simp
  next
    case 2
    have "leaf_pos cmp ks k = h" unfolding leaf_pos_def
      using key_before [OF assms(1), of _ h k] 2 h
      by (intro length_filter_prefix) (auto simp: less_Suc_eq)
    then show ?thesis using 2 h unfolding ch bind.bind_lunit by simp
  next
    case 3
    have "bsearch c 0 (int h - 1) = Some (if has_key cmp ks k then Inl (int (leaf_pos cmp ks k)) else Inr (int (leaf_pos cmp ks k)))"
      by (rule leaf_search) (use assms 3 h less_Suc_eq_le in \<open>auto simp: le_less_Suc_eq\<close>)
    then show ?thesis using 3 h unfolding ch bind.bind_lunit by auto
  qed
qed

lemma branch_last:
  assumes "sorted_from cmp 1 ks" "\<And>i. 1 \<le> i \<Longrightarrow> i < length ks \<Longrightarrow> c (int i) = Some (cmp k (ks ! i))"
    and "2 \<le> length ks"
  shows "do { d \<leftarrow> c (int (length ks) - 1);
              if d \<ge> 0 then Some (int (length ks) - 1)
              else do { r \<leftarrow> bsearch c 1 (int (length ks) - 2);
                        Some (case r of Inl mid \<Rightarrow> mid | Inr lo \<Rightarrow> lo - 1) } } = Some (int (branch_pos cmp ks k))"
proof -
  define h where "h = length ks - 1"
  have h: "length ks = Suc h" "1 \<le> h" using assms(3) by (simp_all add: h_def)
  then have ch: "c (int (length ks) - 1) = Some (cmp k (ks ! h))" using assms(2) [of h] by simp
  show ?thesis
  proof (cases "0 \<le> cmp k (ks ! h)")
    case True
    have "branch_pos cmp ks k = h" unfolding branch_pos_def
    proof (rule length_filter_prefix)
      show "0 \<le> cmp k (tl ks ! i)" if "i < h" for i
        using key_before [OF assms(1), of "Suc i" h k] True h that by (cases "Suc i = h") (auto simp: nth_tl)
    qed (use h in auto)
    then show ?thesis using True h unfolding ch bind.bind_lunit by simp
  next
    case False
    then have "bsearch c 1 (int h - 1) = Some (if has_key cmp (tl ks) k then Inl (int (branch_pos cmp ks k)) else Inr (int (branch_pos cmp ks k) + 1))"
      by (intro branch_search) (use assms h in \<open>auto simp: le_less_Suc_eq\<close>)
    then show ?thesis using False h unfolding ch bind.bind_lunit by auto
  qed
qed

text \<open>The exact search of the transaction.\<close>

lemma searchPageRawExact_ok:
  assumes "page_ok p" "keys_sorted cmp p"
  shows "searchPageRawExact (Data p) k cmp = Some (map_prod int id (search_result cmp p k))"
proof -
  define c where "c = (\<lambda>mid. map_option (cmp k) (nodeGetKeyUnchecked (Data p) mid))"
  have c: "c (int i) = Some (cmp k (keys_of p ! i))" if "i < nents p" for i
    using compare_at(3) [OF assms(1) that] by (simp add: c_def)
  show ?thesis
  proof (cases "nents p = 0")
    case True
    then have "keys_of p = []" by (simp flip: length_0_conv)
    then show ?thesis using True
      by (simp add: searchPageRawExact_def raw_header [OF assms(1)] search_result_def branch_pos_def
          leaf_pos_def has_key_def)
  next
    case ne: False
    show ?thesis
    proof (cases "brp p")
      case True
      show ?thesis
      proof (cases "nents p = 1")
        case True': True
        then have "tl (keys_of p) = []" using length_keys_of [of p] by (cases "keys_of p") auto
        then show ?thesis using True True'
          by (simp add: searchPageRawExact_def raw_header [OF assms(1)] search_result_def branch_pos_def has_key_def)
      next
        case False
        have "bsearch c 1 (int (nents p) - 1) = Some (if has_key cmp (tl (keys_of p)) k then Inl (int (branch_pos cmp (keys_of p) k)) else Inr (int (branch_pos cmp (keys_of p) k) + 1))"
          by (rule branch_search) (use assms True c ne in \<open>auto simp: keys_sorted_def\<close>)
        then show ?thesis using ne True False
          by (simp add: searchPageRawExact_def raw_header [OF assms(1)] search_result_def flip: c_def)
      qed
    next
      case False
      have "bsearch c 0 (int (nents p) - 1) = Some (if has_key cmp (keys_of p) k then Inl (int (leaf_pos cmp (keys_of p) k)) else Inr (int (leaf_pos cmp (keys_of p) k)))"
        by (rule leaf_search) (use assms False c ne in \<open>auto simp: keys_sorted_def\<close>)
      then show ?thesis using ne False
        by (simp add: searchPageRawExact_def raw_header [OF assms(1)] search_result_def flip: c_def)
    qed
  qed
qed

lemma search_last:
  assumes "page_ok p" "keys_sorted cmp p" "nents p \<noteq> 0"
    and c: "\<And>i. i < nents p \<Longrightarrow> c (int i) = Some (cmp k (keys_of p ! i))"
  shows "\<not> brp p \<Longrightarrow>
      do { d \<leftarrow> c (int (nents p) - 1);
           if d > 0 then Some (int (nents p))
           else if d = 0 then Some (int (nents p) - 1)
           else do { r \<leftarrow> bsearch c 0 (int (nents p) - 2);
                     Some (case r of Inl mid \<Rightarrow> mid | Inr lo \<Rightarrow> lo) } } =
      Some (int (fst (search_result cmp p k)))"
    and "brp p \<Longrightarrow> nents p \<noteq> 1 \<Longrightarrow>
      do { d \<leftarrow> c (int (nents p) - 1);
           if d \<ge> 0 then Some (int (nents p) - 1)
           else do { r \<leftarrow> bsearch c 1 (int (nents p) - 2);
                     Some (case r of Inl mid \<Rightarrow> mid | Inr lo \<Rightarrow> lo - 1) } } =
      Some (int (fst (search_result cmp p k)))"
    and "brp p \<Longrightarrow> nents p = 1 \<Longrightarrow> fst (search_result cmp p k) = 0"
proof -
  have ne: "keys_of p \<noteq> []" using assms(3) by (auto simp flip: length_0_conv)
  show "do { d \<leftarrow> c (int (nents p) - 1);
           if d > 0 then Some (int (nents p))
           else if d = 0 then Some (int (nents p) - 1)
           else do { r \<leftarrow> bsearch c 0 (int (nents p) - 2);
                     Some (case r of Inl mid \<Rightarrow> mid | Inr lo \<Rightarrow> lo) } } =
      Some (int (fst (search_result cmp p k)))" if "\<not> brp p"
    using leaf_last [of "keys_of p" c k, unfolded length_keys_of] assms that ne by (simp add: keys_sorted_def search_result_def)
  show "do { d \<leftarrow> c (int (nents p) - 1);
           if d \<ge> 0 then Some (int (nents p) - 1)
           else do { r \<leftarrow> bsearch c 1 (int (nents p) - 2);
                     Some (case r of Inl mid \<Rightarrow> mid | Inr lo \<Rightarrow> lo - 1) } } =
      Some (int (fst (search_result cmp p k)))" if "brp p" "nents p \<noteq> 1"
    using branch_last [of "keys_of p" c k, unfolded length_keys_of] assms that ne by (simp add: keys_sorted_def search_result_def)
  show "fst (search_result cmp p k) = 0" if "brp p" "nents p = 1"
  proof -
    have "tl (keys_of p) = []" using that by (simp flip: length_0_conv)
    then show ?thesis using that by (simp add: search_result_def branch_pos_def)
  qed
qed

lemma empty_result:
  "nents p = 0 \<Longrightarrow> search_result cmp p k = (0, False)"
proof -
  assume "nents p = 0"
  then have "keys_of p = []" by (simp flip: length_0_conv)
  then show ?thesis by (simp add: search_result_def branch_pos_def leaf_pos_def has_key_def)
qed

lemma searchPage_cmp_ok:
  assumes "page_ok p" "keys_sorted cmp p"
  shows "searchPage False cmp p k = Some (int (fst (search_result cmp p k)))"
proof -
  define c where "c = (\<lambda>mid. map_option (cmp k) (nodeGetKeyFast p mid))"
  have c: "c (int i) = Some (cmp k (keys_of p ! i))" if "i < nents p" for i
    using compare_at(2) [OF assms(1) that] by (simp add: c_def)
  have ca: "map_option (cmp k) (nodeGetKeyFast p i) = c i" for i by (simp add: c_def)
  note l = page_okD(1) [OF assms(1)]
  show ?thesis
  proof (cases "nents p = 0")
    case False
    note sl = search_last [OF assms False, of c k, OF c]
    show ?thesis
      unfolding searchPage_def numEntriesFast_eq [OF l] isBranchFast_eq [OF l] bind.bind_lunit Let_def
        two_tests ca
      using False sl by (cases "brp p"; cases "nents p = 1") simp_all
  qed (simp add: searchPage_def numEntriesFast_eq [OF l] empty_result)
qed

end

text \<open>The default comparator's search, on the portable functions.\<close>

lemma searchPageAsm_ok:
  assumes ok: "page_ok p" "keys_sorted bytes_compare p" "nents p \<noteq> 0"
  shows "searchPageAsm p k (int (nents p)) = Some (int (fst (search_result bytes_compare p k)))"
proof -
  define c where "c = (\<lambda>mid. getKeyAndCompareAsm (Data p) mid k)"
  have c: "c (int i) = Some (bytes_compare k (keys_of p ! i))" if "i < nents p" for i
    using compare_at(1) [OF assms(1) that] by (simp add: c_def)
  have ca: "getKeyAndCompareAsm (Data p) i k = c i" for i by (simp add: c_def)
  note l = page_okD(1) [OF assms(1)]
  note sl = bytes.search_last [OF assms, of c k, OF c]
  have leafN: "binarySearchLeafN (Data p) k (int (nents p)) = Some (int (fst (search_result bytes_compare p k)))" if "\<not> brp p"
    unfolding binarySearchLeafN_def ca using sl(1) [OF _ that] ok(3) by simp
  have branchN: "binarySearchBranchN (Data p) k (int (nents p)) = Some (int (fst (search_result bytes_compare p k)))" if "brp p"
    unfolding binarySearchBranchN_def ca
    using sl(2) [OF _ that] sl(3) [OF _ that] ok(3) by (cases "nents p = 1") simp_all
  consider "8 < length k" | "length k = 8" | "length k < 8" by linarith
  then show ?thesis
  proof cases
    case long: 1
    then show ?thesis using leafN branchN long by (simp add: searchPageAsm_def isBranchFast_eq [OF l] Let_def)
  next
    case eight: 2
    then obtain w where "bigEndianUint64 k = Some w" by (simp add: bigEndianUint64_def)
    then show ?thesis
      unfolding searchPageAsm_def isBranchFast_eq [OF l] bind.bind_lunit Let_def two_tests ca
      using eight sl ok(3)
      by (cases "brp p"; cases "nents p = 1") (simp_all add: binarySearchBranch8_def binarySearchLeaf8_def)
  next
    case 3
    then show ?thesis
      unfolding searchPageAsm_def isBranchFast_eq [OF l] bind.bind_lunit Let_def two_tests ca
      using sl ok(3) by (cases "brp p"; cases "nents p = 1") simp_all
  qed
qed

lemma searchPage_default_ok:
  assumes "page_ok p" "keys_sorted bytes_compare p"
  shows "searchPage True cmp p k = Some (int (fst (search_result bytes_compare p k)))"
  using searchPageAsm_ok [OF assms, of k] bytes.empty_result [of p k] page_okD(1) [OF assms(1)]
  by (cases "nents p = 0") (simp_all add: searchPage_def numEntriesFast_eq)

end
