(* ===== verification/Samples.thy ===== *)
theory Samples
  imports Search PageSplit
begin

text \<open>
  Small concrete pages the witnesses of the properties evaluate: a leaf of 64 bytes with the nodes
  b \<mapsto> x and d \<mapsto> yz, and a branch of 64 bytes with the children 7, 8 and 9 and the separators d
  and m.
\<close>

definition sample_node :: "bytes \<Rightarrow> bytes \<Rightarrow> bytes" where
  "sample_node k v = enc32 (of_nat (length v)) @ [0, 0] @ enc16 (of_nat (length k)) @ k @ v"

definition sample_child :: "bytes \<Rightarrow> u32 \<Rightarrow> bytes" where
  "sample_child k pg = enc32 pg @ [0, 0] @ enc16 (of_nat (length k)) @ k"

definition sample_leaf :: page where
  "sample_leaf = \<lparr>Data = [0, 0, 0, 0, 0, 0, 0, 0, 0, 0, 2, 0, 4, 0, 23, 0, 5, 0, 0, 0, 34, 0, 23, 0,
     0, 0, 0, 0, 0, 0, 0, 0, 0, 0, 0, 0, 0, 0, 0, 0, 0, 0, 0,
     2, 0, 0, 0, 0, 0, 1, 0, 100, 121, 122, 1, 0, 0, 0, 0, 0, 1, 0, 98, 120]\<rparr>"

definition sample_branch :: page where
  "sample_branch = \<lparr>Data = [0, 0, 0, 0, 0, 0, 0, 0, 0, 0, 1, 0, 6, 0, 18, 0, 6, 0, 0, 0,
     36, 0, 27, 0, 18, 0, 0, 0, 0, 0, 0, 0, 0, 0, 0, 0, 0, 0,
     9, 0, 0, 0, 0, 0, 1, 0, 109, 8, 0, 0, 0, 0, 0, 1, 0, 100, 7, 0, 0, 0, 0, 0, 0, 0]\<rparr>"

lemmas sample_eval = low_def upp_def nents_def brp_def ptr_def nsz_def nodesz_def g16_def g32_def
  le16_def le32_def pageBranch_def

lemma sample_leaf_fields:
  "nents sample_leaf = 2" "\<not> brp sample_leaf" "length (Data sample_leaf) = 64"
  "low sample_leaf = 4" "upp sample_leaf = 23" "ptr sample_leaf 0 = 34" "ptr sample_leaf 1 = 23"
  "ptr sample_leaf (Suc 0) = 23" "nsz sample_leaf 0 = 10" "nsz sample_leaf (Suc 0) = 11"
  by (simp_all add: sample_leaf_def sample_eval)

lemma sample_branch_fields:
  "nents sample_branch = 3" "brp sample_branch" "length (Data sample_branch) = 64"
  "low sample_branch = 6" "upp sample_branch = 18" "ptr sample_branch 0 = 36" "ptr sample_branch (Suc 0) = 27"
  "ptr sample_branch 2 = 18" "nsz sample_branch 0 = 8" "nsz sample_branch (Suc 0) = 9" "nsz sample_branch 2 = 9"
  by (simp_all add: sample_branch_def sample_eval)

lemma less_2_cases': "i < (2 :: nat) \<longleftrightarrow> i = 0 \<or> i = Suc 0" and less_3_cases: "i < (3 :: nat) \<longleftrightarrow> i = 0 \<or> i = Suc 0 \<or> i = 2"
  by auto

lemma sample_leaf_ok: "page_ok sample_leaf"
  unfolding page_ok_def sample_leaf_fields less_2_cases'
  by (auto simp: sample_leaf_fields)

lemma sample_branch_ok: "page_ok sample_branch"
  unfolding page_ok_def sample_branch_fields less_3_cases
  by (auto simp: sample_branch_fields)

lemma sample_entries:
  "entries sample_leaf = [sample_node [98] [120], sample_node [100] [121, 122]]"
  "entries sample_branch = [sample_child [] 7, sample_child [100] 8, sample_child [109] 9]"
proof -
  have u: "[0..<2] = [0, Suc 0]" "[0..<3] = [0, Suc 0, 2]" by (simp_all add: upt_rec)
  show "entries sample_leaf = [sample_node [98] [120], sample_node [100] [121, 122]]"
    unfolding entries_def sample_leaf_fields u node_at_def list.map sample_leaf_fields
    by (simp add: sample_leaf_def sample_node_def enc16_def enc32_def)
  show "entries sample_branch = [sample_child [] 7, sample_child [100] 8, sample_child [109] 9]"
    unfolding entries_def sample_branch_fields u node_at_def list.map sample_branch_fields
    by (simp add: sample_branch_def sample_child_def enc16_def enc32_def)
qed

lemmas sample_node_eval = sample_node_def sample_child_def nd_key_def nd_klen_def g16_def g32_def enc32_def enc16_def
  le16_def le32_def nodesz_def node_wf_def

lemma sample_keys: "keys_of sample_leaf = [[98], [100]]" "keys_of sample_branch = [[], [100], [109]]"
  by (simp_all add: keys_of_def sample_entries sample_node_eval)

lemma sample_sorted: "keys_sorted bytes_compare sample_leaf" "keys_sorted bytes_compare sample_branch"
  by (simp_all add: keys_sorted_def sample_leaf_fields sample_branch_fields sorted_from_def sample_keys)

lemma sample_totals: "total sample_leaf = 21" "length (sample_node k v) = 8 + length k + length v"
  by (simp_all add: total_entries [OF sample_leaf_ok] sample_entries sample_node_def enc32_def enc16_def)

lemma sample_node_wf: "node_wf False (sample_node [99] [119])" "node_wf True (sample_child [102] 11)"
  by (simp_all add: sample_node_eval)

end
