(* ===== verification/MapStore.thy ===== *)
theory MapStore
  imports Main
begin

text \<open>
  The contract of a bounded finite map: a client of the dirty page table or of the table of spill
  slots sees its own writes, leaves other keys alone, and may count on room for a stated number of
  insertions.  The laws are stated once, as a locale, with what follows for runs of insertions.
\<close>

fun set_all :: "('m \<Rightarrow> 'k \<Rightarrow> 'v \<Rightarrow> 'm option) \<Rightarrow> 'm \<Rightarrow> ('k \<times> 'v) list \<Rightarrow> 'm option" where
  "set_all put m [] = Some m"
| "set_all put m ((k, v) # kvs) = Option.bind (put m k v) (\<lambda>m'. set_all put m' kvs)"

locale map_store =
  fixes look :: "'m \<Rightarrow> 'k \<Rightarrow> 'v option option"
    and put :: "'m \<Rightarrow> 'k \<Rightarrow> 'v \<Rightarrow> 'm option"
    and room :: "nat \<Rightarrow> 'm \<Rightarrow> bool"
    and abs :: "'m \<Rightarrow> 'k \<rightharpoonup> 'v"
  assumes look_ok: "room n m \<Longrightarrow> look m k = Some (abs m k)"
    and put_ok: "room (Suc n) m \<Longrightarrow> \<exists>m'. put m k v = Some m' \<and> room n m' \<and> abs m' = (abs m)(k \<mapsto> v)"
begin

lemma put_room:
  assumes "room (Suc n) m"
  obtains m' where "put m k v = Some m'" "room n m'" "abs m' = (abs m)(k \<mapsto> v)"
  using put_ok [OF assms] by blast

lemma look_put:
  assumes "room (Suc n) m" "put m k v = Some m'"
  shows "look m' j = (if j = k then Some (Some v) else look m j)"
proof -
  obtain m2 where "put m k v = Some m2" "room n m2" "abs m2 = (abs m)(k \<mapsto> v)" using assms(1) by (rule put_room)
  then show ?thesis using assms look_ok [of n m' j] look_ok [of "Suc n" m j] by simp
qed

lemma set_all_ok:
  "room (length kvs + n) m \<Longrightarrow>
   \<exists>m'. set_all put m kvs = Some m' \<and> room n m' \<and> abs m' = abs m ++ map_of (rev kvs)"
proof (induction kvs arbitrary: m)
  case (Cons kv kvs)
  obtain k v where kv: "kv = (k, v)" by (cases kv)
  obtain m1 where m1: "put m k v = Some m1" "room (length kvs + n) m1" "abs m1 = (abs m)(k \<mapsto> v)"
    using put_room [of "length kvs + n" m k v] Cons.prems by auto
  have "(abs m)(k \<mapsto> v) ++ map_of (rev kvs) = abs m ++ map_of (rev (kv # kvs))"
    by (auto simp: kv map_add_def fun_eq_iff split: option.split)
  with Cons.IH [OF m1(2)] show ?case unfolding m1(3) by (simp only: kv set_all.simps m1(1) bind.bind_lunit)
qed simp

end

end
