(* ===== verification/Fastmap.thy ===== *)
theory Fastmap
  imports MapStore Prelude
begin

text \<open>
  fastmap/fastmap.go: the hash map from page numbers to pointers that tracks the dirty pages.  Open
  addressing with linear probing over a power-of-two table and Fibonacci hashing.  A pointer is
  \<open>'v option\<close> with \<open>None\<close> for nil.  The probe loops are \<open>partial_function\<close>s: \<open>None\<close> is a probe that does
  not return (or an index outside the table), and the invariant \<open>map_inv\<close> shows that it never happens.
\<close>

record 'v bucket =
  bkey :: u32
  bvalue :: "'v option"
  bused :: bool

record 'v Uint32Map =
  buckets :: "'v bucket list"
  mcount :: nat
  mmask :: u32

definition fibHash32 :: u32 where "fibHash32 = 2654435769"

definition hash :: "u32 \<Rightarrow> u32" where "hash key = key * fibHash32"

abbreviation empty_bucket :: "'v bucket" where
  "empty_bucket \<equiv> \<lparr>bkey = 0, bvalue = None, bused = False\<rparr>"

definition empty_map :: "'v Uint32Map" where
  "empty_map = \<lparr>buckets = [], mcount = 0, mmask = 0\<rparr>"

section \<open>Operations\<close>

partial_function (option) get_loop :: "'v bucket list \<Rightarrow> u32 \<Rightarrow> u32 \<Rightarrow> u32 \<Rightarrow> 'v option option" where
  "get_loop bs m key idx =
     (if unat idx < length bs then
        let b = bs ! unat idx in
        if \<not> bused b then Some None
        else if bkey b = key then Some (bvalue b)
        else get_loop bs m key ((idx + 1) AND m)
      else None)"

definition Get :: "'v Uint32Map \<Rightarrow> u32 \<Rightarrow> 'v option option" where
  "Get m key =
     (if buckets m = [] then Some None
      else get_loop (buckets m) (mmask m) key (hash key AND mmask m))"

partial_function (option) set_loop ::
  "'v bucket list \<Rightarrow> u32 \<Rightarrow> nat \<Rightarrow> u32 \<Rightarrow> 'v option \<Rightarrow> u32 \<Rightarrow> ('v bucket list \<times> nat) option" where
  "set_loop bs m cnt key value idx =
     (if unat idx < length bs then
        let b = bs ! unat idx in
        if \<not> bused b then
          Some (bs[unat idx := \<lparr>bkey = key, bvalue = value, bused = True\<rparr>], cnt + 1)
        else if bkey b = key then Some (bs[unat idx := b\<lparr>bvalue := value\<rparr>], cnt)
        else set_loop bs m cnt key value ((idx + 1) AND m)
      else None)"

text \<open>The part of \<open>Set\<close> after the growth check.\<close>

definition set_probe :: "'v Uint32Map \<Rightarrow> u32 \<Rightarrow> 'v option \<Rightarrow> 'v Uint32Map option" where
  "set_probe m key value =
     do { (bs, cnt) \<leftarrow> set_loop (buckets m) (mmask m) (mcount m) key value (hash key AND mmask m);
          Some (m\<lparr>buckets := bs, mcount := cnt\<rparr>) }"

text \<open>
  \<open>Set\<close> and \<open>grow\<close> call each other.  The fuel bounds how deeply growths are nested: inside \<open>grow\<close> the
  table is less than half full, so that a depth of 2 is enough (\<open>Set_ok\<close>).
\<close>

fun Set_n :: "nat \<Rightarrow> 'v Uint32Map \<Rightarrow> u32 \<Rightarrow> 'v option \<Rightarrow> 'v Uint32Map option"
and grow_n :: "nat \<Rightarrow> 'v Uint32Map \<Rightarrow> 'v Uint32Map option"
and reinsert :: "nat \<Rightarrow> 'v bucket list \<Rightarrow> 'v Uint32Map \<Rightarrow> 'v Uint32Map option" where
  "Set_n 0 m key value = None"
| "Set_n (Suc d) m key value =
     (if buckets m = [] then
        set_probe (m\<lparr>buckets := replicate 16 empty_bucket, mmask := 15\<rparr>) key value
      else if mcount m \<ge> length (buckets m) * 3 div 4 then
        do { m' \<leftarrow> grow_n d m; set_probe m' key value }
      else set_probe m key value)"
| "grow_n d m =
     (let newSize = length (buckets m) * 2 in
      reinsert d (buckets m)
        (m\<lparr>buckets := replicate newSize empty_bucket, mmask := of_int (int newSize - 1), mcount := 0\<rparr>))"
| "reinsert d [] m = Some m"
| "reinsert d (b # bs) m =
     (if bused b then do { m' \<leftarrow> Set_n d m (bkey b) (bvalue b); reinsert d bs m' } else reinsert d bs m)"

definition Set :: "'v Uint32Map \<Rightarrow> u32 \<Rightarrow> 'v option \<Rightarrow> 'v Uint32Map option" where
  "Set m key value = Set_n 2 m key value"

definition grow :: "'v Uint32Map \<Rightarrow> 'v Uint32Map option" where
  "grow m = grow_n 1 m"

text \<open>\<open>ForEach\<close> visits the used buckets in table order.\<close>

definition ForEach :: "('s \<Rightarrow> u32 \<Rightarrow> 'v option \<Rightarrow> 's) \<Rightarrow> 'v Uint32Map \<Rightarrow> 's \<Rightarrow> 's" where
  "ForEach fn m s = fold (\<lambda>b s. if bused b then fn s (bkey b) (bvalue b) else s) (buckets m) s"

definition Clear :: "'v Uint32Map \<Rightarrow> 'v Uint32Map" where
  "Clear m = m\<lparr>buckets := replicate (length (buckets m)) empty_bucket, mcount := 0\<rparr>"

definition Len :: "'v Uint32Map \<Rightarrow> nat" where "Len m = mcount m"

section \<open>The table invariant\<close>

definition used_at :: "'v bucket list \<Rightarrow> nat \<Rightarrow> bool" where
  "used_at bs i \<longleftrightarrow> bused (bs ! (i mod length bs))"

definition home :: "nat \<Rightarrow> u32 \<Rightarrow> nat" where "home n key = unat (hash key) mod n"

definition used_count :: "'v bucket list \<Rightarrow> nat" where
  "used_count bs = length (List.filter bused bs)"

text \<open>Every used bucket is reached from its home position through used buckets.\<close>

definition chains :: "'v bucket list \<Rightarrow> bool" where
  "chains bs \<longleftrightarrow> (\<forall>q < length bs. bused (bs ! q) \<longrightarrow>
     (\<exists>d < length bs. q = (home (length bs) (bkey (bs ! q)) + d) mod length bs \<and>
        (\<forall>t < d. used_at bs (home (length bs) (bkey (bs ! q)) + t))))"

text \<open>No key is in two buckets.\<close>

definition keys_once :: "'v bucket list \<Rightarrow> bool" where
  "keys_once bs \<longleftrightarrow> (\<forall>p < length bs. \<forall>q < length bs.
     bused (bs ! p) \<and> bused (bs ! q) \<and> bkey (bs ! p) = bkey (bs ! q) \<longrightarrow> p = q)"

definition table_ok :: "nat \<Rightarrow> 'v bucket list \<Rightarrow> bool" where
  "table_ok k bs \<longleftrightarrow> length bs = 2 ^ k \<and> keys_once bs \<and> chains bs"

definition map_inv :: "'v Uint32Map \<Rightarrow> bool" where
  "map_inv m \<longleftrightarrow> mcount m = used_count (buckets m) \<and>
     (buckets m = [] \<or>
      (\<exists>k. 2 \<le> k \<and> k \<le> 32 \<and> table_ok k (buckets m) \<and> mmask m = of_nat (2 ^ k - 1) \<and>
         mcount m \<le> length (buckets m) * 3 div 4))"

text \<open>The mathematical map a table stands for.\<close>

definition entries_of :: "'v bucket list \<Rightarrow> (u32 \<times> 'v option) list" where
  "entries_of bs = map (\<lambda>b. (bkey b, bvalue b)) (List.filter bused bs)"

definition lookup :: "'v Uint32Map \<Rightarrow> u32 \<rightharpoonup> 'v option" where
  "lookup m = map_of (entries_of (buckets m))"

section \<open>Index arithmetic\<close>

lemma and_low_mask:
  assumes "k \<le> 32"
  shows "unat (w AND of_nat (2 ^ k - 1) :: u32) = unat w mod 2 ^ k"
proof -
  have "of_nat (2 ^ k - 1) = (mask k :: u32)"
    by (simp add: mask_eq_exp_minus_1 of_nat_diff)
  then have "w AND of_nat (2 ^ k - 1) = take_bit k w"
    by (simp add: take_bit_eq_mask)
  moreover have "unat (take_bit k w) = unat w mod 2 ^ k"
    by (simp only: unsigned_take_bit_eq) (simp add: take_bit_eq_mod)
  ultimately show ?thesis by (simp only:)
qed

lemma next_index:
  assumes "k \<le> 32" "unat idx = (h + i) mod 2 ^ k"
  shows "unat ((idx + 1) AND of_nat (2 ^ k - 1) :: u32) = (h + Suc i) mod 2 ^ k"
proof -
  have "unat (idx + 1) mod 2 ^ k = (unat idx + 1) mod 2 ^ 32 mod 2 ^ k"
    by (simp add: unat_word_ariths)
  also have "\<dots> = (unat idx + 1) mod 2 ^ k"
    by (rule mod_mod_cancel) (rule le_imp_power_dvd [OF assms(1)])
  also have "\<dots> = (h + Suc i) mod 2 ^ k" unfolding assms(2) by (simp add: mod_simps)
  finally show ?thesis using and_low_mask [OF assms(1)] by simp
qed

lemma home_index: "k \<le> 32 \<Longrightarrow> unat (hash key AND of_nat (2 ^ k - 1) :: u32) = (home (2 ^ k) key + 0) mod 2 ^ k"
  using and_low_mask [of k "hash key"] by (simp only: home_def add_0_right mod_mod_trivial)

section \<open>Probing\<close>

text \<open>Where a probe for \<open>key\<close> stops: at the first bucket that is free or holds the key.\<close>

definition stops :: "'v bucket list \<Rightarrow> u32 \<Rightarrow> nat \<Rightarrow> bool" where
  "stops bs key j \<longleftrightarrow> \<not> bused (bs ! (j mod length bs)) \<or> bkey (bs ! (j mod length bs)) = key"

lemma get_loop_stop:
  assumes bs: "length bs = 2 ^ k" and k: "k \<le> 32"
    and idx: "unat idx = (h + i) mod 2 ^ k" and ij: "i \<le> j"
    and go: "\<And>t. i \<le> t \<Longrightarrow> t < j \<Longrightarrow> \<not> stops bs key (h + t)" and st: "stops bs key (h + j)"
  shows "get_loop bs (of_nat (2 ^ k - 1)) key idx =
    Some (let b = bs ! ((h + j) mod 2 ^ k) in if bused b then bvalue b else None)"
  using idx ij go
proof (induction "j - i" arbitrary: i idx)
  case 0
  then have [simp]: "i = j" by simp
  show ?case using st 0 bs by (subst get_loop.simps) (auto simp: stops_def Let_def)
next
  case (Suc d)
  have nst: "\<not> stops bs key (h + i)" using Suc.prems(3) [of i] Suc.hyps(2) by simp
  have "get_loop bs (of_nat (2 ^ k - 1)) key ((idx + 1) AND of_nat (2 ^ k - 1)) =
    Some (let b = bs ! ((h + j) mod 2 ^ k) in if bused b then bvalue b else None)"
    by (rule Suc.hyps(1) [of "Suc i"]) (use Suc next_index [OF k Suc.prems(1)] in auto)
  then show ?case
    using nst Suc.prems(1) bs by (subst get_loop.simps) (simp add: stops_def Let_def)
qed

lemma set_loop_stop:
  assumes bs: "length bs = 2 ^ k" and k: "k \<le> 32"
    and idx: "unat idx = (h + i) mod 2 ^ k" and ij: "i \<le> j"
    and go: "\<And>t. i \<le> t \<Longrightarrow> t < j \<Longrightarrow> \<not> stops bs key (h + t)" and st: "stops bs key (h + j)"
  shows "set_loop bs (of_nat (2 ^ k - 1)) cnt key value idx =
    Some (let p = (h + j) mod 2 ^ k in
      if bused (bs ! p) then (bs[p := (bs ! p)\<lparr>bvalue := value\<rparr>], cnt)
      else (bs[p := \<lparr>bkey = key, bvalue = value, bused = True\<rparr>], cnt + 1))"
  using idx ij go
proof (induction "j - i" arbitrary: i idx)
  case 0
  then have [simp]: "i = j" by simp
  show ?case using st 0 bs by (subst set_loop.simps) (auto simp: stops_def Let_def)
next
  case (Suc d)
  have nst: "\<not> stops bs key (h + i)" using Suc.prems(3) [of i] Suc.hyps(2) by simp
  have "set_loop bs (of_nat (2 ^ k - 1)) cnt key value ((idx + 1) AND of_nat (2 ^ k - 1)) =
    Some (let p = (h + j) mod 2 ^ k in
      if bused (bs ! p) then (bs[p := (bs ! p)\<lparr>bvalue := value\<rparr>], cnt)
      else (bs[p := \<lparr>bkey = key, bvalue = value, bused = True\<rparr>], cnt + 1))"
    by (rule Suc.hyps(1) [of "Suc i"]) (use Suc next_index [OF k Suc.prems(1)] in auto)
  then show ?case
    using nst Suc.prems(1) bs by (subst set_loop.simps) (simp add: stops_def Let_def)
qed

text \<open>A table that is not full has a position where the probe stops; the first one decides.\<close>

lemma not_full_free:
  assumes "used_count bs < length bs"
  shows "\<exists>q < length bs. \<not> bused (bs ! q)"
proof (rule ccontr)
  assume "\<not> ?thesis"
  then have "List.filter bused bs = bs" by (auto simp: filter_id_conv in_set_conv_nth)
  then show False using assms by (simp add: used_count_def)
qed

lemma first_stop:
  assumes "table_ok k bs" "used_count bs < length bs"
  obtains j where "stops bs key (h + j)" "\<And>t. t < j \<Longrightarrow> \<not> stops bs key (h + t)" "j < length bs"
proof -
  let ?N = "length bs"
  obtain q where q: "q < ?N" "\<not> bused (bs ! q)" using not_full_free [OF assms(2)] by blast
  define j0 where "j0 = (q + ?N - h mod ?N) mod ?N"
  have "(h + j0) mod ?N = q"
  proof -
    have "(h + j0) mod ?N = (h mod ?N + (q + ?N - h mod ?N)) mod ?N"
      by (simp add: j0_def mod_simps)
    also have "h mod ?N + (q + ?N - h mod ?N) = q + ?N"
      using q(1) mod_less_divisor [of ?N h] by linarith
    finally show ?thesis using q(1) by simp
  qed
  then have s0: "stops bs key (h + j0)" using q by (simp add: stops_def)
  have "j0 < ?N" using q(1) by (auto simp: j0_def intro: mod_less_divisor)
  define j where "j = (LEAST j. stops bs key (h + j))"
  have "stops bs key (h + j)" unfolding j_def by (rule LeastI) (rule s0)
  moreover have "\<not> stops bs key (h + t)" if "t < j" for t
    using not_less_Least that unfolding j_def by blast
  moreover have "j \<le> j0" unfolding j_def by (rule Least_le) (rule s0)
  ultimately show thesis using that \<open>j0 < ?N\<close> by fastforce
qed

lemma keys_once_distinct: "keys_once bs \<Longrightarrow> distinct (map bkey (List.filter bused bs))"
proof (induction bs)
  case (Cons b bs)
  have "keys_once bs"
    unfolding keys_once_def
  proof (intro allI impI)
    fix p q assume "p < length bs" "q < length bs"
      "bused (bs ! p) \<and> bused (bs ! q) \<and> bkey (bs ! p) = bkey (bs ! q)"
    then show "p = q" using Cons.prems [unfolded keys_once_def, rule_format, of "Suc p" "Suc q"] by simp
  qed
  moreover have "bkey x \<noteq> bkey b" if b: "bused b" and x: "x \<in> set bs" "bused x" for x
  proof
    assume k: "bkey x = bkey b"
    from x obtain q where "q < length bs" "bs ! q = x" by (auto simp: in_set_conv_nth)
    then show False
      using Cons.prems [unfolded keys_once_def, rule_format, of 0 "Suc q"] b x k by simp
  qed
  ultimately show ?case using Cons.IH by fastforce
qed simp

lemma map_of_entries:
  assumes "keys_once bs" "q < length bs" "bused (bs ! q)"
  shows "map_of (entries_of bs) (bkey (bs ! q)) = Some (bvalue (bs ! q))"
proof -
  have "(bkey (bs ! q), bvalue (bs ! q)) \<in> set (entries_of bs)"
    using assms by (auto simp: entries_of_def intro!: image_eqI [where x = "bs ! q"])
  moreover have "distinct (map fst (entries_of bs))"
    using keys_once_distinct [OF assms(1)] by (simp add: entries_of_def comp_def)
  ultimately show ?thesis by (simp add: map_of_is_SomeI)
qed

lemma map_of_entries_None:
  "map_of (entries_of bs) key = None \<longleftrightarrow> (\<forall>q < length bs. bused (bs ! q) \<longrightarrow> bkey (bs ! q) \<noteq> key)"
  by (auto simp: map_of_eq_None_iff entries_of_def in_set_conv_nth image_iff Ball_def Bex_def)

text \<open>If the probe stops at a free bucket, no bucket holds the key: the chains guarantee it.\<close>

lemma stop_free_absent:
  assumes t: "table_ok k bs" and free: "\<not> bused (bs ! ((home (2 ^ k) key + j) mod 2 ^ k))"
    and go: "\<And>t. t < j \<Longrightarrow> \<not> stops bs key (home (2 ^ k) key + t)"
  shows "map_of (entries_of bs) key = None"
  unfolding map_of_entries_None
proof (intro allI impI notI)
  have N: "length bs = 2 ^ k" using t by (simp add: table_ok_def)
  fix q assume q: "q < length bs" "bused (bs ! q)" "bkey (bs ! q) = key"
  with t N obtain d where d: "d < 2 ^ k" "q = (home (2 ^ k) key + d) mod 2 ^ k"
    "\<And>t. t < d \<Longrightarrow> used_at bs (home (2 ^ k) key + t)"
    unfolding table_ok_def chains_def by fastforce
  have "j \<noteq> d" using free q d(2) by auto
  moreover have "\<not> j < d" using d(3) [of j] free N by (auto simp: used_at_def)
  moreover have "\<not> d < j" using go [of d] q d(2) N by (auto simp: stops_def)
  ultimately show False by linarith
qed

theorem Get_ok:
  assumes inv: "map_inv m"
  shows "Get m key = Some (case lookup m key of None \<Rightarrow> None | Some v \<Rightarrow> v)"
proof (cases "buckets m = []")
  case True
  then show ?thesis by (simp add: Get_def lookup_def entries_of_def)
next
  case False
  with inv obtain k where k: "2 \<le> k" "k \<le> 32" and t: "table_ok k (buckets m)"
    and mk: "mmask m = of_nat (2 ^ k - 1)" and cnt: "mcount m \<le> length (buckets m) * 3 div 4"
    and cn: "mcount m = used_count (buckets m)" by (auto simp: map_inv_def)
  let ?bs = "buckets m"
  have N: "length ?bs = 2 ^ k" using t by (simp add: table_ok_def)
  have lt: "used_count ?bs < length ?bs"
  proof -
    have "0 < length ?bs" using False by simp
    then show ?thesis using cnt cn by linarith
  qed
  obtain j where j: "stops ?bs key (home (2 ^ k) key + j)"
    "\<And>t. t < j \<Longrightarrow> \<not> stops ?bs key (home (2 ^ k) key + t)" "j < length ?bs"
    using first_stop [OF t lt] by metis
  let ?p = "(home (2 ^ k) key + j) mod 2 ^ k"
  have g: "Get m key = Some (let b = ?bs ! ?p in if bused b then bvalue b else None)"
    unfolding Get_def mk using False
    by (simp only: if_False) (rule get_loop_stop [OF N k(2) home_index [OF k(2)]]; use j in auto)
  show ?thesis
  proof (cases "bused (?bs ! ?p)")
    case True
    then have "bkey (?bs ! ?p) = key" using j(1) N by (simp add: stops_def)
    then have "lookup m key = Some (bvalue (?bs ! ?p))"
      using map_of_entries [of ?bs ?p] t True N by (simp add: lookup_def table_ok_def)
    then show ?thesis using g True by simp
  next
    case False
    have "lookup m key = None"
      unfolding lookup_def using stop_free_absent [OF t False] j by simp
    then show ?thesis using g False by simp
  qed
qed

section \<open>Setting\<close>

lemma used_count_card: "used_count bs = card {i. i < length bs \<and> bused (bs ! i)}"
  by (simp add: used_count_def length_filter_conv_card)

lemma map_of_entries_eq:
  assumes "keys_once bs" "keys_once bs'" "length bs' = length bs" "p < length bs"
    and out: "\<And>q. q < length bs \<Longrightarrow> q \<noteq> p \<Longrightarrow> bs' ! q = bs ! q"
    and new: "bs' ! p = \<lparr>bkey = key, bvalue = v, bused = True\<rparr>"
    and old: "bused (bs ! p) \<Longrightarrow> bkey (bs ! p) = key"
  shows "map_of (entries_of bs') = (map_of (entries_of bs))(key \<mapsto> v)"
proof
  fix k
  show "map_of (entries_of bs') k = ((map_of (entries_of bs))(key \<mapsto> v)) k"
  proof (cases "k = key")
    case True
    then show ?thesis using map_of_entries [OF assms(2), of p] assms(3,4) new by simp
  next
    case k: False
    show ?thesis
    proof (cases "map_of (entries_of bs) k")
      case None
      then have "map_of (entries_of bs') k = None"
        unfolding map_of_entries_None assms(3) using out new k
        by (metis bucket.select_convs(1))
      then show ?thesis using None k by simp
    next
      case (Some w)
      then have "\<not> (\<forall>q < length bs. bused (bs ! q) \<longrightarrow> bkey (bs ! q) \<noteq> k)"
        by (metis map_of_entries_None option.distinct(1))
      then obtain q where q: "q < length bs" "bused (bs ! q)" "bkey (bs ! q) = k" by blast
      then have "q \<noteq> p" using old k by auto
      then show ?thesis
        using map_of_entries [OF assms(1) q(1,2)] map_of_entries [OF assms(2), of q] q out [of q] assms(3) k
        by simp
    qed
  qed
qed

lemma chains_update:
  assumes ch: "chains bs" and len: "length bs' = length bs"
    and out: "\<And>q. q < length bs \<Longrightarrow> q \<noteq> p \<Longrightarrow> bs' ! q = bs ! q"
    and used: "bused (bs' ! p)"
    and path: "\<exists>d < length bs. p = (home (length bs) (bkey (bs' ! p)) + d) mod length bs \<and>
        (\<forall>t < d. used_at bs (home (length bs) (bkey (bs' ! p)) + t))"
  shows "chains bs'"
proof -
  have mono: "used_at bs i \<Longrightarrow> used_at bs' i" for i
  proof -
    assume u: "used_at bs i"
    show "used_at bs' i"
    proof (cases "length bs = 0")
      case True
      then show ?thesis using u len by (simp add: used_at_def)
    next
      case False
      then have "i mod length bs < length bs" by simp
      then show ?thesis using u out used len by (cases "i mod length bs = p") (auto simp: used_at_def)
    qed
  qed
  show ?thesis
    unfolding chains_def len
  proof (intro allI impI)
    fix q assume q: "q < length bs" "bused (bs' ! q)"
    show "\<exists>d < length bs. q = (home (length bs) (bkey (bs' ! q)) + d) mod length bs \<and>
        (\<forall>t < d. used_at bs' (home (length bs) (bkey (bs' ! q)) + t))"
    proof (cases "q = p")
      case True
      then show ?thesis using path mono by blast
    next
      case False
      then have e: "bs' ! q = bs ! q" using out q by simp
      then have "\<exists>d < length bs. q = (home (length bs) (bkey (bs ! q)) + d) mod length bs \<and>
        (\<forall>t < d. used_at bs (home (length bs) (bkey (bs ! q)) + t))"
        using ch q unfolding chains_def by simp
      then show ?thesis unfolding e using mono by blast
    qed
  qed
qed

lemma set_probe_ok:
  assumes k: "k \<le> 32" and t: "table_ok k (buckets m)" and mk: "mmask m = of_nat (2 ^ k - 1)"
    and cn: "mcount m = used_count (buckets m)" and lt: "used_count (buckets m) < length (buckets m)"
  shows "\<exists>m'. set_probe m key v = Some m' \<and> table_ok k (buckets m') \<and> mmask m' = mmask m \<and>
    mcount m' = used_count (buckets m') \<and>
    mcount m' = mcount m + (if lookup m key = None then 1 else 0) \<and>
    lookup m' = (lookup m)(key \<mapsto> v)"
proof -
  let ?bs = "buckets m" and ?h = "home (2 ^ k) key"
  have N: "length ?bs = 2 ^ k" and ko: "keys_once ?bs" and ch: "chains ?bs"
    using t by (simp_all add: table_ok_def)
  obtain j where j: "stops ?bs key (?h + j)" "\<And>t. t < j \<Longrightarrow> \<not> stops ?bs key (?h + t)" "j < length ?bs"
    using first_stop [OF t lt] by metis
  define p where "p = (?h + j) mod 2 ^ k"
  have p: "p < length ?bs" using N by (simp add: p_def)
  define bs' where "bs' = ?bs[p := \<lparr>bkey = key, bvalue = v, bused = True\<rparr>]"
  have b': "length bs' = length ?bs" "bs' ! p = \<lparr>bkey = key, bvalue = v, bused = True\<rparr>"
    "\<And>q. q \<noteq> p \<Longrightarrow> bs' ! q = ?bs ! q" using p by (simp_all add: bs'_def)
  have upd: "(?bs ! p)\<lparr>bvalue := v\<rparr> = \<lparr>bkey = key, bvalue = v, bused = True\<rparr>" if "bused (?bs ! p)"
    using that j(1) N by (auto simp: stops_def p_def intro: bucket.equality)
  define cnt where "cnt = mcount m + (if bused (?bs ! p) then 0 else 1)"
  have sl: "set_loop ?bs (mmask m) (mcount m) key v (hash key AND mmask m) = Some (bs', cnt)"
  proof -
    have "set_loop ?bs (mmask m) (mcount m) key v (hash key AND mmask m) =
      Some (let p = (?h + j) mod 2 ^ k in
        if bused (?bs ! p) then (?bs[p := (?bs ! p)\<lparr>bvalue := v\<rparr>], mcount m)
        else (?bs[p := \<lparr>bkey = key, bvalue = v, bused = True\<rparr>], mcount m + 1))"
      unfolding mk by (rule set_loop_stop [OF N k home_index [OF k]]) (use j in auto)
    also have "\<dots> = Some (bs', cnt)"
      unfolding p_def [symmetric] Let_def by (auto simp: upd bs'_def cnt_def)
    finally show ?thesis .
  qed
  have old: "bkey (?bs ! p) = key" if "bused (?bs ! p)"
    using that j(1) N by (simp add: stops_def p_def)
  have absent: "map_of (entries_of ?bs) key = None" if "\<not> bused (?bs ! p)"
    using stop_free_absent [OF t] that j(2) by (simp add: p_def)
  have ko': "keys_once bs'"
    unfolding keys_once_def b'(1)
  proof (intro allI impI)
    fix x y assume xy: "x < length ?bs" "y < length ?bs"
      "bused (bs' ! x) \<and> bused (bs' ! y) \<and> bkey (bs' ! x) = bkey (bs' ! y)"
    have no: "bkey (?bs ! q) \<noteq> key" if "q < length ?bs" "q \<noteq> p" "bused (?bs ! q)" for q
    proof (cases "bused (?bs ! p)")
      case True
      then show ?thesis using ko that p old unfolding keys_once_def by metis
    next
      case False
      then show ?thesis using absent that unfolding map_of_entries_None by blast
    qed
    show "x = y"
    proof (cases "x = p \<or> y = p")
      case True
      then show ?thesis using no [of x] no [of y] xy b'(2) b'(3) [of x] b'(3) [of y]
        by (metis bucket.select_convs(1))
    next
      case False
      then show ?thesis using ko xy b'(3) unfolding keys_once_def by metis
    qed
  qed
  have "chains bs'"
  proof (rule chains_update [OF ch b'(1), of p])
    show "\<exists>d < length ?bs. p = (home (length ?bs) (bkey (bs' ! p)) + d) mod length ?bs \<and>
        (\<forall>t < d. used_at ?bs (home (length ?bs) (bkey (bs' ! p)) + t))"
      using j N b'(2) by (intro exI [of _ j]) (auto simp: p_def stops_def used_at_def)
  qed (use b' in auto)
  then have t': "table_ok k bs'" using ko' b'(1) N by (simp add: table_ok_def)
  have lk: "map_of (entries_of bs') = (map_of (entries_of ?bs))(key \<mapsto> v)"
    by (rule map_of_entries_eq [OF ko ko' b'(1) p]) (use b' old in auto)
  have uc: "used_count bs' = cnt"
  proof -
    have "{i. i < length bs' \<and> bused (bs' ! i)} = insert p {i. i < length ?bs \<and> bused (?bs ! i)}"
      using p b' by (auto simp: bs'_def nth_list_update split: if_splits)
    then show ?thesis using cn p by (auto simp: used_count_card cnt_def card_insert_if)
  qed
  have "lookup m key = None \<longleftrightarrow> \<not> bused (?bs ! p)"
    using absent map_of_entries [OF ko p] old by (auto simp: lookup_def)
  then show ?thesis
    using sl t' uc lk by (simp add: set_probe_def lookup_def cnt_def)
qed

section \<open>Growing\<close>

lemma fresh_table:
  assumes "n = 2 ^ k"
  shows "table_ok k (replicate n empty_bucket)" "used_count (replicate n empty_bucket) = 0"
    "entries_of (replicate n empty_bucket) = []"
  using assms by (auto simp: table_ok_def keys_once_def chains_def used_count_def entries_of_def)

text \<open>What \<open>Set\<close> keeps while no growth is needed; \<open>r\<close> insertions still fit.\<close>

definition roomy :: "nat \<Rightarrow> nat \<Rightarrow> 'v Uint32Map \<Rightarrow> bool" where
  "roomy k r m \<longleftrightarrow> 2 \<le> k \<and> k \<le> 32 \<and> table_ok k (buckets m) \<and> mmask m = of_nat (2 ^ k - 1) \<and>
     mcount m = used_count (buckets m) \<and> mcount m + r \<le> 2 ^ k * 3 div 4"

lemma three_quarters: "2 \<le> k \<Longrightarrow> (2::nat) ^ k * 3 div 4 < 2 ^ k" "2 \<le> k \<Longrightarrow> 0 < (2::nat) ^ k * 3 div 4"
proof -
  assume "2 \<le> k"
  then obtain j where "k = Suc (Suc j)" by (metis Suc_le_D numeral_2_eq_2 Suc_le_mono)
  then have "(2::nat) ^ k = 4 * 2 ^ j" by simp
  then show "(2::nat) ^ k * 3 div 4 < 2 ^ k" "0 < (2::nat) ^ k * 3 div 4" by simp_all
qed

lemma Set_n_roomy:
  assumes "roomy k (Suc r) m"
  shows "\<exists>m'. Set_n (Suc d) m key v = Some m' \<and> roomy k r m' \<and> lookup m' = (lookup m)(key \<mapsto> v) \<and>
    length (buckets m') = length (buckets m)"
proof -
  from assms have a: "2 \<le> k" "k \<le> 32" "table_ok k (buckets m)" "mmask m = of_nat (2 ^ k - 1)"
    "mcount m = used_count (buckets m)" "mcount m + Suc r \<le> 2 ^ k * 3 div 4"
    by (simp_all add: roomy_def)
  have N: "length (buckets m) = 2 ^ k" using a(3) by (simp add: table_ok_def)
  have lt: "used_count (buckets m) < length (buckets m)"
    using a(5,6) three_quarters(1) [OF a(1)] N by linarith
  have ng: "\<not> mcount m \<ge> length (buckets m) * 3 div 4" "buckets m \<noteq> []" using a(6) N by auto
  from set_probe_ok [OF a(2,3,4,5) lt, of key v] obtain m' where
    m': "set_probe m key v = Some m'" "table_ok k (buckets m')" "mmask m' = mmask m"
      "mcount m' = used_count (buckets m')" "mcount m' = mcount m + (if lookup m key = None then 1 else 0)"
      "lookup m' = (lookup m)(key \<mapsto> v)" by blast
  have "roomy k r m'" using a m' by (auto simp: roomy_def split: if_splits)
  then show ?thesis using m' ng N by (auto simp: table_ok_def)
qed

lemma reinsert_ok:
  assumes "roomy k (length (List.filter bused bs)) m"
  shows "\<exists>m'. reinsert (Suc d) bs m = Some m' \<and> roomy k 0 m' \<and>
    lookup m' = (\<lambda>key. case map_of (rev (entries_of bs)) key of None \<Rightarrow> lookup m key | Some v \<Rightarrow> Some v) \<and>
    length (buckets m') = length (buckets m)"
  using assms
proof (induction bs arbitrary: m)
  case Nil
  then show ?case by (simp add: entries_of_def)
next
  case (Cons b bs)
  show ?case
  proof (cases "bused b")
    case False
    then show ?thesis using Cons by (simp add: entries_of_def)
  next
    case True
    with Cons.prems have "roomy k (Suc (length (List.filter bused bs))) m" by simp
    from Set_n_roomy [OF this, of d "bkey b" "bvalue b"] obtain m1 where
      m1: "Set_n (Suc d) m (bkey b) (bvalue b) = Some m1" "roomy k (length (List.filter bused bs)) m1"
        "lookup m1 = (lookup m)(bkey b \<mapsto> bvalue b)" "length (buckets m1) = length (buckets m)" by blast
    from Cons.IH [OF m1(2)] m1 True show ?thesis
      by (fastforce simp: entries_of_def map_add_def split: option.splits)
  qed
qed

lemma map_of_rev_distinct: "distinct (map fst xs) \<Longrightarrow> map_of (rev xs) = map_of xs"
  by (subst map_of_inject_set) (auto simp: rev_map [symmetric])

lemma grow_n_ok:
  assumes t: "table_ok k (buckets m)" and k: "2 \<le> k" "k < 32" and cnt: "used_count (buckets m) \<le> 2 ^ k * 3 div 4"
  shows "\<exists>m'. grow_n (Suc d) m = Some m' \<and> roomy (Suc k) 1 m' \<and> lookup m' = lookup m \<and>
    mcount m' = used_count (buckets m) \<and> length (buckets m') = 2 ^ Suc k"
proof -
  let ?f = "m\<lparr>buckets := replicate (2 ^ k * 2) empty_bucket, mmask := of_int (int (2 ^ k * 2) - 1), mcount := 0\<rparr>"
  have N: "length (buckets m) = 2 ^ k" and ko: "keys_once (buckets m)" using t by (simp_all add: table_ok_def)
  have mk: "of_int (int (2 ^ k * 2) - 1) = (of_nat (2 ^ Suc k - 1) :: u32)"
    by (simp add: of_nat_diff)
  have c2: "used_count (buckets m) \<le> 2 ^ Suc k * 3 div 4" using cnt by simp
  have "roomy (Suc k) (length (List.filter bused (buckets m))) ?f"
    using k c2 fresh_table [of "2 ^ k * 2" "Suc k"] mk by (simp add: roomy_def used_count_def)
  from reinsert_ok [OF this, of d] obtain m' where
    m': "reinsert (Suc d) (buckets m) ?f = Some m'" "roomy (Suc k) 0 m'"
      "lookup m' = (\<lambda>key. case map_of (rev (entries_of (buckets m))) key of None \<Rightarrow> lookup ?f key | Some v \<Rightarrow> Some v)"
      "length (buckets m') = length (buckets ?f)" by blast
  have "lookup ?f = Map.empty"
    using fresh_table(3) [of "2 ^ k * 2" "Suc k"] by (simp add: lookup_def)
  moreover have "map_of (rev (entries_of (buckets m))) = map_of (entries_of (buckets m))"
    by (rule map_of_rev_distinct) (use keys_once_distinct [OF ko] in \<open>simp add: entries_of_def comp_def\<close>)
  ultimately have lk: "lookup m' = lookup m"
    using m'(3) by (auto simp: lookup_def fun_eq_iff split: option.splits)
  have uc: "used_count (buckets m') = used_count (buckets m)"
  proof -
    have d: "card (dom (lookup x)) = used_count (buckets x)" if "keys_once (buckets x)" for x :: "'a Uint32Map"
      using distinct_card [OF keys_once_distinct [OF that]]
      by (simp add: lookup_def entries_of_def dom_map_of_conv_image_fst image_image used_count_def)
    have "keys_once (buckets m')" using m'(2) by (simp add: roomy_def table_ok_def)
    then show ?thesis using d [of m'] d [of m] ko lk by simp
  qed
  have "used_count (buckets m) + 1 \<le> 2 ^ Suc k * 3 div 4"
    using cnt three_quarters(2) [OF k(1)] by simp
  then have "roomy (Suc k) 1 m'" using m'(2) uc by (simp add: roomy_def)
  then show ?thesis using m' lk uc N m'(2) by (auto simp: roomy_def)
qed

text \<open>Growth stops before the table has \<open>2 ^ 32\<close> buckets while fewer than \<open>3 * 2 ^ 29\<close> keys are in it.\<close>

lemma Set_ok_length:
  assumes inv: "map_inv m" and room: "length (buckets m) \<le> 2 ^ 31"
  shows "\<exists>m'. Set m key v = Some m' \<and> map_inv m' \<and> lookup m' = (lookup m)(key \<mapsto> v) \<and>
    (mcount m < 3 * 2 ^ 29 \<longrightarrow> length (buckets m') \<le> 2 ^ 31)"
proof -
  have roomy_inv: "roomy k r x \<Longrightarrow> map_inv x" for k r and x :: "'a Uint32Map"
    by (auto simp: roomy_def map_inv_def table_ok_def)
  have done_: ?thesis if "Set m key v = Set_n (Suc d) x key v" "roomy k (Suc r) x" "lookup x = lookup m"
    "mcount m < 3 * 2 ^ 29 \<longrightarrow> length (buckets x) \<le> 2 ^ 31" for x d k r
    using Set_n_roomy [OF that(2), of d key v] that(1,3,4) roomy_inv by fastforce
  show ?thesis
  proof (cases "buckets m = []")
    case True
    define x where "x = m\<lparr>buckets := replicate 16 empty_bucket, mmask := 15\<rparr>"
    have "roomy 4 (Suc 0) x"
      using fresh_table [of 16 4] inv True by (simp add: roomy_def x_def map_inv_def used_count_def)
    moreover have "lookup x = lookup m"
      using fresh_table(3) [of 16 4] True by (simp add: lookup_def x_def entries_of_def)
    moreover have "mcount m < 3 * 2 ^ 29 \<longrightarrow> length (buckets x) \<le> 2 ^ 31" by (simp add: x_def)
    moreover have "Set m key v = Set_n (Suc 0) x key v"
    proof -
      have "mcount x < 12" "length (buckets x) = 16" "buckets x \<noteq> []"
        using inv True by (auto simp: x_def map_inv_def used_count_def)
      then have "Set_n (Suc 0) x key v = set_probe x key v" by simp
      moreover have "Set m key v = set_probe x key v"
        using True by (simp add: Set_def numeral_2_eq_2 x_def)
      ultimately show ?thesis by simp
    qed
    ultimately show ?thesis using done_ by blast
  next
    case False
    with inv obtain k where k: "2 \<le> k" "k \<le> 32" and t: "table_ok k (buckets m)"
      and mk: "mmask m = of_nat (2 ^ k - 1)" and cnt: "mcount m \<le> 2 ^ k * 3 div 4"
      and cn: "mcount m = used_count (buckets m)" by (auto simp: map_inv_def table_ok_def)
    have N: "length (buckets m) = 2 ^ k" using t by (simp add: table_ok_def)
    have "(2::nat) ^ k \<le> 2 ^ 31" using room N by simp
    then have k32: "k < 32" using power_le_imp_le_exp [of "2::nat" k 31] by simp
    show ?thesis
    proof (cases "mcount m \<ge> length (buckets m) * 3 div 4")
      case True
      from grow_n_ok [OF t k(1) k32, of 0] cnt cn obtain x where
        x: "grow_n (Suc 0) m = Some x" "roomy (Suc k) 1 x" "lookup x = lookup m" "length (buckets x) = 2 ^ Suc k"
        by auto
      have "Set m key v = set_probe x key v"
        using False True x(1) by (simp add: Set_def numeral_2_eq_2)
      also have "\<dots> = Set_n (Suc 0) x key v"
        using x(2,4) by (auto simp: roomy_def)
      finally have eq: "Set m key v = Set_n (Suc 0) x key v" .
      have "length (buckets x) \<le> 2 ^ 31" if "mcount m < 3 * 2 ^ 29"
      proof -
        have "(2::nat) ^ k * 3 div 4 < 3 * 2 ^ 29" using True N that by simp
        then have "(2::nat) ^ k < 2 ^ 31" using k(1) by (cases "k < 31") (auto simp: not_less dest: power_increasing [of 31 k "2::nat"])
        then have "Suc k \<le> 31" using power_less_imp_less_exp [of "2::nat" k 31] by simp
        then show ?thesis using x(4) power_increasing [of "Suc k" 31 "2::nat"] by simp
      qed
      then show ?thesis by (intro done_ [OF eq _ x(3)]) (use x(2) in simp_all)
    next
      case nf: False
      have "roomy k (Suc 0) m" using k t mk cn cnt nf N by (simp add: roomy_def)
      then show ?thesis by (rule done_ [rotated]) (use room in \<open>simp_all add: Set_def numeral_2_eq_2\<close>)
    qed
  qed
qed

theorem Set_ok:
  assumes "map_inv m" "length (buckets m) \<le> 2 ^ 31"
  shows "\<exists>m'. Set m key v = Some m' \<and> map_inv m' \<and> lookup m' = (lookup m)(key \<mapsto> v)"
  using Set_ok_length [OF assms, of key v] by blast

section \<open>The other operations\<close>

lemma map_inv_empty: "map_inv empty_map" "lookup empty_map = Map.empty"
  by (simp_all add: map_inv_def empty_map_def used_count_def lookup_def entries_of_def)

lemma Clear_ok:
  assumes "map_inv m"
  shows "map_inv (Clear m) \<and> lookup (Clear m) = Map.empty \<and> length (buckets (Clear m)) = length (buckets m)"
proof (cases "buckets m = []")
  case True
  then show ?thesis using assms by (simp add: Clear_def map_inv_def used_count_def lookup_def entries_of_def)
next
  case False
  with assms obtain k where k: "2 \<le> k" "k \<le> 32" "table_ok k (buckets m)" "mmask m = of_nat (2 ^ k - 1)"
    by (auto simp: map_inv_def)
  then show ?thesis
    using fresh_table [of "length (buckets m)" k]
    by (auto simp: Clear_def map_inv_def lookup_def table_ok_def)
qed

lemma Len_ok: "map_inv m \<Longrightarrow> Len m = card (dom (lookup m))"
proof (cases "buckets m = []")
  case True
  then show "map_inv m \<Longrightarrow> ?thesis" by (simp add: Len_def map_inv_def used_count_def lookup_def entries_of_def)
next
  case False
  assume inv: "map_inv m"
  with False have "keys_once (buckets m)" by (auto simp: map_inv_def table_ok_def)
  from distinct_card [OF keys_once_distinct [OF this]] show ?thesis
    using inv by (simp add: Len_def map_inv_def lookup_def entries_of_def dom_map_of_conv_image_fst
        image_image used_count_def)
qed

text \<open>\<open>ForEach\<close> visits every binding once.\<close>

lemma ForEach_entries: "ForEach fn m s = fold (\<lambda>(k, v) s. fn s k v) (entries_of (buckets m)) s"
proof -
  have "fold (\<lambda>b s. if bused b then fn s (bkey b) (bvalue b) else s) bs s =
      fold (\<lambda>(k, v) s. fn s k v) (entries_of bs) s" for bs s
    by (induction bs arbitrary: s) (auto simp: entries_of_def)
  then show ?thesis by (simp add: ForEach_def)
qed

lemma ForEach_distinct:
  assumes "map_inv m"
  shows "distinct (map fst (entries_of (buckets m)))" "set (entries_of (buckets m)) = {(k, v). lookup m k = Some v}"
proof -
  show d: "distinct (map fst (entries_of (buckets m)))"
    using assms keys_once_distinct [of "buckets m"]
    by (cases "buckets m = []") (auto simp: map_inv_def table_ok_def entries_of_def comp_def)
  show "set (entries_of (buckets m)) = {(k, v). lookup m k = Some v}"
    using d by (auto simp: lookup_def)
qed

section \<open>The table as a bounded map\<close>

text \<open>Room for \<open>n\<close> further keys in a table without nil pointers; the clients store none.\<close>

definition map_room :: "nat \<Rightarrow> 'v Uint32Map \<Rightarrow> bool" where
  "map_room n m \<longleftrightarrow> map_inv m \<and> length (buckets m) \<le> 2 ^ 31 \<and> mcount m + n \<le> 3 * 2 ^ 29 \<and>
     (\<forall>k. lookup m k \<noteq> Some None)"

text \<open>The pointers stored in a table; a nil pointer reads like a missing key.\<close>

definition mapping_of :: "'v Uint32Map \<Rightarrow> u32 \<rightharpoonup> 'v" where
  "mapping_of m k = (case lookup m k of None \<Rightarrow> None | Some v \<Rightarrow> v)"

lemma map_room_empty: "n \<le> 3 * 2 ^ 29 \<Longrightarrow> map_room n empty_map" "mapping_of empty_map = Map.empty"
  by (simp_all add: map_room_def mapping_of_def map_inv_empty fun_eq_iff) (simp_all add: empty_map_def)

lemma map_room_mono: "map_room n m \<Longrightarrow> k \<le> n \<Longrightarrow> map_room k m"
  by (simp add: map_room_def)

lemma count_insert:
  assumes "map_inv m" "map_inv m'" "lookup m' = (lookup m)(k \<mapsto> v)"
  shows "mcount m' \<le> Suc (mcount m)"
proof -
  have "finite (dom (lookup m))" by (simp add: lookup_def finite_dom_map_of)
  then have "card (dom (lookup m')) \<le> Suc (card (dom (lookup m)))"
    using assms(3) by (simp add: card_insert_if)
  then show ?thesis using Len_ok [OF assms(1)] Len_ok [OF assms(2)] by (simp add: Len_def)
qed

interpretation fm: map_store Get "\<lambda>m k v. Set m k (Some v)" map_room mapping_of
proof
  show "Get m k = Some (mapping_of m k)" if "map_room n m" for n k and m :: "'v Uint32Map"
    using that Get_ok [of m k] by (simp add: map_room_def mapping_of_def)
next
  fix n k v and m :: "'v Uint32Map" assume room: "map_room (Suc n) m"
  then have "map_inv m" "length (buckets m) \<le> 2 ^ 31" by (simp_all add: map_room_def)
  from Set_ok_length [OF this, of k "Some v"] obtain m' where
    m': "Set m k (Some v) = Some m'" "map_inv m'" "lookup m' = (lookup m)(k \<mapsto> Some v)" "length (buckets m') \<le> 2 ^ 31"
    using room by (auto simp: map_room_def)
  then have "map_room n m'"
    using room count_insert [of m m' k "Some v"] by (simp add: map_room_def)
  then show "\<exists>m'. Set m k (Some v) = Some m' \<and> map_room n m' \<and> mapping_of m' = (mapping_of m)(k \<mapsto> v)"
    using m' by (auto simp: mapping_of_def fun_eq_iff)
qed

end
