(* ===== verification/Meta.thy ===== *)
theory Meta
  imports Page
begin

text \<open>
  meta.go, the tree codec of txn.go and \<open>updateMeta\<close>: the tree record, the meta page as the record the
  code casts its bytes to, the choice of the current meta among the three (\<open>newMetaTriple\<close>), and the
  commit of a new meta as the sequence of states that the file or the mapping goes through.  A pair of
  \<open>uint32\<close> words is a pair; little-endian host order is assumed for the casts.
\<close>

section \<open>Tree records\<close>

record tree =
  tFlags :: u16
  Height :: u16
  DupfixSize :: u32
  Root :: u32
  BranchPages :: u32
  LeafPages :: u32
  LargePages :: u32
  Sequence :: u64
  Items :: u64
  ModTxnid :: u64

definition isEmpty :: "tree \<Rightarrow> bool" where
  "isEmpty t \<longleftrightarrow> Root t = invalidPgno \<or> Items t = 0"
definition isDupSort :: "tree \<Rightarrow> bool" where "isDupSort t \<longleftrightarrow> tFlags t AND treeFlagDupSort \<noteq> 0"
definition isDupFixed :: "tree \<Rightarrow> bool" where "isDupFixed t \<longleftrightarrow> tFlags t AND treeFlagDupFixed \<noteq> 0"
definition isIntegerKey :: "tree \<Rightarrow> bool" where "isIntegerKey t \<longleftrightarrow> tFlags t AND treeFlagIntegerKey \<noteq> 0"
definition isReverseKey :: "tree \<Rightarrow> bool" where "isReverseKey t \<longleftrightarrow> tFlags t AND treeFlagReverseKey \<noteq> 0"

definition totalPages :: "tree \<Rightarrow> u64" where
  "totalPages t = ucast (BranchPages t) + ucast (LeafPages t) + ucast (LargePages t)"

definition reset_tree :: "tree \<Rightarrow> tree" where
  "reset_tree t = t\<lparr>Root := invalidPgno, Height := 0, BranchPages := 0, LeafPages := 0,
                    LargePages := 0, Items := 0\<rparr>"

text \<open>\<open>data[a:b]\<close> is taken before each store, so that a short buffer panics there.\<close>

definition put16 :: "nat \<Rightarrow> u16 \<Rightarrow> bytes \<Rightarrow> bytes option" where
  "put16 a v d = do { slice d (int a) (int (a + 2)); putUint16LE d (int a) v }"
definition put32 :: "nat \<Rightarrow> u32 \<Rightarrow> bytes \<Rightarrow> bytes option" where
  "put32 a v d = do { slice d (int a) (int (a + 4)); putUint32LE d (int a) v }"
definition put64 :: "nat \<Rightarrow> u64 \<Rightarrow> bytes \<Rightarrow> bytes option" where
  "put64 a v d = do { slice d (int a) (int (a + 8)); putUint64LE d (int a) v }"

definition serializeTreeToBuf :: "tree \<Rightarrow> bytes \<Rightarrow> bytes option" where
  "serializeTreeToBuf t data =
     do { d \<leftarrow> put16 0 (tFlags t) data; d \<leftarrow> put16 2 (Height t) d; d \<leftarrow> put32 4 (DupfixSize t) d;
          d \<leftarrow> put32 8 (Root t) d; d \<leftarrow> put32 12 (BranchPages t) d; d \<leftarrow> put32 16 (LeafPages t) d;
          d \<leftarrow> put32 20 (LargePages t) d; d \<leftarrow> put64 24 (Sequence t) d; d \<leftarrow> put64 32 (Items t) d;
          put64 40 (ModTxnid t) d }"

definition serializeTreeToBytes :: "tree \<Rightarrow> bytes option" where
  "serializeTreeToBytes t = serializeTreeToBuf t (replicate 48 0)"

definition tree_at :: "bytes \<Rightarrow> nat \<Rightarrow> tree" where
  "tree_at d a = \<lparr>tFlags = g16 d a, Height = g16 d (a + 2), DupfixSize = g32 d (a + 4), Root = g32 d (a + 8),
     BranchPages = g32 d (a + 12), LeafPages = g32 d (a + 16), LargePages = g32 d (a + 20),
     Sequence = g64 d (a + 24), Items = g64 d (a + 32), ModTxnid = g64 d (a + 40)\<rparr>"

definition parseTreeFromBytes :: "bytes \<Rightarrow> tree option" where
  "parseTreeFromBytes data = (if length data < 48 then None else Some (tree_at data 0))"

section \<open>Geometry\<close>

record geo =
  GrowPV :: u16
  ShrinkPV :: u16
  Lower :: u32
  DBPgsize :: u32
  Now :: u32
  Next :: u32

definition sizeBytes :: "geo \<Rightarrow> u64 \<Rightarrow> u64" where "sizeBytes g ps = ucast (Now g) * ps"
definition minSizeBytes :: "geo \<Rightarrow> u64 \<Rightarrow> u64" where "minSizeBytes g ps = ucast (Lower g) * ps"
definition maxSizeBytes :: "geo \<Rightarrow> u64 \<Rightarrow> u64" where "maxSizeBytes g ps = ucast (Next g) * ps"

section \<open>The meta page\<close>

type_synonym u32x2 = "u32 \<times> u32"

record canary = cX :: u64  cY :: u64  cZ :: u64  cV :: u64

record meta =
  MagicAndVersion :: u32x2
  TxnidA :: u32x2
  Reserve16 :: u16
  ValidatorID :: u8
  ExtraPageHdr :: u8
  Geometry :: geo
  GCTree :: tree
  MainTree :: tree
  Canary :: canary
  Sign :: u32x2
  TxnidB :: u32x2
  PagesRetired :: u32x2
  BootID :: bytes
  DXBID :: bytes

definition g32x2 :: "bytes \<Rightarrow> nat \<Rightarrow> u32x2" where "g32x2 d a = (g32 d a, g32 d (a + 4))"

text \<open>The cast of the bytes to the structure, at the offsets of the layout table.\<close>

definition meta_at :: "bytes \<Rightarrow> meta" where
  "meta_at d = \<lparr>MagicAndVersion = g32x2 d 0, TxnidA = g32x2 d 8, Reserve16 = g16 d 16,
     ValidatorID = d ! 18, ExtraPageHdr = d ! 19,
     Geometry = \<lparr>GrowPV = g16 d 20, ShrinkPV = g16 d 22, Lower = g32 d 24, DBPgsize = g32 d 28,
                 Now = g32 d 32, Next = g32 d 36\<rparr>,
     GCTree = tree_at d 40, MainTree = tree_at d 88,
     Canary = \<lparr>cX = g64 d 136, cY = g64 d 144, cZ = g64 d 152, cV = g64 d 160\<rparr>,
     Sign = g32x2 d 168, TxnidB = g32x2 d 176, PagesRetired = g32x2 d 184,
     BootID = take 16 (drop 192 d), DXBID = take 16 (drop 208 d)\<rparr>"

definition errMetaTooSmall :: goerror where "errMetaTooSmall = pageError ''meta page too small''"
definition errMetaInvalidMagic :: goerror where "errMetaInvalidMagic = pageError ''invalid magic number''"
definition errMetaInvalidVersion :: goerror where "errMetaInvalidVersion = pageError ''invalid format version''"
definition errMetaInconsistent :: goerror where
  "errMetaInconsistent = pageError ''meta page inconsistent (incomplete write)''"
definition errMetaNoValid :: goerror where "errMetaNoValid = pageError ''no valid meta page found''"

text \<open>A slice of 220 to 223 bytes passes the length check but is shorter than the 224-byte structure.\<close>

definition readMeta :: "bytes \<Rightarrow> (goerror + meta) option" where
  "readMeta d =
     (if length d < 220 then Some (Inl errMetaTooSmall)
      else if length d < 224 then None
      else Some (Inr (meta_at d)))"

definition pair64 :: "u32x2 \<Rightarrow> u64" where "pair64 p = le64 (fst p) (snd p)"
definition split64 :: "u64 \<Rightarrow> u32x2" where "split64 v = (ucast v, ucast (drop_bit 32 v))"

definition magicValid :: "meta \<Rightarrow> bool" where
  "magicValid m \<longleftrightarrow> drop_bit 8 (pair64 (MagicAndVersion m)) = metaMagic"
definition version :: "meta \<Rightarrow> u8" where "version m = ucast (fst (MagicAndVersion m))"
definition txnidASafe :: "meta \<Rightarrow> u64" where "txnidASafe m = pair64 (TxnidA m)"
definition txnidBSafe :: "meta \<Rightarrow> u64" where "txnidBSafe m = pair64 (TxnidB m)"
definition txnID :: "meta \<Rightarrow> u64" where "txnID m = pair64 (TxnidA m)"
definition setTxnid :: "meta \<Rightarrow> u64 \<Rightarrow> meta" where
  "setTxnid m tid = m\<lparr>TxnidA := split64 tid, TxnidB := split64 tid\<rparr>"
definition isConsistent :: "meta \<Rightarrow> bool" where "isConsistent m \<longleftrightarrow> txnidASafe m = txnidBSafe m"
definition isWeak :: "meta \<Rightarrow> bool" where "isWeak m \<longleftrightarrow> pair64 (Sign m) \<le> 1"
definition isSteady :: "meta \<Rightarrow> bool" where "isSteady m \<longleftrightarrow> \<not> isWeak m"
definition setSignWeak :: "meta \<Rightarrow> meta" where "setSignWeak m = m\<lparr>Sign := split64 datasignWeak\<rparr>"
definition setSignSteady :: "meta \<Rightarrow> meta" where "setSignSteady m = m\<lparr>Sign := (0xFFFFFFFF, 0xFFFFFFFF)\<rparr>"
definition meta_pageSize :: "meta \<Rightarrow> u32" where "meta_pageSize m = DupfixSize (GCTree m)"

definition validate_meta :: "meta \<Rightarrow> goerror option" where
  "validate_meta m =
     (if \<not> magicValid m then Some errMetaInvalidMagic
      else if version m < 2 \<or> version m > ucast metaDataVersion then Some errMetaInvalidVersion
      else if \<not> isConsistent m then Some errMetaInconsistent
      else None)"

definition beginMetaUpdate :: "meta \<Rightarrow> u64 \<Rightarrow> meta" where
  "beginMetaUpdate m tid = m\<lparr>TxnidA := split64 tid, TxnidB := (0, 0)\<rparr>"
definition endMetaUpdate :: "meta \<Rightarrow> u64 \<Rightarrow> meta" where
  "endMetaUpdate m tid = m\<lparr>TxnidB := split64 tid\<rparr>"

text \<open>\<open>bootid\<close> is what \<open>rand.Read\<close> produces.\<close>

definition initMeta :: "meta \<Rightarrow> u32 \<Rightarrow> u64 \<Rightarrow> bytes \<Rightarrow> meta" where
  "initMeta m pageSize tid bootid =
     (let m = m\<lparr>MagicAndVersion := split64 metaDataMagic\<rparr>;
          m = setTxnid m tid;
          m = m\<lparr>Geometry := \<lparr>GrowPV = 0x0180, ShrinkPV = 0x0300, Lower = of_nat numMetas, DBPgsize = 0x1800000,
                             Now = of_nat numMetas, Next = of_nat numMetas\<rparr>\<rparr>;
          m = m\<lparr>GCTree := (GCTree m)\<lparr>tFlags := treeFlagIntegerKey, DupfixSize := pageSize, Root := invalidPgno\<rparr>,
                MainTree := (MainTree m)\<lparr>Root := invalidPgno\<rparr>\<rparr>;
          m = setSignSteady m
      in m\<lparr>BootID := bootid\<rparr>)"

section \<open>The three meta pages\<close>

record metaTriple =
  metas :: "meta option list"
  txnids :: "u64 list"
  recent :: int
  steady :: int

text \<open>The loop over the three pages; \<open>wipe\<close> says whether an invalid page clears its slot.\<close>

definition meta_step :: "bool \<Rightarrow> nat \<Rightarrow> bytes \<Rightarrow> metaTriple \<times> u64 \<times> u64 \<Rightarrow> (metaTriple \<times> u64 \<times> u64) option" where
  "meta_step wipe i d st =
     (let (mt, maxT, maxS) = st;
          skip = (if wipe then mt\<lparr>metas := (metas mt)[i := None], txnids := (txnids mt)[i := 0]\<rparr> else mt)
      in
      do { r \<leftarrow> readMeta d;
           case r of
             Inl e \<Rightarrow> Some (skip, maxT, maxS)
           | Inr m \<Rightarrow>
               if validate_meta m \<noteq> None then Some (skip, maxT, maxS)
               else
                 let mt = mt\<lparr>metas := (metas mt)[i := Some m], txnids := (txnids mt)[i := txnID m]\<rparr>;
                     (mt, maxT) = (if txnids mt ! i > maxT then (mt\<lparr>recent := int i\<rparr>, txnids mt ! i) else (mt, maxT));
                     (mt, maxS) = (if isSteady m \<and> txnids mt ! i > maxS
                                   then (mt\<lparr>steady := int i\<rparr>, txnids mt ! i) else (mt, maxS))
                 in Some (mt, maxT, maxS) })"

fun meta_loop :: "bool \<Rightarrow> nat \<Rightarrow> bytes list \<Rightarrow> metaTriple \<times> u64 \<times> u64 \<Rightarrow> (metaTriple \<times> u64 \<times> u64) option" where
  "meta_loop wipe i [] st = Some st"
| "meta_loop wipe i (d # ds) st = do { st' \<leftarrow> meta_step wipe i d st; meta_loop wipe (Suc i) ds st' }"

definition newMetaTriple :: "bytes list \<Rightarrow> (goerror + metaTriple) option" where
  "newMetaTriple pages =
     (let mt = \<lparr>metas = replicate numMetas None, txnids = replicate numMetas 0, recent = -1, steady = -1\<rparr> in
      do { (mt, _, _) \<leftarrow> meta_loop False 0 pages (mt, 0, 0);
           Some (if recent mt < 0 then Inl errMetaNoValid
                 else Inr (if steady mt < 0 then mt\<lparr>steady := recent mt\<rparr> else mt)) })"

definition updateFromPages :: "metaTriple \<Rightarrow> bytes list \<Rightarrow> (metaTriple \<times> goerror option) option" where
  "updateFromPages mt pages =
     do { (mt, _, _) \<leftarrow> meta_loop True 0 pages (mt\<lparr>recent := -1, steady := -1\<rparr>, 0, 0);
          Some (if recent mt < 0 then (mt, Some errMetaNoValid)
                else (if steady mt < 0 then mt\<lparr>steady := recent mt\<rparr> else mt, None)) }"

definition recentMeta :: "metaTriple \<Rightarrow> meta option" where
  "recentMeta mt = (if recent mt < 0 then None else metas mt ! nat (recent mt))"
definition steadyMeta :: "metaTriple \<Rightarrow> meta option" where
  "steadyMeta mt = (if steady mt < 0 then None else metas mt ! nat (steady mt))"

definition nextMetaIndex :: "metaTriple \<Rightarrow> nat" where
  "nextMetaIndex mt =
     fst (fold (\<lambda>i (minIdx, minTxnid). if txnids mt ! i < minTxnid then (i, txnids mt ! i) else (minIdx, minTxnid))
            [1..<numMetas] (0, txnids mt ! 0))"

section \<open>Round trips\<close>

lemma put_simps [byte_simps]:
  "a + 2 \<le> length d \<Longrightarrow> put16 a v d = Some (blit d a (enc16 v))"
  "a + 4 \<le> length d \<Longrightarrow> put32 a w d = Some (blit d a (enc32 w))"
  "a + 8 \<le> length d \<Longrightarrow> put64 a x d = Some (blit d a (enc64 x))"
  by (simp_all add: put16_def put32_def put64_def slice_def putUint16LE_def putUint32LE_def putUint64LE_def)

text \<open>The bytes of a tree record, and of a meta structure: what the cast of \<open>meta_at\<close> inverts.\<close>

definition tree_bytes :: "tree \<Rightarrow> bytes" where
  "tree_bytes t = enc16 (tFlags t) @ enc16 (Height t) @ enc32 (DupfixSize t) @ enc32 (Root t) @
     enc32 (BranchPages t) @ enc32 (LeafPages t) @ enc32 (LargePages t) @ enc64 (Sequence t) @
     enc64 (Items t) @ enc64 (ModTxnid t)"

definition geo_bytes :: "geo \<Rightarrow> bytes" where
  "geo_bytes g = enc16 (GrowPV g) @ enc16 (ShrinkPV g) @ enc32 (Lower g) @ enc32 (DBPgsize g) @
     enc32 (Now g) @ enc32 (Next g)"

definition enc32x2 :: "u32x2 \<Rightarrow> bytes" where "enc32x2 p = enc32 (fst p) @ enc32 (snd p)"

definition canary_bytes :: "canary \<Rightarrow> bytes" where
  "canary_bytes c = enc64 (cX c) @ enc64 (cY c) @ enc64 (cZ c) @ enc64 (cV c)"

definition meta_bytes :: "meta \<Rightarrow> bytes" where
  "meta_bytes m = enc32x2 (MagicAndVersion m) @ enc32x2 (TxnidA m) @ enc16 (Reserve16 m) @ [ValidatorID m, ExtraPageHdr m] @
     geo_bytes (Geometry m) @ tree_bytes (GCTree m) @ tree_bytes (MainTree m) @
     canary_bytes (Canary m) @ enc32x2 (Sign m) @ enc32x2 (TxnidB m) @ enc32x2 (PagesRetired m) @
     BootID m @ DXBID m"

definition meta_wf :: "meta \<Rightarrow> bool" where
  "meta_wf m \<longleftrightarrow> length (BootID m) = 16 \<and> length (DXBID m) = 16"

lemma length_parts [simp]: "length (tree_bytes t) = 48" "length (geo_bytes g) = 20"
  "length (enc32x2 p) = 8" "length (canary_bytes c) = 32"
  by (simp_all add: tree_bytes_def geo_bytes_def enc32x2_def canary_bytes_def)

lemma length_meta_bytes: "meta_wf m \<Longrightarrow> length (meta_bytes m) = 224"
  by (simp add: meta_bytes_def meta_wf_def)

lemma nth_skip: "length a \<le> i \<Longrightarrow> (a @ r) ! (i + k) = r ! (i - length a + k)"
  by (simp add: nth_append)

lemma g_skip:
  assumes "length a \<le> i"
  shows "g16 (a @ r) i = g16 r (i - length a)" "g32 (a @ r) i = g32 r (i - length a)"
    "g64 (a @ r) i = g64 r (i - length a)"
  using nth_skip [OF assms, of _ 0] nth_skip [OF assms, of r] 
  by (simp_all only: g16_def g32_def g64_def add_0_right add.assoc)

lemma g_here: "g16 (enc16 v @ r) 0 = v" "g32 (enc32 w @ r) 0 = w" "g64 (enc64 x @ r) 0 = x"
proof -
  show "g16 (enc16 v @ r) 0 = v" by (simp add: g16_def enc16_def)
  show "g32 (enc32 w @ r) 0 = w" for w r by (simp add: g32_def enc32_def numeral_2_eq_2 numeral_3_eq_3)
  then have "g32 (enc64 x @ r) 0 = ucast x" "g32 (enc64 x @ r) 4 = ucast (drop_bit 32 x)"
    by (simp_all add: enc64_def g_skip)
  then show "g64 (enc64 x @ r) 0 = x" by (simp add: g64_def)
qed

lemma g_here_end: "g64 (enc64 x) 0 = x" using g_here(3) [of x "[]"] by simp

lemma tree_at_bytes: "tree_at (tree_bytes t @ r) 0 = t"
  by (simp add: tree_at_def tree_bytes_def g_skip g_here)

lemma tree_at_skip: "length a \<le> i \<Longrightarrow> tree_at (a @ r) i = tree_at r (i - length a)"
proof -
  assume "length a \<le> i"
  then obtain k where "i = length a + k" using le_Suc_ex by blast
  then show ?thesis by (simp add: tree_at_def g_skip)
qed

lemma blit_skip: "length a \<le> off \<Longrightarrow> blit (a @ r) off s = a @ blit r (off - length a) s"
  by (auto simp: blit_def add.commute)

lemma blit_0: "length s \<le> length r \<Longrightarrow> blit r 0 s = s @ drop (length s) r"
  by (simp add: blit_def)

lemma serializeTreeToBuf_eq:
  assumes "48 \<le> length d"
  shows "serializeTreeToBuf t d = Some (tree_bytes t @ drop 48 d)"
  using assms
  by (simp add: serializeTreeToBuf_def put_simps blit_skip blit_0 tree_bytes_def)

lemma serialize_parse:
  assumes "48 \<le> length d"
  shows "\<exists>d'. serializeTreeToBuf t d = Some d' \<and> length d' = length d \<and> parseTreeFromBytes d' = Some t \<and>
    drop 48 d' = drop 48 d"
  using assms serializeTreeToBuf_eq [OF assms, of t] tree_at_bytes [of t "drop 48 d"]
  by (simp add: parseTreeFromBytes_def)

lemma g32x2_skip: "length a \<le> i \<Longrightarrow> g32x2 (a @ r) i = g32x2 r (i - length a)"
  by (auto simp: g32x2_def g_skip dest: le_Suc_ex)

lemma g32x2_here: "g32x2 (enc32x2 p @ r) 0 = p"
  by (simp add: g32x2_def enc32x2_def g_skip g_here)

lemma geo_here: "\<lparr>GrowPV = g16 (geo_bytes g @ r) 0, ShrinkPV = g16 (geo_bytes g @ r) 2,
    Lower = g32 (geo_bytes g @ r) 4, DBPgsize = g32 (geo_bytes g @ r) 8,
    Now = g32 (geo_bytes g @ r) 12, Next = g32 (geo_bytes g @ r) 16\<rparr> = g"
  by (simp add: geo_bytes_def g_skip g_here)

lemma canary_here: "\<lparr>cX = g64 (canary_bytes c @ r) 0, cY = g64 (canary_bytes c @ r) 8,
    cZ = g64 (canary_bytes c @ r) 16, cV = g64 (canary_bytes c @ r) 24\<rparr> = c"
  by (simp add: canary_bytes_def g_skip g_here)

lemma meta_roundtrip: "meta_wf m \<Longrightarrow> meta_at (meta_bytes m @ r) = m"
  by (simp add: meta_at_def meta_bytes_def meta_wf_def g32x2_skip g32x2_here g_skip(1) g_here(1)
      g_skip tree_at_skip tree_at_bytes geo_here canary_here nth_append
      del: append.simps)

section \<open>The choice among the three pages\<close>

definition sized :: "bytes \<Rightarrow> bool" where "sized d \<longleftrightarrow> length d < 220 \<or> 224 \<le> length d"

definition valid_meta :: "bytes \<Rightarrow> meta option" where
  "valid_meta d = (case readMeta d of
     Some (Inr m) \<Rightarrow> if validate_meta m = None then Some m else None | _ \<Rightarrow> None)"

definition tx_of :: "meta option \<Rightarrow> u64" where
  "tx_of x = (case x of None \<Rightarrow> 0 | Some m \<Rightarrow> txnID m)"
definition steady_tx_of :: "meta option \<Rightarrow> u64" where
  "steady_tx_of x = (case x of None \<Rightarrow> 0 | Some m \<Rightarrow> if isSteady m then txnID m else 0)"

text \<open>The first index of the largest value above the start value; the start index if there is none.\<close>

fun argmax_from :: "nat \<Rightarrow> u64 list \<Rightarrow> int \<times> u64 \<Rightarrow> int \<times> u64" where
  "argmax_from i [] st = st"
| "argmax_from i (t # ts) st = argmax_from (Suc i) ts (if t > snd st then (int i, t) else st)"

definition triple_of :: "meta option list \<Rightarrow> goerror + metaTriple" where
  "triple_of ms =
     (let r = fst (argmax_from 0 (map tx_of ms) (-1, 0)); s = fst (argmax_from 0 (map steady_tx_of ms) (-1, 0)) in
      if r < 0 then Inl errMetaNoValid
      else Inr \<lparr>metas = ms, txnids = map tx_of ms, recent = r, steady = if s < 0 then r else s\<rparr>)"

lemma meta_step_eq:
  assumes "sized d" "i < length (metas mt)" "i < length (txnids mt)"
    and "wipe \<or> metas mt ! i = None \<and> txnids mt ! i = 0"
  shows "meta_step wipe i d (mt, maxT, maxS) =
    (let v = valid_meta d;
         rT = (if tx_of v > maxT then (int i, tx_of v) else (recent mt, maxT));
         sT = (if steady_tx_of v > maxS then (int i, steady_tx_of v) else (steady mt, maxS)) in
     Some (mt\<lparr>metas := (metas mt)[i := v], txnids := (txnids mt)[i := tx_of v],
              recent := fst rT, steady := fst sT\<rparr>, snd rT, snd sT))"
proof -
  obtain r where r: "readMeta d = Some r" using assms(1) by (auto simp: readMeta_def sized_def)
  have keep: "(metas mt)[i := None] = metas mt" "(txnids mt)[i := 0] = txnids mt" if "\<not> wipe"
    using assms(4) that by (metis list_update_id)+
  show ?thesis
    using assms(2,3) keep
    by (cases r; cases wipe) (auto simp: meta_step_def r valid_meta_def Let_def tx_of_def steady_tx_of_def)
qed

lemma meta_loop_eq:
  assumes "\<And>d. d \<in> set ds \<Longrightarrow> sized d"
    and "length (metas mt) = i + length ds" "length (txnids mt) = i + length ds"
    and "\<And>j. i \<le> j \<Longrightarrow> j < i + length ds \<Longrightarrow> wipe \<or> metas mt ! j = None \<and> txnids mt ! j = 0"
  shows "meta_loop wipe i ds (mt, maxT, maxS) =
    (let ms = map valid_meta ds; rT = argmax_from i (map tx_of ms) (recent mt, maxT);
         sT = argmax_from i (map steady_tx_of ms) (steady mt, maxS) in
     Some (mt\<lparr>metas := take i (metas mt) @ ms, txnids := take i (txnids mt) @ map tx_of ms,
              recent := fst rT, steady := fst sT\<rparr>, snd rT, snd sT))"
  using assms
proof (induction ds arbitrary: i mt maxT maxS)
  case (Cons d ds)
  let ?v = "valid_meta d"
  define rT where "rT = (if tx_of ?v > maxT then (int i, tx_of ?v) else (recent mt, maxT))"
  define sT where "sT = (if steady_tx_of ?v > maxS then (int i, steady_tx_of ?v) else (steady mt, maxS))"
  define m1 where "m1 = mt\<lparr>metas := (metas mt)[i := ?v], txnids := (txnids mt)[i := tx_of ?v],
              recent := fst rT, steady := fst sT\<rparr>"
  have st: "meta_step wipe i d (mt, maxT, maxS) = Some (m1, snd rT, snd sT)"
    using meta_step_eq [of d i mt wipe maxT maxS] Cons.prems
    by (simp add: rT_def sT_def m1_def Let_def)
  have IH: "meta_loop wipe (Suc i) ds (m1, snd rT, snd sT) =
    (let ms = map valid_meta ds; rT' = argmax_from (Suc i) (map tx_of ms) (recent m1, snd rT);
         sT' = argmax_from (Suc i) (map steady_tx_of ms) (steady m1, snd sT) in
     Some (m1\<lparr>metas := take (Suc i) (metas m1) @ ms, txnids := take (Suc i) (txnids m1) @ map tx_of ms,
              recent := fst rT', steady := fst sT'\<rparr>, snd rT', snd sT'))"
    by (rule Cons.IH) (use Cons.prems in \<open>auto simp: m1_def\<close>)
  have tk: "take (Suc i) ((metas mt)[i := ?v]) = take i (metas mt) @ [?v]"
    "take (Suc i) ((txnids mt)[i := tx_of ?v]) = take i (txnids mt) @ [tx_of ?v]"
    using Cons.prems(2,3) by (simp_all add: take_Suc_conv_app_nth)
  show ?case
    by (simp add: st IH Let_def) (simp add: m1_def tk rT_def sT_def)
qed simp

theorem newMetaTriple_eq:
  assumes "length pages = 3" "\<And>d. d \<in> set pages \<Longrightarrow> sized d"
  shows "newMetaTriple pages = Some (triple_of (map valid_meta pages))"
proof -
  define mt where "mt = \<lparr>metas = replicate numMetas (None :: meta option), txnids = replicate numMetas (0 :: u64), recent = -1, steady = -1\<rparr>"
  have l: "length (metas mt) = 0 + length pages" "length (txnids mt) = 0 + length pages"
    using assms(1) by (simp_all add: mt_def numMetas_def)
  have n: "False \<or> metas mt ! j = None \<and> txnids mt ! j = 0" if "j < 0 + length pages" for j
    using that assms(1) by (auto simp: mt_def numMetas_def)
  show ?thesis
    unfolding newMetaTriple_def Let_def mt_def [symmetric]
    using meta_loop_eq [OF assms(2) l, where wipe = False and maxT = 0 and maxS = 0] n
    by (simp add: triple_of_def Let_def) (simp add: mt_def)
qed

theorem updateFromPages_eq:
  assumes "length pages = 3" "\<And>d. d \<in> set pages \<Longrightarrow> sized d" "length (metas mt) = 3" "length (txnids mt) = 3"
  shows "\<exists>mt'. updateFromPages mt pages =
    Some (case triple_of (map valid_meta pages) of Inl e \<Rightarrow> (mt', Some e) | Inr t \<Rightarrow> (metaTriple.extend t (metaTriple.more mt), None))"
proof -
  have l: "length (metas (mt\<lparr>recent := -1, steady := -1\<rparr>)) = 0 + length pages"
    "length (txnids (mt\<lparr>recent := -1, steady := -1\<rparr>)) = 0 + length pages"
    using assms by simp_all
  show ?thesis
    using meta_loop_eq [OF assms(2) l, where wipe = True and maxT = 0 and maxS = 0]
    by (cases mt) (simp add: updateFromPages_def triple_of_def Let_def metaTriple.defs)
qed

end
