(* ===== verification/SlotPool.thy ===== *)
theory SlotPool
  imports Prelude
begin

text \<open>
  The contract of an allocator of slots: what \<open>alloc\<close> hands out was free, and \<open>free\<close> gives back
  exactly the slot it is told.  The client's view is a trace of allocations and releases; the lemma
  of the locale says that in every such trace no slot is handed out while it is held.  The bitmap
  of a segment and the spill buffer as a whole are both such allocators.
\<close>

datatype 'i slot_op = Alloc 'i | Release_op 'i

fun exclusive :: "'i set \<Rightarrow> 'i slot_op list \<Rightarrow> bool" where
  "exclusive H [] \<longleftrightarrow> True"
| "exclusive H (Alloc i # ops) \<longleftrightarrow> i \<notin> H \<and> exclusive (insert i H) ops"
| "exclusive H (Release_op i # ops) \<longleftrightarrow> exclusive (H - {i}) ops"

fun held :: "'i set \<Rightarrow> 'i slot_op list \<Rightarrow> 'i set" where
  "held H [] = H"
| "held H (Alloc i # ops) = held (insert i H) ops"
| "held H (Release_op i # ops) = held (H - {i}) ops"

fun run_ops :: "('s \<Rightarrow> ('s \<times> 'i option) option) \<Rightarrow> ('s \<Rightarrow> 'i \<Rightarrow> 's option) \<Rightarrow> 's \<Rightarrow> 'i option list \<Rightarrow>
    ('s \<times> 'i slot_op list) option" where
  "run_ops alloc free s [] = Some (s, [])"
| "run_ops alloc free s (None # cmds) =
     do { (s1, r) \<leftarrow> alloc s;
          (s2, ops) \<leftarrow> run_ops alloc free s1 cmds;
          Some (s2, case r of None \<Rightarrow> ops | Some i \<Rightarrow> Alloc i # ops) }"
| "run_ops alloc free s (Some i # cmds) =
     do { s1 \<leftarrow> free s i;
          (s2, ops) \<leftarrow> run_ops alloc free s1 cmds;
          Some (s2, Release_op i # ops) }"

locale slot_pool =
  fixes alloc :: "'s \<Rightarrow> ('s \<times> 'i option) option"
    and free :: "'s \<Rightarrow> 'i \<Rightarrow> 's option"
    and live :: "'s \<Rightarrow> 'i set"
    and inv :: "'s \<Rightarrow> bool"
    and may_free :: "'s \<Rightarrow> 'i \<Rightarrow> bool"
  assumes alloc_total: "inv s \<Longrightarrow> \<exists>s' r. alloc s = Some (s', r) \<and> inv s' \<and>
      (case r of None \<Rightarrow> live s' = live s | Some i \<Rightarrow> i \<notin> live s \<and> live s' = insert i (live s))"
    and free_total: "inv s \<Longrightarrow> may_free s i \<Longrightarrow> \<exists>s'. free s i = Some s' \<and> inv s' \<and> live s' = live s - {i}"
begin

text \<open>A command list the client may run: it releases only slots it may release.\<close>

fun admissible :: "'s \<Rightarrow> 'i option list \<Rightarrow> bool" where
  "admissible s [] \<longleftrightarrow> True"
| "admissible s (None # cmds) \<longleftrightarrow> (\<forall>s1 r. alloc s = Some (s1, r) \<longrightarrow> admissible s1 cmds)"
| "admissible s (Some i # cmds) \<longleftrightarrow> may_free s i \<and> (\<forall>s1. free s i = Some s1 \<longrightarrow> admissible s1 cmds)"

lemma run_exclusive:
  "inv s \<Longrightarrow> admissible s cmds \<Longrightarrow>
   \<exists>s' ops. run_ops alloc free s cmds = Some (s', ops) \<and> inv s' \<and> exclusive (live s) ops \<and>
     live s' = held (live s) ops"
proof (induction cmds arbitrary: s)
  case (Cons c cmds)
  show ?case
  proof (cases c)
    case None
    from alloc_total [OF Cons.prems(1)] obtain s1 r where
      a: "alloc s = Some (s1, r)" "inv s1"
        "case r of None \<Rightarrow> live s1 = live s | Some i \<Rightarrow> i \<notin> live s \<and> live s1 = insert i (live s)" by blast
    with Cons None show ?thesis by (fastforce split: option.splits)
  next
    case (Some i)
    with Cons.prems free_total [of s i] obtain s1 where
      "free s i = Some s1" "inv s1" "live s1 = live s - {i}" by auto
    with Cons Some show ?thesis by fastforce
  qed
qed simp

end

end
