(* ===== verification/Bitmap.thy ===== *)
theory Bitmap
  imports SlotPool
begin

text \<open>
  spill/bitmap.go: the slot bitmap of a segment of the spill buffer.  The abstract view of a bitmap
  is the set of its allocated slots, \<open>slots b\<close>; every operation is shown to act on that set.
\<close>

record bitmap =
  words :: "u64 list"
  numSlots :: u32
  freeHint :: u32

definition NewBitmap :: "u32 \<Rightarrow> bitmap" where
  "NewBitmap n =
     (let numWords = (n + 63) div 64 in
      \<lparr>words = replicate (unat numWords) 0, numSlots = n, freeHint = 0\<rparr>)"

text \<open>\<open>bits.TrailingZeros64\<close>: the position of the lowest set bit, 64 for zero.\<close>

definition TrailingZeros64 :: "u64 \<Rightarrow> nat" where
  "TrailingZeros64 w = length (takeWhile (\<lambda>i. \<not> bit w i) [0..<64])"

definition OnesCount64 :: "u64 \<Rightarrow> nat" where
  "OnesCount64 w = length (List.filter (bit w) [0..<64])"

text \<open>The loop body for one word index; the list is the sequence of the loop counter.\<close>

fun alloc_loop :: "bitmap \<Rightarrow> u32 \<Rightarrow> u32 \<Rightarrow> u32 list \<Rightarrow> (bitmap \<times> u32 \<times> bool) option" where
  "alloc_loop b startWord numWords [] = Some (b, 0, False)"
| "alloc_loop b startWord numWords (i # is) =
     (let wordIdx = (startWord + i) mod numWords in
      if unat wordIdx < length (words b) then
        let word = words b ! unat wordIdx in
        if word \<noteq> - 1 then
          let bitPos = TrailingZeros64 (NOT word);
              slot = wordIdx * 64 + of_nat bitPos
          in
          if slot \<ge> numSlots b then alloc_loop b startWord numWords is
          else Some (b\<lparr>words := (words b)[unat wordIdx := word OR push_bit bitPos 1], freeHint := slot + 1\<rparr>,
                     slot, True)
        else alloc_loop b startWord numWords is
      else None)"

definition Allocate :: "bitmap \<Rightarrow> (bitmap \<times> u32 \<times> bool) option" where
  "Allocate b =
     (let numWords = (of_nat (length (words b)) :: u32) in
      if numWords = 0 then Some (b, 0, False)
      else alloc_loop b (freeHint b div 64) numWords (map of_nat [0..<unat numWords]))"

definition Free :: "bitmap \<Rightarrow> u32 \<Rightarrow> bitmap option" where
  "Free b slot =
     (if slot \<ge> numSlots b then Some b
      else
        let wordIdx = slot div 64; bitPos = slot mod 64 in
        if unat wordIdx < length (words b) then
          let b' = b\<lparr>words := (words b)[unat wordIdx := words b ! unat wordIdx AND NOT (push_bit (unat bitPos) 1)]\<rparr>
          in Some (if slot < freeHint b then b'\<lparr>freeHint := slot\<rparr> else b')
        else None)"

definition BitmapClear :: "bitmap \<Rightarrow> bitmap" where
  "BitmapClear b = b\<lparr>words := replicate (length (words b)) 0, freeHint := 0\<rparr>"

definition Extend :: "bitmap \<Rightarrow> u32 \<Rightarrow> bitmap" where
  "Extend b newCap =
     (if newCap \<le> numSlots b then b
      else
        let newNumWords = (newCap + 63) div 64;
            b' = (if newNumWords > of_nat (length (words b))
                  then b\<lparr>words := take (unat newNumWords) (words b) @
                           replicate (unat newNumWords - length (words b)) 0\<rparr>
                  else b)
        in b'\<lparr>numSlots := newCap\<rparr>)"

definition IsAllocated :: "bitmap \<Rightarrow> u32 \<Rightarrow> bool option" where
  "IsAllocated b slot =
     (if slot \<ge> numSlots b then Some False
      else if unat (slot div 64) < length (words b)
      then Some (words b ! unat (slot div 64) AND push_bit (unat (slot mod 64)) 1 \<noteq> 0)
      else None)"

definition Count :: "bitmap \<Rightarrow> u32" where
  "Count b = fold (\<lambda>w c. c + of_nat (OnesCount64 w)) (words b) 0"

definition Capacity :: "bitmap \<Rightarrow> u32" where "Capacity b = numSlots b"

section \<open>The set of allocated slots\<close>

definition slots :: "bitmap \<Rightarrow> nat set" where
  "slots b = {s. s < 64 * length (words b) \<and> bit (words b ! (s div 64)) (s mod 64)}"

text \<open>Every slot has its bit, none beyond the capacity is set, and slots fit in 32 bits.\<close>

definition bm_inv :: "bitmap \<Rightarrow> bool" where
  "bm_inv b \<longleftrightarrow> length (words b) = (unat (numSlots b) + 63) div 64 \<and> unat (numSlots b) < 2 ^ 32 - 64 \<and>
     slots b \<subseteq> {..< unat (numSlots b)}"

lemma bm_invD:
  assumes "bm_inv b"
  shows "64 * length (words b) < 2 ^ 32" "unat (numSlots b) \<le> 64 * length (words b)"
    "s \<in> slots b \<Longrightarrow> s < unat (numSlots b)" "length (words b) < 2 ^ 26"
proof -
  have "64 * length (words b) \<le> unat (numSlots b) + 63" using assms by (auto simp: bm_inv_def)
  then show "64 * length (words b) < 2 ^ 32" "length (words b) < 2 ^ 26"
    using assms by (auto simp: bm_inv_def)
  show "unat (numSlots b) \<le> 64 * length (words b)" using assms by (auto simp: bm_inv_def)
  show "s \<in> slots b \<Longrightarrow> s < unat (numSlots b)" using assms by (auto simp: bm_inv_def)
qed

lemma bit_word64: "w \<noteq> - 1 \<Longrightarrow> \<exists>i < 64. \<not> bit (w :: u64) i"
proof (rule ccontr)
  assume "w \<noteq> - 1" "\<not> (\<exists>i < 64. \<not> bit w i)"
  then have "w = - 1" by (intro bit_word_eqI) auto
  then show False using \<open>w \<noteq> - 1\<close> by simp
qed

text \<open>\<open>TrailingZeros64 (NOT w)\<close> is the lowest clear bit of \<open>w\<close>.\<close>

lemma TrailingZeros64_NOT:
  assumes "w \<noteq> - 1"
  defines "p \<equiv> TrailingZeros64 (NOT w)"
  shows "p < 64" "\<not> bit w p" "\<And>i. i < p \<Longrightarrow> bit w i"
proof -
  let ?P = "\<lambda>i. \<not> bit (NOT w) i"
  have p: "p = length (takeWhile ?P [0..<64])" by (simp add: p_def TrailingZeros64_def)
  obtain i where i: "i < 64" "\<not> bit w i" using bit_word64 [OF assms(1)] by blast
  have "takeWhile ?P [0..<64] \<noteq> [0..<64]"
    using i by (auto simp: takeWhile_eq_all_conv bit_simps)
  then show lt: "p < 64"
    unfolding p by (metis length_takeWhile_le length_upt diff_zero le_neq_implies_less takeWhile_eq_take take_all order_refl)
  then have "\<not> ?P ([0..<64] ! p)" unfolding p by (intro nth_length_takeWhile) simp
  then show "\<not> bit w p" using lt by (simp add: bit_simps)
  fix j assume "j < p"
  then have "?P ([0..<64] ! j)" unfolding p by (metis nth_mem set_takeWhileD takeWhile_nth)
  then show "bit w j" using \<open>j < p\<close> lt by (simp add: bit_simps)
qed

lemma slots_update:
  assumes w: "wi < length (words b)" and p: "p < 64"
    and v: "\<And>i. i < 64 \<Longrightarrow> bit v i \<longleftrightarrow> (if i = p then on else bit (words b ! wi) i)"
  shows "slots (b\<lparr>words := (words b)[wi := v]\<rparr>) =
     (if on then insert (64 * wi + p) (slots b) else slots b - {64 * wi + p})"
proof (rule set_eqI)
  fix x
  have x: "x = 64 * wi + p \<longleftrightarrow> x div 64 = wi \<and> x mod 64 = p"
  proof
    assume e: "x div 64 = wi \<and> x mod 64 = p"
    have "x = 64 * (x div 64) + x mod 64" by simp
    also have "\<dots> = 64 * wi + p" using e by (simp only:)
    finally show "x = 64 * wi + p" .
  qed (use p in simp)
  have d: "x div 64 < length (words b) \<longleftrightarrow> x < 64 * length (words b)" by linarith
  have m: "x \<in> slots (b\<lparr>words := (words b)[wi := v]\<rparr>) \<longleftrightarrow>
      x < 64 * length (words b) \<and> bit (if x div 64 = wi then v else words b ! (x div 64)) (x mod 64)"
    using w by (simp add: slots_def nth_list_update eq_commute)
  show "x \<in> slots (b\<lparr>words := (words b)[wi := v]\<rparr>) \<longleftrightarrow>
      x \<in> (if on then insert (64 * wi + p) (slots b) else slots b - {64 * wi + p})"
  proof (cases "x div 64 = wi")
    case True
    have l: "x < 64 * length (words b)" using w True d by simp
    have xs: "x \<in> slots b \<longleftrightarrow> bit (words b ! wi) (x mod 64)" using l True by (simp add: slots_def)
    have xv: "bit v (x mod 64) \<longleftrightarrow> (if x mod 64 = p then on else bit (words b ! wi) (x mod 64))"
      by (rule v) simp
    have xe: "x = 64 * wi + p \<longleftrightarrow> x mod 64 = p" using x True by blast
    show ?thesis
      unfolding m using l xs xv xe True by (cases on; cases "x mod 64 = p") simp_all
  next
    case False
    have xs: "x \<in> slots b \<longleftrightarrow> x < 64 * length (words b) \<and> bit (words b ! (x div 64)) (x mod 64)"
      by (simp add: slots_def)
    have "x \<noteq> 64 * wi + p" using x False by blast
    then show ?thesis unfolding m using False xs by simp
  qed
qed

lemma unat_slot:
  assumes "bm_inv b" "unat wi < length (words b)" "p < 64"
  shows "unat (wi * 64 + of_nat p :: u32) = 64 * unat wi + p"
proof -
  have lt: "64 * unat wi + p < 2 ^ 32"
    using assms(2,3) bm_invD(1) [OF assms(1)] by linarith
  have "unat (wi * 64 :: u32) = 64 * unat wi"
    using lt by (simp add: unat_word_ariths)
  then show ?thesis
    using lt assms(3) by (simp add: unat_word_ariths unat_of_nat)
qed

lemma alloc_loop_ok:
  assumes inv: "bm_inv b"
    and idx: "\<And>i. i \<in> set is \<Longrightarrow> unat ((startWord + i) mod numWords) < length (words b)"
  shows "(\<exists>b' s. alloc_loop b startWord numWords is = Some (b', s, True) \<and> unat s < unat (numSlots b) \<and>
            unat s \<notin> slots b \<and> slots b' = insert (unat s) (slots b) \<and>
            length (words b') = length (words b) \<and> numSlots b' = numSlots b) \<or>
         (alloc_loop b startWord numWords is = Some (b, 0, False) \<and>
            (\<forall>i \<in> set is. \<forall>s < unat (numSlots b). s div 64 = unat ((startWord + i) mod numWords) \<longrightarrow> s \<in> slots b))"
  using idx
proof (induction "is")
  case (Cons i "is")
  define wi where "wi = (startWord + i) mod numWords"
  have wi: "unat wi < length (words b)" using Cons.prems by (simp add: wi_def)
  let ?w = "words b ! unat wi"
  have IH: "?case" if "alloc_loop b startWord numWords (i # is) = alloc_loop b startWord numWords is"
    "\<And>s. s < unat (numSlots b) \<Longrightarrow> s div 64 = unat wi \<Longrightarrow> s \<in> slots b"
    using Cons.IH Cons.prems that by (force simp: wi_def)
  show ?case
  proof (cases "?w = - 1")
    case True
    show ?thesis
    proof (rule IH)
      show "alloc_loop b startWord numWords (i # is) = alloc_loop b startWord numWords is"
        using True wi by (simp add: wi_def Let_def)
      fix s assume "s < unat (numSlots b)" "s div 64 = unat wi"
      then show "s \<in> slots b" using True bm_invD(2) [OF inv] by (simp add: slots_def)
    qed
  next
    case False
    define p where "p = TrailingZeros64 (NOT ?w)"
    note tz = TrailingZeros64_NOT [OF False, folded p_def]
    define slot where "slot = wi * 64 + of_nat p"
    have us: "unat slot = 64 * unat wi + p"
      unfolding slot_def by (rule unat_slot [OF inv wi tz(1)])
    show ?thesis
    proof (cases "slot \<ge> numSlots b")
      case True
      show ?thesis
      proof (rule IH)
        show "alloc_loop b startWord numWords (i # is) = alloc_loop b startWord numWords is"
          using True False wi by (simp add: Let_def flip: wi_def) (simp add: slot_def p_def)
        fix s assume s: "s < unat (numSlots b)" "s div 64 = unat wi"
        have "s = 64 * (s div 64) + s mod 64" by simp
        then have "s mod 64 < p" using s us True unfolding word_le_nat_alt by linarith
        then show "s \<in> slots b" using tz(3) s bm_invD(2) [OF inv] by (simp add: slots_def)
      qed
    next
      case lt: False
      define b' where "b' = b\<lparr>words := (words b)[unat wi := ?w OR push_bit p 1], freeHint := slot + 1\<rparr>"
      have "alloc_loop b startWord numWords (i # is) = Some (b', slot, True)"
        using lt False wi by (simp add: Let_def flip: wi_def) (simp add: slot_def p_def b'_def)
      moreover have "slots b' = insert (unat slot) (slots b)"
      proof -
        have "slots b' = slots (b\<lparr>words := (words b)[unat wi := ?w OR push_bit p 1]\<rparr>)"
          by (simp add: b'_def slots_def)
        also have "\<dots> = (if True then insert (64 * unat wi + p) (slots b) else slots b - {64 * unat wi + p})"
          by (rule slots_update [OF wi tz(1)]) (use tz(1) in \<open>auto simp: bit_simps\<close>)
        finally show ?thesis by (simp add: us)
      qed
      moreover have "unat slot \<notin> slots b" using tz(1,2) by (simp add: slots_def us)
      moreover have "unat slot < unat (numSlots b)" using lt by (simp add: word_le_nat_alt)
      ultimately show ?thesis by (auto simp: b'_def)
    qed
  qed
qed simp

theorem Allocate_ok:
  assumes inv: "bm_inv b"
  shows "if slots b = {..< unat (numSlots b)} then Allocate b = Some (b, 0, False)
    else \<exists>b' s. Allocate b = Some (b', s, True) \<and> unat s < unat (numSlots b) \<and> unat s \<notin> slots b \<and>
      slots b' = insert (unat s) (slots b) \<and> bm_inv b' \<and> numSlots b' = numSlots b"
proof -
  let ?n = "length (words b)" and ?N = "unat (numSlots b)"
  define nw :: u32 where "nw = of_nat ?n"
  have un: "unat nw = ?n" using bm_invD(4) [OF inv] by (simp add: nw_def unat_of_nat)
  have sub: "slots b \<subseteq> {..< ?N}" using inv by (simp add: bm_inv_def)
  show ?thesis
  proof (cases "nw = 0")
    case True
    then have "?N = 0" using un bm_invD(2) [OF inv] by simp
    then show ?thesis using sub True by (simp add: Allocate_def nw_def)
  next
    case False
    define sw where "sw = freeHint b div 64"
    have sw: "unat sw < 2 ^ 26"
    proof -
      have "unat (freeHint b) < 2 ^ 32" by (rule order_less_le_trans [OF unsigned_less]) simp
      then show ?thesis by (simp add: sw_def unat_div)
    qed
    have ix: "unat ((sw + of_nat i) mod nw) = (unat sw + i) mod ?n" if "i < ?n" for i
    proof -
      have "i < 2 ^ 26" using that bm_invD(4) [OF inv] by simp
      then have "unat (of_nat i :: u32) = i" "unat (sw + of_nat i) = unat sw + i"
        using sw by (simp_all add: unat_of_nat unat_word_ariths)
      then show ?thesis by (simp add: unat_mod un)
    qed
    have n0: "0 < ?n" using False un unat_eq_zero [of nw] by linarith
    let ?is = "map of_nat [0..<?n] :: u32 list"
    have al: "Allocate b = alloc_loop b sw nw ?is"
      using False un by (simp add: Allocate_def sw_def nw_def)
    have idx: "unat ((sw + i) mod nw) < ?n" if "i \<in> set ?is" for i
      using that ix n0 by (auto intro: mod_less_divisor)
    have cov: "s \<in> slots b" if all: "\<forall>i \<in> set ?is. \<forall>s < ?N. s div 64 = unat ((sw + i) mod nw) \<longrightarrow> s \<in> slots b"
      and s: "s < ?N" for s
    proof -
      have w: "s div 64 < ?n" using s bm_invD(2) [OF inv] by linarith
      define i where "i = (s div 64 + ?n - unat sw mod ?n) mod ?n"
      have i: "i < ?n" using n0 by (simp add: i_def)
      have "(unat sw + i) mod ?n = (unat sw mod ?n + (s div 64 + ?n - unat sw mod ?n)) mod ?n"
        by (simp add: i_def mod_simps)
      also have "unat sw mod ?n + (s div 64 + ?n - unat sw mod ?n) = s div 64 + ?n"
        using mod_less_divisor [OF n0, of "unat sw"] by linarith
      finally have "unat ((sw + of_nat i) mod nw) = s div 64" using ix [OF i] w by simp
      then show ?thesis using all s i by (auto simp: image_iff)
    qed
    from alloc_loop_ok [OF inv idx, of ?is] show ?thesis
    proof
      assume "\<exists>b' s. alloc_loop b sw nw ?is = Some (b', s, True) \<and> unat s < unat (numSlots b) \<and>
            unat s \<notin> slots b \<and> slots b' = insert (unat s) (slots b) \<and>
            length (words b') = length (words b) \<and> numSlots b' = numSlots b"
      then obtain b' s where r: "Allocate b = Some (b', s, True)" "unat s < ?N" "unat s \<notin> slots b"
        "slots b' = insert (unat s) (slots b)" "length (words b') = ?n" "numSlots b' = numSlots b"
        using al by auto
      have "bm_inv b'" using inv r by (simp add: bm_inv_def)
      moreover have "slots b \<noteq> {..< ?N}" using r(2,3) by auto
      ultimately show ?thesis using r by auto
    next
      assume r: "alloc_loop b sw nw ?is = Some (b, 0, False) \<and>
            (\<forall>i \<in> set ?is. \<forall>s < unat (numSlots b). s div 64 = unat ((sw + i) mod nw) \<longrightarrow> s \<in> slots b)"
      have "slots b = {..< ?N}"
        using sub cov [OF conjunct2 [OF r]] by blast
      then show ?thesis using al r by simp
    qed
  qed
qed

section \<open>The other operations\<close>

lemma NewBitmap_ok:
  assumes "unat n < 2 ^ 32 - 64"
  shows "bm_inv (NewBitmap n)" "slots (NewBitmap n) = {}" "numSlots (NewBitmap n) = n"
proof -
  have u: "unat ((n + 63) div 64) = (unat n + 63) div 64"
    using assms by (simp add: unat_div unat_word_ariths)
  show s: "slots (NewBitmap n) = {}" by (auto simp: NewBitmap_def Let_def slots_def)
  show "bm_inv (NewBitmap n)" unfolding bm_inv_def s using assms u by (simp add: NewBitmap_def Let_def)
  show "numSlots (NewBitmap n) = n" by (simp add: NewBitmap_def Let_def)
qed

lemma unat_lt_32: "unat (w :: u32) < 2 ^ 32"
  by (rule order_less_le_trans [OF unsigned_less]) simp

theorem Free_ok:
  assumes inv: "bm_inv b"
  shows "\<exists>b'. Free b slot = Some b' \<and> bm_inv b' \<and> slots b' = slots b - {unat slot} \<and> numSlots b' = numSlots b"
proof (cases "slot \<ge> numSlots b")
  case True
  then have "unat slot \<notin> slots b" using bm_invD(3) [OF inv] by (force simp: word_le_nat_alt)
  then show ?thesis using True inv by (simp add: Free_def)
next
  case False
  then have lt: "unat slot < unat (numSlots b)" by (simp add: word_le_nat_alt)
  then have w: "unat slot div 64 < length (words b)" using bm_invD(2) [OF inv] by linarith
  let ?wi = "unat slot div 64" and ?p = "unat slot mod 64"
  define b1 where "b1 = b\<lparr>words := (words b)[?wi := words b ! ?wi AND NOT (push_bit ?p 1)]\<rparr>"
  have s1: "slots b1 = slots b - {unat slot}"
  proof -
    have "slots b1 = (if False then insert (64 * ?wi + ?p) (slots b) else slots b - {64 * ?wi + ?p})"
      unfolding b1_def by (rule slots_update [OF w]) (auto simp: bit_simps)
    then show ?thesis by simp
  qed
  define b2 where "b2 = (if slot < freeHint b then b1\<lparr>freeHint := slot\<rparr> else b1)"
  have "Free b slot = Some b2"
    using False w by (simp add: Free_def Let_def unat_div unat_mod b1_def b2_def)
  moreover have s2: "slots b2 = slots b - {unat slot}" using s1 by (simp add: b2_def slots_def)
  moreover have "bm_inv b2"
    unfolding bm_inv_def s2 using inv by (auto simp: bm_inv_def b2_def b1_def)
  ultimately show ?thesis by (auto simp: b2_def b1_def)
qed

lemma BitmapClear_ok: "bm_inv b \<Longrightarrow> bm_inv (BitmapClear b) \<and> slots (BitmapClear b) = {} \<and> numSlots (BitmapClear b) = numSlots b"
  by (auto simp: bm_inv_def BitmapClear_def slots_def)

lemma IsAllocated_ok:
  assumes "bm_inv b"
  shows "IsAllocated b slot = Some (unat slot \<in> slots b)"
proof (cases "slot \<ge> numSlots b")
  case True
  then have "unat slot \<notin> slots b" using bm_invD(3) [OF assms] by (force simp: word_le_nat_alt)
  then show ?thesis using True by (simp add: IsAllocated_def)
next
  case False
  then have lt: "unat slot < unat (numSlots b)" by (simp add: word_le_nat_alt)
  have "unat slot div 64 < length (words b)" "unat slot < 64 * length (words b)"
    using lt bm_invD(2) [OF assms] by linarith+
  then show ?thesis
    using False by (simp add: IsAllocated_def unat_div unat_mod slots_def bit_iff_and_push_bit_not_eq_0)
qed

lemma Extend_ok:
  assumes inv: "bm_inv b" and n: "unat n < 2 ^ 32 - 64"
  shows "bm_inv (Extend b n) \<and> slots (Extend b n) = slots b \<and> numSlots (Extend b n) = max (numSlots b) n"
proof (cases "n \<le> numSlots b")
  case True
  then show ?thesis using inv by (simp add: Extend_def max_def)
next
  case False
  have u: "unat ((n + 63) div 64) = (unat n + 63) div 64"
    using n by (simp add: unat_div unat_word_ariths)
  have lt: "unat (numSlots b) < unat n" using False by (simp add: word_le_nat_alt)
  have len: "length (words b) = (unat (numSlots b) + 63) div 64" using inv by (simp add: bm_inv_def)
  have ul: "unat (of_nat (length (words b)) :: u32) = length (words b)"
    using bm_invD(4) [OF inv] by (simp add: unat_of_nat)
  have ge: "length (words b) \<le> (unat n + 63) div 64" unfolding len using lt by (intro div_le_mono) simp
  have gt: "(n + 63) div 64 > of_nat (length (words b)) \<longleftrightarrow> length (words b) < (unat n + 63) div 64"
    unfolding word_less_nat_alt u ul ..
  have s: "slots (Extend b n) = slots b"
  proof -
    have b0: "bit (replicate m (0 :: u64) ! k) i \<longleftrightarrow> False" if "k < m" for m k i using that by simp
    show ?thesis
      using False ge by (auto simp: Extend_def Let_def gt u slots_def nth_append less_diff_conv2 b0)
  qed
  have "length (words (Extend b n)) = (unat n + 63) div 64"
    using False ge by (auto simp: Extend_def Let_def gt u)
  moreover have "numSlots (Extend b n) = n" using False by (simp add: Extend_def Let_def)
  ultimately show ?thesis
    using inv s lt False n by (auto simp: bm_inv_def max_def)
qed

text \<open>\<open>Count\<close> is the number of allocated slots.\<close>

lemma slots_card: "card (slots b) = sum_list (map OnesCount64 (words b))"
proof -
  define S where "S ws = {s. s < 64 * length ws \<and> bit (ws ! (s div 64)) (s mod 64)}" for ws :: "u64 list"
  have "card (S ws) = sum_list (map OnesCount64 ws) \<and> finite (S ws)" for ws
  proof (induction ws rule: rev_induct)
    case (snoc w ws)
    define T where "T = (\<lambda>i. 64 * length ws + i) ` {i. i < 64 \<and> bit w i}"
    have "S (ws @ [w]) = S ws \<union> T"
    proof (rule set_eqI)
      fix s
      show "s \<in> S (ws @ [w]) \<longleftrightarrow> s \<in> S ws \<union> T"
      proof (cases "s < 64 * length ws")
        case True
        then have "s div 64 < length ws" by linarith
        then show ?thesis using True by (auto simp: S_def T_def nth_append)
      next
        case False
        then obtain r where r: "s = 64 * length ws + r" using le_Suc_ex not_le_imp_less by (metis not_less)
        then show ?thesis by (cases "r < 64") (auto simp: S_def T_def nth_append)
      qed
    qed
    moreover have "S ws \<inter> T = {}" by (auto simp: S_def T_def)
    moreover have "card T = OnesCount64 w"
    proof -
      have "card T = card {i. i < 64 \<and> bit w i}" unfolding T_def by (rule card_image) (simp add: inj_on_def)
      then show ?thesis by (simp add: OnesCount64_def length_filter_conv_card cong: conj_cong)
    qed
    moreover have "finite T" by (simp add: T_def)
    ultimately show ?case using snoc by (simp add: card_Un_disjoint)
  qed (simp add: S_def)
  then show ?thesis by (simp add: S_def slots_def)
qed

lemma Count_ok: "bm_inv b \<Longrightarrow> Count b = of_nat (card (slots b))"
proof -
  have "fold (\<lambda>w c. c + of_nat (OnesCount64 w)) ws (c :: u32) = c + of_nat (sum_list (map OnesCount64 ws))" for ws c
    by (induction ws arbitrary: c) (auto simp: algebra_simps)
  then show ?thesis by (simp add: Count_def slots_card)
qed

section \<open>The bitmap is a slot allocator\<close>

definition bm_alloc :: "bitmap \<Rightarrow> (bitmap \<times> u32 option) option" where
  "bm_alloc b = map_option (\<lambda>(b', s, ok). (b', if ok then Some s else None)) (Allocate b)"

definition live_slots :: "bitmap \<Rightarrow> u32 set" where "live_slots b = {s. unat s \<in> slots b}"

interpretation bm: slot_pool bm_alloc Free live_slots bm_inv "\<lambda>b s. True"
proof
  fix b assume inv: "bm_inv b"
  show "\<exists>s' r. bm_alloc b = Some (s', r) \<and> bm_inv s' \<and>
    (case r of None \<Rightarrow> live_slots s' = live_slots b
     | Some i \<Rightarrow> i \<notin> live_slots b \<and> live_slots s' = insert i (live_slots b))"
  proof (cases "slots b = {..< unat (numSlots b)}")
    case True
    then show ?thesis using Allocate_ok [OF inv] inv by (auto simp: bm_alloc_def)
  next
    case False
    with Allocate_ok [OF inv] obtain b' s where "Allocate b = Some (b', s, True)" "unat s \<notin> slots b"
      "slots b' = insert (unat s) (slots b)" "bm_inv b'" by auto
    then show ?thesis by (auto simp: bm_alloc_def live_slots_def word_unat_eq_iff)
  qed
next
  fix b and i :: u32 assume "bm_inv b"
  from Free_ok [OF this, of i] show "\<exists>s'. Free b i = Some s' \<and> bm_inv s' \<and> live_slots s' = live_slots b - {i}"
    by (auto simp: live_slots_def word_unat_eq_iff)
qed

end
