(* ===== verification/Spill.thy ===== *)
theory Spill
  imports Bitmap Errors
begin

text \<open>
  spill/spill.go: the spill buffer, a list of mmap'd segments each with its slot bitmap.  A page
  slice handed out is a reference (segment, byte offset, length) into a segment's mapping.  Files
  and mappings are the operating system's: whether creating one fails is a parameter, and a fresh
  mapping is zero-filled.  The mutex makes each operation atomic.
\<close>

section \<open>State\<close>

record segment =
  smmap :: bytes
  spath :: string
  sbitmap :: bitmap
  scap :: u32

record buffer =
  basePath :: string
  pageSize :: u32
  segmentCap :: u32
  segments :: "segment list"
  curSegment :: nat
  totalAlloc :: u32

record Slot =
  Pgno :: u32
  SegmentIdx :: u16
  SlotIdx :: u16

type_synonym region = "nat \<times> nat \<times> nat"

definition DefaultInitialCap :: u32 where "DefaultInitialCap = 1024"
definition DefaultMaxSegments :: nat where "DefaultMaxSegments = 2147483647"

definition spillError :: "string \<Rightarrow> goerror" where "spillError msg = Plain (''spill: '' @ msg)"
definition ErrBufferFull :: goerror where
  "ErrBufferFull = spillError ''buffer full (max segments reached)''"

section \<open>Operations\<close>

fun itoa_loop :: "nat \<Rightarrow> string \<Rightarrow> string" where
  "itoa_loop n acc =
     (if n > 0 then itoa_loop (n div 10) (char_of (48 + n mod 10) # acc) else acc)"

definition itoa :: "nat \<Rightarrow> string" where
  "itoa n = (if n = 0 then ''0'' else itoa_loop n [])"

text \<open>\<open>os\<close> is the error of creating, sizing or mapping the segment file, if any.\<close>

definition addSegment :: "goerror option \<Rightarrow> buffer \<Rightarrow> buffer \<times> goerror option" where
  "addSegment os b =
     (if length (segments b) \<ge> DefaultMaxSegments then (b, Some ErrBufferFull)
      else
        let segIdx = length (segments b);
            segPath = (if segIdx > 0 then basePath b @ ''.'' @ itoa segIdx else basePath b)
        in
        case os of
          Some e \<Rightarrow> (b, Some e)
        | None \<Rightarrow>
            let fileSize = unat (segmentCap b) * unat (pageSize b);
                seg = \<lparr>smmap = replicate fileSize 0, spath = segPath,
                       sbitmap = NewBitmap (segmentCap b), scap = segmentCap b\<rparr>
            in (b\<lparr>segments := segments b @ [seg]\<rparr>, None))"

definition New :: "goerror option \<Rightarrow> string \<Rightarrow> u32 \<Rightarrow> u32 \<Rightarrow> goerror + buffer" where
  "New os path pgsz initialCap =
     (let cap = (if initialCap = 0 then DefaultInitialCap else initialCap);
          b = \<lparr>basePath = path, pageSize = pgsz, segmentCap = cap, segments = [],
               curSegment = 0, totalAlloc = 0\<rparr>
      in case addSegment os b of (b', Some e) \<Rightarrow> Inl e | (b', None) \<Rightarrow> Inr b')"

text \<open>Taking a slot of segment \<open>i\<close> once its bitmap has handed out \<open>slotIdx\<close>.\<close>

definition take_slot :: "buffer \<Rightarrow> nat \<Rightarrow> bitmap \<Rightarrow> u32 \<Rightarrow> (buffer \<times> region \<times> Slot) option" where
  "take_slot b i bm slotIdx =
     (let seg = (segments b ! i)\<lparr>sbitmap := bm\<rparr>;
          b' = b\<lparr>segments := (segments b)[i := seg], totalAlloc := totalAlloc b + 1\<rparr>;
          off = unat slotIdx * unat (pageSize b)
      in do { slice (smmap seg) (int off) (int (off + unat (pageSize b)));
              Some (b', (i, off, unat (pageSize b)),
                    \<lparr>Pgno = 0, SegmentIdx = of_nat i, SlotIdx = ucast slotIdx\<rparr>) })"

text \<open>The loop over the segments from \<open>curSegment\<close> on; the result is the slot, if one was found.\<close>

function alloc_seg_loop :: "buffer \<Rightarrow> (buffer \<times> (region \<times> Slot) option) option" where
  "alloc_seg_loop b =
     (if curSegment b < length (segments b) then
        do { (bm, slotIdx, ok) \<leftarrow> Allocate (sbitmap (segments b ! curSegment b));
             if ok then
               do { (b', r, s) \<leftarrow> take_slot b (curSegment b) bm slotIdx; Some (b', Some (r, s)) }
             else alloc_seg_loop (b\<lparr>curSegment := curSegment b + 1\<rparr>) }
      else Some (b, None))"
  by pat_completeness auto
termination by (relation "measure (\<lambda>b. length (segments b) - curSegment b)") auto

text \<open>\<open>SpillAllocate\<close> is \<open>Buffer.Allocate\<close>; the last component is the error.\<close>

definition SpillAllocate :: "goerror option \<Rightarrow> buffer \<Rightarrow> (buffer \<times> (region \<times> Slot) option \<times> goerror option) option" where
  "SpillAllocate os b =
     do { (b1, r) \<leftarrow> alloc_seg_loop b;
          case r of
            Some x \<Rightarrow> Some (b1, Some x, None)
          | None \<Rightarrow>
              (case addSegment os b1 of
                 (b2, Some e) \<Rightarrow> Some (b2, None, Some e)
               | (b2, None) \<Rightarrow>
                   if curSegment b2 < length (segments b2) then
                     do { (bm, slotIdx, ok) \<leftarrow> Allocate (sbitmap (segments b2 ! curSegment b2));
                          if \<not> ok then Some (b2, None, Some ErrBufferFull)
                          else do { (b3, r, s) \<leftarrow> take_slot b2 (curSegment b2) bm slotIdx;
                                    Some (b3, Some (r, s), None) } }
                   else None) }"

definition SpillGet :: "buffer \<Rightarrow> Slot option \<Rightarrow> region option option" where
  "SpillGet b slot =
     (case slot of None \<Rightarrow> Some None
      | Some s \<Rightarrow>
          if unat (SegmentIdx s) \<ge> length (segments b) then Some None
          else let seg = segments b ! unat (SegmentIdx s) in
            if SlotIdx s \<ge> ucast (scap seg) then Some None
            else let off = unat (SlotIdx s) * unat (pageSize b); e = off + unat (pageSize b) in
              if e > length (smmap seg) then Some None
              else Some (Some (unat (SegmentIdx s), off, unat (pageSize b))))"

definition free_in :: "buffer \<Rightarrow> Slot \<Rightarrow> buffer option" where
  "free_in b s =
     (let i = unat (SegmentIdx s) in
      do { bm \<leftarrow> Free (sbitmap (segments b ! i)) (ucast (SlotIdx s));
           Some (b\<lparr>segments := (segments b)[i := (segments b ! i)\<lparr>sbitmap := bm\<rparr>],
                   totalAlloc := totalAlloc b - 1\<rparr>) })"

definition Release :: "buffer \<Rightarrow> Slot option \<Rightarrow> buffer option" where
  "Release b slot =
     (case slot of None \<Rightarrow> Some b
      | Some s \<Rightarrow>
          if unat (SegmentIdx s) \<ge> length (segments b) then Some b
          else do { b' \<leftarrow> free_in b s;
                    Some (if unat (SegmentIdx s) < curSegment b
                          then b'\<lparr>curSegment := unat (SegmentIdx s)\<rparr> else b') })"

fun bulk_loop :: "buffer \<Rightarrow> nat \<Rightarrow> Slot option list \<Rightarrow> (buffer \<times> nat) option" where
  "bulk_loop b minSeg [] = Some (b, minSeg)"
| "bulk_loop b minSeg (None # rest) = bulk_loop b minSeg rest"
| "bulk_loop b minSeg (Some s # rest) =
     (if unat (SegmentIdx s) \<ge> length (segments b) then bulk_loop b minSeg rest
      else do { b' \<leftarrow> free_in b s;
                bulk_loop b' (if unat (SegmentIdx s) < minSeg then unat (SegmentIdx s) else minSeg) rest })"

definition ReleaseBulk :: "buffer \<Rightarrow> Slot option list \<Rightarrow> buffer option" where
  "ReleaseBulk b sls =
     (if sls = [] then Some b
      else do { (b', minSeg) \<leftarrow> bulk_loop b (curSegment b) sls; Some (b'\<lparr>curSegment := minSeg\<rparr>) })"

definition SpillClear :: "buffer \<Rightarrow> buffer" where
  "SpillClear b = b\<lparr>segments := map (\<lambda>seg. seg\<lparr>sbitmap := BitmapClear (sbitmap seg)\<rparr>) (segments b),
                    curSegment := 0, totalAlloc := 0\<rparr>"

definition SpillCapacity :: "buffer \<Rightarrow> u32" where
  "SpillCapacity b = of_nat (length (segments b)) * segmentCap b"

definition AllocatedCount :: "buffer \<Rightarrow> u32" where "AllocatedCount b = totalAlloc b"
definition PageSize :: "buffer \<Rightarrow> u32" where "PageSize b = pageSize b"

text \<open>
  \<open>Close\<close> goes through all segments whatever fails and returns the first error; \<open>errs\<close> are the
  results of closing the mapping, closing the file and removing it, per segment.
\<close>

definition or_first :: "goerror option \<Rightarrow> goerror option \<Rightarrow> goerror option" where
  "or_first firstErr e = (case firstErr of Some x \<Rightarrow> Some x | None \<Rightarrow> e)"

fun close_loop :: "bool \<Rightarrow> goerror option \<Rightarrow> segment list \<Rightarrow>
    (goerror option \<times> goerror option \<times> goerror option) list \<Rightarrow> goerror option" where
  "close_loop del firstErr (seg # segs) ((e1, e2, e3) # errs) =
     close_loop del
       (let f = or_first (or_first firstErr e1) e2 in
        if del \<and> spath seg \<noteq> '''' then or_first f e3 else f) segs errs"
| "close_loop del firstErr segs errs = firstErr"

definition Close :: "buffer \<Rightarrow> bool \<Rightarrow> (goerror option \<times> goerror option \<times> goerror option) list \<Rightarrow>
    buffer \<times> goerror option" where
  "Close b deleteFile errs = (b\<lparr>segments := []\<rparr>, close_loop deleteFile None (segments b) errs)"

section \<open>Invariant\<close>

definition live :: "buffer \<Rightarrow> (nat \<times> nat) set" where
  "live b = {x. fst x < length (segments b) \<and> snd x \<in> slots (sbitmap (segments b ! fst x))}"

definition seg_inv :: "buffer \<Rightarrow> segment \<Rightarrow> bool" where
  "seg_inv b seg \<longleftrightarrow> bm_inv (sbitmap seg) \<and> numSlots (sbitmap seg) = segmentCap b \<and>
     scap seg = segmentCap b \<and> length (smmap seg) = unat (segmentCap b) * unat (pageSize b)"

text \<open>All segments have the same capacity, and those before \<open>curSegment\<close> are full.\<close>

definition buf_inv :: "buffer \<Rightarrow> bool" where
  "buf_inv b \<longleftrightarrow> 0 < unat (segmentCap b) \<and> unat (segmentCap b) < 2 ^ 32 - 64 \<and>
     (\<forall>i < length (segments b). seg_inv b (segments b ! i)) \<and>
     curSegment b \<le> length (segments b) \<and>
     (\<forall>i < curSegment b. slots (sbitmap (segments b ! i)) = {..< unat (segmentCap b)}) \<and>
     totalAlloc b = of_nat (card (live b))"

lemma buf_invD:
  assumes "buf_inv b"
  shows "i < length (segments b) \<Longrightarrow> seg_inv b (segments b ! i)" "curSegment b \<le> length (segments b)"
    "i < curSegment b \<Longrightarrow> slots (sbitmap (segments b ! i)) = {..< unat (segmentCap b)}"
    "totalAlloc b = of_nat (card (live b))" "0 < unat (segmentCap b)" "unat (segmentCap b) < 2 ^ 32 - 64"
  using assms by (auto simp: buf_inv_def)

lemma finite_live: "buf_inv b \<Longrightarrow> finite (live b)"
proof -
  assume inv: "buf_inv b"
  have "live b \<subseteq> {..< length (segments b)} \<times> {..< unat (segmentCap b)}"
    using buf_invD(1) [OF inv] bm_invD(3) by (fastforce simp: live_def seg_inv_def)
  then show ?thesis by (rule finite_subset) simp
qed

text \<open>Changing the bitmap of one segment.\<close>

definition with_bitmap :: "buffer \<Rightarrow> nat \<Rightarrow> bitmap \<Rightarrow> segment list" where
  "with_bitmap b i bm = (segments b)[i := (segments b ! i)\<lparr>sbitmap := bm\<rparr>]"

lemma live_with_bitmap:
  assumes "i < length (segments b)" "segments b' = with_bitmap b i bm"
  shows "live b' = {x \<in> live b. fst x \<noteq> i} \<union> {i} \<times> slots bm"
proof (rule set_eqI)
  fix x
  show "x \<in> live b' \<longleftrightarrow> x \<in> {x \<in> live b. fst x \<noteq> i} \<union> {i} \<times> slots bm"
    using assms by (cases x; cases "fst x = i") (simp_all add: live_def with_bitmap_def)
qed

lemma live_insert:
  assumes "i < length (segments b)" "segments b' = with_bitmap b i bm"
    "slots bm = insert s (slots (sbitmap (segments b ! i)))"
  shows "live b' = insert (i, s) (live b)"
proof (rule set_eqI)
  fix x
  show "x \<in> live b' \<longleftrightarrow> x \<in> insert (i, s) (live b)"
    unfolding live_with_bitmap [OF assms(1,2)] using assms(1,3)
    by (cases x; cases "fst x = i") (simp_all add: live_def)
qed

lemma live_remove:
  assumes "i < length (segments b)" "segments b' = with_bitmap b i bm"
    "slots bm = slots (sbitmap (segments b ! i)) - {s}"
  shows "live b' = live b - {(i, s)}"
proof (rule set_eqI)
  fix x
  show "x \<in> live b' \<longleftrightarrow> x \<in> live b - {(i, s)}"
    unfolding live_with_bitmap [OF assms(1,2)] using assms(1,3)
    by (cases x; cases "fst x = i") (simp_all add: live_def)
qed

lemma buf_inv_with_bitmap:
  assumes inv: "buf_inv b" and i: "i < length (segments b)"
    and bm: "bm_inv bm" "numSlots bm = segmentCap b"
    and b': "segments b' = with_bitmap b i bm" "segmentCap b' = segmentCap b" "pageSize b' = pageSize b"
      "curSegment b' \<le> curSegment b" "totalAlloc b' = of_nat (card (live b'))"
    and full: "i < curSegment b' \<Longrightarrow> slots bm = {..< unat (segmentCap b)}"
  shows "buf_inv b'"
  unfolding buf_inv_def
proof (intro conjI allI impI)
  fix j assume "j < length (segments b')"
  then show "seg_inv b' (segments b' ! j)"
    using buf_invD(1) [OF inv, of j] buf_invD(1) [OF inv i] i bm b'
    by (auto simp: seg_inv_def with_bitmap_def nth_list_update)
next
  fix j assume "j < curSegment b'"
  then show "slots (sbitmap (segments b' ! j)) = {..< unat (segmentCap b')}"
    using buf_invD(3) [OF inv, of j] full i b' by (cases "j = i") (auto simp: with_bitmap_def)
qed (use inv b' in \<open>auto simp: buf_inv_def with_bitmap_def\<close>)

section \<open>Allocation\<close>

definition slot_of :: "nat \<Rightarrow> nat \<Rightarrow> Slot" where
  "slot_of i s = \<lparr>Pgno = 0, SegmentIdx = of_nat i, SlotIdx = of_nat s\<rparr>"

definition region_of :: "buffer \<Rightarrow> nat \<Rightarrow> nat \<Rightarrow> region" where
  "region_of b i s = (i, s * unat (pageSize b), unat (pageSize b))"

lemma ucast_of_unat: "of_nat (unat (s :: u32)) = (ucast s :: u16)"
  by (rule of_nat_unat)

lemma region_inside: "s < c \<Longrightarrow> s * n + n \<le> c * (n :: nat)"
  by (metis Suc_leI add.commute mult_Suc mult_le_mono1)

lemma take_slot_ok:
  assumes inv: "buf_inv b" and i: "i < length (segments b)" and ci: "i \<noteq> curSegment b \<longrightarrow> curSegment b \<le> i"
    and al: "Allocate (sbitmap (segments b ! i)) = Some (bm, s, True)"
  shows "\<exists>b'. take_slot b i bm s = Some (b', region_of b i (unat s), slot_of i (unat s)) \<and> buf_inv b' \<and>
    (i, unat s) \<notin> live b \<and> live b' = insert (i, unat s) (live b) \<and> unat s < unat (segmentCap b) \<and>
    segmentCap b' = segmentCap b \<and> pageSize b' = pageSize b \<and> length (segments b') = length (segments b) \<and>
    curSegment b' = curSegment b"
proof -
  let ?seg = "segments b ! i"
  have si: "bm_inv (sbitmap ?seg)" "numSlots (sbitmap ?seg) = segmentCap b"
    "length (smmap ?seg) = unat (segmentCap b) * unat (pageSize b)"
    using buf_invD(1) [OF inv i] by (simp_all add: seg_inv_def)
  have ok: "unat s < unat (segmentCap b)" "unat s \<notin> slots (sbitmap ?seg)"
    "slots bm = insert (unat s) (slots (sbitmap ?seg))" "bm_inv bm" "numSlots bm = segmentCap b"
    using Allocate_ok [OF si(1)] al si(2) by (auto split: if_splits)
  define b' where "b' = b\<lparr>segments := with_bitmap b i bm, totalAlloc := totalAlloc b + 1\<rparr>"
  have lv: "live b' = insert (i, unat s) (live b)"
    by (rule live_insert [OF i _ ok(3)]) (simp add: b'_def)
  have nl: "(i, unat s) \<notin> live b" using ok(2) by (simp add: live_def)
  have "buf_inv b'"
  proof (rule buf_inv_with_bitmap [OF inv i ok(4,5)])
    show "totalAlloc b' = of_nat (card (live b'))"
      using buf_invD(4) [OF inv] finite_live [OF inv] nl by (simp add: lv) (simp add: b'_def)
    assume "i < curSegment b'"
    then show "slots bm = {..< unat (segmentCap b)}" using ci by (simp add: b'_def)
  qed (simp_all add: b'_def)
  moreover have "slice (smmap (?seg\<lparr>sbitmap := bm\<rparr>)) (int (unat s * unat (pageSize b)))
      (int (unat s * unat (pageSize b) + unat (pageSize b))) \<noteq> None"
    using region_inside [OF ok(1), of "unat (pageSize b)"] si(3) by (subst slice_nat) simp_all
  ultimately show ?thesis
    using lv nl ok(1)
    by (auto simp: take_slot_def Let_def region_of_def slot_of_def b'_def with_bitmap_def ucast_of_unat)
qed

lemma alloc_seg_loop_ok:
  assumes "buf_inv b"
  shows "\<exists>b' r. alloc_seg_loop b = Some (b', r) \<and> buf_inv b' \<and> segmentCap b' = segmentCap b \<and>
    pageSize b' = pageSize b \<and> length (segments b') = length (segments b) \<and>
    (case r of
       None \<Rightarrow> segments b' = segments b \<and> curSegment b' = length (segments b) \<and> totalAlloc b' = totalAlloc b
     | Some (reg, sl) \<Rightarrow> \<exists>i s. i < length (segments b) \<and> s < unat (segmentCap b) \<and> (i, s) \<notin> live b \<and>
         live b' = insert (i, s) (live b) \<and> reg = region_of b i s \<and> sl = slot_of i s)"
  using assms
proof (induction b rule: alloc_seg_loop.induct)
  case (1 b)
  note inv = "1.prems"
  show ?case
  proof (cases "curSegment b < length (segments b)")
    case False
    then show ?thesis using inv buf_invD(2) [OF inv] by (subst alloc_seg_loop.simps) auto
  next
    case True
    let ?seg = "segments b ! curSegment b"
    have si: "bm_inv (sbitmap ?seg)" "numSlots (sbitmap ?seg) = segmentCap b"
      using buf_invD(1) [OF inv True] by (simp_all add: seg_inv_def)
    show ?thesis
    proof (cases "slots (sbitmap ?seg) = {..< unat (segmentCap b)}")
      case full: True
      define b1 where "b1 = b\<lparr>curSegment := curSegment b + 1\<rparr>"
      have al: "Allocate (sbitmap ?seg) = Some (sbitmap ?seg, 0, False)"
        using Allocate_ok [OF si(1)] full si(2) by simp
      have lv: "live b1 = live b" by (simp add: live_def b1_def)
      have "buf_inv b1"
        using inv True full lv by (auto simp: buf_inv_def b1_def seg_inv_def less_Suc_eq)
      have "\<exists>b' r. alloc_seg_loop b1 = Some (b', r) \<and> buf_inv b' \<and> segmentCap b' = segmentCap b1 \<and>
        pageSize b' = pageSize b1 \<and> length (segments b') = length (segments b1) \<and>
        (case r of
           None \<Rightarrow> segments b' = segments b1 \<and> curSegment b' = length (segments b1) \<and> totalAlloc b' = totalAlloc b1
         | Some (reg, sl) \<Rightarrow> \<exists>i s. i < length (segments b1) \<and> s < unat (segmentCap b1) \<and> (i, s) \<notin> live b1 \<and>
             live b' = insert (i, s) (live b1) \<and> reg = region_of b1 i s \<and> sl = slot_of i s)"
        unfolding b1_def by (rule "1.IH" [OF True al refl refl]) (use \<open>buf_inv b1\<close> in \<open>simp_all add: b1_def\<close>)
      moreover have "alloc_seg_loop b = alloc_seg_loop b1"
        using True al by (subst alloc_seg_loop.simps) (simp add: b1_def)
      moreover have "segments b1 = segments b" "segmentCap b1 = segmentCap b" "pageSize b1 = pageSize b"
        "totalAlloc b1 = totalAlloc b" "region_of b1 = region_of b"
        by (simp_all add: b1_def region_of_def fun_eq_iff)
      ultimately show ?thesis unfolding lv by (simp only:)
    next
      case False
      with Allocate_ok [OF si(1)] si(2) obtain bm s where
        al: "Allocate (sbitmap ?seg) = Some (bm, s, True)" by auto
      from take_slot_ok [OF inv True _ al] obtain b' where
        "take_slot b (curSegment b) bm s = Some (b', region_of b (curSegment b) (unat s), slot_of (curSegment b) (unat s))"
        "buf_inv b'" "(curSegment b, unat s) \<notin> live b" "live b' = insert (curSegment b, unat s) (live b)"
        "unat s < unat (segmentCap b)" "segmentCap b' = segmentCap b" "pageSize b' = pageSize b"
        "length (segments b') = length (segments b)" by auto
      then show ?thesis using True al by (subst alloc_seg_loop.simps) auto
    qed
  qed
qed

lemma addSegment_ok:
  assumes inv: "buf_inv b"
  shows "length (segments b) < DefaultMaxSegments \<Longrightarrow>
    \<exists>b'. addSegment None b = (b', None) \<and> buf_inv b' \<and> live b' = live b \<and> segmentCap b' = segmentCap b \<and>
      pageSize b' = pageSize b \<and> length (segments b') = Suc (length (segments b)) \<and>
      curSegment b' = curSegment b \<and> slots (sbitmap (segments b' ! length (segments b))) = {}"
proof -
  assume lt: "length (segments b) < DefaultMaxSegments"
  define b' where "b' = fst (addSegment None b)"
  have a: "addSegment None b = (b', None)" using lt by (simp add: b'_def addSegment_def Let_def)
  note nb = NewBitmap_ok [OF buf_invD(6) [OF inv]]
  have s': "segments b' = segments b @ [segments b' ! length (segments b)]"
    "sbitmap (segments b' ! length (segments b)) = NewBitmap (segmentCap b)"
    "scap (segments b' ! length (segments b)) = segmentCap b"
    "length (smmap (segments b' ! length (segments b))) = unat (segmentCap b) * unat (pageSize b)"
    "segmentCap b' = segmentCap b" "pageSize b' = pageSize b" "curSegment b' = curSegment b"
    "totalAlloc b' = totalAlloc b"
    using lt by (simp_all add: b'_def addSegment_def Let_def)
  have old: "segments b' ! i = segments b ! i" if "i < length (segments b)" for i
    using that s'(1) by (metis nth_append)
  have len: "length (segments b') = Suc (length (segments b))" using s'(1) by (metis length_append_singleton)
  have lv: "live b' = live b"
  proof (rule set_eqI)
    fix x :: "nat \<times> nat"
    consider "fst x < length (segments b)" | "fst x = length (segments b)" | "fst x > length (segments b)"
      by linarith
    then show "x \<in> live b' \<longleftrightarrow> x \<in> live b"
      by cases (use old [of "fst x"] nb(2) s'(2) len in \<open>auto simp: live_def\<close>)
  qed
  have "buf_inv b'"
    unfolding buf_inv_def
  proof (intro conjI allI impI)
    fix i assume "i < length (segments b')"
    then consider "i < length (segments b)" | "i = length (segments b)" using len by linarith
    then show "seg_inv b' (segments b' ! i)"
    proof cases
      case 1
      then show ?thesis using buf_invD(1) [OF inv 1] old s' by (simp add: seg_inv_def)
    next
      case 2
      then show ?thesis using nb s' by (simp add: seg_inv_def)
    qed
  next
    fix i assume i: "i < curSegment b'"
    then have "i < length (segments b)" using buf_invD(2) [OF inv] s'(7) by simp
    then show "slots (sbitmap (segments b' ! i)) = {..< unat (segmentCap b')}"
      using buf_invD(3) [OF inv, of i] i old s'(5,7) by simp
  qed (use inv s' lv len in \<open>auto simp: buf_inv_def\<close>)
  then show ?thesis using a s' lv len nb(2) by auto
qed

text \<open>
  \<open>Allocate\<close> hands out a slot nobody holds, and it fails only when every slot of every segment is
  taken and no segment can be added.
\<close>

theorem SpillAllocate_ok:
  assumes inv: "buf_inv b"
  shows "\<exists>b' r e. SpillAllocate os b = Some (b', r, e) \<and> buf_inv b' \<and> segmentCap b' = segmentCap b \<and>
    pageSize b' = pageSize b \<and>
    (case r of
       Some (reg, sl) \<Rightarrow> e = None \<and> (\<exists>i s. i < length (segments b') \<and> s < unat (segmentCap b) \<and> (i, s) \<notin> live b \<and>
         live b' = insert (i, s) (live b) \<and> reg = region_of b i s \<and> sl = slot_of i s)
     | None \<Rightarrow> e \<noteq> None \<and> live b' = live b \<and> (os \<noteq> None \<or> DefaultMaxSegments \<le> length (segments b)) \<and>
         live b = {..< length (segments b)} \<times> {..< unat (segmentCap b)})"
proof -
  from alloc_seg_loop_ok [OF inv] obtain b1 r where
    l: "alloc_seg_loop b = Some (b1, r)" "buf_inv b1" "segmentCap b1 = segmentCap b" "pageSize b1 = pageSize b"
      "length (segments b1) = length (segments b)"
    and c: "case r of
       None \<Rightarrow> segments b1 = segments b \<and> curSegment b1 = length (segments b) \<and> totalAlloc b1 = totalAlloc b
     | Some (reg, sl) \<Rightarrow> \<exists>i s. i < length (segments b) \<and> s < unat (segmentCap b) \<and> (i, s) \<notin> live b \<and>
         live b1 = insert (i, s) (live b) \<and> reg = region_of b i s \<and> sl = slot_of i s" by blast
  show ?thesis
  proof (cases r)
    case (Some x)
    obtain reg sl where x: "x = (reg, sl)" by (cases x)
    have "SpillAllocate os b = Some (b1, Some (reg, sl), None)"
      using l(1) Some x by (simp add: SpillAllocate_def)
    then show ?thesis using l c Some x by auto
  next
    case None
    with c have n: "segments b1 = segments b" "curSegment b1 = length (segments b)" by auto
    have lv: "live b1 = live b" using n(1) by (simp add: live_def)
    have full: "live b = {..< length (segments b)} \<times> {..< unat (segmentCap b)}"
    proof -
      have "slots (sbitmap (segments b ! i)) = {..< unat (segmentCap b)}" if "i < length (segments b)" for i
        using buf_invD(3) [OF l(2), of i] n that l(3) by simp
      then show ?thesis by (auto simp: live_def)
    qed
    have sa: "SpillAllocate os b = (case addSegment os b1 of
                 (b2, Some e) \<Rightarrow> Some (b2, None, Some e)
               | (b2, None) \<Rightarrow>
                   if curSegment b2 < length (segments b2) then
                     do { (bm, slotIdx, ok) \<leftarrow> Allocate (sbitmap (segments b2 ! curSegment b2));
                          if \<not> ok then Some (b2, None, Some ErrBufferFull)
                          else do { (b3, r, s) \<leftarrow> take_slot b2 (curSegment b2) bm slotIdx;
                                    Some (b3, Some (r, s), None) } }
                   else None)"
      using l(1) None by (simp add: SpillAllocate_def)
    show ?thesis
    proof (cases "os \<noteq> None \<or> DefaultMaxSegments \<le> length (segments b)")
      case True
      then have "\<exists>e. addSegment os b1 = (b1, Some e)"
        using l(5) by (auto simp: addSegment_def Let_def)
      then obtain e where "addSegment os b1 = (b1, Some e)" ..
      then show ?thesis using sa l lv full True by auto
    next
      case False
      then have "length (segments b1) < DefaultMaxSegments" "os = None" using l(5) by auto
      with addSegment_ok [OF l(2)] obtain b2 where
        a: "addSegment os b1 = (b2, None)" "buf_inv b2" "live b2 = live b" "segmentCap b2 = segmentCap b"
          "pageSize b2 = pageSize b" "length (segments b2) = Suc (length (segments b))"
          "curSegment b2 = length (segments b)" "slots (sbitmap (segments b2 ! length (segments b))) = {}"
        using n l lv by auto
      have i: "curSegment b2 < length (segments b2)" using a(6,7) by simp
      have si: "bm_inv (sbitmap (segments b2 ! curSegment b2))"
        "numSlots (sbitmap (segments b2 ! curSegment b2)) = segmentCap b"
        using buf_invD(1) [OF a(2) i] a(4) by (simp_all add: seg_inv_def)
      have "slots (sbitmap (segments b2 ! curSegment b2)) \<noteq> {..< unat (segmentCap b)}"
        using a(7,8) buf_invD(5) [OF inv] by auto
      with Allocate_ok [OF si(1)] si(2) obtain bm s where
        al: "Allocate (sbitmap (segments b2 ! curSegment b2)) = Some (bm, s, True)" by auto
      from take_slot_ok [OF a(2) i _ al] obtain b3 where
        t: "take_slot b2 (curSegment b2) bm s =
            Some (b3, region_of b2 (curSegment b2) (unat s), slot_of (curSegment b2) (unat s))"
          "buf_inv b3" "(curSegment b2, unat s) \<notin> live b2" "live b3 = insert (curSegment b2, unat s) (live b2)"
          "unat s < unat (segmentCap b2)" "segmentCap b3 = segmentCap b2" "pageSize b3 = pageSize b2"
          "length (segments b3) = length (segments b2)" by auto
      have "SpillAllocate os b = Some (b3, Some (region_of b (curSegment b2) (unat s), slot_of (curSegment b2) (unat s)), None)"
        using sa a(1,5) i al t(1) by (simp add: region_of_def)
      then show ?thesis using t a i by auto
    qed
  qed
qed

section \<open>Slots as indices\<close>

definition slot_idx :: "Slot \<Rightarrow> nat \<times> nat" where "slot_idx sl = (unat (SegmentIdx sl), unat (SlotIdx sl))"

text \<open>The two 16-bit indices of a slot identify it as long as they are not truncated.\<close>

lemma slot_idx_of: "i < 65536 \<Longrightarrow> s < 65536 \<Longrightarrow> slot_idx (slot_of i s) = (i, s)"
  by (simp add: slot_idx_def slot_of_def unat_of_nat16)

lemma SpillGet_ok:
  assumes inv: "buf_inv b" and cap: "unat (segmentCap b) < 65536"
    and i: "i < length (segments b)" "i < 65536" and s: "s < unat (segmentCap b)"
  shows "SpillGet b (Some (slot_of i s)) = Some (Some (region_of b i s))"
proof -
  have si: "scap (segments b ! i) = segmentCap b"
    "length (smmap (segments b ! i)) = unat (segmentCap b) * unat (pageSize b)"
    using buf_invD(1) [OF inv i(1)] by (simp_all add: seg_inv_def)
  have s': "s < 65536" using s cap by simp
  have ix: "unat (SegmentIdx (slot_of i s)) = i" "unat (SlotIdx (slot_of i s)) = s"
    using slot_idx_of [OF i(2) s'] by (simp_all add: slot_idx_def)
  have "unat (ucast (segmentCap b) :: u16) = unat (segmentCap b)"
    using cap by (simp add: unsigned_ucast_eq take_bit_nat_eq_self)
  then have "\<not> SlotIdx (slot_of i s) \<ge> ucast (segmentCap b)"
    using s ix(2) by (simp add: word_le_nat_alt)
  then show ?thesis
    using i ix si region_inside [OF s, of "unat (pageSize b)"]
    by (simp add: SpillGet_def Let_def region_of_def)
qed

lemma regions_disjoint:
  assumes "(i, s) \<noteq> (j, t)"
  shows "case (region_of b i s, region_of b j t) of ((i1, o1, n1), (i2, o2, n2)) \<Rightarrow>
    i1 \<noteq> i2 \<or> o1 + n1 \<le> o2 \<or> o2 + n2 \<le> o1"
proof (cases "i = j")
  case True
  then have "s < t \<or> t < s" using assms by auto
  then show ?thesis
    using region_inside [of s t "unat (pageSize b)"] region_inside [of t s "unat (pageSize b)"]
    by (auto simp: region_of_def)
qed (simp add: region_of_def)

section \<open>Releasing\<close>

lemma free_in_ok:
  assumes inv: "buf_inv b" and sl: "slot_idx sl = (i, s)" and lv: "(i, s) \<in> live b"
  shows "\<exists>bm. free_in b sl = Some (b\<lparr>segments := with_bitmap b i bm, totalAlloc := totalAlloc b - 1\<rparr>) \<and>
    Free (sbitmap (segments b ! i)) (ucast (SlotIdx sl)) = Some bm \<and>
    bm_inv bm \<and> numSlots bm = segmentCap b \<and> slots bm = slots (sbitmap (segments b ! i)) - {s} \<and>
    i < length (segments b) \<and>
    of_nat (card (live b - {(i, s)})) = totalAlloc b - 1"
proof -
  have i: "i < length (segments b)" using lv by (simp add: live_def)
  have si: "bm_inv (sbitmap (segments b ! i))" "numSlots (sbitmap (segments b ! i)) = segmentCap b"
    using buf_invD(1) [OF inv i] by (simp_all add: seg_inv_def)
  have ix: "unat (SegmentIdx sl) = i" "unat (SlotIdx sl) = s" using sl by (simp_all add: slot_idx_def)
  have us: "unat (ucast (SlotIdx sl) :: u32) = s"
    using ix(2) unat_u16 [of "SlotIdx sl"] by (simp add: unsigned_ucast_eq take_bit_nat_eq_self)
  from Free_ok [OF si(1), of "ucast (SlotIdx sl)"] obtain bm where
    bm: "Free (sbitmap (segments b ! i)) (ucast (SlotIdx sl)) = Some bm" "bm_inv bm"
      "slots bm = slots (sbitmap (segments b ! i)) - {s}" "numSlots bm = segmentCap b"
    unfolding us si(2) by blast
  have "0 < card (live b)" using finite_live [OF inv] lv by (auto simp: card_gt_0_iff)
  then have "of_nat (card (live b - {(i, s)})) = totalAlloc b - 1"
    using finite_live [OF inv] lv buf_invD(4) [OF inv] by (simp add: card_Diff_singleton of_nat_diff)
  then show ?thesis using bm i ix by (auto simp: free_in_def Let_def with_bitmap_def)
qed

theorem Release_ok:
  assumes inv: "buf_inv b" and sl: "slot_idx sl = (i, s)" and lv: "(i, s) \<in> live b"
  shows "\<exists>b'. Release b (Some sl) = Some b' \<and> buf_inv b' \<and> live b' = live b - {(i, s)} \<and>
    segmentCap b' = segmentCap b \<and> pageSize b' = pageSize b \<and> length (segments b') = length (segments b)"
proof -
  from free_in_ok [OF assms] obtain bm where
    f: "free_in b sl = Some (b\<lparr>segments := with_bitmap b i bm, totalAlloc := totalAlloc b - 1\<rparr>)"
      "bm_inv bm" "numSlots bm = segmentCap b" "slots bm = slots (sbitmap (segments b ! i)) - {s}"
      "i < length (segments b)" "of_nat (card (live b - {(i, s)})) = totalAlloc b - 1" by blast
  have ix: "unat (SegmentIdx sl) = i" using sl by (simp add: slot_idx_def)
  define b1 where "b1 = b\<lparr>segments := with_bitmap b i bm, totalAlloc := totalAlloc b - 1\<rparr>"
  define b2 where "b2 = (if i < curSegment b then b1\<lparr>curSegment := i\<rparr> else b1)"
  have r: "Release b (Some sl) = Some b2"
    using f(1,5) ix by (simp add: Release_def Let_def b1_def b2_def)
  have s2: "segments b2 = with_bitmap b i bm" "segmentCap b2 = segmentCap b" "pageSize b2 = pageSize b"
    "totalAlloc b2 = totalAlloc b - 1" "curSegment b2 = (if i < curSegment b then i else curSegment b)"
    by (simp_all add: b2_def b1_def)
  have lv2: "live b2 = live b - {(i, s)}" by (rule live_remove [OF f(5) s2(1) f(4)])
  have "buf_inv b2"
  proof (rule buf_inv_with_bitmap [OF inv f(5,2,3) s2(1-3)])
    show "curSegment b2 \<le> curSegment b" by (simp add: s2(5))
    show "totalAlloc b2 = of_nat (card (live b2))" unfolding lv2 s2(4) by (rule f(6) [symmetric])
    assume "i < curSegment b2"
    then show "slots bm = {..< unat (segmentCap b)}" by (simp add: s2(5) split: if_splits)
  qed
  then show ?thesis using r lv2 s2 by (auto simp: with_bitmap_def)
qed

lemma SpillClear_ok:
  assumes "buf_inv b"
  shows "buf_inv (SpillClear b) \<and> live (SpillClear b) = {} \<and> segmentCap (SpillClear b) = segmentCap b \<and>
    pageSize (SpillClear b) = pageSize b"
proof -
  have c: "bm_inv (sbitmap (segments b ! i))" if "i < length (segments b)" for i
    using buf_invD(1) [OF assms that] by (simp add: seg_inv_def)
  have lv: "live (SpillClear b) = {}"
    using BitmapClear_ok c by (auto simp: live_def SpillClear_def)
  have "seg_inv (SpillClear b) (segments (SpillClear b) ! i)" if "i < length (segments b)" for i
    using buf_invD(1) [OF assms that] BitmapClear_ok [OF c [OF that]] that
    by (simp add: seg_inv_def SpillClear_def)
  then have "buf_inv (SpillClear b)"
    using lv assms by (auto simp: buf_inv_def) (auto simp: SpillClear_def)
  then show ?thesis using lv by (simp add: SpillClear_def)
qed

lemma New_ok:
  assumes "unat cap < 2 ^ 32 - 64"
  shows "\<exists>b. New None path ps cap = Inr b \<and> buf_inv b \<and> live b = {} \<and> pageSize b = ps \<and>
    segmentCap b = (if cap = 0 then DefaultInitialCap else cap)"
proof -
  define c where "c = (if cap = 0 then DefaultInitialCap else cap)"
  have c: "0 < unat c" "unat c < 2 ^ 32 - 64"
    using assms by (auto simp: c_def DefaultInitialCap_def unat_eq_zero intro: gr0I)
  define b0 where "b0 = \<lparr>basePath = path, pageSize = ps, segmentCap = c, segments = [], curSegment = 0, totalAlloc = 0\<rparr>"
  have l0: "live b0 = {}" by (simp add: live_def b0_def)
  have "buf_inv b0" unfolding buf_inv_def l0 using c by (simp add: b0_def)
  from addSegment_ok [OF this] obtain b where
    b: "addSegment None b0 = (b, None)" "buf_inv b" "live b = live b0" "segmentCap b = segmentCap b0" "pageSize b = pageSize b0"
    by (auto simp: b0_def DefaultMaxSegments_def)
  have "New None path ps cap = Inr b"
    using b(1) by (simp add: New_def Let_def flip: c_def b0_def)
  then show ?thesis using b l0 by (auto simp: b0_def c_def)
qed

section \<open>The spill buffer is a slot allocator\<close>

text \<open>
  The client's handle is the region it was given.  A region may be released while it is live and
  its two indices fit in the 16 bits of a \<open>Slot\<close>; beyond that the slot names another region.
\<close>

definition spill_alloc :: "buffer \<Rightarrow> (buffer \<times> region option) option" where
  "spill_alloc b = map_option (\<lambda>(b', r, e). (b', map_option fst r)) (SpillAllocate None b)"

definition slot_at :: "buffer \<Rightarrow> region \<Rightarrow> Slot" where
  "slot_at b r = (case r of (i, off, n) \<Rightarrow> slot_of i (off div unat (pageSize b)))"

definition spill_free :: "buffer \<Rightarrow> region \<Rightarrow> buffer option" where
  "spill_free b r = Release b (Some (slot_at b r))"

definition live_regions :: "buffer \<Rightarrow> region set" where
  "live_regions b = (\<lambda>(i, s). region_of b i s) ` live b"

definition spill_ok :: "buffer \<Rightarrow> bool" where
  "spill_ok b \<longleftrightarrow> buf_inv b \<and> 0 < unat (pageSize b)"

definition releasable :: "buffer \<Rightarrow> region \<Rightarrow> bool" where
  "releasable b r \<longleftrightarrow> r \<in> live_regions b \<and> fst r < 65536 \<and> fst (snd r) div unat (pageSize b) < 65536"

lemma region_inj: "spill_ok b \<Longrightarrow> region_of b i s = region_of b j t \<longleftrightarrow> i = j \<and> s = t"
  by (auto simp: region_of_def spill_ok_def)

interpretation sp: slot_pool spill_alloc spill_free live_regions spill_ok releasable
proof
  fix b assume ok: "spill_ok b"
  then have inv: "buf_inv b" by (simp add: spill_ok_def)
  from SpillAllocate_ok [OF inv, of None] obtain b' r e where
    a: "SpillAllocate None b = Some (b', r, e)" "buf_inv b'" "pageSize b' = pageSize b"
    and c: "case r of
       Some (reg, sl) \<Rightarrow> e = None \<and> (\<exists>i s. i < length (segments b') \<and> s < unat (segmentCap b) \<and> (i, s) \<notin> live b \<and>
         live b' = insert (i, s) (live b) \<and> reg = region_of b i s \<and> sl = slot_of i s)
     | None \<Rightarrow> e \<noteq> None \<and> live b' = live b \<and> (None \<noteq> (None :: goerror option) \<or> DefaultMaxSegments \<le> length (segments b)) \<and>
         live b = {..< length (segments b)} \<times> {..< unat (segmentCap b)}" by blast
  have reg: "region_of b' = region_of b" using a(3) by (simp add: region_of_def fun_eq_iff)
  have ok': "spill_ok b'" using ok a(2,3) by (simp add: spill_ok_def)
  show "\<exists>s' r. spill_alloc b = Some (s', r) \<and> spill_ok s' \<and>
    (case r of None \<Rightarrow> live_regions s' = live_regions b
     | Some i \<Rightarrow> i \<notin> live_regions b \<and> live_regions s' = insert i (live_regions b))"
  proof (cases r)
    case None
    then show ?thesis using a(1) c ok' reg by (simp add: spill_alloc_def live_regions_def)
  next
    case (Some x)
    with c obtain i s sl where x: "x = (region_of b i s, sl)" "(i, s) \<notin> live b" "live b' = insert (i, s) (live b)"
      by (cases x) auto
    have "region_of b i s \<notin> live_regions b"
      using x(2) region_inj [OF ok] by (auto simp: live_regions_def)
    then show ?thesis using a(1) Some x ok' reg by (simp add: spill_alloc_def live_regions_def)
  qed
next
  fix b and r :: region assume ok: "spill_ok b" and rel: "releasable b r"
  then have inv: "buf_inv b" and ps: "0 < unat (pageSize b)" by (simp_all add: spill_ok_def)
  from rel obtain i s where r: "r = region_of b i s" "(i, s) \<in> live b"
    by (auto simp: releasable_def live_regions_def)
  have lt: "i < 65536" "s < 65536" using rel ps by (simp_all add: releasable_def r(1) region_of_def)
  have at: "slot_at b r = slot_of i s" using ps by (simp add: slot_at_def r(1) region_of_def)
  from Release_ok [OF inv slot_idx_of [OF lt] r(2)] obtain b' where
    b': "Release b (Some (slot_of i s)) = Some b'" "buf_inv b'" "live b' = live b - {(i, s)}" "pageSize b' = pageSize b"
    by blast
  have "region_of b' = region_of b" using b'(4) by (simp add: region_of_def fun_eq_iff)
  then have "live_regions b' = live_regions b - {r}"
    using b'(3) r region_inj [OF ok] by (auto simp: live_regions_def)
  then show "\<exists>s'. spill_free b r = Some s' \<and> spill_ok s' \<and> live_regions s' = live_regions b - {r}"
    using b' ok at by (auto simp: spill_free_def spill_ok_def)
qed

section \<open>Bulk release\<close>

definition bulk_indices :: "Slot option list \<Rightarrow> (nat \<times> nat) set" where
  "bulk_indices sls = {slot_idx sl | sl. Some sl \<in> set sls}"

text \<open>Releasing many distinct live slots at once.\<close>

lemma bulk_loop_ok:
  assumes "buf_inv (b\<lparr>curSegment := m\<rparr>)" "m \<le> curSegment b"
    and "\<And>sl. Some sl \<in> set sls \<Longrightarrow> slot_idx sl \<in> live b"
    and "distinct (map slot_idx (map the (List.filter (\<lambda>x. x \<noteq> None) sls)))"
  shows "\<exists>b' m'. bulk_loop b m sls = Some (b', m') \<and> buf_inv (b'\<lparr>curSegment := m'\<rparr>) \<and>
    live b' = live b - bulk_indices sls \<and> m' \<le> m \<and> segmentCap b' = segmentCap b \<and> pageSize b' = pageSize b"
  using assms
proof (induction sls arbitrary: b m)
  case Nil
  then show ?case by (simp add: bulk_indices_def)
next
  case (Cons x sls)
  show ?case
  proof (cases x)
    case None
    have "bulk_indices (x # sls) = bulk_indices sls" using None by (simp add: bulk_indices_def)
    then show ?thesis using None Cons.IH [OF Cons.prems(1,2)] Cons.prems(3,4) by simp
  next
    case (Some sl)
    obtain i s where ix: "slot_idx sl = (i, s)" by (cases "slot_idx sl")
    have lv: "(i, s) \<in> live b" using Cons.prems(3) [of sl] Some ix by simp
    let ?c = "b\<lparr>curSegment := m\<rparr>"
    have lc: "live ?c = live b" by (simp add: live_def)
    from free_in_ok [OF Cons.prems(1) ix] lv lc obtain bm where
      f0: "Free (sbitmap (segments b ! i)) (ucast (SlotIdx sl)) = Some bm" and
      f: "free_in ?c sl = Some (?c\<lparr>segments := with_bitmap ?c i bm, totalAlloc := totalAlloc ?c - 1\<rparr>)"
        "bm_inv bm" "numSlots bm = segmentCap b" "slots bm = slots (sbitmap (segments b ! i)) - {s}"
        "i < length (segments b)" "of_nat (card (live b - {(i, s)})) = totalAlloc b - 1" by auto
    have wb: "with_bitmap ?c i bm = with_bitmap b i bm" by (simp add: with_bitmap_def)
    define b1 where "b1 = b\<lparr>segments := with_bitmap b i bm, totalAlloc := totalAlloc b - 1\<rparr>"
    have ix': "unat (SegmentIdx sl) = i" using ix by (simp add: slot_idx_def)
    have fb: "free_in b sl = Some b1"
      using f0 ix' by (simp add: free_in_def Let_def b1_def with_bitmap_def)
    define m1 where "m1 = (if i < m then i else m)"
    have l1: "live b1 = live b - {(i, s)}" by (rule live_remove [OF f(5) _ f(4)]) (simp add: b1_def)
    have inv1: "buf_inv (b1\<lparr>curSegment := m1\<rparr>)"
    proof (rule buf_inv_with_bitmap [OF Cons.prems(1), of i bm])
      have "live (b1\<lparr>curSegment := m1\<rparr>) = live b - {(i, s)}" using l1 by (simp add: live_def)
      then show "totalAlloc (b1\<lparr>curSegment := m1\<rparr>) = of_nat (card (live (b1\<lparr>curSegment := m1\<rparr>)))"
        using f(6) by (simp add: b1_def)
      assume "i < curSegment (b1\<lparr>curSegment := m1\<rparr>)"
      then show "slots bm = {..< unat (segmentCap (b\<lparr>curSegment := m\<rparr>))}" by (simp add: m1_def split: if_splits)
    qed (use f(2,3,5) wb in \<open>simp_all add: b1_def m1_def\<close>)
    have m1: "m1 \<le> curSegment b1" using Cons.prems(2) by (simp add: m1_def b1_def)
    have prem: "slot_idx sl' \<in> live b1" if "Some sl' \<in> set sls" for sl'
    proof -
      have "slot_idx sl' \<noteq> (i, s)"
        using Cons.prems(4) Some ix that by (force simp: image_iff)
      then show ?thesis using Cons.prems(3) [of sl'] that l1 by simp
    qed
    have "distinct (map slot_idx (map the (List.filter (\<lambda>x. x \<noteq> None) sls)))"
      using Cons.prems(4) Some by simp
    from Cons.IH [OF inv1 m1 prem this] obtain b' m' where
      IH: "bulk_loop b1 m1 sls = Some (b', m')" "buf_inv (b'\<lparr>curSegment := m'\<rparr>)"
        "live b' = live b1 - bulk_indices sls" "m' \<le> m1" "segmentCap b' = segmentCap b1" "pageSize b' = pageSize b1"
      by blast
    have "bulk_indices (x # sls) = insert (i, s) (bulk_indices sls)"
      using Some by (auto simp: bulk_indices_def simp flip: ix)
    moreover have "bulk_loop b m (x # sls) = bulk_loop b1 m1 sls"
      using Some ix' f(5) fb by (simp add: m1_def)
    ultimately show ?thesis using IH l1 by (auto simp: m1_def b1_def split: if_splits)
  qed
qed

theorem ReleaseBulk_ok:
  assumes "buf_inv b" "\<And>sl. Some sl \<in> set sls \<Longrightarrow> slot_idx sl \<in> live b"
    and "distinct (map slot_idx (map the (List.filter (\<lambda>x. x \<noteq> None) sls)))"
  shows "\<exists>b'. ReleaseBulk b sls = Some b' \<and> buf_inv b' \<and> live b' = live b - bulk_indices sls"
proof (cases "sls = []")
  case True
  then show ?thesis using assms(1) by (simp add: ReleaseBulk_def bulk_indices_def)
next
  case False
  have "buf_inv (b\<lparr>curSegment := curSegment b\<rparr>)" using assms(1) by simp
  from bulk_loop_ok [OF this le_refl assms(2,3)] obtain b' m' where
    "bulk_loop b (curSegment b) sls = Some (b', m')" "buf_inv (b'\<lparr>curSegment := m'\<rparr>)"
    "live b' = live b - bulk_indices sls" by blast
  then show ?thesis using False by (auto simp: ReleaseBulk_def live_def)
qed

section \<open>Room for allocations\<close>

definition spill_room :: "nat \<Rightarrow> buffer \<Rightarrow> bool" where
  "spill_room n b \<longleftrightarrow> spill_ok b \<and> card (live b) + n \<le> DefaultMaxSegments"

lemma spill_room_alloc:
  assumes "spill_room (Suc n) b"
  obtains b' i s where "SpillAllocate None b = Some (b', Some (region_of b i s, slot_of i s), None)" "spill_room n b'"
    "pageSize b' = pageSize b" "(i, s) \<notin> live b" "live b' = insert (i, s) (live b)"
proof -
  from assms have inv: "buf_inv b" and ok: "spill_ok b" and c: "card (live b) + Suc n \<le> DefaultMaxSegments"
    by (simp_all add: spill_room_def spill_ok_def)
  from SpillAllocate_ok [OF inv, of None] obtain b' r e where
    a: "SpillAllocate None b = Some (b', r, e)" "buf_inv b'" "pageSize b' = pageSize b" and
    r: "case r of
       Some (reg, sl) \<Rightarrow> e = None \<and> (\<exists>i s. i < length (segments b') \<and> s < unat (segmentCap b) \<and> (i, s) \<notin> live b \<and>
         live b' = insert (i, s) (live b) \<and> reg = region_of b i s \<and> sl = slot_of i s)
     | None \<Rightarrow> e \<noteq> None \<and> live b' = live b \<and> (None \<noteq> (None :: goerror option) \<or> DefaultMaxSegments \<le> length (segments b)) \<and>
         live b = {..< length (segments b)} \<times> {..< unat (segmentCap b)}" by blast
  have "r \<noteq> None"
  proof
    assume "r = None"
    with r have l: "DefaultMaxSegments \<le> length (segments b)"
      and e: "live b = {..< length (segments b)} \<times> {..< unat (segmentCap b)}" by auto
    have "length (segments b) * 1 \<le> length (segments b) * unat (segmentCap b)"
      using buf_invD(5) [OF inv] by (intro mult_le_mono) auto
    then have "length (segments b) \<le> card (live b)" by (simp add: e card_cartesian_product)
    then show False using l c by simp
  qed
  with r obtain i s where x: "r = Some (region_of b i s, slot_of i s)" "e = None" "(i, s) \<notin> live b"
    "live b' = insert (i, s) (live b)" by (auto split: option.splits)
  moreover have "spill_room n b'"
    using ok a(2,3) c x(3,4) finite_live [OF inv] by (simp add: spill_room_def spill_ok_def)
  ultimately show ?thesis using that a by blast
qed

end
