(* ===== verification/TxnRead.thy ===== *)
theory TxnRead
  imports Search Fastmap Meta Spill
begin

text \<open>
  The lookup path of a transaction (txn.go): the dirty page tracker, the page sources of read-only
  and write transactions, Txn.Get and the three tree descents behind it, and the first value of a
  duplicate set.  A transaction comes with the chain of its parents: the functions that walk up
  the chain take the list of transactions, innermost first.  \<open>None\<close> is a panic or a descent that
  does not end.
\<close>

section \<open>State\<close>

type_synonym pgno = u32
type_synonym cmp_fn = "bytes \<Rightarrow> bytes \<Rightarrow> int"

record dbiInfo =
  di_name :: bytes
  di_flags :: u64
  di_tree :: "tree option"
  di_cmp :: "cmp_fn option"
  di_dcmp :: "cmp_fn option"

record env =
  envSignature :: u32
  envFlags :: u64
  dataMap :: "bytes option"
  envPageSize :: u32
  maxReaders :: u32
  maxDBs :: u32
  geoLower :: u64
  geoUpper :: u64
  geoNow :: u64
  geoGrow :: u64
  geoShrink :: u64
  envMeta :: "metaTriple option"
  dbis :: "dbiInfo option list"
  mmapVersion :: u64
  spillBuf :: "buffer option"

text \<open>
  \<open>structs\<close> holds the page structs the dirty page tracker points to; a pointer is an index into it.
  The data of a struct is a page of the writable mapping, seen through the mapping so that there
  is one copy of its bytes, or a buffer of its own.
\<close>

datatype pstruct = MapPage pgno | OwnPage bytes

record txn =
  signature :: int
  txnFlags :: u32
  txnID_of :: u64
  trees :: "tree list"
  dirtyTracker :: "nat Uint32Map"
  structs :: "pstruct list"
  freePages :: "pgno list"
  allocatedPg :: pgno
  hasNonMmapPages :: bool
  dbiDirty :: "bool list option"
  dbiComparators :: "cmp_fn option list"
  dbiDupComparators :: "cmp_fn option list"
  dbiUsesDefaultCmp :: "bool list"
  dbiUsesDefaultDupCmp :: "bool list"
  spillSlots :: "Slot Uint32Map"
  pageCache :: "(u32 \<rightharpoonup> page) option"
  mmapData :: "bytes option"
  txnPageSize :: u32

definition txnSignature :: int where "txnSignature = 0x54584E58"

definition txn_valid :: "txn \<Rightarrow> bool" where
  "txn_valid t \<longleftrightarrow> signature t = txnSignature"

definition IsReadOnly :: "txn \<Rightarrow> bool" where
  "IsReadOnly t \<longleftrightarrow> txnFlags t AND ucast TxnReadOnly \<noteq> 0"

text \<open>A nil slice reads like an empty one.\<close>

definition mapped :: "bytes option \<Rightarrow> bytes" where
  "mapped d = (case d of None \<Rightarrow> [] | Some b \<Rightarrow> b)"

text \<open>Env.getMmapPageData: a slice of the mapping, nil beyond its end.\<close>

definition getMmapPageData :: "env \<Rightarrow> pgno \<Rightarrow> bytes option" where
  "getMmapPageData e pn =
     (case dataMap e of
        None \<Rightarrow> None
      | Some d \<Rightarrow>
          let off = unat pn * unat (envPageSize e); stop = off + unat (envPageSize e) in
          if stop > length d then None else Some (take (unat (envPageSize e)) (drop off d)))"

text \<open>dirtyPageTracker.get: the stored pointer, nil for a missing key, and the struct it points to.\<close>

definition tracker_ref :: "txn \<Rightarrow> pgno \<Rightarrow> nat option option" where
  "tracker_ref t pn = Get (dirtyTracker t) pn"

definition deref :: "env \<Rightarrow> txn \<Rightarrow> nat \<Rightarrow> page option" where
  "deref e t a =
     (if a < length (structs t) then
        (case structs t ! a of MapPage pg \<Rightarrow> map_option (\<lambda>d. \<lparr>Data = d\<rparr>) (getMmapPageData e pg)
         | OwnPage d \<Rightarrow> Some \<lparr>Data = d\<rparr>)
      else None)"

definition tracker_get :: "env \<Rightarrow> txn \<Rightarrow> pgno \<Rightarrow> page option option" where
  "tracker_get e t pn =
     do { r \<leftarrow> tracker_ref t pn;
          case r of None \<Rightarrow> Some None | Some a \<Rightarrow> map_option Some (deref e t a) }"

definition tracker_set :: "txn \<Rightarrow> pgno \<Rightarrow> nat \<Rightarrow> txn option" where
  "tracker_set t pn a = map_option (\<lambda>m. t\<lparr>dirtyTracker := m\<rparr>) (Set (dirtyTracker t) pn (Some a))"

section \<open>Page sources\<close>

definition env_getPageData :: "env \<Rightarrow> pgno \<Rightarrow> goerror + bytes" where
  "env_getPageData e pg =
     (case dataMap e of
        None \<Rightarrow> Inl (NewError ErrInvalid)
      | Some d \<Rightarrow>
          let off = unat pg * unat (envPageSize e); stop = off + unat (envPageSize e) in
          if stop > length d then Inl (NewError ErrPageNotFound)
          else Inr (take (unat (envPageSize e)) (drop off d)))"

fun getPageData :: "env \<Rightarrow> txn list \<Rightarrow> pgno \<Rightarrow> (goerror + bytes) option" where
  "getPageData e [] pg = None"
| "getPageData e (t # ps) pg =
     do { d \<leftarrow> tracker_get e t pg;
          case d of
            Some p \<Rightarrow> Some (Inr (Data p))
          | None \<Rightarrow> if ps \<noteq> [] then getPageData e ps pg else Some (env_getPageData e pg) }"

fun getPage :: "env \<Rightarrow> txn list \<Rightarrow> pgno \<Rightarrow> (txn list \<times> (goerror + page)) option" where
  "getPage e [] pg = None"
| "getPage e (t # ps) pg =
     do { hit \<leftarrow> (if IsReadOnly t then Some (case pageCache t of None \<Rightarrow> None | Some m \<Rightarrow> m pg)
                  else tracker_get e t pg);
          case hit of
            Some p \<Rightarrow> Some (t # ps, Inr p)
          | None \<Rightarrow>
              if ps \<noteq> [] then do { (ps', r) \<leftarrow> getPage e ps pg; Some (t # ps', r) }
              else
                (case env_getPageData e pg of
                   Inl err \<Rightarrow> Some ([t], Inl err)
                 | Inr d \<Rightarrow>
                     let p = \<lparr>Data = d\<rparr>;
                         cache = (case pageCache t of None \<Rightarrow> Map.empty | Some m \<Rightarrow> m)
                     in Some ([if IsReadOnly t then t\<lparr>pageCache := Some (cache(pg \<mapsto> p))\<rparr> else t], Inr p)) }"

definition txn_initMmapCache :: "env \<Rightarrow> txn \<Rightarrow> txn" where
  "txn_initMmapCache e t =
     (if mmapData t = None \<and> dataMap e \<noteq> None
      then t\<lparr>mmapData := dataMap e, txnPageSize := envPageSize e\<rparr> else t)"

text \<open>\<open>Some None\<close> is the nil slice; a missing mapping is a nil pointer.\<close>

definition getPageDataFast :: "env \<Rightarrow> txn \<Rightarrow> pgno \<Rightarrow> (txn \<times> bytes option) option" where
  "getPageDataFast e t pg =
     (let t = (if mmapData t = None then txn_initMmapCache e t else t);
          off = unat pg * unat (txnPageSize t);
          stop = off + unat (txnPageSize t)
      in
      if stop > length (mapped (mmapData t)) then
        (case dataMap e of
           None \<Rightarrow> None
         | Some d \<Rightarrow>
             let t = t\<lparr>mmapData := Some d\<rparr> in
             if stop > length d then Some (t, None)
             else Some (t, Some (take (stop - off) (drop off d))))
      else Some (t, Some (take (stop - off) (drop off (mapped (mmapData t))))))"

text \<open>
  A pointer to a page struct: the caller's own struct, with the slice it was given (a nil slice is
  the empty one), or the tracked struct of a dirty page.
\<close>

datatype pref = Buf bytes | Ref nat

definition pref_page :: "env \<Rightarrow> txn \<Rightarrow> pref \<Rightarrow> page option" where
  "pref_page e t r = (case r of Buf d \<Rightarrow> Some \<lparr>Data = d\<rparr> | Ref a \<Rightarrow> deref e t a)"

definition fillPageHotPath :: "env \<Rightarrow> txn \<Rightarrow> pgno \<Rightarrow> (txn \<times> pref) option" where
  "fillPageHotPath e t pg =
     do { d \<leftarrow> (if IsReadOnly t then Some None else tracker_ref t pg);
          case d of
            Some a \<Rightarrow> Some (t, Ref a)
          | None \<Rightarrow> map_option (\<lambda>(t, d). (t, Buf (mapped d))) (getPageDataFast e t pg) }"

section \<open>Large values\<close>

definition numLargePages :: "u32 \<Rightarrow> u32 \<Rightarrow> u32" where
  "numLargePages ps vsz =
     (let firstPageData = ps - 20; remaining = uint vsz - uint firstPageData in
      if remaining > 0 then 1 + of_int ((remaining + uint ps - 1) div uint ps) else 1)"

fun collectPages :: "env \<Rightarrow> txn list \<Rightarrow> pgno \<Rightarrow> nat list \<Rightarrow> bytes \<Rightarrow> (txn list \<times> (goerror + bytes)) option" where
  "collectPages e ts pg [] acc = Some (ts, Inr acc)"
| "collectPages e ts pg (i # is) acc =
     do { (ts', r) \<leftarrow> getPage e ts (pg + of_nat i);
          case r of
            Inl err \<Rightarrow> Some (ts', Inl err)
          | Inr p \<Rightarrow>
              if i = 0 then
                (if length (Data p) < 20 then None else collectPages e ts' pg is (acc @ drop 20 (Data p)))
              else collectPages e ts' pg is (acc @ Data p) }"

text \<open>\<open>data[:size]\<close> reaches into the capacity of the slice made with it, whose bytes are zero.\<close>

definition getLargeData :: "env \<Rightarrow> txn list \<Rightarrow> pgno \<Rightarrow> u32 \<Rightarrow> (txn list \<times> (goerror + bytes)) option" where
  "getLargeData e ts ovPgno vsz =
     (case ts of
        [] \<Rightarrow> None
      | t # ps \<Rightarrow>
          let start = unat ovPgno * unat (txnPageSize t) + 20; stop = start + unat vsz in
          if IsReadOnly t \<and> mmapData t \<noteq> None \<and> stop \<le> length (mapped (mmapData t)) then
            Some (ts, Inr (take (unat vsz) (drop start (mapped (mmapData t)))))
          else
            do { (ts', r) \<leftarrow> collectPages e ts ovPgno [0..<unat (numLargePages (envPageSize e) vsz)] [];
                 Some (ts', case r of Inl err \<Rightarrow> Inl err
                            | Inr d \<Rightarrow> Inr (take (unat vsz) (d @ replicate (unat vsz) 0))) })"

section \<open>The first value of a duplicate set\<close>

definition getFirstSubPageValue :: "bytes \<Rightarrow> (goerror + bytes) option" where
  "getFirstSubPageValue d =
     (if length d < 20 then Some (Inl ErrCorruptedError)
      else
        let dupfixKsize = unat (g16 d 8); fl = g16 d 10; lower = unat (g16 d 12) in
        if fl AND pageDupfix \<noteq> 0 \<and> 0 < dupfixKsize \<and> dupfixKsize < 65535 then
          (if 20 + dupfixKsize \<le> length d then Some (Inr (take dupfixKsize (drop 20 d)))
           else Some (Inl ErrCorruptedError))
        else if lower div 2 = 0 then Some (Inl ErrNotFoundError)
        else if length d < 22 then Some (Inl ErrCorruptedError)
        else
          let nodePos = unat (g16 d 20) + 20 in
          if nodePos + 8 > length d then Some (Inl ErrCorruptedError)
          else
            let ksz = unat (g16 d (nodePos + 6)); valueStart = nodePos + 8; valueEnd = valueStart + ksz in
            if valueEnd \<le> length d then Some (Inr (take ksz (drop valueStart d)))
            else Some (Inl ErrCorruptedError))"

text \<open>The loop over the levels above the leaf; it always looks into the mapping.\<close>

fun leftmost_ro :: "bytes \<Rightarrow> nat \<Rightarrow> nat \<Rightarrow> pgno \<Rightarrow> pgno option" where
  "leftmost_ro m ps 0 pg = Some pg"
| "leftmost_ro m ps (Suc n) pg =
     do { d \<leftarrow> slice m (int (unat pg * ps)) (int (unat pg * ps + ps));
          storedOffset \<leftarrow> rd16 d 20;
          child \<leftarrow> rd32 d (uint storedOffset + 20);
          leftmost_ro m ps n child }"

definition getFirstSubTreeValueReadOnly :: "txn \<Rightarrow> bytes \<Rightarrow> (goerror + bytes) option" where
  "getFirstSubTreeValueReadOnly t treeData =
     (if length treeData < 48 then Some (Inl ErrCorruptedError)
      else
        let height = unat (g16 treeData 2); subRoot = g32 treeData 8;
            m = mapped (mmapData t); ps = unat (txnPageSize t) in
        if subRoot = invalidPgno \<or> height = 0 then Some (Inl ErrNotFoundError)
        else
          do { pg \<leftarrow> leftmost_ro m ps (height - 1) subRoot;
               d \<leftarrow> slice m (int (unat pg * ps)) (int (unat pg * ps + ps));
               storedOffset \<leftarrow> rd16 d 20;
               let nodeOffset = uint storedOffset + 20;
               ksz \<leftarrow> rd16 d (nodeOffset + 6);
               let valueStart = nodeOffset + 8;
               let valueEnd = valueStart + uint ksz;
               if valueEnd \<le> int (length d) then do { v \<leftarrow> slice d valueStart valueEnd; Some (Inr v) }
               else Some (Inl ErrCorruptedError) })"

section \<open>The descents\<close>

text \<open>What both checked descents do at a leaf.\<close>

definition leafResult ::
    "env \<Rightarrow> txn list \<Rightarrow> bytes \<Rightarrow> int \<Rightarrow> bool \<Rightarrow> (txn list \<times> (goerror + bytes)) option" where
  "leafResult e ts d idx exact =
     (if \<not> exact then Some (ts, Inl ErrNotFoundError)
      else
        do { fl \<leftarrow> nodeGetFlagsUnchecked d idx;
             if fl AND nodeBig \<noteq> 0 then
               do { vsz \<leftarrow> nodeGetDataSizeRaw d idx; ovPgno \<leftarrow> nodeGetOverflowPgnoRaw d idx;
                    getLargeData e ts ovPgno vsz }
             else
               do { nodeData \<leftarrow> nodeGetDataUnchecked d idx;
                    if fl AND nodeTree \<noteq> 0 \<and> 48 \<le> length nodeData then
                      do { t \<leftarrow> (case ts of [] \<Rightarrow> None | t # _ \<Rightarrow> Some t);
                           r \<leftarrow> getFirstSubTreeValueReadOnly t nodeData; Some (ts, r) }
                    else if fl AND nodeDup \<noteq> 0 \<and> 20 \<le> length nodeData then
                      do { r \<leftarrow> getFirstSubPageValue nodeData; Some (ts, r) }
                    else Some (ts, Inr nodeData) } })"

partial_function (option) directGetReadOnly ::
    "env \<Rightarrow> txn list \<Rightarrow> pgno \<Rightarrow> bytes \<Rightarrow> cmp_fn \<Rightarrow> (txn list \<times> (goerror + bytes)) option" where
  "directGetReadOnly e ts pg k cmp =
     do { t \<leftarrow> (case ts of [] \<Rightarrow> None | t # _ \<Rightarrow> Some t);
          let off = unat pg * unat (txnPageSize t);
          d \<leftarrow> slice (mapped (mmapData t)) (int off) (int (off + unat (txnPageSize t)));
          (idx, exact) \<leftarrow> searchPageRawExact d k cmp;
          if pageIsLeafDirect d then leafResult e ts d idx exact
          else do { child \<leftarrow> nodeGetChildPgnoUnchecked d idx; directGetReadOnly e ts child k cmp } }"

partial_function (option) directGetWrite ::
    "env \<Rightarrow> txn list \<Rightarrow> pgno \<Rightarrow> bytes \<Rightarrow> cmp_fn \<Rightarrow> (txn list \<times> (goerror + bytes)) option" where
  "directGetWrite e ts pg k cmp =
     do { r \<leftarrow> getPageData e ts pg;
          case r of
            Inl err \<Rightarrow> Some (ts, Inl err)
          | Inr d \<Rightarrow>
              do { (idx, exact) \<leftarrow> searchPageRawExact d k cmp;
                   if pageIsLeafDirect d then leafResult e ts d idx exact
                   else do { child \<leftarrow> nodeGetChildPgnoUnchecked d idx; directGetWrite e ts child k cmp } } }"

text \<open>
  The inlined descent reads the mapping at absolute positions, with no page bounds.  \<open>base\<close> is the
  position of the page; the key of an entry, its node's position and the loop are inlined in the code.
\<close>

definition raw_node :: "bytes \<Rightarrow> int \<Rightarrow> int \<Rightarrow> int option" where
  "raw_node m base idx = do { storedOffset \<leftarrow> rd16 m (base + 20 + idx * 2); Some (base + uint storedOffset + 20) }"

definition raw_key :: "bytes \<Rightarrow> int \<Rightarrow> int \<Rightarrow> bytes option" where
  "raw_key m base idx =
     do { nodeBase \<leftarrow> raw_node m base idx;
          ksz \<leftarrow> rd16 m (nodeBase + 6);
          slice m (nodeBase + 8) (nodeBase + 8 + uint ksz) }"

definition raw_search :: "bytes \<Rightarrow> int \<Rightarrow> bool \<Rightarrow> int \<Rightarrow> bytes \<Rightarrow> (int \<times> bool) option" where
  "raw_search m base leafp n k =
     (let c = (\<lambda>mid. map_option (bytes_compare k) (raw_key m base mid)) in
      if \<not> leafp then
        (if n \<le> 1 then Some (0, False)
         else do {
           r \<leftarrow> bsearch c 1 (n - 1);
           case r of
             Inl mid \<Rightarrow> Some (mid, True)
           | Inr lo \<Rightarrow>
               if lo = 1 then
                 do { d \<leftarrow> c 1; if d < 0 then Some (0, False) else Some (lo - 1, False) }
               else Some (lo - 1, False) })
      else do {
        r \<leftarrow> bsearch c 0 (n - 1);
        Some (case r of Inl mid \<Rightarrow> (mid, True) | Inr lo \<Rightarrow> (lo, False)) })"

definition raw_leafResult ::
    "env \<Rightarrow> txn list \<Rightarrow> bytes \<Rightarrow> int \<Rightarrow> int \<Rightarrow> bool \<Rightarrow> (txn list \<times> (goerror + bytes)) option" where
  "raw_leafResult e ts m base idx exact =
     (if \<not> exact then Some (ts, Inl ErrNotFoundError)
      else
        do { nodeBase \<leftarrow> raw_node m base idx;
             fl \<leftarrow> rd8 m (nodeBase + 4);
             dsz \<leftarrow> rd32 m nodeBase;
             ksz \<leftarrow> rd16 m (nodeBase + 6);
             if fl AND 1 \<noteq> 0 then
               do { ovPgno \<leftarrow> rd32 m (nodeBase + 8 + uint ksz); getLargeData e ts ovPgno dsz }
             else
               do { nodeData \<leftarrow> slice m (nodeBase + 8 + uint ksz) (nodeBase + 8 + uint ksz + uint dsz);
                    if fl AND 2 \<noteq> 0 \<and> 48 \<le> unat dsz then
                      do { t \<leftarrow> (case ts of [] \<Rightarrow> None | t # _ \<Rightarrow> Some t);
                           r \<leftarrow> getFirstSubTreeValueReadOnly t nodeData; Some (ts, r) }
                    else if fl AND 4 \<noteq> 0 \<and> 20 \<le> unat dsz then
                      do { r \<leftarrow> getFirstSubPageValue nodeData; Some (ts, r) }
                    else Some (ts, Inr nodeData) } })"

partial_function (option) directGetReadOnlyFast ::
    "env \<Rightarrow> txn list \<Rightarrow> pgno \<Rightarrow> bytes \<Rightarrow> (txn list \<times> (goerror + bytes)) option" where
  "directGetReadOnlyFast e ts pg k =
     do { t \<leftarrow> (case ts of [] \<Rightarrow> None | t # _ \<Rightarrow> Some t);
          let m = mapped (mmapData t);
          let base = uint pg * uint (txnPageSize t);
          fl \<leftarrow> rd16 m (base + 10);
          lower \<leftarrow> rd16 m (base + 12);
          let n = drop_bit 1 (uint lower);
          let leafp = (fl AND 2 \<noteq> 0);
          if leafp \<and> n = 0 then Some (ts, Inl ErrNotFoundError)
          else
            do { (idx, exact) \<leftarrow> raw_search m base leafp n k;
                 if leafp then raw_leafResult e ts m base idx exact
                 else do { nodeBase \<leftarrow> raw_node m base idx;
                           child \<leftarrow> rd32 m nodeBase;
                           directGetReadOnlyFast e ts child k } } }"

section \<open>Comparators\<close>

definition cacheComparator :: "env \<Rightarrow> txn \<Rightarrow> nat \<Rightarrow> txn option" where
  "cacheComparator e t dbi =
     (if dbi \<ge> length (dbiComparators t) \<or> dbiComparators t ! dbi \<noteq> None then Some t
      else
        let custom = (if dbi < length (dbis e) then Option.bind (dbis e ! dbi) di_cmp else None) in
        if dbi < length (dbiUsesDefaultCmp t) then
          Some (t\<lparr>dbiComparators := (dbiComparators t)[dbi := Some (case custom of Some c \<Rightarrow> c | None \<Rightarrow> bytes_compare)],
                   dbiUsesDefaultCmp := (dbiUsesDefaultCmp t)[dbi := (custom = None)]\<rparr>)
        else None)"

text \<open>A nil comparator or an index out of range panics.\<close>

definition comparator_of :: "txn \<Rightarrow> nat \<Rightarrow> cmp_fn option" where
  "comparator_of t dbi = (if dbi < length (dbiComparators t) then dbiComparators t ! dbi else None)"

definition compareKeys :: "txn \<Rightarrow> nat \<Rightarrow> bytes \<Rightarrow> bytes \<Rightarrow> int option" where
  "compareKeys t dbi a b = map_option (\<lambda>c. c a b) (comparator_of t dbi)"

definition Cmp :: "env \<Rightarrow> txn \<Rightarrow> nat \<Rightarrow> bytes \<Rightarrow> bytes \<Rightarrow> (txn \<times> int) option" where
  "Cmp e t dbi a b =
     do { t \<leftarrow> cacheComparator e t dbi;
          if dbi \<ge> length (dbiComparators t) \<or> dbiComparators t ! dbi = None then Some (t, bytes_compare a b)
          else do { c \<leftarrow> compareKeys t dbi a b; Some (t, c) } }"

definition initDupComparator :: "env \<Rightarrow> txn \<Rightarrow> nat \<Rightarrow> txn option" where
  "initDupComparator e t dbi =
     (let t = (if dbi \<ge> length (dbiDupComparators t) then
                 let newSize = max (dbi + 1) 8 in
                 t\<lparr>dbiDupComparators := dbiDupComparators t @ replicate (newSize - length (dbiDupComparators t)) None,
                   dbiUsesDefaultDupCmp := take newSize
                     (dbiUsesDefaultDupCmp t @ replicate (newSize - length (dbiUsesDefaultDupCmp t)) False)\<rparr>
               else t)
      in
      if dbiDupComparators t ! dbi \<noteq> None then Some t
      else
        let dcmp = (if dbi < length (dbis e) then Option.bind (dbis e ! dbi) di_dcmp else None) in
        if dbi < length (dbiUsesDefaultDupCmp t) then
          Some (t\<lparr>dbiDupComparators := (dbiDupComparators t)[dbi := Some (case dcmp of Some c \<Rightarrow> c | None \<Rightarrow> bytes_compare)],
                   dbiUsesDefaultDupCmp := (dbiUsesDefaultDupCmp t)[dbi := (dcmp = None)]\<rparr>)
        else None)"

definition compareDupValues :: "env \<Rightarrow> txn \<Rightarrow> nat \<Rightarrow> bytes \<Rightarrow> bytes \<Rightarrow> (txn \<times> int) option" where
  "compareDupValues e t dbi a b =
     (let inside = dbi < length (dbiDupComparators t) in
      if inside \<and> dbi \<ge> length (dbiUsesDefaultDupCmp t) then None
      else if inside \<and> dbiUsesDefaultDupCmp t ! dbi then Some (t, bytes_compare a b)
      else if inside \<and> dbiDupComparators t ! dbi \<noteq> None then Some (t, the (dbiDupComparators t ! dbi) a b)
      else
        do { t \<leftarrow> initDupComparator e t dbi;
             if dbiUsesDefaultDupCmp t ! dbi then Some (t, bytes_compare a b)
             else do { c \<leftarrow> dbiDupComparators t ! dbi; Some (t, c a b) } })"

section \<open>Txn.Get\<close>

definition directGet ::
    "env \<Rightarrow> txn list \<Rightarrow> tree \<Rightarrow> nat \<Rightarrow> bytes \<Rightarrow> (txn list \<times> (goerror + bytes)) option" where
  "directGet e ts tr dbi k =
     (case ts of
        [] \<Rightarrow> None
      | t0 # ps \<Rightarrow>
          do { t \<leftarrow> (if dbi < length (dbiComparators t0) \<and> dbiComparators t0 ! dbi = None
                    then cacheComparator e t0 dbi else Some t0);
               if IsReadOnly t then
                 (if dbi \<ge> length (dbiUsesDefaultCmp t) then None
                  else if dbiUsesDefaultCmp t ! dbi then directGetReadOnlyFast e (t # ps) (Root tr) k
                  else do { cmp \<leftarrow> comparator_of t dbi; directGetReadOnly e (t # ps) (Root tr) k cmp })
               else do { cmp \<leftarrow> comparator_of t dbi; directGetWrite e (t # ps) (Root tr) k cmp } })"

definition txn_Get :: "env \<Rightarrow> txn list \<Rightarrow> nat \<Rightarrow> bytes \<Rightarrow> (txn list \<times> (goerror + bytes)) option" where
  "txn_Get e ts dbi k =
     (case ts of
        [] \<Rightarrow> None
      | t # ps \<Rightarrow>
          if \<not> txn_valid t then Some (ts, Inl (NewError ErrBadTxn))
          else if dbi \<ge> length (trees t) then Some (ts, Inl (NewError ErrBadDBI))
          else if dbi = 0 then Some (ts, Inl (NewError ErrBadDBI))
          else if isEmpty (trees t ! dbi) then Some (ts, Inl ErrNotFoundError)
          else directGet e ts (trees t ! dbi) dbi k)"

end
