(* ===== verification/TreeRead.thy ===== *)
theory TreeRead
  imports TxnRead
begin

text \<open>
  The tree a root page stands for, read through any page source, and what a lookup in it must
  return.  \<open>tree_ok\<close> is the ordering invariant of the B+-tree: every page is well-formed and sorted,
  and the keys below a child lie between its separator and the next.  \<open>leaf_nodes\<close> lists the nodes
  of the leaves from left to right.  All three descents of txn.go return the value of the node of
  that list whose key equals the search key, and not-found when there is none.
\<close>

section \<open>The abstract tree\<close>

definition lfp :: "page \<Rightarrow> bool" where "lfp p \<longleftrightarrow> g16 (Data p) 10 AND pageLeaf \<noteq> 0"

definition in_range :: "cmp_fn \<Rightarrow> bytes option \<Rightarrow> bytes option \<Rightarrow> bytes \<Rightarrow> bool" where
  "in_range cmp lo hi k \<longleftrightarrow> (\<forall>l. lo = Some l \<longrightarrow> cmp l k \<le> 0) \<and> (\<forall>u. hi = Some u \<longrightarrow> cmp k u < 0)"

text \<open>The bounds of the keys below entry \<open>i\<close> of a branch with the separators \<open>ks\<close>.\<close>

definition sep_lo :: "bytes list \<Rightarrow> bytes option \<Rightarrow> nat \<Rightarrow> bytes option" where
  "sep_lo ks lo i = (if i = 0 then lo else Some (ks ! i))"
definition sep_hi :: "bytes list \<Rightarrow> bytes option \<Rightarrow> nat \<Rightarrow> bytes option" where
  "sep_hi ks hi i = (if Suc i < length ks then Some (ks ! Suc i) else hi)"

definition child_lo :: "page \<Rightarrow> bytes option \<Rightarrow> nat \<Rightarrow> bytes option" where
  "child_lo p lo i = (if i = 0 then lo else Some (keys_of p ! i))"
definition child_hi :: "page \<Rightarrow> bytes option \<Rightarrow> nat \<Rightarrow> bytes option" where
  "child_hi p hi i = (if Suc i < nents p then Some (keys_of p ! Suc i) else hi)"

lemma child_seps: "child_lo p lo i = sep_lo (keys_of p) lo i" "child_hi p hi i = sep_hi (keys_of p) hi i"
  by (simp_all add: child_lo_def child_hi_def sep_lo_def sep_hi_def)

fun tree_ok :: "cmp_fn \<Rightarrow> (pgno \<Rightarrow> page option) \<Rightarrow> nat \<Rightarrow> pgno \<Rightarrow> bytes option \<Rightarrow> bytes option \<Rightarrow> bool" where
  "tree_ok cmp rd 0 pg lo hi =
     (case rd pg of None \<Rightarrow> False
      | Some p \<Rightarrow> page_ok p \<and> keys_sorted cmp p \<and> \<not> brp p \<and> lfp p \<and> (\<forall>k \<in> set (keys_of p). in_range cmp lo hi k))"
| "tree_ok cmp rd (Suc h) pg lo hi =
     (case rd pg of None \<Rightarrow> False
      | Some p \<Rightarrow> page_ok p \<and> keys_sorted cmp p \<and> brp p \<and> \<not> lfp p \<and> 0 < nents p \<and>
          (\<forall>k \<in> set (tl (keys_of p)). in_range cmp lo hi k) \<and>
          (\<forall>i < nents p. tree_ok cmp rd h (nd_dsize (entries p ! i)) (child_lo p lo i) (child_hi p hi i)))"

fun leaf_nodes :: "(pgno \<Rightarrow> page option) \<Rightarrow> nat \<Rightarrow> pgno \<Rightarrow> bytes list" where
  "leaf_nodes rd 0 pg = (case rd pg of None \<Rightarrow> [] | Some p \<Rightarrow> entries p)"
| "leaf_nodes rd (Suc h) pg =
     (case rd pg of None \<Rightarrow> [] | Some p \<Rightarrow> concat (map (\<lambda>nd. leaf_nodes rd h (nd_dsize nd)) (entries p)))"

definition find_node :: "cmp_fn \<Rightarrow> bytes list \<Rightarrow> bytes \<Rightarrow> bytes option" where
  "find_node cmp nds k = List.find (\<lambda>nd. cmp k (nd_key nd) = 0) nds"

text \<open>The value a leaf node stands for: overflow pages, the first of its duplicates, or its data.\<close>

definition value_of :: "env \<Rightarrow> txn list \<Rightarrow> bytes \<Rightarrow> (txn list \<times> (goerror + bytes)) option" where
  "value_of e ts nd =
     (if nd_big nd then getLargeData e ts (nd_ovpg nd) (nd_dsize nd)
      else if nd_flags nd AND nodeTree \<noteq> 0 \<and> 48 \<le> length (nd_data nd) then
        do { t \<leftarrow> (case ts of [] \<Rightarrow> None | t # _ \<Rightarrow> Some t);
             r \<leftarrow> getFirstSubTreeValueReadOnly t (nd_data nd); Some (ts, r) }
      else if nd_flags nd AND nodeDup \<noteq> 0 \<and> 20 \<le> length (nd_data nd) then
        do { r \<leftarrow> getFirstSubPageValue (nd_data nd); Some (ts, r) }
      else Some (ts, Inr (nd_data nd)))"

definition lookup_value ::
    "env \<Rightarrow> txn list \<Rightarrow> cmp_fn \<Rightarrow> bytes list \<Rightarrow> bytes \<Rightarrow> (txn list \<times> (goerror + bytes)) option" where
  "lookup_value e ts cmp nds k =
     (case find_node cmp nds k of None \<Rightarrow> Some (ts, Inl ErrNotFoundError) | Some nd \<Rightarrow> value_of e ts nd)"

text \<open>The page sources: the mapping, and what getPageData gives.\<close>

definition rd_map :: "bytes \<Rightarrow> nat \<Rightarrow> pgno \<Rightarrow> page option" where
  "rd_map m ps pg = map_option (\<lambda>d. \<lparr>Data = d\<rparr>) (slice m (int (unat pg * ps)) (int (unat pg * ps + ps)))"

definition rd_txn :: "env \<Rightarrow> txn list \<Rightarrow> pgno \<Rightarrow> page option" where
  "rd_txn e ts pg = (case getPageData e ts pg of Some (Inr d) \<Rightarrow> Some \<lparr>Data = d\<rparr> | _ \<Rightarrow> None)"

section \<open>Where the searched key can be\<close>

lemma find_concat_one:
  assumes "i < length xss" "\<And>j x. j < length xss \<Longrightarrow> j \<noteq> i \<Longrightarrow> x \<in> set (xss ! j) \<Longrightarrow> \<not> P x"
  shows "List.find P (concat xss) = List.find P (xss ! i)"
proof -
  have app: "List.find P (xs @ ys) = (case List.find P xs of None \<Rightarrow> List.find P ys | Some x \<Rightarrow> Some x)" for xs ys
    by (induction xs) auto
  have none: "List.find P xs = None" if "\<And>x. x \<in> set xs \<Longrightarrow> \<not> P x" for xs
    using that by (simp add: find_None_iff)
  have "concat xss = concat (take i xss) @ xss ! i @ concat (drop (Suc i) xss)"
    using id_take_nth_drop [OF assms(1)] by (metis concat.simps(2) concat_append)
  moreover have "List.find P (concat (take i xss)) = None"
  proof (rule none)
    fix x assume "x \<in> set (concat (take i xss))"
    then obtain j where "j < i" "x \<in> set (xss ! j)"
      using assms(1) by (auto simp: in_set_conv_nth [of _ "take i xss"])
    then show "\<not> P x" using assms(1) assms(2) [of j x] by simp
  qed
  moreover have "List.find P (concat (drop (Suc i) xss)) = None"
  proof (rule none)
    fix x assume "x \<in> set (concat (drop (Suc i) xss))"
    then obtain y where y: "y \<in> set (drop (Suc i) xss)" "x \<in> set y" by auto
    then obtain j where "j < length (drop (Suc i) xss)" "y = drop (Suc i) xss ! j" by (auto simp only: in_set_conv_nth)
    with y(2) have "Suc i + j < length xss" "x \<in> set (xss ! (Suc i + j))" using assms(1) by auto
    then show "\<not> P x" using assms(2) [of "Suc i + j" x] by simp
  qed
  ultimately show ?thesis by (simp add: app split: option.splits)
qed

lemma filter_prefix_nth:
  assumes "\<And>a b. a < b \<Longrightarrow> b < length xs \<Longrightarrow> P (xs ! b) \<Longrightarrow> P (xs ! a)" "m < length xs"
  shows "P (xs ! m) \<longleftrightarrow> m < length (filter P xs)"
proof -
  let ?j = "length (takeWhile P xs)"
  have below: "P (xs ! i)" if "i < ?j" for i
    using that set_takeWhileD [of "xs ! i" P xs] nth_mem [of i "takeWhile P xs"] by (auto simp: takeWhile_nth)
  have above: "\<not> P (xs ! i)" if "?j \<le> i" "i < length xs" for i
    using assms(1) [of ?j i] that nth_length_takeWhile [of P xs] by (cases "i = ?j") auto
  have "length (filter P xs) = ?j"
    using below above length_takeWhile_le [of P xs] by (intro length_filter_prefix) auto
  then show ?thesis using below [of m] above [of m] assms(2) by (cases "m < ?j") auto
qed

context key_order
begin

lemma child_in_range:
  assumes sorted: "sorted_from cmp 1 (keys_of p)" and seps: "\<forall>k \<in> set (tl (keys_of p)). in_range cmp lo hi k"
    and i: "i < nents p" and k: "in_range cmp (child_lo p lo i) (child_hi p hi i) k"
  shows "in_range cmp lo hi k"
proof -
  have sep: "in_range cmp lo hi (keys_of p ! j)" if "0 < j" "j < nents p" for j
  proof -
    have "tl (keys_of p) ! (j - 1) \<in> set (tl (keys_of p))" using that by (intro nth_mem) simp
    then show ?thesis using seps that by (simp add: nth_tl)
  qed
  show ?thesis
    unfolding in_range_def
  proof (intro conjI allI impI)
    fix l assume l: "lo = Some l"
    show "cmp l k \<le> 0"
    proof (cases "i = 0")
      case False
      then have "cmp (keys_of p ! i) k \<le> 0" using k by (simp add: in_range_def child_lo_def)
      moreover have "cmp l (keys_of p ! i) \<le> 0" using sep [of i] False i l by (simp add: in_range_def)
      ultimately show ?thesis using cmp_trans by blast
    qed (use k l in \<open>simp add: in_range_def child_lo_def\<close>)
  next
    fix u assume u: "hi = Some u"
    show "cmp k u < 0"
    proof (cases "Suc i < nents p")
      case True
      then have "cmp k (keys_of p ! Suc i) < 0" using k by (simp add: in_range_def child_hi_def)
      moreover have "cmp (keys_of p ! Suc i) u < 0" using sep [of "Suc i"] True u by (simp add: in_range_def)
      ultimately show ?thesis using less_trans [OF _ less_imp_le] by blast
    qed (use k u in \<open>simp add: in_range_def child_hi_def\<close>)
  qed
qed

lemma leaf_nodes_in_range:
  "tree_ok cmp rd h pg lo hi \<Longrightarrow> nd \<in> set (leaf_nodes rd h pg) \<Longrightarrow> in_range cmp lo hi (nd_key nd)"
proof (induction h arbitrary: pg lo hi)
  case 0
  then show ?case by (auto simp: keys_of_def split: option.splits)
next
  case (Suc h)
  then obtain p where p: "rd pg = Some p" "keys_sorted cmp p" "brp p" "\<forall>k \<in> set (tl (keys_of p)). in_range cmp lo hi k"
    "\<And>i. i < nents p \<Longrightarrow> tree_ok cmp rd h (nd_dsize (entries p ! i)) (child_lo p lo i) (child_hi p hi i)"
    by (auto split: option.splits)
  from Suc.prems(2) p(1) obtain x where x: "x \<in> set (entries p)" "nd \<in> set (leaf_nodes rd h (nd_dsize x))" by auto
  then obtain i where i: "i < nents p" "nd \<in> set (leaf_nodes rd h (nd_dsize (entries p ! i)))"
    unfolding in_set_conv_nth length_entries by blast
  have "in_range cmp (child_lo p lo i) (child_hi p hi i) (nd_key nd)" by (rule Suc.IH [OF p(5) [OF i(1)] i(2)])
  then show ?case using child_in_range p(2-4) i(1) by (simp add: keys_sorted_def)
qed

text \<open>The child a search descends to is the only one that can hold the key.\<close>

lemma branch_pos_sep:
  assumes sorted: "sorted_from cmp 1 ks" and n: "0 < length ks" and k: "in_range cmp lo hi k"
  defines "i \<equiv> branch_pos cmp ks k"
  shows "i < length ks" "in_range cmp (sep_lo ks lo i) (sep_hi ks hi i) k"
proof -
  show i: "i < length ks" using branch_pos_less [of ks k] n by (simp add: i_def)
  have pos: "0 \<le> cmp k (ks ! j) \<longleftrightarrow> j \<le> i" if "1 \<le> j" "j < length ks" for j
  proof -
    have st: "sorted_wrt (\<lambda>a b. cmp a b < 0) (tl ks)"
      using sorted by (simp add: sorted_from_def drop_Suc)
    have "0 \<le> cmp k (tl ks ! m) \<longleftrightarrow> m < i" if "m < length (tl ks)" for m
      unfolding i_def branch_pos_def
    proof (rule filter_prefix_nth [OF _ that])
      fix a b assume ab: "a < b" "b < length (tl ks)" "0 \<le> cmp k (tl ks ! b)"
      have "cmp (tl ks ! a) (tl ks ! b) < 0" using sorted_wrt_nth_less [OF st ab(1,2)] .
      moreover have "cmp (tl ks ! b) k \<le> 0" using ab(3) by (simp add: cmp_le_flip)
      ultimately have "cmp (tl ks ! a) k < 0" by (rule less_trans)
      then show "0 \<le> cmp k (tl ks ! a)" using cmp_flip by (simp add: less_imp_le)
    qed
    from this [of "j - 1"] show ?thesis using that by (auto simp: nth_tl)
  qed
  show "in_range cmp (sep_lo ks lo i) (sep_hi ks hi i) k"
    using k pos [of i] pos [of "Suc i"] i cmp_le_flip [of "ks ! i" k]
    by (auto simp: in_range_def sep_lo_def sep_hi_def split: if_splits)
qed

lemma branch_pos_range:
  assumes "sorted_from cmp 1 (keys_of p)" "0 < nents p" "in_range cmp lo hi k"
  defines "i \<equiv> branch_pos cmp (keys_of p) k"
  shows "i < nents p" "in_range cmp (child_lo p lo i) (child_hi p hi i) k"
  using branch_pos_sep [of "keys_of p" lo hi k] assms by (simp_all add: child_seps)

lemma find_descend:
  assumes ok: "tree_ok cmp rd (Suc h) pg lo hi" and p: "rd pg = Some p" and k: "in_range cmp lo hi k"
  defines "i \<equiv> branch_pos cmp (keys_of p) k"
  shows "i < nents p" "in_range cmp (child_lo p lo i) (child_hi p hi i) k"
    "tree_ok cmp rd h (nd_dsize (entries p ! i)) (child_lo p lo i) (child_hi p hi i)"
    "find_node cmp (leaf_nodes rd (Suc h) pg) k = find_node cmp (leaf_nodes rd h (nd_dsize (entries p ! i))) k"
proof -
  have p': "keys_sorted cmp p" "brp p" "0 < nents p"
    and t: "\<And>i. i < nents p \<Longrightarrow> tree_ok cmp rd h (nd_dsize (entries p ! i)) (child_lo p lo i) (child_hi p hi i)"
    using ok p by auto
  have st: "sorted_from cmp 1 (keys_of p)" using p'(1,2) by (simp add: keys_sorted_def)
  show i: "i < nents p" and ir: "in_range cmp (child_lo p lo i) (child_hi p hi i) k"
    using branch_pos_range [OF st p'(3) k] by (simp_all add: i_def)
  show "tree_ok cmp rd h (nd_dsize (entries p ! i)) (child_lo p lo i) (child_hi p hi i)" by (rule t [OF i])
  have other: "cmp k (nd_key nd) \<noteq> 0"
    if j: "j < nents p" "j \<noteq> i" and nd: "nd \<in> set (leaf_nodes rd h (nd_dsize (entries p ! j)))" for j nd
  proof -
    have r: "in_range cmp (child_lo p lo j) (child_hi p hi j) (nd_key nd)"
      by (rule leaf_nodes_in_range [OF t [OF j(1)] nd])
    have key_le: "cmp (keys_of p ! a) (keys_of p ! b) \<le> 0" if "0 < a" "a \<le> b" "b < nents p" for a b
      using sorted_fromD [OF st, of a b] that cmp_refl [of "keys_of p ! a"] by (cases "a = b") auto
    from j(2) consider "j < i" | "i < j" by linarith
    then show ?thesis
    proof cases
      case 1
      then have "cmp (nd_key nd) (keys_of p ! Suc j) < 0" using r i by (simp add: in_range_def child_hi_def)
      moreover have "cmp (keys_of p ! Suc j) (keys_of p ! i) \<le> 0" using key_le 1 i by simp
      moreover have "cmp (keys_of p ! i) k \<le> 0" using ir 1 by (simp add: in_range_def child_lo_def)
      ultimately have "cmp (nd_key nd) k < 0" using less_trans cmp_trans by blast
      then show ?thesis using cmp_flip [of "nd_key nd" k] by simp
    next
      case 2
      then have "cmp (keys_of p ! j) (nd_key nd) \<le> 0" using r by (simp add: in_range_def child_lo_def)
      moreover have "cmp (keys_of p ! Suc i) (keys_of p ! j) \<le> 0" using key_le 2 j by simp
      moreover have "cmp k (keys_of p ! Suc i) < 0" using ir 2 j by (simp add: in_range_def child_hi_def)
      ultimately show ?thesis using less_trans by (metis less_irrefl)
    qed
  qed
  show "find_node cmp (leaf_nodes rd (Suc h) pg) k = find_node cmp (leaf_nodes rd h (nd_dsize (entries p ! i))) k"
    using find_concat_one [of i "map (\<lambda>nd. leaf_nodes rd h (nd_dsize nd)) (entries p)" "\<lambda>nd. cmp k (nd_key nd) = 0"]
      i other p by (simp add: find_node_def)
qed

text \<open>In a leaf the search position is the node found.\<close>

lemma find_leaf:
  assumes ok: "page_ok p" and st: "sorted_from cmp 0 (keys_of p)"
  shows "find_node cmp (entries p) k =
     (if has_key cmp (keys_of p) k then Some (entries p ! leaf_pos cmp (keys_of p) k) else None)"
proof (cases "has_key cmp (keys_of p) k")
  case True
  note l = leaf_pos_hit [OF st True, unfolded length_keys_of]
  have "\<not> cmp k (nd_key (entries p ! j)) = 0" if "j < leaf_pos cmp (keys_of p) k" for j
    using key_before [OF st _ that, of k] l that by simp
  then have "find_node cmp (entries p) k = Some (entries p ! leaf_pos cmp (keys_of p) k)"
    unfolding find_node_def find_Some_iff
    using l by (intro exI [of _ "leaf_pos cmp (keys_of p) k"]) simp
  then show ?thesis using True by simp
next
  case False
  then show ?thesis by (auto simp: find_node_def find_None_iff has_key_def keys_of_def)
qed

end

section \<open>The leaf\<close>

lemma leafResult_ok:
  assumes ok: "page_ok p" "i < nents p" and leaf: "\<not> brp p"
  shows "leafResult e ts (Data p) (int i) True = value_of e ts (node_at p i)"
proof (cases "nd_big (node_at p i)")
  case True
  then show ?thesis
    using big_accessors [OF ok leaf True] child_accessors [OF ok] flag_accessors [OF ok]
    by (simp add: leafResult_def value_of_def nd_big_def)
next
  case False
  then show ?thesis
    using data_accessors [OF ok leaf False] flag_accessors [OF ok]
    by (simp add: leafResult_def value_of_def nd_big_def)
qed

lemma pageIsLeafDirect_eq: "page_ok p \<Longrightarrow> pageIsLeafDirect (Data p) = lfp p"
  using page_okD(1) [of p] by (simp add: pageIsLeafDirect_def pageFlagsDirect_def lfp_def g16_def)

section \<open>The checked descents\<close>

lemma leafResult_miss: "leafResult e ts d idx False = Some (ts, Inl ErrNotFoundError)"
  by (simp add: leafResult_def)

context key_order
begin

text \<open>What one round of the loop does on a leaf and on a branch, whatever the page source.\<close>

lemma leaf_step:
  assumes ok: "page_ok p" "keys_sorted cmp p" "\<not> brp p" "lfp p"
  shows "do { (idx, exact) \<leftarrow> searchPageRawExact (Data p) k cmp;
              if pageIsLeafDirect (Data p) then leafResult e ts (Data p) idx exact else f idx } =
    lookup_value e ts cmp (entries p) k"
proof -
  have st: "sorted_from cmp 0 (keys_of p)" using ok by (simp add: keys_sorted_def)
  note hit = leaf_pos_hit(1) [OF st, unfolded length_keys_of]
  show ?thesis
    using searchPageRawExact_ok [OF ok(1,2), of k] ok find_leaf [OF ok(1) st, of k]
      leafResult_ok [OF ok(1) hit ok(3)] pageIsLeafDirect_eq [OF ok(1)] hit
    by (cases "has_key cmp (keys_of p) k") (simp_all add: search_result_def lookup_value_def leafResult_miss)
qed

lemma branch_step:
  assumes ok: "page_ok p" "keys_sorted cmp p" "brp p" "\<not> lfp p" and i: "branch_pos cmp (keys_of p) k < nents p"
  shows "do { (idx, exact) \<leftarrow> searchPageRawExact (Data p) k cmp;
              if pageIsLeafDirect (Data p) then g idx exact
              else do { child \<leftarrow> nodeGetChildPgnoUnchecked (Data p) idx; f child } } =
    f (nd_dsize (entries p ! branch_pos cmp (keys_of p) k))"
  using searchPageRawExact_ok [OF ok(1,2), of k] ok pageIsLeafDirect_eq [OF ok(1)] child_accessors(3) [OF ok(1) i] i
  by (simp add: search_result_def)

lemma tree_ok_page:
  assumes "tree_ok cmp rd h pg lo hi"
  obtains p where "rd pg = Some p" "page_ok p" "keys_sorted cmp p" "brp p \<longleftrightarrow> h \<noteq> 0" "lfp p \<longleftrightarrow> h = 0"
  using assms by (cases h) (auto split: option.splits)

lemma directGetReadOnly_ok:
  defines "rd t \<equiv> rd_map (mapped (mmapData t)) (unat (txnPageSize t))"
  assumes "tree_ok cmp (rd t) h pg lo hi" "in_range cmp lo hi k"
  shows "directGetReadOnly e (t # ps) pg k cmp = lookup_value e (t # ps) cmp (leaf_nodes (rd t) h pg) k"
  using assms(2,3)
proof (induction h arbitrary: pg lo hi)
  case 0
  from 0(1) obtain p where p: "rd t pg = Some p" "page_ok p" "keys_sorted cmp p" "\<not> brp p" "lfp p"
    by (rule tree_ok_page) simp
  then have d: "slice (mapped (mmapData t)) (int (unat pg * unat (txnPageSize t)))
     (int (unat pg * unat (txnPageSize t) + unat (txnPageSize t))) = Some (Data p)"
    by (auto simp: rd_def rd_map_def)
  show ?case
    using leaf_step [OF p(2-5)] p(1) by (subst directGetReadOnly.simps) (simp add: d del: of_nat_add of_nat_mult)
next
  case (Suc h)
  from Suc.prems(1) obtain p where p: "rd t pg = Some p" "page_ok p" "keys_sorted cmp p" "brp p" "\<not> lfp p"
    by (rule tree_ok_page) simp
  then have d: "slice (mapped (mmapData t)) (int (unat pg * unat (txnPageSize t)))
     (int (unat pg * unat (txnPageSize t) + unat (txnPageSize t))) = Some (Data p)"
    by (auto simp: rd_def rd_map_def)
  note fd = find_descend [OF Suc.prems(1) p(1) Suc.prems(2)]
  have "directGetReadOnly e (t # ps) pg k cmp =
     directGetReadOnly e (t # ps) (nd_dsize (entries p ! branch_pos cmp (keys_of p) k)) k cmp"
    using branch_step [OF p(2-5) fd(1)] by (subst directGetReadOnly.simps) (simp add: d del: of_nat_add of_nat_mult)
  then show ?case using Suc.IH [OF fd(3,2)] fd(4) by (simp add: lookup_value_def)
qed

lemma directGetWrite_ok:
  assumes "tree_ok cmp (rd_txn e ts) h pg lo hi" "in_range cmp lo hi k"
  shows "directGetWrite e ts pg k cmp = lookup_value e ts cmp (leaf_nodes (rd_txn e ts) h pg) k"
  using assms
proof (induction h arbitrary: pg lo hi)
  case 0
  from 0(1) obtain p where p: "rd_txn e ts pg = Some p" "page_ok p" "keys_sorted cmp p" "\<not> brp p" "lfp p"
    by (rule tree_ok_page) simp
  then have d: "getPageData e ts pg = Some (Inr (Data p))"
    by (auto simp: rd_txn_def split: option.splits sum.splits)
  show ?case
    using leaf_step [OF p(2-5)] p(1) by (subst directGetWrite.simps) (simp add: d)
next
  case (Suc h)
  from Suc.prems(1) obtain p where p: "rd_txn e ts pg = Some p" "page_ok p" "keys_sorted cmp p" "brp p" "\<not> lfp p"
    by (rule tree_ok_page) simp
  then have d: "getPageData e ts pg = Some (Inr (Data p))"
    by (auto simp: rd_txn_def split: option.splits sum.splits)
  note fd = find_descend [OF Suc.prems(1) p(1) Suc.prems(2)]
  have "directGetWrite e ts pg k cmp = directGetWrite e ts (nd_dsize (entries p ! branch_pos cmp (keys_of p) k)) k cmp"
    using branch_step [OF p(2-5) fd(1)] by (subst directGetWrite.simps) (simp add: d)
  then show ?case using Suc.IH [OF fd(3,2)] fd(4) by (simp add: lookup_value_def)
qed

end

section \<open>The inlined descent\<close>

lemma sub_slice:
  assumes "slice m (int b) (int (b + n)) = Some d"
  shows "length d = n" "b + n \<le> length m" "d = take n (drop b m)"
  using assms by (auto simp: slice_def min_def split: if_splits)

lemma sub_reads:
  assumes "slice m (int b) (int (b + n)) = Some d"
  shows "i < n \<Longrightarrow> rd8 m (int (b + i)) = Some (d ! i)"
    "i + 1 < n \<Longrightarrow> rd16 m (int (b + i)) = Some (g16 d i)"
    "i + 3 < n \<Longrightarrow> rd32 m (int (b + i)) = Some (g32 d i)"
    "i \<le> j \<Longrightarrow> j \<le> n \<Longrightarrow> slice m (int (b + i)) (int (b + j)) = Some (take (j - i) (drop i d))"
proof -
  note s = sub_slice [OF assms]
  have nth: "d ! i = m ! (b + i)" if "i < n" for i using that s by simp
  show "i < n \<Longrightarrow> rd8 m (int (b + i)) = Some (d ! i)"
    using rd8_Some [of "b + i" m] s(2) nth [of i] by simp
  show "i + 1 < n \<Longrightarrow> rd16 m (int (b + i)) = Some (g16 d i)"
    using rd16_Some [of "b + i" m] s(2) nth [of i] nth [of "i + 1"] by (simp add: g16_def add.assoc)
  show "i + 3 < n \<Longrightarrow> rd32 m (int (b + i)) = Some (g32 d i)"
    using rd32_Some [of "b + i" m] s(2) nth [of i] nth [of "i + 1"] nth [of "i + 2"] nth [of "i + 3"]
    by (simp add: g32_def add.assoc)
  show "i \<le> j \<Longrightarrow> j \<le> n \<Longrightarrow> slice m (int (b + i)) (int (b + j)) = Some (take (j - i) (drop i d))"
  proof -
    assume ij: "i \<le> j" "j \<le> n"
    have "take (j - i) (drop i d) = take (j - i) (drop (b + i) m)"
      using ij by (simp add: s(3) drop_take min_def add.commute)
    then show ?thesis using slice_nat [of "b + i" "b + j" m] s(2) ij by simp
  qed
qed

lemma raw_entry:
  assumes m: "slice m (int b) (int (b + n)) = Some (Data p)" and ok: "page_ok p" "i < nents p"
  shows "raw_node m (int b) (int i) = Some (int (b + (20 + ptr p i)))"
    "rd8 m (int (b + (20 + ptr p i)) + 4) = Some (nd_flags (node_at p i))"
    "rd32 m (int (b + (20 + ptr p i))) = Some (nd_dsize (node_at p i))"
    "rd16 m (int (b + (20 + ptr p i)) + 6) = Some (g16 (node_at p i) 6)"
    "k \<le> l \<Longrightarrow> l \<le> nsz p i \<Longrightarrow> slice m (int (b + (20 + ptr p i)) + int k) (int (b + (20 + ptr p i)) + int l) =
       Some (take (l - k) (drop k (node_at p i)))"
    "k + 4 \<le> nsz p i \<Longrightarrow> rd32 m (int (b + (20 + ptr p i)) + int k) = Some (g32 (node_at p i) k)"
    "raw_key m (int b) (int i) = Some (nd_key (node_at p i))"
proof -
  note e = page_ok_entry [OF ok] and s8 = nsz_ge8 [of p i] and len = sub_slice(1) [OF m] and r = sub_reads [OF m]
  have ek: "g16 (Data p) (20 + ptr p i + k) = g16 (node_at p i) k" if "k + 2 \<le> nsz p i" for k
    unfolding node_at_def by (rule g16_take_drop [symmetric]) (use that e(2) in simp_all)
  have e4: "g32 (Data p) (20 + ptr p i + k) = g32 (node_at p i) k" if "k + 4 \<le> nsz p i" for k
    unfolding node_at_def by (rule g32_take_drop [symmetric]) (use that e(2) in simp_all)
  have "int b + 20 + int i * 2 = int (b + (20 + 2 * i))" by simp
  moreover have "rd16 m (int (b + (20 + 2 * i))) = Some (g16 (Data p) (20 + 2 * i))"
    using r(2) [of "20 + 2 * i"] e(4) len by simp
  ultimately show nd: "raw_node m (int b) (int i) = Some (int (b + (20 + ptr p i)))"
    by (simp only: raw_node_def bind.bind_lunit) (simp add: ptr_def)
  have 4: "int (b + (20 + ptr p i)) + 4 = int (b + (20 + ptr p i + 4))" by simp
  show "rd8 m (int (b + (20 + ptr p i)) + 4) = Some (nd_flags (node_at p i))"
    unfolding 4 using r(1) [of "20 + ptr p i + 4"] e(3) len s8 by (simp add: nd_flags_def node_at_def)
  show "rd32 m (int (b + (20 + ptr p i))) = Some (nd_dsize (node_at p i))"
    using r(3) [of "20 + ptr p i"] e(3) len e4 [of 0] s8 by (simp add: nd_dsize_def)
  have 6: "int (b + (20 + ptr p i)) + 6 = int (b + (20 + ptr p i + 6))" by simp
  show k6: "rd16 m (int (b + (20 + ptr p i)) + 6) = Some (g16 (node_at p i) 6)"
    unfolding 6 using r(2) [of "20 + ptr p i + 6"] e(3) len ek [of 6] s8 by simp
  have sl: "slice m (int (b + (20 + ptr p i)) + int k) (int (b + (20 + ptr p i)) + int l) =
       Some (take (l - k) (drop k (node_at p i)))" if "k \<le> l" "l \<le> nsz p i" for k l
  proof -
    have kl: "int (b + (20 + ptr p i)) + int k = int (b + (20 + ptr p i + k))"
      "int (b + (20 + ptr p i)) + int l = int (b + (20 + ptr p i + l))" by simp_all
    have "take (l - k) (drop (20 + ptr p i + k) (Data p)) = take (l - k) (drop k (node_at p i))"
      using that by (simp add: node_at_def drop_take min_def add.commute)
    then show ?thesis
      unfolding kl using r(4) [of "20 + ptr p i + k" "20 + ptr p i + l"] that e(2) len by (simp del: of_nat_add)
  qed
  then show "k \<le> l \<Longrightarrow> l \<le> nsz p i \<Longrightarrow> slice m (int (b + (20 + ptr p i)) + int k) (int (b + (20 + ptr p i)) + int l) =
       Some (take (l - k) (drop k (node_at p i)))" .
  show "k + 4 \<le> nsz p i \<Longrightarrow> rd32 m (int (b + (20 + ptr p i)) + int k) = Some (g32 (node_at p i) k)"
  proof -
    assume k: "k + 4 \<le> nsz p i"
    have kk: "int (b + (20 + ptr p i)) + int k = int (b + (20 + ptr p i + k))" by simp
    show ?thesis unfolding kk using r(3) [of "20 + ptr p i + k"] e4 [OF k] k e(2) len by (simp del: of_nat_add)
  qed
  have "int (b + (20 + ptr p i)) + 8 + uint (g16 (node_at p i) 6) = int (b + (20 + ptr p i)) + int (8 + nd_klen (node_at p i))"
    by (simp add: nd_klen_def)
  then show "raw_key m (int b) (int i) = Some (nd_key (node_at p i))"
    using sl [of 8 "8 + nd_klen (node_at p i)"] node_at_klen [OF ok]
    by (simp only: raw_key_def nd bind.bind_lunit k6) (simp add: nd_key_def)
qed

lemma raw_leafResult_ok:
  assumes m: "slice m (int b) (int (b + n)) = Some (Data p)" and ok: "page_ok p" "i < nents p" and leaf: "\<not> brp p"
  shows "raw_leafResult e ts m (int b) (int i) True = value_of e ts (node_at p i)"
proof -
  let ?nd = "node_at p i"
  note r = raw_entry [OF m ok]
  have wf: "node_wf False ?nd" using node_wf_node_at [OF ok] leaf by simp
  note len = length_leaf_node [OF wf]
  have sz: "nsz p i = length ?nd" using ok by simp
  have fb: "nd_flags ?nd AND 1 \<noteq> 0 \<longleftrightarrow> nd_big ?nd" by (simp add: nd_big_def nodeBig_def)
  have k: "int (b + (20 + ptr p i)) + 8 + uint (g16 ?nd 6) = int (b + (20 + ptr p i)) + int (8 + nd_klen ?nd)"
    by (simp add: nd_klen_def)
  show ?thesis
  proof (cases "nd_big ?nd")
    case True
    then have "rd32 m (int (b + (20 + ptr p i)) + int (8 + nd_klen ?nd)) = Some (nd_ovpg ?nd)"
      using r(6) [of "8 + nd_klen ?nd"] len sz by (simp add: nd_ovpg_def)
    then show ?thesis
      using True unfolding raw_leafResult_def r(1-4) k bind.bind_lunit fb by (simp add: value_of_def)
  next
    case False
    have e: "int (b + (20 + ptr p i)) + int (8 + nd_klen ?nd) + uint (nd_dsize ?nd) = int (b + (20 + ptr p i)) + int (nsz p i)"
      using len sz False by simp
    have "slice m (int (b + (20 + ptr p i)) + int (8 + nd_klen ?nd)) (int (b + (20 + ptr p i)) + int (nsz p i)) = Some (nd_data ?nd)"
      using r(5) [of "8 + nd_klen ?nd" "nsz p i"] node_at_klen [OF ok] sz by (simp add: nd_data_def)
    moreover have "unat (nd_dsize ?nd) = length (nd_data ?nd)" using len False by (simp add: nd_data_def)
    ultimately show ?thesis
      using False unfolding raw_leafResult_def r(1-4) k e bind.bind_lunit fb
      by (simp add: value_of_def nodeTree_def nodeDup_def)
  qed
qed

text \<open>The inlined search agrees with the result on the page.\<close>

lemma raw_search_ok:
  assumes m: "slice m (int b) (int (b + n)) = Some (Data p)"
    and ok: "page_ok p" "keys_sorted bytes_compare p" and n: "brp p \<or> nents p \<noteq> 0"
  shows "raw_search m (int b) (\<not> brp p) (int (nents p)) k = Some (map_prod int id (search_result bytes_compare p k))"
proof -
  define c where "c = (\<lambda>mid. map_option (bytes_compare k) (raw_key m (int b) mid))"
  have c: "c (int i) = Some (bytes_compare k (keys_of p ! i))" if "i < nents p" for i
    using raw_entry(7) [OF m ok(1) that] that by (simp add: c_def)
  show ?thesis
  proof (cases "brp p")
    case False
    have "bsearch c 0 (int (nents p) - 1) = Some (if has_key bytes_compare (keys_of p) k
        then Inl (int (leaf_pos bytes_compare (keys_of p) k)) else Inr (int (leaf_pos bytes_compare (keys_of p) k)))"
      by (rule bytes.leaf_search) (use ok False c in \<open>auto simp: keys_sorted_def\<close>)
    then show ?thesis using False by (simp add: raw_search_def search_result_def flip: c_def)
  next
    case True
    show ?thesis
    proof (cases "nents p \<le> 1")
      case le: True
      then have "tl (keys_of p) = []" by (simp flip: length_0_conv)
      then show ?thesis using True le by (simp add: raw_search_def search_result_def branch_pos_def has_key_def)
    next
      case False
      have "bsearch c 1 (int (nents p) - 1) = Some (if has_key bytes_compare (tl (keys_of p)) k
          then Inl (int (branch_pos bytes_compare (keys_of p) k)) else Inr (int (branch_pos bytes_compare (keys_of p) k) + 1))"
        by (rule bytes.branch_search) (use ok True c False in \<open>auto simp: keys_sorted_def\<close>)
      moreover have "c 1 = Some (bytes_compare k (keys_of p ! 1))" using c [of 1] False by simp
      ultimately show ?thesis
        using True False by (auto simp: raw_search_def search_result_def simp flip: c_def)
    qed
  qed
qed

lemma raw_leafResult_miss: "raw_leafResult e ts m b idx False = Some (ts, Inl ErrNotFoundError)"
  by (simp add: raw_leafResult_def)

text \<open>The header fields the descent reads.\<close>

lemma raw_page:
  assumes "rd_map m n pg = Some p" "page_ok p"
  shows "slice m (int (unat pg * n)) (int (unat pg * n + n)) = Some (Data p)"
    "rd16 m (int (unat pg * n) + 10) = Some (g16 (Data p) 10)"
    "rd16 m (int (unat pg * n) + 12) = Some (g16 (Data p) 12)"
    "g16 (Data p) 10 AND 2 \<noteq> 0 \<longleftrightarrow> lfp p" "drop_bit 1 (uint (g16 (Data p) 12)) = int (nents p)"
proof -
  show m: "slice m (int (unat pg * n)) (int (unat pg * n + n)) = Some (Data p)"
    using assms(1) by (auto simp: rd_map_def)
  have l: "20 \<le> n" using sub_slice(1) [OF m] page_okD(1) [OF assms(2)] by simp
  have "int (unat pg * n) + 10 = int (unat pg * n + 10)" "int (unat pg * n) + 12 = int (unat pg * n + 12)" by simp_all
  then show "rd16 m (int (unat pg * n) + 10) = Some (g16 (Data p) 10)"
    "rd16 m (int (unat pg * n) + 12) = Some (g16 (Data p) 12)"
    using sub_reads(2) [OF m, of 10] sub_reads(2) [OF m, of 12] l by simp_all
  show "g16 (Data p) 10 AND 2 \<noteq> 0 \<longleftrightarrow> lfp p" by (simp add: lfp_def pageLeaf_def)
  show "drop_bit 1 (uint (g16 (Data p) 12)) = int (nents p)" by (simp add: drop_bit1_uint nents_def low_def)
qed

lemma fast_round:
  fixes t pg
  defines "m \<equiv> mapped (mmapData t)" and "b \<equiv> unat pg * unat (txnPageSize t)"
  assumes p: "rd_map m (unat (txnPageSize t)) pg = Some p" "page_ok p"
  shows "directGetReadOnlyFast e (t # ps) pg k =
    (if lfp p \<and> nents p = 0 then Some (t # ps, Inl ErrNotFoundError)
     else do { (idx, exact) \<leftarrow> raw_search m (int b) (lfp p) (int (nents p)) k;
               if lfp p then raw_leafResult e (t # ps) m (int b) idx exact
               else do { nodeBase \<leftarrow> raw_node m (int b) idx; child \<leftarrow> rd32 m nodeBase;
                         directGetReadOnlyFast e (t # ps) child k } })"
proof -
  have b: "uint pg * uint (txnPageSize t) = int b" by (simp add: b_def)
  show ?thesis
    by (subst directGetReadOnlyFast.simps)
       (simp only: list.case bind.bind_lunit Let_def b m_def [symmetric] raw_page [OF p, folded b_def] of_nat_eq_0_iff)
qed

lemma directGetReadOnlyFast_ok:
  defines "rd t \<equiv> rd_map (mapped (mmapData t)) (unat (txnPageSize t))"
  assumes "tree_ok bytes_compare (rd t) h pg lo hi" "in_range bytes_compare lo hi k"
  shows "directGetReadOnlyFast e (t # ps) pg k = lookup_value e (t # ps) bytes_compare (leaf_nodes (rd t) h pg) k"
  using assms(2,3)
proof (induction h arbitrary: pg lo hi)
  case (0 pg lo hi)
  from 0(1) obtain p where p: "rd t pg = Some p" "page_ok p" "keys_sorted bytes_compare p" "\<not> brp p" "lfp p"
    by (rule bytes.tree_ok_page) simp
  note rp = raw_page [OF p(1) [unfolded rd_def] p(2)] and fr = fast_round [OF p(1) [unfolded rd_def] p(2)]
  have st: "sorted_from bytes_compare 0 (keys_of p)" using p by (simp add: keys_sorted_def)
  note hit = bytes.leaf_pos_hit(1) [OF st, unfolded length_keys_of]
  show ?case
  proof (cases "nents p = 0")
    case True
    then have "entries p = []" by (simp flip: length_0_conv)
    then show ?thesis
      using True p by (simp add: fr lookup_value_def find_node_def)
  next
    case False
    show ?thesis
      using False raw_search_ok [OF rp(1) p(2,3), of k] raw_leafResult_ok [OF rp(1) p(2) hit p(4)] p
        bytes.find_leaf [OF p(2) st, of k]
      by (cases "has_key bytes_compare (keys_of p) k")
         (simp_all add: fr search_result_def lookup_value_def raw_leafResult_miss hit del: of_nat_mult of_nat_add)
  qed
next
  case (Suc h)
  from Suc.prems(1) obtain p where p: "rd t pg = Some p" "page_ok p" "keys_sorted bytes_compare p" "brp p" "\<not> lfp p"
    by (rule bytes.tree_ok_page) simp
  note rp = raw_page [OF p(1) [unfolded rd_def] p(2)] and fr = fast_round [OF p(1) [unfolded rd_def] p(2)]
  note fd = bytes.find_descend [OF Suc.prems(1) p(1) Suc.prems(2)]
  have "directGetReadOnlyFast e (t # ps) pg k =
     directGetReadOnlyFast e (t # ps) (nd_dsize (entries p ! branch_pos bytes_compare (keys_of p) k)) k"
    using raw_search_ok [OF rp(1) p(2,3), of k] raw_entry(1,3) [OF rp(1) p(2) fd(1)] p fd(1)
    by (simp add: fr search_result_def del: of_nat_mult of_nat_add)
  then show ?case using Suc.IH [OF fd(3,2)] fd(4) by (simp add: lookup_value_def)
qed

section \<open>Txn.Get\<close>

definition env_cmp :: "env \<Rightarrow> nat \<Rightarrow> cmp_fn option" where
  "env_cmp e dbi = (if dbi < length (dbis e) then Option.bind (dbis e ! dbi) di_cmp else None)"

text \<open>The comparator a table is read with: the cached one, the one set on the environment, or the default.\<close>

definition table_cmp :: "env \<Rightarrow> txn \<Rightarrow> nat \<Rightarrow> cmp_fn" where
  "table_cmp e t dbi =
     (case dbiComparators t ! dbi of Some c \<Rightarrow> c
      | None \<Rightarrow> (case env_cmp e dbi of Some c \<Rightarrow> c | None \<Rightarrow> bytes_compare))"

definition cmp_cache_ok :: "txn \<Rightarrow> nat \<Rightarrow> bool" where
  "cmp_cache_ok t dbi \<longleftrightarrow> dbi < length (dbiComparators t) \<and> dbi < length (dbiUsesDefaultCmp t) \<and>
     (\<forall>c. dbiComparators t ! dbi = Some c \<longrightarrow> dbiUsesDefaultCmp t ! dbi \<longrightarrow> c = bytes_compare)"

definition same_pages :: "txn \<Rightarrow> txn \<Rightarrow> bool" where
  "same_pages t t' \<longleftrightarrow> (\<exists>cs us. t' = t\<lparr>dbiComparators := cs, dbiUsesDefaultCmp := us\<rparr>)"

text \<open>Where the pages of a transaction come from.\<close>

definition page_source :: "env \<Rightarrow> txn \<Rightarrow> txn list \<Rightarrow> pgno \<Rightarrow> page option" where
  "page_source e t ps =
     (if IsReadOnly t then rd_map (mapped (mmapData t)) (unat (txnPageSize t)) else rd_txn e (t # ps))"

lemma cacheComparator_ok:
  assumes "cmp_cache_ok t dbi"
  obtains t' where "cacheComparator e t dbi = Some t'" "same_pages t t'" "comparator_of t' dbi = Some (table_cmp e t dbi)"
    "cmp_cache_ok t' dbi"
proof (cases "dbiComparators t ! dbi")
  case (Some c)
  then show ?thesis
    using assms by (intro that [of t]) (auto simp: cacheComparator_def same_pages_def comparator_of_def table_cmp_def
      cmp_cache_ok_def intro!: exI [of _ "dbiComparators t"] exI [of _ "dbiUsesDefaultCmp t"])
next
  case None
  define c where "c = (case env_cmp e dbi of Some c \<Rightarrow> c | None \<Rightarrow> bytes_compare)"
  define t' where "t' = t\<lparr>dbiComparators := (dbiComparators t)[dbi := Some c],
    dbiUsesDefaultCmp := (dbiUsesDefaultCmp t)[dbi := (env_cmp e dbi = None)]\<rparr>"
  have "cacheComparator e t dbi = Some t'"
    using assms None by (simp add: cacheComparator_def cmp_cache_ok_def t'_def c_def env_cmp_def Let_def)
  moreover have "same_pages t t'" by (auto simp: same_pages_def t'_def)
  moreover have "comparator_of t' dbi = Some (table_cmp e t dbi)"
    using assms None by (simp add: comparator_of_def t'_def table_cmp_def c_def cmp_cache_ok_def)
  moreover have "cmp_cache_ok t' dbi"
    using assms by (auto simp: cmp_cache_ok_def t'_def c_def)
  ultimately show ?thesis by (rule that)
qed

lemma same_pages_refl: "same_pages t t"
  by (auto simp: same_pages_def intro!: exI [of _ "dbiComparators t"] exI [of _ "dbiUsesDefaultCmp t"])

lemma same_pages_tracker: "tracker_get e (t\<lparr>dbiComparators := cs, dbiUsesDefaultCmp := us\<rparr>) = tracker_get e t"
proof -
  have "deref e (t\<lparr>dbiComparators := cs, dbiUsesDefaultCmp := us\<rparr>) = deref e t"
    by (rule ext) (simp add: deref_def cong: if_cong pstruct.case_cong)
  then show ?thesis by (intro ext) (simp add: tracker_get_def tracker_ref_def cong: option.case_cong)
qed

lemma same_pages_source:
  "same_pages t t' \<Longrightarrow> page_source e t' ps = page_source e t ps \<and> IsReadOnly t' = IsReadOnly t"
  by (auto simp: same_pages_def page_source_def rd_txn_def IsReadOnly_def same_pages_tracker fun_eq_iff)

lemma directGet_ok:
  assumes ord: "key_order (table_cmp e t dbi)" and cache: "cmp_cache_ok t dbi"
    and ok: "tree_ok (table_cmp e t dbi) (page_source e t ps) h (Root tr) None None"
  shows "\<exists>t'. same_pages t t' \<and>
    directGet e (t # ps) tr dbi k =
      lookup_value e (t' # ps) (table_cmp e t dbi) (leaf_nodes (page_source e t ps) h (Root tr)) k"
proof -
  let ?c = "table_cmp e t dbi"
  obtain t' where t': "(if dbi < length (dbiComparators t) \<and> dbiComparators t ! dbi = None
      then cacheComparator e t dbi else Some t) = Some t'" "same_pages t t'" "comparator_of t' dbi = Some ?c" "cmp_cache_ok t' dbi"
  proof (cases "dbiComparators t ! dbi")
    case None
    with cacheComparator_ok [OF cache, of e] that cache show ?thesis by (auto simp: cmp_cache_ok_def)
  next
    case (Some c)
    then show ?thesis
      using cache same_pages_refl by (intro that [of t]) (auto simp: comparator_of_def table_cmp_def cmp_cache_ok_def)
  qed
  note src = same_pages_source [OF t'(2), of e ps]
  have rng: "in_range ?c None None k" by (simp add: in_range_def)
  show ?thesis
  proof (cases "IsReadOnly t")
    case True
    then have rd: "page_source e t ps = rd_map (mapped (mmapData t')) (unat (txnPageSize t'))"
      using src by (auto simp: page_source_def)
    have ls: "dbi < length (dbiUsesDefaultCmp t')" using t'(4) by (simp add: cmp_cache_ok_def)
    show ?thesis
    proof (cases "dbiUsesDefaultCmp t' ! dbi")
      case True
      then have "?c = bytes_compare" using t'(3,4) by (auto simp: comparator_of_def cmp_cache_ok_def split: if_splits)
      then have "directGetReadOnlyFast e (t' # ps) (Root tr) k =
          lookup_value e (t' # ps) ?c (leaf_nodes (page_source e t ps) h (Root tr)) k"
        using directGetReadOnlyFast_ok [of t' h "Root tr" None None k e ps] ok rng unfolding rd by simp
      then show ?thesis
        using t' \<open>IsReadOnly t\<close> src True ls by (intro exI [of _ t']) (simp add: directGet_def)
    next
      case False
      have "directGetReadOnly e (t' # ps) (Root tr) k ?c =
          lookup_value e (t' # ps) ?c (leaf_nodes (page_source e t ps) h (Root tr)) k"
        using key_order.directGetReadOnly_ok [OF ord, of t' h "Root tr" None None k e ps] ok rng unfolding rd by simp
      then show ?thesis
        using t' \<open>IsReadOnly t\<close> src False ls by (intro exI [of _ t']) (simp add: directGet_def)
    qed
  next
    case False
    then have rd: "page_source e t ps = rd_txn e (t' # ps)" using src by (auto simp: page_source_def)
    have "directGetWrite e (t' # ps) (Root tr) k ?c =
        lookup_value e (t' # ps) ?c (leaf_nodes (page_source e t ps) h (Root tr)) k"
      using key_order.directGetWrite_ok [OF ord, of e "t' # ps" h "Root tr" None None k] ok rng unfolding rd by simp
    then show ?thesis
      using t' False src by (intro exI [of _ t']) (simp add: directGet_def)
  qed
qed

lemma txn_Get_ok:
  assumes "txn_valid t" "0 < dbi" "dbi < length (trees t)"
    and "key_order (table_cmp e t dbi)" "cmp_cache_ok t dbi" "\<not> isEmpty (trees t ! dbi)"
    and "tree_ok (table_cmp e t dbi) (page_source e t ps) h (Root (trees t ! dbi)) None None"
  shows "\<exists>t'. same_pages t t' \<and>
    txn_Get e (t # ps) dbi k = lookup_value e (t' # ps) (table_cmp e t dbi) (leaf_nodes (page_source e t ps) h (Root (trees t ! dbi))) k"
  using directGet_ok [OF assms(4,5,7)] assms by (simp add: txn_Get_def)

end
