(* ===== verification/TxnSamples.thy ===== *)
theory TxnSamples
  imports Samples TreeRead
begin

text \<open>
  A read-only transaction over a mapping of six pages of 64 bytes: page 5 is the sample leaf, the
  root of table 2.
\<close>

definition sample_map :: bytes where "sample_map = replicate 320 0 @ Data sample_leaf"

definition sample_tree :: tree where
  "sample_tree = \<lparr>tFlags = 0, Height = 0, DupfixSize = 0, Root = 5, BranchPages = 0, LeafPages = 1, LargePages = 0,
     Sequence = 0, Items = 2, ModTxnid = 1\<rparr>"

definition sample_env :: env where
  "sample_env = \<lparr>envSignature = 0, envFlags = 0, dataMap = Some sample_map, envPageSize = 64, maxReaders = 126, maxDBs = 16,
     geoLower = 0, geoUpper = 0, geoNow = 0, geoGrow = 0, geoShrink = 0, envMeta = None, dbis = [], mmapVersion = 0,
     spillBuf = None\<rparr>"

definition sample_txn :: txn where
  "sample_txn = \<lparr>signature = txnSignature, txnFlags = ucast TxnReadOnly, txnID_of = 1,
     trees = [sample_tree, sample_tree, sample_tree], dirtyTracker = empty_map, structs = [], freePages = [], allocatedPg = 6,
     hasNonMmapPages = False, dbiDirty = None, dbiComparators = [None, None, None], dbiDupComparators = [],
     dbiUsesDefaultCmp = [False, False, False], dbiUsesDefaultDupCmp = [], spillSlots = empty_map, pageCache = None,
     mmapData = Some sample_map, txnPageSize = 64\<rparr>"

lemma sample_txn_page: "page_source sample_env sample_txn [] 5 = Some sample_leaf"
  by (simp add: page_source_def sample_txn_def sample_env_def IsReadOnly_def TxnReadOnly_def rd_map_def mapped_def
    sample_map_def slice_def sample_leaf_fields) 

lemma sample_txn_tree: "tree_ok bytes_compare (page_source sample_env sample_txn []) 0 5 None None"
  by (simp add: sample_txn_page sample_leaf_ok sample_sorted sample_leaf_fields in_range_def)
     (simp add: lfp_def sample_leaf_def g16_def le16_def pageLeaf_def)

lemma sample_txn_cmp: "table_cmp sample_env sample_txn 2 = bytes_compare" "cmp_cache_ok sample_txn 2"
  by (simp_all add: table_cmp_def env_cmp_def sample_txn_def sample_env_def cmp_cache_ok_def)

end
