(* ===== verification/MetaUpdate.thy ===== *)
theory MetaUpdate
  imports Meta
begin

text \<open>
  The commit of a new meta page: \<open>updateMeta\<close> of txn.go and \<open>readMeta\<close> of env.go.  The file (and the
  mapping of it) is its bytes.  An update is the list of the states it goes through, so that what a
  reader or a recovery after a crash finds in between can be stated: the path through \<open>WriteAt\<close> never
  exposes a half-written meta, the path that writes into the mapping (\<open>WriteMap\<close>) does.
\<close>

section \<open>Reading the three metas from the file\<close>

definition env_readMeta :: "bytes \<Rightarrow> u32 \<Rightarrow> (goerror + metaTriple) option" where
  "env_readMeta data ps =
     (if length data < unat ps * numMetas then Some (Inl (NewError ErrCorrupted))
      else
        do { pages \<leftarrow> those (map (\<lambda>i. slice data (int i * uint ps + pageHeaderSize) ((int i + 1) * uint ps)) [0..<numMetas]);
             r \<leftarrow> newMetaTriple pages;
             Some (case r of Inl err \<Rightarrow> Inl (WrapError ErrCorrupted err) | Inr mt \<Rightarrow> Inr mt) })"

section \<open>The committed meta\<close>

text \<open>What the transaction hands to \<open>updateMeta\<close>.\<close>

record commit =
  ctxnID :: u64
  cGC :: tree
  cMain :: tree
  callocatedPg :: u32
  cpageSize :: u32
  csysPageSize :: int
  cwillSync :: bool

definition alignToSysPageSize :: "int \<Rightarrow> int \<Rightarrow> int" where
  "alignToSysPageSize sysPageSize n =
     (if n mod sysPageSize = 0 then n else (n div sysPageSize + 1) * sysPageSize)"

definition alignedPgCount :: "commit \<Rightarrow> u32" where
  "alignedPgCount c =
     (let alignedFileSize = alignToSysPageSize (csysPageSize c) (uint (callocatedPg c) * uint (cpageSize c))
      in of_int (alignedFileSize div uint (cpageSize c)))"

definition fill_meta :: "commit \<Rightarrow> meta \<Rightarrow> meta" where
  "fill_meta c m =
     (let m = setTxnid m (ctxnID c);
          m = m\<lparr>GCTree := cGC c\<rparr>;
          m = m\<lparr>MainTree := cMain c\<rparr>;
          m = m\<lparr>Geometry := (Geometry m)\<lparr>Now := alignedPgCount c\<rparr>\<rparr>;
          m = m\<lparr>Geometry := (Geometry m)\<lparr>Next := alignedPgCount c\<rparr>\<rparr>
      in if cwillSync c then setSignSteady m else setSignWeak m)"

definition meta_image :: "u32 \<Rightarrow> nat \<Rightarrow> meta \<Rightarrow> bytes" where
  "meta_image ps metaIdx m =
     enc64 0 @ enc16 0 @ enc16 pageMeta @ enc16 0 @ enc16 0 @ enc32 (of_nat metaIdx) @
     meta_bytes m @ replicate (unat ps - 244) 0"

definition write_at :: "bytes \<Rightarrow> nat \<Rightarrow> bytes \<Rightarrow> bytes" where
  "write_at f off b = blit (f @ replicate (off + length b - length f) 0) off b"

text \<open>
  The path through \<open>WriteAt\<close>: the page is written with \<open>txnid_b\<close> 0 first and complete afterwards.
  The result is the list of the states of the file and what the last \<open>readMeta\<close> gives;
  \<open>w1\<close>, \<open>w2\<close>, \<open>s1\<close> are the errors of the two writes and of the sync (a failed write leaves the file).
\<close>

definition updateMeta_file ::
  "goerror option \<Rightarrow> goerror option \<Rightarrow> goerror option \<Rightarrow> commit \<Rightarrow> metaTriple \<Rightarrow> bytes \<Rightarrow>
   (bytes list \<times> (goerror + metaTriple)) option" where
  "updateMeta_file w1 w2 s1 c mt f =
     (let metaIdx = nextMetaIndex mt; off = metaIdx * unat (cpageSize c) in
      case recentMeta mt of None \<Rightarrow> Some ([f], Inl (NewError ErrCorrupted))
      | Some rm \<Rightarrow>
          let m = beginMetaUpdate (fill_meta c rm) (ctxnID c); f1 = write_at f off (meta_image (cpageSize c) metaIdx m) in
          case w1 of Some e \<Rightarrow> Some ([f], Inl (WrapError ErrProblem e))
          | None \<Rightarrow>
            let m' = endMetaUpdate m (ctxnID c); f2 = write_at f1 off (meta_image (cpageSize c) metaIdx m') in
            case w2 of Some e \<Rightarrow> Some ([f, f1], Inl (WrapError ErrProblem e))
            | None \<Rightarrow>
              case (if cwillSync c then s1 else None) of
                Some e \<Rightarrow> Some ([f, f1, f2], Inl (WrapError ErrProblem e))
              | None \<Rightarrow> do { r \<leftarrow> env_readMeta f2 (cpageSize c); Some ([f, f1, f2], r) })"

text \<open>
  The path through the mapping: every assignment of the code is a store into the mapping.  The list
  holds the contents of the meta slot after each of them, from the copy of the recent meta on.
\<close>

definition writemap_metas :: "commit \<Rightarrow> meta \<Rightarrow> meta list" where
  "writemap_metas c rm =
     (let tid = split64 (ctxnID c);
          m1 = rm;
          m2 = m1\<lparr>TxnidA := (fst tid, snd (TxnidA m1))\<rparr>;
          m3 = m2\<lparr>TxnidA := tid\<rparr>;
          m4 = m3\<lparr>TxnidB := (fst tid, snd (TxnidB m3))\<rparr>;
          m5 = m4\<lparr>TxnidB := tid\<rparr>;
          m6 = m5\<lparr>GCTree := cGC c\<rparr>;
          m7 = m6\<lparr>MainTree := cMain c\<rparr>;
          m8 = m7\<lparr>Geometry := (Geometry m7)\<lparr>Now := alignedPgCount c\<rparr>\<rparr>;
          m9 = m8\<lparr>Geometry := (Geometry m8)\<lparr>Next := alignedPgCount c\<rparr>\<rparr>;
          m10 = (if cwillSync c then setSignSteady m9 else setSignWeak m9);
          m11 = m10\<lparr>TxnidA := (fst tid, snd (TxnidA m10))\<rparr>;
          m12 = m11\<lparr>TxnidA := tid\<rparr>;
          m13 = m12\<lparr>TxnidB := (0, snd (TxnidB m12))\<rparr>;
          m14 = m13\<lparr>TxnidB := (0, 0)\<rparr>;
          m15 = m14\<lparr>TxnidB := (fst tid, 0)\<rparr>;
          m16 = m15\<lparr>TxnidB := tid\<rparr>
      in [m1, m2, m3, m4, m5, m6, m7, m8, m9, m10, m11, m12, m13, m14, m15, m16])"

definition writemap_header :: "nat \<Rightarrow> nat \<Rightarrow> bytes \<Rightarrow> bytes" where
  "writemap_header off metaIdx d =
     blit (blit (blit d (off + 16) (enc32 (of_nat metaIdx))) (off + 10) (enc16 pageMeta)) off (enc64 0)"

definition updateMeta_mmap ::
  "goerror option \<Rightarrow> commit \<Rightarrow> metaTriple \<Rightarrow> bytes \<Rightarrow> (bytes list \<times> (goerror + metaTriple)) option" where
  "updateMeta_mmap s1 c mt d =
     (let metaIdx = nextMetaIndex mt; off = metaIdx * unat (cpageSize c) in
      if off + unat (cpageSize c) \<le> length d then
        let dh = writemap_header off metaIdx d in
        case recentMeta mt of None \<Rightarrow> Some ([d, dh], Inl (NewError ErrCorrupted))
        | Some rm \<Rightarrow>
            let states = d # dh # map (\<lambda>m. blit dh (off + 20) (meta_bytes m)) (writemap_metas c rm) in
            case (if cwillSync c then s1 else None) of
              Some e \<Rightarrow> Some (states, Inl (WrapError ErrProblem e))
            | None \<Rightarrow> do { r \<leftarrow> env_readMeta (last states) (cpageSize c); Some (states, r) }
      else None)"

text \<open>\<open>useWriteMap\<close> is the test on the flag and the mapping; a slot beyond the mapping takes the other path.\<close>

definition updateMeta ::
  "bool \<Rightarrow> goerror option \<Rightarrow> goerror option \<Rightarrow> goerror option \<Rightarrow> commit \<Rightarrow> metaTriple \<Rightarrow> bytes \<Rightarrow>
   (bytes list \<times> (goerror + metaTriple)) option" where
  "updateMeta useWriteMap w1 w2 s1 c mt f =
     (if useWriteMap \<and> nextMetaIndex mt * unat (cpageSize c) + unat (cpageSize c) \<le> length f
      then updateMeta_mmap s1 c mt f else updateMeta_file w1 w2 s1 c mt f)"

section \<open>The choice of the current meta\<close>

lemma argmax_from_spec:
  assumes "argmax_from i ts (r0, m0) = (r, m)"
  shows "m0 \<le> m \<and> (\<forall>t \<in> set ts. t \<le> m) \<and>
    ((r, m) = (r0, m0) \<or> (\<exists>j < length ts. r = int (i + j) \<and> ts ! j = m \<and> m0 < m \<and> (\<forall>k < j. ts ! k < m)))"
  using assms
proof (induction ts arbitrary: i r0 m0)
  case (Cons t ts)
  show ?case
  proof (cases "t > m0")
    case True
    with Cons.prems have "argmax_from (Suc i) ts (int i, t) = (r, m)" by simp
    from Cons.IH [OF this] show ?thesis
    proof (elim conjE disjE exE)
      assume "t \<le> m" "\<forall>t \<in> set ts. t \<le> m" "(r, m) = (int i, t)"
      then show ?thesis using True by (intro conjI disjI2 exI [of _ 0]) auto
    next
      fix j assume "t \<le> m" "\<forall>t \<in> set ts. t \<le> m" "j < length ts" "r = int (Suc i + j)" "ts ! j = m" "t < m"
        "\<forall>k < j. ts ! k < m"
      then show ?thesis using True
        by (intro conjI disjI2 exI [of _ "Suc j"]) (auto simp: less_Suc_eq_0_disj)
    qed
  next
    case False
    with Cons.prems have "argmax_from (Suc i) ts (r0, m0) = (r, m)" by simp
    from Cons.IH [OF this] show ?thesis
    proof (elim conjE disjE exE)
      assume "m0 \<le> m" "\<forall>t \<in> set ts. t \<le> m" "(r, m) = (r0, m0)"
      then show ?thesis using False by auto
    next
      fix j assume "m0 \<le> m" "\<forall>t \<in> set ts. t \<le> m" "j < length ts" "r = int (Suc i + j)" "ts ! j = m" "m0 < m"
        "\<forall>k < j. ts ! k < m"
      then show ?thesis using False
        by (intro conjI disjI2 exI [of _ "Suc j"]) (auto simp: less_Suc_eq_0_disj)
    qed
  qed
qed simp

text \<open>The index found, if any, is the first one of the largest transaction id.\<close>

definition is_recent :: "meta option list \<Rightarrow> nat \<Rightarrow> bool" where
  "is_recent ms r \<longleftrightarrow> r < length ms \<and> 0 < tx_of (ms ! r) \<and> (\<forall>j < length ms. tx_of (ms ! j) \<le> tx_of (ms ! r)) \<and>
     (\<forall>j < r. tx_of (ms ! j) < tx_of (ms ! r))"

lemma is_recent_unique: "is_recent ms r \<Longrightarrow> is_recent ms s \<Longrightarrow> r = s"
  unfolding is_recent_def by (metis leD linorder_neqE_nat)

lemma argmax_recent:
  "is_recent ms r \<Longrightarrow> fst (argmax_from 0 (map tx_of ms) (-1, 0)) = int r"
  "(\<forall>r. \<not> is_recent ms r) \<Longrightarrow> fst (argmax_from 0 (map tx_of ms) (-1, 0)) = -1"
  "(\<forall>r. \<not> is_recent ms r) \<Longrightarrow> t \<in> set ms \<Longrightarrow> tx_of t = 0"
proof -
  obtain r' m where a: "argmax_from 0 (map tx_of ms) (-1, 0) = (r', m)" by force
  from argmax_from_spec [OF this] consider
      "r' = -1" "m = 0" "\<forall>t \<in> set ms. tx_of t \<le> 0"
    | j where "j < length ms" "r' = int j" "tx_of (ms ! j) = m" "0 < m" "\<forall>k < j. tx_of (ms ! k) < m"
      "\<forall>t \<in> set ms. tx_of t \<le> m" by fastforce
  note c = this
  show "fst (argmax_from 0 (map tx_of ms) (-1, 0)) = int r" if r: "is_recent ms r"
    using c
  proof cases
    case 1
    then have "tx_of (ms ! r) \<le> 0" using r by (simp add: is_recent_def)
    then show ?thesis using r by (simp add: is_recent_def)
  next
    case (2 j)
    then have "is_recent ms j" by (auto simp: is_recent_def)
    then show ?thesis using is_recent_unique [OF r] 2 a by simp
  qed
  show "fst (argmax_from 0 (map tx_of ms) (-1, 0)) = -1" if r: "\<forall>r. \<not> is_recent ms r"
    using c
  proof cases
    case (2 j)
    then have "is_recent ms j" by (auto simp: is_recent_def)
    then show ?thesis using r by blast
  qed (use a in simp)
  show "tx_of t = 0" if r: "\<forall>r. \<not> is_recent ms r" "t \<in> set ms"
    using c
  proof cases
    case (2 j)
    then have "is_recent ms j" by (auto simp: is_recent_def)
    then show ?thesis using r by blast
  qed (use r in auto)
qed

lemma triple_of_recent:
  "is_recent ms r \<Longrightarrow> \<exists>t. triple_of ms = Inr t \<and> recent t = int r \<and> metas t = ms \<and> txnids t = map tx_of ms \<and>
     recentMeta t = ms ! r"
  using argmax_recent(1) [of ms r] by (simp add: triple_of_def Let_def recentMeta_def)

lemma triple_of_Inr:
  "triple_of ms = Inr t \<Longrightarrow> \<exists>r. is_recent ms r \<and> recent t = int r \<and> metas t = ms \<and> txnids t = map tx_of ms \<and>
     recentMeta t = ms ! r \<and> ms ! r \<noteq> None"
proof -
  assume t: "triple_of ms = Inr t"
  then obtain r where r: "is_recent ms r"
    using argmax_recent(2) [of ms] by (fastforce simp: triple_of_def Let_def)
  then have "ms ! r \<noteq> None" by (auto simp: is_recent_def tx_of_def split: option.splits)
  then show ?thesis using triple_of_recent [OF r] t r by auto
qed

lemma recent_of_choice:
  "case triple_of ms of
     Inl e \<Rightarrow> e = errMetaNoValid \<and> (\<forall>x \<in> set ms. tx_of x = 0)
   | Inr mt \<Rightarrow> (\<exists>m. recentMeta mt = Some m \<and> 0 < txnID m \<and> Some m \<in> set ms \<and> (\<forall>x \<in> set ms. tx_of x \<le> txnID m))"
proof (cases "\<exists>r. is_recent ms r")
  case True
  then obtain r where r: "is_recent ms r" ..
  then obtain m where m: "ms ! r = Some m" by (cases "ms ! r") (auto simp: is_recent_def tx_of_def)
  with r have "Some m \<in> set ms" "0 < txnID m" "\<forall>x \<in> set ms. tx_of x \<le> txnID m"
    by (auto simp: is_recent_def tx_of_def in_set_conv_nth split: option.splits)
  then show ?thesis using triple_of_recent [OF r] m by auto
next
  case False
  then show ?thesis using argmax_recent(2,3) [of ms] by (auto simp: triple_of_def Let_def)
qed

text \<open>The steady meta is the steady one of the largest id, or the current one.\<close>

lemma steady_of_choice:
  assumes "triple_of ms = Inr mt"
  shows "\<exists>st. steadyMeta mt = Some st \<and> Some st \<in> set ms \<and>
    (if \<exists>x \<in> set ms. 0 < steady_tx_of x then isSteady st \<and> (\<forall>x \<in> set ms. steady_tx_of x \<le> txnID st)
     else recentMeta mt = Some st)"
proof -
  obtain s m where a: "argmax_from 0 (map steady_tx_of ms) (-1, 0) = (s, m)" by force
  from triple_of_Inr [OF assms] obtain r where r: "is_recent ms r" "recent mt = int r" "metas mt = ms" "recentMeta mt = ms ! r" "ms ! r \<noteq> None"
    by blast
  have st: "steady mt = (if s < 0 then recent mt else s)"
    using assms by (auto simp: triple_of_def Let_def a split: if_splits)
  from argmax_from_spec [OF a] consider "s = -1" "\<forall>x \<in> set ms. steady_tx_of x \<le> 0"
    | j where "j < length ms" "s = int j" "steady_tx_of (ms ! j) = m" "0 < m" "\<forall>x \<in> set ms. steady_tx_of x \<le> m" by fastforce
  then show ?thesis
  proof cases
    case 1
    then have "steadyMeta mt = ms ! r" using st r by (simp add: steadyMeta_def)
    moreover have "\<not> (\<exists>x \<in> set ms. 0 < steady_tx_of x)" using 1(2) by (auto simp: word_gt_0 word_le_0_iff)
    moreover have "ms ! r \<in> set ms" using r(1) by (simp add: is_recent_def)
    ultimately show ?thesis using r(4,5) by auto
  next
    case (2 j)
    then have "steadyMeta mt = ms ! j" using st r(3) by (simp add: steadyMeta_def)
    moreover obtain x where "ms ! j = Some x" "isSteady x" "txnID x = m"
      using 2(3,4) by (auto simp: steady_tx_of_def split: option.splits if_splits)
    moreover have "\<exists>x \<in> set ms. 0 < steady_tx_of x" using 2 nth_mem by blast
    moreover have "ms ! j \<in> set ms" using 2(1) by simp
    ultimately show ?thesis using 2(5) by auto
  qed
qed

text \<open>Replacing a slot that is not the current one.\<close>

lemma recent_replace_lower:
  assumes r: "is_recent ms r" and k: "k \<noteq> r" and v: "tx_of v \<le> tx_of (ms ! k)"
  shows "is_recent (ms[k := v]) r"
proof -
  have le: "tx_of (ms[k := v] ! j) \<le> tx_of (ms ! j)" if "j < length ms" for j
    using that v by (cases "j = k") auto
  have eq: "ms[k := v] ! r = ms ! r" using k by simp
  show ?thesis
    unfolding is_recent_def length_list_update eq
    using r le order_trans [OF le] order_le_less_trans [OF le] by (auto simp: is_recent_def)
qed

lemma recent_replace_higher:
  assumes k: "k < length ms" and v: "\<And>j. j < length ms \<Longrightarrow> tx_of (ms ! j) < tx_of v" and p: "0 < tx_of v"
  shows "is_recent (ms[k := v]) k"
  using assms by (auto simp: is_recent_def nth_list_update less_imp_le)

lemma nextMetaIndex_spec:
  assumes "length (txnids mt) = 3"
  shows "nextMetaIndex mt < 3" "\<And>j. j < 3 \<Longrightarrow> txnids mt ! nextMetaIndex mt \<le> txnids mt ! j"
proof -
  have u: "[Suc 0..<numMetas] = [1, 2]" by (simp add: numMetas_def upt_rec)
  show "nextMetaIndex mt < 3" by (simp add: nextMetaIndex_def u)
  fix j :: nat assume "j < 3"
  then have "j = 0 \<or> j = 1 \<or> j = 2" by auto
  then show "txnids mt ! nextMetaIndex mt \<le> txnids mt ! j"
    by (elim disjE) (auto simp: nextMetaIndex_def u)
qed

text \<open>The slot to overwrite is not the current one, unless all three transaction ids agree.\<close>

lemma next_not_recent:
  assumes "length ms = 3" "triple_of ms = Inr mt" "is_recent ms r" "j < 3" "tx_of (ms ! j) < tx_of (ms ! r)"
  shows "nextMetaIndex mt \<noteq> r"
proof -
  have t: "txnids mt = map tx_of ms" using triple_of_Inr [OF assms(2)] by blast
  then have "txnids mt ! nextMetaIndex mt \<le> txnids mt ! j"
    using nextMetaIndex_spec(2) [of mt j] assms(1,4) by simp
  then show ?thesis using assms(1,4,5) t nextMetaIndex_spec(1) [of mt] by auto
qed

section \<open>The metas of a file\<close>

definition page_body :: "bytes \<Rightarrow> nat \<Rightarrow> nat \<Rightarrow> bytes" where
  "page_body f ps i = take (ps - 20) (drop (i * ps + 20) f)"

definition file_metas :: "bytes \<Rightarrow> nat \<Rightarrow> meta option list" where
  "file_metas f ps = map (\<lambda>i. valid_meta (page_body f ps i)) [0..<3]"

lemma length_file_metas [simp]: "length (file_metas f ps) = 3" by (simp add: file_metas_def)

lemma nth_file_metas [simp]: "i < 3 \<Longrightarrow> file_metas f ps ! i = valid_meta (page_body f ps i)"
  by (simp add: file_metas_def)

lemma slot_room: "i < 3 \<Longrightarrow> p * 3 \<le> n \<Longrightarrow> i * p + p \<le> (n :: nat)"
proof -
  assume i: "i < 3" and n: "p * 3 \<le> n"
  have "(i + 1) * p \<le> 3 * p" using i by (intro mult_le_mono1) simp
  moreover have "(i + 1) * p = i * p + p" by simp
  ultimately show ?thesis using n by linarith
qed

lemma env_readMeta_eq:
  assumes ps: "244 \<le> unat ps" and len: "unat ps * 3 \<le> length f"
  shows "env_readMeta f ps = Some (case triple_of (file_metas f (unat ps)) of
     Inl err \<Rightarrow> Inl (WrapError ErrCorrupted err) | Inr mt \<Rightarrow> Inr mt)"
proof -
  let ?p = "unat ps"
  have up: "uint ps = int ?p" by simp
  have room: "(i + 1) * ?p \<le> length f" if "i < 3" for i
    using slot_room [OF that len] by simp
  have sl: "slice f (int i * uint ps + pageHeaderSize) ((int i + 1) * uint ps) = Some (page_body f ?p i)"
    if "i < 3" for i
  proof -
    have e: "int i * uint ps + pageHeaderSize = int (i * ?p + 20)" "(int i + 1) * uint ps = int ((i + 1) * ?p)"
      unfolding up pageHeaderSize_def PageHeaderSize_def by (simp_all add: algebra_simps)
    have d: "(i + 1) * ?p - (i * ?p + 20) = ?p - 20" by (simp add: algebra_simps)
    show ?thesis
      unfolding e page_body_def d [symmetric]
      by (rule slice_nat) (use ps room [OF that] in \<open>simp_all add: algebra_simps\<close>)
  qed
  have n3: "[0..<numMetas] = [0, 1, 2]" "[0..<3] = [0, 1, 2::nat]" by (simp_all add: numMetas_def upt_rec)
  define pages where "pages = map (page_body f ?p) [0, 1, 2]"
  have "those (map (\<lambda>i. slice f (int i * uint ps + pageHeaderSize) ((int i + 1) * uint ps)) [0..<numMetas]) = Some pages"
    unfolding n3 pages_def using sl [of 0] sl [of 1] sl [of 2] by simp
  moreover have "newMetaTriple pages = Some (triple_of (map valid_meta pages))"
  proof (rule newMetaTriple_eq)
    fix d assume "d \<in> set pages"
    then show "sized d"
    proof -
      assume "d \<in> set pages"
      then have "d = page_body f ?p 0 \<or> d = page_body f ?p 1 \<or> d = page_body f ?p 2" by (auto simp: pages_def)
      then obtain i where i: "i < 3" "d = page_body f ?p i"
        by (elim disjE) (auto intro: that [of 0] that [of 1] that [of 2])
      have "length d = ?p - 20"
        using room [OF i(1)] ps by (simp add: i(2) page_body_def algebra_simps)
      then show ?thesis using ps by (simp add: sized_def) linarith
    qed
  qed (simp add: pages_def)
  moreover have "map valid_meta pages = file_metas f ?p" by (simp add: file_metas_def n3 pages_def)
  ultimately show ?thesis
    using len by (simp add: env_readMeta_def numMetas_def)
qed

lemma env_readMeta_recent:
  assumes "244 \<le> unat ps" "unat ps * 3 \<le> length f" "is_recent (file_metas f (unat ps)) r"
  shows "\<exists>mt. env_readMeta f ps = Some (Inr mt) \<and> recentMeta mt = file_metas f (unat ps) ! r"
  using triple_of_recent [OF assms(3)] env_readMeta_eq [OF assms(1,2)] by auto

text \<open>A change inside one meta page replaces one meta.\<close>

lemma file_metas_change:
  assumes len: "length f' = length f" and k: "k < 3" and ps: "p * 3 \<le> length f"
    and out: "\<And>x. x < length f \<Longrightarrow> x < k * p \<or> (k + 1) * p \<le> x \<Longrightarrow> f' ! x = f ! x"
  shows "file_metas f' p = (file_metas f p)[k := valid_meta (page_body f' p k)]"
proof (rule nth_equalityI)
  fix i assume "i < length (file_metas f' p)"
  then have i: "i < 3" by simp
  show "file_metas f' p ! i = (file_metas f p)[k := valid_meta (page_body f' p k)] ! i"
  proof (cases "i = k")
    case False
    have "page_body f' p i = page_body f p i"
    proof (cases "p \<le> 20")
      case False
      have room: "(i + 1) * p \<le> length f"
        using slot_room [OF i ps] by simp
      show ?thesis
        unfolding page_body_def
      proof (rule nth_equalityI)
        fix x assume "x < length (take (p - 20) (drop (i * p + 20) f'))"
        then have x: "x < p - 20" by simp
        have in_: "i * p + 20 + x < (i + 1) * p" using x by (simp add: algebra_simps)
        have "i * p + 20 + x < k * p \<or> (k + 1) * p \<le> i * p + 20 + x"
        proof (cases "i < k")
          case True
          then have "(i + 1) * p \<le> k * p" by (intro mult_le_mono1) simp
          then show ?thesis using in_ by simp
        next
          case False
          then have "(k + 1) * p \<le> i * p" using \<open>i \<noteq> k\<close> by (intro mult_le_mono1) simp
          then show ?thesis by simp
        qed
        then show "take (p - 20) (drop (i * p + 20) f') ! x = take (p - 20) (drop (i * p + 20) f) ! x"
          using out [of "i * p + 20 + x"] in_ room x len by (simp add: add.commute add.left_commute)
      qed (simp add: len)
    qed (simp add: page_body_def)
    then show ?thesis using i False by simp
  qed (use i k in simp)
qed simp

lemma valid_meta_bytes:
  "meta_wf m \<Longrightarrow> valid_meta (meta_bytes m @ r) = (if validate_meta m = None then Some m else None)"
  using length_meta_bytes [of m] by (simp add: valid_meta_def readMeta_def meta_roundtrip)

lemma meta_at_wf: "224 \<le> length d \<Longrightarrow> meta_wf (meta_at d)"
  by (simp add: meta_wf_def meta_at_def)

lemma valid_meta_wf: "valid_meta d = Some m \<Longrightarrow> meta_wf m \<and> validate_meta m = None"
  by (auto simp: valid_meta_def readMeta_def meta_at_wf split: option.splits sum.splits if_splits)

lemma length_meta_image: "meta_wf m \<Longrightarrow> 244 \<le> unat ps \<Longrightarrow> length (meta_image ps k m) = unat ps"
  by (simp add: meta_image_def length_meta_bytes)

lemma write_image:
  assumes wf: "meta_wf m" and k: "k < 3" and ps: "244 \<le> unat psz"
    and len: "unat psz * 3 \<le> length f"
  defines "p \<equiv> unat psz"
  defines "f' \<equiv> write_at f (k * p) (meta_image psz k m)"
  shows "length f' = length f" "file_metas f' p = (file_metas f p)[k := if validate_meta m = None then Some m else None]"
    "\<And>x. x < length f \<Longrightarrow> x < k * p \<or> (k + 1) * p \<le> x \<Longrightarrow> f' ! x = f ! x"
proof -
  have li: "length (meta_image psz k m) = p" using length_meta_image [OF wf ps] by (simp add: p_def)
  have room: "k * p + p \<le> length f"
    using slot_room [OF k len] by (simp add: p_def)
  have f': "f' = blit f (k * p) (meta_image psz k m)"
    using room by (simp add: f'_def write_at_def li)
  show l: "length f' = length f" using room by (simp add: f')
  show out: "f' ! x = f ! x" if "x < length f" "x < k * p \<or> (k + 1) * p \<le> x" for x
    using that room li by (auto simp: f' nth_blit algebra_simps)
  have "page_body f' p k = drop 20 (meta_image psz k m)"
  proof -
    have "take p (drop (k * p) f') = meta_image psz k m"
      unfolding f' using take_drop_blit_same [of "k * p" "meta_image psz k m" f] li room by simp
    then have "drop 20 (take p (drop (k * p) f')) = drop 20 (meta_image psz k m)" by simp
    then show ?thesis by (simp add: page_body_def drop_take add.commute)
  qed
  also have "\<dots> = meta_bytes m @ replicate (p - 244) 0"
    by (simp add: meta_image_def p_def)
  finally show "file_metas f' p = (file_metas f p)[k := if validate_meta m = None then Some m else None]"
    using file_metas_change [OF l k _ out] valid_meta_bytes [OF wf] len by (simp add: p_def)
qed

section \<open>The commit through WriteAt\<close>

lemma split64_simps [simp]: "pair64 (split64 v) = v"
  by (simp add: pair64_def split64_def)

text \<open>What a commit starts from: three readable slots, the current meta \<open>rm\<close> in slot \<open>r\<close>, some slot older
  than it, and a transaction id above all of them.\<close>

definition commit_pre :: "commit \<Rightarrow> bytes \<Rightarrow> metaTriple \<Rightarrow> nat \<Rightarrow> meta \<Rightarrow> bool" where
  "commit_pre c f mt r rm \<longleftrightarrow> 244 \<le> unat (cpageSize c) \<and> unat (cpageSize c) * 3 \<le> length f \<and>
     env_readMeta f (cpageSize c) = Some (Inr mt) \<and> recent mt = int r \<and> recentMeta mt = Some rm \<and>
     (\<exists>j < 3. txnids mt ! j < txnids mt ! r) \<and> (\<forall>j < 3. txnids mt ! j < ctxnID c)"

lemma commit_preD:
  assumes "commit_pre c f mt r rm"
  defines "ms \<equiv> file_metas f (unat (cpageSize c))"
  shows "is_recent ms r" "ms ! r = Some rm" "nextMetaIndex mt \<noteq> r" "nextMetaIndex mt < 3" "r < 3"
    "metas mt = ms" "txnids mt = map tx_of ms" "meta_wf rm" "validate_meta rm = None"
    "\<And>j. j < 3 \<Longrightarrow> tx_of (ms ! j) < ctxnID c" "0 < ctxnID c" "\<exists>j < 3. tx_of (ms ! j) < tx_of (ms ! r)"
proof -
  note p = assms(1) [unfolded commit_pre_def]
  have t: "triple_of ms = Inr mt"
    using env_readMeta_eq [of "cpageSize c" f] p
    by (auto simp: ms_def split: sum.splits)
  from triple_of_Inr [OF t] obtain r' where
    r': "is_recent ms r'" "recent mt = int r'" "metas mt = ms" "txnids mt = map tx_of ms" "recentMeta mt = ms ! r'" by blast
  have [simp]: "r' = r" using r'(2) p by simp
  have l3: "length ms = 3" by (simp add: ms_def)
  show rc: "is_recent ms r" "ms ! r = Some rm" "metas mt = ms" "txnids mt = map tx_of ms" using r' p by simp_all
  show "r < 3" using rc(1) l3 by (simp add: is_recent_def)
  show "nextMetaIndex mt < 3" by (rule nextMetaIndex_spec) (simp add: rc(4) l3)
  show ex: "\<exists>j < 3. tx_of (ms ! j) < tx_of (ms ! r)"
    using p rc(4) \<open>r < 3\<close> l3 by auto
  then show "nextMetaIndex mt \<noteq> r" using next_not_recent [OF l3 t rc(1)] by blast
  show lt: "tx_of (ms ! j) < ctxnID c" if "j < 3" for j using p rc(4) that l3 by auto
  show "0 < ctxnID c" using lt [of 0] by (simp add: word_gt_0) (metis word_not_simps(1))
  have "valid_meta (page_body f (unat (cpageSize c)) r) = Some rm" using rc(2) \<open>r < 3\<close> by (simp add: ms_def)
  from valid_meta_wf [OF this] show "meta_wf rm" "validate_meta rm = None" by blast+
qed

definition committed_meta :: "commit \<Rightarrow> meta \<Rightarrow> meta" where
  "committed_meta c rm = endMetaUpdate (beginMetaUpdate (fill_meta c rm) (ctxnID c)) (ctxnID c)"

lemma fill_meta_simps [simp]:
  "MagicAndVersion (fill_meta c m) = MagicAndVersion m" "BootID (fill_meta c m) = BootID m"
  "DXBID (fill_meta c m) = DXBID m" "MainTree (fill_meta c m) = cMain c" "GCTree (fill_meta c m) = cGC c"
  by (simp_all add: fill_meta_def Let_def setTxnid_def setSignSteady_def setSignWeak_def)

lemma committed_simps [simp]:
  "txnID (committed_meta c m) = ctxnID c" "MainTree (committed_meta c m) = cMain c"
  "GCTree (committed_meta c m) = cGC c" "MagicAndVersion (committed_meta c m) = MagicAndVersion m"
  "isConsistent (committed_meta c m)" "meta_wf (committed_meta c m) = meta_wf m"
  by (simp_all add: committed_meta_def endMetaUpdate_def beginMetaUpdate_def txnID_def isConsistent_def
      txnidASafe_def txnidBSafe_def meta_wf_def)

lemma validate_committed: "validate_meta rm = None \<Longrightarrow> validate_meta (committed_meta c rm) = None"
  by (auto simp: validate_meta_def magicValid_def version_def split: if_splits)

lemma validate_begun: "0 < ctxnID c \<Longrightarrow> validate_meta (beginMetaUpdate (fill_meta c rm) (ctxnID c)) \<noteq> None"
proof -
  assume "0 < ctxnID c"
  then have "\<not> isConsistent (beginMetaUpdate (fill_meta c rm) (ctxnID c))"
    by (auto simp: isConsistent_def beginMetaUpdate_def txnidASafe_def txnidBSafe_def pair64_def [of "(0, 0)"] le64_def)
  then show ?thesis by (simp add: validate_meta_def)
qed

text \<open>
  Every state of the file during the commit has either the old meta or the complete new one as its
  current meta, and the commit ends with the new one.
\<close>

theorem updateMeta_file_safe:
  assumes pre: "commit_pre c f mt r rm"
  shows "\<exists>f1 f2 mt'. updateMeta_file None None None c mt f = Some ([f, f1, f2], Inr mt') \<and>
    recentMeta mt' = Some (committed_meta c rm) \<and>
    (\<exists>mt1. env_readMeta f1 (cpageSize c) = Some (Inr mt1) \<and> recentMeta mt1 = Some rm) \<and>
    env_readMeta f2 (cpageSize c) = Some (Inr mt') \<and>
    (\<exists>j < 3. txnids mt' ! j < txnids mt' ! nat (recent mt')) \<and> length f2 = length f"
proof -
  define p where "p = unat (cpageSize c)"
  define k where "k = nextMetaIndex mt"
  define ms where "ms = file_metas f p"
  note d = commit_preD [OF pre, folded p_def ms_def k_def]
  have ps: "244 \<le> unat (cpageSize c)" and len: "unat (cpageSize c) * 3 \<le> length f" and rm: "recentMeta mt = Some rm"
    using pre by (simp_all add: commit_pre_def)
  define m1 where "m1 = beginMetaUpdate (fill_meta c rm) (ctxnID c)"
  have wf1: "meta_wf m1" using d(8) by (simp add: m1_def beginMetaUpdate_def meta_wf_def)
  have wf2: "meta_wf (committed_meta c rm)" using d(8) by simp
  define f1 where "f1 = write_at f (k * p) (meta_image (cpageSize c) k m1)"
  define f2 where "f2 = write_at f1 (k * p) (meta_image (cpageSize c) k (committed_meta c rm))"
  note w1 = write_image [OF wf1 d(4) ps len, folded p_def, folded f1_def]
  have len1: "unat (cpageSize c) * 3 \<le> length f1" using w1(1) len by simp
  note w2 = write_image [OF wf2 d(4) ps len1, folded p_def, folded f2_def]
  have v1: "validate_meta m1 \<noteq> None" unfolding m1_def by (rule validate_begun [OF d(11)])
  have ms1: "file_metas f1 p = ms[k := None]" using w1(2) v1 by (simp add: ms_def)
  have ms2: "file_metas f2 p = ms[k := Some (committed_meta c rm)]"
    using w2(2) validate_committed [OF d(9)] ms1 by simp
  have l3: "length ms = 3" by (simp add: ms_def)
  have tx0: "tx_of None = 0" by (simp add: tx_of_def)
  have rc1: "is_recent (file_metas f1 p) r"
    unfolding ms1 by (rule recent_replace_lower [OF d(1,3)]) (simp add: tx0)
  have txn: "tx_of (Some (committed_meta c rm)) = ctxnID c" by (simp add: tx_of_def)
  have rc2: "is_recent (file_metas f2 p) k"
    unfolding ms2 by (rule recent_replace_higher) (use d(4,10,11) txn l3 in simp_all)
  have r1: "\<exists>mt1. env_readMeta f1 (cpageSize c) = Some (Inr mt1) \<and> recentMeta mt1 = Some rm"
    using env_readMeta_recent [OF ps len1, folded p_def, OF rc1] d(2,3) by (simp add: ms1)
  have len2: "unat (cpageSize c) * 3 \<le> length f2" using w2(1) len1 by simp
  from triple_of_recent [OF rc2] obtain t where
    t: "triple_of (file_metas f2 p) = Inr t" "recent t = int k" "txnids t = map tx_of (file_metas f2 p)"
      "recentMeta t = file_metas f2 p ! k" by blast
  have e2: "env_readMeta f2 (cpageSize c) = Some (Inr t)"
    using env_readMeta_eq [OF ps len2] t(1) by (simp add: p_def)
  have "\<exists>j < 3. txnids t ! j < txnids t ! nat (recent t)"
    using d(3,4,5,10) txn l3 t(2,3) ms2 by (intro exI [of _ r]) (auto simp: tx0)
  moreover have "recentMeta t = Some (committed_meta c rm)" using t(4) ms2 d(4) l3 by simp
  moreover have "updateMeta_file None None None c mt f = Some ([f, f1, f2], Inr t)"
    using rm e2 unfolding updateMeta_file_def Let_def p_def [symmetric] k_def [symmetric]
    by (simp add: committed_meta_def [symmetric] f1_def [symmetric] m1_def [symmetric])
       (simp add: f2_def f1_def m1_def committed_meta_def)
  ultimately show ?thesis using r1 e2 w1(1) w2(1) by auto
qed

section \<open>The commit through the mapping\<close>

lemma blit_meta:
  assumes wf: "meta_wf m" and k: "k < 3" and p: "244 \<le> p" and len: "p * 3 \<le> length d"
  defines "d' \<equiv> blit d (k * p + 20) (meta_bytes m)"
  shows "length d' = length d"
    "file_metas d' p = (file_metas d p)[k := if validate_meta m = None then Some m else None]"
proof -
  have room: "k * p + p \<le> length d" by (rule slot_room [OF k len])
  have lm: "length (meta_bytes m) = 224" by (rule length_meta_bytes [OF wf])
  show l: "length d' = length d" using room p by (simp add: d'_def)
  have out: "d' ! x = d ! x" if "x < length d" "x < k * p \<or> (k + 1) * p \<le> x" for x
    using that room p lm by (auto simp: d'_def nth_blit)
  have "page_body d' p k = meta_bytes m @ drop 224 (page_body d p k)"
  proof (rule nth_equalityI)
    show len': "length (page_body d' p k) = length (meta_bytes m @ drop 224 (page_body d p k))"
      using room p l by (simp add: page_body_def lm)
    fix x assume "x < length (page_body d' p k)"
    then have x: "x < p - 20" by (simp add: page_body_def)
    show "page_body d' p k ! x = (meta_bytes m @ drop 224 (page_body d p k)) ! x"
      using x room p l lm by (auto simp: page_body_def d'_def nth_blit nth_append)
  qed
  then show "file_metas d' p = (file_metas d p)[k := if validate_meta m = None then Some m else None]"
    using file_metas_change [OF l k len out] valid_meta_bytes [OF wf] by simp
qed

lemma writemap_header_metas:
  assumes k: "k < 3" and p: "244 \<le> p" and len: "p * 3 \<le> length d"
  shows "length (writemap_header (k * p) k d) = length d"
    "file_metas (writemap_header (k * p) k d) p = file_metas d p"
proof -
  let ?h = "writemap_header (k * p) k d"
  have room: "k * p + p \<le> length d" by (rule slot_room [OF k len])
  show l: "length ?h = length d" using room p by (simp add: writemap_header_def)
  have out: "?h ! x = d ! x" if "x < length d" "x < k * p \<or> k * p + 20 \<le> x" for x
    using that room p unfolding writemap_header_def
    by (subst nth_blit, simp, simp, subst nth_blit, simp, simp, subst nth_blit) auto
  have "page_body ?h p k = page_body d p k"
    unfolding page_body_def
    by (rule nth_equalityI) (use room p l in \<open>auto intro!: out\<close>)
  moreover have "?h ! x = d ! x" if "x < length d" "x < k * p \<or> (k + 1) * p \<le> x" for x
    using out [OF that(1)] that(2) p by auto
  ultimately show "file_metas ?h p = file_metas d p"
    using file_metas_change [OF l k len] k
    by (metis length_file_metas list_update_id nth_file_metas)
qed

lemma last_writemap_metas: "last (writemap_metas c rm) = committed_meta c rm"
  by (simp add: writemap_metas_def Let_def committed_meta_def endMetaUpdate_def beginMetaUpdate_def
      fill_meta_def setTxnid_def setSignSteady_def setSignWeak_def)

text \<open>
  The fifth store completes \<open>setTxnid\<close>: the slot then carries the new transaction id in both places
  and still the old trees.  A reader, or a recovery, takes it for the current meta.
\<close>

theorem updateMeta_mmap_exposes:
  assumes pre: "commit_pre c f mt r rm" and main: "cMain c \<noteq> MainTree rm"
  shows "\<exists>states mt' f' mtx m. updateMeta_mmap None c mt f = Some (states, Inr mt') \<and>
    recentMeta mt' = Some (committed_meta c rm) \<and>
    f' \<in> set states \<and> env_readMeta f' (cpageSize c) = Some (Inr mtx) \<and> recentMeta mtx = Some m \<and>
    txnID m = ctxnID c \<and> MainTree m = MainTree rm \<and> m \<noteq> rm \<and> m \<noteq> committed_meta c rm"
proof -
  define p where "p = unat (cpageSize c)"
  define k where "k = nextMetaIndex mt"
  define ms where "ms = file_metas f p"
  note d = commit_preD [OF pre, folded p_def ms_def k_def]
  have ps: "244 \<le> p" and len: "p * 3 \<le> length f" and rm: "recentMeta mt = Some rm"
    using pre by (simp_all add: commit_pre_def p_def)
  define dh where "dh = writemap_header (k * p) k f"
  note h = writemap_header_metas [OF d(4) ps len, folded dh_def]
  have lenh: "p * 3 \<le> length dh" using h(1) len by simp
  have put: "length (blit dh (k * p + 20) (meta_bytes m)) = length f"
    "file_metas (blit dh (k * p + 20) (meta_bytes m)) p = ms[k := Some m]"
    if "meta_wf m" "validate_meta m = None" for m
    using blit_meta [OF that(1) d(4) ps lenh] that(2) h by (simp_all add: ms_def)
  have l3: "length ms = 3" by (simp add: ms_def)
  have rc: "is_recent (ms[k := Some m]) k" if "txnID m = ctxnID c" for m
    by (rule recent_replace_higher) (use d(4,10,11) l3 that in \<open>simp_all add: tx_of_def\<close>)
  have ps': "244 \<le> unat (cpageSize c)" using ps by (simp add: p_def)
  have read: "\<exists>mt. env_readMeta (blit dh (k * p + 20) (meta_bytes m)) (cpageSize c) = Some (Inr mt) \<and>
      recentMeta mt = Some m" if "meta_wf m" "validate_meta m = None" "txnID m = ctxnID c" for m
  proof -
    have l: "unat (cpageSize c) * 3 \<le> length (blit dh (k * p + 20) (meta_bytes m))"
      using put(1) [OF that(1,2)] len by (simp add: p_def)
    have "is_recent (file_metas (blit dh (k * p + 20) (meta_bytes m)) (unat (cpageSize c))) k"
      using put(2) [OF that(1,2)] rc [OF that(3)] by (simp add: p_def)
    from env_readMeta_recent [OF ps' l this] show ?thesis
      unfolding p_def [symmetric] put(2) [OF that(1,2)] using d(4) l3 by simp
  qed
  define m where "m = setTxnid rm (ctxnID c)"
  have mwf: "meta_wf m" "txnID m = ctxnID c" "MainTree m = MainTree rm"
    using d(8) by (simp_all add: m_def setTxnid_def meta_wf_def txnID_def)
  have mval: "validate_meta m = None"
    using d(9) by (auto simp: validate_meta_def magicValid_def version_def m_def setTxnid_def isConsistent_def
        txnidASafe_def txnidBSafe_def split: if_splits)
  obtain mtx where x: "env_readMeta (blit dh (k * p + 20) (meta_bytes m)) (cpageSize c) = Some (Inr mtx)"
    "recentMeta mtx = Some m" using read [OF mwf(1) mval mwf(2)] by blast
  have cwf: "meta_wf (committed_meta c rm)" using d(8) by simp
  obtain mt' where fin: "env_readMeta (blit dh (k * p + 20) (meta_bytes (committed_meta c rm))) (cpageSize c) = Some (Inr mt')"
    "recentMeta mt' = Some (committed_meta c rm)"
    using read [OF cwf validate_committed [OF d(9)] committed_simps(1)] by blast
  define states where "states = f # dh # map (\<lambda>m. blit dh (k * p + 20) (meta_bytes m)) (writemap_metas c rm)"
  have ne: "writemap_metas c rm \<noteq> []" by (simp add: writemap_metas_def Let_def)
  have ls: "last states = blit dh (k * p + 20) (meta_bytes (committed_meta c rm))"
    using ne by (simp add: states_def last_map last_writemap_metas)
  have fit: "k * p + p \<le> length f" by (rule slot_room [OF d(4) len])
  have "updateMeta_mmap None c mt f = Some (states, Inr mt')"
    using fit rm fin(1) ls
    unfolding updateMeta_mmap_def Let_def p_def [symmetric] k_def [symmetric] dh_def [symmetric]
    by (simp add: states_def [symmetric])
  moreover have "m \<in> set (writemap_metas c rm)"
    by (simp add: writemap_metas_def Let_def m_def setTxnid_def)
  then have "blit dh (k * p + 20) (meta_bytes m) \<in> set states" by (simp add: states_def)
  moreover have "m \<noteq> rm"
  proof
    assume "m = rm"
    then have "tx_of (ms ! r) = ctxnID c" using d(2) mwf(2) by (simp add: tx_of_def)
    then show False using d(10) [OF d(5)] by simp
  qed
  moreover have "m \<noteq> committed_meta c rm" using main mwf(3) by auto
  ultimately show ?thesis using x fin(2) mwf by blast
qed

section \<open>A new database\<close>

text \<open>
  \<open>initNewDB\<close> of env.go: the three metas carry the transaction ids below \<open>InitialTxnID\<close> in order.
  \<open>ioerr n\<close> is the error of the \<open>n\<close>-th file operation, \<open>bootid i\<close> the random boot id of page \<open>i\<close>.
\<close>

fun write_metas :: "(nat \<Rightarrow> goerror option) \<Rightarrow> u32 \<Rightarrow> (nat \<Rightarrow> bytes) \<Rightarrow> nat list \<Rightarrow> bytes \<Rightarrow> bytes \<times> goerror option" where
  "write_metas ioerr ps bootid [] f = (f, ioerr 4)"
| "write_metas ioerr ps bootid (i # is) f =
     (let tid = InitialTxnID - of_int (NumMetas - 1 - int i);
          m = initMeta (meta_at (replicate 224 0)) ps tid (bootid i) in
      case ioerr (Suc i) of
        Some e \<Rightarrow> (f, Some (WrapError ErrInvalid e))
      | None \<Rightarrow> write_metas ioerr ps bootid is (write_at f (i * unat ps) (meta_image ps i m)))"

definition initNewDB :: "(nat \<Rightarrow> goerror option) \<Rightarrow> u64 \<Rightarrow> u32 \<Rightarrow> int \<Rightarrow> (nat \<Rightarrow> bytes) \<Rightarrow> bytes \<times> goerror option" where
  "initNewDB ioerr geoNow ps sysPageSize bootid =
     (let minSize = NumMetas * uint ps;
          initialSize = (if uint geoNow < minSize then minSize else uint geoNow);
          initialSize = alignToSysPageSize sysPageSize initialSize
      in
      case ioerr 0 of
        Some e \<Rightarrow> ([], Some (WrapError ErrInvalid e))
      | None \<Rightarrow> write_metas ioerr ps bootid [0..<nat NumMetas] (replicate (nat initialSize) 0))"

lemma align_ge: "0 < s \<Longrightarrow> n \<le> alignToSysPageSize s n"
proof -
  assume s: "0 < s"
  have "n = s * (n div s) + n mod s" by simp
  then have "n \<le> s * (n div s) + s" using pos_mod_bound [OF s, of n] by linarith
  then show ?thesis by (simp add: alignToSysPageSize_def algebra_simps)
qed

definition init_meta_at :: "u32 \<Rightarrow> (nat \<Rightarrow> bytes) \<Rightarrow> nat \<Rightarrow> meta" where
  "init_meta_at ps bootid i =
     initMeta (meta_at (replicate 224 0)) ps (InitialTxnID - of_int (NumMetas - 1 - int i)) (bootid i)"

lemma InitialTxnID_val: "InitialTxnID = 3"
  by (simp add: InitialTxnID_def MinTxnID_def NumMetas_def)

lemma init_meta_ok:
  assumes "length (bootid i) = 16" "i < 3"
  shows "meta_wf (init_meta_at ps bootid i)" "validate_meta (init_meta_at ps bootid i) = None"
    "txnID (init_meta_at ps bootid i) = of_nat (Suc i)" "isSteady (init_meta_at ps bootid i)"
    "meta_pageSize (init_meta_at ps bootid i) = ps" "isEmpty (MainTree (init_meta_at ps bootid i))"
proof -
  have i: "i = 0 \<or> i = 1 \<or> i = 2" using assms(2) by auto
  show "txnID (init_meta_at ps bootid i) = of_nat (Suc i)"
    using i by (elim disjE) (simp_all add: init_meta_at_def initMeta_def Let_def setTxnid_def setSignSteady_def txnID_def
        InitialTxnID_val NumMetas_def)
  show "meta_wf (init_meta_at ps bootid i)"
    using assms(1) by (simp add: init_meta_at_def initMeta_def Let_def setTxnid_def setSignSteady_def meta_wf_def meta_at_def)
  show "validate_meta (init_meta_at ps bootid i) = None"
    by (simp add: init_meta_at_def initMeta_def Let_def setTxnid_def setSignSteady_def validate_meta_def magicValid_def
        version_def isConsistent_def txnidASafe_def txnidBSafe_def)
       (simp add: split64_def DataMagic_def Magic_def DataVersion_def metaMagic_def metaDataVersion_def)
  show "isSteady (init_meta_at ps bootid i)" "meta_pageSize (init_meta_at ps bootid i) = ps"
    "isEmpty (MainTree (init_meta_at ps bootid i))"
    by (simp_all add: init_meta_at_def initMeta_def Let_def setTxnid_def setSignSteady_def isSteady_def isWeak_def
        meta_pageSize_def isEmpty_def pair64_def le64_def word_le_nat_alt)
qed

lemma three_upt: "[0..<nat NumMetas] = [0, 1, 2]" by (simp add: NumMetas_def upt_rec)

lemma initNewDB_metas:
  assumes ps: "244 \<le> unat ps" and sys: "0 < sysPageSize" and boot: "\<forall>i. length (bootid i) = 16"
  shows "\<exists>f. initNewDB (\<lambda>n. None) geoNow ps sysPageSize bootid = (f, None) \<and>
    unat ps * 3 \<le> length f \<and> file_metas f (unat ps) = map (\<lambda>i. Some (init_meta_at ps bootid i)) [0, 1, 2]"
proof -
  let ?sz = "if uint geoNow < NumMetas * uint ps then NumMetas * uint ps else uint geoNow"
  define f0 :: bytes where "f0 = replicate (nat (alignToSysPageSize sysPageSize ?sz)) 0"
  have "NumMetas * uint ps \<le> alignToSysPageSize sysPageSize ?sz"
    using align_ge [OF sys, of ?sz] by (auto split: if_splits)
  then have "int (unat ps * 3) \<le> alignToSysPageSize sysPageSize ?sz" by (simp add: NumMetas_def)
  then have l0: "unat ps * 3 \<le> length f0" unfolding f0_def length_replicate by linarith
  define im where "im i = init_meta_at ps bootid i" for i
  define f1 where "f1 = write_at f0 (0 * unat ps) (meta_image ps 0 (im 0))"
  define f2 where "f2 = write_at f1 (1 * unat ps) (meta_image ps 1 (im 1))"
  define f3 where "f3 = write_at f2 (2 * unat ps) (meta_image ps 2 (im 2))"
  have ok: "meta_wf (im i)" "validate_meta (im i) = None" if "i < 3" for i
    unfolding im_def using init_meta_ok [of bootid, OF spec [OF boot] that] by blast+
  note w0 = write_image [OF ok(1) _ ps l0, of 0 0, folded f1_def]
  have l1: "unat ps * 3 \<le> length f1" using w0(1) l0 by simp
  note w1 = write_image [OF ok(1) _ ps l1, of 1 1, folded f2_def]
  have l2: "unat ps * 3 \<le> length f2" using w1(1) l1 by simp
  note w2 = write_image [OF ok(1) _ ps l2, of 2 2, folded f3_def]
  have l3: "unat ps * 3 \<le> length f3" using w2(1) l2 by simp
  obtain a b e where ms0: "file_metas f0 (unat ps) = [a, b, e]"
    by (simp add: file_metas_def upt_rec)
  have m1: "file_metas f1 (unat ps) = [Some (im 0), b, e]" using w0(2) ok(1,2) [of 0] ms0 by simp
  have m2: "file_metas f2 (unat ps) = [Some (im 0), Some (im 1), e]" using w1(2) ok(1,2) [of 1] m1 by simp
  have "file_metas f3 (unat ps) = map (\<lambda>i. Some (im i)) [0, 1, 2]"
    using w2(2) ok(1,2) [of 2] m2 by simp
  moreover have "initNewDB (\<lambda>n. None) geoNow ps sysPageSize bootid = (f3, None)"
  proof -
    have "write_metas (\<lambda>n. None) ps bootid [0, 1, 2] f0 = (f3, None)"
      unfolding write_metas.simps Let_def option.case init_meta_at_def [symmetric] im_def [symmetric]
      by (simp only: f3_def f2_def f1_def)
    then show ?thesis unfolding initNewDB_def Let_def three_upt f0_def by simp
  qed
  ultimately show ?thesis using l3 by (auto simp: im_def)
qed

theorem initNewDB_ok:
  assumes ps: "244 \<le> unat ps" and sys: "0 < sysPageSize" and boot: "\<forall>i. length (bootid i) = 16"
  shows "\<exists>f mt m. initNewDB (\<lambda>n. None) geoNow ps sysPageSize bootid = (f, None) \<and>
    unat ps * 3 \<le> length f \<and> env_readMeta f ps = Some (Inr mt) \<and> recent mt = 2 \<and> recentMeta mt = Some m \<and>
    txnids mt = [1, 2, 3] \<and> txnID m = InitialTxnID \<and> isSteady m \<and> meta_pageSize m = ps \<and> isEmpty (MainTree m)"
proof -
  from initNewDB_metas [OF assms] obtain f where
    f: "initNewDB (\<lambda>n. None) geoNow ps sysPageSize bootid = (f, None)" "unat ps * 3 \<le> length f"
      "file_metas f (unat ps) = map (\<lambda>i. Some (init_meta_at ps bootid i)) [0, 1, 2]" by blast
  define im where "im i = init_meta_at ps bootid i" for i
  note ok = init_meta_ok [of bootid, OF spec [OF boot], of _ ps, folded im_def]
  have tx: "map tx_of (file_metas f (unat ps)) = [1, 2, 3]"
    using ok(3) [of 0] ok(3) [of 1] ok(3) [of 2] by (simp add: f(3) tx_of_def flip: im_def)
  have nth: "tx_of (file_metas f (unat ps) ! j) = [1, 2, 3] ! j" if "j < 3" for j
    using that arg_cong [OF tx, of "\<lambda>l. l ! j"] by simp
  have v: "tx_of (file_metas f (unat ps) ! 0) = 1" "tx_of (file_metas f (unat ps) ! 1) = 2"
    "tx_of (file_metas f (unat ps) ! 2) = 3" using nth [of 0] nth [of 1] nth [of 2] by simp_all
  have "is_recent (file_metas f (unat ps)) 2"
    unfolding is_recent_def length_file_metas v
  proof (intro conjI allI impI)
    fix j :: nat assume "j < 3"
    then have "j = 0 \<or> j = 1 \<or> j = 2" by auto
    then show "tx_of (file_metas f (unat ps) ! j) \<le> 3"
      by (elim disjE) (simp_all only: v, simp_all)
  next
    fix j :: nat assume "j < 2"
    then have "j = 0 \<or> j = 1" by auto
    then show "tx_of (file_metas f (unat ps) ! j) < 3"
      by (elim disjE) (simp_all only: v, simp_all)
  qed simp_all
  from triple_of_recent [OF this] obtain t where
    t: "triple_of (file_metas f (unat ps)) = Inr t" "recent t = 2" "txnids t = [1, 2, 3]"
      "recentMeta t = Some (im 2)"
    unfolding tx by (auto simp: f(3) im_def)
  have "env_readMeta f ps = Some (Inr t)" using env_readMeta_eq [OF ps f(2)] t(1) by simp
  then show ?thesis using f t ok [of 2] by (auto simp: InitialTxnID_val)
qed

section \<open>Metas as bytes\<close>

lemma meta_bytes_page:
  assumes "meta_wf m" "validate_meta m = None"
  shows "valid_meta (meta_bytes m) = Some m" "sized (meta_bytes m)"
  using assms meta_roundtrip [OF assms(1), of "[]"] by (simp_all add: valid_meta_def readMeta_def length_meta_bytes sized_def)

lemma setSignWeak_id:
  "meta_wf (setSignWeak m) = meta_wf m" "validate_meta (setSignWeak m) = validate_meta m" "txnID (setSignWeak m) = txnID m" "\<not> isSteady (setSignWeak m)"
proof -
  show "validate_meta (setSignWeak m) = validate_meta m"
    by (simp add: setSignWeak_def validate_meta_def magicValid_def version_def isConsistent_def txnidASafe_def txnidBSafe_def)
  show "meta_wf (setSignWeak m) = meta_wf m" "txnID (setSignWeak m) = txnID m" by (simp_all add: setSignWeak_def meta_wf_def txnID_def)
  show "\<not> isSteady (setSignWeak m)"
    by (simp add: setSignWeak_def isSteady_def isWeak_def split64_def pair64_def le64_def datasignWeak_def)
qed

end
