(* ===== verification/PageAlloc.thy ===== *)
theory PageAlloc
  imports TreeRead PageOps
begin

text \<open>
  Page allocation of a write transaction (cursor_modify.go): where the buffer of a dirty page comes
  from, single pages, runs of overflow pages, their release and their update in place.  The cursor
  enters only through its transaction and the index of its tree.  What the operating system and the
  recycled memory contribute is a \<open>world\<close>: the error of adding a spill segment, the stale content
  of a spill region and of a pooled page buffer.  A panic is \<open>None\<close>.
\<close>

section \<open>Buffers of dirty pages\<close>

record world =
  osSegment :: "goerror option"
  regionBytes :: "region \<Rightarrow> bytes"
  poolPage :: bytes

definition isWriteMap :: "env \<Rightarrow> bool" where
  "isWriteMap e \<longleftrightarrow> envFlags e AND WriteMap \<noteq> 0"

text \<open>A store into the shared mapping, seen through every slice of it.\<close>

definition write_map :: "env \<Rightarrow> txn \<Rightarrow> nat \<Rightarrow> bytes \<Rightarrow> env \<times> txn" where
  "write_map e t off s =
     (e\<lparr>dataMap := map_option (\<lambda>d. blit d off s) (dataMap e)\<rparr>,
      t\<lparr>mmapData := map_option (\<lambda>d. blit d off s) (mmapData t)\<rparr>)"

definition write_struct :: "env \<Rightarrow> txn \<Rightarrow> nat \<Rightarrow> bytes \<Rightarrow> env \<times> txn" where
  "write_struct e t a d =
     (case structs t ! a of
        MapPage pg \<Rightarrow> write_map e t (unat pg * unat (envPageSize e)) d
      | OwnPage _ \<Rightarrow> (e, t\<lparr>structs := (structs t)[a := OwnPage d]\<rparr>))"

text \<open>The writable mapping if it reaches the page, otherwise a slot of the spill buffer.\<close>

definition acquire :: "world \<Rightarrow> env \<Rightarrow> txn \<Rightarrow> pgno \<Rightarrow> (env \<times> txn \<times> pstruct) option" where
  "acquire w e t pg =
     (if isWriteMap e \<and> getMmapPageData e pg \<noteq> None then Some (e, t, MapPage pg)
      else
        do { b \<leftarrow> spillBuf e;
             (b', r, err) \<leftarrow> SpillAllocate (osSegment w) b;
             if err \<noteq> None then None
             else do {
               (reg, sl) \<leftarrow> r;
               m \<leftarrow> Set (spillSlots t) pg (Some sl);
               Some (e\<lparr>spillBuf := Some b'\<rparr>, t\<lparr>spillSlots := m\<rparr>, OwnPage (regionBytes w reg)) } })"

definition new_struct :: "txn \<Rightarrow> pstruct \<Rightarrow> txn \<times> nat" where
  "new_struct t s = (t\<lparr>structs := structs t @ [s]\<rparr>, length (structs t))"

section \<open>Single pages\<close>

text \<open>The result is the page number and the address of the page's struct.\<close>

definition allocatePage :: "world \<Rightarrow> env \<Rightarrow> txn \<Rightarrow> (env \<times> txn \<times> pgno \<times> nat) option" where
  "allocatePage w e t =
     (let (newPgno, t) =
            (if freePages t \<noteq> [] then (last (freePages t), t\<lparr>freePages := butlast (freePages t)\<rparr>)
             else (allocatedPg t, t\<lparr>allocatedPg := allocatedPg t + 1\<rparr>))
      in do { (e, t, s) \<leftarrow> acquire w e t newPgno;
              let (t, a) = new_struct t s;
              t \<leftarrow> tracker_set t newPgno a;
              Some (e, t, newPgno, a) })"

section \<open>Overflow pages\<close>

definition upd_tree :: "txn \<Rightarrow> nat \<Rightarrow> (tree \<Rightarrow> tree) \<Rightarrow> txn option" where
  "upd_tree t dbi f =
     (if dbi < length (trees t) then Some (t\<lparr>trees := (trees t)[dbi := f (trees t ! dbi)]\<rparr>) else None)"

definition overflow_count :: "int \<Rightarrow> int \<Rightarrow> nat" where
  "overflow_count ps n =
     (let remaining = n - (ps - pageHeaderSize) in
      if remaining > 0 then nat (1 + (remaining + ps - 1) div ps) else 1)"

text \<open>The content of the \<open>i\<close>-th page of a run; the buffer is zeroed first.\<close>

definition overflow_page :: "u64 \<Rightarrow> int \<Rightarrow> nat \<Rightarrow> pgno \<Rightarrow> bytes \<Rightarrow> nat \<Rightarrow> int \<Rightarrow> page \<Rightarrow> (page \<times> int) option" where
  "overflow_page tx ps n pg data i off p0 =
     (let p = p0\<lparr>Data := replicate (length (Data p0)) 0\<rparr> in
      if i = 0 then
        do { p \<leftarrow> init p pg pageLarge (of_int ps);
             p \<leftarrow> setTxnid_h p tx;
             p \<leftarrow> setOverflowPages p (of_nat n);
             let stop = min (off + (ps - pageHeaderSize)) (int (length data));
             chunk \<leftarrow> slice data off stop;
             d \<leftarrow> go_copy (Data p) pageHeaderSize chunk;
             Some (p\<lparr>Data := d\<rparr>, stop) }
      else
        do { let stop = min (off + ps) (int (length data));
             chunk \<leftarrow> slice data off stop;
             Some (p\<lparr>Data := blit (Data p) 0 chunk\<rparr>, stop) })"

fun overflow_loop :: "world \<Rightarrow> env \<Rightarrow> txn \<Rightarrow> nat \<Rightarrow> pgno \<Rightarrow> bytes \<Rightarrow> nat list \<Rightarrow> int \<Rightarrow> (env \<times> txn) option" where
  "overflow_loop w e t n firstPgno data [] off = Some (e, t)"
| "overflow_loop w e t n firstPgno data (i # is) off =
     do { let pg = firstPgno + of_nat i;
          (e, t, s) \<leftarrow> acquire w e t pg;
          let (t, a) = new_struct t s;
          p0 \<leftarrow> deref e t a;
          (p, off) \<leftarrow> overflow_page (txnID_of t) (uint (envPageSize e)) n pg data i off p0;
          let (e, t) = write_struct e t a (Data p);
          t \<leftarrow> tracker_set t pg a;
          overflow_loop w e t n firstPgno data is off }"

definition allocateOverflow :: "world \<Rightarrow> env \<Rightarrow> txn \<Rightarrow> nat \<Rightarrow> bytes \<Rightarrow> (env \<times> txn \<times> pgno) option" where
  "allocateOverflow w e t dbi data =
     (let n = overflow_count (uint (envPageSize e)) (int (length data));
          firstPgno = allocatedPg t;
          t = t\<lparr>allocatedPg := allocatedPg t + of_nat n\<rparr>
      in do { (e, t) \<leftarrow> overflow_loop w e t n firstPgno data [0..<n] 0;
              t \<leftarrow> upd_tree t dbi (\<lambda>tr. tr\<lparr>LargePages := LargePages tr + of_nat n\<rparr>);
              Some (e, t, firstPgno) })"

definition freeOverflow :: "env \<Rightarrow> txn \<Rightarrow> nat \<Rightarrow> pgno \<Rightarrow> u32 \<Rightarrow> txn option" where
  "freeOverflow e t dbi ovPgno vsz =
     (let n = overflow_count (uint (envPageSize e)) (uint vsz);
          t = t\<lparr>freePages := freePages t @ map (\<lambda>i. ovPgno + of_nat i) [0..<n]\<rparr>
      in upd_tree t dbi (\<lambda>tr. if LargePages tr \<ge> of_nat n then tr\<lparr>LargePages := LargePages tr - of_nat n\<rparr> else tr))"

section \<open>Updating overflow pages in place\<close>

text \<open>The pages behind the new end go to the free list, one counter step each.\<close>

definition free_tail :: "txn \<Rightarrow> nat \<Rightarrow> pgno \<Rightarrow> nat \<Rightarrow> nat \<Rightarrow> txn option" where
  "free_tail t dbi ovPgno newNum oldNum =
     (let t = t\<lparr>freePages := freePages t @ map (\<lambda>i. ovPgno + of_nat i) [newNum..<oldNum]\<rparr>
      in if oldNum \<le> newNum then Some t
         else upd_tree t dbi (\<lambda>tr. tr\<lparr>LargePages := LargePages tr - of_nat (min (oldNum - newNum) (unat (LargePages tr)))\<rparr>))"

text \<open>The tracked struct of a page, or a private copy of the page made now.\<close>

definition dirty_copy :: "world \<Rightarrow> env \<Rightarrow> txn \<Rightarrow> pgno \<Rightarrow> (txn \<times> nat) option" where
  "dirty_copy w e t pg =
     do { r \<leftarrow> tracker_ref t pg;
          case r of
            Some a \<Rightarrow> Some (t, a)
          | None \<Rightarrow>
              do { (t, src) \<leftarrow> getPageDataFast e t pg;
                   let (t, a) = new_struct t (OwnPage (blit (poolPage w) 0 (mapped src)));
                   t \<leftarrow> tracker_set t pg a;
                   Some (t, a) } }"

text \<open>New content of the \<open>i\<close>-th page: the header of the first page, the chunk, zeros behind it.\<close>

definition inplace_page :: "u64 \<Rightarrow> int \<Rightarrow> nat \<Rightarrow> bytes \<Rightarrow> nat \<Rightarrow> int \<Rightarrow> page \<Rightarrow> (page \<times> int) option" where
  "inplace_page tx ps n data i off p =
     (if i = 0 then
        do { p \<leftarrow> setTxnid_h p tx;
             p \<leftarrow> setOverflowPages p (of_nat n);
             let stop = min (off + (ps - pageHeaderSize)) (int (length data));
             chunk \<leftarrow> slice data off stop;
             d \<leftarrow> go_copy (Data p) pageHeaderSize chunk;
             let z = pageHeaderSize + stop - off;
             d \<leftarrow> (if stop - off < ps - pageHeaderSize then go_copy d z (replicate (length d) 0) else Some d);
             Some (p\<lparr>Data := d\<rparr>, stop) }
      else
        do { let stop = min (off + ps) (int (length data));
             chunk \<leftarrow> slice data off stop;
             let d = blit (Data p) 0 chunk;
             d \<leftarrow> (if stop - off < ps then go_copy d (stop - off) (replicate (length d) 0) else Some d);
             Some (p\<lparr>Data := d\<rparr>, stop) })"

fun inplace_loop :: "world \<Rightarrow> env \<Rightarrow> txn \<Rightarrow> nat \<Rightarrow> pgno \<Rightarrow> bytes \<Rightarrow> nat list \<Rightarrow> int \<Rightarrow> (env \<times> txn) option" where
  "inplace_loop w e t n oldPgno data [] off = Some (e, t)"
| "inplace_loop w e t n oldPgno data (i # is) off =
     do { (t, a) \<leftarrow> dirty_copy w e t (oldPgno + of_nat i);
          p0 \<leftarrow> deref e t a;
          (p, off) \<leftarrow> inplace_page (txnID_of t) (uint (envPageSize e)) n data i off p0;
          let (e, t) = write_struct e t a (Data p);
          inplace_loop w e t n oldPgno data is off }"

text \<open>
  The path that writes into the mapping.  \<open>mmapData[a:b]\<close> reaches to the end of the mapping, the
  capacity of the slice, and panics beyond it.
\<close>

definition inplace_mmap :: "env \<Rightarrow> txn \<Rightarrow> nat \<Rightarrow> nat \<Rightarrow> nat \<Rightarrow> bytes \<Rightarrow> bytes \<Rightarrow> (env \<times> txn) option" where
  "inplace_mmap e t base n oldSize page0 newData =
     do { p \<leftarrow> setTxnid_h \<lparr>Data = page0\<rparr> (txnID_of t);
          p \<leftarrow> setOverflowPages p (of_nat n);
          let (e, t) = write_map e t base (Data p);
          if base + 20 + length newData > length (mapped (dataMap e)) then None
          else do {
            let (e, t) = write_map e t (base + 20) newData;
            if length newData < oldSize then
              (if base + 20 + oldSize > length (mapped (dataMap e)) then None
               else Some (write_map e t (base + 20 + length newData) (replicate (oldSize - length newData) 0)))
            else Some (e, t) } }"

definition updateOverflowInPlace ::
    "world \<Rightarrow> env \<Rightarrow> txn \<Rightarrow> nat \<Rightarrow> pgno \<Rightarrow> u32 \<Rightarrow> bytes \<Rightarrow> (env \<times> txn \<times> bool) option" where
  "updateOverflowInPlace w e t dbi oldPgno oldSize newData =
     (let ps = uint (envPageSize e);
          oldNum = overflow_count ps (uint oldSize);
          newNum = overflow_count ps (int (length newData));
          base = unat oldPgno * unat (envPageSize e)
      in
      if newNum > oldNum then Some (e, t, False)
      else if isWriteMap e then
        (case getMmapPageData e oldPgno of
           None \<Rightarrow> Some (e, t, False)
         | Some page0 \<Rightarrow>
             if newNum = oldNum \<and> length newData = unat oldSize then
               (if base + 20 + length newData > length (mapped (dataMap e)) then None
                else let (e, t) = write_map e t (base + 20) newData in Some (e, t, True))
             else
               do { (e, t) \<leftarrow> inplace_mmap e t base newNum (unat oldSize) page0 newData;
                    t \<leftarrow> free_tail t dbi oldPgno newNum oldNum;
                    Some (e, t, True) })
      else
        do { (e, t) \<leftarrow> inplace_loop w e t newNum oldPgno newData [0..<newNum] 0;
             t \<leftarrow> free_tail t dbi oldPgno newNum oldNum;
             Some (e, t, True) })"

section \<open>The dirty flag of a tree\<close>

definition markTreeDirty :: "txn \<Rightarrow> nat \<Rightarrow> txn" where
  "markTreeDirty t dbi =
     (let ds = (case dbiDirty t of None \<Rightarrow> replicate (length (trees t)) False | Some ds \<Rightarrow> ds)
      in t\<lparr>dbiDirty := Some (ds[dbi := True])\<rparr>)"

end
