(* ===== verification/PageAllocSpec.thy ===== *)
theory PageAllocSpec
  imports PageAlloc
begin

text \<open>
  What a write transaction sees of the pages, and that allocation changes only that: the tracked
  struct of a new page covers the page, all other pages keep their content.
\<close>

section \<open>The view of a write transaction\<close>

definition dirty_page :: "env \<Rightarrow> txn \<Rightarrow> pgno \<Rightarrow> page option" where
  "dirty_page e t pg = Option.bind (mapping_of (dirtyTracker t) pg) (deref e t)"

definition seen :: "env \<Rightarrow> txn \<Rightarrow> pgno \<Rightarrow> page option" where
  "seen e t pg =
     (case dirty_page e t pg of Some p \<Rightarrow> Some p | None \<Rightarrow> map_option (\<lambda>d. \<lparr>Data = d\<rparr>) (getMmapPageData e pg))"

definition struct_ok :: "env \<Rightarrow> pgno \<Rightarrow> pstruct \<Rightarrow> bool" where
  "struct_ok e pg s =
     (case s of MapPage q \<Rightarrow> q = pg \<and> getMmapPageData e pg \<noteq> None
      | OwnPage d \<Rightarrow> length d = unat (envPageSize e))"

definition spill_ready :: "nat \<Rightarrow> env \<Rightarrow> bool" where
  "spill_ready n e \<longleftrightarrow> (\<exists>b. spillBuf e = Some b \<and> spill_room n b \<and> pageSize b = envPageSize e)"

definition world_ok :: "world \<Rightarrow> bool" where
  "world_ok w \<longleftrightarrow> osSegment w = None \<and> (\<forall>r. length (regionBytes w r) = snd (snd r))"

definition tracked_ok :: "env \<Rightarrow> txn \<Rightarrow> bool" where
  "tracked_ok e t \<longleftrightarrow>
     (\<forall>pg a. mapping_of (dirtyTracker t) pg = Some a \<longrightarrow> a < length (structs t) \<and> struct_ok e pg (structs t ! a)) \<and>
     (\<forall>pg pg' a. mapping_of (dirtyTracker t) pg = Some a \<longrightarrow> mapping_of (dirtyTracker t) pg' = Some a \<longrightarrow> pg = pg')"

text \<open>Room for \<open>n\<close> further pages.\<close>

definition wtxn_ok :: "nat \<Rightarrow> env \<Rightarrow> txn \<Rightarrow> bool" where
  "wtxn_ok n e t \<longleftrightarrow> map_room n (dirtyTracker t) \<and> map_room n (spillSlots t) \<and> spill_ready n e \<and>
     20 \<le> unat (envPageSize e) \<and> dataMap e \<noteq> None \<and> \<not> IsReadOnly t \<and> tracked_ok e t"

lemma wtxn_okD:
  assumes "wtxn_ok n e t"
  shows "map_room n (dirtyTracker t)" "map_room n (spillSlots t)" "spill_ready n e" "20 \<le> unat (envPageSize e)"
    "dataMap e \<noteq> None" "\<not> IsReadOnly t" "tracked_ok e t"
  using assms by (simp_all add: wtxn_ok_def)

lemma tracked_okD:
  assumes "tracked_ok e t" "mapping_of (dirtyTracker t) pg = Some a"
  shows "a < length (structs t)" "struct_ok e pg (structs t ! a)" "mapping_of (dirtyTracker t) pg' = Some a \<Longrightarrow> pg' = pg"
  using assms unfolding tracked_ok_def by blast+

lemma deref_struct:
  assumes "struct_ok e pg (structs t ! a)" "a < length (structs t)"
  shows "deref e t a = Some (case structs t ! a of MapPage q \<Rightarrow> \<lparr>Data = the (getMmapPageData e pg)\<rparr> | OwnPage d \<Rightarrow> \<lparr>Data = d\<rparr>)"
  using assms by (auto simp: deref_def struct_ok_def split: pstruct.splits)

lemma dirty_page_Some:
  assumes "tracked_ok e t" "mapping_of (dirtyTracker t) pg = Some a"
  shows "dirty_page e t pg = deref e t a" "deref e t a \<noteq> None"
  using deref_struct [OF tracked_okD(2,1) [OF assms]] assms(2) by (simp_all add: dirty_page_def)

lemma tracker_get_seen:
  assumes "map_room n (dirtyTracker t)" "tracked_ok e t"
  shows "tracker_get e t pg = Some (dirty_page e t pg)"
proof (cases "mapping_of (dirtyTracker t) pg")
  case None
  then show ?thesis using fm.look_ok [OF assms(1), of pg] by (simp add: tracker_get_def tracker_ref_def dirty_page_def)
next
  case (Some a)
  then obtain p where "deref e t a = Some p" using dirty_page_Some(2) [OF assms(2)] by blast
  then show ?thesis
    using Some fm.look_ok [OF assms(1), of pg] by (simp add: tracker_get_def tracker_ref_def dirty_page_def)
qed

lemma env_page: "dataMap e \<noteq> None \<Longrightarrow>
    env_getPageData e pg = (case getMmapPageData e pg of None \<Rightarrow> Inl (NewError ErrPageNotFound) | Some d \<Rightarrow> Inr d)"
  by (auto simp: env_getPageData_def getMmapPageData_def Let_def)

lemma getPageData_seen:
  assumes "wtxn_ok n e t"
  shows "getPageData e [t] pg = Some (case seen e t pg of None \<Rightarrow> Inl (NewError ErrPageNotFound) | Some p \<Rightarrow> Inr (Data p))"
  using tracker_get_seen [OF wtxn_okD(1,7) [OF assms], of pg] env_page [OF wtxn_okD(5) [OF assms], of pg]
  by (auto simp: seen_def split: option.splits)

lemma getPage_seen:
  assumes "wtxn_ok n e t"
  shows "getPage e [t] pg = Some ([t], case seen e t pg of None \<Rightarrow> Inl (NewError ErrPageNotFound) | Some p \<Rightarrow> Inr p)"
  using tracker_get_seen [OF wtxn_okD(1,7) [OF assms], of pg] env_page [OF wtxn_okD(5) [OF assms], of pg] wtxn_okD(6) [OF assms]
  by (auto simp: seen_def split: option.splits)

lemma rd_txn_seen: "wtxn_ok n e t \<Longrightarrow> rd_txn e [t] = seen e t"
  using getPageData_seen by (auto simp: rd_txn_def fun_eq_iff split: option.splits)

text \<open>The view depends on the tracker and its structs alone.\<close>

lemma seen_cong:
  assumes "dirtyTracker u = dirtyTracker t" "structs u = structs t"
  shows "seen e u = seen e t"
proof -
  have "deref e u = deref e t" using assms by (auto simp: deref_def fun_eq_iff)
  then show ?thesis using assms(1) unfolding seen_def dirty_page_def by simp
qed

lemma wtxn_ok_cong:
  assumes "dirtyTracker u = dirtyTracker t" "structs u = structs t" "spillSlots u = spillSlots t" "txnFlags u = txnFlags t"
  shows "wtxn_ok n e u = wtxn_ok n e t"
  using assms by (simp add: wtxn_ok_def tracked_ok_def IsReadOnly_def)

section \<open>Stores into the mapping\<close>

lemma page_ranges:
  assumes "(q :: nat) \<noteq> pg"
  shows "q * n + n \<le> pg * n \<or> pg * n + n \<le> q * n"
proof (cases "q < pg")
  case True
  then have "Suc q * n \<le> pg * n" by (intro mult_le_mono1) simp
  then show ?thesis by simp
next
  case False
  then have "Suc pg * n \<le> q * n" using assms by (intro mult_le_mono1) simp
  then show ?thesis by simp
qed

lemma write_map_page:
  assumes "getMmapPageData e pg \<noteq> None" "length d = unat (envPageSize e)"
    and e': "e' = fst (write_map e t (unat pg * unat (envPageSize e)) d)"
  shows "getMmapPageData e' q = (if q = pg then Some d else getMmapPageData e q)"
proof -
  let ?n = "unat (envPageSize e)"
  from assms(1) obtain m where m: "dataMap e = Some m" "unat pg * ?n + ?n \<le> length m"
    by (auto simp: getMmapPageData_def Let_def split: option.splits if_splits)
  have e: "dataMap e' = Some (blit m (unat pg * ?n) d)" "envPageSize e' = envPageSize e"
    using m by (simp_all add: e' write_map_def)
  have len: "length (blit m (unat pg * ?n) d) = length m" using m by (intro length_blit) simp
  show ?thesis
  proof (cases "q = pg")
    case True
    have "take ?n (drop (unat pg * ?n) (blit m (unat pg * ?n) d)) = d"
      using take_drop_blit_same [of "unat pg * ?n" d m] assms(2) m(2) by simp
    then show ?thesis using True m e len by (simp add: getMmapPageData_def Let_def)
  next
    case False
    then have "unat q * ?n + ?n \<le> unat pg * ?n \<or> unat pg * ?n + ?n \<le> unat q * ?n"
      by (intro page_ranges) (simp add: word_unat_eq_iff)
    then have "take ?n (drop (unat q * ?n) (blit m (unat pg * ?n) d)) = take ?n (drop (unat q * ?n) m)"
      using m(2) assms(2) by (intro take_drop_blit_out) auto
    then show ?thesis using False m e len by (simp add: getMmapPageData_def Let_def)
  qed
qed

section \<open>A new dirty page\<close>

lemma getMmapPageData_cong:
  "dataMap e' = dataMap e \<Longrightarrow> envPageSize e' = envPageSize e \<Longrightarrow> getMmapPageData e' = getMmapPageData e"
  by (rule ext) (simp add: getMmapPageData_def Let_def cong: option.case_cong if_cong)

text \<open>What allocation leaves alone.\<close>

definition page_frame :: "env \<Rightarrow> txn \<Rightarrow> env \<Rightarrow> txn \<Rightarrow> bool" where
  "page_frame e t e' t' \<longleftrightarrow>
     (\<exists>m sb. e' = e\<lparr>dataMap := m, spillBuf := sb\<rparr>) \<and>
     (\<exists>ss tr sl mm. t' = t\<lparr>structs := ss, dirtyTracker := tr, spillSlots := sl, mmapData := mm\<rparr>)"

lemma page_frameI:
  assumes "e' = e\<lparr>dataMap := dataMap e', spillBuf := spillBuf e'\<rparr>"
    "t' = t\<lparr>structs := structs t', dirtyTracker := dirtyTracker t', spillSlots := spillSlots t', mmapData := mmapData t'\<rparr>"
  shows "page_frame e t e' t'"
  unfolding page_frame_def using assms by blast

lemma page_frame_fields:
  assumes "page_frame e t e' t'"
  shows "envPageSize e' = envPageSize e" "envFlags e' = envFlags e" "isWriteMap e' = isWriteMap e"
    "trees t' = trees t" "freePages t' = freePages t" "allocatedPg t' = allocatedPg t" "txnID_of t' = txnID_of t"
    "dbiDirty t' = dbiDirty t" "IsReadOnly t' = IsReadOnly t" "txnPageSize t' = txnPageSize t" "txn_valid t' = txn_valid t"
  using assms by (auto simp: page_frame_def isWriteMap_def IsReadOnly_def txn_valid_def)

lemma page_frame_refl: "page_frame e t e t"
  by (rule page_frameI) simp_all

lemma page_frame_trans: "page_frame e t e1 t1 \<Longrightarrow> page_frame e1 t1 e2 t2 \<Longrightarrow> page_frame e t e2 t2"
  unfolding page_frame_def by (elim conjE exE) (intro conjI exI, simp_all)

lemma acquire_ok:
  assumes ok: "wtxn_ok (Suc n) e t" and w: "world_ok w"
  obtains sb sl s where "acquire w e t pg = Some (e\<lparr>spillBuf := sb\<rparr>, t\<lparr>spillSlots := sl\<rparr>, s)" "struct_ok e pg s"
    "map_room n sl" "spill_ready n (e\<lparr>spillBuf := sb\<rparr>)" "s = MapPage pg \<Longrightarrow> isWriteMap e"
proof (cases "isWriteMap e \<and> getMmapPageData e pg \<noteq> None")
  case True
  have "spill_room n b" if "spill_room (Suc n) b" for b using that by (simp add: spill_room_def)
  then have "spill_ready n e" using wtxn_okD(3) [OF ok] by (auto simp: spill_ready_def)
  then show ?thesis
    using True map_room_mono [OF wtxn_okD(2) [OF ok], of n] by (intro that [of "spillBuf e" "spillSlots t" "MapPage pg"]) (auto simp: acquire_def struct_ok_def)
next
  case False
  from wtxn_okD(3) [OF ok] obtain b where b: "spillBuf e = Some b" "spill_room (Suc n) b" "pageSize b = envPageSize e"
    by (auto simp: spill_ready_def)
  from spill_room_alloc [OF b(2)] obtain b' i s where
    a: "SpillAllocate None b = Some (b', Some (region_of b i s, slot_of i s), None)" "spill_room n b'" "pageSize b' = pageSize b" by metis
  from fm.put_room [OF wtxn_okD(2) [OF ok], of pg "slot_of i s"] obtain m where
    m: "Set (spillSlots t) pg (Some (slot_of i s)) = Some m" "map_room n m" by blast
  have "length (regionBytes w (region_of b i s)) = unat (envPageSize e)"
    using w b(3) by (simp add: world_ok_def region_of_def)
  then show ?thesis
    using False b a m w
    by (intro that [of "Some b'" m "OwnPage (regionBytes w (region_of b i s))"])
      (auto simp: acquire_def world_ok_def struct_ok_def spill_ready_def)
qed

text \<open>Entering the new struct \<open>s\<close> for page \<open>pg\<close>, with content \<open>d\<close>, into the tracker.\<close>

lemma enter:
  assumes ok: "wtxn_ok (Suc n) e t" and s: "s = MapPage pg \<or> s = OwnPage d" and d: "length d = unat (envPageSize e)"
    and mp: "\<And>q. getMmapPageData e2 q = (if q = pg \<and> s = MapPage pg then Some d else getMmapPageData e q)"
    and st: "structs t3 = structs t @ [s]" "a = length (structs t)" and tr0: "dirtyTracker t3 = dirtyTracker t"
    and room: "map_room n (spillSlots t3)" "spill_ready n e2" and fr0: "page_frame e t e2 t3" and dm: "dataMap e2 \<noteq> None"
  shows "\<exists>t4. tracker_set t3 pg a = Some t4 \<and> wtxn_ok n e2 t4 \<and> seen e2 t4 = (seen e t)(pg \<mapsto> \<lparr>Data = d\<rparr>) \<and>
    page_frame e t e2 t4 \<and> deref e2 t4 a = Some \<lparr>Data = d\<rparr>"
proof -
  note fr = page_frame_fields [OF fr0]
  from fm.put_room [OF wtxn_okD(1) [OF ok], of pg a] obtain tr where
    tr: "Set (dirtyTracker t) pg (Some a) = Some tr" "map_room n tr" "mapping_of tr = (mapping_of (dirtyTracker t))(pg \<mapsto> a)" by blast
  define t4 where "t4 = t3\<lparr>dirtyTracker := tr\<rparr>"
  note tok = tracked_okD [OF wtxn_okD(7) [OF ok]]
  have new: "struct_ok e2 pg s" using s d mp [of pg] fr(1) by (auto simp: struct_ok_def)
  have sold: "struct_ok e2 q x" if "struct_ok e q x" "q \<noteq> pg" for q x
    using that mp [of q] fr(1) by (cases x) (simp_all add: struct_ok_def)
  have tracked: "tracked_ok e2 t4"
    unfolding tracked_ok_def
  proof (intro conjI allI impI)
    fix q b assume "mapping_of (dirtyTracker t4) q = Some b"
    then have q: "q = pg \<and> b = a \<or> q \<noteq> pg \<and> mapping_of (dirtyTracker t) q = Some b"
      by (auto simp: t4_def tr(3) split: if_splits)
    then show "b < length (structs t4)" using tok(1) [of q b] by (auto simp: t4_def st)
    from q show "struct_ok e2 q (structs t4 ! b)"
      using tok(1,2) [of q b] new sold by (auto simp: t4_def st nth_append)
  next
    fix q q' b assume "mapping_of (dirtyTracker t4) q = Some b" "mapping_of (dirtyTracker t4) q' = Some b"
    then show "q = q'"
      using tok(1) [of q b] tok(1) [of q' b] tok(3) [of q' b q] by (auto simp: t4_def tr(3) st split: if_splits)
  qed
  have old: "deref e2 t4 b = deref e t b" if "mapping_of (dirtyTracker t) q = Some b" "q \<noteq> pg" for q b
    using tok(1,2) [OF that(1)] mp [of q] that(2)
    by (auto simp: deref_def t4_def st nth_append struct_ok_def split: pstruct.splits)
  have self: "deref e2 t4 a = Some \<lparr>Data = d\<rparr>"
    using s mp [of pg] by (auto simp: deref_def t4_def st)
  have "seen e2 t4 q = ((seen e t)(pg \<mapsto> \<lparr>Data = d\<rparr>)) q" for q
    using self old [of q] mp [of q]
    by (cases "mapping_of (dirtyTracker t) q") (auto simp: seen_def dirty_page_def t4_def tr(3) split: option.split)
  then have seen: "seen e2 t4 = (seen e t)(pg \<mapsto> \<lparr>Data = d\<rparr>)" by (rule ext)
  have "map_room n (spillSlots t4)" "map_room n (dirtyTracker t4)" using room tr(2) by (simp_all add: t4_def)
  moreover have "\<not> IsReadOnly t4" using wtxn_okD(6) [OF ok] fr(9) by (simp add: t4_def IsReadOnly_def)
  ultimately have "wtxn_ok n e2 t4"
    using wtxn_okD(4) [OF ok] dm room(2) fr(1) tracked by (simp add: wtxn_ok_def)
  moreover have "tracker_set t3 pg a = Some t4" by (simp add: tracker_set_def tr0 tr(1) t4_def)
  moreover have "page_frame e t e2 t4"
    by (rule page_frame_trans [OF fr0]) (rule page_frameI, simp_all add: t4_def)
  ultimately show ?thesis using seen self by blast
qed

text \<open>A buffer acquired, filled with \<open>d\<close> and entered.\<close>

lemma publish:
  assumes ok: "wtxn_ok (Suc n) e t" and s: "struct_ok e pg s" "s = MapPage pg \<Longrightarrow> isWriteMap e"
    and room: "map_room n sl" "spill_ready n (e\<lparr>spillBuf := sb\<rparr>)"
    and new: "new_struct (t\<lparr>spillSlots := sl\<rparr>) s = (t2, a)" and d: "length d = unat (envPageSize e)"
    and wr: "write_struct (e\<lparr>spillBuf := sb\<rparr>) t2 a d = (e2, t3)"
  obtains t4 where "tracker_set t3 pg a = Some t4" "wtxn_ok n e2 t4" "seen e2 t4 = (seen e t)(pg \<mapsto> \<lparr>Data = d\<rparr>)"
    "page_frame e t e2 t4" "\<And>q. q \<noteq> pg \<or> \<not> isWriteMap e \<Longrightarrow> getMmapPageData e2 q = getMmapPageData e q"
proof -
  let ?e = "e\<lparr>spillBuf := sb\<rparr>" and ?n = "unat (envPageSize e)"
  have t2: "t2 = t\<lparr>spillSlots := sl, structs := structs t @ [s]\<rparr>" "a = length (structs t)"
    using new by (auto simp: new_struct_def)
  have mm: "getMmapPageData ?e = getMmapPageData e" by (rule getMmapPageData_cong) simp_all
  show thesis
  proof (cases s)
    case (MapPage x)
    with s have x: "x = pg" "getMmapPageData e pg \<noteq> None" "isWriteMap e" by (simp_all add: struct_ok_def)
    have r: "e2 = ?e\<lparr>dataMap := map_option (\<lambda>m. blit m (unat pg * ?n) d) (dataMap e)\<rparr>"
      "t3 = t2\<lparr>mmapData := map_option (\<lambda>m. blit m (unat pg * ?n) d) (mmapData t)\<rparr>"
      using wr MapPage x(1) by (auto simp: write_struct_def write_map_def t2)
    have m: "getMmapPageData e2 q = (if q = pg then Some d else getMmapPageData ?e q)" for q
      by (rule write_map_page [of _ _ d]) (use x d in \<open>simp_all add: r(1) write_map_def mm\<close>)
    have "page_frame e t e2 t3" by (rule page_frameI) (simp_all add: r t2)
    moreover have "spill_ready n e2" using room(2) by (simp add: r spill_ready_def)
    ultimately have "\<exists>t4. tracker_set t3 pg a = Some t4 \<and> wtxn_ok n e2 t4 \<and> seen e2 t4 = (seen e t)(pg \<mapsto> \<lparr>Data = d\<rparr>) \<and>
      page_frame e t e2 t4 \<and> deref e2 t4 a = Some \<lparr>Data = d\<rparr>"
      using d m wtxn_okD(5) [OF ok]
      by (intro enter [OF ok, of s]) (simp_all add: r(2) t2 room MapPage x(1) mm, simp add: r(1))
    then obtain t4 where "tracker_set t3 pg a = Some t4" "wtxn_ok n e2 t4"
      "seen e2 t4 = (seen e t)(pg \<mapsto> \<lparr>Data = d\<rparr>)" "page_frame e t e2 t4" by blast
    then show thesis using that m x(3) by (simp add: mm)
  next
    case (OwnPage x)
    have r: "e2 = ?e" "t3 = t2\<lparr>structs := structs t @ [OwnPage d]\<rparr>"
      using wr OwnPage by (auto simp: write_struct_def t2)
    have "page_frame e t e2 t3" by (rule page_frameI) (simp_all add: r t2)
    then have "\<exists>t4. tracker_set t3 pg a = Some t4 \<and> wtxn_ok n e2 t4 \<and> seen e2 t4 = (seen e t)(pg \<mapsto> \<lparr>Data = d\<rparr>) \<and>
      page_frame e t e2 t4 \<and> deref e2 t4 a = Some \<lparr>Data = d\<rparr>"
      using d wtxn_okD(5) [OF ok] by (intro enter [OF ok, of "OwnPage d"]) (simp_all add: r t2 room mm)
    then obtain t4 where "tracker_set t3 pg a = Some t4" "wtxn_ok n e2 t4"
      "seen e2 t4 = (seen e t)(pg \<mapsto> \<lparr>Data = d\<rparr>)" "page_frame e t e2 t4" by blast
    then show thesis using that by (simp add: r mm)
  qed
qed

section \<open>Single pages\<close>

definition next_page :: "txn \<Rightarrow> pgno" where
  "next_page t = (if freePages t \<noteq> [] then last (freePages t) else allocatedPg t)"

theorem allocatePage_ok:
  assumes ok: "wtxn_ok (Suc n) e t" and w: "world_ok w"
  obtains e' t' a p where "allocatePage w e t = Some (e', t', next_page t, a)" "wtxn_ok n e' t'"
    "deref e' t' a = Some p" "length (Data p) = unat (envPageSize e)" "seen e' t' = (seen e t)(next_page t \<mapsto> p)"
    "\<And>q. getMmapPageData e' q = getMmapPageData e q"
    "freePages t' = butlast (freePages t)" "allocatedPg t' = (if freePages t = [] then allocatedPg t + 1 else allocatedPg t)"
proof -
  define u where "u = (if freePages t \<noteq> [] then t\<lparr>freePages := butlast (freePages t)\<rparr> else t\<lparr>allocatedPg := allocatedPg t + 1\<rparr>)"
  have u: "dirtyTracker u = dirtyTracker t" "structs u = structs t" "spillSlots u = spillSlots t" "txnFlags u = txnFlags t"
    by (simp_all add: u_def)
  have uok: "wtxn_ok (Suc n) e u" and us: "seen e u = seen e t"
    using ok wtxn_ok_cong [OF u] seen_cong [OF u(1,2)] by simp_all
  from acquire_ok [OF uok w, of "next_page t"] obtain sb sl s where
    a: "acquire w e u (next_page t) = Some (e\<lparr>spillBuf := sb\<rparr>, u\<lparr>spillSlots := sl\<rparr>, s)" "struct_ok e (next_page t) s"
    "map_room n sl" "spill_ready n (e\<lparr>spillBuf := sb\<rparr>)" by blast
  let ?e = "e\<lparr>spillBuf := sb\<rparr>"
  have mm: "getMmapPageData ?e = getMmapPageData e" by (rule getMmapPageData_cong) simp_all
  obtain t2 b where nt: "new_struct (u\<lparr>spillSlots := sl\<rparr>) s = (t2, b)" by (cases "new_struct (u\<lparr>spillSlots := sl\<rparr>) s")
  then have t2: "t2 = u\<lparr>spillSlots := sl, structs := structs u @ [s]\<rparr>" "b = length (structs u)" by (auto simp: new_struct_def)
  define d where "d = (case s of MapPage q \<Rightarrow> the (getMmapPageData e q) | OwnPage d \<Rightarrow> d)"
  have s: "s = MapPage (next_page t) \<or> s = OwnPage d" using a(2) by (auto simp: struct_ok_def d_def split: pstruct.splits)
  have ld: "length d = unat (envPageSize e)"
    using a(2) by (auto simp: struct_ok_def d_def getMmapPageData_def Let_def split: pstruct.splits option.splits if_splits)
  have mp: "getMmapPageData ?e q = (if q = next_page t \<and> s = MapPage (next_page t) then Some d else getMmapPageData e q)" for q
    using a(2) by (auto simp: mm d_def struct_ok_def)
  have "page_frame e u ?e t2" by (rule page_frameI) (simp_all add: t2)
  then have "\<exists>t4. tracker_set t2 (next_page t) b = Some t4 \<and> wtxn_ok n ?e t4 \<and>
      seen ?e t4 = (seen e u)(next_page t \<mapsto> \<lparr>Data = d\<rparr>) \<and> page_frame e u ?e t4 \<and> deref ?e t4 b = Some \<lparr>Data = d\<rparr>"
    using a(3,4) wtxn_okD(5) [OF ok] by (intro enter [OF uok s ld mp]) (simp_all add: t2)
  then obtain t4 where t4: "tracker_set t2 (next_page t) b = Some t4" "wtxn_ok n ?e t4"
    "seen ?e t4 = (seen e u)(next_page t \<mapsto> \<lparr>Data = d\<rparr>)" "page_frame e u ?e t4" "deref ?e t4 b = Some \<lparr>Data = d\<rparr>" by blast
  note fr = page_frame_fields [OF t4(4)]
  have "allocatePage w e t = Some (?e, t4, next_page t, b)"
    using a(1) nt t4(1) by (auto simp: allocatePage_def next_page_def u_def Let_def split: if_splits)
  moreover have "freePages t4 = butlast (freePages t)" "allocatedPg t4 = (if freePages t = [] then allocatedPg t + 1 else allocatedPg t)"
    using fr by (simp_all add: u_def)
  moreover have "length (Data \<lparr>Data = d\<rparr>) = unat (envPageSize e)" using ld by simp
  ultimately show thesis using that t4(2,3,5) us mm by metis
qed

end
