(* ===== verification/Overflow.thy ===== *)
theory Overflow
  imports PageAllocSpec
begin

text \<open>
  Values on overflow pages: the run of pages that allocateOverflow fills gives the value back to
  getLargeData, and no other page of the transaction changes.
\<close>

section \<open>How a value is cut into pages\<close>

definition ov_off :: "nat \<Rightarrow> nat \<Rightarrow> nat" where
  "ov_off N i = (case i of 0 \<Rightarrow> 0 | Suc j \<Rightarrow> (N - 20) + j * N)"

definition ov_chunk :: "nat \<Rightarrow> bytes \<Rightarrow> nat \<Rightarrow> bytes" where
  "ov_chunk N data i = take (ov_off N (Suc i) - ov_off N i) (drop (ov_off N i) data)"

definition ov_payload :: "nat \<Rightarrow> bytes \<Rightarrow> nat \<Rightarrow> bytes" where
  "ov_payload N data i =
     ov_chunk N data i @ replicate (ov_off N (Suc i) - ov_off N i - length (ov_chunk N data i)) 0"

definition ov_page_ok :: "nat \<Rightarrow> bytes \<Rightarrow> nat \<Rightarrow> page \<Rightarrow> bool" where
  "ov_page_ok N data i p \<longleftrightarrow> length (Data p) = N \<and> (if i = 0 then drop 20 (Data p) else Data p) = ov_payload N data i"

lemma ov_off_simps [simp]: "ov_off N 0 = 0" "ov_off N (Suc j) = (N - 20) + j * N"
  by (simp_all add: ov_off_def)

lemma ov_off_step: "20 \<le> N \<Longrightarrow> ov_off N (Suc i) - ov_off N i = (if i = 0 then N - 20 else N)"
  by (cases i) auto

lemma ov_off_mono: "20 \<le> N \<Longrightarrow> ov_off N i \<le> ov_off N (Suc i)"
  by (cases i) auto

lemma overflow_count_bounds:
  fixes N len :: nat
  assumes "20 < N"
  defines "n \<equiv> overflow_count (int N) (int len)"
  shows "0 < n" "len \<le> ov_off N n" "1 < n \<Longrightarrow> ov_off N (n - 1) < len" "n \<le> Suc len"
proof -
  consider (one) "len \<le> N - 20" "n = 1"
    | (more) "N - 20 < len" "n = Suc ((len - (N - 20) + N - 1) div N)"
  proof (cases "len \<le> N - 20")
    case True
    then have "n = 1" using assms(1) by (simp add: n_def overflow_count_def pageHeaderSize_def)
    then show thesis using True one by blast
  next
    case False
    have i: "int len - (int N - 20) = int (len - (N - 20))" "int (len - (N - 20)) + int N - 1 = int (len - (N - 20) + N - 1)"
      using False assms(1) by auto
    have "n = Suc ((len - (N - 20) + N - 1) div N)"
      using False assms(1) unfolding n_def overflow_count_def pageHeaderSize_def Let_def i
      by (simp add: nat_add_distrib nat_div_distrib zdiv_int [symmetric] del: of_nat_add of_nat_diff)
    then show thesis using False more by simp
  qed
  then have "0 < n \<and> len \<le> ov_off N n \<and> (1 < n \<longrightarrow> ov_off N (n - 1) < len) \<and> n \<le> Suc len"
  proof cases
    case one
    then show ?thesis by simp
  next
    case more
    define r where "r = len - (N - 20)"
    define m where "m = (r + N - 1) div N"
    have r: "0 < r" "len = r + (N - 20)" using more by (simp_all add: r_def)
    have nm: "n = Suc m" using more(2) by (simp add: m_def r_def)
    have "r + N - 1 = m * N + (r + N - 1) mod N" by (simp add: m_def)
    moreover have "(r + N - 1) mod N < N" using assms(1) by simp
    ultimately have b: "r \<le> m * N" "m * N < r + N" using r(1) by linarith+
    then have m: "0 < m" using r(1) by (cases m) auto
    have "m \<le> r" 
    proof (rule ccontr)
      assume "\<not> m \<le> r"
      then have "(r + 1) * N \<le> m * N" by (intro mult_le_mono1) simp
      then have "r * N + N \<le> m * N" by (simp add: add_mult_distrib)
      then have "r * N < r" using b(2) by linarith
      moreover have "r * 1 \<le> r * N" using assms(1) by (intro mult_le_mono2) simp
      ultimately show False by simp
    qed
    moreover have "ov_off N m < len" using m b(2) r(2) by (cases m) auto
    ultimately show ?thesis using nm b(1) r by auto
  qed
  then show "0 < n" "len \<le> ov_off N n" "1 < n \<Longrightarrow> ov_off N (n - 1) < len" "n \<le> Suc len" by blast+
qed

text \<open>The payloads of the pages are the value, zeros behind it.\<close>

lemma payloads_prefix:
  assumes "20 < N" "\<And>i. i < k \<Longrightarrow> ov_off N (Suc i) \<le> length data"
  shows "concat (map (ov_payload N data) [0..<k]) = take (ov_off N k) data"
  using assms(2)
proof (induction k)
  case (Suc k)
  have le: "ov_off N (Suc k) \<le> length data" using Suc.prems [of k] by blast
  have "ov_off N k \<le> ov_off N (Suc k)" using assms(1) ov_off_mono [of N k] by simp
  then have "take (ov_off N (Suc k)) data = take (ov_off N k) data @ ov_chunk N data k"
    by (simp add: ov_chunk_def flip: take_add del: ov_off_simps)
  moreover have "ov_payload N data k = ov_chunk N data k" using le by (simp add: ov_payload_def ov_chunk_def del: ov_off_simps)
  moreover have "concat (map (ov_payload N data) [0..<k]) = take (ov_off N k) data" using Suc.IH Suc.prems by simp
  ultimately show ?case by (simp del: ov_off_simps)
qed simp

lemma payloads_value:
  assumes "20 < N" "n = overflow_count (int N) (int (length data))"
  shows "\<exists>z. concat (map (ov_payload N data) [0..<n]) = data @ z"
proof -
  note b = overflow_count_bounds [OF assms(1), of "length data", folded assms(2)]
  obtain m where m: "n = Suc m" using b(1) by (cases n) auto
  have "ov_off N (Suc i) \<le> length data" if "i < m" for i
  proof -
    from that obtain j where j: "m = Suc j" by (cases m) auto
    then have "i \<le> j" using that by simp
    then have "i * N \<le> j * N" by (intro mult_le_mono1)
    then have "ov_off N (Suc i) \<le> ov_off N m" by (simp add: j)
    moreover have "ov_off N m < length data" using b(3) m that by simp
    ultimately show ?thesis by simp
  qed
  then have "concat (map (ov_payload N data) [0..<n]) = take (ov_off N m) data @ ov_payload N data m"
    using payloads_prefix [OF assms(1), of m data] m by simp
  moreover have "ov_chunk N data m = drop (ov_off N m) data"
    using b(2) m by (simp add: ov_chunk_def)
  ultimately have "concat (map (ov_payload N data) [0..<n]) = (take (ov_off N m) data @ drop (ov_off N m) data) @
      replicate (ov_off N (Suc m) - ov_off N m - length (ov_chunk N data m)) 0"
    by (simp only: ov_payload_def append_assoc)
  then show ?thesis by (simp only: append_take_drop_id) blast
qed


section \<open>Filling one page\<close>

lemma drop_blit_below: "off + length s \<le> k \<Longrightarrow> k \<le> length d \<Longrightarrow> drop k (blit d off s) = drop k d"
  by (rule nth_equalityI) (auto simp: nth_blit)

text \<open>Header writes keep the bytes behind the header.\<close>

lemma header_write:
  assumes "20 \<le> length (Data p)"
  shows "\<exists>p'. init p pno fl ps = Some p' \<and> length (Data p') = length (Data p) \<and> drop 20 (Data p') = drop 20 (Data p)"
    "\<exists>p'. setTxnid_h p tx = Some p' \<and> length (Data p') = length (Data p) \<and> drop 20 (Data p') = drop 20 (Data p)"
    "\<exists>p'. setOverflowPages p c = Some p' \<and> length (Data p') = length (Data p) \<and> drop 20 (Data p') = drop 20 (Data p)"
  using assms
  by (simp_all add: init_def rd8_def putUint64LE_def putUint32LE_def setTxnid_h_def setOverflowPages_def setLower_def
    setUpper_def header_def pageHeaderSize_def Let_def drop_blit_below)

lemma overflow_page_ok:
  assumes N: "20 < N" "length (Data p0) = N" and off: "ov_off N i \<le> length data"
  shows "\<exists>p. overflow_page tx (int N) n pg data i (int (ov_off N i)) p0 = Some (p, int (min (ov_off N (Suc i)) (length data))) \<and>
    ov_page_ok N data i p"
proof -
  let ?stop = "min (ov_off N (Suc i)) (length data)"
  have le: "ov_off N i \<le> ?stop" using off ov_off_mono [of N i] N(1) by simp
  have chunk: "slice data (int (ov_off N i)) (int ?stop) = Some (ov_chunk N data i)"
    using slice_nat [OF le, of data] by (simp add: ov_chunk_def min_def)
  have lc: "length (ov_chunk N data i) \<le> (if i = 0 then N - 20 else N)"
    using ov_off_step [of N i] N(1) by (simp add: ov_chunk_def)
  define p1 where "p1 = p0\<lparr>Data := replicate N 0\<rparr>"
  show ?thesis
  proof (cases i)
    case 0
    have l1: "20 \<le> length (Data p1)" using N by (simp add: p1_def)
    obtain p2 where p2: "init p1 pg pageLarge (of_int (int N)) = Some p2" "length (Data p2) = N" "drop 20 (Data p2) = replicate (N - 20) 0"
      using header_write(1) [OF l1, of pg pageLarge "of_int (int N)"] N by (auto simp: p1_def)
    then obtain p3 where p3: "setTxnid_h p2 tx = Some p3" "length (Data p3) = N" "drop 20 (Data p3) = replicate (N - 20) 0"
      using header_write(2) [of p2 tx] N by auto
    then obtain p4 where p4: "setOverflowPages p3 (of_nat n) = Some p4" "length (Data p4) = N" "drop 20 (Data p4) = replicate (N - 20) 0"
      using header_write(3) [of p3 "of_nat n"] N by auto
    define d where "d = blit (Data p4) 20 (ov_chunk N data 0)"
    have "drop (length (ov_chunk N data 0)) (drop 20 (Data p4)) = replicate (N - 20 - length (ov_chunk N data 0)) 0"
      unfolding p4(3) by simp
    then have "drop 20 d = ov_payload N data 0"
      using lc 0 N(1) p4(2) by (simp add: d_def blit_def ov_payload_def add.commute)
    moreover have "length d = N" using p4(2) N(1) by (simp add: d_def)
    moreover have "min (int N - 20) (int (length data)) = int ?stop" using N(1) 0 by (simp add: of_nat_diff)
    ultimately show ?thesis
      using 0 N chunk p2(1) p3(1) p4 unfolding overflow_page_def Let_def
      by (simp add: p1_def pageHeaderSize_def go_copy_def ov_page_ok_def d_def)
  next
    case (Suc j)
    have "int (ov_off N i) + int N = int (ov_off N (Suc i))" using N(1) by (simp add: Suc of_nat_diff)
    then have stop: "min (int (ov_off N i) + int N) (int (length data)) = int ?stop" by (simp only: of_nat_min)
    have "blit (replicate N 0) 0 (ov_chunk N data i) = ov_payload N data i"
      using lc Suc ov_off_step [of N i] N(1) by (simp add: blit_def ov_payload_def)
    then show ?thesis
      using Suc N chunk stop lc ov_off_step [of N i] by (simp add: overflow_page_def ov_page_ok_def ov_payload_def)
  qed
qed

section \<open>The run of pages\<close>

definition ov_run :: "pgno \<Rightarrow> nat \<Rightarrow> nat \<Rightarrow> pgno set" where
  "ov_run firstPgno k n = {firstPgno + of_nat i | i. k \<le> i \<and> i < n}"

lemma of_nat_pgno_inj: "i < 2 ^ 32 \<Longrightarrow> j < 2 ^ 32 \<Longrightarrow> (of_nat i :: pgno) = of_nat j \<longleftrightarrow> i = j"
proof -
  assume "i < 2 ^ 32" "j < 2 ^ 32"
  then have "unat (of_nat i :: pgno) = i" "unat (of_nat j :: pgno) = j" by (simp_all add: unat_of_nat)
  then show ?thesis by metis
qed

definition run_filled :: "nat \<Rightarrow> bytes \<Rightarrow> pgno \<Rightarrow> nat \<Rightarrow> nat \<Rightarrow> env \<Rightarrow> txn \<Rightarrow> env \<Rightarrow> txn \<Rightarrow> bool" where
  "run_filled N data firstPgno k n e t e' t' \<longleftrightarrow> page_frame e t e' t' \<and>
     (\<forall>i. k \<le> i \<and> i < n \<longrightarrow> (\<exists>p. seen e' t' (firstPgno + of_nat i) = Some p \<and> ov_page_ok N data i p)) \<and>
     (\<forall>q. q \<notin> ov_run firstPgno k n \<longrightarrow> seen e' t' q = seen e t q \<and> getMmapPageData e' q = getMmapPageData e q) \<and>
     (\<not> isWriteMap e \<longrightarrow> getMmapPageData e' = getMmapPageData e)"

lemma run_filled_step:
  assumes first: "page_frame e t e1 t1" "seen e1 t1 = (seen e t)(firstPgno + of_nat k \<mapsto> p)" "ov_page_ok N data k p"
    and mm: "\<And>q. q \<noteq> firstPgno + of_nat k \<or> \<not> isWriteMap e \<Longrightarrow> getMmapPageData e1 q = getMmapPageData e q"
    and rest: "run_filled N data firstPgno (Suc k) n e1 t1 e' t'" and k: "k < n" "n < 2 ^ 32"
  shows "run_filled N data firstPgno k n e t e' t'"
proof -
  have out: "firstPgno + of_nat k \<notin> ov_run firstPgno (Suc k) n"
    using k of_nat_pgno_inj by (auto simp: ov_run_def)
  have sub: "q \<notin> ov_run firstPgno (Suc k) n" "q \<noteq> firstPgno + of_nat k" if "q \<notin> ov_run firstPgno k n" for q
    using that k unfolding ov_run_def by (fastforce dest: Suc_leD)+
  have wm: "isWriteMap e1 = isWriteMap e" using page_frame_fields(3) [OF first(1)] .
  show ?thesis
    unfolding run_filled_def
  proof (intro conjI allI impI)
    show "page_frame e t e' t'" using page_frame_trans [OF first(1)] rest by (simp add: run_filled_def)
  next
    fix i assume i: "k \<le> i \<and> i < n"
    show "\<exists>p. seen e' t' (firstPgno + of_nat i) = Some p \<and> ov_page_ok N data i p"
    proof (cases "i = k")
      case True
      then show ?thesis using rest out first(2,3) by (auto simp: run_filled_def)
    next
      case False
      then show ?thesis using rest i by (simp add: run_filled_def)
    qed
  next
    fix q assume q: "q \<notin> ov_run firstPgno k n"
    show "seen e' t' q = seen e t q" using rest sub [OF q] first(2) by (simp add: run_filled_def)
    show "getMmapPageData e' q = getMmapPageData e q" using rest sub [OF q] mm by (simp add: run_filled_def)
  next
    assume "\<not> isWriteMap e"
    then show "getMmapPageData e' = getMmapPageData e" using rest wm mm by (auto simp: run_filled_def)
  qed
qed

lemma overflow_loop_ok:
  assumes w: "world_ok w" and N: "20 < N" and n: "n < 2 ^ 32" and offs: "\<And>i. i < n \<Longrightarrow> ov_off N i \<le> length data"
    and "unat (envPageSize e) = N" "wtxn_ok (n - k + m) e t" "k \<le> n"
    and "k < n \<Longrightarrow> off = int (ov_off N k)"
  shows "\<exists>e' t'. overflow_loop w e t c firstPgno data [k..<n] off = Some (e', t') \<and>
    wtxn_ok m e' t' \<and> run_filled N data firstPgno k n e t e' t'"
  using assms(5-)
proof (induction "n - k" arbitrary: k e t off)
  case 0
  then have "k = n" by simp
  then show ?case using 0 page_frame_refl by (auto simp: run_filled_def)
next
  case (Suc d)
  let ?pg = "firstPgno + of_nat k"
  have k: "k < n" "[k..<n] = k # [Suc k..<n]" using Suc.hyps(2) by (simp_all add: upt_conv_Cons)
  have off: "off = int (ov_off N k)" using Suc.prems(4) k(1) .
  have "n - k + m = Suc (d + m)" using Suc.hyps(2) by simp
  then have ok: "wtxn_ok (Suc (d + m)) e t" using Suc.prems(2) by simp
  have ps: "uint (envPageSize e) = int N" using Suc.prems(1) by (simp add: uint_nat)
  from acquire_ok [OF ok w, of ?pg] obtain sb sl s where
    a: "acquire w e t ?pg = Some (e\<lparr>spillBuf := sb\<rparr>, t\<lparr>spillSlots := sl\<rparr>, s)" "struct_ok e ?pg s"
    "map_room (d + m) sl" "spill_ready (d + m) (e\<lparr>spillBuf := sb\<rparr>)" "s = MapPage ?pg \<Longrightarrow> isWriteMap e" by blast
  let ?e = "e\<lparr>spillBuf := sb\<rparr>" and ?t2 = "t\<lparr>spillSlots := sl, structs := structs t @ [s]\<rparr>"
  have nt: "new_struct (t\<lparr>spillSlots := sl\<rparr>) s = (?t2, length (structs t))" by (simp add: new_struct_def)
  have mm: "getMmapPageData ?e = getMmapPageData e" by (rule getMmapPageData_cong) simp_all
  obtain p0 where p0: "deref ?e ?t2 (length (structs t)) = Some p0" "length (Data p0) = N"
    using a(2) Suc.prems(1)
    by (auto simp: deref_def struct_ok_def mm getMmapPageData_def Let_def split: pstruct.splits option.splits if_splits)
  obtain p off' where p: "overflow_page (txnID_of t) (int N) c ?pg data k off p0 = Some (p, off')" "ov_page_ok N data k p"
    "off' = int (min (ov_off N (Suc k)) (length data))"
    using overflow_page_ok [OF N p0(2) offs [OF k(1)], of "txnID_of t" c ?pg] off by auto
  obtain e2 t3 where wr: "write_struct ?e ?t2 (length (structs t)) (Data p) = (e2, t3)" by fastforce
  have lp: "length (Data p) = unat (envPageSize e)" using p(2) Suc.prems(1) by (simp add: ov_page_ok_def)
  have pp: "\<lparr>Data = Data p\<rparr> = p" by simp
  from publish [OF ok a(2,5,3,4) nt lp wr, unfolded pp] obtain t4 where
    t4: "tracker_set t3 ?pg (length (structs t)) = Some t4" "wtxn_ok (d + m) e2 t4" "seen e2 t4 = (seen e t)(?pg \<mapsto> p)"
    "page_frame e t e2 t4" "\<And>q. q \<noteq> ?pg \<or> \<not> isWriteMap e \<Longrightarrow> getMmapPageData e2 q = getMmapPageData e q" by blast
  have "d = n - Suc k" "Suc k \<le> n" using Suc.hyps(2) k by simp_all
  moreover have "off' = int (ov_off N (Suc k))" if "Suc k < n" using p(3) offs [OF that] by simp
  moreover have "unat (envPageSize e2) = N" using page_frame_fields(1) [OF t4(4)] Suc.prems(1) by simp
  ultimately obtain e' t' where
    r: "overflow_loop w e2 t4 c firstPgno data [Suc k..<n] off' = Some (e', t')" "wtxn_ok m e' t'"
    "run_filled N data firstPgno (Suc k) n e2 t4 e' t'"
    using Suc.hyps(1) [of "Suc k" e2 t4 off'] t4(2) by auto
  have "overflow_loop w e t c firstPgno data [k..<n] off = Some (e', t')"
    using a(1) nt p0(1) p(1) wr t4(1) r(1) ps by (simp add: k(2) Let_def)
  then show ?case using r(2) run_filled_step [OF t4(4,3) p(2) t4(5) r(3) k(1) n] by blast
qed

section \<open>Writing a large value and reading it back\<close>

lemma numLargePages_eq:
  assumes "20 \<le> unat ps" "overflow_count (uint ps) (uint vsz) < 2 ^ 32"
  shows "unat (numLargePages ps vsz) = overflow_count (uint ps) (uint vsz)"
proof -
  have "(20 :: u32) \<le> ps" using assms(1) by (simp add: word_le_nat_alt)
  have u: "20 \<le> uint ps" using assms(1) by (simp only: uint_nat)
  from \<open>20 \<le> ps\<close> have f: "uint (ps - 20) = uint ps - 20" using assms(1) by (simp only: uint_nat unat_sub) (simp add: of_nat_diff)
  show ?thesis
  proof (cases "uint vsz - (uint ps - 20) > 0")
    case True
    define r where "r = (uint vsz - (uint ps - 20) + uint ps - 1) div uint ps"
    have r: "0 \<le> r" using True u by (simp add: r_def pos_imp_zdiv_nonneg_iff)
    have c: "overflow_count (uint ps) (uint vsz) = nat (1 + r)"
      using True by (simp add: overflow_count_def pageHeaderSize_def r_def Let_def)
    have "numLargePages ps vsz = of_nat (nat (1 + r))"
      using True r by (simp add: numLargePages_def f r_def Let_def)
    then show ?thesis using assms(2) c by (simp add: unat_of_nat)
  next
    case False
    then show ?thesis by (simp add: numLargePages_def overflow_count_def pageHeaderSize_def f Let_def)
  qed
qed

lemma collectPages_ok:
  assumes ok: "wtxn_ok m e t" and N: "20 \<le> N"
    and pages: "\<And>i. i \<in> set is \<Longrightarrow> \<exists>p. seen e t (firstPgno + of_nat i) = Some p \<and> ov_page_ok N data i p"
  shows "collectPages e [t] firstPgno is acc = Some ([t], Inr (acc @ concat (map (ov_payload N data) is)))"
  using pages
proof (induction "is" arbitrary: acc)
  case (Cons i "is")
  from Cons.prems [of i] obtain p where p: "seen e t (firstPgno + of_nat i) = Some p" "ov_page_ok N data i p" by auto
  show ?case
    using Cons.IH Cons.prems p N by (cases "i = 0") (simp_all add: getPage_seen [OF ok] ov_page_ok_def del: getPage.simps)
qed simp

theorem allocateOverflow_ok:
  fixes data e t
  defines "N \<equiv> unat (envPageSize e)" and "n \<equiv> overflow_count (uint (envPageSize e)) (int (length data))"
  assumes w: "world_ok w" and N: "20 < unat (envPageSize e)" and len: "Suc (length data) < 2 ^ 32"
    and ok: "wtxn_ok (n + m) e t" and dbi: "dbi < length (trees t)"
  shows "\<exists>e' t'. allocateOverflow w e t dbi data = Some (e', t', allocatedPg t) \<and> wtxn_ok m e' t' \<and>
    getLargeData e' [t'] (allocatedPg t) (of_nat (length data)) = Some ([t'], Inr data) \<and>
    (\<forall>q. q \<notin> ov_run (allocatedPg t) 0 n \<longrightarrow> seen e' t' q = seen e t q) \<and>
    (\<not> isWriteMap e \<longrightarrow> getMmapPageData e' = getMmapPageData e) \<and>
    allocatedPg t' = allocatedPg t + of_nat n \<and> freePages t' = freePages t \<and>
    trees t' = (trees t)[dbi := (trees t ! dbi)\<lparr>LargePages := LargePages (trees t ! dbi) + of_nat n\<rparr>]"
proof -
  have ps: "uint (envPageSize e) = int N" by (simp only: N_def uint_nat)
  have N': "20 < N" using N by (simp add: N_def)
  have n: "n = overflow_count (int N) (int (length data))" by (simp add: n_def ps)
  note b = overflow_count_bounds [OF N', of "length data", folded n]
  have n32: "n < 2 ^ 32" using b(4) len by simp
  define u where "u = t\<lparr>allocatedPg := allocatedPg t + of_nat n\<rparr>"
  have u: "dirtyTracker u = dirtyTracker t" "structs u = structs t" "spillSlots u = spillSlots t" "txnFlags u = txnFlags t"
    by (simp_all add: u_def)
  have uok: "wtxn_ok (n - 0 + m) e u" using ok wtxn_ok_cong [OF u] by simp
  have offs: "ov_off N i \<le> length data" if "i < n" for i
  proof -
    obtain j where j: "n = Suc j" "i \<le> j" using \<open>i < n\<close> by (cases n) auto
    have "ov_off N i \<le> ov_off N j"
      using j(2) by (rule lift_Suc_mono_le [of "ov_off N", rotated]) (use N' ov_off_mono in simp)
    moreover have "ov_off N j \<le> length data" using b(3) j(1) by (cases j) auto
    ultimately show ?thesis by simp
  qed
  from overflow_loop_ok [OF w N' n32 offs, of e 0 m u 0 n "allocatedPg t"] uok obtain e1 t1 where
    l: "overflow_loop w e u n (allocatedPg t) data [0..<n] 0 = Some (e1, t1)" "wtxn_ok m e1 t1"
      "run_filled N data (allocatedPg t) 0 n e u e1 t1" by (auto simp: N_def)
  have pf: "page_frame e u e1 t1" using l(3) by (simp add: run_filled_def)
  note fr = page_frame_fields [OF pf]
  define t2 where "t2 = t1\<lparr>trees := (trees t)[dbi := (trees t ! dbi)\<lparr>LargePages := LargePages (trees t ! dbi) + of_nat n\<rparr>]\<rparr>"
  have t2: "dirtyTracker t2 = dirtyTracker t1" "structs t2 = structs t1" "spillSlots t2 = spillSlots t1" "txnFlags t2 = txnFlags t1"
    by (simp_all add: t2_def)
  have ok2: "wtxn_ok m e1 t2" using l(2) wtxn_ok_cong [OF t2] by simp
  have seen2: "seen e1 t2 = seen e1 t1" by (rule seen_cong [OF t2(1,2)])
  have run: "allocateOverflow w e t dbi data = Some (e1, t2, allocatedPg t)"
    using l(1) dbi fr(4) unfolding allocateOverflow_def Let_def n_def [symmetric] u_def [symmetric]
    by (simp add: upd_tree_def t2_def) (simp add: u_def)
  have "getLargeData e1 [t2] (allocatedPg t) (of_nat (length data)) = Some ([t2], Inr data)"
  proof -
    let ?vsz = "of_nat (length data) :: u32"
    have v: "unat ?vsz = length data" using len by (simp add: unat_of_nat)
    have cnt: "unat (numLargePages (envPageSize e1) ?vsz) = n"
      using numLargePages_eq [of "envPageSize e1" ?vsz] fr(1) N n32 v ps n by (simp add: uint_nat [of ?vsz] N_def [symmetric])
    have "collectPages e1 [t2] (allocatedPg t) [0..<n] [] = Some ([t2], Inr ([] @ concat (map (ov_payload N data) [0..<n])))"
      by (rule collectPages_ok [OF ok2]) (use N' l(3) in \<open>auto simp: run_filled_def seen2\<close>)
    moreover obtain z where "concat (map (ov_payload N data) [0..<n]) = data @ z"
      using payloads_value [OF N' n] by blast
    ultimately show ?thesis
      using wtxn_okD(6) [OF ok2] v cnt by (simp add: getLargeData_def)
  qed
  moreover have "seen e1 t2 q = seen e t q" if "q \<notin> ov_run (allocatedPg t) 0 n" for q
    using l(3) that seen_cong [OF u(1,2), of e] by (simp add: run_filled_def seen2)
  moreover have "\<not> isWriteMap e \<longrightarrow> getMmapPageData e1 = getMmapPageData e" using l(3) by (simp add: run_filled_def)
  moreover have "allocatedPg t2 = allocatedPg t + of_nat n" "freePages t2 = freePages t" using fr by (simp_all add: t2_def u_def)
  moreover have "trees t2 = (trees t)[dbi := (trees t ! dbi)\<lparr>LargePages := LargePages (trees t ! dbi) + of_nat n\<rparr>]"
    by (simp add: t2_def)
  ultimately show ?thesis using run ok2 by blast
qed

section \<open>What in-place updates and releases do to other readers\<close>

text \<open>
  A transaction that reads through the mapping, begun before: after an update of the same size in
  the writable mapping it reads the new value, whoever wrote the pages.
\<close>

lemma inplace_update_visible:
  fixes e t pg
  defines "base \<equiv> unat pg * unat (envPageSize e)"
  assumes "isWriteMap e" "dataMap e = Some m" "getMmapPageData e pg \<noteq> None"
    and fits: "base + 20 + length newData \<le> length m" "length newData < 2 ^ 32"
    and r: "IsReadOnly r" "mmapData r = dataMap e" "txnPageSize r = envPageSize e"
  shows "\<exists>e' t'. updateOverflowInPlace w e t dbi pg (of_nat (length newData)) newData = Some (e', t', True) \<and>
    getLargeData e [r] pg (of_nat (length newData)) = Some ([r], Inr (take (length newData) (drop (base + 20) m))) \<and>
    getLargeData e' [r\<lparr>mmapData := dataMap e'\<rparr>] pg (of_nat (length newData)) =
      Some ([r\<lparr>mmapData := dataMap e'\<rparr>], Inr newData)"
proof -
  let ?m' = "blit m (base + 20) newData"
  have v: "unat (of_nat (length newData) :: u32) = length newData" using fits(2) by (simp add: unat_of_nat)
  have u: "uint (of_nat (length newData) :: u32) = int (length newData)" by (simp only: uint_nat v)
  have lm: "length ?m' = length m" using fits(1) by simp
  have "updateOverflowInPlace w e t dbi pg (of_nat (length newData)) newData =
      Some (e\<lparr>dataMap := Some ?m'\<rparr>, t\<lparr>mmapData := map_option (\<lambda>d. blit d (base + 20) newData) (mmapData t)\<rparr>, True)"
    using assms(2-4) fits(1) unfolding updateOverflowInPlace_def u v Let_def base_def
    by (auto simp: write_map_def mapped_def)
  moreover have "getLargeData e [r] pg (of_nat (length newData)) = Some ([r], Inr (take (length newData) (drop (base + 20) m)))"
    using r assms(3) fits v by (simp add: getLargeData_def mapped_def base_def)
  moreover have "take (length newData) (drop (base + 20) ?m') = newData"
    using take_drop_blit_same [of "base + 20" newData m] fits(1) by simp
  then have "getLargeData (e\<lparr>dataMap := Some ?m'\<rparr>) [r\<lparr>mmapData := Some ?m'\<rparr>] pg (of_nat (length newData)) =
      Some ([r\<lparr>mmapData := Some ?m'\<rparr>], Inr newData)"
    using r fits lm v by (simp add: getLargeData_def mapped_def base_def IsReadOnly_def)
  ultimately show ?thesis by auto
qed

text \<open>The pages of a released run are handed out again by the same transaction, the last one first.\<close>

lemma freed_page_reused:
  fixes vsz :: u32
  assumes w: "world_ok w" and ok: "wtxn_ok (Suc m) e t" and dbi: "dbi < length (trees t)"
  defines "n \<equiv> overflow_count (uint (envPageSize e)) (uint vsz)"
  assumes n: "0 < n"
  shows "\<exists>t1 e' t' a p. freeOverflow e t dbi pg vsz = Some t1 \<and>
    allocatePage w e t1 = Some (e', t', pg + of_nat (n - 1), a) \<and> seen e' t' = (seen e t)(pg + of_nat (n - 1) \<mapsto> p)"
proof -
  define t1 where "t1 = t\<lparr>freePages := freePages t @ map (\<lambda>i. pg + of_nat i) [0..<n],
    trees := (trees t)[dbi := (if LargePages (trees t ! dbi) \<ge> of_nat n
      then (trees t ! dbi)\<lparr>LargePages := LargePages (trees t ! dbi) - of_nat n\<rparr> else trees t ! dbi)]\<rparr>"
  have f: "freeOverflow e t dbi pg vsz = Some t1"
    using dbi by (simp add: freeOverflow_def upd_tree_def t1_def n_def Let_def)
  have same: "dirtyTracker t1 = dirtyTracker t" "structs t1 = structs t" "spillSlots t1 = spillSlots t" "txnFlags t1 = txnFlags t"
    by (simp_all add: t1_def)
  have np: "next_page t1 = pg + of_nat (n - 1)"
    using n by (simp add: next_page_def t1_def last_map)
  from allocatePage_ok [OF _ w, of m e t1] wtxn_ok_cong [OF same] ok obtain e' t' a p where
    "allocatePage w e t1 = Some (e', t', next_page t1, a)" "seen e' t' = (seen e t1)(next_page t1 \<mapsto> p)" by metis
  then show ?thesis using f seen_cong [OF same(1,2)] unfolding np by auto
qed

end
