(* ===== verification/WriteSamples.thy ===== *)
theory WriteSamples
  imports TxnSamples Overflow
begin

text \<open>A write transaction over the sample mapping, with an empty spill buffer.\<close>

definition sample_world :: world where
  "sample_world = \<lparr>osSegment = None, regionBytes = (\<lambda>r. replicate (snd (snd r)) 0), poolPage = replicate 64 0\<rparr>"

definition sample_wenv :: "buffer \<Rightarrow> env" where
  "sample_wenv b = sample_env\<lparr>spillBuf := Some b\<rparr>"

definition sample_wtxn :: txn where
  "sample_wtxn = sample_txn\<lparr>txnFlags := 0\<rparr>"

lemma sample_world_ok: "world_ok sample_world"
  by (simp add: world_ok_def sample_world_def)

lemma sample_buffer: "\<exists>b. New None ''spill'' 64 16 = Inr b \<and> spill_room 1000 b \<and> pageSize b = 64"
proof -
  obtain b where b: "New None ''spill'' 64 16 = Inr b" "buf_inv b" "live b = {}" "segmentCap b = 16" "pageSize b = 64"
    using New_ok [of 16 "''spill''" 64] by auto
  then show ?thesis by (auto simp: spill_room_def spill_ok_def DefaultMaxSegments_def)
qed

lemma sample_wtxn_ok:
  assumes "spill_room 1000 b" "pageSize b = 64"
  shows "wtxn_ok 1000 (sample_wenv b) sample_wtxn"
  using assms
  by (simp add: wtxn_ok_def sample_wenv_def sample_wtxn_def sample_txn_def sample_env_def map_room_empty spill_ready_def
     IsReadOnly_def tracked_ok_def)

end
