(* ===== verification/Cursor.thy ===== *)
theory Cursor
  imports TreeRead
begin

text \<open>
  The cursor of cursor.go: its page stack, the refresh of the stack after changes by other cursors,
  the position within duplicates, and the current pair.  A \<open>cst\<close> is the environment, the transaction
  and the cursor; the cursor's tree is the entry of the transaction's trees it points to.  A stack
  has 32 levels, and an index outside of it panics, which is \<open>None\<close> like every other panic.
\<close>

section \<open>State\<close>

definition CursorStackSize :: nat where "CursorStackSize = 32"

datatype cursorState = cursorUninitialized | cursorPointing | cursorEOF | cursorInvalid

record dupState =
  dInitialized :: bool
  isSubTree :: bool
  atFirst :: bool
  atLast :: bool
  subTree :: tree
  subPages :: "pref option list"
  subIndices :: "u16 list"
  subTop :: int
  subPageData :: bytes
  subPageIdx :: int
  subPageNum :: int
  dupfixSize :: int
  nodePositions :: "int list"

record cursor =
  state :: cursorState
  top_ix :: int
  cdbi :: nat
  cmmapData :: "bytes option"
  ccpageSize :: u32
  readOnly :: bool
  cDupSort :: bool
  afterDelete :: bool
  dirtyMask :: u32
  cpages :: "pref list"
  indices :: "u16 list"
  stackDirty :: "nat option list"
  numExpected :: "u16 list"
  dup :: dupState

record cst =
  ce :: env
  ct :: txn
  cc :: cursor

type_synonym kv = "bytes \<times> bytes"

abbreviation on_cur :: "(cursor \<Rightarrow> cursor) \<Rightarrow> cst \<Rightarrow> cst" where
  "on_cur f s \<equiv> s\<lparr>cc := f (cc s)\<rparr>"

definition on_dup :: "(dupState \<Rightarrow> dupState) \<Rightarrow> cst \<Rightarrow> cst" where
  "on_dup f s = s\<lparr>cc := (cc s)\<lparr>dup := f (dup (cc s))\<rparr>\<rparr>"

definition set_state :: "cursorState \<Rightarrow> cst \<Rightarrow> cst" where
  "set_state x s = s\<lparr>cc := (cc s)\<lparr>state := x\<rparr>\<rparr>"

definition set_top :: "int \<Rightarrow> cst \<Rightarrow> cst" where
  "set_top x s = s\<lparr>cc := (cc s)\<lparr>top_ix := x\<rparr>\<rparr>"

definition set_afterDelete :: "bool \<Rightarrow> cst \<Rightarrow> cst" where
  "set_afterDelete x s = s\<lparr>cc := (cc s)\<lparr>afterDelete := x\<rparr>\<rparr>"

text \<open>Array accesses, with the panic outside of the bounds.\<close>

definition at_ix :: "'a list \<Rightarrow> int \<Rightarrow> 'a option" where
  "at_ix xs i = (if 0 \<le> i \<and> i < int (length xs) then Some (xs ! nat i) else None)"

definition upd_ix :: "'a list \<Rightarrow> int \<Rightarrow> 'a \<Rightarrow> 'a list option" where
  "upd_ix xs i x = (if 0 \<le> i \<and> i < int (length xs) then Some (xs[nat i := x]) else None)"

definition set_cpage :: "int \<Rightarrow> pref \<Rightarrow> cst \<Rightarrow> cst option" where
  "set_cpage l r s = map_option (\<lambda>x. s\<lparr>cc := (cc s)\<lparr>cpages := x\<rparr>\<rparr>) (upd_ix (cpages (cc s)) l r)"

definition set_index :: "int \<Rightarrow> u16 \<Rightarrow> cst \<Rightarrow> cst option" where
  "set_index l i s = map_option (\<lambda>x. s\<lparr>cc := (cc s)\<lparr>indices := x\<rparr>\<rparr>) (upd_ix (indices (cc s)) l i)"

definition set_expected :: "int \<Rightarrow> u16 \<Rightarrow> cst \<Rightarrow> cst option" where
  "set_expected l n s = map_option (\<lambda>x. s\<lparr>cc := (cc s)\<lparr>numExpected := x\<rparr>\<rparr>) (upd_ix (numExpected (cc s)) l n)"

definition set_stackDirty :: "int \<Rightarrow> nat option \<Rightarrow> cst \<Rightarrow> cst option" where
  "set_stackDirty l a s = map_option (\<lambda>x. s\<lparr>cc := (cc s)\<lparr>stackDirty := x\<rparr>\<rparr>) (upd_ix (stackDirty (cc s)) l a)"

definition level_bit :: "int \<Rightarrow> u32" where
  "level_bit l = (if 0 \<le> l then push_bit (nat l) 1 else 0)"

definition mark_level :: "int \<Rightarrow> cst \<Rightarrow> cst" where
  "mark_level l s = s\<lparr>cc := (cc s)\<lparr>dirtyMask := dirtyMask (cc s) OR level_bit l\<rparr>\<rparr>"

definition clear_level :: "int \<Rightarrow> cst \<Rightarrow> cst" where
  "clear_level l s = s\<lparr>cc := (cc s)\<lparr>dirtyMask := dirtyMask (cc s) AND NOT (level_bit l)\<rparr>\<rparr>"

text \<open>The page at a level, the page and index at the top, and the cursor's tree.\<close>

definition page_of :: "cst \<Rightarrow> pref \<Rightarrow> page option" where
  "page_of s r = pref_page (ce s) (ct s) r"

definition page_at :: "cst \<Rightarrow> int \<Rightarrow> page option" where
  "page_at s l = do { r \<leftarrow> at_ix (cpages (cc s)) l; page_of s r }"

definition cur_index :: "cst \<Rightarrow> int option" where
  "cur_index s = map_option uint (at_ix (indices (cc s)) (top_ix (cc s)))"

definition tree_of :: "cst \<Rightarrow> tree option" where
  "tree_of s = (if cdbi (cc s) < length (trees (ct s)) then Some (trees (ct s) ! cdbi (cc s)) else None)"

definition fill :: "cst \<Rightarrow> pgno \<Rightarrow> (cst \<times> pref) option" where
  "fill s pg = do { (t, r) \<leftarrow> fillPageHotPath (ce s) (ct s) pg; Some (s\<lparr>ct := t\<rparr>, r) }"

definition num16 :: "page \<Rightarrow> u16 option" where
  "num16 p = map_option of_int (numEntriesFast p)"

section \<open>The page stack\<close>

definition cursor_initMmapCache :: "cst \<Rightarrow> cst" where
  "cursor_initMmapCache s =
     (let t = (if mmapData (ct s) = None then txn_initMmapCache (ce s) (ct s) else ct s)
      in s\<lparr>ct := t, cc := (cc s)\<lparr>readOnly := IsReadOnly t, ccpageSize := envPageSize (ce s), cmmapData := mmapData t\<rparr>\<rparr>)"

text \<open>\<open>Some None\<close> is the nil page of an empty stack.\<close>

definition currentPage :: "cst \<Rightarrow> page option option" where
  "currentPage s = (if top_ix (cc s) < 0 then Some None else map_option Some (page_at s (top_ix (cc s))))"

definition currentIndex :: "cst \<Rightarrow> u16 option" where
  "currentIndex s = (if top_ix (cc s) < 0 then Some 0 else at_ix (indices (cc s)) (top_ix (cc s)))"

definition pushPage :: "cst \<Rightarrow> pref \<Rightarrow> u16 \<Rightarrow> (cst \<times> goerror option) option" where
  "pushPage s r idx =
     (if top_ix (cc s) \<ge> int CursorStackSize - 1 then Some (s, Some ErrCursorFullError)
      else do { let l = top_ix (cc s) + 1;
                s \<leftarrow> set_cpage l r (set_top l s); s \<leftarrow> set_index l idx s; Some (s, None) })"

definition pushPageByPgno :: "cst \<Rightarrow> pgno \<Rightarrow> u16 \<Rightarrow> (cst \<times> goerror option) option" where
  "pushPageByPgno s pn idx =
     (if top_ix (cc s) \<ge> int CursorStackSize - 1 then Some (s, Some ErrCursorFullError)
      else do {
        let l = top_ix (cc s) + 1;
        s \<leftarrow> set_stackDirty l None (clear_level l (set_top l s));
        (s, r) \<leftarrow>
          (if readOnly (cc s) \<and> cmmapData (cc s) \<noteq> None then
             do { let off = unat pn * unat (ccpageSize (cc s));
                  d \<leftarrow> slice (mapped (cmmapData (cc s))) (int off) (int (off + unat (ccpageSize (cc s))));
                  Some (s, Buf d) }
           else fill s pn);
        s \<leftarrow> set_cpage l r s;
        let s = (case r of Ref _ \<Rightarrow> mark_level l s | Buf _ \<Rightarrow> s);
        s \<leftarrow> set_index l idx s;
        p \<leftarrow> page_of s r;
        n \<leftarrow> num16 p;
        s \<leftarrow> set_expected l n s;
        Some (s, None) })"

definition popPage :: "cst \<Rightarrow> (cst \<times> (pref \<times> u16) option) option" where
  "popPage s =
     (if top_ix (cc s) < 0 then Some (s, None)
      else do { r \<leftarrow> at_ix (cpages (cc s)) (top_ix (cc s)); i \<leftarrow> at_ix (indices (cc s)) (top_ix (cc s));
                Some (set_top (top_ix (cc s) - 1) s, Some (r, i)) })"

definition clearDupState :: "cst \<Rightarrow> cst" where
  "clearDupState s = on_dup (\<lambda>d. d\<lparr>dInitialized := False\<rparr>) s"

definition cursor_reset :: "cst \<Rightarrow> cst" where
  "cursor_reset s =
     (let c = cc s; n = nat (top_ix c + 1) in
      clearDupState (s\<lparr>cc := c\<lparr>stackDirty := replicate (min n (length (stackDirty c))) None @ drop n (stackDirty c),
        top_ix := - 1, state := cursorUninitialized, afterDelete := False, dirtyMask := 0\<rparr>\<rparr>))"

definition getChildPgno :: "page \<Rightarrow> int \<Rightarrow> pgno option" where
  "getChildPgno p idx = nodeGetChildPgnoFast p idx"

section \<open>Refreshing the stack\<close>

text \<open>The levels below the root, along the saved indices.\<close>

fun refresh_descend :: "cst \<Rightarrow> u16 list \<Rightarrow> u16 list \<Rightarrow> nat list \<Rightarrow> cst option" where
  "refresh_descend s savedIx savedEx [] = Some s"
| "refresh_descend s savedIx savedEx (l # ls) =
     do { p \<leftarrow> page_at s (top_ix (cc s));
          leafp \<leftarrow> isLeaf p;
          if leafp then Some s
          else do {
            parentIdx \<leftarrow> cur_index s;
            n \<leftarrow> numEntriesFast p;
            if parentIdx \<ge> n then Some s
            else do {
              child \<leftarrow> getChildPgno p parentIdx;
              (s, err) \<leftarrow> pushPageByPgno s child 0;
              if err \<noteq> None then Some (set_state cursorEOF s)
              else do {
                q \<leftarrow> page_at s (top_ix (cc s));
                m \<leftarrow> num16 q;
                ex \<leftarrow> at_ix savedEx (int l);
                ix \<leftarrow> at_ix savedIx (int l);
                let s = (if m < ex \<and> ix < m then set_afterDelete True s else s);
                s \<leftarrow> set_expected (top_ix (cc s)) m s;
                s \<leftarrow> set_index (top_ix (cc s)) (if ix \<ge> m then (if m > 0 then m - 1 else 0) else ix) s;
                refresh_descend s savedIx savedEx ls } } } }"

definition refreshStackFromRoot :: "cst \<Rightarrow> cst option" where
  "refreshStackFromRoot s =
     do { tr \<leftarrow> (if top_ix (cc s) < 0 then Some None else map_option Some (tree_of s));
          if (case tr of None \<Rightarrow> True | Some tr \<Rightarrow> isEmpty tr) then Some (set_state cursorEOF s)
          else do {
            tr \<leftarrow> tr;
            let savedTop = top_ix (cc s);
            let savedIx = indices (cc s);
            let savedEx = numExpected (cc s);
            let n = nat (savedTop + 1);
            let s = s\<lparr>cc := (cc s)\<lparr>stackDirty := replicate (min n (length (stackDirty (cc s)))) None @ drop n (stackDirty (cc s)),
                        dirtyMask := 0, top_ix := 0\<rparr>\<rparr>;
            (s, r) \<leftarrow> fill s (Root tr);
            s \<leftarrow> set_cpage 0 r s;
            p \<leftarrow> page_of s r;
            m \<leftarrow> num16 p;
            leafp \<leftarrow> isLeaf p;
            ix \<leftarrow> at_ix savedIx 0;
            ex \<leftarrow> at_ix savedEx 0;
            if leafp \<and> savedTop > 0 then
              do { s \<leftarrow> set_index 0 0 s;
                   s \<leftarrow> set_expected 0 m s;
                   Some (if m = 0 then set_state cursorEOF s else set_afterDelete True s) }
            else do {
              let s = (if m < ex \<and> ix < m then set_afterDelete True s else s);
              s \<leftarrow> set_expected 0 m s;
              if ix \<ge> m \<and> m = 0 then do { s \<leftarrow> set_index 0 0 s; Some (set_state cursorEOF s) }
              else do {
                s \<leftarrow> set_index 0 (if ix \<ge> m then m - 1 else ix) s;
                refresh_descend s savedIx savedEx [1..<nat (savedTop + 1)] } } } }"

definition refreshPage :: "cst \<Rightarrow> (cst \<times> bool) option" where
  "refreshPage s =
     (if top_ix (cc s) < 0 \<or> readOnly (cc s) then Some (s, False)
      else do {
        p0 \<leftarrow> page_at s 0;
        pn0 \<leftarrow> pageNo p0;
        tr \<leftarrow> tree_of s;
        s \<leftarrow> (if pn0 \<noteq> Root tr then refreshStackFromRoot s else Some s);
        if top_ix (cc s) < 0 then Some (s, True)
        else do {
          let l = top_ix (cc s);
          r \<leftarrow> at_ix (cpages (cc s)) l;
          p \<leftarrow> page_of s r;
          pn \<leftarrow> pageNo p;
          d \<leftarrow> tracker_ref (ct s) pn;
          (s, r) \<leftarrow>
            (case d of
               Some a \<Rightarrow>
                 if r \<noteq> Ref a then
                   do { s \<leftarrow> set_cpage l (Ref a) s; s \<leftarrow> set_stackDirty l (Some a) (mark_level l s); Some (s, Ref a) }
                 else Some (s, r)
             | None \<Rightarrow> Some (s, r));
          p \<leftarrow> page_of s r;
          n \<leftarrow> num16 p;
          ex \<leftarrow> at_ix (numExpected (cc s)) l;
          if n < ex then
            do { ix \<leftarrow> at_ix (indices (cc s)) l;
                 let s = (if ix < n then set_afterDelete True s else s);
                 s \<leftarrow> set_expected l n s;
                 Some (s, True) }
          else Some (s, False) } })"

section \<open>The position within duplicates\<close>

definition set_subPage :: "int \<Rightarrow> pref option \<Rightarrow> cst \<Rightarrow> cst option" where
  "set_subPage l r s = map_option (\<lambda>x. on_dup (\<lambda>d. d\<lparr>subPages := x\<rparr>) s) (upd_ix (subPages (dup (cc s))) l r)"

definition set_subIndex :: "int \<Rightarrow> u16 \<Rightarrow> cst \<Rightarrow> cst option" where
  "set_subIndex l i s = map_option (\<lambda>x. on_dup (\<lambda>d. d\<lparr>subIndices := x\<rparr>) s) (upd_ix (subIndices (dup (cc s))) l i)"

definition sub_page :: "cst \<Rightarrow> int \<Rightarrow> page option" where
  "sub_page s l = do { r \<leftarrow> at_ix (subPages (dup (cc s))) l; r \<leftarrow> r; page_of s r }"

text \<open>One level down in the sub-tree, to child \<open>pg\<close>.\<close>

definition sub_push :: "cst \<Rightarrow> pgno \<Rightarrow> (cst \<times> page) option" where
  "sub_push s pg =
     do { let l = subTop (dup (cc s)) + 1;
          (s, r) \<leftarrow> fill (on_dup (\<lambda>d. d\<lparr>subTop := l\<rparr>) s) pg;
          s \<leftarrow> set_subPage l (Some r) s;
          p \<leftarrow> page_of s r;
          Some (s, p) }"

definition parse_subTree :: "bytes \<Rightarrow> tree" where
  "parse_subTree d = \<lparr>tFlags = g16 d 0, Height = g16 d 2, DupfixSize = 0, Root = g32 d 8, BranchPages = 0, LeafPages = 0,
     LargePages = 0, Sequence = 0, Items = g64 d 32, ModTxnid = 0\<rparr>"

partial_function (option) sub_leftmost :: "cst \<Rightarrow> page \<Rightarrow> cst option" where
  "sub_leftmost s p =
     do { br \<leftarrow> isBranchFast p;
          if \<not> br then Some s
          else do { child \<leftarrow> getChildPgno p 0;
                    (s, p) \<leftarrow> sub_push s child;
                    s \<leftarrow> set_subIndex (subTop (dup (cc s))) 0 s;
                    sub_leftmost s p } }"

definition initDupSubTree :: "cst \<Rightarrow> bytes \<Rightarrow> (cst \<times> goerror option) option" where
  "initDupSubTree s treeData =
     (if length treeData < 48 then Some (s, Some ErrCorruptedError)
      else
        let s = on_dup (\<lambda>d. d\<lparr>subTree := parse_subTree treeData\<rparr>) s in
        if Root (parse_subTree treeData) = invalidPgno then Some (s, Some ErrNotFoundError)
        else do {
          (s, p) \<leftarrow> sub_push (on_dup (\<lambda>d. d\<lparr>isSubTree := True, subTop := - 1\<rparr>) s) (Root (parse_subTree treeData));
          s \<leftarrow> set_subIndex 0 0 s;
          s \<leftarrow> sub_leftmost s p;
          Some (on_dup (\<lambda>d. d\<lparr>dInitialized := True, atFirst := True, atLast := False\<rparr>) s, None) })"

text \<open>The rightmost leaf: an index is recorded before the step down and for the leaf.\<close>

partial_function (option) sub_rightmost :: "cst \<Rightarrow> page \<Rightarrow> cst option" where
  "sub_rightmost s p =
     do { br \<leftarrow> isBranchFast p;
          n \<leftarrow> numEntriesFast p;
          let lastIdx = (of_int (n - 1) :: u16);
          s \<leftarrow> set_subIndex (subTop (dup (cc s))) lastIdx s;
          if \<not> br then Some s
          else do { child \<leftarrow> getChildPgno p (uint lastIdx);
                    (s, p) \<leftarrow> sub_push s child;
                    sub_rightmost s p } }"

definition initDupSubTreeLast :: "cst \<Rightarrow> bytes \<Rightarrow> (cst \<times> goerror option) option" where
  "initDupSubTreeLast s treeData =
     (if length treeData < 48 then Some (s, Some ErrCorruptedError)
      else
        let s = on_dup (\<lambda>d. d\<lparr>subTree := parse_subTree treeData\<rparr>) s in
        if Root (parse_subTree treeData) = invalidPgno then Some (s, Some ErrNotFoundError)
        else do {
          (s, p) \<leftarrow> sub_push (on_dup (\<lambda>d. d\<lparr>isSubTree := True, subTop := - 1\<rparr>) s) (Root (parse_subTree treeData));
          s \<leftarrow> sub_rightmost s p;
          Some (on_dup (\<lambda>d. d\<lparr>dInitialized := True, atFirst := False, atLast := True\<rparr>) s, None) })"

definition dupSubTreeLast :: "cst \<Rightarrow> (cst \<times> goerror option) option" where
  "dupSubTreeLast s =
     (let root = Root (subTree (dup (cc s))) in
      if root = invalidPgno then Some (s, Some ErrNotFoundError)
      else do {
        (s, p) \<leftarrow> sub_push (on_dup (\<lambda>d. d\<lparr>subTop := - 1\<rparr>) s) root;
        s \<leftarrow> sub_rightmost s p;
        Some (on_dup (\<lambda>d. d\<lparr>atFirst := False, atLast := True\<rparr>) s, None) })"

text \<open>The layout of a sub-page: value size of a fixed-size one, number of values, node positions.\<close>

fun read_positions :: "bytes \<Rightarrow> nat list \<Rightarrow> int list option" where
  "read_positions d [] = Some []"
| "read_positions d (i # is) =
     do { off \<leftarrow> rd16 d (20 + 2 * int i); ps \<leftarrow> read_positions d is; Some ((uint off + pageHeaderSize) # ps) }"

definition sub_layout :: "bytes \<Rightarrow> (int \<times> int \<times> int list) option" where
  "sub_layout d =
     (let dupfixKsize = uint (g16 d 8); fl = g16 d 10; lower = uint (g16 d 12) in
      if fl AND pageDupfix \<noteq> 0 \<and> 0 < dupfixKsize \<and> dupfixKsize < 65535 then
        Some (dupfixKsize, (int (length d) - pageHeaderSize) div dupfixKsize, [])
      else if 0 < lower \<and> lower < int (length d) then
        do { ps \<leftarrow> read_positions d [0..<nat (lower div 2)]; Some (0, lower div 2, ps) }
      else Some (0, 0, []))"

definition initDupSubPage :: "cst \<Rightarrow> bytes \<Rightarrow> (cst \<times> goerror option) option" where
  "initDupSubPage s d =
     (if length d < 20 then Some (s, Some ErrCorruptedError)
      else do {
        (ks, n, ps) \<leftarrow> sub_layout d;
        Some (on_dup (\<lambda>x. x\<lparr>isSubTree := False, subPageData := d, subPageIdx := 0, dupfixSize := ks, subPageNum := n,
          nodePositions := ps, dInitialized := True, atFirst := True, atLast := False\<rparr>) s, None) })"

definition initDupSubPageLast :: "cst \<Rightarrow> bytes \<Rightarrow> (cst \<times> goerror option) option" where
  "initDupSubPageLast s d =
     (if length d < 20 then Some (s, Some ErrCorruptedError)
      else do {
        (ks, n, ps) \<leftarrow> sub_layout d;
        Some (on_dup (\<lambda>x. x\<lparr>isSubTree := False, subPageData := d, subPageIdx := max 0 (n - 1), dupfixSize := ks,
          subPageNum := n, nodePositions := ps, dInitialized := True, atFirst := False, atLast := True\<rparr>) s, None) })"

definition getDupValue :: "cst \<Rightarrow> (goerror + bytes) option" where
  "getDupValue s =
     (let d = dup (cc s); sp = subPageData d; n = int (length sp) in
      if \<not> dInitialized d then Some (Inl ErrNotFoundError)
      else if isSubTree d then
        (if subTop d < 0 then Some (Inl ErrNotFoundError)
         else do { p \<leftarrow> sub_page s (subTop d);
                   i \<leftarrow> at_ix (subIndices d) (subTop d);
                   map_option Inr (nodeGetKeyFast p (uint i)) })
      else if subPageIdx d \<ge> subPageNum d then Some (Inl ErrNotFoundError)
      else if dupfixSize d > 0 then
        (let start = 20 + subPageIdx d * dupfixSize d; stop = start + dupfixSize d in
         if stop > n then Some (Inl ErrCorruptedError) else map_option Inr (slice sp start stop))
      else if subPageIdx d \<ge> int (length (nodePositions d)) then Some (Inl ErrCorruptedError)
      else do {
        nodePos \<leftarrow> at_ix (nodePositions d) (subPageIdx d);
        if nodePos + 8 > n then Some (Inl ErrCorruptedError)
        else do {
          ks \<leftarrow> rd16 sp (nodePos + 6);
          let valueStart = nodePos + 8;
          let valueEnd = valueStart + uint ks;
          if uint ks < 4096 \<and> valueEnd \<le> n then map_option Inr (slice sp valueStart valueEnd)
          else Some (Inl ErrCorruptedError) } })"

section \<open>The current pair\<close>

text \<open>The data of a large node; an error of getLargeData leaves it nil.\<close>

definition big_data :: "cst \<Rightarrow> page \<Rightarrow> int \<Rightarrow> (cst \<times> bytes) option" where
  "big_data s p idx =
     do { ovPgno \<leftarrow> nodeGetOverflowPgnoDirect p idx;
          vsz \<leftarrow> nodeGetDataSizeDirect p idx;
          (ts, r) \<leftarrow> getLargeData (ce s) [ct s] ovPgno vsz;
          t \<leftarrow> (case ts of [] \<Rightarrow> None | t # _ \<Rightarrow> Some t);
          Some (s\<lparr>ct := t\<rparr>, case r of Inl _ \<Rightarrow> [] | Inr d \<Rightarrow> d) }"

definition with_dup :: "cst \<Rightarrow> bytes \<Rightarrow> (cst \<times> goerror option) option \<Rightarrow> (cst \<times> (goerror + kv)) option" where
  "with_dup s k start =
     do { (s, err) \<leftarrow> (if dInitialized (dup (cc s)) then Some (s, None) else start);
          case err of
            Some x \<Rightarrow> Some (s, Inl x)
          | None \<Rightarrow>
              do { r \<leftarrow> getDupValue s;
                   Some (s, case r of Inl x \<Rightarrow> Inl x | Inr v \<Rightarrow> Inr (k, v)) } }"

definition getCurrent :: "cst \<Rightarrow> (cst \<times> (goerror + kv)) option" where
  "getCurrent s =
     (if state (cc s) \<noteq> cursorPointing \<or> top_ix (cc s) < 0 then Some (s, Inl ErrNotFoundError)
      else do {
        (s, _) \<leftarrow> refreshPage s;
        p \<leftarrow> page_at s (top_ix (cc s));
        idx \<leftarrow> cur_index s;
        n \<leftarrow> numEntriesFast p;
        if idx \<ge> n then Some (s, Inl ErrNotFoundError)
        else do {
          k \<leftarrow> nodeGetKeyDirect p idx;
          case k of
            None \<Rightarrow> Some (s, Inl ErrCorruptedError)
          | Some k \<Rightarrow>
              do { fl \<leftarrow> nodeGetFlagsDirect p idx;
                   data \<leftarrow> nodeGetDataDirect p idx;
                   (s, data) \<leftarrow> (if fl AND nodeBig \<noteq> 0 then big_data s p idx else Some (s, mapped data));
                   if cDupSort (cc s) \<and> fl AND nodeTree \<noteq> 0 \<and> 48 \<le> length data then
                     with_dup s k (initDupSubTree s data)
                   else if cDupSort (cc s) \<and> fl AND nodeDup \<noteq> 0 \<and> fl AND nodeTree = 0 \<and> 16 \<le> length data then
                     with_dup s k (initDupSubPage s data)
                   else Some (s, Inr (k, data)) } } })"

definition getCurrentWithDup :: "cst \<Rightarrow> (cst \<times> (goerror + kv)) option" where
  "getCurrentWithDup s =
     (if state (cc s) \<noteq> cursorPointing \<or> top_ix (cc s) < 0 then Some (s, Inl ErrNotFoundError)
      else do {
        p \<leftarrow> page_at s (top_ix (cc s));
        idx \<leftarrow> cur_index s;
        k \<leftarrow> nodeGetKeyDirect p idx;
        case k of
          None \<Rightarrow> Some (s, Inl ErrCorruptedError)
        | Some k \<Rightarrow>
            do { r \<leftarrow> getDupValue s;
                 Some (s, case r of Inl x \<Rightarrow> Inl x | Inr v \<Rightarrow> Inr (k, v)) } })"

end
