(* ===== verification/CursorNav.thy ===== *)
theory CursorNav
  imports Cursor
begin

text \<open>
  The movements of a cursor (cursor.go): descents, first and last, next and previous with and
  without duplicates, positioning by key and by pair, and the counting of duplicates.  A memory read
  through an unsafe pointer stays within the page here; outside of it the result is \<open>None\<close>.
\<close>

type_synonym kv_result = "(cst \<times> (goerror + kv)) option"

section \<open>Descents in the main tree\<close>

text \<open>The loop of the descents by tree height; the error is that of a full stack.\<close>

fun descend_left_loop :: "nat \<Rightarrow> cst \<Rightarrow> (cst \<times> goerror option) option" where
  "descend_left_loop 0 s = Some (s, None)"
| "descend_left_loop (Suc n) s =
     do { p \<leftarrow> page_at s (top_ix (cc s));
          i \<leftarrow> cur_index s;
          child \<leftarrow> nodeGetChildPgnoUnchecked (Data p) i;
          (s, err) \<leftarrow> pushPageByPgno s child 0;
          if err \<noteq> None then Some (s, err) else descend_left_loop n s }"

definition levels_down :: "cst \<Rightarrow> nat option" where
  "levels_down s = map_option (\<lambda>tr. nat (uint (Height tr) - top_ix (cc s) - 1)) (tree_of s)"

definition descendLeft :: "cst \<Rightarrow> kv_result" where
  "descendLeft s =
     do { n \<leftarrow> levels_down s;
          (s, err) \<leftarrow> descend_left_loop n s;
          case err of Some x \<Rightarrow> Some (s, Inl x) | None \<Rightarrow> getCurrent s }"

text \<open>One step to child \<open>pg\<close>, at its last entry; the expected number of entries stays as it is.\<close>

definition push_last :: "cst \<Rightarrow> pgno \<Rightarrow> cst option" where
  "push_last s pg =
     do { let l = top_ix (cc s) + 1;
          let s = set_top l s;
          (s, r) \<leftarrow>
            (if readOnly (cc s) \<and> cmmapData (cc s) \<noteq> None then
               do { let off = unat pg * unat (ccpageSize (cc s));
                    d \<leftarrow> slice (mapped (cmmapData (cc s))) (int off) (int (off + unat (ccpageSize (cc s))));
                    Some (s, Buf d) }
             else fill s pg);
          s \<leftarrow> set_cpage l r s;
          p \<leftarrow> page_of s r;
          n \<leftarrow> numEntriesFast p;
          set_index l (of_int (n - 1)) s }"

fun descend_right_loop :: "nat \<Rightarrow> cst \<Rightarrow> cst option" where
  "descend_right_loop 0 s = Some s"
| "descend_right_loop (Suc n) s =
     do { p \<leftarrow> page_at s (top_ix (cc s));
          i \<leftarrow> cur_index s;
          child \<leftarrow> nodeGetChildPgnoUnchecked (Data p) i;
          s \<leftarrow> push_last s child;
          descend_right_loop n s }"

definition descendRight :: "cst \<Rightarrow> kv_result" where
  "descendRight s = do { n \<leftarrow> levels_down s; s \<leftarrow> descend_right_loop n s; getCurrent s }"

section \<open>Movement within a sub-tree of duplicates\<close>

partial_function (option) dupSubTreeDescendLeft :: "cst \<Rightarrow> kv_result" where
  "dupSubTreeDescendLeft s =
     do { p \<leftarrow> sub_page s (subTop (dup (cc s)));
          br \<leftarrow> isBranchFast p;
          if \<not> br then getCurrentWithDup s
          else do {
            i \<leftarrow> at_ix (subIndices (dup (cc s))) (subTop (dup (cc s)));
            child \<leftarrow> getChildPgno p (uint i);
            (s, q) \<leftarrow> sub_push s child;
            s \<leftarrow> set_subIndex (subTop (dup (cc s))) 0 s;
            dupSubTreeDescendLeft s } }"

partial_function (option) dupSubTreeDescendRight :: "cst \<Rightarrow> kv_result" where
  "dupSubTreeDescendRight s =
     do { p \<leftarrow> sub_page s (subTop (dup (cc s)));
          br \<leftarrow> isBranchFast p;
          if \<not> br then getCurrentWithDup s
          else do {
            i \<leftarrow> at_ix (subIndices (dup (cc s))) (subTop (dup (cc s)));
            child \<leftarrow> getChildPgno p (uint i);
            (s, q) \<leftarrow> sub_push s child;
            n \<leftarrow> numEntriesFast q;
            s \<leftarrow> set_subIndex (subTop (dup (cc s))) (of_int (n - 1)) s;
            dupSubTreeDescendRight s } }"

text \<open>The loops upwards; the argument is the number of levels left, \<open>subTop + 1\<close>.\<close>

definition sub_pop :: "cst \<Rightarrow> cst option" where
  "sub_pop s =
     do { s \<leftarrow> set_subPage (subTop (dup (cc s))) None s;
          Some (on_dup (\<lambda>d. d\<lparr>subTop := subTop d - 1\<rparr>) s) }"

fun sub_next_loop :: "nat \<Rightarrow> cst \<Rightarrow> kv_result" where
  "sub_next_loop 0 s = Some (s, Inl ErrNotFoundError)"
| "sub_next_loop (Suc l) s =
     do { p \<leftarrow> sub_page s (int l);
          i \<leftarrow> at_ix (subIndices (dup (cc s))) (int l);
          n \<leftarrow> numEntriesFast p;
          if uint i + 1 < n then
            do { s \<leftarrow> set_subIndex (int l) (i + 1) s;
                 br \<leftarrow> isBranchFast p;
                 if br then dupSubTreeDescendLeft s else getCurrentWithDup s }
          else do { s \<leftarrow> sub_pop s; sub_next_loop l s } }"

definition dupSubTreeNext :: "cst \<Rightarrow> kv_result" where
  "dupSubTreeNext s =
     (if subTop (dup (cc s)) < 0 then Some (s, Inl ErrNotFoundError)
      else sub_next_loop (nat (subTop (dup (cc s)) + 1)) (on_dup (\<lambda>d. d\<lparr>atFirst := False, atLast := False\<rparr>) s))"

fun sub_prev_loop :: "nat \<Rightarrow> cst \<Rightarrow> kv_result" where
  "sub_prev_loop 0 s = Some (s, Inl ErrNotFoundError)"
| "sub_prev_loop (Suc l) s =
     do { i \<leftarrow> at_ix (subIndices (dup (cc s))) (int l);
          if i > 0 then
            do { s \<leftarrow> set_subIndex (int l) (i - 1) s;
                 p \<leftarrow> sub_page s (int l);
                 br \<leftarrow> isBranchFast p;
                 if br then dupSubTreeDescendRight s else getCurrentWithDup s }
          else do { s \<leftarrow> sub_pop s; sub_prev_loop l s } }"

definition dupSubTreePrev :: "cst \<Rightarrow> kv_result" where
  "dupSubTreePrev s =
     (if subTop (dup (cc s)) < 0 then Some (s, Inl ErrNotFoundError)
      else sub_prev_loop (nat (subTop (dup (cc s)) + 1)) (on_dup (\<lambda>d. d\<lparr>atFirst := False, atLast := False\<rparr>) s))"

section \<open>First and last duplicate\<close>

text \<open>The node at the current position, read through pointers into the page.\<close>

definition raw_cur_node :: "cst \<Rightarrow> (bytes \<times> u8 \<times> bytes) option" where
  "raw_cur_node s =
     do { p \<leftarrow> page_at s (top_ix (cc s));
          idx \<leftarrow> cur_index s;
          off \<leftarrow> rd16 (Data p) (20 + idx * 2);
          let b = uint off + 20;
          dsz \<leftarrow> rd32 (Data p) b;
          fl \<leftarrow> rd8 (Data p) (b + 4);
          ksz \<leftarrow> rd16 (Data p) (b + 6);
          k \<leftarrow> slice (Data p) (b + 8) (b + 8 + uint ksz);
          d \<leftarrow> slice (Data p) (b + 8 + uint ksz) (b + 8 + uint ksz + uint dsz);
          Some (k, fl, d) }"

definition is_dupsort :: "cst \<Rightarrow> bool option" where
  "is_dupsort s = map_option (\<lambda>tr. tFlags tr AND ucast DupSort \<noteq> 0) (tree_of s)"

definition to_dup :: "(cst \<Rightarrow> bytes \<Rightarrow> (cst \<times> goerror option) option) \<Rightarrow> (cst \<Rightarrow> bytes \<Rightarrow> (cst \<times> goerror option) option) \<Rightarrow>
    cst \<Rightarrow> kv_result" where
  "to_dup onTree onPage s =
     do { (k, fl, d) \<leftarrow> raw_cur_node s;
          ds \<leftarrow> is_dupsort s;
          if ds \<and> fl AND nodeTree \<noteq> 0 \<and> 48 \<le> length d then
            do { (s, err) \<leftarrow> onTree s d; case err of Some x \<Rightarrow> Some (s, Inl x) | None \<Rightarrow> getCurrent s }
          else if ds \<and> fl AND nodeDup \<noteq> 0 \<and> 20 \<le> length d then
            do { (s, err) \<leftarrow> onPage s d; case err of Some x \<Rightarrow> Some (s, Inl x) | None \<Rightarrow> getCurrent s }
          else Some (clearDupState s, Inr (k, d)) }"

definition firstDup :: "cst \<Rightarrow> kv_result" where
  "firstDup s =
     (if state (cc s) \<noteq> cursorPointing then Some (s, Inl ErrNotFoundError)
      else if dInitialized (dup (cc s)) \<and> atFirst (dup (cc s)) then getCurrent s
      else to_dup initDupSubTree initDupSubPage s)"

definition lastDup :: "cst \<Rightarrow> kv_result" where
  "lastDup s =
     (if state (cc s) \<noteq> cursorPointing then Some (s, Inl ErrNotFoundError)
      else if dInitialized (dup (cc s)) \<and> atLast (dup (cc s)) then getCurrent s
      else to_dup initDupSubTreeLast initDupSubPageLast s)"

definition initDupStateAtLast :: "cst \<Rightarrow> (cst \<times> goerror option) option" where
  "initDupStateAtLast s =
     do { p \<leftarrow> page_at s (top_ix (cc s));
          idx \<leftarrow> cur_index s;
          fl \<leftarrow> nodeGetFlagsFast p idx;
          d \<leftarrow> nodeGetDataFast p idx;
          if fl AND nodeTree \<noteq> 0 \<and> 48 \<le> length d then
            do { (s, err) \<leftarrow> initDupSubTree s d; if err \<noteq> None then Some (s, err) else dupSubTreeLast s }
          else if fl AND nodeDup \<noteq> 0 \<and> 16 \<le> length d then
            do { (s, err) \<leftarrow> initDupSubPage s d;
                 if err \<noteq> None then Some (s, err)
                 else Some (on_dup (\<lambda>x. x\<lparr>subPageIdx := subPageNum x - 1, atFirst := False, atLast := True\<rparr>) s, None) }
          else Some (s, None) }"

section \<open>First and last\<close>

partial_function (option) first_loop :: "cst \<Rightarrow> (cst \<times> goerror option) option" where
  "first_loop s =
     do { p \<leftarrow> page_at s (top_ix (cc s));
          br \<leftarrow> isBranchFast p;
          if \<not> br then Some (s, None)
          else do {
            child \<leftarrow> getChildPgno p 0;
            (s, err) \<leftarrow> pushPageByPgno s child 0;
            if err \<noteq> None then Some (s, err) else first_loop s } }"

text \<open>The root at level 0, with the number of its entries as expected number.\<close>

definition load_root :: "cst \<Rightarrow> tree \<Rightarrow> (cst \<times> page) option" where
  "load_root s tr =
     do { (s, r) \<leftarrow> fill (set_top 0 s) (Root tr);
          s \<leftarrow> set_cpage 0 r s;
          p \<leftarrow> page_of s r;
          n \<leftarrow> num16 p;
          s \<leftarrow> set_expected 0 n s;
          Some (s, p) }"

definition first :: "cst \<Rightarrow> kv_result" where
  "first s =
     do { let s = cursor_reset s;
          tr \<leftarrow> tree_of s;
          if isEmpty tr then Some (set_state cursorEOF s, Inl ErrNotFoundError)
          else do {
            (s, p) \<leftarrow> load_root s tr;
            s \<leftarrow> set_index 0 0 s;
            (s, err) \<leftarrow> first_loop s;
            case err of
              Some x \<Rightarrow> Some (s, Inl x)
            | None \<Rightarrow>
                do { p \<leftarrow> page_at s (top_ix (cc s));
                     n \<leftarrow> numEntriesFast p;
                     if n = 0 then Some (set_state cursorEOF s, Inl ErrNotFoundError)
                     else getCurrent (set_state cursorPointing s) } } }"

partial_function (option) last_loop :: "cst \<Rightarrow> cst option" where
  "last_loop s =
     do { p \<leftarrow> page_at s (top_ix (cc s));
          br \<leftarrow> isBranchFast p;
          if \<not> br then Some s
          else do {
            i \<leftarrow> cur_index s;
            child \<leftarrow> getChildPgno p i;
            let l = top_ix (cc s) + 1;
            (s, r) \<leftarrow> fill (set_top l s) child;
            s \<leftarrow> set_cpage l r s;
            q \<leftarrow> page_of s r;
            n \<leftarrow> numEntriesFast q;
            s \<leftarrow> set_index l (of_int (n - 1)) s;
            s \<leftarrow> set_expected l (of_int n) s;
            last_loop s } }"

definition last_pos :: "cst \<Rightarrow> kv_result" where
  "last_pos s =
     do { let s = cursor_reset s;
          tr \<leftarrow> tree_of s;
          if isEmpty tr then Some (set_state cursorEOF s, Inl ErrNotFoundError)
          else do {
            (s, p) \<leftarrow> load_root s tr;
            n \<leftarrow> numEntriesFast p;
            s \<leftarrow> set_index 0 (of_int (n - 1)) s;
            s \<leftarrow> last_loop s;
            let s = set_state cursorPointing s;
            ds \<leftarrow> is_dupsort s;
            if ds then lastDup s else getCurrent s } }"

section \<open>Next and previous\<close>

text \<open>The loops over the stack; \<open>None\<close> in the result says that the stack is used up.\<close>

partial_function (option) move_next_loop :: "cst \<Rightarrow> (cst \<times> (goerror + kv) option) option" where
  "move_next_loop s =
     (if top_ix (cc s) < 0 then Some (s, None)
      else do {
        (s, _) \<leftarrow> refreshPage s;
        p \<leftarrow> page_at s (top_ix (cc s));
        i \<leftarrow> at_ix (indices (cc s)) (top_ix (cc s));
        n \<leftarrow> numEntriesFast p;
        if uint i + 1 < n then
          do { s \<leftarrow> set_index (top_ix (cc s)) (i + 1) s;
               br \<leftarrow> isBranchFast p;
               (s, r) \<leftarrow> (if br then descendLeft s else getCurrent s);
               Some (s, Some r) }
        else do { (s, _) \<leftarrow> popPage s; move_next_loop s } })"

definition advance :: "cst \<Rightarrow> kv_result" where
  "advance s =
     do { let savedTop = top_ix (cc s);
          let savedIx = indices (cc s);
          (s, r) \<leftarrow> move_next_loop s;
          case r of
            Some r \<Rightarrow> Some (s, r)
          | None \<Rightarrow> Some (s\<lparr>cc := (cc s)\<lparr>top_ix := savedTop, indices := savedIx\<rparr>\<rparr>, Inl ErrNotFoundError) }"

definition moveNext :: "cst \<Rightarrow> kv_result" where
  "moveNext s =
     (if state (cc s) = cursorUninitialized then first s
      else if state (cc s) \<noteq> cursorPointing then Some (s, Inl ErrNotFoundError)
      else do {
        (s, _) \<leftarrow> refreshPage s;
        if afterDelete (cc s) then getCurrent (set_afterDelete False s)
        else do {
          ds \<leftarrow> is_dupsort s;
          if ds \<and> dInitialized (dup (cc s)) then
            (if isSubTree (dup (cc s)) then
               do { (s, r) \<leftarrow> dupSubTreeNext s;
                    case r of Inr kv \<Rightarrow> Some (s, Inr kv) | Inl _ \<Rightarrow> advance (clearDupState s) }
             else if subPageIdx (dup (cc s)) + 1 < subPageNum (dup (cc s)) then
               getCurrent (on_dup (\<lambda>d. d\<lparr>subPageIdx := subPageIdx d + 1\<rparr>) s)
             else advance (clearDupState s))
          else advance (clearDupState s) } })"

partial_function (option) move_prev_loop :: "cst \<Rightarrow> kv_result" where
  "move_prev_loop s =
     (if top_ix (cc s) < 0 then Some (set_state cursorEOF s, Inl ErrNotFoundError)
      else do {
        (s, _) \<leftarrow> refreshPage s;
        p \<leftarrow> page_at s (top_ix (cc s));
        i \<leftarrow> at_ix (indices (cc s)) (top_ix (cc s));
        if i > 0 then
          do { s \<leftarrow> set_index (top_ix (cc s)) (i - 1) s;
               br \<leftarrow> isBranchFast p;
               ds \<leftarrow> is_dupsort s;
               if br then
                 do { (s, r) \<leftarrow> descendRight s;
                      case r of Inl x \<Rightarrow> Some (s, Inl x) | Inr kv \<Rightarrow> if ds then lastDup s else Some (s, Inr kv) }
               else if ds then lastDup s else getCurrent s }
        else do { (s, _) \<leftarrow> popPage s; move_prev_loop s } })"

definition movePrev :: "cst \<Rightarrow> kv_result" where
  "movePrev s =
     (if state (cc s) = cursorUninitialized then last_pos s
      else if state (cc s) = cursorEOF then last_pos s
      else if state (cc s) \<noteq> cursorPointing then Some (s, Inl ErrNotFoundError)
      else if afterDelete (cc s) then getCurrent (set_afterDelete False s)
      else do {
        ds \<leftarrow> is_dupsort s;
        s \<leftarrow> (if ds \<and> \<not> dInitialized (dup (cc s)) \<and> atLast (dup (cc s)) then map_option fst (initDupStateAtLast s)
             else Some s);
        if ds \<and> dInitialized (dup (cc s)) then
          (if isSubTree (dup (cc s)) then
             do { (s, r) \<leftarrow> dupSubTreePrev s;
                  case r of Inr kv \<Rightarrow> Some (s, Inr kv) | Inl _ \<Rightarrow> move_prev_loop (clearDupState s) }
           else if subPageIdx (dup (cc s)) > 0 then
             getCurrent (on_dup (\<lambda>d. d\<lparr>subPageIdx := subPageIdx d - 1, atFirst := False, atLast := False\<rparr>) s)
           else move_prev_loop (clearDupState s))
        else move_prev_loop (clearDupState s) })"

definition nextDup :: "cst \<Rightarrow> kv_result" where
  "nextDup s =
     (if state (cc s) \<noteq> cursorPointing then Some (s, Inl ErrNotFoundError)
      else if afterDelete (cc s) then getCurrent (set_afterDelete False s)
      else if atLast (dup (cc s)) \<and> \<not> dInitialized (dup (cc s)) then Some (s, Inl ErrNotFoundError)
      else do {
        (s, r) \<leftarrow> (if dInitialized (dup (cc s)) then Some (s, Inr ([], [])) else getCurrent s);
        case r of
          Inl x \<Rightarrow> Some (s, Inl x)
        | Inr _ \<Rightarrow>
            if \<not> dInitialized (dup (cc s)) then Some (s, Inl ErrNotFoundError)
            else if isSubTree (dup (cc s)) then dupSubTreeNext s
            else
              let s = on_dup (\<lambda>d. d\<lparr>atFirst := False, atLast := False, subPageIdx := subPageIdx d + 1\<rparr>) s in
              if subPageIdx (dup (cc s)) \<ge> subPageNum (dup (cc s)) then
                Some (on_dup (\<lambda>d. d\<lparr>subPageIdx := subPageNum d - 1\<rparr>) s, Inl ErrNotFoundError)
              else getCurrentWithDup s })"

definition prevDup :: "cst \<Rightarrow> kv_result" where
  "prevDup s =
     (if state (cc s) \<noteq> cursorPointing then Some (s, Inl ErrNotFoundError)
      else if afterDelete (cc s) then getCurrent (set_afterDelete False s)
      else do {
        (s, err) \<leftarrow>
          (if dInitialized (dup (cc s)) then Some (s, None)
           else if atLast (dup (cc s)) then initDupStateAtLast s
           else map_option (\<lambda>(s, r). (s, case r of Inl x \<Rightarrow> Some x | Inr _ \<Rightarrow> None)) (getCurrent s));
        case err of
          Some x \<Rightarrow> Some (s, Inl x)
        | None \<Rightarrow>
            if \<not> dInitialized (dup (cc s)) then Some (s, Inl ErrNotFoundError)
            else if isSubTree (dup (cc s)) then dupSubTreePrev s
            else if subPageIdx (dup (cc s)) \<le> 0 then Some (s, Inl ErrNotFoundError)
            else getCurrentWithDup
              (on_dup (\<lambda>d. d\<lparr>atFirst := False, atLast := False, subPageIdx := subPageIdx d - 1\<rparr>) s) })"

section \<open>Positioning by key\<close>

definition cursor_searchPage :: "cst \<Rightarrow> page \<Rightarrow> bytes \<Rightarrow> int option" where
  "cursor_searchPage s p skey =
     (let dbi = cdbi (cc s); t = ct s in
      do { n \<leftarrow> numEntriesFast p;
           if n = 0 then Some 0
           else if dbi \<ge> length (dbiUsesDefaultCmp t) then None
           else if dbiUsesDefaultCmp t ! dbi then searchPageAsm p skey n
           else do { cmp \<leftarrow> comparator_of t dbi; searchPage False cmp p skey } })"

definition key_cmp :: "cst \<Rightarrow> bytes \<Rightarrow> bytes \<Rightarrow> int option" where
  "key_cmp s a b = compareKeys (ct s) (cdbi (cc s)) a b"

definition dup_cmp :: "cst \<Rightarrow> bytes \<Rightarrow> bytes \<Rightarrow> (cst \<times> int) option" where
  "dup_cmp s a b = do { (t, c) \<leftarrow> compareDupValues (ce s) (ct s) (cdbi (cc s)) a b; Some (s\<lparr>ct := t\<rparr>, c) }"

text \<open>What the search does at a leaf.\<close>

definition search_leaf :: "cst \<Rightarrow> page \<Rightarrow> int \<Rightarrow> bytes \<Rightarrow> bool \<Rightarrow> kv_result" where
  "search_leaf s p idx skey ge =
     do { s \<leftarrow> set_index (top_ix (cc s)) (of_int idx) s;
          n \<leftarrow> numEntriesFast p;
          if idx \<ge> n then
            (if ge then
               do { let s = set_state cursorPointing s;
                    s \<leftarrow> (if n > 0 then set_index (top_ix (cc s)) (of_int (n - 1)) s else Some s);
                    moveNext s }
             else Some (set_state cursorEOF s, Inl ErrNotFoundError))
          else do {
            k \<leftarrow> nodeGetKeyDirect p idx;
            c \<leftarrow> key_cmp s skey (mapped k);
            if c = 0 \<or> ge then getCurrent (set_state cursorPointing s)
            else Some (set_state cursorEOF s, Inl ErrNotFoundError) } }"

partial_function (option) search_loop :: "cst \<Rightarrow> page \<Rightarrow> bytes \<Rightarrow> bool \<Rightarrow> kv_result" where
  "search_loop s p skey ge =
     do { idx \<leftarrow> cursor_searchPage s p skey;
          leafp \<leftarrow> isLeafFast p;
          if leafp then search_leaf s p idx skey ge
          else do {
            s \<leftarrow> set_index (top_ix (cc s)) (of_int idx) s;
            child \<leftarrow> getChildPgno p idx;
            (s, err) \<leftarrow> pushPageByPgno s child 0;
            case err of
              Some x \<Rightarrow> Some (s, Inl x)
            | None \<Rightarrow> do { q \<leftarrow> page_at s (top_ix (cc s)); search_loop s q skey ge } } }"

definition search :: "cst \<Rightarrow> bytes \<Rightarrow> bool \<Rightarrow> kv_result" where
  "search s skey ge =
     do { let s = cursor_reset s;
          tr \<leftarrow> tree_of s;
          if isEmpty tr then Some (set_state cursorEOF s, Inl ErrNotFoundError)
          else do { (s, p) \<leftarrow> load_root s tr; search_loop s p skey ge } }"

definition set_pos :: "cst \<Rightarrow> bytes \<Rightarrow> kv_result" where "set_pos s skey = search s skey False"
definition setKey :: "cst \<Rightarrow> bytes \<Rightarrow> kv_result" where "setKey s skey = search s skey False"
definition setRange :: "cst \<Rightarrow> bytes \<Rightarrow> kv_result" where "setRange s skey = search s skey True"

end
