(* ===== verification/CursorPairs.thy ===== *)
theory CursorPairs
  imports CursorNav
begin

text \<open>
  Movements that skip duplicates, positioning by pair, bounds, counting, and the dispatch of
  Cursor.Get (cursor.go).  The fast readers take values straight from the page or the mapping and
  compute offsets in 16 bits like the code.
\<close>

section \<open>First and last value without duplicate state\<close>

text \<open>Offset of the node of entry \<open>i\<close> of the page at \<open>base\<close> of the bytes \<open>m\<close>.\<close>

definition node16 :: "bytes \<Rightarrow> int \<Rightarrow> int \<Rightarrow> int option" where
  "node16 m base i = do { off \<leftarrow> rd16 m (base + 20 + i * 2); Some (base + uint (off + 20)) }"

definition last16 :: "bytes \<Rightarrow> int \<Rightarrow> int option" where
  "last16 m base = do { lower \<leftarrow> rd16 m (base + 12); Some (drop_bit 1 (uint lower) - 1) }"

definition key16 :: "bytes \<Rightarrow> int \<Rightarrow> int \<Rightarrow> bytes option" where
  "key16 m base i =
     do { b \<leftarrow> node16 m base i; ksz \<leftarrow> rd16 m (b + 6); slice m (b + 8) (b + 8 + uint ksz) }"

definition child16 :: "bytes \<Rightarrow> int \<Rightarrow> int \<Rightarrow> pgno option" where
  "child16 m base i = do { b \<leftarrow> node16 m base i; rd32 m b }"

text \<open>\<open>which\<close> selects the entry of a page: the first or the last.\<close>

fun sub_edge_ro :: "(bytes \<Rightarrow> int \<Rightarrow> int option) \<Rightarrow> bytes \<Rightarrow> nat \<Rightarrow> nat \<Rightarrow> int \<Rightarrow> bytes option" where
  "sub_edge_ro which m ps 0 base = do { i \<leftarrow> which m base; key16 m base i }"
| "sub_edge_ro which m ps (Suc n) base =
     do { i \<leftarrow> which m base; child \<leftarrow> child16 m base i;
          if int (unat child * ps) \<ge> int (length m) then None
          else sub_edge_ro which m ps n (int (unat child * ps)) }"

fun sub_edge_rw :: "(bytes \<Rightarrow> int \<Rightarrow> int option) \<Rightarrow> nat \<Rightarrow> cst \<Rightarrow> pgno \<Rightarrow> (cst \<times> bytes) option" where
  "sub_edge_rw which 0 s pg =
     do { (s, r) \<leftarrow> fill s pg; p \<leftarrow> page_of s r; i \<leftarrow> which (Data p) 0; k \<leftarrow> key16 (Data p) 0 i; Some (s, k) }"
| "sub_edge_rw which (Suc n) s pg =
     do { (s, r) \<leftarrow> fill s pg; p \<leftarrow> page_of s r; i \<leftarrow> which (Data p) 0; child \<leftarrow> child16 (Data p) 0 i;
          sub_edge_rw which n s child }"

definition sub_edge :: "(bytes \<Rightarrow> int \<Rightarrow> int option) \<Rightarrow> cst \<Rightarrow> bytes \<Rightarrow> (cst \<times> (goerror + bytes)) option" where
  "sub_edge which s treeData =
     do { height \<leftarrow> rd16 treeData 2;
          subRoot \<leftarrow> rd32 treeData 8;
          if subRoot = invalidPgno then Some (s, Inl ErrNotFoundError)
          else if readOnly (cc s) \<and> cmmapData (cc s) \<noteq> None then
            (let m = mapped (cmmapData (cc s)); base = unat subRoot * unat (ccpageSize (cc s)) in
             if base \<ge> length m then None
             else do { v \<leftarrow> sub_edge_ro which m (unat (ccpageSize (cc s))) (unat height - 1) (int base); Some (s, Inr v) })
          else do { (s, v) \<leftarrow> sub_edge_rw which (unat height - 1) s subRoot; Some (s, Inr v) } }"

definition getFirstSubTreeValue :: "cst \<Rightarrow> bytes \<Rightarrow> (cst \<times> (goerror + bytes)) option" where
  "getFirstSubTreeValue s treeData = sub_edge (\<lambda>m base. Some 0) s treeData"

definition getLastSubTreeValue :: "cst \<Rightarrow> bytes \<Rightarrow> (cst \<times> (goerror + bytes)) option" where
  "getLastSubTreeValue s treeData = sub_edge last16 s treeData"

definition getLastSubPageValue :: "bytes \<Rightarrow> (goerror + bytes) option" where
  "getLastSubPageValue d =
     (if length d < 20 then Some (Inl ErrCorruptedError)
      else
        let dupfixKsize = uint (g16 d 8); fl = g16 d 10; lower = uint (g16 d 12); len = int (length d) in
        if fl AND pageDupfix \<noteq> 0 \<and> 0 < dupfixKsize \<and> dupfixKsize < 65535 then
          (let n = (len - pageHeaderSize) div dupfixKsize;
               start = pageHeaderSize + (n - 1) * dupfixKsize
           in if n = 0 then Some (Inl ErrNotFoundError)
              else if start + dupfixKsize \<le> len then map_option Inr (slice d start (start + dupfixKsize))
              else Some (Inl ErrCorruptedError))
        else
          let n = lower div 2; ptrPos = pageHeaderSize + (n - 1) * 2 in
          if n = 0 then Some (Inl ErrNotFoundError)
          else if ptrPos + 2 > len then Some (Inl ErrCorruptedError)
          else do {
            off \<leftarrow> rd16 d ptrPos;
            let nodePos = uint off + pageHeaderSize;
            if nodePos + nodeSize > len then Some (Inl ErrCorruptedError)
            else do {
              ksz \<leftarrow> rd16 d (nodePos + 6);
              let valueStart = nodePos + nodeSize;
              if valueStart + uint ksz \<le> len then map_option Inr (slice d valueStart (valueStart + uint ksz))
              else Some (Inl ErrCorruptedError) } })"

definition fast_value ::
    "(cst \<Rightarrow> bytes \<Rightarrow> (cst \<times> (goerror + bytes)) option) \<Rightarrow> (bytes \<Rightarrow> (goerror + bytes) option) \<Rightarrow> nat \<Rightarrow> cst \<Rightarrow> kv_result" where
  "fast_value onTree onPage minPage s =
     (if state (cc s) \<noteq> cursorPointing \<or> top_ix (cc s) < 0 then Some (s, Inl ErrNotFoundError)
      else do {
        p \<leftarrow> page_at s (top_ix (cc s));
        idx \<leftarrow> cur_index s;
        b \<leftarrow> node16 (Data p) 0 idx;
        dsz \<leftarrow> rd32 (Data p) b;
        fl \<leftarrow> rd8 (Data p) (b + 4);
        ksz \<leftarrow> rd16 (Data p) (b + 6);
        k \<leftarrow> slice (Data p) (b + 8) (b + 8 + uint ksz);
        if fl AND nodeBig \<noteq> 0 then
          do { ovPgno \<leftarrow> nodeGetOverflowPgnoDirect p idx;
               (ts, r) \<leftarrow> getLargeData (ce s) [ct s] ovPgno dsz;
               t \<leftarrow> (case ts of [] \<Rightarrow> None | t # _ \<Rightarrow> Some t);
               Some (s\<lparr>ct := t\<rparr>, Inr (k, case r of Inl _ \<Rightarrow> [] | Inr d \<Rightarrow> d)) }
        else do {
          d \<leftarrow> slice (Data p) (b + 8 + uint ksz) (b + 8 + uint ksz + uint dsz);
          ds \<leftarrow> is_dupsort s;
          if ds \<and> fl AND nodeTree \<noteq> 0 \<and> 48 \<le> length d then
            do { (s, r) \<leftarrow> onTree s d; Some (s, case r of Inl x \<Rightarrow> Inl x | Inr v \<Rightarrow> Inr (k, v)) }
          else if ds \<and> fl AND nodeDup \<noteq> 0 \<and> fl AND nodeTree = 0 \<and> minPage \<le> length d then
            do { r \<leftarrow> onPage d; Some (s, case r of Inl x \<Rightarrow> Inl x | Inr v \<Rightarrow> Inr (k, v)) }
          else Some (s, Inr (k, d)) } })"

definition getFirstValueFast :: "cst \<Rightarrow> kv_result" where
  "getFirstValueFast s = fast_value getFirstSubTreeValue getFirstSubPageValue 16 s"

definition getLastValueFast :: "cst \<Rightarrow> kv_result" where
  "getLastValueFast s = fast_value getLastSubTreeValue getLastSubPageValue 20 s"

section \<open>Movements that skip duplicates\<close>

definition descendLeftFast :: "cst \<Rightarrow> kv_result" where
  "descendLeftFast s =
     do { n \<leftarrow> levels_down s;
          (s, err) \<leftarrow> descend_left_loop n s;
          case err of Some x \<Rightarrow> Some (s, Inl x) | None \<Rightarrow> getFirstValueFast s }"

partial_function (option) descendRightFast :: "cst \<Rightarrow> kv_result" where
  "descendRightFast s =
     do { p \<leftarrow> page_at s (top_ix (cc s));
          leafp \<leftarrow> isLeafFast p;
          if leafp then getLastValueFast s
          else do { i \<leftarrow> cur_index s; child \<leftarrow> getChildPgno p i; s \<leftarrow> push_last s child; descendRightFast s } }"

partial_function (option) next_nodup_loop :: "cst \<Rightarrow> kv_result" where
  "next_nodup_loop s =
     (if top_ix (cc s) < 0 then Some (set_state cursorEOF s, Inl ErrNotFoundError)
      else do {
        (s, _) \<leftarrow> refreshPage s;
        p \<leftarrow> page_at s (top_ix (cc s));
        br \<leftarrow> isBranchFast p;
        if afterDelete (cc s) then
          (let s = set_afterDelete False s in if br then descendLeftFast s else getCurrent s)
        else do {
          i \<leftarrow> at_ix (indices (cc s)) (top_ix (cc s));
          n \<leftarrow> numEntriesFast p;
          if uint i + 1 < n then
            do { s \<leftarrow> set_index (top_ix (cc s)) (i + 1) s; if br then descendLeftFast s else getCurrent s }
          else do { (s, _) \<leftarrow> popPage s; next_nodup_loop s } } })"

definition nextNoDup :: "cst \<Rightarrow> kv_result" where
  "nextNoDup s =
     (if state (cc s) = cursorUninitialized then first s
      else if state (cc s) \<noteq> cursorPointing then Some (s, Inl ErrNotFoundError)
      else do {
        (s, _) \<leftarrow> refreshPage (clearDupState s);
        if afterDelete (cc s) then getCurrent (set_afterDelete False s) else next_nodup_loop s })"

partial_function (option) prev_nodup_loop :: "cst \<Rightarrow> kv_result" where
  "prev_nodup_loop s =
     (if top_ix (cc s) < 0 then Some (set_state cursorEOF s, Inl ErrNotFoundError)
      else do {
        (s, _) \<leftarrow> refreshPage s;
        p \<leftarrow> page_at s (top_ix (cc s));
        i \<leftarrow> at_ix (indices (cc s)) (top_ix (cc s));
        if i > 0 then
          do { s \<leftarrow> set_index (top_ix (cc s)) (i - 1) s;
               br \<leftarrow> isBranchFast p;
               ds \<leftarrow> is_dupsort s;
               if br then
                 do { (s, r) \<leftarrow> descendRightFast s;
                      case r of Inl x \<Rightarrow> Some (s, Inl x) | Inr kv \<Rightarrow> if ds then lastDup s else Some (s, Inr kv) }
               else if ds then lastDup s else getCurrent s }
        else do { (s, _) \<leftarrow> popPage s; prev_nodup_loop s } })"

definition prevNoDup :: "cst \<Rightarrow> kv_result" where
  "prevNoDup s =
     (if state (cc s) = cursorUninitialized then last_pos s
      else if state (cc s) \<noteq> cursorPointing then Some (s, Inl ErrNotFoundError)
      else do { (s, _) \<leftarrow> refreshPage (clearDupState s); prev_nodup_loop s })"

section \<open>Positioning by key and value\<close>

fun set_key_loop :: "nat \<Rightarrow> cst \<Rightarrow> bytes \<Rightarrow> (cst \<times> goerror option) option" where
  "set_key_loop 0 s skey = Some (s, None)"
| "set_key_loop (Suc n) s skey =
     do { p \<leftarrow> page_at s (top_ix (cc s));
          idx \<leftarrow> cursor_searchPage s p skey;
          s \<leftarrow> set_index (top_ix (cc s)) (of_int idx) s;
          child \<leftarrow> nodeGetChildPgnoFast p idx;
          (s, err) \<leftarrow> pushPageByPgno s child 0;
          if err \<noteq> None then Some (s, err) else set_key_loop n s skey }"

definition setNoGetCurrent :: "cst \<Rightarrow> bytes \<Rightarrow> (cst \<times> (goerror + bytes)) option" where
  "setNoGetCurrent s skey =
     do { tr \<leftarrow> tree_of s;
          if Root tr = invalidPgno then Some (set_state cursorEOF s, Inl ErrNotFoundError)
          else do {
            (s, r) \<leftarrow> fill (set_top 0 (clearDupState s)) (Root tr);
            s \<leftarrow> set_cpage 0 r s;
            (s, err) \<leftarrow> set_key_loop (unat (Height tr) - 1) (set_state cursorPointing s) skey;
            case err of
              Some x \<Rightarrow> Some (s, Inl x)
            | None \<Rightarrow>
                do { p \<leftarrow> page_at s (top_ix (cc s));
                     idx \<leftarrow> cursor_searchPage s p skey;
                     n \<leftarrow> numEntriesFast p;
                     if idx \<ge> n then Some (set_state cursorEOF s, Inl ErrNotFoundError)
                     else do {
                       s \<leftarrow> set_index (top_ix (cc s)) (of_int idx) s;
                       k \<leftarrow> nodeGetKeyFast p idx;
                       c \<leftarrow> key_cmp s k skey;
                       if c \<noteq> 0 then Some (set_state cursorEOF s, Inl ErrNotFoundError) else Some (s, Inr k) } } } }"

text \<open>
  The comparator of the duplicates, installed by the first comparison.  The searches compare at
  least once unless the page is empty.
\<close>

definition dup_comparator :: "cst \<Rightarrow> (cst \<times> cmp_fn) option" where
  "dup_comparator s =
     do { (s, _) \<leftarrow> dup_cmp s [] [];
          Some (s, \<lambda>a b. case dup_cmp s a b of None \<Rightarrow> 0 | Some (_, c) \<Rightarrow> c) }"

text \<open>In a branch of a sub-tree, a searched value that is a proper prefix of a separator counts as equal.\<close>

definition branch_dup_cmp :: "cmp_fn \<Rightarrow> bytes \<Rightarrow> bytes \<Rightarrow> int" where
  "branch_dup_cmp cmp v k =
     (let c = cmp v k in if c < 0 \<and> length v < length k \<and> v = take (length v) k then 0 else c)"

fun sub_search_loop :: "nat \<Rightarrow> cst \<Rightarrow> page \<Rightarrow> bytes \<Rightarrow> (cst \<times> page) option" where
  "sub_search_loop 0 s p v = Some (s, p)"
| "sub_search_loop (Suc l) s p v =
     do { lst \<leftarrow> last16 (Data p) 0;
          let n = lst + 1;
          (s, idx) \<leftarrow>
            (if n \<le> 1 then Some (s, 0)
             else do {
               (s, cmp) \<leftarrow> dup_comparator s;
               r \<leftarrow> bsearch (\<lambda>mid. map_option (branch_dup_cmp cmp v) (key16 (Data p) 0 mid)) 1 (n - 1);
               Some (s, case r of Inl mid \<Rightarrow> mid | Inr lo \<Rightarrow> lo - 1) });
          s \<leftarrow> set_subIndex (subTop (dup (cc s))) (of_int idx) s;
          child \<leftarrow> child16 (Data p) 0 idx;
          (s, q) \<leftarrow> sub_push s child;
          sub_search_loop l s q v }"

definition searchDupSubTreeDirect :: "cst \<Rightarrow> bytes \<Rightarrow> bytes \<Rightarrow> bytes \<Rightarrow> bool \<Rightarrow> kv_result" where
  "searchDupSubTreeDirect s k treeData v exact =
     do { root \<leftarrow> rd32 treeData 8;
          if root = 0xFFFFFFFF then Some (s, Inl ErrNotFoundError)
          else do {
            let s = on_dup (\<lambda>d. d\<lparr>isSubTree := True, subTree := parse_subTree treeData, subTop := - 1\<rparr>) (clearDupState s);
            (s, p) \<leftarrow> sub_push s root;
            (s, p) \<leftarrow> sub_search_loop (unat (Height (parse_subTree treeData)) - 1) s p v;
            lst \<leftarrow> last16 (Data p) 0;
            let n = lst + 1;
            (s, r) \<leftarrow>
              (if n \<le> 0 then Some (s, Inr 0)
               else do { (s, cmp) \<leftarrow> dup_comparator s;
                         r \<leftarrow> bsearch (\<lambda>mid. map_option (cmp v) (key16 (Data p) 0 mid)) 0 (n - 1);
                         Some (s, r) });
            let found = (\<lambda>i. do { s \<leftarrow> set_subIndex (subTop (dup (cc s))) (of_int i) s;
                                 w \<leftarrow> key16 (Data p) 0 i;
                                 Some (on_dup (\<lambda>d. d\<lparr>dInitialized := True\<rparr>) s, Inr (k, w)) });
            case r of
              Inl mid \<Rightarrow> found mid
            | Inr lo \<Rightarrow> if exact \<or> lo \<ge> n then Some (s, Inl ErrNotFoundError) else found lo } }"

text \<open>Value \<open>i\<close> of a sub-page as the direct search reads it.\<close>

definition sub_value :: "bytes \<Rightarrow> bool \<Rightarrow> int \<Rightarrow> (goerror + bytes) option" where
  "sub_value d dupfix i =
     (let len = int (length d) in
      if dupfix then
        (let ks = uint (g16 d 8); start = pageHeaderSize + i * ks in
         if ks > 0 \<and> start + ks \<le> len then map_option Inr (slice d start (start + ks))
         else Some (Inl ErrCorruptedError))
      else if pageHeaderSize + i * 2 + 2 > len then Some (Inl ErrCorruptedError)
      else do {
        off \<leftarrow> rd16 d (pageHeaderSize + i * 2);
        let nodePos = uint off + pageHeaderSize;
        if nodePos + nodeSize > len then Some (Inl ErrCorruptedError)
        else do {
          ksz \<leftarrow> rd16 d (nodePos + 6);
          let valueStart = nodePos + nodeSize;
          if valueStart + uint ksz \<le> len then map_option Inr (slice d valueStart (valueStart + uint ksz))
          else Some (Inl ErrCorruptedError) } })"

text \<open>The binary search over fallible values: an error ends it.\<close>

function bsearch_err :: "(int \<Rightarrow> (goerror + bytes) option) \<Rightarrow> (bytes \<Rightarrow> int) \<Rightarrow> int \<Rightarrow> int \<Rightarrow> (goerror + (int + int)) option" where
  "bsearch_err val cmp lo hi =
     (if lo \<le> hi then
        (case val ((lo + hi) div 2) of
           None \<Rightarrow> None
         | Some (Inl x) \<Rightarrow> Some (Inl x)
         | Some (Inr w) \<Rightarrow>
             if cmp w < 0 then bsearch_err val cmp lo ((lo + hi) div 2 - 1)
             else if cmp w > 0 then bsearch_err val cmp ((lo + hi) div 2 + 1) hi
             else Some (Inr (Inl ((lo + hi) div 2))))
      else Some (Inr (Inr lo)))"
  by auto
termination by (relation "measure (\<lambda>(_, _, lo, hi). nat (hi - lo + 1))") auto

definition initDupSubPageState :: "cst \<Rightarrow> bytes \<Rightarrow> int \<Rightarrow> bool \<Rightarrow> int \<Rightarrow> cst option" where
  "initDupSubPageState s d n dupfix idx =
     do { ps \<leftarrow> (if dupfix then Some [] else read_positions d [0..<nat n]);
          Some (on_dup (\<lambda>x. x\<lparr>dInitialized := True, isSubTree := False, subPageData := d, subPageIdx := idx, subPageNum := n,
            dupfixSize := (if dupfix then uint (g16 d 8) else 0), nodePositions := ps\<rparr>) s) }"

definition searchDupSubPageDirect :: "cst \<Rightarrow> bytes \<Rightarrow> bytes \<Rightarrow> bytes \<Rightarrow> bool \<Rightarrow> kv_result" where
  "searchDupSubPageDirect s k d v exact =
     (if length d < 20 then Some (s, Inl ErrCorruptedError)
      else
        let dupfix = (g16 d 10 AND pageDupfix \<noteq> 0); n = drop_bit 1 (uint (g16 d 12)) in
        if n = 0 then Some (s, Inl ErrNotFoundError)
        else do {
          (s, cmp) \<leftarrow> dup_comparator s;
          r \<leftarrow> bsearch_err (sub_value d dupfix) (cmp v) 0 (n - 1);
          let found = (\<lambda>i. do { w \<leftarrow> sub_value d dupfix i;
                               case w of
                                 Inl x \<Rightarrow> Some (s, Inl x)
                               | Inr w \<Rightarrow> do { s \<leftarrow> initDupSubPageState s d n dupfix i; Some (s, Inr (k, w)) } });
          case r of
            Inl x \<Rightarrow> Some (s, Inl x)
          | Inr (Inl mid) \<Rightarrow> found mid
          | Inr (Inr lo) \<Rightarrow> if exact \<or> lo \<ge> n then Some (s, Inl ErrNotFoundError) else found lo })"

definition searchDupValueDirect :: "cst \<Rightarrow> bytes \<Rightarrow> bytes \<Rightarrow> bool \<Rightarrow> kv_result" where
  "searchDupValueDirect s k v exact =
     do { p \<leftarrow> page_at s (top_ix (cc s));
          idx \<leftarrow> cur_index s;
          fl \<leftarrow> nodeGetFlagsFast p idx;
          d \<leftarrow> nodeGetDataFast p idx;
          if fl AND nodeTree \<noteq> 0 \<and> 48 \<le> length d then searchDupSubTreeDirect s k d v exact
          else if fl AND nodeDup \<noteq> 0 \<and> 16 \<le> length d then searchDupSubPageDirect s k d v exact
          else do {
            (s, c) \<leftarrow> dup_cmp s d v;
            if (if exact then c = 0 else c \<ge> 0) then Some (s, Inr (k, d)) else Some (s, Inl ErrNotFoundError) } }"

definition getBoth :: "cst \<Rightarrow> bytes \<Rightarrow> bytes \<Rightarrow> kv_result" where
  "getBoth s skey v =
     do { (s, r) \<leftarrow> setNoGetCurrent s skey;
          case r of
            Inl x \<Rightarrow> Some (s, Inl x)
          | Inr k \<Rightarrow>
              do { ds \<leftarrow> is_dupsort s;
                   if ds then searchDupValueDirect s k v True
                   else do {
                     p \<leftarrow> page_at s (top_ix (cc s));
                     idx \<leftarrow> cur_index s;
                     d \<leftarrow> nodeGetDataFast p idx;
                     (s, c) \<leftarrow> dup_cmp s d v;
                     if c = 0 then Some (s, Inr (k, d)) else Some (s, Inl ErrNotFoundError) } } }"

definition getBothRange :: "cst \<Rightarrow> bytes \<Rightarrow> bytes \<Rightarrow> kv_result" where
  "getBothRange s skey v =
     do { (s, r) \<leftarrow> setNoGetCurrent s skey;
          case r of
            Inl x \<Rightarrow> Some (s, Inl x)
          | Inr k \<Rightarrow>
              do { ds \<leftarrow> is_dupsort s;
                   if ds then searchDupValueDirect s k v False
                   else do {
                     p \<leftarrow> page_at s (top_ix (cc s));
                     idx \<leftarrow> cur_index s;
                     d \<leftarrow> nodeGetDataFast p idx;
                     Some (s, Inr (k, d)) } } }"

section \<open>Bounds\<close>

text \<open>The walk through the duplicates; \<open>stop\<close> looks at the comparison with the searched value.\<close>

partial_function (option) bound_loop :: "(int \<Rightarrow> bool) \<Rightarrow> cst \<Rightarrow> bytes \<Rightarrow> kv \<Rightarrow> kv_result" where
  "bound_loop stop s v kv =
     do { (s, c) \<leftarrow> dup_cmp s (snd kv) v;
          if stop c then Some (s, Inr kv)
          else do {
            (s, r) \<leftarrow> nextDup s;
            case r of
              Inr kv' \<Rightarrow> bound_loop stop s v kv'
            | Inl x \<Rightarrow> if IsNotFound (Some x) then moveNext s else Some (s, Inl x) } }"

text \<open>\<open>None\<close> stands for the nil value.\<close>

definition setLowerbound :: "cst \<Rightarrow> bytes \<Rightarrow> bytes option \<Rightarrow> kv_result" where
  "setLowerbound s skey v =
     do { (s, r) \<leftarrow> setRange s skey;
          case r of
            Inl x \<Rightarrow> Some (s, Inl x)
          | Inr kv \<Rightarrow>
              do { ds \<leftarrow> is_dupsort s;
                   if \<not> ds then Some (s, Inr kv)
                   else do {
                     c \<leftarrow> key_cmp s (fst kv) skey;
                     if c > 0 then Some (s, Inr kv)
                     else case v of None \<Rightarrow> Some (s, Inr kv) | Some v \<Rightarrow> bound_loop (\<lambda>c. c \<ge> 0) s v kv } } }"

definition setUpperbound :: "cst \<Rightarrow> bytes \<Rightarrow> bytes option \<Rightarrow> kv_result" where
  "setUpperbound s skey v =
     do { (s, r) \<leftarrow> setRange s skey;
          case r of
            Inl x \<Rightarrow> Some (s, Inl x)
          | Inr kv \<Rightarrow>
              do { ds \<leftarrow> is_dupsort s;
                   c \<leftarrow> key_cmp s (fst kv) skey;
                   if c > 0 then Some (s, Inr kv)
                   else if \<not> ds then moveNext s
                   else case v of None \<Rightarrow> nextNoDup s | Some v \<Rightarrow> bound_loop (\<lambda>c. c > 0) s v kv } }"

section \<open>Counting and position tests\<close>

definition countDuplicates :: "cst \<Rightarrow> (goerror + u64) option" where
  "countDuplicates s =
     (if state (cc s) \<noteq> cursorPointing then Some (Inl ErrNotFoundError)
      else if dInitialized (dup (cc s)) then
        Some (Inr (if isSubTree (dup (cc s)) then Items (subTree (dup (cc s))) else of_int (subPageNum (dup (cc s)))))
      else do {
        p \<leftarrow> page_at s (top_ix (cc s));
        idx \<leftarrow> cur_index s;
        b \<leftarrow> node16 (Data p) 0 idx;
        dsz \<leftarrow> rd32 (Data p) b;
        fl \<leftarrow> rd8 (Data p) (b + 4);
        ksz \<leftarrow> rd16 (Data p) (b + 6);
        if fl AND nodeTree \<noteq> 0 then
          (if dsz < 48 then Some (Inr 1) else map_option Inr (rd64 (Data p) (b + 8 + uint ksz + 32)))
        else if fl AND nodeDup \<noteq> 0 then
          (if dsz < 20 then Some (Inr 1)
           else map_option (\<lambda>lower. Inr (ucast (drop_bit 1 lower))) (rd16 (Data p) (b + 8 + uint ksz + 12)))
        else Some (Inr 1) })"

definition Count :: "cst \<Rightarrow> (goerror + u64) option" where
  "Count s =
     (if state (cc s) \<noteq> cursorPointing then Some (Inl ErrNotFoundError)
      else do { ds \<leftarrow> is_dupsort s; if \<not> ds then Some (Inr 1) else countDuplicates s })"

definition isFirst :: "cst \<Rightarrow> bool option" where
  "isFirst s = map_option (\<lambda>i. i = 0) (at_ix (indices (cc s)) (top_ix (cc s)))"

definition isLast :: "cst \<Rightarrow> bool option" where
  "isLast s = do { p \<leftarrow> page_at s (top_ix (cc s)); i \<leftarrow> cur_index s; n \<leftarrow> numEntriesFast p; Some (i = n - 1) }"

definition EOF_pos :: "cst \<Rightarrow> bool" where "EOF_pos s \<longleftrightarrow> state (cc s) = cursorEOF"
definition OnFirst :: "cst \<Rightarrow> bool option" where
  "OnFirst s = (if state (cc s) \<noteq> cursorPointing then Some False else isFirst s)"
definition OnLast :: "cst \<Rightarrow> bool option" where
  "OnLast s = (if state (cc s) \<noteq> cursorPointing then Some False else isLast s)"

section \<open>Cursor.Get\<close>

datatype cursorOp = OpFirst | OpFirstDup | OpGetBoth | OpGetBothRange | OpGetCurrent | OpGetMultiple | OpLast | OpLastDup
  | OpNext | OpNextDup | OpNextMultiple | OpNextNoDup | OpPrev | OpPrevDup | OpPrevNoDup | OpSet | OpSetKey | OpSetRange
  | OpPrevMultiple | OpSetLowerbound | OpSetUpperbound | OpLesserThan

definition cursor_Get :: "cst \<Rightarrow> bytes \<Rightarrow> bytes option \<Rightarrow> cursorOp \<Rightarrow> kv_result" where
  "cursor_Get s k v op =
     (case op of
        OpFirst \<Rightarrow> first s | OpLast \<Rightarrow> last_pos s | OpNext \<Rightarrow> moveNext s | OpPrev \<Rightarrow> movePrev s
      | OpGetCurrent \<Rightarrow> getCurrent s | OpSet \<Rightarrow> set_pos s k | OpSetKey \<Rightarrow> setKey s k | OpSetRange \<Rightarrow> setRange s k
      | OpFirstDup \<Rightarrow> firstDup s | OpLastDup \<Rightarrow> lastDup s | OpNextDup \<Rightarrow> nextDup s | OpPrevDup \<Rightarrow> prevDup s
      | OpNextNoDup \<Rightarrow> nextNoDup s | OpPrevNoDup \<Rightarrow> prevNoDup s
      | OpGetBoth \<Rightarrow> getBoth s k (mapped v) | OpGetBothRange \<Rightarrow> getBothRange s k (mapped v)
      | OpSetLowerbound \<Rightarrow> setLowerbound s k v | OpSetUpperbound \<Rightarrow> setUpperbound s k v
      | _ \<Rightarrow> Some (s, Inl (NewError ErrInvalid)))"

end
