(* ===== verification/TreePath.thy ===== *)
theory TreePath
  imports TreeRead
begin

text \<open>
  Paths in a tree of pages, as a cursor keeps them on its stack: the pages from the root on with an
  index in each.  A path cuts the leaf nodes of the tree in two, and taking a level off or putting the
  leftmost path of a subtree on moves the cut in a known way.  A tree keeps its leaf nodes when pages
  outside of it change, and when the pages of a path are replaced by copies under new numbers.
\<close>

section \<open>Pages and stacks\<close>

lemma take_snoc_update: "n < length xs \<Longrightarrow> take (Suc n) (xs[n := v]) = take n xs @ [v]"
  by (simp add: take_Suc_conv_app_nth)

lemma page_eta [simp]: "\<lparr>Data = Data p\<rparr> = p" for p :: page by (cases p) simp

lemma page_small: "page_ok p \<Longrightarrow> nents p < 32768"
proof -
  assume "page_ok p"
  then have "low p \<le> upp p" "upp p + 20 \<le> length (Data p)" "length (Data p) < 65536" by (simp_all add: page_ok_def)
  then show ?thesis by (simp add: nents_def)
qed

section \<open>Children\<close>

definition kids :: "page \<Rightarrow> pgno list" where "kids p = map nd_dsize (entries p)"

lemma length_kids [simp]: "length (kids p) = nents p" by (simp add: kids_def)

lemma nth_kids: "i < nents p \<Longrightarrow> kids p ! i = nd_dsize (node_at p i)" by (simp add: kids_def)

lemma leaf_nodes_kids:
  "leaf_nodes rd (Suc h) pg = (case rd pg of None \<Rightarrow> [] | Some p \<Rightarrow> concat (map (leaf_nodes rd h) (kids p)))"
  by (auto simp: kids_def comp_def split: option.splits)

text \<open>Every page of the tree is well-formed, of the right kind and not empty.\<close>

fun shape_ok :: "(pgno \<Rightarrow> page option) \<Rightarrow> nat \<Rightarrow> pgno \<Rightarrow> bool" where
  "shape_ok rd 0 pg = (case rd pg of None \<Rightarrow> False | Some p \<Rightarrow> page_ok p \<and> \<not> brp p \<and> lfp p \<and> 0 < nents p)"
| "shape_ok rd (Suc h) pg =
     (case rd pg of None \<Rightarrow> False
      | Some p \<Rightarrow> page_ok p \<and> brp p \<and> \<not> lfp p \<and> 0 < nents p \<and> (\<forall>c \<in> set (kids p). shape_ok rd h c))"

lemma shape_okD:
  assumes "shape_ok rd h pg"
  shows "\<exists>p. rd pg = Some p \<and> page_ok p \<and> 0 < nents p \<and> (brp p \<longleftrightarrow> 0 < h) \<and> (lfp p \<longleftrightarrow> h = 0) \<and>
    (\<forall>i h'. h = Suc h' \<longrightarrow> i < nents p \<longrightarrow> shape_ok rd h' (kids p ! i))"
proof (cases h)
  case 0
  with assms show ?thesis by (auto split: option.splits)
next
  case (Suc h')
  with assms obtain p where p: "rd pg = Some p" "page_ok p" "brp p" "\<not> lfp p" "0 < nents p"
    "\<forall>c \<in> set (kids p). shape_ok rd h' c" by (auto split: option.splits)
  moreover have "shape_ok rd h' (kids p ! i)" if "i < nents p" for i using p(6) that nth_mem [of i "kids p"] by simp
  ultimately show ?thesis using Suc by auto
qed

lemma shape_ok_page:
  assumes "shape_ok rd h pg" "rd pg = Some p"
  shows "page_ok p" "0 < nents p" "brp p \<longleftrightarrow> 0 < h" "lfp p \<longleftrightarrow> h = 0"
    "\<And>i h'. h = Suc h' \<Longrightarrow> i < nents p \<Longrightarrow> shape_ok rd h' (kids p ! i)"
  using shape_okD [OF assms(1)] assms(2) by auto

lemma leaf_nodes_nonempty: "shape_ok rd h pg \<Longrightarrow> leaf_nodes rd h pg \<noteq> []"
proof (induction h arbitrary: pg)
  case 0
  then obtain p where "rd pg = Some p" "0 < nents p" using shape_okD [OF 0] by auto
  then show ?case by (auto simp flip: length_0_conv)
next
  case (Suc h)
  then obtain p where p: "rd pg = Some p" "0 < nents p" "shape_ok rd h (kids p ! 0)" using shape_okD [OF Suc.prems] by auto
  then have "kids p ! 0 \<in> set (kids p)" by (intro nth_mem) simp
  then show ?case using Suc.IH [OF p(3)] p(1) by (auto simp: leaf_nodes_kids simp del: leaf_nodes.simps)
qed

section \<open>Paths\<close>

type_synonym tpath = "(page \<times> nat) list"

fun path :: "(pgno \<Rightarrow> page option) \<Rightarrow> nat \<Rightarrow> pgno \<Rightarrow> tpath \<Rightarrow> bool" where
  "path rd h pg [] = True"
| "path rd h pg ((p, i) # st) =
     (rd pg = Some p \<and> i \<le> nents p \<and> (case h of 0 \<Rightarrow> st = [] | Suc h' \<Rightarrow> i < nents p \<and> path rd h' (kids p ! i) st))"

text \<open>The leaf nodes before and behind the cut; at the end of a full path the indexed node is behind it.\<close>

fun before :: "(pgno \<Rightarrow> page option) \<Rightarrow> nat \<Rightarrow> tpath \<Rightarrow> bytes list" where
  "before rd h [] = []"
| "before rd h ((p, i) # st) =
     (case h of 0 \<Rightarrow> take i (entries p) | Suc h' \<Rightarrow> concat (map (leaf_nodes rd h') (take i (kids p))) @ before rd h' st)"

fun behind :: "(pgno \<Rightarrow> page option) \<Rightarrow> nat \<Rightarrow> tpath \<Rightarrow> bytes list" where
  "behind rd h [] = []"
| "behind rd h ((p, i) # st) =
     (case h of 0 \<Rightarrow> drop i (entries p)
      | Suc h' \<Rightarrow> behind rd h' st @ concat (map (leaf_nodes rd h') (drop (Suc i) (kids p))))"

lemma path_length: "path rd h pg st \<Longrightarrow> length st \<le> Suc h"
proof (induction st arbitrary: h pg)
  case (Cons a st)
  then show ?case by (cases a; cases h) auto
qed simp

lemma concat_split:
  "i < length xs \<Longrightarrow> concat (map f xs) = concat (map f (take i xs)) @ f (xs ! i) @ concat (map f (drop (Suc i) xs))"
  by (metis (no_types, lifting) concat.simps(2) concat_append id_take_nth_drop list.simps(9) map_append)

lemma path_cut:
  "path rd h pg st \<Longrightarrow> length st = Suc h \<Longrightarrow> leaf_nodes rd h pg = before rd h st @ behind rd h st"
proof (induction st arbitrary: h pg)
  case (Cons a st)
  obtain p i where a: "a = (p, i)" by (cases a)
  show ?case
  proof (cases h)
    case 0
    with Cons.prems show ?thesis by (simp add: a)
  next
    case (Suc h')
    with Cons.prems have p: "rd pg = Some p" "i < nents p" "path rd h' (kids p ! i) st" "length st = Suc h'" by (auto simp: a)
    from Cons.IH [OF p(3,4)] show ?thesis
      using concat_split [of i "kids p" "leaf_nodes rd h'"] p
      by (simp add: a Suc leaf_nodes_kids del: leaf_nodes.simps)
  qed
qed simp

text \<open>The last level of a path.\<close>

lemma path_snoc:
  assumes "shape_ok rd h pg" "path rd h pg (st @ [(p, i)])"
  shows "length st \<le> h \<and> path rd h pg st \<and> i \<le> nents p \<and> page_ok p \<and> 0 < nents p \<and> (brp p \<longleftrightarrow> length st < h) \<and>
    (lfp p \<longleftrightarrow> length st = h) \<and> (length st < h \<longrightarrow> i < nents p) \<and>
    (\<forall>j \<le> nents p. (length st < h \<longrightarrow> j < nents p) \<longrightarrow> path rd h pg (st @ [(p, j)])) \<and>
    (\<forall>j < nents p. length st < h \<longrightarrow> shape_ok rd (h - Suc (length st)) (kids p ! j))"
  using assms
proof (induction st arbitrary: h pg)
  case Nil
  then have rd: "rd pg = Some p" by simp
  note s = shape_ok_page [OF Nil.prems(1) rd]
  show ?case
  proof (cases h)
    case 0
    with s Nil.prems(2) show ?thesis by auto
  next
    case (Suc h')
    with s Nil.prems(2) show ?thesis by auto
  qed
next
  case (Cons a st)
  obtain q j where a: "a = (q, j)" by (cases a)
  from Cons.prems(2) obtain h' where h: "h = Suc h'" by (cases h) (auto simp: a)
  from Cons.prems have q: "rd pg = Some q" "j < nents q" "path rd h' (kids q ! j) (st @ [(p, i)])"
    by (simp_all add: a h)
  have "shape_ok rd h' (kids q ! j)" by (rule shape_ok_page(5) [OF Cons.prems(1) q(1) h q(2)])
  from Cons.IH [OF this q(3)] q show ?case by (simp add: a h)
qed

lemma behind_snoc:
  "path rd h pg (st @ [(p, i)]) \<Longrightarrow> behind rd h (st @ [(p, i)]) =
     (if length st = h then drop i (entries p)
      else concat (map (leaf_nodes rd (h - Suc (length st))) (drop (Suc i) (kids p)))) @ behind rd h st"
proof (induction st arbitrary: h pg)
  case Nil
  then show ?case by (cases h) auto
next
  case (Cons a st)
  obtain q j where a: "a = (q, j)" by (cases a)
  from Cons.prems obtain h' where h: "h = Suc h'" by (cases h) (auto simp: a)
  from Cons.prems have "path rd h' (kids q ! j) (st @ [(p, i)])" by (simp add: a h)
  from Cons.IH [OF this] show ?case by (simp add: a h)
qed

text \<open>A path below the last page of a path.\<close>

lemma path_append:
  "path rd h pg (st @ [(p, i)]) \<Longrightarrow> length st < h \<Longrightarrow> path rd (h - Suc (length st)) (kids p ! i) st' \<Longrightarrow>
     path rd h pg (st @ (p, i) # st') \<and>
     behind rd h (st @ (p, i) # st') = behind rd (h - Suc (length st)) st' @ behind rd h (st @ [(p, i)])"
proof (induction st arbitrary: h pg)
  case Nil
  then show ?case by (cases h) auto
next
  case (Cons a st)
  obtain q j where a: "a = (q, j)" by (cases a)
  from Cons.prems(2) obtain h' where h: "h = Suc h'" by (cases h) auto
  from Cons.prems have "path rd h' (kids q ! j) (st @ [(p, i)])" "length st < h'" by (simp_all add: a h)
  from Cons.IH [OF this] Cons.prems show ?case by (simp add: a h)
qed

text \<open>The leftmost path below a page.\<close>

fun leftmost :: "(pgno \<Rightarrow> page option) \<Rightarrow> nat \<Rightarrow> pgno \<Rightarrow> tpath" where
  "leftmost rd 0 pg = [(the (rd pg), 0)]"
| "leftmost rd (Suc h) pg = (the (rd pg), 0) # leftmost rd h (kids (the (rd pg)) ! 0)"

lemma length_leftmost [simp]: "length (leftmost rd h pg) = Suc h"
  by (induction h arbitrary: pg) auto

lemma leftmost_ok: "shape_ok rd h pg \<Longrightarrow> path rd h pg (leftmost rd h pg) \<and> behind rd h (leftmost rd h pg) = leaf_nodes rd h pg"
proof (induction h arbitrary: pg)
  case 0
  then obtain p where "rd pg = Some p" using shape_okD [OF 0] by auto
  then show ?case by simp
next
  case (Suc h)
  then obtain p where p: "rd pg = Some p" "0 < nents p" "shape_ok rd h (kids p ! 0)" using shape_okD [OF Suc.prems] by auto
  show ?case
    using Suc.IH [OF p(3)] p(1,2) concat_split [of 0 "kids p" "leaf_nodes rd h"]
    by (simp add: leaf_nodes_kids del: leaf_nodes.simps)
qed

lemma leftmost_last: "shape_ok rd h pg \<Longrightarrow> snd (last (leftmost rd h pg)) < nents (fst (last (leftmost rd h pg)))"
proof (induction h arbitrary: pg)
  case 0
  then show ?case using shape_okD [OF 0] by auto
next
  case (Suc h)
  then obtain p where p: "rd pg = Some p" "shape_ok rd h (kids p ! 0)" using shape_okD [OF Suc.prems] by auto
  moreover have "leftmost rd h (kids p ! 0) \<noteq> []" by (metis length_leftmost length_0_conv nat.distinct(1))
  ultimately show ?case using Suc.IH [OF p(2)] by simp
qed

end
