(* ===== verification/CursorIter.thy ===== *)
theory CursorIter
  imports CursorPairs TreePath
begin

text \<open>
  Iteration with a cursor of a read-only transaction over a table without duplicates: first and next
  visit the leaf nodes of the tree from left to right, and then next reports not-found and stays.
\<close>

section \<open>The cursor and its path\<close>

definition cur_rd :: "cst \<Rightarrow> pgno \<Rightarrow> page option" where
  "cur_rd s = rd_map (mapped (cmmapData (cc s))) (unat (ccpageSize (cc s)))"

definition ro_cursor :: "cst \<Rightarrow> bool" where
  "ro_cursor s \<longleftrightarrow> readOnly (cc s) \<and> cmmapData (cc s) \<noteq> None \<and> IsReadOnly (ct s) \<and> mmapData (ct s) = cmmapData (cc s) \<and>
     txnPageSize (ct s) = ccpageSize (cc s) \<and> \<not> cDupSort (cc s) \<and> cdbi (cc s) < length (trees (ct s)) \<and>
     tFlags (trees (ct s) ! cdbi (cc s)) AND ucast DupSort = 0 \<and>
     length (cpages (cc s)) = 32 \<and> length (indices (cc s)) = 32 \<and> length (stackDirty (cc s)) = 32 \<and> length (numExpected (cc s)) = 32"

definition on_stack :: "cst \<Rightarrow> tpath \<Rightarrow> bool" where
  "on_stack s st \<longleftrightarrow> top_ix (cc s) = int (length st) - 1 \<and> length st \<le> 32 \<and>
     take (length st) (cpages (cc s)) = map (\<lambda>(p, i). Buf (Data p)) st \<and>
     take (length st) (indices (cc s)) = map (\<lambda>(p, i). of_nat i) st"

text \<open>What the movements leave alone.\<close>

definition cur_frame :: "cst \<Rightarrow> cst \<Rightarrow> bool" where
  "cur_frame s s' \<longleftrightarrow> ce s' = ce s \<and> ct s' = ct s \<and> ro_cursor s' \<and> cmmapData (cc s') = cmmapData (cc s) \<and>
     ccpageSize (cc s') = ccpageSize (cc s) \<and> cdbi (cc s') = cdbi (cc s)"

lemma cur_frame_refl: "ro_cursor s \<Longrightarrow> cur_frame s s" by (simp add: cur_frame_def)

lemma cur_frame_trans: "cur_frame s s' \<Longrightarrow> cur_frame s' s'' \<Longrightarrow> cur_frame s s''" by (simp add: cur_frame_def)

lemma cur_frame_rd: "cur_frame s s' \<Longrightarrow> cur_rd s' = cur_rd s" by (simp add: cur_frame_def cur_rd_def)

lemma on_stack_nth:
  assumes "on_stack s st" "l < length st"
  shows "cpages (cc s) ! l = Buf (Data (fst (st ! l)))" "indices (cc s) ! l = of_nat (snd (st ! l))"
proof -
  have "take (length st) (cpages (cc s)) ! l = map (\<lambda>(p, i). Buf (Data p)) st ! l"
    "take (length st) (indices (cc s)) ! l = map (\<lambda>(p, i). of_nat i) st ! l" using assms(1) by (simp_all add: on_stack_def)
  then show "cpages (cc s) ! l = Buf (Data (fst (st ! l)))" "indices (cc s) ! l = of_nat (snd (st ! l))"
    using assms(2) by (simp_all add: case_prod_beta)
qed

lemma on_stack_top:
  assumes "on_stack s (st @ [(p, i)])" "ro_cursor s"
  shows "top_ix (cc s) = int (length st)" "page_at s (int (length st)) = Some p"
    "at_ix (indices (cc s)) (int (length st)) = Some (of_nat i)"
  using on_stack_nth [OF assms(1), of "length st"] assms
  by (simp_all add: on_stack_def ro_cursor_def page_at_def at_ix_def page_of_def pref_page_def)

lemma on_stack_pop: "on_stack s (st @ [x]) \<Longrightarrow> on_stack (set_top (int (length st) - 1) s) st"
proof -
  have t: "take n xs = ys" if "take (Suc n) xs = ys @ [y]" "length ys = n" for n and xs ys :: "'b list" and y
    using arg_cong [OF that(1), of "take n"] that(2) by simp
  assume a: "on_stack s (st @ [x])"
  have "take (length st) (cpages (cc s)) = map (\<lambda>(p, i). Buf (Data p)) st"
    by (rule t [of _ _ _ "case x of (p, i) \<Rightarrow> Buf (Data p)"]) (use a in \<open>simp_all add: on_stack_def\<close>)
  moreover have "take (length st) (indices (cc s)) = map (\<lambda>(p, i). of_nat i) st"
    by (rule t [of _ _ _ "case x of (p, i) \<Rightarrow> of_nat i"]) (use a in \<open>simp_all add: on_stack_def\<close>)
  ultimately show ?thesis using a by (simp add: on_stack_def set_top_def)
qed

lemma push_ro:
  assumes "ro_cursor s" "on_stack s st" "length st < 32" "cur_rd s pg = Some p" "page_ok p"
  shows "\<exists>s'. pushPageByPgno s pg 0 = Some (s', None) \<and> on_stack s' (st @ [(p, 0)]) \<and> cur_frame s s' \<and>
    state (cc s') = state (cc s) \<and> afterDelete (cc s') = afterDelete (cc s) \<and> dup (cc s') = dup (cc s)"
proof -
  have n: "length st < 32" "length (cpages (cc s)) = 32" "length (indices (cc s)) = 32" "length (stackDirty (cc s)) = 32"
    "length (numExpected (cc s)) = 32" "top_ix (cc s) + 1 = int (length st)" "\<not> top_ix (cc s) \<ge> int CursorStackSize - 1"
    using assms(1-3) by (simp_all add: ro_cursor_def on_stack_def CursorStackSize_def)
  have "slice (mapped (cmmapData (cc s))) (int (unat pg * unat (ccpageSize (cc s))))
      (int (unat pg * unat (ccpageSize (cc s)) + unat (ccpageSize (cc s)))) = Some (Data p)"
    using assms(4) by (auto simp: cur_rd_def rd_map_def)
  moreover have "num16 p = Some (of_nat (nents p))" using assms(5) by (simp add: num16_def numEntriesFast_eq page_ok_def)
  ultimately show ?thesis
    using n assms(1,2)
    by (simp add: pushPageByPgno_def set_stackDirty_def clear_level_def set_top_def ro_cursor_def set_cpage_def
        set_index_def set_expected_def upd_ix_def page_of_def pref_page_def on_stack_def cur_frame_def take_snoc_update
        IsReadOnly_def Let_def)
qed

text \<open>Down to the leftmost leaf, by the height of the tree or by the type of the pages.\<close>

lemma descend_left_ro:
  "ro_cursor s \<Longrightarrow> on_stack s (st @ [(p, i)]) \<Longrightarrow> page_ok p \<Longrightarrow> i < nents p \<Longrightarrow> Suc (length st) + Suc m \<le> 32 \<Longrightarrow>
     shape_ok (cur_rd s) m (kids p ! i) \<Longrightarrow>
   \<exists>s'. descend_left_loop (Suc m) s = Some (s', None) \<and> on_stack s' (st @ (p, i) # leftmost (cur_rd s) m (kids p ! i)) \<and>
     cur_frame s s' \<and> state (cc s') = state (cc s) \<and> afterDelete (cc s') = afterDelete (cc s) \<and> dup (cc s') = dup (cc s)"
proof (induction m arbitrary: s st p i)
  case (0 s st p i)
  have nth: "nodeGetChildPgnoUnchecked (Data p) (int i) = Some (kids p ! i)"
    using child_accessors(3) [OF 0(3,4)] by (simp add: nth_kids 0(4))
  have i: "uint (of_nat i :: u16) = int i" using page_small [OF 0(3)] 0(4) by (simp add: uint_nat unat_of_nat)
  obtain q where q: "cur_rd s (kids p ! i) = Some q" "page_ok q" using shape_okD [OF 0(6)] by auto
  from push_ro [OF 0(1,2) _ q] 0(5) show ?case
    using on_stack_top [OF 0(2,1)] nth i q by (auto simp: cur_index_def)
next
  case (Suc m s st p i)
  have nth: "nodeGetChildPgnoUnchecked (Data p) (int i) = Some (kids p ! i)"
    using child_accessors(3) [OF Suc.prems(3,4)] by (simp add: nth_kids Suc.prems(4))
  have i: "uint (of_nat i :: u16) = int i" using page_small [OF Suc.prems(3)] Suc.prems(4) by (simp add: uint_nat unat_of_nat)
  obtain q where q: "cur_rd s (kids p ! i) = Some q" "page_ok q" "0 < nents q" "shape_ok (cur_rd s) m (kids q ! 0)"
    using shape_okD [OF Suc.prems(6)] by auto
  from push_ro [OF Suc.prems(1,2) _ q(1,2)] Suc.prems(5) obtain s1 where s1:
    "pushPageByPgno s (kids p ! i) 0 = Some (s1, None)" "on_stack s1 ((st @ [(p, i)]) @ [(q, 0)])" "cur_frame s s1"
    "state (cc s1) = state (cc s)" "afterDelete (cc s1) = afterDelete (cc s)" "dup (cc s1) = dup (cc s)" by auto
  have rd: "cur_rd s1 = cur_rd s" by (rule cur_frame_rd [OF s1(3)])
  have "ro_cursor s1" using s1(3) by (simp add: cur_frame_def)
  from Suc.IH [OF this s1(2) q(2,3)] Suc.prems(5) q(4) obtain s2 where s2: "descend_left_loop (Suc m) s1 = Some (s2, None)"
    "on_stack s2 ((st @ [(p, i)]) @ (q, 0) # leftmost (cur_rd s) m (kids q ! 0))" "cur_frame s1 s2"
    "state (cc s2) = state (cc s1)" "afterDelete (cc s2) = afterDelete (cc s1)" "dup (cc s2) = dup (cc s1)" by (auto simp: rd)
  have "descend_left_loop (Suc (Suc m)) s = Some (s2, None)"
    using on_stack_top [OF Suc.prems(2,1)] nth i s1(1) s2(1) by (simp add: cur_index_def)
  then show ?case using s1 s2 cur_frame_trans [OF s1(3) s2(3)] q(1) by auto
qed

section \<open>The current pair\<close>

text \<open>The pair of a leaf node: its data, or the large value it refers to.\<close>

definition pair_of :: "env \<Rightarrow> txn \<Rightarrow> bytes \<Rightarrow> kv" where
  "pair_of e t nd = (nd_key nd,
     if nd_big nd then (case getLargeData e [t] (nd_ovpg nd) (nd_dsize nd) of Some (_, Inr d) \<Rightarrow> d | _ \<Rightarrow> []) else nd_data nd)"

text \<open>Large values can be read without touching the transaction, as they can inside the mapping.\<close>

definition big_ok :: "env \<Rightarrow> txn \<Rightarrow> bytes \<Rightarrow> bool" where
  "big_ok e t nd \<longleftrightarrow> (nd_big nd \<longrightarrow> (\<exists>d. getLargeData e [t] (nd_ovpg nd) (nd_dsize nd) = Some ([t], Inr d)))"

text \<open>A position: a full path on the stack, with an entry at its end.\<close>

definition cur_at :: "cst \<Rightarrow> nat \<Rightarrow> pgno \<Rightarrow> tpath \<Rightarrow> bool" where
  "cur_at s h pg st \<longleftrightarrow> ro_cursor s \<and> on_stack s st \<and> path (cur_rd s) h pg st \<and> length st = Suc h \<and>
     behind (cur_rd s) h st \<noteq> [] \<and> snd (last st) < nents (fst (last st)) \<and> state (cc s) = cursorPointing \<and> \<not> afterDelete (cc s)"

lemma refreshPage_ro: "ro_cursor s \<Longrightarrow> refreshPage s = Some (s, False)"
  by (simp add: refreshPage_def ro_cursor_def)

lemma getCurrent_ro:
  assumes s: "ro_cursor s" "on_stack s (st @ [(p, i)])" "state (cc s) = cursorPointing"
    and p: "page_ok p" "\<not> brp p" "i < nents p" and big: "big_ok (ce s) (ct s) (entries p ! i)"
  shows "getCurrent s = Some (s, Inr (pair_of (ce s) (ct s) (entries p ! i)))"
proof -
  note top = on_stack_top [OF s(2,1)]
  have i: "uint (of_nat i :: u16) = int i" using page_small [OF p(1)] p(3) by (simp add: uint_nat unat_of_nat)
  have nd: "entries p ! i = node_at p i" using p(3) by simp
  note k = key_accessors(1) [OF p(1,3)] and fl = flag_accessors(1) [OF p(1,3)]
  have n: "numEntriesFast p = Some (int (nents p))" using p(1) by (simp add: numEntriesFast_eq page_ok_def)
  have dup: "\<not> cDupSort (cc s)" using s(1) by (simp add: ro_cursor_def)
  have same: "s\<lparr>ct := ct s\<rparr> = s" by simp
  show ?thesis
  proof (cases "nd_big (node_at p i)")
    case True
    then obtain d where d: "getLargeData (ce s) [ct s] (nd_ovpg (node_at p i)) (nd_dsize (node_at p i)) = Some ([ct s], Inr d)"
      using big by (auto simp: big_ok_def nd)
    have "big_data s p (int i) = Some (s, d)"
      using d big_accessors [OF p(1,3,2) True] child_accessors(5) [OF p(1,3)] by (simp add: big_data_def same)
    then show ?thesis
      using s(3) top i k fl n dup p(3) True d data_accessors [OF p(1,3,2)] big_accessors(3) [OF p(1,3,2) True]
      by (simp add: getCurrent_def refreshPage_ro [OF s(1)] cur_index_def pair_of_def nd_big_def del: nth_entries)
         (simp add: nd)
  next
    case False
    then show ?thesis
      using s(3) top i k fl n dup p(3) data_accessors(1) [OF p(1,3,2) False]
      by (simp add: getCurrent_def refreshPage_ro [OF s(1)] cur_index_def pair_of_def nd_big_def mapped_def)
  qed
qed

lemma cur_at_last:
  assumes "cur_at s h pg st" "shape_ok (cur_rd s) h pg"
  obtains st' p i where "st = st' @ [(p, i)]" "length st' = h" "page_ok p" "\<not> brp p" "i < nents p"
    "hd (behind (cur_rd s) h st) = entries p ! i" "behind (cur_rd s) h st = drop i (entries p) @ behind (cur_rd s) h st'"
proof -
  from assms(1) have c: "path (cur_rd s) h pg st" "length st = Suc h" "snd (last st) < nents (fst (last st))"
    by (simp_all add: cur_at_def)
  then obtain st' p i where st: "st = st' @ [(p, i)]" by (metis length_0_conv nat.distinct(1) rev_exhaust surj_pair)
  note sn = path_snoc [OF assms(2) c(1) [unfolded st]]
  have l: "length st' = h" "i < nents p" using c(2,3) st by simp_all
  have b: "behind (cur_rd s) h st = drop i (entries p) @ behind (cur_rd s) h st'"
    using behind_snoc [OF c(1) [unfolded st]] l(1) st by simp
  then have "hd (behind (cur_rd s) h st) = entries p ! i" using l(2) by (simp add: hd_drop_conv_nth del: nth_entries)
  then show thesis using that st sn l b by simp
qed

lemma getCurrent_at:
  assumes "cur_at s h pg st" "shape_ok (cur_rd s) h pg" "big_ok (ce s) (ct s) (hd (behind (cur_rd s) h st))"
  shows "getCurrent s = Some (s, Inr (pair_of (ce s) (ct s) (hd (behind (cur_rd s) h st))))"
proof -
  from cur_at_last [OF assms(1,2)] obtain st' p i where
    st: "st = st' @ [(p, i)]" "page_ok p" "\<not> brp p" "i < nents p" "hd (behind (cur_rd s) h st) = entries p ! i" by metis
  have "ro_cursor s" "on_stack s (st' @ [(p, i)])" "state (cc s) = cursorPointing" using assms(1) st(1) by (simp_all add: cur_at_def)
  from getCurrent_ro [OF this st(2,3,4)] assms(3) show ?thesis by (simp only: st(5))
qed

section \<open>Next\<close>

lemma set_top_frame: "ro_cursor s \<Longrightarrow> cur_frame s (set_top l s)"
  by (simp add: cur_frame_def set_top_def ro_cursor_def IsReadOnly_def)

lemma set_index_ro:
  assumes "ro_cursor s" "on_stack s (st @ [(p, i)])"
  obtains s' where "set_index (int (length st)) (of_nat j) s = Some s'" "on_stack s' (st @ [(p, j)])" "cur_frame s s'"
    "state (cc s') = state (cc s)" "afterDelete (cc s') = afterDelete (cc s)" "dup (cc s') = dup (cc s)"
proof -
  have l: "length st < length (indices (cc s))" "take (Suc (length st)) (indices (cc s)) = map (\<lambda>(p, i). of_nat i) st @ [of_nat i]"
    using assms by (simp_all add: ro_cursor_def on_stack_def)
  have "take (length st) (indices (cc s)) = map (\<lambda>(p, i). of_nat i) st"
    using arg_cong [OF l(2), of "take (length st)"] by simp
  then show thesis
    using assms l(1)
    by (intro that [of "s\<lparr>cc := (cc s)\<lparr>indices := (indices (cc s))[length st := of_nat j]\<rparr>\<rparr>"])
       (simp_all add: set_index_def upd_ix_def on_stack_def take_snoc_update cur_frame_def ro_cursor_def IsReadOnly_def)
qed

text \<open>The loop of next: the cut moves to the next leaf node, or the stack is used up.\<close>

lemma levels_down_ro:
  assumes "ro_cursor s" "unat (Height (trees (ct s) ! cdbi (cc s))) = Suc h" "top_ix (cc s) = int n"
  shows "levels_down s = Some (h - n)"
proof -
  have "uint (Height (trees (ct s) ! cdbi (cc s))) = int (Suc h)" by (simp only: uint_nat assms(2))
  then show ?thesis using assms(1,3) by (simp add: levels_down_def tree_of_def ro_cursor_def)
qed

lemma move_next_ro:
  assumes "ro_cursor s" "on_stack s st" "path (cur_rd s) h pg st" "shape_ok (cur_rd s) h pg" "h < 32"
    and "unat (Height (trees (ct s) ! cdbi (cc s))) = Suc h"
    and "state (cc s) = cursorPointing" "\<not> afterDelete (cc s)" "\<forall>nd \<in> set (leaf_nodes (cur_rd s) h pg). big_ok (ce s) (ct s) nd"
    and "length st = Suc h \<Longrightarrow> snd (last st) < nents (fst (last st))"
  shows "case (if length st = Suc h then tl (behind (cur_rd s) h st) else behind (cur_rd s) h st) of
      [] \<Rightarrow> \<exists>s'. move_next_loop s = Some (s', None) \<and> cur_frame s s' \<and> state (cc s') = cursorPointing \<and> \<not> afterDelete (cc s') \<and>
              dup (cc s') = dup (cc s)
    | nd # rest \<Rightarrow> \<exists>s' st'. move_next_loop s = Some (s', Some (Inr (pair_of (ce s) (ct s) nd))) \<and> cur_frame s s' \<and>
              cur_at s' h pg st' \<and> behind (cur_rd s) h st' = nd # rest \<and> dup (cc s') = dup (cc s)"
  using assms
proof (induction st arbitrary: s rule: rev_induct)
  case Nil
  then have "top_ix (cc s) < 0" by (simp add: on_stack_def)
  then have "move_next_loop s = Some (s, None)" by (subst move_next_loop.simps) simp
  then show ?case using Nil by (simp add: cur_frame_refl)
next
  case (snoc x st)
  obtain p i where x: "x = (p, i)" by (cases x)
  note pr = snoc.prems [unfolded x]
  note sn = path_snoc [OF pr(4,3)]
  note top = on_stack_top [OF pr(2,1)]
  have n: "numEntriesFast p = Some (int (nents p))" using sn by (simp add: numEntriesFast_eq page_ok_def)
  have ib: "i \<le> nents p" "nents p < 32768" using sn page_small [of p] by auto
  have i: "uint (of_nat i :: u16) = int i" using ib by (simp add: uint_nat unat_of_nat)
  have i1: "of_nat i + 1 = (of_nat (Suc i) :: u16)" by simp
  show ?case
  proof (cases "Suc i < nents p")
    case True
    from set_index_ro [OF pr(1,2), of "Suc i"] obtain s1 where s1:
      "set_index (int (length st)) (of_nat (Suc i)) s = Some s1" "on_stack s1 (st @ [(p, Suc i)])" "cur_frame s s1"
      "state (cc s1) = state (cc s)" "afterDelete (cc s1) = afterDelete (cc s)" "dup (cc s1) = dup (cc s)" by blast
    have rd: "cur_rd s1 = cur_rd s" and ro: "ro_cursor s1" and ec: "ce s1 = ce s" "ct s1 = ct s" "cdbi (cc s1) = cdbi (cc s)"
      using s1(3) cur_frame_rd by (auto simp: cur_frame_def)
    have path: "path (cur_rd s) h pg (st @ [(p, Suc i)])" using sn True by auto
    have br: "isBranchFast p = Some (length st < h)" using sn by (simp add: isBranchFast_eq page_ok_def)
    have go: "move_next_loop s = do { (s, r) \<leftarrow> (if length st < h then descendLeft s1 else getCurrent s1); Some (s, Some r) }"
      using top n i True s1(1) br refreshPage_ro [OF pr(1)] by (subst move_next_loop.simps) (simp add: i1 del: of_nat_Suc)
    show ?thesis
    proof (cases "length st < h")
      case False
      then have lst: "length st = h" using sn by simp
      have beh: "behind (cur_rd s) h (st @ [(p, j)]) = drop j (entries p) @ behind (cur_rd s) h st" if "j \<le> nents p" for j
        using behind_snoc [of "cur_rd s" h pg st p j] sn that lst by simp
      have at: "cur_at s1 h pg (st @ [(p, Suc i)])"
        using ro s1 path lst True pr(7,8) beh [of "Suc i"] by (simp add: cur_at_def rd)
      have hd: "behind (cur_rd s) h (st @ [(p, Suc i)]) = entries p ! Suc i # drop (Suc (Suc i)) (entries p) @ behind (cur_rd s) h st"
        using True beh [of "Suc i"] by (simp add: Cons_nth_drop_Suc [symmetric] del: nth_entries)
      have "entries p ! Suc i \<in> set (leaf_nodes (cur_rd s) h pg)"
        using path_cut [OF path] lst hd by simp
      then have "getCurrent s1 = Some (s1, Inr (pair_of (ce s) (ct s) (entries p ! Suc i)))"
        using getCurrent_at [OF at] pr(4,9) hd by (simp add: rd ec del: nth_entries)
      moreover have "tl (behind (cur_rd s) h (st @ [(p, i)])) = behind (cur_rd s) h (st @ [(p, Suc i)])"
        using True beh [of i] beh [of "Suc i"] Cons_nth_drop_Suc [of i "entries p"] by (auto simp: tl_append split: list.splits)
      ultimately show ?thesis using go False at hd lst s1(3,6) by (auto simp: x simp del: nth_entries)
    next
      case True': True
      define m where "m = h - Suc (length st)"
      have len: "Suc (length st) + Suc m \<le> 32" "h - length st = Suc m" using pr(5) True' by (simp_all add: m_def)
      have kid: "shape_ok (cur_rd s1) m (kids p ! Suc i)" using sn True True' by (simp add: rd m_def)
      have "page_ok p" using sn by simp
      from descend_left_ro [OF ro s1(2) this True len(1) kid] obtain s2 where s2:
        "descend_left_loop (Suc m) s1 = Some (s2, None)" "on_stack s2 (st @ (p, Suc i) # leftmost (cur_rd s1) m (kids p ! Suc i))"
        "cur_frame s1 s2" "state (cc s2) = state (cc s1)" "afterDelete (cc s2) = afterDelete (cc s1)" "dup (cc s2) = dup (cc s1)" by blast
      let ?st = "st @ (p, Suc i) # leftmost (cur_rd s) m (kids p ! Suc i)"
      have lv: "levels_down s1 = Some (Suc m)"
        using levels_down_ro [OF ro, of h "length st"] pr(6) on_stack_top(1) [OF s1(2) ro] len(2) by (simp add: ec)
      note lm = leftmost_ok [OF kid, unfolded rd]
      have app: "path (cur_rd s) h pg ?st" "behind (cur_rd s) h ?st = leaf_nodes (cur_rd s) m (kids p ! Suc i) @ behind (cur_rd s) h (st @ [(p, Suc i)])"
        using path_append [OF path True', folded m_def, OF conjunct1 [OF lm]] conjunct2 [OF lm] by simp_all
      have "drop (Suc i) (kids p) = kids p ! Suc i # drop (Suc (Suc i)) (kids p)"
        using True Cons_nth_drop_Suc [of "Suc i" "kids p"] by simp
      then have beh: "behind (cur_rd s) h (st @ [(p, i)]) = behind (cur_rd s) h ?st"
        using behind_snoc [OF pr(3)] behind_snoc [OF path] True' unfolding app(2) by (simp add: m_def)
      have ne: "leaf_nodes (cur_rd s) m (kids p ! Suc i) \<noteq> []" using leaf_nodes_nonempty kid rd by simp
      have fr: "cur_frame s s2" by (rule cur_frame_trans [OF s1(3) s2(3)])
      have rd2: "cur_rd s2 = cur_rd s" by (rule cur_frame_rd [OF fr])
      have full: "length ?st = Suc h" using True' by (simp add: m_def)
      have last: "snd (last ?st) < nents (fst (last ?st))"
        using leftmost_last [OF kid [unfolded rd]] True by simp
      have at: "cur_at s2 h pg ?st"
        using fr s2 s1 app ne full last pr(7,8) by (simp add: cur_at_def rd2 rd cur_frame_def)
      obtain nd rest where nr: "behind (cur_rd s) h ?st = nd # rest" by (metis app(2) append_is_Nil_conv ne neq_Nil_conv)
      have "nd \<in> set (leaf_nodes (cur_rd s) h pg)" using path_cut [OF app(1) full] nr by simp
      then have "getCurrent s2 = Some (s2, Inr (pair_of (ce s) (ct s) nd))"
        using getCurrent_at [OF at] pr(4,9) nr fr by (simp add: rd2 cur_frame_def)
      then have "move_next_loop s = Some (s2, Some (Inr (pair_of (ce s) (ct s) nd)))"
        using go True' lv s2(1) by (simp add: descendLeft_def del: descend_left_loop.simps)
      then show ?thesis using at nr fr beh True' s1(6) s2(6) by (auto simp: x)
    qed
  next
    case False
    let ?s = "set_top (int (length st) - 1) s"
    have pop: "popPage s = Some (?s, Some (Buf (Data p), of_nat i))"
      using top on_stack_nth(1) [OF pr(2), of "length st"] pr(1,2)
      by (simp add: popPage_def at_ix_def ro_cursor_def on_stack_def)
    have go: "move_next_loop s = move_next_loop ?s"
      using top n i False pop refreshPage_ro [OF pr(1)] by (subst move_next_loop.simps) simp
    have fr: "cur_frame s ?s" by (rule set_top_frame [OF pr(1)])
    have rd: "cur_rd ?s = cur_rd s" by (rule cur_frame_rd [OF fr])
    have fl: "state (cc ?s) = state (cc s)" "afterDelete (cc ?s) = afterDelete (cc s)" "dup (cc ?s) = dup (cc s)"
      "ce ?s = ce s" "ct ?s = ct s" "cdbi (cc ?s) = cdbi (cc s)" "cpages (cc ?s) = cpages (cc s)" by (simp_all add: set_top_def)
    have "length st \<le> h" using sn by simp
    then have IH: "case behind (cur_rd s) h st of
        [] \<Rightarrow> \<exists>s'. move_next_loop ?s = Some (s', None) \<and> cur_frame ?s s' \<and> state (cc s') = cursorPointing \<and> \<not> afterDelete (cc s') \<and>
                dup (cc s') = dup (cc s)
      | nd # rest \<Rightarrow> \<exists>s' st'. move_next_loop ?s = Some (s', Some (Inr (pair_of (ce s) (ct s) nd))) \<and> cur_frame ?s s' \<and>
                cur_at s' h pg st' \<and> behind (cur_rd s) h st' = nd # rest \<and> dup (cc s') = dup (cc s)"
      using snoc.IH [of ?s] sn pr fr on_stack_pop [OF pr(2)] by (simp add: fl rd cur_frame_def split: list.splits)
    have beh: "(if length (st @ [x]) = Suc h then tl (behind (cur_rd s) h (st @ [x])) else behind (cur_rd s) h (st @ [x])) = behind (cur_rd s) h st"
    proof (cases "length st = h")
      case True
      then have "i < nents p" using pr(10) by simp
      then have "drop i (entries p) = [entries p ! i]" using False Cons_nth_drop_Suc [of i "entries p"] by simp
      then show ?thesis using behind_snoc [OF pr(3)] True by (simp add: x)
    next
      case False': False
      then show ?thesis using behind_snoc [OF pr(3)] False by (simp add: x)
    qed
    show ?thesis unfolding beh go using IH cur_frame_trans [OF fr] by (auto split: list.splits)
  qed
qed

lemma is_dupsort_ro: "ro_cursor s \<Longrightarrow> is_dupsort s = Some False"
  by (simp add: is_dupsort_def ro_cursor_def tree_of_def)

lemma clearDup_frame: "ro_cursor s \<Longrightarrow> cur_frame s (clearDupState s)"
  by (simp add: cur_frame_def clearDupState_def on_dup_def ro_cursor_def IsReadOnly_def)

text \<open>Next at a position: to the following leaf node, or not-found at the last one, without moving.\<close>

definition table_ok :: "cst \<Rightarrow> nat \<Rightarrow> pgno \<Rightarrow> bool" where
  "table_ok s h pg \<longleftrightarrow> shape_ok (cur_rd s) h pg \<and> h < 32 \<and> unat (Height (trees (ct s) ! cdbi (cc s))) = Suc h \<and>
     (\<forall>nd \<in> set (leaf_nodes (cur_rd s) h pg). big_ok (ce s) (ct s) nd)"

lemma table_ok_frame: "cur_frame s s' \<Longrightarrow> table_ok s' h pg = table_ok s h pg"
  using cur_frame_rd [of s s'] by (simp add: table_ok_def cur_frame_def)

lemma moveNext_ro:
  assumes "cur_at s h pg st" "table_ok s h pg"
  shows "case tl (behind (cur_rd s) h st) of
      [] \<Rightarrow> \<exists>s'. moveNext s = Some (s', Inl ErrNotFoundError) \<and> cur_frame s s' \<and> state (cc s') = cursorPointing
    | nd # rest \<Rightarrow> \<exists>s' st'. moveNext s = Some (s', Inr (pair_of (ce s) (ct s) nd)) \<and> cur_frame s s' \<and>
              cur_at s' h pg st' \<and> behind (cur_rd s) h st' = nd # rest"
proof -
  let ?s = "clearDupState s"
  have c: "ro_cursor s" "on_stack s st" "path (cur_rd s) h pg st" "length st = Suc h" "snd (last st) < nents (fst (last st))"
    "state (cc s) = cursorPointing" "\<not> afterDelete (cc s)" using assms(1) by (simp_all add: cur_at_def)
  have fr: "cur_frame s ?s" by (rule clearDup_frame [OF c(1)])
  have rd: "cur_rd ?s = cur_rd s" by (rule cur_frame_rd [OF fr])
  have cl: "ro_cursor ?s" "on_stack ?s st" "state (cc ?s) = cursorPointing" "\<not> afterDelete (cc ?s)" "ce ?s = ce s" "ct ?s = ct s"
    "cdbi (cc ?s) = cdbi (cc s)"
    using c fr by (simp_all add: cur_frame_def clearDupState_def on_dup_def on_stack_def)
  have m: "moveNext s = advance ?s"
    using c refreshPage_ro is_dupsort_ro by (simp add: moveNext_def)
  note t = assms(2) [unfolded table_ok_def]
  have "case tl (behind (cur_rd s) h st) of
      [] \<Rightarrow> \<exists>s'. move_next_loop ?s = Some (s', None) \<and> cur_frame ?s s' \<and> state (cc s') = cursorPointing \<and> \<not> afterDelete (cc s') \<and>
              dup (cc s') = dup (cc ?s)
    | nd # rest \<Rightarrow> \<exists>s' st'. move_next_loop ?s = Some (s', Some (Inr (pair_of (ce s) (ct s) nd))) \<and> cur_frame ?s s' \<and>
              cur_at s' h pg st' \<and> behind (cur_rd s) h st' = nd # rest \<and> dup (cc s') = dup (cc ?s)"
    using move_next_ro [of ?s st h pg] cl c t by (simp add: rd split: list.splits)
  note step = this
  have fail: "\<exists>t. moveNext s = Some (t, Inl ErrNotFoundError) \<and> cur_frame s t \<and> state (cc t) = state (cc s')"
    if "move_next_loop ?s = Some (s', None)" "cur_frame ?s s'" for s'
  proof -
    let ?t = "s'\<lparr>cc := (cc s')\<lparr>top_ix := top_ix (cc ?s), indices := indices (cc ?s)\<rparr>\<rparr>"
    have "moveNext s = Some (?t, Inl ErrNotFoundError)" using that(1) by (simp add: m advance_def)
    moreover have "cur_frame s ?t"
      using cur_frame_trans [OF fr that(2)] c(1)
      by (simp add: cur_frame_def ro_cursor_def IsReadOnly_def) (simp add: clearDupState_def on_dup_def)
    ultimately show ?thesis by auto
  qed
  have good: "moveNext s = Some (s', Inr r) \<and> cur_frame s s'"
    if "move_next_loop ?s = Some (s', Some (Inr r))" "cur_frame ?s s'" for s' r
    using that(1) cur_frame_trans [OF fr that(2)] by (simp add: m advance_def)
  show ?thesis
  proof (cases "tl (behind (cur_rd s) h st)")
    case Nil
    then obtain s' where s': "move_next_loop ?s = Some (s', None)" "cur_frame ?s s'" "state (cc s') = cursorPointing" using step by auto
    show ?thesis unfolding Nil list.case using fail [OF s'(1,2)] s'(3) by simp
  next
    case (Cons nd rest)
    then obtain s' st' where s': "move_next_loop ?s = Some (s', Some (Inr (pair_of (ce s) (ct s) nd)))" "cur_frame ?s s'"
      "cur_at s' h pg st'" "behind (cur_rd s) h st' = nd # rest" using step by auto
    show ?thesis unfolding Cons list.case
      by (rule exI [of _ s'], rule exI [of _ st']) (use good [OF s'(1,2)] s'(3,4) in simp)
  qed
qed

section \<open>First\<close>

lemma rd_mapD:
  assumes "rd_map m n pg = Some p"
  shows "Data p = take n (drop (unat pg * n) m)" "unat pg * n + n \<le> length m"
proof -
  have sl: "slice m (int (unat pg * n)) (int (unat pg * n + n)) = Some (Data p)"
    using assms by (auto simp: rd_map_def)
  have le: "int (unat pg * n + n) \<le> int (length m)" by (rule ccontr) (use sl in \<open>simp add: slice_def\<close>)
  then show l: "unat pg * n + n \<le> length m" by (simp only: of_nat_le_iff)
  show "Data p = take n (drop (unat pg * n) m)"
    using slice_nat [of "unat pg * n" "unat pg * n + n" m] l sl by simp
qed

lemma fill_ro:
  assumes "ro_cursor s" "cur_rd s pg = Some p"
  shows "fillPageHotPath (ce s) (ct s) pg = Some (ct s, Buf (Data p))"
proof -
  have d: "Data p = take (unat (ccpageSize (cc s))) (drop (unat pg * unat (ccpageSize (cc s))) (mapped (cmmapData (cc s))))"
    "unat pg * unat (ccpageSize (cc s)) + unat (ccpageSize (cc s)) \<le> length (mapped (cmmapData (cc s)))"
    using rd_mapD [OF assms(2) [unfolded cur_rd_def]] by simp_all
  then show ?thesis
    using assms(1) by (auto simp: fillPageHotPath_def ro_cursor_def getPageDataFast_def Let_def mapped_def)
qed

lemma first_loop_ro:
  "ro_cursor s \<Longrightarrow> on_stack s (st @ [(p, 0)]) \<Longrightarrow> length st + Suc m \<le> 32 \<Longrightarrow> cur_rd s pg = Some p \<Longrightarrow> shape_ok (cur_rd s) m pg \<Longrightarrow>
   \<exists>s'. first_loop s = Some (s', None) \<and> on_stack s' (st @ leftmost (cur_rd s) m pg) \<and>
     cur_frame s s' \<and> state (cc s') = state (cc s) \<and> afterDelete (cc s') = afterDelete (cc s)"
proof (induction m arbitrary: s st p pg)
  case (0 s st p pg)
  have "isBranchFast p = Some False" using shape_ok_page [OF 0(5,4)] by (simp add: isBranchFast_eq page_ok_def)
  then show ?case using on_stack_top [OF 0(2,1)] 0 by (subst first_loop.simps) (simp add: cur_frame_refl)
next
  case (Suc m s st p pg)
  note sp = shape_ok_page [OF Suc.prems(5,4)]
  have kid: "shape_ok (cur_rd s) m (kids p ! 0)" "0 < nents p" "page_ok p" using sp(5) [of m 0] sp by simp_all
  have br: "isBranchFast p = Some True" using sp by (simp add: isBranchFast_eq page_ok_def)
  have nth: "getChildPgno p 0 = Some (kids p ! 0)"
    using child_accessors(4) [OF kid(3,2)] by (simp add: getChildPgno_def nth_kids kid(2))
  obtain q where q: "cur_rd s (kids p ! 0) = Some q" "page_ok q" using shape_okD [OF kid(1)] by auto
  from push_ro [OF Suc.prems(1,2) _ q] Suc.prems(3) obtain s1 where s1:
    "pushPageByPgno s (kids p ! 0) 0 = Some (s1, None)" "on_stack s1 ((st @ [(p, 0)]) @ [(q, 0)])" "cur_frame s s1"
    "state (cc s1) = state (cc s)" "afterDelete (cc s1) = afterDelete (cc s)" by auto
  have rd: "cur_rd s1 = cur_rd s" by (rule cur_frame_rd [OF s1(3)])
  have "ro_cursor s1" using s1(3) by (simp add: cur_frame_def)
  from Suc.IH [OF this s1(2)] Suc.prems(3) q kid(1) obtain s2 where s2: "first_loop s1 = Some (s2, None)"
    "on_stack s2 ((st @ [(p, 0)]) @ leftmost (cur_rd s) m (kids p ! 0))" "cur_frame s1 s2"
    "state (cc s2) = state (cc s1)" "afterDelete (cc s2) = afterDelete (cc s1)" by (auto simp: rd)
  have "first_loop s = first_loop s1"
    using on_stack_top [OF Suc.prems(2,1)] br nth s1(1) by (subst first_loop.simps) simp
  then show ?case using s1 s2 cur_frame_trans [OF s1(3) s2(3)] Suc.prems(4) by auto
qed

lemma first_ro:
  assumes "ro_cursor s" "table_ok s h (Root (trees (ct s) ! cdbi (cc s)))" "\<not> isEmpty (trees (ct s) ! cdbi (cc s))"
  defines "pg \<equiv> Root (trees (ct s) ! cdbi (cc s))"
  shows "\<exists>s' st'. first s = Some (s', Inr (pair_of (ce s) (ct s) (hd (leaf_nodes (cur_rd s) h pg)))) \<and> cur_frame s s' \<and>
    cur_at s' h pg st' \<and> behind (cur_rd s) h st' = leaf_nodes (cur_rd s) h pg"
proof -
  let ?s = "cursor_reset s"
  note t = assms(2) [folded pg_def, unfolded table_ok_def]
  obtain p where p: "cur_rd s pg = Some p" "page_ok p" using shape_okD [of "cur_rd s" h pg] t by auto
  define s1 where "s1 = ?s\<lparr>cc := (cc ?s)\<lparr>top_ix := 0, cpages := (cpages (cc s))[0 := Buf (Data p)],
    numExpected := (numExpected (cc s))[0 := of_nat (nents p)], indices := (indices (cc s))[0 := 0]\<rparr>\<rparr>"
  have len: "length (cpages (cc s)) = 32" "length (indices (cc s)) = 32" "length (numExpected (cc s)) = 32" "length (stackDirty (cc s)) = 32"
    using assms(1) by (simp_all add: ro_cursor_def)
  have fill: "fill (set_top 0 ?s) pg = Some (set_top 0 ?s, Buf (Data p))"
    using fill_ro [OF assms(1) p(1)] by (simp add: cursor_reset_def clearDupState_def on_dup_def fill_def Let_def set_top_def)
  have n: "num16 p = Some (of_nat (nents p))" "numEntriesFast q = Some (int (nents q))" if "page_ok q" for q
    using p(2) that by (simp_all add: num16_def numEntriesFast_eq page_ok_def)
  have fields: "cpages (cc ?s) = cpages (cc s)" "indices (cc ?s) = indices (cc s)" "numExpected (cc ?s) = numExpected (cc s)"
    "ct ?s = ct s" "ce ?s = ce s" "cdbi (cc ?s) = cdbi (cc s)"
    by (simp_all add: cursor_reset_def clearDupState_def on_dup_def Let_def)
  have tp: "cpages (cc (set_top 0 x)) = cpages (cc x)" "numExpected (cc (set_top 0 x)) = numExpected (cc x)"
    "indices (cc (set_top 0 x)) = indices (cc x)" for x by (simp_all add: set_top_def)
  define s0 where "s0 = (set_top 0 ?s)\<lparr>cc := (cc (set_top 0 ?s))\<lparr>cpages := (cpages (cc s))[0 := Buf (Data p)],
    numExpected := (numExpected (cc s))[0 := of_nat (nents p)]\<rparr>\<rparr>"
  have load: "load_root ?s (trees (ct s) ! cdbi (cc s)) = Some (s0, p)"
    using len n(1) [OF p(2)]
    by (simp add: load_root_def fill pg_def [symmetric] set_cpage_def upd_ix_def tp fields page_of_def pref_page_def
        set_expected_def s0_def) (use len in auto)
  have ix: "set_index 0 0 s0 = Some s1"
    using len by (auto simp: set_index_def upd_ix_def s0_def s1_def set_top_def fields)
  have fr: "cur_frame s s1"
    using assms(1) len by (simp add: cur_frame_def s1_def ro_cursor_def IsReadOnly_def cursor_reset_def clearDupState_def on_dup_def Let_def)
  have rd: "cur_rd s1 = cur_rd s" by (rule cur_frame_rd [OF fr])
  have ro: "ro_cursor s1" using fr by (simp add: cur_frame_def)
  have os: "on_stack s1 ([] @ [(p, 0)])"
    using len by (simp add: on_stack_def s1_def take_Suc_conv_app_nth)
  from first_loop_ro [OF ro os, of h pg] t p rd obtain s2 where s2: "first_loop s1 = Some (s2, None)"
    "on_stack s2 (leftmost (cur_rd s) h pg)" "cur_frame s1 s2" "afterDelete (cc s2) = afterDelete (cc s1)" by auto
  let ?s3 = "set_state cursorPointing s2"
  have fr2: "cur_frame s s2" by (rule cur_frame_trans [OF fr s2(3)])
  then have fr3: "cur_frame s ?s3" using assms(1) by (simp add: cur_frame_def ro_cursor_def set_state_def IsReadOnly_def)
  have rd3: "cur_rd ?s3 = cur_rd s" by (rule cur_frame_rd [OF fr3])
  have ad: "\<not> afterDelete (cc s2)" using s2(4) by (simp add: s1_def cursor_reset_def clearDupState_def on_dup_def Let_def)
  have shp: "shape_ok (cur_rd s) h pg" using t by simp
  have at: "cur_at ?s3 h pg (leftmost (cur_rd s) h pg)"
    using fr3 s2(2) leftmost_ok [OF shp] leaf_nodes_nonempty [OF shp] ad leftmost_last [OF shp] rd3
    by (simp add: cur_at_def cur_frame_def on_stack_def set_state_def)
  have "hd (leaf_nodes (cur_rd s) h pg) \<in> set (leaf_nodes (cur_rd s) h pg)" by (rule hd_in_set [OF leaf_nodes_nonempty [OF shp]])
  then have cur: "getCurrent ?s3 = Some (?s3, Inr (pair_of (ce s) (ct s) (hd (leaf_nodes (cur_rd s) h pg))))"
    using getCurrent_at [OF at] t leftmost_ok [OF shp] fr3 by (simp add: rd3 cur_frame_def)
  from cur_at_last [OF at] shp rd3 obtain st' q i where q: "leftmost (cur_rd s) h pg = st' @ [(q, i)]" "page_ok q" "i < nents q" by metis
  have "ro_cursor s2" using s2(3) by (simp add: cur_frame_def)
  note top = on_stack_top [OF s2(2) [unfolded q(1)] this]
  have "first s = Some (?s3, Inr (pair_of (ce s) (ct s) (hd (leaf_nodes (cur_rd s) h pg))))"
    using load s2(1) top n(2) [OF q(2)] q(3) cur assms(3) ix
    by (simp add: first_def tree_of_def fields assms(1) [unfolded ro_cursor_def])
  then show ?thesis using at fr3 leftmost_ok [OF shp] rd3 by metis
qed

end
