(* ===== verification/CursorOpen.thy ===== *)
theory CursorOpen
  imports CursorNav
begin

text \<open>
  Opening and returning cursors (txn.go): the cache of returned cursors, new cursors, Txn.OpenCursor.
\<close>

section \<open>Opening and returning cursors\<close>

text \<open>
  newCursorFromCache, returnCursorToCache and returnCursor: the cache is the list of returned
  cursors, at most 256.  \<open>bufs i\<close> is what the embedded page struct of level \<open>i\<close> holds when the
  cursor's page pointers are reset to it; no level above the top is read before it is filled.
\<close>

definition newCursor :: cursor where
  "newCursor = \<lparr>state = cursorUninitialized, top_ix = - 1, cdbi = 0, cmmapData = None, ccpageSize = 0, readOnly = False,
     cDupSort = False, afterDelete = False, dirtyMask = 0, cpages = replicate CursorStackSize (Buf []),
     indices = replicate CursorStackSize 0, stackDirty = replicate CursorStackSize None,
     numExpected = replicate CursorStackSize 0,
     dup = \<lparr>dInitialized = False, isSubTree = False, atFirst = False, atLast = False,
       subTree = \<lparr>tFlags = 0, Height = 0, DupfixSize = 0, Root = 0, BranchPages = 0, LeafPages = 0, LargePages = 0,
         Sequence = 0, Items = 0, ModTxnid = 0\<rparr>,
       subPages = replicate CursorStackSize (Some (Buf [])), subIndices = replicate CursorStackSize 0, subTop = - 1,
       subPageData = [], subPageIdx = 0, subPageNum = 0, dupfixSize = 0, nodePositions = []\<rparr>\<rparr>"

definition newCursorFromCache :: "cursor list \<Rightarrow> cursor \<times> cursor list" where
  "newCursorFromCache cache = (if cache \<noteq> [] then (last cache, butlast cache) else (newCursor, []))"

definition cursorCacheCap :: nat where "cursorCacheCap = 256"

definition returnCursorToCache :: "cursor list \<Rightarrow> cursor \<Rightarrow> cursor list" where
  "returnCursorToCache cache c =
     (let c = c\<lparr>state := cursorUninitialized, top_ix := - 1, cmmapData := None\<rparr>
      in if length cache < cursorCacheCap then cache @ [c] else cache)"

definition clear_dup :: "dupState \<Rightarrow> dupState" where
  "clear_dup d = d\<lparr>dInitialized := False, isSubTree := False, atFirst := False, atLast := False, subTop := - 1,
     subPageIdx := 0, subPageNum := 0, dupfixSize := 0, subPageData := [], nodePositions := []\<rparr>"

definition returnCursor :: "(nat \<Rightarrow> bytes) \<Rightarrow> (nat \<Rightarrow> bytes) \<Rightarrow> cursor list \<Rightarrow> cursor \<Rightarrow> cursor list" where
  "returnCursor bufs subBufs cache c =
     returnCursorToCache cache (c\<lparr>cpages := map (Buf \<circ> bufs) [0..<CursorStackSize], stackDirty := replicate CursorStackSize None,
       indices := replicate CursorStackSize 0, numExpected := replicate CursorStackSize 0,
       dup := (clear_dup (dup c))\<lparr>subPages := map (Some \<circ> Buf \<circ> subBufs) [0..<CursorStackSize],
         subIndices := replicate CursorStackSize 0\<rparr>, dirtyMask := 0\<rparr>)"

text \<open>Txn.OpenCursor, without the transaction's list of open cursors.\<close>

definition OpenCursor :: "env \<Rightarrow> txn \<Rightarrow> nat \<Rightarrow> cursor list \<Rightarrow> ((goerror + cst) \<times> cursor list) option" where
  "OpenCursor e t dbi cache =
     (if \<not> txn_valid t then Some (Inl (NewError ErrBadTxn), cache)
      else if dbi \<ge> length (trees t) then Some (Inl (NewError ErrBadDBI), cache)
      else do {
        t \<leftarrow> cacheComparator e t dbi;
        let (c, cache) = newCursorFromCache cache;
        let c = c\<lparr>state := cursorUninitialized, top_ix := - 1, cdbi := dbi,
          cDupSort := (tFlags (trees t ! dbi) AND ucast DupSort \<noteq> 0), afterDelete := False, dirtyMask := 0, dup := clear_dup (dup c)\<rparr>;
        Some (Inr (cursor_initMmapCache \<lparr>ce = e, ct = t, cc = c\<rparr>), cache) })"

text \<open>The arrays of a cursor have their fixed length, in the cache too.\<close>

definition cursor_ok :: "cursor \<Rightarrow> bool" where
  "cursor_ok c \<longleftrightarrow> length (cpages c) = CursorStackSize \<and> length (indices c) = CursorStackSize \<and>
     length (stackDirty c) = CursorStackSize \<and> length (numExpected c) = CursorStackSize \<and>
     length (subPages (dup c)) = CursorStackSize \<and> length (subIndices (dup c)) = CursorStackSize"

lemma newCursorFromCache_ok:
  assumes "\<forall>c \<in> set cache. cursor_ok c" "newCursorFromCache cache = (c, cache')"
  shows "cursor_ok c" "\<forall>c \<in> set cache'. cursor_ok c"
  using assms by (auto simp: newCursorFromCache_def cursor_ok_def newCursor_def in_set_butlastD split: if_splits)

lemma returnCursor_ok:
  assumes "\<forall>c \<in> set cache. cursor_ok c"
  shows "\<forall>c \<in> set (returnCursor bufs subBufs cache c). cursor_ok c"
  using assms by (auto simp: returnCursor_def returnCursorToCache_def cursor_ok_def Let_def)

lemma returnCursor_cap: "length cache \<le> cursorCacheCap \<Longrightarrow> length (returnCursor bufs subBufs cache c) \<le> cursorCacheCap"
  by (simp add: returnCursor_def returnCursorToCache_def Let_def)

end
