(* ===== verification/CursorRun.thy ===== *)
theory CursorRun
  imports CursorIter CursorOpen TxnSamples
begin

text \<open>
  Opening a cursor and a whole iteration: the cursor cache of txn.go, Txn.OpenCursor, and Next until
  it fails, which returns every pair of the table once, in key order.
\<close>

section \<open>Opening a cursor of a read-only transaction\<close>

lemma cacheComparator_same:
  assumes "cacheComparator e t dbi = Some t'"
  shows "trees t' = trees t" "mmapData t' = mmapData t" "txnFlags t' = txnFlags t" "txnPageSize t' = txnPageSize t"
  using assms by (auto simp: cacheComparator_def Let_def split: if_splits option.splits)

lemma OpenCursor_ro:
  assumes "txn_valid t" "dbi < length (trees t)" "IsReadOnly t" "mmapData t \<noteq> None" "txnPageSize t = envPageSize e"
    and "tFlags (trees t ! dbi) AND ucast DupSort = 0" "\<forall>c \<in> set cache. cursor_ok c"
    and "cacheComparator e t dbi \<noteq> None"
  obtains s cache' where "OpenCursor e t dbi cache = Some (Inr s, cache')" "ro_cursor s" "state (cc s) = cursorUninitialized"
    "ce s = e" "trees (ct s) = trees t" "cdbi (cc s) = dbi"
    "cmmapData (cc s) = mmapData t" "ccpageSize (cc s) = txnPageSize t" "cacheComparator e t dbi = Some (ct s)"
proof -
  obtain t' where t': "cacheComparator e t dbi = Some t'" using assms(8) by auto
  obtain c cache' where c: "newCursorFromCache cache = (c, cache')" by force
  note ok = newCursorFromCache_ok(1) [OF assms(7) c]
  show thesis
    using that [of "cursor_initMmapCache \<lparr>ce = e, ct = t', cc = c\<lparr>state := cursorUninitialized, top_ix := - 1, cdbi := dbi,
          cDupSort := (tFlags (trees t' ! dbi) AND ucast DupSort \<noteq> 0), afterDelete := False, dirtyMask := 0, dup := clear_dup (dup c)\<rparr>\<rparr>" cache']
      assms(1-6) t' c cacheComparator_same [OF t'] ok
    by (simp add: OpenCursor_def cursor_initMmapCache_def Let_def ro_cursor_def IsReadOnly_def cursor_ok_def CursorStackSize_def)
qed

section \<open>A whole iteration\<close>

text \<open>Next until it fails, at most \<open>n\<close> times: the pairs and the error that ended the iteration.\<close>

fun drain :: "nat \<Rightarrow> cst \<Rightarrow> (kv list \<times> goerror option \<times> cst) option" where
  "drain 0 s = Some ([], None, s)"
| "drain (Suc n) s =
     do { (s, r) \<leftarrow> cursor_Get s [] None OpNext;
          case r of
            Inl err \<Rightarrow> Some ([], Some err, s)
          | Inr kv \<Rightarrow> do { (kvs, err, s) \<leftarrow> drain n s; Some (kv # kvs, err, s) } }"

lemma drain_at:
  "cur_at s h pg st \<Longrightarrow> table_ok s h pg \<Longrightarrow> length (behind (cur_rd s) h st) \<le> n \<Longrightarrow>
   \<exists>s'. drain n s = Some (map (pair_of (ce s) (ct s)) (tl (behind (cur_rd s) h st)), Some ErrNotFoundError, s') \<and> cur_frame s s'"
proof (induction n arbitrary: s st)
  case 0
  then show ?case by (simp add: cur_at_def)
next
  case (Suc n)
  note mv = moveNext_ro [OF Suc.prems(1,2)]
  show ?case
  proof (cases "tl (behind (cur_rd s) h st)")
    case Nil
    then show ?thesis using mv by (auto simp: cursor_Get_def)
  next
    case (Cons nd rest)
    then obtain s1 st1 where s1: "moveNext s = Some (s1, Inr (pair_of (ce s) (ct s) nd))" "cur_frame s s1" "cur_at s1 h pg st1"
      "behind (cur_rd s) h st1 = nd # rest" using mv by auto
    have rd: "cur_rd s1 = cur_rd s" by (rule cur_frame_rd [OF s1(2)])
    have "length (tl (behind (cur_rd s) h st)) \<le> n" using Suc.prems(3) by simp
    then have "length (behind (cur_rd s1) h st1) \<le> n" using Cons s1(4) by (simp add: rd)
    from Suc.IH [OF s1(3) _ this] Suc.prems(2) obtain s2 where s2:
      "drain n s1 = Some (map (pair_of (ce s1) (ct s1)) rest, Some ErrNotFoundError, s2)" "cur_frame s1 s2"
      using s1(4) by (auto simp: table_ok_frame [OF s1(2)] rd)
    have "drain (Suc n) s = Some (map (pair_of (ce s) (ct s)) (nd # rest), Some ErrNotFoundError, s2)"
      using s1(1,2) s2(1) by (simp add: cursor_Get_def cur_frame_def)
    then show ?thesis using Cons cur_frame_trans [OF s1(2) s2(2)] by auto
  qed
qed

lemma drain_ro:
  assumes "ro_cursor s" "state (cc s) = cursorUninitialized" "\<not> isEmpty (trees (ct s) ! cdbi (cc s))"
    and "table_ok s h (Root (trees (ct s) ! cdbi (cc s)))"
    and "length (leaf_nodes (cur_rd s) h (Root (trees (ct s) ! cdbi (cc s)))) < n"
  shows "\<exists>s'. drain n s = Some (map (pair_of (ce s) (ct s)) (leaf_nodes (cur_rd s) h (Root (trees (ct s) ! cdbi (cc s)))),
    Some ErrNotFoundError, s') \<and> cur_frame s s'"
proof -
  let ?pg = "Root (trees (ct s) ! cdbi (cc s))"
  obtain m where n: "n = Suc m" using assms(5) by (cases n) auto
  from first_ro [OF assms(1,4,3)] obtain s1 st where s1:
    "first s = Some (s1, Inr (pair_of (ce s) (ct s) (hd (leaf_nodes (cur_rd s) h ?pg))))" "cur_frame s s1"
    "cur_at s1 h ?pg st" "behind (cur_rd s) h st = leaf_nodes (cur_rd s) h ?pg" by blast
  have rd: "cur_rd s1 = cur_rd s" by (rule cur_frame_rd [OF s1(2)])
  have ne: "leaf_nodes (cur_rd s) h ?pg \<noteq> []" using leaf_nodes_nonempty assms(4) by (simp add: table_ok_def)
  from drain_at [OF s1(3), of m] obtain s2 where s2:
    "drain m s1 = Some (map (pair_of (ce s) (ct s)) (tl (leaf_nodes (cur_rd s) h ?pg)), Some ErrNotFoundError, s2)" "cur_frame s1 s2"
    using assms(4,5) s1(2,4) by (auto simp: table_ok_frame [OF s1(2)] rd n cur_frame_def)
  have "drain n s = Some (pair_of (ce s) (ct s) (hd (leaf_nodes (cur_rd s) h ?pg)) #
      map (pair_of (ce s) (ct s)) (tl (leaf_nodes (cur_rd s) h ?pg)), Some ErrNotFoundError, s2)"
    using s1(1) s2(1) assms(2) by (simp add: n cursor_Get_def moveNext_def)
  also have "pair_of (ce s) (ct s) (hd (leaf_nodes (cur_rd s) h ?pg)) # map (pair_of (ce s) (ct s)) (tl (leaf_nodes (cur_rd s) h ?pg))
      = map (pair_of (ce s) (ct s)) (leaf_nodes (cur_rd s) h ?pg)"
    using ne by (cases "leaf_nodes (cur_rd s) h ?pg") simp_all
  finally show ?thesis using cur_frame_trans [OF s1(2) s2(2)] by blast
qed

lemma pair_key: "fst (pair_of e t nd) = nd_key nd"
  by (simp add: pair_of_def)

section \<open>Leaf nodes in key order\<close>

context key_order
begin

lemma leaf_nodes_sorted:
  "tree_ok cmp rd h pg lo hi \<Longrightarrow> sorted_wrt (\<lambda>a b. cmp (nd_key a) (nd_key b) < 0) (leaf_nodes rd h pg)"
proof (induction h arbitrary: pg lo hi)
  case 0
  then show ?case
    by (auto simp: keys_sorted_def sorted_from_def keys_of_def sorted_wrt_map split: option.splits)
next
  case (Suc h)
  then obtain p where p: "rd pg = Some p" "sorted_from cmp 1 (keys_of p)"
    "\<And>i. i < nents p \<Longrightarrow> tree_ok cmp rd h (kids p ! i) (child_lo p lo i) (child_hi p hi i)"
    by (auto simp: keys_sorted_def nth_kids split: option.splits)
  have le: "sorted_wrt (\<lambda>a b. cmp (nd_key a) (nd_key b) < 0) (concat (map (leaf_nodes rd h) (drop i (kids p)))) \<and>
      (0 < i \<longrightarrow> i < nents p \<longrightarrow> (\<forall>x \<in> set (concat (map (leaf_nodes rd h) (drop i (kids p)))). cmp (keys_of p ! i) (nd_key x) \<le> 0))"
    if "i \<le> nents p" for i
    using that
  proof (induction i rule: inc_induct)
    case base
    then show ?case by simp
  next
    case (step i)
    note t = p(3) [OF step(2)]
    let ?L = "leaf_nodes rd h (kids p ! i)" and ?R = "concat (map (leaf_nodes rd h) (drop (Suc i) (kids p)))"
    have d: "concat (map (leaf_nodes rd h) (drop i (kids p))) = ?L @ ?R"
      using step(2) Cons_nth_drop_Suc [of i "kids p"] by (metis concat.simps(2) length_kids list.simps(9))
    have r: "cmp (keys_of p ! Suc i) (nd_key y) \<le> 0" if "y \<in> set ?R" for y
      using step.IH that by (cases "Suc i < nents p") auto
    have l: "cmp (nd_key x) (nd_key y) < 0" if "x \<in> set ?L" "y \<in> set ?R" for x y
    proof -
      have "Suc i < nents p" using that(2) by (rule_tac ccontr) simp
      then have "cmp (nd_key x) (keys_of p ! Suc i) < 0"
        using leaf_nodes_in_range [OF t that(1)] by (simp add: in_range_def child_hi_def)
      then show ?thesis using r [OF that(2)] less_trans less_imp_le by blast
    qed
    have "sorted_wrt (\<lambda>a b. cmp (nd_key a) (nd_key b) < 0) (?L @ ?R)"
      using Suc.IH [OF t] step.IH l by (simp add: sorted_wrt_append)
    moreover have "cmp (keys_of p ! i) (nd_key x) \<le> 0" if "0 < i" "x \<in> set (?L @ ?R)" for x
    proof (cases "x \<in> set ?L")
      case True
      then show ?thesis using leaf_nodes_in_range [OF t] that(1) by (auto simp: in_range_def child_lo_def)
    next
      case False
      then have R: "x \<in> set ?R" using that by simp
      then have i: "Suc i < nents p" by (rule_tac ccontr) simp
      have "drop 1 (keys_of p) ! (i - 1) = keys_of p ! i" "drop 1 (keys_of p) ! i = keys_of p ! Suc i"
        using that(1) i by simp_all
      then have "cmp (keys_of p ! i) (keys_of p ! Suc i) < 0"
        using p(2) sorted_wrt_nth_less [of "\<lambda>a b. cmp a b < 0" "drop 1 (keys_of p)" "i - 1" i] that(1) i by (simp add: sorted_from_def)
      then show ?thesis using r [OF R] cmp_trans less_imp_le by blast
    qed
    ultimately show ?case unfolding d by blast
  qed
  from le [of 0] p(1) show ?case by (simp add: leaf_nodes_kids del: leaf_nodes.simps)
qed

end

section \<open>A sample\<close>

text \<open>The sample transaction with a table of height 1 and its comparator cached.\<close>

definition iter_txn :: txn where
  "iter_txn = sample_txn\<lparr>trees := [sample_tree, sample_tree, sample_tree\<lparr>Height := 1\<rparr>], dbiComparators := [None, None, Some bytes_compare]\<rparr>"

lemma iter_txn_facts:
  "rd_map (mapped (mmapData iter_txn)) (unat (txnPageSize iter_txn)) 5 = Some sample_leaf" "txn_valid iter_txn" "IsReadOnly iter_txn"
  "cacheComparator sample_env iter_txn 2 = Some iter_txn"
  "big_ok sample_env iter_txn (sample_node [98] [120])" "big_ok sample_env iter_txn (sample_node [100] [121, 122])"
proof -
  show "rd_map (mapped (mmapData iter_txn)) (unat (txnPageSize iter_txn)) 5 = Some sample_leaf"
    by (simp add: iter_txn_def sample_txn_def rd_map_def mapped_def sample_map_def slice_def sample_leaf_fields)
qed (simp_all add: iter_txn_def sample_txn_def txn_valid_def IsReadOnly_def TxnReadOnly_def cacheComparator_def big_ok_def
   sample_node_eval nd_big_def nd_flags_def)

end
