(* ===== verification/CursorPut.thy ===== *)
theory CursorPut
  imports CursorNav PageAlloc PageSplit
begin

text \<open>
  Writing through a cursor (cursor_modify.go): the copy-on-write of the pages on the stack, the
  search for the place of a key, the building of nodes, and insertion with the split of full pages
  up to a new root.  The scratch buffer of the transaction is written before it is read, so it enters
  as zeros; the recycled buffer of the page pool is the one of the \<open>world\<close>.  A store through a page
  that is not a dirty one would fault, which is \<open>None\<close>.
\<close>

section \<open>Limits\<close>

definition effective_ps :: "env \<Rightarrow> int" where
  "effective_ps e = (if envPageSize e = 0 then DefaultPageSize else uint (envPageSize e))"

text \<open>Go's \<open>x / 2\<close>, which rounds towards zero.\<close>

definition half :: "int \<Rightarrow> int" where "half x = (if x < 0 then - ((- x) div 2) else x div 2)"

definition MaxKeySize :: "env \<Rightarrow> int" where
  "MaxKeySize e =
     (let pageRoom = effective_ps e - 20;
          branchNodeMax = ((half (pageRoom - 2 - 8) - 2) div 2) * 2
      in branchNodeMax - 8)"

definition MaxValSize :: "env \<Rightarrow> int" where "MaxValSize e = half (effective_ps e) - 8 - 1 - 2"
definition LeafNodeMax :: "env \<Rightarrow> int" where "LeafNodeMax e = half (effective_ps e - 20)"
definition SubPageLimit :: "env \<Rightarrow> int" where "SubPageLimit e = LeafNodeMax e - 8"

section \<open>The cursor's transaction\<close>

definition scratchBuf :: bytes where "scratchBuf = replicate 4096 0"

definition store :: "cst \<Rightarrow> pref \<Rightarrow> page \<Rightarrow> cst option" where
  "store s r p =
     (case r of
        Ref a \<Rightarrow> (let (e, t) = write_struct (ce s) (ct s) a (Data p) in Some (s\<lparr>ce := e, ct := t\<rparr>))
      | Buf _ \<Rightarrow> None)"

definition upd_ctree :: "(tree \<Rightarrow> tree) \<Rightarrow> cst \<Rightarrow> cst option" where
  "upd_ctree f s = map_option (\<lambda>t. s\<lparr>ct := t\<rparr>) (upd_tree (ct s) (cdbi (cc s)) f)"

definition set_modTxnid :: "cst \<Rightarrow> tree \<Rightarrow> tree" where
  "set_modTxnid s tr = tr\<lparr>ModTxnid := txnID_of (ct s)\<rparr>"

definition c_markDirty :: "cst \<Rightarrow> cst" where
  "c_markDirty s = s\<lparr>ct := markTreeDirty (ct s) (cdbi (cc s))\<rparr>"

definition c_allocatePage :: "world \<Rightarrow> cst \<Rightarrow> (cst \<times> pgno \<times> pref) option" where
  "c_allocatePage w s = do { (e, t, pg, a) \<leftarrow> allocatePage w (ce s) (ct s); Some (s\<lparr>ce := e, ct := t\<rparr>, pg, Ref a) }"

definition c_freeOverflow :: "cst \<Rightarrow> pgno \<Rightarrow> u32 \<Rightarrow> cst option" where
  "c_freeOverflow s pg vsz = map_option (\<lambda>t. s\<lparr>ct := t\<rparr>) (freeOverflow (ce s) (ct s) (cdbi (cc s)) pg vsz)"

text \<open>A new page with the given type, filled by \<open>f\<close>.\<close>

definition new_page :: "world \<Rightarrow> cst \<Rightarrow> u16 \<Rightarrow> (cst \<times> pgno \<times> pref \<times> page) option" where
  "new_page w s fl =
     do { (s, pg, r) \<leftarrow> c_allocatePage w s;
          p \<leftarrow> page_of s r;
          p \<leftarrow> init p pg fl (of_int (uint (envPageSize (ce s))));
          p \<leftarrow> setTxnid_h p (txnID_of (ct s));
          Some (s, pg, r, p) }"

section \<open>Copy on write\<close>

definition adopt :: "int \<Rightarrow> nat \<Rightarrow> cst \<Rightarrow> cst option" where
  "adopt i a s =
     do { s \<leftarrow> set_cpage i (Ref a) s; s \<leftarrow> set_stackDirty i (Some a) s; Some (mark_level i s) }"

definition updateChildPointer :: "cst \<Rightarrow> pref \<Rightarrow> int \<Rightarrow> pgno \<Rightarrow> cst option" where
  "updateChildPointer s r idx child =
     do { p \<leftarrow> page_of s r;
          off \<leftarrow> entryOffset p idx;
          if off = 0 \<and> idx > 0 then Some s
          else do { d \<leftarrow> putUint32LE (Data p) (uint off) child; store s r (p\<lparr>Data := d\<rparr>) } }"

text \<open>The fresh copy of a page under a new page number.\<close>

definition copy_page :: "world \<Rightarrow> cst \<Rightarrow> page \<Rightarrow> (cst \<times> pgno \<times> nat) option" where
  "copy_page w s p =
     do { let newPgno = allocatedPg (ct s);
          let t = (ct s)\<lparr>allocatedPg := newPgno + 1\<rparr>;
          (e, t, x) \<leftarrow> acquire w (ce s) t newPgno;
          let (t, a) = new_struct t x;
          p0 \<leftarrow> deref e t a;
          let q = p0\<lparr>Data := blit (Data p0) 0 (Data p)\<rparr>;
          q \<leftarrow> setPageNo q newPgno;
          q \<leftarrow> setTxnid_h q (txnID_of t);
          let (e, t) = write_struct e t a (Data q);
          t \<leftarrow> tracker_set t newPgno a;
          Some (s\<lparr>ce := e, ct := t\<rparr>, newPgno, a) }"

text \<open>
  One level.  In the branch of WriteMap that adopts a page of this transaction the code enters a
  pointer to the cursor's own buffer; here it is a new struct over the same page of the mapping.
\<close>

definition touch_level :: "world \<Rightarrow> cst \<Rightarrow> int \<Rightarrow> (cst \<times> pref) option" where
  "touch_level w s i =
     do { r \<leftarrow> at_ix (cpages (cc s)) i;
          p \<leftarrow> page_of s r;
          oldPgno \<leftarrow> pageNo p;
          d \<leftarrow> tracker_ref (ct s) oldPgno;
          h \<leftarrow> header p;
          case d of
            Some a \<Rightarrow> do { s \<leftarrow> adopt i a s; Some (s, Ref a) }
          | None \<Rightarrow>
              if isWriteMap (ce s) \<and> hTxnid h = txnID_of (ct s) then
                do { let (t, a) = new_struct (ct s) (MapPage oldPgno);
                     t \<leftarrow> tracker_set t oldPgno a;
                     s \<leftarrow> adopt i a (s\<lparr>ct := t\<rparr>);
                     Some (s, Ref a) }
              else
                do { (s, newPgno, a) \<leftarrow> copy_page w s p;
                     s \<leftarrow> adopt i a s;
                     s \<leftarrow>
                       (if i = 0 then
                          map_option c_markDirty (upd_ctree (\<lambda>tr. set_modTxnid s (tr\<lparr>Root := newPgno\<rparr>)) s)
                        else
                          do { parent \<leftarrow> at_ix (cpages (cc s)) (i - 1);
                               parentIdx \<leftarrow> at_ix (indices (cc s)) (i - 1);
                               updateChildPointer s parent (uint parentIdx) newPgno });
                     Some (s, Ref a) } }"

fun touch_loop :: "world \<Rightarrow> cst \<Rightarrow> pref \<Rightarrow> int list \<Rightarrow> (cst \<times> pref) option" where
  "touch_loop w s r [] = Some (s, r)"
| "touch_loop w s r (i # is) = do { (s, r) \<leftarrow> touch_level w s i; touch_loop w s r is }"

definition touch_start :: "u32 \<Rightarrow> int \<Rightarrow> int" where
  "touch_start dmask level =
     (case filter (\<lambda>b. dmask AND level_bit b \<noteq> 0) (rev [0..level - 1]) of [] \<Rightarrow> 0 | b # _ \<Rightarrow> b + 1)"

definition touchPageAt :: "world \<Rightarrow> cst \<Rightarrow> int \<Rightarrow> (cst \<times> (goerror + pref)) option" where
  "touchPageAt w s level =
     (if level < 0 \<or> level > top_ix (cc s) then Some (s, Inl ErrCorruptedError)
      else do {
        r \<leftarrow> at_ix (cpages (cc s)) level;
        sd \<leftarrow> at_ix (stackDirty (cc s)) level;
        if sd \<noteq> None \<and> r = Ref (the sd) then Some (s, Inr r)
        else if dirtyMask (cc s) AND level_bit level \<noteq> 0 then Some (s, Inr r)
        else do { (s, r) \<leftarrow> touch_loop w s r [touch_start (dirtyMask (cc s)) level..level]; Some (s, Inr r) } })"

definition touchPage :: "world \<Rightarrow> cst \<Rightarrow> (cst \<times> (goerror + pref)) option" where
  "touchPage w s = (if top_ix (cc s) < 0 then Some (s, Inl ErrCorruptedError) else touchPageAt w s (top_ix (cc s)))"

definition with_touched ::
    "world \<Rightarrow> cst \<Rightarrow> (cst \<Rightarrow> pref \<Rightarrow> (cst \<times> goerror option) option) \<Rightarrow> (cst \<times> goerror option) option" where
  "with_touched w s f = do { (s, r) \<leftarrow> touchPage w s; case r of Inl err \<Rightarrow> Some (s, Some err) | Inr r \<Rightarrow> f s r }"

definition updateBigNodeSize :: "world \<Rightarrow> cst \<Rightarrow> u32 \<Rightarrow> (cst \<times> goerror option) option" where
  "updateBigNodeSize w s newSize =
     with_touched w s (\<lambda>s r.
       do { idx \<leftarrow> cur_index s;
            p \<leftarrow> page_of s r;
            off \<leftarrow> entryOffset p idx;
            if uint off < pageHeaderSize \<or> uint off \<ge> int (length (Data p)) - nodeSize then Some (s, Some ErrCorruptedError)
            else do {
              d \<leftarrow> putUint32LE (Data p) (uint off) newSize;
              s \<leftarrow> store s r (p\<lparr>Data := d\<rparr>);
              s \<leftarrow> set_cpage (top_ix (cc s)) r s;
              Some (c_markDirty s, None) } })"

section \<open>Searching the place of a key\<close>

partial_function (option) search_insert_loop :: "cst \<Rightarrow> bytes \<Rightarrow> pgno \<Rightarrow> (cst \<times> (goerror + bool)) option" where
  "search_insert_loop s skey pg =
     (if top_ix (cc s) \<ge> int CursorStackSize - 1 then Some (s, Inl ErrCursorFullError)
      else do {
        let l = top_ix (cc s) + 1;
        (s, r) \<leftarrow> fill (set_top l s) pg;
        s \<leftarrow> set_cpage l r s;
        let s = (case r of Ref _ \<Rightarrow> mark_level l s | Buf _ \<Rightarrow> s);
        p \<leftarrow> page_of s r;
        idx \<leftarrow> cursor_searchPage s p skey;
        s \<leftarrow> set_index l (of_int idx) s;
        leafp \<leftarrow> isLeaf p;
        if leafp then
          (if idx \<ge> numEntries p then Some (set_state cursorPointing s, Inr False)
           else do {
             k \<leftarrow> nodeGetKeyDirect p idx;
             case k of
               None \<Rightarrow> Some (s, Inl ErrCorruptedError)
             | Some k \<Rightarrow> do { c \<leftarrow> key_cmp s skey k; Some (set_state cursorPointing s, Inr (c = 0)) } })
        else do { child \<leftarrow> getChildPgno p idx; search_insert_loop s skey child } })"

text \<open>The flag comes with the error: an empty tree is reported as not found.\<close>

definition searchForInsert :: "cst \<Rightarrow> bytes \<Rightarrow> (cst \<times> (goerror + bool)) option" where
  "searchForInsert s skey =
     do { tr \<leftarrow> tree_of s;
          if isEmpty tr then Some (set_state cursorUninitialized s, Inl ErrNotFoundError)
          else search_insert_loop (s\<lparr>cc := (cc s)\<lparr>top_ix := - 1, dirtyMask := 0\<rparr>\<rparr>) skey (Root tr) }"

definition getPage_ref :: "cst \<Rightarrow> pgno \<Rightarrow> (cst \<times> (goerror + pref)) option" where
  "getPage_ref s pg =
     do { d \<leftarrow> (if IsReadOnly (ct s) then Some None else tracker_ref (ct s) pg);
          (ts, res) \<leftarrow> getPage (ce s) [ct s] pg;
          t \<leftarrow> (case ts of [] \<Rightarrow> None | t # _ \<Rightarrow> Some t);
          Some (s\<lparr>ct := t\<rparr>, case res of
              Inl err \<Rightarrow> Inl err
            | Inr p \<Rightarrow> Inr (case d of Some a \<Rightarrow> Ref a | None \<Rightarrow> Buf (Data p))) }"

definition append_leaf :: "cst \<Rightarrow> page \<Rightarrow> int \<Rightarrow> bytes \<Rightarrow> (cst \<times> (goerror + bool)) option" where
  "append_leaf s p n skey =
     do { k \<leftarrow> nodeGetKeyDirect p (n - 1);
          case k of
            None \<Rightarrow> Some (s, Inl ErrCorruptedError)
          | Some k \<Rightarrow>
              do { c \<leftarrow> key_cmp s skey k;
                   if c < 0 then Some (s, Inl (NewError ErrKeyMismatch))
                   else if c = 0 then Some (set_state cursorPointing s, Inr True)
                   else do { s \<leftarrow> set_index (top_ix (cc s)) (of_int n) s; Some (set_state cursorPointing s, Inr False) } } }"

partial_function (option) append_loop :: "cst \<Rightarrow> bytes \<Rightarrow> pgno \<Rightarrow> (cst \<times> (goerror + bool)) option" where
  "append_loop s skey pg =
     do { (s, res) \<leftarrow> getPage_ref s pg;
          case res of
            Inl err \<Rightarrow> Some (s, Inl err)
          | Inr r \<Rightarrow>
              do { (s, err) \<leftarrow> pushPage s r 0;
                   case err of
                     Some x \<Rightarrow> Some (s, Inl x)
                   | None \<Rightarrow>
                       do { p \<leftarrow> page_of s r;
                            let n = numEntries p;
                            if n = 0 then Some (s, Inr False)
                            else
                              do { leafp \<leftarrow> isLeaf p;
                                   s \<leftarrow> set_index (top_ix (cc s)) (of_int (n - 1)) s;
                                   if leafp then append_leaf s p n skey
                                   else do { child \<leftarrow> getChildPgno p (n - 1); append_loop s skey child } } } } }"

definition positionForAppend :: "cst \<Rightarrow> bytes \<Rightarrow> (cst \<times> (goerror + bool)) option" where
  "positionForAppend s skey =
     do { tr \<leftarrow> tree_of s; if isEmpty tr then Some (s, Inr False) else append_loop s skey (Root tr) }"

section \<open>Building nodes\<close>

definition node_bytes :: "u32 \<Rightarrow> u8 \<Rightarrow> bytes \<Rightarrow> bytes \<Rightarrow> bytes" where
  "node_bytes vsz fl skey payload = enc32 vsz @ [fl, 0] @ enc16 (of_nat (length skey)) @ skey @ payload"

definition c_allocateOverflow :: "world \<Rightarrow> cst \<Rightarrow> bytes \<Rightarrow> (cst \<times> pgno) option" where
  "c_allocateOverflow w s data =
     do { (e, t, pg) \<leftarrow> allocateOverflow w (ce s) (ct s) (cdbi (cc s)) data; Some (s\<lparr>ce := e, ct := t\<rparr>, pg) }"

definition buildNodeWithFlags :: "world \<Rightarrow> cst \<Rightarrow> bytes \<Rightarrow> bytes \<Rightarrow> bool \<Rightarrow> u8 \<Rightarrow> (cst \<times> bytes \<times> pgno) option" where
  "buildNodeWithFlags w s skey val big extraFlags =
     (let vsz = of_nat (length val) in
      if big then
        do { (s, ovPgno) \<leftarrow> c_allocateOverflow w s val;
             Some (s, node_bytes vsz (nodeBig OR extraFlags) skey (enc32 ovPgno), ovPgno) }
      else Some (s, node_bytes vsz extraFlags skey val, 0))"

definition buildNode :: "world \<Rightarrow> cst \<Rightarrow> bytes \<Rightarrow> bytes \<Rightarrow> bool \<Rightarrow> (cst \<times> bytes \<times> pgno) option" where
  "buildNode w s skey val big = buildNodeWithFlags w s skey val big 0"

definition buildBranchNode :: "bytes \<Rightarrow> pgno \<Rightarrow> bytes" where
  "buildBranchNode skey child = node_bytes child 0 skey []"

section \<open>New roots\<close>

definition createRoot :: "world \<Rightarrow> cst \<Rightarrow> bytes \<Rightarrow> (cst \<times> goerror option) option" where
  "createRoot w s nd =
     do { (s, pg, r, p) \<leftarrow> new_page w s pageLeaf;
          (p, fits) \<leftarrow> insertEntry p 0 nd (poolPage w);
          s \<leftarrow> store s r p;
          if \<not> fits then Some (s, Some (NewError ErrPageFull))
          else do {
            s \<leftarrow> upd_ctree (\<lambda>tr. set_modTxnid s (tr\<lparr>Root := pg, Height := 1, LeafPages := 1, Items := 1\<rparr>)) s;
            (s, err) \<leftarrow> pushPage (cursor_reset (c_markDirty s)) r 0;
            Some (if err = None then set_state cursorPointing s else s, err) } }"

definition createNewRoot :: "world \<Rightarrow> cst \<Rightarrow> pgno \<Rightarrow> pgno \<Rightarrow> bytes \<Rightarrow> (cst \<times> goerror option) option" where
  "createNewRoot w s leftPgno rightPgno sepKey =
     do { (s, pg, r, p) \<leftarrow> new_page w s pageBranch;
          (p, _) \<leftarrow> insertEntry p 0 (buildBranchNode [] leftPgno) (poolPage w);
          (p, _) \<leftarrow> insertEntry p 1 (buildBranchNode sepKey rightPgno) (poolPage w);
          s \<leftarrow> store s r p;
          s \<leftarrow> upd_ctree (\<lambda>tr. set_modTxnid s (tr\<lparr>Root := pg, Height := Height tr + 1, BranchPages := BranchPages tr + 1\<rparr>)) s;
          Some (c_markDirty s, None) }"

section \<open>Splitting pages\<close>

text \<open>The entries from the split point on go to the new page; a node that reaches beyond the page is an error.\<close>

fun move_entries :: "bytes \<Rightarrow> page \<Rightarrow> page \<Rightarrow> int \<Rightarrow> int list \<Rightarrow> (page \<times> bool) option" where
  "move_entries pooled p q newIdx [] = Some (q, True)"
| "move_entries pooled p q newIdx (i # is) =
     do { off \<leftarrow> entryOffset p i;
          sz \<leftarrow> calcNodeSize p i;
          if sz > 0 then
            (if uint off + sz > int (length (Data p)) then Some (q, False)
             else do { nd \<leftarrow> slice (Data p) (uint off) (uint off + sz);
                       (q, _) \<leftarrow> insertEntry q newIdx nd pooled;
                       move_entries pooled p q (newIdx + 1) is })
          else move_entries pooled p q newIdx is }"

text \<open>
  The split of one page: the page numbers of the halves and the separator, or the error that ended
  it.  The counters of the tree are updated before the separator is read.
\<close>

definition split_page :: "world \<Rightarrow> cst \<Rightarrow> pref \<Rightarrow> int \<Rightarrow> bytes \<Rightarrow> bool \<Rightarrow> (cst \<times> (goerror + pgno \<times> pgno \<times> bytes)) option" where
  "split_page w s r idx nd isUpdate =
     do { p \<leftarrow> page_of s r;
          splitIdx \<leftarrow> splitPoint p (int (length nd)) idx;
          fl \<leftarrow> pageType p;
          (s, newPgno, nr, q) \<leftarrow> new_page w s fl;
          (q, whole) \<leftarrow> move_entries (poolPage w) p q 0 [splitIdx..numEntries p - 1];
          s \<leftarrow> store s nr q;
          if \<not> whole then Some (s, Inl ErrCorruptedError)
          else do {
            p \<leftarrow> page_of s r;
            p \<leftarrow> removeEntriesFrom p splitIdx;
            (p, _) \<leftarrow> compactWithBuf p scratchBuf (poolPage w);
            (p, q, fits) \<leftarrow>
              (if splitIdx = 0 then do { (p, b) \<leftarrow> insertEntryWithBuf p 0 nd scratchBuf (poolPage w); Some (p, q, b) }
               else if idx < splitIdx then
                 do { (p, b) \<leftarrow> insertEntryWithBuf p idx nd scratchBuf (poolPage w); Some (p, q, b) }
               else do { (q, b) \<leftarrow> insertEntryWithBuf q (idx - splitIdx) nd scratchBuf (poolPage w); Some (p, q, b) });
            s \<leftarrow> store s r p;
            s \<leftarrow> store s nr q;
            if \<not> fits then Some (s, Inl (NewError ErrPageFull))
            else do {
              leafp \<leftarrow> isLeaf p;
              s \<leftarrow> upd_ctree (\<lambda>tr. let tr = (if leafp then tr\<lparr>LeafPages := LeafPages tr + 1\<rparr> else tr\<lparr>BranchPages := BranchPages tr + 1\<rparr>);
                                       tr = (if isUpdate then tr else tr\<lparr>Items := Items tr + 1\<rparr>)
                                   in set_modTxnid s tr) s;
              sep \<leftarrow> nodeGetKeyDirect q 0;
              leftPgno \<leftarrow> pageNo p;
              Some (s, case sep of None \<Rightarrow> Inl ErrCorruptedError | Some k \<Rightarrow> Inr (leftPgno, newPgno, k)) } } }"

text \<open>The separator goes into the parent, or the parent has to be split for it (\<open>Inr\<close>).\<close>

definition parent_insert ::
    "world \<Rightarrow> cst \<Rightarrow> pgno \<Rightarrow> pgno \<Rightarrow> bytes \<Rightarrow> (cst \<times> (goerror option + pref \<times> int \<times> bytes)) option" where
  "parent_insert w s leftPgno rightPgno sepKey =
     (if top_ix (cc s) = 0 then do { (s, err) \<leftarrow> createNewRoot w s leftPgno rightPgno sepKey; Some (s, Inl err) }
      else do {
        (s, _) \<leftarrow> popPage s;
        (s, r) \<leftarrow> touchPage w s;
        case r of
          Inl err \<Rightarrow> Some (s, Inl (Some err))
        | Inr r \<Rightarrow>
            do { idx \<leftarrow> cur_index s;
                 p \<leftarrow> page_of s r;
                 let bn = buildBranchNode sepKey rightPgno;
                 (p, fits) \<leftarrow> insertEntry p (idx + 1) bn (poolPage w);
                 s \<leftarrow> store s r p;
                 if fits then
                   do { s \<leftarrow> set_cpage (top_ix (cc s)) r s;
                        s \<leftarrow> upd_ctree (\<lambda>tr. tr\<lparr>BranchPages := BranchPages tr + 1\<rparr>) s;
                        Some (s, Inl None) }
                 else Some (s, Inr (r, idx + 1, bn)) } })"

partial_function (option) splitAndInsert ::
    "world \<Rightarrow> cst \<Rightarrow> pref \<Rightarrow> int \<Rightarrow> bytes \<Rightarrow> bool \<Rightarrow> (cst \<times> goerror option) option" where
  "splitAndInsert w s r idx nd isUpdate =
     do { (s, res) \<leftarrow> split_page w s r idx nd isUpdate;
          case res of
            Inl err \<Rightarrow> Some (s, Some err)
          | Inr (leftPgno, rightPgno, sepKey) \<Rightarrow>
              do { (s, res) \<leftarrow> parent_insert w s leftPgno rightPgno sepKey;
                   case res of
                     Inl err \<Rightarrow> Some (s, err)
                   | Inr (parent, i, nd) \<Rightarrow> splitAndInsert w s parent i nd False } }"

definition insertIntoParent :: "world \<Rightarrow> cst \<Rightarrow> pgno \<Rightarrow> pgno \<Rightarrow> bytes \<Rightarrow> (cst \<times> goerror option) option" where
  "insertIntoParent w s leftPgno rightPgno sepKey =
     do { (s, res) \<leftarrow> parent_insert w s leftPgno rightPgno sepKey;
          case res of Inl err \<Rightarrow> Some (s, err) | Inr (parent, i, nd) \<Rightarrow> splitAndInsert w s parent i nd False }"

section \<open>Inserting and replacing nodes\<close>

definition insertNodeAt :: "world \<Rightarrow> cst \<Rightarrow> pref \<Rightarrow> int \<Rightarrow> bytes \<Rightarrow> bool \<Rightarrow> (cst \<times> goerror option) option" where
  "insertNodeAt w s r idx nd isUpdate =
     do { p \<leftarrow> page_of s r;
          (p, fits) \<leftarrow> insertEntryWithBuf p idx nd scratchBuf (poolPage w);
          s \<leftarrow> store s r p;
          if fits then
            do { s \<leftarrow> set_cpage (top_ix (cc s)) r s;
                 s \<leftarrow> set_index (top_ix (cc s)) (of_int idx) s;
                 s \<leftarrow> (if isUpdate then Some s else upd_ctree (\<lambda>tr. tr\<lparr>Items := Items tr + 1\<rparr>) s);
                 Some (s, None) }
          else splitAndInsert w s r idx nd isUpdate }"

definition free_old_overflow :: "cst \<Rightarrow> page \<Rightarrow> int \<Rightarrow> cst option" where
  "free_old_overflow s p idx =
     do { fl \<leftarrow> nodeGetFlagsDirect p idx;
          if fl AND nodeBig \<noteq> 0 then
            do { pg \<leftarrow> nodeGetOverflowPgnoDirect p idx; vsz \<leftarrow> nodeGetDataSizeDirect p idx; c_freeOverflow s pg vsz }
          else Some s }"

definition updateNode :: "world \<Rightarrow> cst \<Rightarrow> bytes \<Rightarrow> (cst \<times> goerror option) option" where
  "updateNode w s nd =
     (if top_ix (cc s) < 0 then Some (s, Some ErrCorruptedError)
      else with_touched w s (\<lambda>s r.
        do { idx \<leftarrow> cur_index s;
             p \<leftarrow> page_of s r;
             s \<leftarrow> free_old_overflow s p idx;
             (p, done') \<leftarrow> updateEntry p idx nd;
             if done' then do { s \<leftarrow> store s r p; s \<leftarrow> set_cpage (top_ix (cc s)) r s; Some (s, None) }
             else do { (p, _) \<leftarrow> removeEntry p idx; s \<leftarrow> store s r p; insertNodeAt w s r idx nd True } }))"

definition insertNode :: "world \<Rightarrow> cst \<Rightarrow> bytes \<Rightarrow> (cst \<times> goerror option) option" where
  "insertNode w s nd =
     do { tr \<leftarrow> tree_of s;
          if isEmpty tr then createRoot w s nd
          else if top_ix (cc s) < 0 then Some (s, Some ErrCorruptedError)
          else with_touched w s (\<lambda>s r. do { idx \<leftarrow> cur_index s; insertNodeAt w s r idx nd False }) }"

definition replaceNodeAt :: "world \<Rightarrow> cst \<Rightarrow> pref \<Rightarrow> int \<Rightarrow> bytes \<Rightarrow> (cst \<times> goerror option) option" where
  "replaceNodeAt w s r idx newNd =
     do { p \<leftarrow> page_of s r;
          off \<leftarrow> entryOffset p idx;
          if off = 0 then Some (s, Some ErrCorruptedError)
          else do {
            vsz \<leftarrow> nodeGetDataSizeDirect p idx;
            ks \<leftarrow> rd16 (Data p) (uint off + 6);
            if int (length newNd) = nodeSize + uint ks + uint vsz then
              do { d \<leftarrow> go_copy (Data p) (uint off) newNd; s \<leftarrow> store s r (p\<lparr>Data := d\<rparr>); Some (s, None) }
            else do {
              (p, removed) \<leftarrow> removeEntry p idx;
              if \<not> removed then Some (s, Some ErrCorruptedError)
              else do {
                (p, fits) \<leftarrow> insertEntry p idx newNd (poolPage w);
                s \<leftarrow> store s r p;
                if fits then Some (s, None) else insertNodeAt w s r idx newNd True } } } }"

end
