(* ===== verification/CursorDup.thy ===== *)
theory CursorDup
  imports CursorPut CursorPairs CursorOpen
begin

text \<open>
  Values of tables with duplicates (cursor_modify.go): the search of a value below a key, the
  encoding of the values in an inline sub-page and its decoding, the change to a sub-tree, the
  insertion of a value, and Cursor.put with all its flags.
\<close>

section \<open>Searching a value\<close>

text \<open>
  The binary search over a probe that changes the state (the comparator is installed by the first
  comparison) and may give up: \<open>Some (s, None)\<close> is giving up.
\<close>

function bsearch_st ::
    "(cst \<Rightarrow> int \<Rightarrow> (cst \<times> int option) option) \<Rightarrow> cst \<Rightarrow> int \<Rightarrow> int \<Rightarrow> (cst \<times> (int + int) option) option" where
  "bsearch_st c s lo hi =
     (if lo \<le> hi then
        (case c s ((lo + hi) div 2) of
           None \<Rightarrow> None
         | Some (s, None) \<Rightarrow> Some (s, None)
         | Some (s, Some r) \<Rightarrow>
             if r < 0 then bsearch_st c s lo ((lo + hi) div 2 - 1)
             else if 0 < r then bsearch_st c s ((lo + hi) div 2 + 1) hi
             else Some (s, Some (Inl ((lo + hi) div 2))))
      else Some (s, Some (Inr lo)))"
  by auto
termination by (relation "measure (\<lambda>(_, _, lo, hi). nat (hi - lo + 1))") auto

declare bsearch_st.simps [simp del]

definition probe ::
    "(int \<Rightarrow> bytes option option) \<Rightarrow> (cst \<Rightarrow> bytes \<Rightarrow> (cst \<times> int) option) \<Rightarrow> cst \<Rightarrow> int \<Rightarrow> (cst \<times> int option) option" where
  "probe val cmp s mid =
     do { v \<leftarrow> val mid;
          case v of None \<Rightarrow> Some (s, None) | Some v \<Rightarrow> do { (s, c) \<leftarrow> cmp s v; Some (s, Some c) } }"

definition dup_found ::
    "(int \<Rightarrow> bytes option option) \<Rightarrow> (cst \<Rightarrow> bytes \<Rightarrow> (cst \<times> int) option) \<Rightarrow> cst \<Rightarrow> int \<Rightarrow> int \<Rightarrow> (cst \<times> bool) option" where
  "dup_found val cmp s lo hi =
     do { (s, r) \<leftarrow> bsearch_st (probe val cmp) s lo hi;
          Some (s, case r of Some (Inl _) \<Rightarrow> True | _ \<Rightarrow> False) }"

text \<open>Here the value of the entry is the first argument of the comparison.\<close>

definition hasDupValueInSubPage :: "cst \<Rightarrow> bytes \<Rightarrow> bytes \<Rightarrow> (cst \<times> bool) option" where
  "hasDupValueInSubPage s d v =
     (if length d < 20 then Some (s, False)
      else
        let ks = uint (g16 d 8); fl = g16 d 10; lower = uint (g16 d 12);
            dupfix = (fl AND pageDupfix \<noteq> 0 \<and> 0 < ks \<and> ks < 65535);
            n = (if dupfix then (int (length d) - pageHeaderSize) div ks else lower div 2)
        in
        if \<not> dupfix \<and> lower \<le> 0 then Some (s, False)
        else
          dup_found (\<lambda>mid. map_option (\<lambda>x. case x of Inl _ \<Rightarrow> None | Inr w \<Rightarrow> Some w) (sub_value d dupfix mid))
            (\<lambda>s w. do { (s, c) \<leftarrow> dup_cmp s w v; Some (s, - c) }) s 0 (n - 1))"

text \<open>The value of an entry of a page of the mapping; \<open>Some None\<close> when it would reach beyond the page.\<close>

definition map_value :: "bytes \<Rightarrow> int \<Rightarrow> bytes option option" where
  "map_value d i =
     do { off \<leftarrow> rd16 d (20 + i * 2);
          ksz \<leftarrow> rd16 d (uint off + 20 + 6);
          let start = uint off + 20 + 8;
          if start + uint ksz > int (length d) then Some None
          else map_option Some (slice d start (start + uint ksz)) }"

definition map_child :: "bytes \<Rightarrow> int \<Rightarrow> pgno option" where
  "map_child d i = do { off \<leftarrow> rd16 d (20 + i * 2); rd32 d (uint off + 20) }"

text \<open>
  The search in a sub-tree reads the mapping of the transaction, also for pages the transaction has
  changed.
\<close>

partial_function (option) has_in_tree :: "cst \<Rightarrow> pgno \<Rightarrow> bytes \<Rightarrow> (cst \<times> bool) option" where
  "has_in_tree s pg v =
     (let m = mapped (mmapData (ct s)); ps = unat (txnPageSize (ct s)); off = unat pg * ps in
      if off + ps > length m then Some (s, False)
      else
        let d = take ps (drop off m) in
        do { fl \<leftarrow> rd16 d 10;
             lower \<leftarrow> rd16 d 12;
             let n = drop_bit 1 (uint lower);
             if fl AND 2 = 0 then
               do { (s, r) \<leftarrow> (if n > 1 then bsearch_st (probe (map_value d) (\<lambda>s w. dup_cmp s v w)) s 1 (n - 1) else Some (s, Some (Inl 0)));
                    case r of
                      None \<Rightarrow> Some (s, False)
                    | Some r \<Rightarrow>
                        do { child \<leftarrow> map_child d (case r of Inl mid \<Rightarrow> mid | Inr lo \<Rightarrow> lo - 1);
                             has_in_tree s child v } }
             else if n = 0 then Some (s, False)
             else dup_found (map_value d) (\<lambda>s w. dup_cmp s v w) s 0 (n - 1) })"

definition hasDupValueInSubTree :: "cst \<Rightarrow> bytes \<Rightarrow> bytes \<Rightarrow> (cst \<times> bool) option" where
  "hasDupValueInSubTree s treeData v =
     (if length treeData < 48 then Some (s, False)
      else if g32 treeData 8 = invalidPgno then Some (s, False)
      else has_in_tree s (g32 treeData 8) v)"

definition hasDupValue :: "cst \<Rightarrow> bytes \<Rightarrow> (cst \<times> bool) option" where
  "hasDupValue s v =
     (if top_ix (cc s) < 0 \<or> state (cc s) \<noteq> cursorPointing then Some (s, False)
      else do {
        p \<leftarrow> page_at s (top_ix (cc s));
        idx \<leftarrow> cur_index s;
        fl \<leftarrow> nodeGetFlagsDirect p idx;
        data \<leftarrow> nodeGetDataDirect p idx;
        if fl AND nodeDup = 0 \<and> fl AND nodeTree = 0 then
          do { (s, c) \<leftarrow> dup_cmp s (mapped data) v; Some (s, c = 0) }
        else
          case data of
            None \<Rightarrow> Some (s, False)
          | Some d \<Rightarrow> if fl AND nodeTree \<noteq> 0 then hasDupValueInSubTree s d v else hasDupValueInSubPage s d v })"

section \<open>The last value of a key\<close>

definition getLastDupValueSubPage :: "page \<Rightarrow> int \<Rightarrow> bytes option option" where
  "getLastDupValueSubPage p idx =
     do { data \<leftarrow> nodeGetDataDirect p idx;
          r \<leftarrow> getLastSubPageValue (mapped data);
          Some (case r of Inl _ \<Rightarrow> None | Inr v \<Rightarrow> Some v) }"

partial_function (option) last_in_tree :: "bytes \<Rightarrow> nat \<Rightarrow> pgno \<Rightarrow> bytes option option" where
  "last_in_tree m ps pg =
     (let off = unat pg * ps in
      if off + ps > length m then Some None
      else
        let d = take ps (drop off m) in
        do { fl \<leftarrow> rd16 d 10;
             lower \<leftarrow> rd16 d 12;
             let n = drop_bit 1 (uint lower);
             if n = 0 then Some None
             else if fl AND 2 = 0 then do { child \<leftarrow> map_child d (n - 1); last_in_tree m ps child }
             else map_value d (n - 1) })"

definition getLastDupValueSubTree :: "cst \<Rightarrow> page \<Rightarrow> int \<Rightarrow> bytes option option" where
  "getLastDupValueSubTree s p idx =
     do { data \<leftarrow> nodeGetDataDirect p idx;
          if length (mapped data) < 48 then Some None
          else if g32 (mapped data) 8 = invalidPgno then Some None
          else last_in_tree (mapped (mmapData (ct s))) (unat (txnPageSize (ct s))) (g32 (mapped data) 8) }"

definition checkAppendDup :: "cst \<Rightarrow> bytes \<Rightarrow> (cst \<times> goerror option) option" where
  "checkAppendDup s v =
     (if top_ix (cc s) < 0 then Some (s, None)
      else do {
        p \<leftarrow> page_at s (top_ix (cc s));
        idx \<leftarrow> cur_index s;
        fl \<leftarrow> nodeGetFlagsDirect p idx;
        lastValue \<leftarrow>
          (if fl AND nodeTree \<noteq> 0 then getLastDupValueSubTree s p idx
           else if fl AND nodeDup \<noteq> 0 then getLastDupValueSubPage p idx
           else nodeGetDataDirect p idx);
        case lastValue of
          None \<Rightarrow> Some (s, None)
        | Some l \<Rightarrow>
            do { (s, c) \<leftarrow> dup_cmp s v l;
                 Some (s, if c < 0 then Some (NewError ErrKeyMismatch) else None) } })"

section \<open>Sub-pages\<close>

text \<open>
  The values of an inline sub-page.  For values of different sizes it has entry pointers behind the
  header and a node header before each value, whose key size is the size of the value.
\<close>

fun fixed_values :: "bytes \<Rightarrow> int \<Rightarrow> nat list \<Rightarrow> bytes list option" where
  "fixed_values d ks [] = Some []"
| "fixed_values d ks (i # is) =
     do { v \<leftarrow> slice d (20 + int i * ks) (20 + int i * ks + ks); vs \<leftarrow> fixed_values d ks is; Some (v # vs) }"

fun node_values :: "bytes \<Rightarrow> nat list \<Rightarrow> (goerror + bytes list) option" where
  "node_values d [] = Some (Inr [])"
| "node_values d (i # is) =
     (let len = int (length d); offsetPos = 20 + int i * 2 in
      if offsetPos + 2 > len then Some (Inl ErrCorruptedError)
      else do {
        storedOffset \<leftarrow> rd16 d offsetPos;
        let nodePos = uint storedOffset + 20;
        if nodePos + 8 > len then Some (Inl ErrCorruptedError)
        else do {
          ksz \<leftarrow> rd16 d (nodePos + 6);
          let valueStart = nodePos + 8;
          let valueEnd = valueStart + uint ksz;
          if valueEnd > len then Some (Inl ErrCorruptedError)
          else do {
            v \<leftarrow> slice d valueStart valueEnd;
            r \<leftarrow> node_values d is;
            Some (case r of Inl x \<Rightarrow> Inl x | Inr vs \<Rightarrow> Inr (v # vs)) } } })"

definition parseSubPageValues :: "bytes \<Rightarrow> (goerror + bytes list) option" where
  "parseSubPageValues d =
     (if length d < 20 then Some (Inl ErrCorruptedError)
      else
        let ks = uint (g16 d 8); fl = g16 d 10; lower = uint (g16 d 12) in
        if fl AND pageDupfix \<noteq> 0 \<and> 0 < ks \<and> ks < 65535 then
          map_option Inr (fixed_values d ks [0..<nat ((int (length d) - 20) div ks)])
        else node_values d [0..<nat (lower div 2)])"

text \<open>A node whose key is the value and whose data is empty, in a sub-page or a sub-tree.\<close>

definition buildSubTreeNode :: "bytes \<Rightarrow> bytes" where
  "buildSubTreeNode v = node_bytes 0 0 v []"

text \<open>The nodes stand in the order of the values, up to the end of the sub-page.\<close>

definition subpage_size :: "bytes list \<Rightarrow> nat" where
  "subpage_size vs = 20 + length vs * 2 + sum_list (map (\<lambda>v. 8 + length v) vs)"

definition node_position :: "bytes list \<Rightarrow> nat \<Rightarrow> nat" where
  "node_position vs i = subpage_size vs - sum_list (map (\<lambda>v. 8 + length v) (drop i vs))"

definition subpage_header :: "nat \<Rightarrow> bytes" where
  "subpage_header n = enc64 0 @ enc16 0xFFFF @ enc16 (pageLeaf OR pageSubP) @ enc16 (of_nat (n * 2)) @ enc16 (of_nat (n * 2)) @ enc32 0"

definition buildDupSubPage :: "bytes list \<Rightarrow> bytes" where
  "buildDupSubPage vs =
     subpage_header (length vs) @ concat (map (\<lambda>i. enc16 (of_nat (node_position vs i - 20))) [0..<length vs]) @
     concat (map buildSubTreeNode vs)"

definition buildDupNode :: "bytes \<Rightarrow> bytes \<Rightarrow> bytes" where
  "buildDupNode skey sp = node_bytes (of_nat (length sp)) nodeDup skey sp"

definition buildNodeWithDupTree :: "bytes \<Rightarrow> tree \<Rightarrow> bytes option" where
  "buildNodeWithDupTree skey tr =
     map_option (node_bytes 48 (nodeDup OR nodeTree) skey) (serializeTreeToBuf tr (replicate 48 0))"

section \<open>Sub-trees\<close>

definition flags_db2sub :: "u16 \<Rightarrow> u16" where
  "flags_db2sub fl =
     (if fl AND ucast ReverseDup \<noteq> 0 then ucast ReverseKey else 0) OR
     (if fl AND ucast DupFixed \<noteq> 0 then ucast DupFixed else 0) OR
     (if fl AND ucast IntegerDup \<noteq> 0 then ucast IntegerKey else 0)"

text \<open>The changed node goes over the old one if it fits, and then \<open>f\<close> updates the counters.\<close>

definition replace_entry :: "world \<Rightarrow> cst \<Rightarrow> pref \<Rightarrow> int \<Rightarrow> bytes \<Rightarrow> (cst \<Rightarrow> cst option) \<Rightarrow> (cst \<times> bool) option" where
  "replace_entry w s r idx nd f =
     do { p \<leftarrow> page_of s r;
          (p, done') \<leftarrow> updateEntry p idx nd;
          if done' then do { s \<leftarrow> store s r p; s \<leftarrow> set_cpage (top_ix (cc s)) r s; s \<leftarrow> f s; Some (c_markDirty s, True) }
          else Some (s, False) }"

text \<open>The old entry is removed and the new node inserted, with a split if there is no room.\<close>

definition reinsert :: "world \<Rightarrow> cst \<Rightarrow> pref \<Rightarrow> int \<Rightarrow> bytes \<Rightarrow> (cst \<times> goerror option) option" where
  "reinsert w s r idx nd =
     do { p \<leftarrow> page_of s r; (p, _) \<leftarrow> removeEntry p idx; s \<leftarrow> store s r p; insertNodeAt w s r idx nd True }"

definition incItems :: "cst \<Rightarrow> cst option" where
  "incItems s = upd_ctree (\<lambda>tr. tr\<lparr>Items := Items tr + 1\<rparr>) s"

definition count_item :: "(cst \<times> goerror option) option \<Rightarrow> (cst \<times> goerror option) option" where
  "count_item m = do { (s, err) \<leftarrow> m; if err = None then map_option (\<lambda>s. (s, None)) (incItems s) else Some (s, err) }"

text \<open>The values go into a page of their own: one after the other for a fixed size, as nodes otherwise.\<close>

fun fill_fixed :: "bytes \<Rightarrow> nat \<Rightarrow> nat \<Rightarrow> bytes list \<Rightarrow> bytes option" where
  "fill_fixed d ks i [] = Some d"
| "fill_fixed d ks i (v # vs) = do { d \<leftarrow> go_copy d (20 + int (i * ks)) v; fill_fixed d ks (Suc i) vs }"

fun fill_nodes :: "bytes \<Rightarrow> page \<Rightarrow> nat \<Rightarrow> bytes list \<Rightarrow> (page \<times> bool) option" where
  "fill_nodes pooled p i [] = Some (p, True)"
| "fill_nodes pooled p i (v # vs) =
     do { (p, fits) \<leftarrow> insertEntry p (int i) (buildSubTreeNode v) pooled;
          if fits then fill_nodes pooled p (Suc i) vs else Some (p, False) }"

definition sub_root :: "world \<Rightarrow> page \<Rightarrow> bool \<Rightarrow> u16 \<Rightarrow> bytes list \<Rightarrow> (page \<times> bool) option" where
  "sub_root w q dupFixed ps vs =
     (if dupFixed then
        do { let vsz = (if vs = [] then 0 else of_nat (length (hd vs)) :: u32);
             h \<leftarrow> header q;
             q \<leftarrow> (if vs \<noteq> [] then do { q \<leftarrow> setFlags q (hFlags h OR pageDupfix); setDupfixKsize q (ucast vsz) } else Some q);
             d \<leftarrow> fill_fixed (Data q) (unat vsz) 0 vs;
             q \<leftarrow> setLower (q\<lparr>Data := d\<rparr>) 0;
             q \<leftarrow> setUpper q (ps - phs16 - of_nat (length vs) * ucast vsz);
             Some (q, True) }
      else fill_nodes (poolPage w) q 0 vs)"

definition convertToSubTree :: "world \<Rightarrow> cst \<Rightarrow> pref \<Rightarrow> int \<Rightarrow> bytes \<Rightarrow> bytes list \<Rightarrow> (cst \<times> goerror option) option" where
  "convertToSubTree w s r idx skey vs =
     do { (s, pg, qr, q) \<leftarrow> new_page w s pageLeaf;
          tr \<leftarrow> tree_of s;
          let dupFixed = (tFlags tr AND ucast DupFixed \<noteq> 0);
          (q, whole) \<leftarrow> sub_root w q dupFixed (of_int (uint (envPageSize (ce s)))) vs;
          s \<leftarrow> store s qr q;
          if \<not> whole then Some (s, Some (NewError ErrPageFull))
          else do {
            let sub = \<lparr>tFlags = flags_db2sub (tFlags tr), Height = 1,
              DupfixSize = (if dupFixed \<and> vs \<noteq> [] then of_nat (length (hd vs)) else 0), Root = pg, BranchPages = 0, LeafPages = 1,
              LargePages = 0, Sequence = 0, Items = of_nat (length vs), ModTxnid = txnID_of (ct s)\<rparr>;
            nd \<leftarrow> buildNodeWithDupTree skey sub;
            (s, done') \<leftarrow> replace_entry w s r idx nd (upd_ctree (\<lambda>tr. tr\<lparr>LeafPages := LeafPages tr + 1\<rparr>));
            if done' then Some (s, None) else reinsert w s r idx nd } }"

section \<open>Inserting a value\<close>

definition convertToDupSubPage :: "world \<Rightarrow> cst \<Rightarrow> pref \<Rightarrow> int \<Rightarrow> bytes \<Rightarrow> bytes \<Rightarrow> (cst \<times> goerror option) option" where
  "convertToDupSubPage w s r idx skey newValue =
     do { p \<leftarrow> page_of s r;
          data \<leftarrow> nodeGetDataDirect p idx;
          case data of
            None \<Rightarrow> Some (s, Some ErrCorruptedError)
          | Some existing \<Rightarrow>
              do { (s, c) \<leftarrow> dup_cmp s existing newValue;
                   if c = 0 then Some (s, None)
                   else do {
                     let vs = (if c < 0 then [existing, newValue] else [newValue, existing]);
                     let sp = buildDupSubPage vs;
                     if nodeSize + int (length skey) + int (length sp) > LeafNodeMax (ce s) then convertToSubTree w s r idx skey vs
                     else do {
                       let nd = buildDupNode skey sp;
                       (s, done') \<leftarrow> replace_entry w s r idx nd incItems;
                       if done' then Some (s, None) else count_item (reinsert w s r idx nd) } } } }"

text \<open>The position of a new value among the sorted ones; \<open>None\<close> inside when it is there already.\<close>

fun value_position :: "cst \<Rightarrow> bytes \<Rightarrow> bytes list \<Rightarrow> nat \<Rightarrow> (cst \<times> nat option) option" where
  "value_position s v [] pos = Some (s, Some pos)"
| "value_position s v (x # xs) pos =
     do { (s, c) \<leftarrow> dup_cmp s v x;
          if c = 0 then Some (s, None)
          else if c < 0 then Some (s, Some pos)
          else value_position s v xs (Suc pos) }"

definition putDupSubPage :: "world \<Rightarrow> cst \<Rightarrow> pref \<Rightarrow> int \<Rightarrow> bytes \<Rightarrow> bytes \<Rightarrow> (cst \<times> goerror option) option" where
  "putDupSubPage w s r idx skey v =
     do { p \<leftarrow> page_of s r;
          data \<leftarrow> nodeGetDataDirect p idx;
          if data = None \<or> length (mapped data) < 16 then Some (s, Some ErrCorruptedError)
          else do {
            res \<leftarrow> parseSubPageValues (mapped data);
            case res of
              Inl err \<Rightarrow> Some (s, Some err)
            | Inr vs \<Rightarrow>
                do { (s, pos) \<leftarrow> value_position s v vs 0;
                     case pos of
                       None \<Rightarrow> Some (s, None)
                     | Some pos \<Rightarrow>
                         do { let vs = take pos vs @ [v] @ drop pos vs;
                              let sp = buildDupSubPage vs;
                              if nodeSize + int (length skey) + int (length sp) > LeafNodeMax (ce s) then convertToSubTree w s r idx skey vs
                              else do {
                                let nd = buildDupNode skey sp;
                                (s, done') \<leftarrow> replace_entry w s r idx nd incItems;
                                if done' then Some (s, None)
                                else do {
                                  let ps = (of_int (uint (envPageSize (ce s))) :: u16);
                                  p \<leftarrow> page_of s r;
                                  q \<leftarrow> compactTo p \<lparr>Data = replicate (unat ps) 0\<rparr> ps (poolPage w);
                                  (q, done') \<leftarrow> updateEntry q idx nd;
                                  if done' then
                                    do { s \<leftarrow> store s r (p\<lparr>Data := blit (Data p) 0 (Data q)\<rparr>);
                                         s \<leftarrow> set_cpage (top_ix (cc s)) r s;
                                         s \<leftarrow> incItems s;
                                         Some (c_markDirty s, None) }
                                  else count_item (reinsert w s r idx nd) } } } } } }"

text \<open>
  A new cursor over the sub-tree: its tree is not one of the transaction's trees, so while it works
  the sub-tree stands in the place of the table's tree.
\<close>

definition with_subtree :: "cst \<Rightarrow> tree \<Rightarrow> (cst \<Rightarrow> (cst \<times> 'a) option) \<Rightarrow> (cst \<times> tree \<times> 'a) option" where
  "with_subtree s sub f =
     do { main \<leftarrow> tree_of s;
          let dbi = cdbi (cc s);
          (s', x) \<leftarrow> f (s\<lparr>ct := (ct s)\<lparr>trees := (trees (ct s))[dbi := sub]\<rparr>, cc := newCursor\<lparr>cdbi := dbi\<rparr>\<rparr>);
          sub' \<leftarrow> tree_of s';
          Some (s\<lparr>ce := ce s', ct := (ct s')\<lparr>trees := (trees (ct s'))[dbi := main]\<rparr>\<rparr>, sub', x) }"

definition sub_insert :: "world \<Rightarrow> bytes \<Rightarrow> cst \<Rightarrow> (cst \<times> (goerror + bool)) option" where
  "sub_insert w v s =
     do { (s, res) \<leftarrow> searchForInsert s v;
          case res of
            Inl err \<Rightarrow> Some (s, Inl err)
          | Inr True \<Rightarrow> Some (s, Inr False)
          | Inr False \<Rightarrow>
              do { (s, err) \<leftarrow> insertNode w s (buildSubTreeNode v);
                   Some (s, case err of Some x \<Rightarrow> Inl x | None \<Rightarrow> Inr True) } }"

definition putDupSubTree :: "world \<Rightarrow> cst \<Rightarrow> bytes \<Rightarrow> (cst \<times> goerror option) option" where
  "putDupSubTree w s v =
     (if top_ix (cc s) < 0 then Some (s, Some (NewError ErrInvalid))
      else do {
        p \<leftarrow> page_at s (top_ix (cc s));
        idx \<leftarrow> cur_index s;
        n \<leftarrow> nodeFromPage p idx;
        case n of
          None \<Rightarrow> Some (s, Some ErrCorruptedError)
        | Some n \<Rightarrow>
            do { h \<leftarrow> nheader n;
                 if Flags h AND nodeTree = 0 then Some (s, Some (NewError ErrIncompatible))
                 else do {
                   data \<leftarrow> nodeData n;
                   case parseTreeFromBytes (mapped data) of
                     None \<Rightarrow> Some (s, Some ErrCorruptedError)
                   | Some sub \<Rightarrow>
                       do { (s, sub, res) \<leftarrow> with_subtree s sub (sub_insert w v);
                            case res of
                              Inl err \<Rightarrow> Some (s, Some err)
                            | Inr False \<Rightarrow> Some (s, None)
                            | Inr True \<Rightarrow>
                                do { let sub = set_modTxnid s sub;
                                     mainKey \<leftarrow> key n;
                                     with_touched w s (\<lambda>s r.
                                       do { nd \<leftarrow> buildNodeWithDupTree (mapped mainKey) sub;
                                            (s, done') \<leftarrow> replace_entry w s r idx nd incItems;
                                            Some (s, if done' then None else Some (NewError ErrPageFull)) }) } } } } })"

definition putDupSort :: "world \<Rightarrow> cst \<Rightarrow> bytes \<Rightarrow> bytes \<Rightarrow> u64 \<Rightarrow> (cst \<times> goerror option) option" where
  "putDupSort w s skey v fl =
     (if top_ix (cc s) < 0 then Some (s, Some ErrCorruptedError)
      else do {
        (s, err) \<leftarrow> (if fl AND AppendDup \<noteq> 0 then checkAppendDup s v else Some (s, None));
        if err \<noteq> None then Some (s, err)
        else with_touched w s (\<lambda>s r.
          do { idx \<leftarrow> cur_index s;
               p \<leftarrow> page_of s r;
               nf \<leftarrow> nodeGetFlagsDirect p idx;
               if nf AND nodeTree \<noteq> 0 then putDupSubTree w s v
               else if nf AND nodeDup \<noteq> 0 then putDupSubPage w s r idx skey v
               else convertToDupSubPage w s r idx skey v }) })"

section \<open>Put\<close>

text \<open>A large value over a large value, in its pages if they suffice.\<close>

definition put_in_place :: "world \<Rightarrow> cst \<Rightarrow> bytes \<Rightarrow> (cst \<times> goerror option option) option" where
  "put_in_place w s v =
     do { p \<leftarrow> page_at s (top_ix (cc s));
          idx \<leftarrow> cur_index s;
          fl \<leftarrow> nodeGetFlagsDirect p idx;
          if fl AND nodeBig = 0 then Some (s, None)
          else do {
            oldPgno \<leftarrow> nodeGetOverflowPgnoDirect p idx;
            oldSize \<leftarrow> nodeGetDataSizeDirect p idx;
            (e, t, done') \<leftarrow> updateOverflowInPlace w (ce s) (ct s) (cdbi (cc s)) oldPgno oldSize v;
            let s = s\<lparr>ce := e, ct := t\<rparr>;
            if \<not> done' then Some (s, None)
            else if (of_nat (length v) :: u32) \<noteq> oldSize then
              map_option (\<lambda>(s, err). (s, Some err)) (updateBigNodeSize w s (of_nat (length v)))
            else map_option (\<lambda>(s, err). (s, Some err)) (with_touched w s (\<lambda>s _. Some (c_markDirty s, None))) } }"

definition is_big :: "env \<Rightarrow> bytes \<Rightarrow> bytes \<Rightarrow> bool" where
  "is_big e skey v \<longleftrightarrow>
     int (length v) > MaxValSize e \<or> 8 + int (length skey) + int (length v) > uint (envPageSize e) - 20 - 2"

definition putAfterPosition :: "world \<Rightarrow> cst \<Rightarrow> bytes \<Rightarrow> bytes \<Rightarrow> u64 \<Rightarrow> bool \<Rightarrow> bool \<Rightarrow> (cst \<times> goerror option) option" where
  "putAfterPosition w s skey v fl exact dupSort =
     (if dupSort \<and> exact then putDupSort w s skey v fl
      else do {
        let big = is_big (ce s) skey v;
        (s, r) \<leftarrow> (if exact \<and> big then put_in_place w s v else Some (s, None));
        case r of
          Some err \<Rightarrow> Some (s, err)
        | None \<Rightarrow>
            do { (s, nd, _) \<leftarrow> buildNode w s skey v big;
                 if exact then updateNode w s nd else insertNode w s nd } })"

text \<open>NoOverwrite and NoDupData at an existing key.\<close>

definition put_refused :: "cst \<Rightarrow> bytes \<Rightarrow> u64 \<Rightarrow> bool \<Rightarrow> bool \<Rightarrow> (cst \<times> bool) option" where
  "put_refused s v fl exact dupSort =
     do { (s, no) \<leftarrow>
            (if exact \<and> fl AND NoOverwrite \<noteq> 0 then (if dupSort then hasDupValue s v else Some (s, True)) else Some (s, False));
          if no then Some (s, True)
          else if exact \<and> dupSort \<and> fl AND NoDupData \<noteq> 0 then hasDupValue s v
          else Some (s, False) }"

definition put :: "world \<Rightarrow> cst \<Rightarrow> bytes \<Rightarrow> bytes \<Rightarrow> u64 \<Rightarrow> (cst \<times> goerror option) option" where
  "put w s skey v fl =
     (if int (length skey) > MaxKeySize (ce s) then Some (s, Some (NewError ErrBadValSize))
      else do {
        tr \<leftarrow> tree_of s;
        let dupSort = (tFlags tr AND ucast DupSort \<noteq> 0);
        if fl AND Append \<noteq> 0 then
          do { (s, res) \<leftarrow> positionForAppend (cursor_reset s) skey;
               case res of Inl err \<Rightarrow> Some (s, Some err) | Inr exact \<Rightarrow> putAfterPosition w s skey v fl exact dupSort }
        else do {
          (s, res) \<leftarrow> searchForInsert (cursor_reset s) skey;
          case res of
            Inl err \<Rightarrow> if \<not> IsNotFound (Some err) then Some (s, Some err) else putAfterPosition w s skey v fl False dupSort
          | Inr exact \<Rightarrow>
              do { (s, no) \<leftarrow> put_refused s v fl exact dupSort;
                   if no then Some (s, Some (NewError ErrKeyExist)) else putAfterPosition w s skey v fl exact dupSort } } })"

definition PutTree :: "world \<Rightarrow> cst \<Rightarrow> bytes \<Rightarrow> bytes \<Rightarrow> u64 \<Rightarrow> (cst \<times> goerror option) option" where
  "PutTree w s skey treeData fl =
     (if int (length skey) > MaxKeySize (ce s) then Some (s, Some (NewError ErrBadValSize))
      else if length treeData \<noteq> 48 then Some (s, Some (NewError ErrBadValSize))
      else do {
        (s, res) \<leftarrow> searchForInsert (cursor_reset s) skey;
        case res of
          Inl err \<Rightarrow>
            if \<not> IsNotFound (Some err) then Some (s, Some err)
            else do { (s, nd, _) \<leftarrow> buildNodeWithFlags w s skey treeData False nodeTree; insertNode w s nd }
        | Inr exact \<Rightarrow>
            if exact \<and> fl AND NoOverwrite \<noteq> 0 then Some (s, Some (NewError ErrKeyExist))
            else do { (s, nd, _) \<leftarrow> buildNodeWithFlags w s skey treeData False nodeTree;
                      if exact then updateNode w s nd else insertNode w s nd } })"

text \<open>Cursor.Put, on an open cursor.  The code of the refusal is the one of ResultTrue.\<close>

definition ErrPermissionDenied :: ErrorCode where "ErrPermissionDenied = - 1"

definition cursor_Put :: "world \<Rightarrow> cst \<Rightarrow> bytes \<Rightarrow> bytes \<Rightarrow> u64 \<Rightarrow> (cst \<times> goerror option) option" where
  "cursor_Put w s skey v fl =
     (if txnFlags (ct s) AND ucast TxnReadOnly \<noteq> 0 then Some (s, Some (NewError ErrPermissionDenied)) else put w s skey v fl)"

end
