(* ===== verification/CursorDel.thy ===== *)
theory CursorDel
  imports CursorDup
begin

text \<open>
  Deletion through a cursor (cursor_modify.go): the current node, a value of an inline sub-page or of
  a sub-tree, and the removal of pages that became empty.
\<close>

section \<open>Empty pages\<close>

definition free_page_no :: "cst \<Rightarrow> page \<Rightarrow> cst option" where
  "free_page_no s p = do { pg \<leftarrow> pageNo p; Some (s\<lparr>ct := (ct s)\<lparr>freePages := freePages (ct s) @ [pg]\<rparr>\<rparr>) }"

definition less_branch :: "tree \<Rightarrow> tree" where
  "less_branch tr = (if BranchPages tr > 0 then tr\<lparr>BranchPages := BranchPages tr - 1\<rparr> else tr)"

definition less_leaf :: "tree \<Rightarrow> tree" where
  "less_leaf tr = (if LeafPages tr > 0 then tr\<lparr>LeafPages := LeafPages tr - 1\<rparr> else tr)"

text \<open>
  The entry of the empty page leaves the parent.  A root without entries ends the tree, a root branch
  with one child gives way to the child; an empty branch below the root stays.
\<close>

definition freeEmptyPage :: "world \<Rightarrow> cst \<Rightarrow> page \<Rightarrow> (cst \<times> goerror option) option" where
  "freeEmptyPage w s emptyPage =
     (if top_ix (cc s) \<le> 0 then Some (s, None)
      else do {
        s \<leftarrow> free_page_no s emptyPage;
        leafp \<leftarrow> isLeaf emptyPage;
        s \<leftarrow> upd_ctree (if leafp then less_leaf else less_branch) s;
        (s, _) \<leftarrow> popPage s;
        with_touched w s (\<lambda>s r.
          do { idx \<leftarrow> cur_index s;
               p \<leftarrow> page_of s r;
               (p, ok') \<leftarrow> removeEntry p idx;
               s \<leftarrow> store s r p;
               if \<not> ok' then Some (s, Some ErrCorruptedError)
               else do {
                 s \<leftarrow> set_cpage (top_ix (cc s)) r s;
                 leafp \<leftarrow> isLeaf p;
                 let n = numEntries p;
                 if n = 1 \<and> top_ix (cc s) = 0 \<and> \<not> leafp then
                   do { child \<leftarrow> getChildPgno p 0;
                        s \<leftarrow> upd_ctree (\<lambda>tr. tr\<lparr>Root := child, Height := Height tr - 1\<rparr>) s;
                        s \<leftarrow> free_page_no s p;
                        s \<leftarrow> upd_ctree less_branch s;
                        pushPageByPgno (set_top (- 1) s) child 0 }
                 else do {
                   s \<leftarrow>
                     (if n = 0 \<and> top_ix (cc s) = 0 then
                        do { s \<leftarrow> upd_ctree (\<lambda>tr. tr\<lparr>Root := invalidPgno, Height := 0\<rparr>) s;
                             s \<leftarrow> free_page_no s p;
                             upd_ctree less_branch s }
                      else Some s);
                   s \<leftarrow> (if idx \<ge> n \<and> n > 0 then set_index (top_ix (cc s)) (of_int (n - 1)) s else Some s);
                   Some (s, None) } } }) })"

section \<open>The current node\<close>

text \<open>How many values the node stands for.\<close>

definition node_items :: "tree \<Rightarrow> page \<Rightarrow> int \<Rightarrow> u8 \<Rightarrow> u64 option" where
  "node_items tr p idx fl =
     (if tFlags tr AND ucast DupSort = 0 then Some 1
      else if fl AND nodeTree \<noteq> 0 then
        do { sz \<leftarrow> nodeGetDataSizeDirect p idx;
             data \<leftarrow> nodeGetDataDirect p idx;
             Some (if sz \<ge> 48 \<and> 40 \<le> length (mapped data) then g64 (mapped data) 32 else 1) }
      else if fl AND nodeDup \<noteq> 0 then
        do { data \<leftarrow> nodeGetDataDirect p idx;
             Some (if 14 \<le> length (mapped data) then ucast (drop_bit 1 (g16 (mapped data) 12)) else 1) }
      else Some 1)"

text \<open>Where the cursor stands after the page has lost its last entry.\<close>

definition at_eof :: "cst \<Rightarrow> cst" where
  "at_eof s = set_afterDelete False (set_state cursorEOF s)"

definition after_empty :: "world \<Rightarrow> cst \<Rightarrow> page \<Rightarrow> (cst \<times> goerror option) option" where
  "after_empty w s p =
     (if top_ix (cc s) = 0 then
        do { s \<leftarrow> upd_ctree (\<lambda>tr. tr\<lparr>Root := invalidPgno, Height := 0, LeafPages := 0\<rparr>) s;
             s \<leftarrow> free_page_no s p;
             Some (at_eof s, None) }
      else do {
        (s, err) \<leftarrow> freeEmptyPage w s p;
        if err \<noteq> None then Some (s, err)
        else do {
          q \<leftarrow> page_at s (top_ix (cc s));
          ix \<leftarrow> at_ix (indices (cc s)) (top_ix (cc s));
          if numEntries q > 0 \<and> ix < of_int (numEntries q) then
            do { leafp \<leftarrow> isLeaf q;
                 if leafp then Some (set_afterDelete True s, None)
                 else do { (s, r) \<leftarrow> descendLeft s;
                           Some (case r of Inl _ \<Rightarrow> at_eof s | Inr _ \<Rightarrow> set_afterDelete True s, None) } }
          else Some (at_eof s, None) } })"

definition delNode :: "world \<Rightarrow> cst \<Rightarrow> (cst \<times> goerror option) option" where
  "delNode w s =
     with_touched w s (\<lambda>s r.
       do { idx \<leftarrow> cur_index s;
            p \<leftarrow> page_of s r;
            fl \<leftarrow> nodeGetFlagsDirect p idx;
            s \<leftarrow> free_old_overflow s p idx;
            tr \<leftarrow> tree_of s;
            n \<leftarrow> node_items tr p idx fl;
            (p, ok') \<leftarrow> removeEntry p idx;
            s \<leftarrow> store s r p;
            if \<not> ok' then Some (s, Some ErrCorruptedError)
            else do {
              s \<leftarrow> set_cpage (top_ix (cc s)) r s;
              s \<leftarrow> upd_ctree (\<lambda>tr. set_modTxnid s (tr\<lparr>Items := Items tr - n\<rparr>)) s;
              let s = clearDupState s;
              (s, err) \<leftarrow>
                (if numEntries p = 0 then after_empty w s p
                 else if idx \<ge> numEntries p then Some (set_afterDelete False s, None)
                 else Some (set_afterDelete True s, None));
              Some (if err = None then c_markDirty s else s, err) } })"

section \<open>Values of a sub-page\<close>

definition convertDupToSingle :: "world \<Rightarrow> cst \<Rightarrow> pref \<Rightarrow> int \<Rightarrow> bytes \<Rightarrow> bytes \<Rightarrow> (cst \<times> goerror option) option" where
  "convertDupToSingle w s r idx skey v =
     do { (s, err) \<leftarrow> replaceNodeAt w s r idx (node_bytes (of_nat (length v)) 0 skey v);
          if err \<noteq> None then Some (s, err)
          else do {
            let s = on_dup (\<lambda>d. d\<lparr>dInitialized := False, subPageNum := 0, subPageData := [], nodePositions := []\<rparr>) s;
            s \<leftarrow> set_cpage (top_ix (cc s)) r (set_afterDelete True s);
            s \<leftarrow> upd_ctree (set_modTxnid s) s;
            Some (c_markDirty s, None) } }"

definition delDupSubPageValue :: "world \<Rightarrow> cst \<Rightarrow> (cst \<times> goerror option) option" where
  "delDupSubPageValue w s =
     with_touched w s (\<lambda>s r.
       do { idx \<leftarrow> cur_index s;
            p \<leftarrow> page_of s r;
            data \<leftarrow> nodeGetDataDirect p idx;
            case data of
              None \<Rightarrow> Some (s, Some ErrCorruptedError)
            | Some d \<Rightarrow>
                do { res \<leftarrow> parseSubPageValues d;
                     case res of
                       Inl err \<Rightarrow> Some (s, Some err)
                     | Inr vs \<Rightarrow>
                         do { let i = subPageIdx (dup (cc s));
                              if i \<ge> int (length vs) then Some (s, Some ErrCorruptedError)
                              else do {
                                let vs = (if i < 0 then vs else take (nat i) vs @ drop (Suc (nat i)) vs);
                                k \<leftarrow> nodeGetKeyDirect p idx;
                                case k of
                                  None \<Rightarrow> Some (s, Some ErrCorruptedError)
                                | Some k \<Rightarrow>
                                    if vs = [] then delNode w s
                                    else if length vs = 1 then convertDupToSingle w s r idx k (hd vs)
                                    else do {
                                      let sp = buildDupSubPage vs;
                                      (s, err) \<leftarrow> replaceNodeAt w s r idx (buildDupNode k sp);
                                      if err \<noteq> None then Some (s, err)
                                      else do {
                                        (s, _) \<leftarrow> initDupSubPage s sp;
                                        let s = (if subPageIdx (dup (cc s)) \<ge> int (length vs)
                                          then on_dup (\<lambda>d. d\<lparr>subPageIdx := int (length vs) - 1\<rparr>) s else s);
                                        s \<leftarrow> set_cpage (top_ix (cc s)) r s;
                                        s \<leftarrow> upd_ctree (\<lambda>tr. set_modTxnid s (tr\<lparr>Items := Items tr - 1\<rparr>)) s;
                                        Some (set_afterDelete True (c_markDirty s), None) } } } } } })"

section \<open>Values of a sub-tree\<close>

text \<open>A private copy of a page of the sub-tree, in the mapping or in a buffer of its own.\<close>

definition copy_sub_page :: "world \<Rightarrow> cst \<Rightarrow> page \<Rightarrow> (cst \<times> pgno \<times> nat) option" where
  "copy_sub_page w s p =
     do { let newPgno = allocatedPg (ct s);
          let t = (ct s)\<lparr>allocatedPg := newPgno + 1\<rparr>;
          let (t, a) =
            (if isWriteMap (ce s) \<and> getMmapPageData (ce s) newPgno \<noteq> None then new_struct t (MapPage newPgno)
             else new_struct (t\<lparr>hasNonMmapPages := True\<rparr>) (OwnPage (poolPage w)));
          q \<leftarrow> deref (ce s) t a;
          let q = q\<lparr>Data := blit (Data q) 0 (Data p)\<rparr>;
          q \<leftarrow> setPageNo q newPgno;
          q \<leftarrow> setTxnid_h q (txnID_of t);
          let (e, t) = write_struct (ce s) t a (Data q);
          t \<leftarrow> tracker_set t newPgno a;
          Some (s\<lparr>ce := e, ct := t\<rparr>, newPgno, a) }"

text \<open>\<open>Some (s, False)\<close>: a level of the stack has no page.\<close>

definition touch_sub_level :: "world \<Rightarrow> cst \<Rightarrow> int \<Rightarrow> (cst \<times> bool) option" where
  "touch_sub_level w s l =
     do { r \<leftarrow> at_ix (subPages (dup (cc s))) l;
          case r of
            None \<Rightarrow> Some (s, False)
          | Some r \<Rightarrow>
              do { p \<leftarrow> page_of s r;
                   oldPgno \<leftarrow> pageNo p;
                   d \<leftarrow> tracker_ref (ct s) oldPgno;
                   h \<leftarrow> header p;
                   case d of
                     Some a \<Rightarrow> do { s \<leftarrow> set_subPage l (Some (Ref a)) s; Some (s, True) }
                   | None \<Rightarrow>
                       if isWriteMap (ce s) \<and> hTxnid h = txnID_of (ct s) then
                         do { let (t, a) = new_struct (ct s) (MapPage oldPgno);
                              t \<leftarrow> tracker_set t oldPgno a;
                              s \<leftarrow> set_subPage l (Some (Ref a)) (s\<lparr>ct := t\<rparr>);
                              Some (s, True) }
                       else
                         do { (s, newPgno, a) \<leftarrow> copy_sub_page w s p;
                              s \<leftarrow> set_subPage l (Some (Ref a)) s;
                              s \<leftarrow>
                                (if l = 0 then Some (on_dup (\<lambda>d. d\<lparr>subTree := (subTree d)\<lparr>Root := newPgno\<rparr>\<rparr>) s)
                                 else do {
                                   parent \<leftarrow> at_ix (subPages (dup (cc s))) (l - 1);
                                   parent \<leftarrow> parent;
                                   parentIdx \<leftarrow> at_ix (subIndices (dup (cc s))) (l - 1);
                                   updateChildPointer s parent (uint parentIdx) newPgno });
                              Some (s, True) } } }"

fun touch_sub_levels :: "world \<Rightarrow> cst \<Rightarrow> int list \<Rightarrow> (cst \<times> bool) option" where
  "touch_sub_levels w s [] = Some (s, True)"
| "touch_sub_levels w s (l # ls) =
     do { (s, found) \<leftarrow> touch_sub_level w s l; if found then touch_sub_levels w s ls else Some (s, False) }"

definition touchSubTreePath :: "world \<Rightarrow> cst \<Rightarrow> (cst \<times> (goerror + pref)) option" where
  "touchSubTreePath w s =
     (if subTop (dup (cc s)) < 0 then Some (s, Inl ErrCorruptedError)
      else do {
        (s, found) \<leftarrow> touch_sub_levels w s [0..subTop (dup (cc s))];
        if \<not> found then Some (s, Inl ErrCorruptedError)
        else do { r \<leftarrow> at_ix (subPages (dup (cc s))) (subTop (dup (cc s))); r \<leftarrow> r; Some (s, Inr r) } })"

definition freeSubTreePages :: "cst \<Rightarrow> cst option" where
  "freeSubTreePages s =
     (if LeafPages (subTree (dup (cc s))) > 0 then upd_ctree (\<lambda>tr. tr\<lparr>LeafPages := LeafPages tr - 1\<rparr>) s else Some s)"

definition on_subTree :: "(tree \<Rightarrow> tree) \<Rightarrow> cst \<Rightarrow> cst" where
  "on_subTree f s = on_dup (\<lambda>d. d\<lparr>subTree := f (subTree d)\<rparr>) s"

text \<open>After the value has left its leaf: the node of the key gets the changed record of the sub-tree.\<close>

definition finish_sub_delete :: "world \<Rightarrow> cst \<Rightarrow> pref \<Rightarrow> int \<Rightarrow> bytes \<Rightarrow> page \<Rightarrow> int \<Rightarrow> (cst \<times> goerror option) option" where
  "finish_sub_delete w s mainPage mainIdx mainKey subLeaf subIdx =
     do { let n = numEntries subLeaf;
          let s = (if n = 0 \<and> subTop (dup (cc s)) > 0 then on_subTree (\<lambda>tr. tr\<lparr>LeafPages := LeafPages tr - 1\<rparr>) s else s);
          nd \<leftarrow> buildNodeWithDupTree mainKey (subTree (dup (cc s)));
          (s, err) \<leftarrow> replaceNodeAt w s mainPage mainIdx nd;
          if err \<noteq> None then Some (s, err)
          else do {
            s \<leftarrow> set_cpage (top_ix (cc s)) mainPage s;
            s \<leftarrow> upd_ctree (\<lambda>tr. set_modTxnid s (tr\<lparr>Items := Items tr - 1\<rparr>)) s;
            s \<leftarrow> (if subIdx \<ge> n \<and> n > 0 then set_subIndex (subTop (dup (cc s))) (of_int (n - 1)) s else Some s);
            Some (set_afterDelete True (on_dup (\<lambda>d. d\<lparr>atFirst := False, atLast := False\<rparr>) (c_markDirty s)), None) } }"

definition delDupSubTreeValue :: "world \<Rightarrow> cst \<Rightarrow> (cst \<times> goerror option) option" where
  "delDupSubTreeValue w s =
     (if subTop (dup (cc s)) < 0 then Some (s, Some ErrCorruptedError)
      else with_touched w s (\<lambda>s mainPage.
        do { mainIdx \<leftarrow> cur_index s;
             mp \<leftarrow> page_of s mainPage;
             k \<leftarrow> nodeGetKeyDirect mp mainIdx;
             case k of
               None \<Rightarrow> Some (s, Some ErrCorruptedError)
             | Some mainKey \<Rightarrow>
                 do { (s, res) \<leftarrow> touchSubTreePath w s;
                      case res of
                        Inl err \<Rightarrow> Some (s, Some err)
                      | Inr lr \<Rightarrow>
                          do { subIdx \<leftarrow> map_option uint (at_ix (subIndices (dup (cc s))) (subTop (dup (cc s))));
                               p \<leftarrow> page_of s lr;
                               (p, ok') \<leftarrow> removeEntry p subIdx;
                               s \<leftarrow> store s lr p;
                               if \<not> ok' then Some (s, Some ErrCorruptedError)
                               else do {
                                 let s = on_subTree (\<lambda>tr. set_modTxnid s (tr\<lparr>Items := Items tr - 1\<rparr>)) s;
                                 if Items (subTree (dup (cc s))) = 0 then do { s \<leftarrow> freeSubTreePages s; delNode w s }
                                 else finish_sub_delete w s mainPage mainIdx mainKey p subIdx } } } }))"

section \<open>Del\<close>

definition delDupValue :: "world \<Rightarrow> cst \<Rightarrow> (cst \<times> goerror option) option" where
  "delDupValue w s =
     (if isSubTree (dup (cc s)) then delDupSubTreeValue w s
      else if subPageNum (dup (cc s)) \<le> 1 then delNode w s
      else delDupSubPageValue w s)"

definition del :: "world \<Rightarrow> cst \<Rightarrow> u64 \<Rightarrow> (cst \<times> goerror option) option" where
  "del w s fl =
     (if top_ix (cc s) < 0 \<or> state (cc s) \<noteq> cursorPointing then Some (s, Some ErrNotFoundError)
      else do {
        tr \<leftarrow> tree_of s;
        if fl AND NoDupData \<noteq> 0 \<or> fl AND AllDups \<noteq> 0 then delNode w s
        else if tFlags tr AND ucast DupSort \<noteq> 0 \<and> dInitialized (dup (cc s)) \<and>
                (subPageNum (dup (cc s)) > 0 \<or> isSubTree (dup (cc s))) then delDupValue w s
        else delNode w s })"

definition cursor_Del :: "world \<Rightarrow> cst \<Rightarrow> u64 \<Rightarrow> (cst \<times> goerror option) option" where
  "cursor_Del w s fl =
     (if txnFlags (ct s) AND ucast TxnReadOnly \<noteq> 0 then Some (s, Some (NewError ErrPermissionDenied))
      else if state (cc s) \<noteq> cursorPointing then Some (s, Some ErrNotFoundError)
      else del w s fl)"

end
