(* ===== verification/DupSpec.thy ===== *)
theory DupSpec
  imports CursorDel WriteSamples
begin

text \<open>
  Inline sub-pages: what is decoded from an encoded list of values is the list, the binary search
  finds exactly its members, and a new value goes to its place in the order.
\<close>

section \<open>The layout of a sub-page\<close>

abbreviation node_sizes :: "bytes list \<Rightarrow> nat" where "node_sizes vs \<equiv> sum_list (map (\<lambda>v. 8 + length v) vs)"

lemma concat_split_nth: "i < length xs \<Longrightarrow> concat (map g xs) = concat (map g (take i xs)) @ g (xs ! i) @ concat (map g (drop (Suc i) xs))"
  by (subst id_take_nth_drop [of i xs]) simp_all

lemma length_subpage_header [simp]: "length (subpage_header n) = 20"
  by (simp add: subpage_header_def enc16_def enc32_def enc64_def)

lemma length_ptrs [simp]: "length (concat (map (\<lambda>i. enc16 (f i)) xs)) = 2 * length xs"
  by (induction xs) (simp_all add: enc16_def)

lemma length_sub_node [simp]: "length (buildSubTreeNode v) = 8 + length v"
  by (simp add: buildSubTreeNode_def node_bytes_def enc16_def enc32_def)

lemma length_sub_nodes [simp]: "length (concat (map buildSubTreeNode vs)) = node_sizes vs"
  by (induction vs) simp_all

lemma length_buildDupSubPage [simp]: "length (buildDupSubPage vs) = subpage_size vs"
  by (simp add: buildDupSubPage_def subpage_size_def)

lemma node_sizes_take_drop: "node_sizes vs = node_sizes (take i vs) + node_sizes (drop i vs)"
  by (metis append_take_drop_id map_append sum_list_append)

lemma node_position_eq: "node_position vs i = 20 + 2 * length vs + node_sizes (take i vs)"
  using node_sizes_take_drop [of vs i] by (simp add: node_position_def subpage_size_def)

lemma node_position_end:
  assumes "i < length vs"
  shows "node_position vs i + 8 + length (vs ! i) \<le> subpage_size vs"
  using node_sizes_take_drop [of vs i] assms by (simp add: node_position_eq subpage_size_def Cons_nth_drop_Suc [symmetric])

text \<open>A sub-page whose offsets fit 16 bits.\<close>

definition values_fit :: "bytes list \<Rightarrow> bool" where "values_fit vs \<longleftrightarrow> subpage_size vs \<le> 65535"

lemma subpage_head:
  "20 \<le> subpage_size vs" "g16 (buildDupSubPage vs) 8 = 65535" "g16 (buildDupSubPage vs) 10 = 66"
  "g16 (buildDupSubPage vs) 12 = of_nat (length vs * 2)"
  by (simp_all add: subpage_size_def buildDupSubPage_def subpage_header_def g_skip g_here pageLeaf_def pageSubP_def)

lemma unat_small: "n \<le> 65535 \<Longrightarrow> unat (of_nat n :: u16) = n" "n \<le> 65535 \<Longrightarrow> uint (of_nat n :: u16) = int n"
  by (simp_all add: unat_of_nat uint_nat)

lemma subpage_entry:
  assumes "values_fit vs" "i < length vs"
  shows "rd16 (buildDupSubPage vs) (20 + int i * 2) = Some (of_nat (node_position vs i - 20))"
    "uint (of_nat (node_position vs i - 20) :: u16) = int (node_position vs i) - 20"
    "rd16 (buildDupSubPage vs) (int (node_position vs i) + 6) = Some (of_nat (length (vs ! i)))"
    "uint (of_nat (length (vs ! i)) :: u16) = int (length (vs ! i))"
    "slice (buildDupSubPage vs) (int (node_position vs i) + 8) (int (node_position vs i) + 8 + int (length (vs ! i))) = Some (vs ! i)"
proof -
  let ?d = "buildDupSubPage vs" and ?pos = "node_position vs i" and ?v = "vs ! i"
  note e = node_position_end [OF assms(2)] and fit = assms(1) [unfolded values_fit_def]
  have pos: "20 \<le> ?pos" by (simp add: node_position_eq)
  show "uint (of_nat (?pos - 20) :: u16) = int ?pos - 20" using unat_small(2) [of "?pos - 20"] e fit pos by simp
  show "uint (of_nat (length ?v) :: u16) = int (length ?v)" using unat_small(2) [of "length ?v"] e fit by simp
  have i: "i < length [0..<length vs]" using assms(2) by simp
  have d: "?d = (subpage_header (length vs) @ concat (map (\<lambda>i. enc16 (of_nat (node_position vs i - 20))) (take i [0..<length vs]))) @
      enc16 (of_nat (?pos - 20)) @ concat (map (\<lambda>i. enc16 (of_nat (node_position vs i - 20))) (drop (Suc i) [0..<length vs])) @
      concat (map buildSubTreeNode vs)"
    unfolding buildDupSubPage_def concat_split_nth [OF i] using assms(2) by simp
  have "g16 ?d (20 + 2 * i) = of_nat (?pos - 20)"
    by (subst d) (simp add: g_skip g_here assms(2) less_imp_le)
  moreover have "20 + 2 * i + 1 < length ?d" using assms(2) by (simp add: subpage_size_def)
  ultimately have "rd16 ?d (int (20 + 2 * i)) = Some (of_nat (?pos - 20))" by (simp only: rd16_Some)
  then show "rd16 ?d (20 + int i * 2) = Some (of_nat (?pos - 20))" by (simp add: mult.commute)
  define A where "A = subpage_header (length vs) @ concat (map (\<lambda>i. enc16 (of_nat (node_position vs i - 20))) [0..<length vs]) @
    concat (map buildSubTreeNode (take i vs))"
  have lA: "length A = ?pos" using assms(2) by (simp add: A_def node_position_eq)
  define z where "z = enc32 0 @ [0, 0 :: u8]"
  have lz: "length z = 6" by (simp add: z_def)
  have d2: "?d = A @ z @ enc16 (of_nat (length ?v)) @ ?v @ concat (map buildSubTreeNode (drop (Suc i) vs))"
    unfolding buildDupSubPage_def A_def concat_split_nth [OF assms(2), of buildSubTreeNode]
    by (simp add: buildSubTreeNode_def node_bytes_def z_def)
  have "g16 ?d (?pos + 6) = of_nat (length ?v)"
    by (subst d2) (simp add: g_skip g_here lA lz)
  moreover have "?pos + 6 + 1 < length ?d" using e by simp
  ultimately have "rd16 ?d (int (?pos + 6)) = Some (of_nat (length ?v))" by (simp only: rd16_Some)
  then show "rd16 ?d (int ?pos + 6) = Some (of_nat (length ?v))" by simp
  have "slice ?d (int (?pos + 8)) (int (?pos + 8 + length ?v)) = Some (take (length ?v) (drop (?pos + 8) ?d))"
    using slice_nat [of "?pos + 8" "?pos + 8 + length ?v" ?d] e by (simp only: length_buildDupSubPage) simp
  also have "take (length ?v) (drop (?pos + 8) ?d) = ?v"
    by (subst d2) (simp add: lA lz)
  finally show "slice ?d (int ?pos + 8) (int ?pos + 8 + int (length ?v)) = Some ?v" by (simp add: add.assoc)
qed

section \<open>Decoding what was encoded\<close>

lemma node_values_build:
  assumes "values_fit vs" "k \<le> length vs"
  shows "node_values (buildDupSubPage vs) [k..<length vs] = Some (Inr (drop k vs))"
  using assms(2)
proof (induction k rule: inc_induct)
  case base
  then show ?case by simp
next
  case (step k)
  note e = subpage_entry [OF assms(1) step(2)] and l = node_position_end [OF step(2)]
  have len: "\<not> 20 + int k * 2 + 2 > int (subpage_size vs)" using step(2) by (simp add: subpage_size_def)
  have nl: "\<not> int (node_position vs k) + 8 > int (subpage_size vs)"
    "\<not> int (node_position vs k) + 8 + int (length (vs ! k)) > int (subpage_size vs)" using l by linarith+
  have u: "[k..<length vs] = k # [Suc k..<length vs]" using step(2) by (rule upt_conv_Cons)
  have "node_values (buildDupSubPage vs) [k..<length vs] = Some (Inr (vs ! k # drop (Suc k) vs))"
    unfolding u using e len nl step(3) by (simp add: Let_def)
  then show ?case using step(2) Cons_nth_drop_Suc [of k vs] by simp
qed

lemma parse_build:
  assumes "values_fit vs"
  shows "parseSubPageValues (buildDupSubPage vs) = Some (Inr vs)"
proof -
  have l: "length vs * 2 \<le> 65535" using assms by (simp add: values_fit_def subpage_size_def)
  have "nat (uint (of_nat (length vs * 2) :: u16) div 2) = length vs"
    by (simp only: unat_small(2) [OF l])
  then show ?thesis
    using node_values_build [OF assms, of 0] subpage_head [of vs]
    by (simp add: parseSubPageValues_def pageDupfix_def del: of_nat_mult)
qed

section \<open>The comparator of the duplicates\<close>

text \<open>The first comparison installs the comparator; after it the state does not change.\<close>

definition dup_order :: "cst \<Rightarrow> cmp_fn" where
  "dup_order s = (\<lambda>a b. case dup_cmp s a b of None \<Rightarrow> 0 | Some (_, c) \<Rightarrow> c)"

lemma initDupComparator_ok:
  assumes "initDupComparator e t dbi = Some t2" "dbi < length (dbiDupComparators t) \<Longrightarrow> dbi < length (dbiUsesDefaultDupCmp t)"
  shows "dbi < length (dbiDupComparators t2)" "dbi < length (dbiUsesDefaultDupCmp t2)" "dbiDupComparators t2 ! dbi \<noteq> None"
proof -
  define u where "u = (if dbi \<ge> length (dbiDupComparators t) then
                 let newSize = max (dbi + 1) 8 in
                 t\<lparr>dbiDupComparators := dbiDupComparators t @ replicate (newSize - length (dbiDupComparators t)) None,
                   dbiUsesDefaultDupCmp := take newSize
                     (dbiUsesDefaultDupCmp t @ replicate (newSize - length (dbiUsesDefaultDupCmp t)) False)\<rparr>
               else t)"
  have u: "dbi < length (dbiDupComparators u)" "dbi < length (dbiUsesDefaultDupCmp u)"
    using assms(2) by (cases "dbi \<ge> length (dbiDupComparators t)"; simp add: u_def Let_def)+
  have "dbi < length (dbiDupComparators t2) \<and> dbi < length (dbiUsesDefaultDupCmp t2) \<and> dbiDupComparators t2 ! dbi \<noteq> None"
  proof (cases "dbiDupComparators u ! dbi = None")
    case True
    then show ?thesis
      using assms(1) u unfolding initDupComparator_def u_def [symmetric] Let_def [of u] by (simp add: Let_def) auto
  next
    case False
    then have "t2 = u" using assms(1) unfolding initDupComparator_def u_def [symmetric] Let_def [of u] by simp
    then show ?thesis using u False by simp
  qed
  then show "dbi < length (dbiDupComparators t2)" "dbi < length (dbiUsesDefaultDupCmp t2)" "dbiDupComparators t2 ! dbi \<noteq> None" by simp_all
qed

lemma compareDupValues_stable:
  assumes "compareDupValues e t dbi a b = Some (t1, c)"
  shows "\<exists>cmp. \<forall>x y. compareDupValues e t dbi x y = Some (t1, cmp x y) \<and> compareDupValues e t1 dbi x y = Some (t1, cmp x y)"
proof -
  have inst: "\<exists>cmp. \<forall>x y. compareDupValues e t1 dbi x y = Some (t1, cmp x y) \<and>
      (if dbiUsesDefaultDupCmp t1 ! dbi then Some (t1, bytes_compare x y)
       else do { c \<leftarrow> dbiDupComparators t1 ! dbi; Some (t1, c x y) }) = Some (t1, cmp x y)"
    if "dbi < length (dbiDupComparators t1)" "dbi < length (dbiUsesDefaultDupCmp t1)" "dbiDupComparators t1 ! dbi \<noteq> None" for t1
    using that by (intro exI [of _ "if dbiUsesDefaultDupCmp t1 ! dbi then bytes_compare else the (dbiDupComparators t1 ! dbi)"])
      (auto simp: compareDupValues_def)
  show ?thesis
  proof (cases "dbi < length (dbiDupComparators t) \<and> (dbiUsesDefaultDupCmp t ! dbi \<or> dbiDupComparators t ! dbi \<noteq> None)")
    case True
    then show ?thesis using assms by (auto simp: compareDupValues_def Let_def split: if_splits)
  next
    case False
    then have init: "compareDupValues e t dbi x y = (do { t \<leftarrow> initDupComparator e t dbi;
             if dbiUsesDefaultDupCmp t ! dbi then Some (t, bytes_compare x y)
             else do { c \<leftarrow> dbiDupComparators t ! dbi; Some (t, c x y) } })" for x y
      using assms by (auto simp: compareDupValues_def Let_def split: if_splits)
    obtain t2 where t2: "initDupComparator e t dbi = Some t2" using assms by (auto simp: init split: bind_splits)
    have "t2 = t1" using assms by (auto simp: init t2 split: if_splits bind_splits)
    moreover have "dbi < length (dbiDupComparators t2)" "dbi < length (dbiUsesDefaultDupCmp t2)" "dbiDupComparators t2 ! dbi \<noteq> None"
      using initDupComparator_ok [OF t2] assms by (auto simp: compareDupValues_def Let_def split: if_splits)
    ultimately obtain cmp where "compareDupValues e t1 dbi x y = Some (t1, cmp x y) \<and>
      (if dbiUsesDefaultDupCmp t1 ! dbi then Some (t1, bytes_compare x y)
       else do { c \<leftarrow> dbiDupComparators t1 ! dbi; Some (t1, c x y) }) = Some (t1, cmp x y)" for x y
      using inst [of t1] by blast
    then have "\<forall>x y. compareDupValues e t dbi x y = Some (t1, cmp x y) \<and> compareDupValues e t1 dbi x y = Some (t1, cmp x y)"
      using t2 \<open>t2 = t1\<close> unfolding init by (simp only: bind.bind_lunit simp_thms)
    then show ?thesis by blast
  qed
qed

lemma dup_cmp_eq:
  assumes "dup_cmp s [] [] = Some (s1, c0)"
  shows "dup_cmp s a b = Some (s1, dup_order s a b)" "dup_cmp s1 a b = Some (s1, dup_order s a b)"
proof -
  obtain t1 where t1: "compareDupValues (ce s) (ct s) (cdbi (cc s)) [] [] = Some (t1, c0)" "s1 = s\<lparr>ct := t1\<rparr>"
    using assms by (auto simp: dup_cmp_def split: bind_splits)
  from compareDupValues_stable [OF t1(1)] obtain cmp where
    cmp: "compareDupValues (ce s) (ct s) (cdbi (cc s)) x y = Some (t1, cmp x y)"
      "compareDupValues (ce s) t1 (cdbi (cc s)) x y = Some (t1, cmp x y)" for x y by blast
  have "dup_order s x y = cmp x y" for x y by (simp add: dup_order_def dup_cmp_def cmp)
  then show "dup_cmp s a b = Some (s1, dup_order s a b)" "dup_cmp s1 a b = Some (s1, dup_order s a b)"
    by (simp_all add: dup_cmp_def cmp t1(2))
qed

section \<open>Searching\<close>

lemma bsearch_st_pure:
  assumes "\<And>i. lo \<le> i \<Longrightarrow> i \<le> hi \<Longrightarrow> c s i = Some (s1, Some (r i))" "\<And>i. lo \<le> i \<Longrightarrow> i \<le> hi \<Longrightarrow> c s1 i = Some (s1, Some (r i))"
  shows "bsearch_st c s lo hi = map_option (\<lambda>x. (if lo \<le> hi then s1 else s, Some x)) (bsearch (\<lambda>i. Some (r i)) lo hi)"
  using assms
proof (induction "nat (hi - lo + 1)" arbitrary: s lo hi rule: less_induct)
  case less
  show ?case
  proof (cases "lo \<le> hi")
    case False
    then show ?thesis by (subst bsearch_st.simps, subst bsearch.simps) simp
  next
    case True
    let ?mid = "(lo + hi) div 2"
    have mid: "lo \<le> ?mid" "?mid \<le> hi" using True by auto
    have c: "c s ?mid = Some (s1, Some (r ?mid))" using less.prems(1) mid by simp
    have l: "bsearch_st c s1 lo (?mid - 1) = map_option (\<lambda>x. (s1, Some x)) (bsearch (\<lambda>i. Some (r i)) lo (?mid - 1))"
      using less.hyps [of "?mid - 1" lo s1] less.prems(2) mid by (simp split: if_splits)
    have h: "bsearch_st c s1 (?mid + 1) hi = map_option (\<lambda>x. (s1, Some x)) (bsearch (\<lambda>i. Some (r i)) (?mid + 1) hi)"
      using less.hyps [of hi "?mid + 1" s1] less.prems(2) mid by (simp split: if_splits)
    show ?thesis
      using True by (subst bsearch_st.simps, subst bsearch.simps) (simp add: c l h Let_def)
  qed
qed

context key_order
begin

lemma flipped: "key_order (\<lambda>a b. - cmp b a)"
proof
  show "- cmp a a = 0" for a by (simp add: cmp_refl)
  show "- cmp b a < 0 \<longleftrightarrow> 0 < - cmp a b" for a b using cmp_flip [of a b] by linarith
  show "- cmp c a \<le> 0" if "- cmp b a \<le> 0" "- cmp c b \<le> 0" for a b c
    using cmp_trans [of a b c] that cmp_le_flip [of a b] cmp_le_flip [of b c] cmp_le_flip [of a c] by linarith
qed

lemma sorted_from_flipped: "sorted_from (\<lambda>a b. - cmp b a) m ks \<longleftrightarrow> sorted_from cmp m ks"
proof -
  have "- cmp b a < 0 \<longleftrightarrow> cmp a b < 0" for a b using cmp_flip [of a b] by linarith
  then show ?thesis by (simp add: sorted_from_def)
qed

lemma has_key_flipped: "has_key (\<lambda>a b. - cmp b a) ks k \<longleftrightarrow> has_key cmp ks k"
  using cmp_eq_flip by (auto simp: has_key_def)

end

lemma sub_value_build:
  assumes "values_fit vs" "i < length vs"
  shows "sub_value (buildDupSubPage vs) False (int i) = Some (Inr (vs ! i))"
proof -
  note e = subpage_entry [OF assms] and l = node_position_end [OF assms(2)]
  have "\<not> 20 + int i * 2 + 2 > int (subpage_size vs)" using assms(2) by (simp add: subpage_size_def)
  moreover have "\<not> int (node_position vs i) + 8 > int (subpage_size vs)"
    "int (node_position vs i) + 8 + int (length (vs ! i)) \<le> int (subpage_size vs)" using l by linarith+
  ultimately show ?thesis
    using e by (simp add: sub_value_def pageHeaderSize_def nodeSize_def Let_def add.commute)
qed

lemma hasDupValueInSubPage_build:
  assumes "values_fit vs" "vs \<noteq> []" "dup_cmp s [] [] = Some (s1, c0)" "key_order (dup_order s)" "sorted_from (dup_order s) 0 vs"
  shows "hasDupValueInSubPage s (buildDupSubPage vs) v = Some (s1, has_key (dup_order s) vs v)"
proof -
  let ?d = "buildDupSubPage vs"
  have l: "length vs * 2 \<le> 65535" using assms(1) by (simp add: values_fit_def subpage_size_def)
  have lower: "uint (g16 ?d 12) = 2 * int (length vs)" unfolding subpage_head(4) unat_small(2) [OF l] by simp
  define c where "c = probe (\<lambda>mid. map_option (\<lambda>x. case x of Inl _ \<Rightarrow> None | Inr w \<Rightarrow> Some w) (sub_value ?d False mid))
            (\<lambda>s w. do { (s, c) \<leftarrow> dup_cmp s w v; Some (s, - c) })"
  have cc: "c s i = Some (s1, Some (- dup_order s (vs ! nat i) v))" "c s1 i = Some (s1, Some (- dup_order s (vs ! nat i) v))"
    if "0 \<le> i" "i \<le> int (length vs) - 1" for i
  proof -
    have "sub_value ?d False (int (nat i)) = Some (Inr (vs ! nat i))" using that by (intro sub_value_build assms(1)) simp
    then show "c s i = Some (s1, Some (- dup_order s (vs ! nat i) v))" "c s1 i = Some (s1, Some (- dup_order s (vs ! nat i) v))"
      using that dup_cmp_eq [OF assms(3)] by (simp_all add: c_def probe_def)
  qed
  have bs: "bsearch (\<lambda>i. Some (- dup_order s (vs ! nat i) v)) 0 (int (length vs) - 1) =
      Some (if has_key (dup_order s) vs v then Inl (int (leaf_pos (\<lambda>a b. - dup_order s b a) vs v))
            else Inr (int (leaf_pos (\<lambda>a b. - dup_order s b a) vs v)))"
    using key_order.leaf_search [OF key_order.flipped [OF assms(4)], of vs "length vs" "\<lambda>i. Some (- dup_order s (vs ! nat i) v)" v]
      key_order.sorted_from_flipped [OF assms(4)] key_order.has_key_flipped [OF assms(4)] assms(5) by simp
  have "bsearch_st c s 0 (int (length vs) - 1) = map_option (\<lambda>x. (s1, Some x)) (bsearch (\<lambda>i. Some (- dup_order s (vs ! nat i) v)) 0 (int (length vs) - 1))"
    using bsearch_st_pure [of 0 "int (length vs) - 1" c s s1 "\<lambda>i. - dup_order s (vs ! nat i) v"] cc assms(2) by simp
  then have "dup_found (\<lambda>mid. map_option (\<lambda>x. case x of Inl _ \<Rightarrow> None | Inr w \<Rightarrow> Some w) (sub_value ?d False mid))
            (\<lambda>s w. do { (s, c) \<leftarrow> dup_cmp s w v; Some (s, - c) }) s 0 (int (length vs) - 1) = Some (s1, has_key (dup_order s) vs v)"
    by (simp add: dup_found_def c_def bs)
  moreover have "\<not> subpage_size vs < 20" using subpage_head(1) [of vs] by simp
  moreover have "length vs > 0" using assms(2) by simp
  ultimately show ?thesis
    by (simp add: hasDupValueInSubPage_def Let_def lower subpage_head(2,3) pageDupfix_def)
qed

section \<open>The place of a new value\<close>

lemma value_position_ok:
  assumes "dup_cmp s [] [] = Some (s1, c0)" "key_order (dup_order s)" "sorted_from (dup_order s) 0 vs"
  shows "value_position s v vs 0 = Some (if vs = [] then s else s1,
    if has_key (dup_order s) vs v then None else Some (leaf_pos (dup_order s) vs v))"
proof -
  have go: "value_position x v (drop i vs) i = Some (if drop i vs = [] then x else s1,
      if has_key (dup_order s) vs v then None else Some (leaf_pos (dup_order s) vs v))"
    if "i \<le> length vs" "\<forall>j < i. 0 < dup_order s v (vs ! j)" "x = s \<or> x = s1" for i x
    using that
  proof (induction i arbitrary: x rule: inc_induct)
    case base
    have "\<forall>x \<in> set vs. 0 < dup_order s v x" using base(1) by (auto simp: in_set_conv_nth)
    then have "filter (\<lambda>x. 0 < dup_order s v x) vs = vs" by (simp add: filter_id_conv)
    then have "leaf_pos (dup_order s) vs v = length vs" by (simp add: leaf_pos_def)
    moreover have "\<not> has_key (dup_order s) vs v"
      using \<open>\<forall>x \<in> set vs. 0 < dup_order s v x\<close> by (auto simp: has_key_def)
    ultimately show ?case by simp
  next
    case (step i)
    have d: "drop i vs = vs ! i # drop (Suc i) vs" using step(2) by (simp add: Cons_nth_drop_Suc)
    have c: "dup_cmp x v (vs ! i) = Some (s1, dup_order s v (vs ! i))" using step.prems(2) dup_cmp_eq [OF assms(1)] by auto
    consider "dup_order s v (vs ! i) = 0" | "dup_order s v (vs ! i) < 0" | "0 < dup_order s v (vs ! i)" by linarith
    then show ?case
    proof cases
      case 1
      then have "has_key (dup_order s) vs v" using step(2) nth_mem by (auto simp: has_key_def)
      then show ?thesis using 1 by (simp add: d c)
    next
      case 2
      have after: "dup_order s v (vs ! j) < 0" if "i \<le> j" "j < length vs" for j
        using key_order.key_after [OF assms(2,3), of i j v] 2 that by (cases "i = j") auto
      have "leaf_pos (dup_order s) vs v = i"
        unfolding leaf_pos_def using step.prems(1) after step(2)
        by (intro length_filter_prefix) (auto simp: less_imp_not_less order.asym)
      moreover have "\<not> has_key (dup_order s) vs v"
      proof
        assume "has_key (dup_order s) vs v"
        then obtain j where j: "j < length vs" "dup_order s v (vs ! j) = 0" by (auto simp: has_key_def in_set_conv_nth)
        have "0 < dup_order s v (vs ! j) \<or> dup_order s v (vs ! j) < 0"
          using step.prems(1) after [of j] j(1) by (cases "j < i") (simp_all add: not_less)
        then show False using j(2) by simp
      qed
      ultimately show ?thesis using 2 by (simp add: d c)
    next
      case 3
      then have "\<forall>j < Suc i. 0 < dup_order s v (vs ! j)" using step.prems(1) by (auto simp: less_Suc_eq)
      then have "value_position s1 v (drop (Suc i) vs) (Suc i) = Some (if drop (Suc i) vs = [] then s1 else s1,
        if has_key (dup_order s) vs v then None else Some (leaf_pos (dup_order s) vs v))" using step.IH [of s1] by simp
      then show ?thesis using 3 by (simp add: d c)
    qed
  qed
  from go [of 0 s] show ?thesis by simp
qed

lemma sorted_insert:
  assumes "key_order cmp" "sorted_from cmp 0 vs" "\<not> has_key cmp vs v"
  shows "sorted_from cmp 0 (take (leaf_pos cmp vs v) vs @ [v] @ drop (leaf_pos cmp vs v) vs)"
proof -
  let ?i = "leaf_pos cmp vs v"
  have s: "sorted_wrt (\<lambda>a b. cmp a b < 0) vs" using assms(2) by (simp add: sorted_from_def)
  have ne: "cmp v x \<noteq> 0" if "x \<in> set vs" for x using assms(3) that by (auto simp: has_key_def)
  have pre: "filter (\<lambda>x. 0 < cmp v x) vs = take ?i vs \<and> (\<forall>x \<in> set (drop ?i vs). cmp v x < 0)"
    using s ne
  proof (induction vs)
    case (Cons x xs)
    show ?case
    proof (cases "0 < cmp v x")
      case True
      then show ?thesis using Cons by (simp add: leaf_pos_def)
    next
      case False
      then have x: "cmp v x < 0" using Cons.prems(2) [of x] by simp
      have "cmp v y < 0" if "y \<in> set xs" for y
        using key_order.less_trans [OF assms(1) x, of y] Cons.prems(1) that by (simp add: less_imp_le)
      then have "filter (\<lambda>x. 0 < cmp v x) (x # xs) = []" using x by (auto simp: filter_empty_conv dest: order.asym)
      moreover have "\<forall>y \<in> set (x # xs). cmp v y < 0" using x \<open>\<And>y. y \<in> set xs \<Longrightarrow> cmp v y < 0\<close> by simp
      ultimately show ?thesis by (simp only: leaf_pos_def list.size take_0 drop_0)
    qed
  qed (simp add: leaf_pos_def)
  have before: "cmp x v < 0" if "x \<in> set (take ?i vs)" for x
  proof -
    have "x \<in> set (filter (\<lambda>x. 0 < cmp v x) vs)" using that pre by simp
    then show ?thesis using key_order.cmp_flip [OF assms(1), of x v] by simp
  qed
  have "sorted_wrt (\<lambda>a b. cmp a b < 0) (take ?i vs @ drop ?i vs)" using s by simp
  then have "sorted_wrt (\<lambda>a b. cmp a b < 0) (take ?i vs)" "sorted_wrt (\<lambda>a b. cmp a b < 0) (drop ?i vs)"
    "\<forall>x \<in> set (take ?i vs). \<forall>y \<in> set (drop ?i vs). cmp x y < 0"
    unfolding sorted_wrt_append by blast+
  then show ?thesis using pre before unfolding sorted_from_def drop_0 sorted_wrt_append by simp
qed

section \<open>A sample\<close>

text \<open>A cursor of the sample transaction with the default comparator of the duplicates cached.\<close>

definition sample_dup_cursor :: cst where
  "sample_dup_cursor = \<lparr>ce = sample_env,
     ct = sample_wtxn\<lparr>dbiDupComparators := [None, None, Some bytes_compare], dbiUsesDefaultDupCmp := [False, False, True]\<rparr>,
     cc = newCursor\<lparr>cdbi := 2\<rparr>\<rparr>"

lemma sample_dup_cmp:
  "dup_cmp sample_dup_cursor a b = Some (sample_dup_cursor, bytes_compare a b)" "dup_order sample_dup_cursor = bytes_compare"
  by (simp_all add: dup_order_def dup_cmp_def sample_dup_cursor_def compareDupValues_def newCursor_def)

section \<open>The positioned cursor\<close>

text \<open>The positioned cursor reads the value from the position it found, unless it has 4096 bytes or more.\<close>

lemma read_positions_build:
  "values_fit vs \<Longrightarrow> \<forall>i \<in> set js. i < length vs \<Longrightarrow> read_positions (buildDupSubPage vs) js = Some (map (\<lambda>i. int (node_position vs i)) js)"
proof (induction js)
  case (Cons i js)
  then have "rd16 (buildDupSubPage vs) (20 + 2 * int i) = Some (of_nat (node_position vs i - 20))"
    "uint (of_nat (node_position vs i - 20) :: u16) = int (node_position vs i) - 20"
    using subpage_entry(1,2) [of vs i] by (simp_all add: mult.commute)
  then show ?case using Cons by (simp add: pageHeaderSize_def)
qed simp

lemma sub_layout_build:
  assumes "values_fit vs" "vs \<noteq> []"
  shows "sub_layout (buildDupSubPage vs) = Some (0, int (length vs), map (\<lambda>i. int (node_position vs i)) [0..<length vs])"
proof -
  have s: "20 + 2 * length vs \<le> subpage_size vs" by (simp add: subpage_size_def)
  then have l: "uint (of_nat (length vs * 2) :: u16) = int (2 * length vs)"
    using assms(1) unat_small(2) [of "length vs * 2"] by (simp add: values_fit_def)
  have "read_positions (buildDupSubPage vs) [0..<length vs] = Some (map (\<lambda>i. int (node_position vs i)) [0..<length vs])"
    by (rule read_positions_build [OF assms(1)]) simp
  moreover have "0 < length vs" "int (2 * length vs) div 2 = int (length vs)" using assms(2) by simp_all
  ultimately show ?thesis using s by (simp add: sub_layout_def subpage_head Let_def pageDupfix_def l del: of_nat_mult)
qed

lemma getDupValue_build:
  assumes "values_fit vs" "i < length vs"
  shows "\<exists>s1. initDupSubPage s (buildDupSubPage vs) = Some (s1, None) \<and>
    getDupValue (on_dup (\<lambda>d. d\<lparr>subPageIdx := int i\<rparr>) s1) = Some (if length (vs ! i) < 4096 then Inr (vs ! i) else Inl ErrCorruptedError)"
proof -
  have ne: "vs \<noteq> []" using assms(2) by auto
  note lay = sub_layout_build [OF assms(1) ne]
  have len: "\<not> subpage_size vs < 20" by (simp add: subpage_size_def)
  note e = subpage_entry [OF assms] and l = node_position_end [OF assms(2)]
  have at: "at_ix (map (\<lambda>i. int (node_position vs i)) [0..<length vs]) (int i) = Some (int (node_position vs i))"
    using assms(2) by (simp add: at_ix_def)
  have n: "\<not> int (node_position vs i) + 8 > int (subpage_size vs)"
    "int (node_position vs i) + 8 + int (length (vs ! i)) \<le> int (subpage_size vs)" using l by linarith+
  have v: "slice (buildDupSubPage vs) (int (node_position vs i) + 8) (int (node_position vs i) + 8 + int (length (vs ! i))) = Some (vs ! i)"
    using e by (simp add: add.commute)
  show ?thesis
    using lay len at n v e(3,4) assms(2) by (simp add: initDupSubPage_def getDupValue_def on_dup_def Let_def add.commute)
qed

section \<open>Properties of sub-pages\<close>

text \<open>C37: an inline sub-page keeps its values, as long as its offsets fit 16 bits: what parseSubPageValues decodes from
  the bytes that buildDupSubPage encodes is the list of values; the direct search of a value reads the
  i-th of them; and a cursor that initDupSubPage has put on the sub-page, at position i, returns the i-th
  value when it is shorter than 4096 bytes, and reports a corrupted page when it is not.
\<close>
theorem sub_page_codec:
  assumes "values_fit vs"
  shows "parseSubPageValues (buildDupSubPage vs) = Some (Inr vs) \<and>
    (\<forall>i < length vs. sub_value (buildDupSubPage vs) False (int i) = Some (Inr (vs ! i)) \<and>
      (\<exists>s1. initDupSubPage s (buildDupSubPage vs) = Some (s1, None) \<and>
        getDupValue (on_dup (\<lambda>d. d\<lparr>subPageIdx := int i\<rparr>) s1) =
          Some (if length (vs ! i) < 4096 then Inr (vs ! i) else Inl ErrCorruptedError)))"
  using parse_build [OF assms] sub_value_build [OF assms] getDupValue_build [OF assms] by blast

lemma sub_page_codec_witness:
  "parseSubPageValues (buildDupSubPage [[1], [], [2, 3]]) = Some (Inr [[1], [], [2, 3]]) \<and>
   (\<exists>s1. initDupSubPage sample_dup_cursor (buildDupSubPage [[1], [], [2, 3]]) = Some (s1, None) \<and>
     getDupValue (on_dup (\<lambda>d. d\<lparr>subPageIdx := 2\<rparr>) s1) = Some (Inr [2, 3]))"
proof -
  have "values_fit [[1], [], [2, 3]]" by (simp add: values_fit_def subpage_size_def)
  note c = sub_page_codec [OF this, of sample_dup_cursor]
  have "2 < length [[1], [], [2, 3 :: u8]]" by simp
  with c show ?thesis by fastforce
qed

text \<open>C38: a value is inserted into the sorted values of a sub-page at its place and at most once: the binary search
  of hasDupValueInSubPage on the encoded bytes answers whether the value is there, and the loop of
  putDupSubPage finds no place when it is, and otherwise the place that keeps the values sorted.
\<close>
theorem sub_page_insert:
  assumes "values_fit vs" "vs \<noteq> []" "dup_cmp s [] [] = Some (s1, c0)" "key_order (dup_order s)"
    and "sorted_wrt (\<lambda>a b. dup_order s a b < 0) vs"
  shows "if \<exists>x \<in> set vs. dup_order s v x = 0
    then hasDupValueInSubPage s (buildDupSubPage vs) v = Some (s1, True) \<and> value_position s v vs 0 = Some (s1, None)
    else hasDupValueInSubPage s (buildDupSubPage vs) v = Some (s1, False) \<and>
      (\<exists>i \<le> length vs. value_position s v vs 0 = Some (s1, Some i) \<and>
        sorted_wrt (\<lambda>a b. dup_order s a b < 0) (take i vs @ [v] @ drop i vs))"
proof -
  have s: "sorted_from (dup_order s) 0 vs" using assms(5) by (simp add: sorted_from_def)
  have h: "has_key (dup_order s) vs v \<longleftrightarrow> (\<exists>x \<in> set vs. dup_order s v x = 0)" by (auto simp: has_key_def)
  note a = hasDupValueInSubPage_build [OF assms(1-4) s, of v] value_position_ok [OF assms(3,4) s, of v]
  show ?thesis
  proof (cases "has_key (dup_order s) vs v")
    case True
    then show ?thesis using a assms(2) h by simp
  next
    case False
    have "leaf_pos (dup_order s) vs v \<le> length vs" by (simp add: leaf_pos_def)
    then show ?thesis using a assms(2) h False sorted_insert [OF assms(4) s False] by (auto simp: sorted_from_def)
  qed
qed

lemma sub_page_insert_witness:
  "\<exists>i \<le> 2. value_position sample_dup_cursor [2] [[1], [3]] 0 = Some (sample_dup_cursor, Some i) \<and>
     sorted_wrt (\<lambda>a b. bytes_compare a b < 0) (take i [[1], [3]] @ [[2]] @ drop i [[1], [3]])"
proof -
  have c: "bytes_compare [2] [1] = 1" "bytes_compare [2] [3] = - 1" "bytes_compare [1] [3] = - 1" by (code_simp+)
  have f: "values_fit [[1], [3]]" by (simp add: values_fit_def subpage_size_def)
  have o: "key_order (dup_order sample_dup_cursor)" unfolding sample_dup_cmp(2) by (rule bytes.key_order_axioms)
  have s: "sorted_wrt (\<lambda>a b. dup_order sample_dup_cursor a b < 0) [[1], [3]]" by (simp add: sample_dup_cmp(2) c)
  have n: "\<not> (\<exists>x \<in> set [[1], [3]]. dup_order sample_dup_cursor [2] x = 0)" by (simp add: sample_dup_cmp(2) c)
  note r = sub_page_insert [OF f _ sample_dup_cmp(1) [of "[]" "[]"] o s, of "[2]", unfolded if_not_P [OF n]]
  have l: "length ([[1], [3]] :: bytes list) = 2" by simp
  show ?thesis using r unfolding sample_dup_cmp(2) l by blast
qed

end
