(* ===== verification/WTree.thy ===== *)
theory WTree
  imports TreePath
begin

text \<open>
  Trees under change: the tree of pages as an abstract tree without page numbers, the page numbers of
  a tree, and what happens to a tree when a page in it is copied to another number, an entry of a
  branch is pointed to the copy, or a subtree is changed.
\<close>

section \<open>Abstract trees\<close>

datatype btree = BLeaf "bytes list" | BNode "bytes list" "btree list"

fun abst :: "(pgno \<Rightarrow> page option) \<Rightarrow> nat \<Rightarrow> pgno \<Rightarrow> btree" where
  "abst rd 0 pg = BLeaf (case rd pg of None \<Rightarrow> [] | Some p \<Rightarrow> entries p)"
| "abst rd (Suc h) pg =
     (case rd pg of None \<Rightarrow> BNode [] [] | Some p \<Rightarrow> BNode (keys_of p) (map (abst rd h) (kids p)))"

fun bleaves :: "btree \<Rightarrow> bytes list" where
  "bleaves (BLeaf ns) = ns"
| "bleaves (BNode ks ts) = concat (map bleaves ts)"

lemma leaf_nodes_abst: "leaf_nodes rd h pg = bleaves (abst rd h pg)"
proof (induction h arbitrary: pg)
  case (Suc h)
  have m: "map (leaf_nodes rd h) xs = map (\<lambda>x. bleaves (abst rd h x)) xs" for xs using Suc by simp
  show ?case by (auto simp: leaf_nodes_kids comp_def m simp del: leaf_nodes.simps map_eq_conv split: option.splits)
qed (simp split: option.splits)

fun bt_get :: "btree \<Rightarrow> nat list \<Rightarrow> btree" where
  "bt_get t [] = t"
| "bt_get (BNode ks ts) (i # is) = bt_get (ts ! i) is"
| "bt_get (BLeaf ns) (i # is) = BLeaf ns"

fun bt_put :: "btree \<Rightarrow> nat list \<Rightarrow> btree \<Rightarrow> btree" where
  "bt_put t [] x = x"
| "bt_put (BNode ks ts) (i # is) x = BNode ks (ts[i := bt_put (ts ! i) is x])"
| "bt_put (BLeaf ns) (i # is) x = BLeaf ns"

lemma bt_put_get [simp]: "bt_put t is (bt_get t is) = t"
  by (induction t "is" rule: bt_get.induct) simp_all

section \<open>The page numbers of a tree\<close>

fun tpages :: "(pgno \<Rightarrow> page option) \<Rightarrow> nat \<Rightarrow> pgno \<Rightarrow> pgno list" where
  "tpages rd 0 pg = [pg]"
| "tpages rd (Suc h) pg = pg # (case rd pg of None \<Rightarrow> [] | Some p \<Rightarrow> concat (map (tpages rd h) (kids p)))"

lemma tpages_hd: "tpages rd h pg = pg # tl (tpages rd h pg)"
  by (cases h) simp_all

lemma hd_tpages [simp]: "hd (tpages rd h pg) = pg" and tpages_ne [simp]: "tpages rd h pg \<noteq> []"
  by (subst tpages_hd, simp)+

lemma tpages_self [simp]: "pg \<in> set (tpages rd h pg)"
  by (subst tpages_hd) simp

text \<open>Every page of the tree is there and has the property \<open>Q\<close> at its height and under its number.\<close>

fun tall :: "(nat \<Rightarrow> pgno \<Rightarrow> page \<Rightarrow> bool) \<Rightarrow> (pgno \<Rightarrow> page option) \<Rightarrow> nat \<Rightarrow> pgno \<Rightarrow> bool" where
  "tall Q rd 0 pg = (case rd pg of None \<Rightarrow> False | Some p \<Rightarrow> Q 0 pg p)"
| "tall Q rd (Suc h) pg =
     (case rd pg of None \<Rightarrow> False | Some p \<Rightarrow> Q (Suc h) pg p \<and> (\<forall>c \<in> set (kids p). tall Q rd h c))"

lemma tall_top: "tall Q rd h pg \<Longrightarrow> \<exists>p. rd pg = Some p \<and> Q h pg p"
  by (cases h) (auto split: option.splits)

lemma tall_mono: "tall Q rd h pg \<Longrightarrow> (\<And>h q p. Q h q p \<Longrightarrow> R h q p) \<Longrightarrow> tall R rd h pg"
  by (induction h arbitrary: pg) (auto split: option.splits)

lemma tall_pages: "tall Q rd h pg \<Longrightarrow> q \<in> set (tpages rd h pg) \<Longrightarrow> \<exists>i p. rd q = Some p \<and> Q i q p"
proof (induction h arbitrary: pg)
  case 0
  then show ?case by (auto split: option.splits)
next
  case (Suc h)
  then obtain p where "rd pg = Some p" "Q (Suc h) pg p" "\<forall>c \<in> set (kids p). tall Q rd h c" by (auto split: option.splits)
  then show ?case using Suc.IH Suc.prems(2) by auto
qed

text \<open>All of this depends on the pages of the tree alone.\<close>

lemma tree_frame:
  assumes "\<And>q. q \<in> set (tpages rd h pg) \<Longrightarrow> rd' q = rd q"
  shows "tpages rd' h pg = tpages rd h pg \<and> abst rd' h pg = abst rd h pg \<and> tall Q rd' h pg = tall Q rd h pg"
  using assms
proof (induction h arbitrary: pg)
  case 0
  then show ?case by simp
next
  case (Suc h)
  have pg: "rd' pg = rd pg" using Suc.prems by simp
  show ?case
  proof (cases "rd pg")
    case None
    then show ?thesis using pg by simp
  next
    case (Some p)
    have kid: "tpages rd' h c = tpages rd h c \<and> abst rd' h c = abst rd h c \<and> tall Q rd' h c = tall Q rd h c" if "c \<in> set (kids p)" for c
      by (rule Suc.IH, rule Suc.prems) (use that Some in auto)
    have m: "map (tpages rd' h) (kids p) = map (tpages rd h) (kids p)" "map (abst rd' h) (kids p) = map (abst rd h) (kids p)"
      using kid by simp_all
    have "tpages rd' (Suc h) pg = tpages rd (Suc h) pg" "abst rd' (Suc h) pg = abst rd (Suc h) pg"
      using pg Some by (simp_all add: m del: map_eq_conv)
    moreover have "tall Q rd' (Suc h) pg = tall Q rd (Suc h) pg" using pg Some kid by simp
    ultimately show ?thesis by blast
  qed
qed

lemma path_frame:
  "path rd h pg st \<Longrightarrow> (\<And>q. q \<in> set (tpages rd h pg) \<Longrightarrow> rd' q = rd q) \<Longrightarrow> path rd' h pg st"
proof (induction st arbitrary: h pg)
  case (Cons a st)
  obtain p i where a: "a = (p, i)" by (cases a)
  have pg: "rd' pg = Some p" using Cons.prems by (simp add: a)
  show ?case
  proof (cases h)
    case 0
    then show ?thesis using Cons.prems(1) pg by (simp add: a)
  next
    case (Suc h')
    then have p: "rd pg = Some p" "i < nents p" "path rd h' (kids p ! i) st" using Cons.prems(1) by (simp_all add: a)
    have "kids p ! i \<in> set (kids p)" using p(2) by simp
    then have "path rd' h' (kids p ! i) st" using Cons.IH [OF p(3)] Cons.prems(2) p(1) by (auto simp: Suc)
    then show ?thesis using p pg by (simp add: a Suc)
  qed
qed simp

lemmas frame_pages = tree_frame [THEN conjunct1]
lemmas frame_abst = tree_frame [THEN conjunct2, THEN conjunct1]
lemmas frame_tall = tree_frame [THEN conjunct2, THEN conjunct2]

section \<open>Changing a subtree\<close>

fun pg_at :: "pgno \<Rightarrow> tpath \<Rightarrow> nat \<Rightarrow> pgno" where
  "pg_at pg st 0 = pg"
| "pg_at pg [] (Suc l) = pg"
| "pg_at pg ((p, i) # st) (Suc l) = pg_at (kids p ! i) st l"

abbreviation steps :: "tpath \<Rightarrow> nat \<Rightarrow> nat list" where "steps st l \<equiv> map snd (take l st)"

text \<open>
  The page of the path at depth \<open>l\<close> is the root of a subtree; whatever happens to the pages of this
  subtree alone changes the whole tree at that place only.
\<close>

lemma subtree_replace:
  assumes "path rd h pg st" "l < length st" "distinct (tpages rd h pg)"
  shows "\<exists>A B. tpages rd h pg = A @ tpages rd (h - l) (pg_at pg st l) @ B \<and>
    path rd (h - l) (pg_at pg st l) (drop l st) \<and> bt_get (abst rd h pg) (steps st l) = abst rd (h - l) (pg_at pg st l) \<and>
    (\<forall>Q. tall Q rd h pg \<longrightarrow> tall Q rd (h - l) (pg_at pg st l)) \<and>
    (\<forall>rd'. (\<forall>q \<in> set A \<union> set B. rd' q = rd q) \<longrightarrow>
      tpages rd' h pg = A @ tpages rd' (h - l) (pg_at pg st l) @ B \<and>
      abst rd' h pg = bt_put (abst rd h pg) (steps st l) (abst rd' (h - l) (pg_at pg st l)) \<and>
      (\<forall>Q. tall Q rd h pg \<longrightarrow> tall Q rd' (h - l) (pg_at pg st l) \<longrightarrow> tall Q rd' h pg) \<and>
      (\<forall>st'. path rd' (h - l) (pg_at pg st l) st' \<longrightarrow> path rd' h pg (take l st @ st')))"
  using assms
proof (induction l arbitrary: h pg st)
  case 0
  show ?case by (intro exI [of _ "[]"]) (use 0 in auto)
next
  case (Suc l)
  from Suc.prems obtain p i st1 where st: "st = (p, i) # st1" by (cases st) auto
  from Suc.prems obtain h' where h: "h = Suc h'" by (cases h) (auto simp: st)
  from Suc.prems have p: "rd pg = Some p" "i < nents p" "path rd h' (kids p ! i) st1" "l < length st1" by (simp_all add: st h)
  let ?c = "kids p ! i" and ?q = "pg_at (kids p ! i) st1 l"
  define U where "U = concat (map (tpages rd h') (take i (kids p)))"
  define V where "V = concat (map (tpages rd h') (drop (Suc i) (kids p)))"
  have tp: "tpages rd h pg = pg # U @ tpages rd h' ?c @ V"
    using concat_split [of i "kids p" "tpages rd h'"] p by (simp add: h U_def V_def)
  have "distinct (tpages rd h' ?c)" using Suc.prems(3) by (simp add: tp)
  from Suc.IH [OF p(3,4) this] obtain A B where AB: "tpages rd h' ?c = A @ tpages rd (h' - l) ?q @ B"
    "path rd (h' - l) ?q (drop l st1)" "bt_get (abst rd h' ?c) (steps st1 l) = abst rd (h' - l) ?q"
    "\<forall>Q. tall Q rd h' ?c \<longrightarrow> tall Q rd (h' - l) ?q"
    and chg: "\<forall>rd'. (\<forall>q \<in> set A \<union> set B. rd' q = rd q) \<longrightarrow>
      tpages rd' h' ?c = A @ tpages rd' (h' - l) ?q @ B \<and>
      abst rd' h' ?c = bt_put (abst rd h' ?c) (steps st1 l) (abst rd' (h' - l) ?q) \<and>
      (\<forall>Q. tall Q rd h' ?c \<longrightarrow> tall Q rd' (h' - l) ?q \<longrightarrow> tall Q rd' h' ?c) \<and>
      (\<forall>st'. path rd' (h' - l) ?q st' \<longrightarrow> path rd' h' ?c (take l st1 @ st'))" by blast
  have ki: "?c \<in> set (kids p)" using p(2) by simp
  show ?case
  proof (rule exI [of _ "pg # U @ A"], rule exI [of _ "B @ V"], intro conjI allI impI)
    show "tpages rd h pg = (pg # U @ A) @ tpages rd (h - Suc l) (pg_at pg st (Suc l)) @ B @ V"
      using tp AB(1) by (simp add: st h)
    show "path rd (h - Suc l) (pg_at pg st (Suc l)) (drop (Suc l) st)" using AB(2) by (simp add: st h)
    show "bt_get (abst rd h pg) (steps st (Suc l)) = abst rd (h - Suc l) (pg_at pg st (Suc l))"
      using AB(3) p by (simp add: st h)
    show "tall Q rd (h - Suc l) (pg_at pg st (Suc l))" if "tall Q rd h pg" for Q
      using AB(4) that p(1) ki by (simp add: st h)
  next
    fix rd' assume rd': "\<forall>q \<in> set (pg # U @ A) \<union> set (B @ V). rd' q = rd q"
    then have pg: "rd' pg = Some p" using p(1) by simp
    have ag: "\<forall>q \<in> set A \<union> set B. rd' q = rd q" using rd' by auto
    note C = chg [THEN spec, THEN mp, OF ag]
    note c = C [THEN conjunct1] C [THEN conjunct2, THEN conjunct1] C [THEN conjunct2, THEN conjunct2, THEN conjunct1]
      C [THEN conjunct2, THEN conjunct2, THEN conjunct2]
    have side: "rd' q = rd q" if "x \<in> set (take i (kids p)) \<union> set (drop (Suc i) (kids p))" "q \<in> set (tpages rd h' x)" for x q
      using rd' that by (auto simp: U_def V_def)
    have other: "tpages rd' h' x = tpages rd h' x" "abst rd' h' x = abst rd h' x" "tall Q rd' h' x = tall Q rd h' x"
      if "x \<in> set (take i (kids p)) \<union> set (drop (Suc i) (kids p))" for x Q
      using frame_pages [OF side [OF that]] frame_abst [OF side [OF that]] frame_tall [OF side [OF that]] by auto
    have U': "concat (map (tpages rd' h') (take i (kids p))) = U" "concat (map (tpages rd' h') (drop (Suc i) (kids p))) = V"
      unfolding U_def V_def using other(1) by (simp_all cong: map_cong)
    show "tpages rd' h pg = (pg # U @ A) @ tpages rd' (h - Suc l) (pg_at pg st (Suc l)) @ B @ V"
      using concat_split [of i "kids p" "tpages rd' h'"] p(2) pg c(1) by (simp add: h st U')
    have spl: "kids p = take i (kids p) @ ?c # drop (Suc i) (kids p)" by (rule id_take_nth_drop) (use p(2) in simp)
    have "map (abst rd' h') (kids p) = (map (abst rd h') (kids p))[i := abst rd' h' ?c]"
      by (subst (1 2) spl) (use other(2) p(2) in \<open>simp add: list_update_append min_def cong: map_cong\<close>)
    then show "abst rd' h pg = bt_put (abst rd h pg) (steps st (Suc l)) (abst rd' (h - Suc l) (pg_at pg st (Suc l)))"
      using p pg c(2) by (simp add: h st)
    have mem: "x = ?c \<or> x \<in> set (take i (kids p)) \<union> set (drop (Suc i) (kids p))" if "x \<in> set (kids p)" for x
      using that by (subst (asm) spl) auto
    show "tall Q rd' h pg" if "tall Q rd h pg" "tall Q rd' (h - Suc l) (pg_at pg st (Suc l))" for Q
    proof -
      have s: "Q (Suc h') pg p" "\<forall>x \<in> set (kids p). tall Q rd h' x" using that(1) p(1) by (simp_all add: h)
      have "tall Q rd' h' x" if "x \<in> set (kids p)" for x
        using mem [OF that] other(3) s(2) that c(3) \<open>tall Q rd' (h - Suc l) (pg_at pg st (Suc l))\<close> by (auto simp: h st)
      then show ?thesis using s pg by (simp add: h)
    qed
    show "path rd' h pg (take (Suc l) st @ st')" if "path rd' (h - Suc l) (pg_at pg st (Suc l)) st'" for st'
      using c(4) that p(2) pg by (simp add: h st)
  qed
qed

section \<open>Copies\<close>

text \<open>The same entries in a page.\<close>

lemma entries_eqD:
  assumes "entries p' = entries p"
  shows "nents p' = nents p" "kids p' = kids p" "keys_of p' = keys_of p"
  using assms length_entries [of p] length_entries [of p'] by (simp_all add: kids_def keys_of_def del: length_entries)

text \<open>The root under another number.\<close>

lemma copy_root:
  assumes "rd pg = Some p" "rd' N = Some p'" "entries p' = entries p"
    and "\<And>q. q \<in> set (tl (tpages rd h pg)) \<Longrightarrow> rd' q = rd q"
  shows "tpages rd' h N = N # tl (tpages rd h pg) \<and> abst rd' h N = abst rd h pg \<and>
    (\<forall>Q. tall Q rd h pg \<longrightarrow> Q h N p' \<longrightarrow> tall Q rd' h N) \<and>
    (\<forall>i st. path rd h pg ((p, i) # st) \<longrightarrow> path rd' h N ((p', i) # st))"
proof (cases h)
  case 0
  then show ?thesis using assms(1,2,3) entries_eqD [OF assms(3)] by simp
next
  case (Suc h')
  note s = entries_eqD [OF assms(3)]
  have fr: "rd' q = rd q" if "c \<in> set (kids p)" "q \<in> set (tpages rd h' c)" for c q
    using assms(1,4) that by (auto simp: Suc)
  note f = frame_pages [OF fr] frame_abst [OF fr] frame_tall [OF fr]
  have m: "map (tpages rd' h') (kids p) = map (tpages rd h') (kids p)" "map (abst rd' h') (kids p) = map (abst rd h') (kids p)"
    using f(1,2) by auto
  have pth: "path rd' h' c st" if "c \<in> set (kids p)" "path rd h' c st" for c st
    by (rule path_frame [OF that(2) fr [OF that(1)]])
  have 1: "tpages rd' h N = N # tl (tpages rd h pg)" "abst rd' h N = abst rd h pg"
    using assms(1,2) s m by (simp_all add: Suc del: map_eq_conv)
  have 2: "tall Q rd' h N" if "tall Q rd h pg" "Q h N p'" for Q
    using that assms(1,2) s(2) f(3) by (auto simp: Suc)
  have 3: "path rd' h N ((p', i) # st)" if "path rd h pg ((p, i) # st)" for i st
    using that assms(1,2) s pth by (auto simp: Suc)
  from 1 2 3 show ?thesis by blast
qed

text \<open>A child under another number, and its entry in the parent pointing there.\<close>

lemma relink:
  assumes pg: "rd pg = Some P" "rd' pg = Some P'" "keys_of P' = keys_of P" "kids P' = (kids P)[i := N]" "i < nents P"
    and c: "rd (kids P ! i) = Some p" "rd' N = Some p'" "entries p' = entries p"
    and oth: "\<And>q. q \<in> set (tpages rd (Suc h) pg) \<Longrightarrow> q \<noteq> pg \<Longrightarrow> q \<noteq> kids P ! i \<Longrightarrow> rd' q = rd q"
    and d: "distinct (tpages rd (Suc h) pg)"
  shows "\<exists>U V. tpages rd (Suc h) pg = pg # U @ tpages rd h (kids P ! i) @ V \<and>
    tpages rd' (Suc h) pg = pg # U @ (N # tl (tpages rd h (kids P ! i))) @ V \<and> abst rd' (Suc h) pg = abst rd (Suc h) pg \<and>
    (\<forall>Q. tall Q rd (Suc h) pg \<longrightarrow> Q (Suc h) pg P' \<longrightarrow> Q h N p' \<longrightarrow> tall Q rd' (Suc h) pg) \<and>
    (\<forall>j st. path rd (Suc h) pg ((P, i) # (p, j) # st) \<longrightarrow> path rd' (Suc h) pg ((P', i) # (p', j) # st))"
proof -
  let ?c = "kids P ! i"
  define U where "U = concat (map (tpages rd h) (take i (kids P)))"
  define V where "V = concat (map (tpages rd h) (drop (Suc i) (kids P)))"
  have tp: "tpages rd (Suc h) pg = pg # U @ tpages rd h ?c @ V"
    using concat_split [of i "kids P" "tpages rd h"] pg by (simp add: U_def V_def)
  have n: "nents P' = nents P" using arg_cong [OF pg(3), of length] by simp
  have spl: "kids P = take i (kids P) @ ?c # drop (Suc i) (kids P)" by (rule id_take_nth_drop) (use pg(5) in simp)
  have spl': "kids P' = take i (kids P) @ N # drop (Suc i) (kids P)"
    unfolding pg(4) by (rule upd_conv_take_nth_drop) (use pg(5) in simp)
  have dj: "set (tpages rd h ?c) \<inter> (set U \<union> set V) = {}" "pg \<notin> set U \<union> set V \<union> set (tpages rd h ?c)" "distinct (tpages rd h ?c)"
    using d unfolding tp by auto
  have side: "rd' q = rd q" if "x \<in> set (take i (kids P)) \<union> set (drop (Suc i) (kids P))" "q \<in> set (tpages rd h x)" for x q
  proof -
    have m: "q \<in> set U \<union> set V" using that by (auto simp: U_def V_def)
    then have "q \<noteq> pg \<and> q \<noteq> ?c" using dj tpages_self [of ?c rd h] by blast
    then show ?thesis using oth [of q] m unfolding tp by auto
  qed
  have other: "tpages rd' h x = tpages rd h x" "abst rd' h x = abst rd h x" "tall Q rd' h x = tall Q rd h x"
    if "x \<in> set (take i (kids P)) \<union> set (drop (Suc i) (kids P))" for x Q
    using frame_pages [OF side [OF that]] frame_abst [OF side [OF that]] frame_tall [OF side [OF that]] by auto
  have ot: "map (tpages rd' h) xs = map (tpages rd h) xs" "map (abst rd' h) xs = map (abst rd h) xs"
    if "xs = take i (kids P) \<or> xs = drop (Suc i) (kids P)" for xs using that other(1,2) by auto
  have ctl: "rd' q = rd q" if "q \<in> set (tl (tpages rd h ?c))" for q
  proof -
    have "q \<noteq> pg" "q \<noteq> ?c" "q \<in> set (tpages rd (Suc h) pg)"
      using dj(2,3) that tpages_hd [of rd h ?c] list.set_sel(2) [of "tpages rd h ?c" q] unfolding tp
      by (auto simp del: tpages.simps) (metis distinct.simps(2))
    then show ?thesis using oth by blast
  qed
  note C = copy_root [where rd = rd and rd' = rd' and h = h, OF c ctl]
  have t': "tpages rd' (Suc h) pg = pg # U @ (N # tl (tpages rd h ?c)) @ V"
    using C [THEN conjunct1] by (simp add: pg(2) spl' ot U_def V_def del: map_eq_conv)
  have a': "abst rd' (Suc h) pg = abst rd (Suc h) pg"
    using C [THEN conjunct2, THEN conjunct1] ot(2) pg(1-3)
    by (simp add: spl' del: map_eq_conv) (subst (3) spl, simp)
  have q': "tall Q rd' (Suc h) pg" if "tall Q rd (Suc h) pg" "Q (Suc h) pg P'" "Q h N p'" for Q
  proof -
    have k: "\<forall>x \<in> set (kids P). tall Q rd h x" using that(1) pg(1) by simp
    have "tall Q rd h ?c" using k pg(5) by simp
    then have "tall Q rd' h N" using C that(3) by blast
    moreover have "tall Q rd' h x" if "x \<in> set (take i (kids P)) \<union> set (drop (Suc i) (kids P))" for x
      using other(3) [OF that] k that by (auto dest: in_set_takeD in_set_dropD)
    ultimately show ?thesis using that(2) pg(2) by (auto simp: spl')
  qed
  have p': "path rd' (Suc h) pg ((P', i) # (p', j) # st)" if "path rd (Suc h) pg ((P, i) # (p, j) # st)" for j st
  proof -
    have "path rd h ?c ((p, j) # st)" using that by (simp only: path.simps(2) nat.case)
    then have "path rd' h N ((p', j) # st)" using C [THEN conjunct2, THEN conjunct2, THEN conjunct2] by blast
    then show ?thesis using pg n by (subst path.simps(2)) simp
  qed
  from tp t' a' q' p' show ?thesis by blast
qed

lemma pg_at_Suc: "l < length st \<Longrightarrow> pg_at pg st (Suc l) = kids (fst (st ! l)) ! snd (st ! l)"
proof (induction l arbitrary: pg st)
  case 0
  then show ?case by (cases st) auto
next
  case (Suc l)
  then obtain p i st1 where "st = (p, i) # st1" by (cases st) auto
  then show ?case using Suc by simp
qed

text \<open>A copied page in its place on a path: the root, and a page below, whose parent is pointed to the copy.\<close>

lemma copy_root_path:
  assumes st: "path rd h pg st" "st \<noteq> []" and c: "fst (st ! 0) = p" "rd' N = Some p'" "entries p' = entries p"
    and oth: "\<And>q. q \<in> set (tl (tpages rd h pg)) \<Longrightarrow> rd' q = rd q" and d: "distinct (tpages rd h pg)" "N \<notin> set (tpages rd h pg)"
  shows "distinct (tpages rd' h N) \<and> set (tpages rd' h N) \<subseteq> insert N (set (tpages rd h pg)) \<and> abst rd' h N = abst rd h pg \<and>
    (\<forall>Q. tall Q rd h pg \<longrightarrow> Q h N p' \<longrightarrow> tall Q rd' h N) \<and> path rd' h N (st[0 := (p', snd (st ! 0))])"
proof -
  from st(2) c(1) obtain i st1 where s: "st = (p, i) # st1" by (cases st) auto
  have pg: "rd pg = Some p" using st(1) by (simp add: s)
  note C = copy_root [where rd = rd and rd' = rd' and h = h, OF pg c(2,3) oth]
  have "distinct (tpages rd' h N)" "set (tpages rd' h N) \<subseteq> insert N (set (tpages rd h pg))"
    using C [THEN conjunct1] d tpages_hd [of rd h pg] list.set_sel(2) [of "tpages rd h pg"] distinct_tl [of "tpages rd h pg"] by auto
  moreover have "path rd' h N (st[0 := (p', snd (st ! 0))])"
    using C [THEN conjunct2, THEN conjunct2, THEN conjunct2] st(1) unfolding s by (simp del: path.simps)
  ultimately show ?thesis using C by blast
qed

lemma relink_path:
  assumes st: "path rd h pg st" "Suc l < length st" and d: "distinct (tpages rd h pg)" "N \<notin> set (tpages rd h pg)"
  defines "PP \<equiv> pg_at pg st l" and "P \<equiv> fst (st ! l)" and "i \<equiv> snd (st ! l)"
  assumes P': "rd' PP = Some P'" "keys_of P' = keys_of P" "kids P' = (kids P)[i := N]"
    and c: "rd' N = Some p'" "entries p' = entries (fst (st ! Suc l))"
    and oth: "\<And>q. q \<in> set (tpages rd h pg) \<Longrightarrow> q \<noteq> PP \<Longrightarrow> rd' q = rd q"
  shows "distinct (tpages rd' h pg) \<and> set (tpages rd' h pg) \<subseteq> insert N (set (tpages rd h pg)) \<and> abst rd' h pg = abst rd h pg \<and>
    (\<forall>Q. tall Q rd h pg \<longrightarrow> Q (h - l) PP P' \<longrightarrow> Q (h - Suc l) N p' \<longrightarrow> tall Q rd' h pg) \<and>
    path rd' h pg (st[l := (P', i), Suc l := (p', snd (st ! Suc l))])"
proof -
  define p j where pj: "p = fst (st ! Suc l)" "j = snd (st ! Suc l)"
  define R where "R = drop (Suc (Suc l)) st"
  have ll: "l < length st" using st(2) by simp
  have dr: "drop l st = (P, i) # (p, j) # R"
    using st(2) Cons_nth_drop_Suc [of l st] Cons_nth_drop_Suc [of "Suc l" st] by (simp add: P_def i_def pj R_def)
  from subtree_replace [OF st(1) ll d(1), folded PP_def] obtain A B where AB: "tpages rd h pg = A @ tpages rd (h - l) PP @ B"
    "path rd (h - l) PP (drop l st)" "bt_get (abst rd h pg) (steps st l) = abst rd (h - l) PP"
    "\<forall>Q. tall Q rd h pg \<longrightarrow> tall Q rd (h - l) PP"
    and chg: "\<forall>rd'. (\<forall>q \<in> set A \<union> set B. rd' q = rd q) \<longrightarrow>
      tpages rd' h pg = A @ tpages rd' (h - l) PP @ B \<and>
      abst rd' h pg = bt_put (abst rd h pg) (steps st l) (abst rd' (h - l) PP) \<and>
      (\<forall>Q. tall Q rd h pg \<longrightarrow> tall Q rd' (h - l) PP \<longrightarrow> tall Q rd' h pg) \<and>
      (\<forall>st'. path rd' (h - l) PP st' \<longrightarrow> path rd' h pg (take l st @ st'))" by blast
  obtain h' where h: "h - l = Suc h'" using AB(2) dr by (cases "h - l") simp_all
  then have h': "h - Suc l = h'" by simp
  have top: "rd PP = Some P" "i < nents P" "rd (kids P ! i) = Some p" using AB(2) by (simp_all add: dr h)
  have sub: "distinct (tpages rd (Suc h') PP)" "set A \<inter> set (tpages rd (Suc h') PP) = {}" "set B \<inter> set (tpages rd (Suc h') PP) = {}"
    using d(1) unfolding AB(1) h by (auto simp del: tpages.simps)
  have ot: "rd' q = rd q" if "q \<in> set (tpages rd (Suc h') PP)" "q \<noteq> PP" "q \<noteq> kids P ! i" for q
    using oth that AB(1) by (simp add: h)
  from relink [OF top(1) P' top(2,3) c(1) _ ot sub(1)] c(2) obtain U V where UV:
    "tpages rd (Suc h') PP = PP # U @ tpages rd h' (kids P ! i) @ V"
    "tpages rd' (Suc h') PP = PP # U @ (N # tl (tpages rd h' (kids P ! i))) @ V" "abst rd' (Suc h') PP = abst rd (Suc h') PP"
    and tl: "\<forall>Q. tall Q rd (Suc h') PP \<longrightarrow> Q (Suc h') PP P' \<longrightarrow> Q h' N p' \<longrightarrow> tall Q rd' (Suc h') PP"
    and pt: "\<forall>j st. path rd (Suc h') PP ((P, i) # (p, j) # st) \<longrightarrow> path rd' (Suc h') PP ((P', i) # (p', j) # st)"
    by (auto simp: pj)
  have "PP \<notin> set A \<union> set B" using sub(2,3) tpages_self [of PP rd "Suc h'"] by blast
  then have "\<forall>q \<in> set A \<union> set B. rd' q = rd q" using oth unfolding AB(1) by auto
  note C = chg [THEN spec, THEN mp, OF this, unfolded h]
  have tls: "set (tl (tpages rd h' (kids P ! i))) \<subseteq> set (tpages rd h' (kids P ! i))" "distinct (tpages rd h' (kids P ! i))"
    using sub(1) unfolding UV(1) by (auto dest: list.set_sel(2) [rotated])
  have "set (tpages rd' h pg) \<subseteq> insert N (set (tpages rd h pg))"
    using C [THEN conjunct1] AB(1) tls(1) unfolding h UV(1,2) by auto
  moreover have "distinct (tpages rd' h pg)"
    using C [THEN conjunct1] d tls(1) distinct_tl [OF tls(2)] unfolding AB(1) h UV(1,2) by auto
  moreover have "abst rd' h pg = abst rd h pg" using C AB(3) UV(3) bt_put_get [of "abst rd h pg" "steps st l"] by (simp add: h del: abst.simps)
  moreover have "tall Q rd' h pg" if "tall Q rd h pg" "Q (h - l) PP P'" "Q (h - Suc l) N p'" for Q
    using C AB(4) tl that unfolding h h' by blast
  moreover have "path rd' h pg (st[l := (P', i), Suc l := (p', snd (st ! Suc l))])"
  proof -
    have "path rd' (Suc h') PP ((P', i) # (p', j) # R)" using AB(2) pt unfolding dr h by blast
    then have "path rd' h pg (take l st @ (P', i) # (p', j) # R)" using C by blast
    moreover have "Suc (Suc (k - 2)) = k" if "\<not> k \<le> Suc l" for k using that by arith
    then have "st[l := (P', i), Suc l := (p', snd (st ! Suc l))] = take l st @ (P', i) # (p', j) # R"
      using st(2) by (intro nth_equalityI) (auto simp: nth_append nth_Cons' pj R_def nth_list_update)
    ultimately show ?thesis by simp
  qed
  ultimately show ?thesis by blast
qed

section \<open>Order\<close>

fun bt_ok :: "cmp_fn \<Rightarrow> nat \<Rightarrow> btree \<Rightarrow> bytes option \<Rightarrow> bytes option \<Rightarrow> bool" where
  "bt_ok cmp 0 (BLeaf ns) lo hi \<longleftrightarrow>
     sorted_from cmp 0 (map nd_key ns) \<and> (\<forall>n \<in> set ns. in_range cmp lo hi (nd_key n))"
| "bt_ok cmp (Suc h) (BNode ks ts) lo hi \<longleftrightarrow>
     0 < length ks \<and> length ts = length ks \<and> sorted_from cmp 1 ks \<and> (\<forall>k \<in> set (tl ks). in_range cmp lo hi k) \<and>
     (\<forall>i < length ks. bt_ok cmp h (ts ! i) (sep_lo ks lo i) (sep_hi ks hi i))"
| "bt_ok cmp _ _ lo hi \<longleftrightarrow> False"

text \<open>The pages of a tree without the order of their keys.\<close>

definition kind_ok :: "nat \<Rightarrow> pgno \<Rightarrow> page \<Rightarrow> bool" where
  "kind_ok h q p \<longleftrightarrow> page_ok p \<and> (brp p \<longleftrightarrow> 0 < h) \<and> (lfp p \<longleftrightarrow> h = 0) \<and> (0 < h \<longrightarrow> 0 < nents p)"

lemma tree_ok_bt: "tree_ok cmp rd h pg lo hi \<longleftrightarrow> tall kind_ok rd h pg \<and> bt_ok cmp h (abst rd h pg) lo hi"
proof (induction h arbitrary: pg lo hi)
  case 0
  then show ?case by (auto simp: kind_ok_def keys_sorted_def keys_of_def split: option.splits)
next
  case (Suc h)
  show ?case
    by (auto simp: child_seps kind_ok_def keys_sorted_def Suc all_set_conv_all_nth nth_kids split: option.splits)
qed

text \<open>The way of a search through an abstract tree.\<close>

fun bt_path :: "cmp_fn \<Rightarrow> bytes \<Rightarrow> nat \<Rightarrow> btree \<Rightarrow> nat list" where
  "bt_path cmp k (Suc h) (BNode ks ts) = branch_pos cmp ks k # bt_path cmp k h (ts ! branch_pos cmp ks k)"
| "bt_path cmp k _ _ = []"

context key_order
begin

lemma bleaves_put:
  "bt_ok cmp h t lo hi \<Longrightarrow> \<exists>ns. bt_get t (bt_path cmp k h t) = BLeaf ns \<and>
     (\<exists>A B. \<forall>x. bleaves (bt_put t (bt_path cmp k h t) (BLeaf x)) = A @ x @ B)"
proof (induction h arbitrary: t lo hi)
  case 0
  then show ?case by (cases t) (auto intro: exI [of _ "[]"])
next
  case (Suc h)
  then obtain ks ts where t: "t = BNode ks ts" by (cases t) auto
  define i where "i = branch_pos cmp ks k"
  have i: "i < length ts" using Suc.prems branch_pos_less [of ks k] by (auto simp: t i_def)
  with Suc.prems have "bt_ok cmp h (ts ! i) (sep_lo ks lo i) (sep_hi ks hi i)" by (simp add: t)
  from Suc.IH [OF this] obtain ns A B where ns: "bt_get (ts ! i) (bt_path cmp k h (ts ! i)) = BLeaf ns"
    "\<forall>x. bleaves (bt_put (ts ! i) (bt_path cmp k h (ts ! i)) (BLeaf x)) = A @ x @ B" by blast
  have "bleaves (BNode ks (ts[i := u])) = concat (map bleaves (take i ts)) @ bleaves u @ concat (map bleaves (drop (Suc i) ts))" for u
    using i by (simp add: upd_conv_take_nth_drop)
  then have "\<forall>x. bleaves (bt_put t (bt_path cmp k (Suc h) t) (BLeaf x)) =
      (concat (map bleaves (take i ts)) @ A) @ x @ B @ concat (map bleaves (drop (Suc i) ts))"
    using ns(2) by (simp add: t flip: i_def)
  moreover have "bt_get t (bt_path cmp k (Suc h) t) = BLeaf ns" using ns(1) by (simp add: t flip: i_def)
  ultimately show ?case by blast
qed

text \<open>New nodes in the leaf of \<open>k\<close>, all with old keys or with a key in the range of \<open>k\<close>.\<close>

lemma in_range_eq: "cmp k x = 0 \<Longrightarrow> in_range cmp lo hi k \<Longrightarrow> in_range cmp lo hi x"
  unfolding in_range_def by (metis cmp_eq_flip cmp_trans less_trans' order_refl)

lemma bt_put_ok:
  assumes "bt_ok cmp h t lo hi" "in_range cmp lo hi k" "bt_get t (bt_path cmp k h t) = BLeaf ns"
    and "sorted_from cmp 0 (map nd_key ns')" "\<forall>n \<in> set ns'. n \<in> set ns \<or> cmp k (nd_key n) = 0"
  shows "bt_ok cmp h (bt_put t (bt_path cmp k h t) (BLeaf ns')) lo hi"
  using assms(1-3)
proof (induction h arbitrary: t lo hi)
  case 0
  then obtain m where "t = BLeaf m" by (cases t) auto
  then show ?case using 0 assms(4,5) in_range_eq by auto
next
  case (Suc h)
  then obtain ks ts where t: "t = BNode ks ts" by (cases t) auto
  define i where "i = branch_pos cmp ks k"
  note s = Suc.prems [unfolded t, simplified]
  note i = branch_pos_sep [of ks lo hi k, folded i_def]
  have i: "i < length ks" "in_range cmp (sep_lo ks lo i) (sep_hi ks hi i) k" using i s by auto
  have "bt_ok cmp h (bt_put (ts ! i) (bt_path cmp k h (ts ! i)) (BLeaf ns')) (sep_lo ks lo i) (sep_hi ks hi i)"
    using Suc.IH [OF _ i(2)] s i(1) by (simp flip: i_def)
  then show ?case using s i(1) by (auto simp: t nth_list_update simp flip: i_def)
qed

end

end
