(* ===== verification/PageCopy.thy ===== *)
theory PageCopy
  imports WTree PageOps
begin

text \<open>
  Pages under copy-on-write: the number and the transaction of a page, a copy of a page under another
  number, and a branch with one child pointer changed.
\<close>

definition pno :: "page \<Rightarrow> pgno" where "pno p = g32 (Data p) 16"
definition ptx :: "page \<Rightarrow> u64" where "ptx p = g64 (Data p) 0"

lemma page_header:
  assumes "20 \<le> length (Data p)"
  shows "pageNo p = Some (pno p)" "\<exists>h. header p = Some h \<and> hTxnid h = ptx p" "isLeaf p = Some (lfp p)" "isBranch p = Some (brp p)"
  using assms by (simp_all add: pageNo_def isLeaf_def isBranch_def header_Some pno_def ptx_def lfp_def brp_def)

text \<open>What does not change when the number, the transaction and the bounds of a page do.\<close>

lemma page_id:
  assumes "length (Data p') = length (Data p)" "20 \<le> length (Data p)" "\<forall>k. k < 12 \<or> 16 \<le> k \<and> k < 20 \<longrightarrow> Data p' ! k = Data p ! k"
  shows "pno p' = pno p" "ptx p' = ptx p" "lfp p' = lfp p" "brp p' = brp p"
  using assms by (simp_all add: pno_def ptx_def lfp_def brp_def g32_def g64_def g16_def)

lemma page_relabel:
  assumes len: "length (Data p') = length (Data p)" and ok: "page_ok p"
    and same: "\<And>k. k < length (Data p) \<Longrightarrow> 8 \<le> k \<Longrightarrow> k < 16 \<or> 20 \<le> k \<Longrightarrow> Data p' ! k = Data p ! k"
  shows "page_ok p' \<and> entries p' = entries p \<and> brp p' = brp p \<and> lfp p' = lfp p"
proof -
  note l = page_okD [OF ok]
  have h: "low p' = low p" "upp p' = upp p" "brp p' = brp p" "lfp p' = lfp p"
    using l same by (simp_all add: low_def upp_def brp_def lfp_def g16_def)
  then have n: "nents p' = nents p" by (simp add: nents_def)
  have pt: "ptr p' i = ptr p i" if "i < nents p" for i
    using page_ok_entry(4) [OF ok that] same by (simp add: ptr_def g16_def)
  have sz: "nsz p' i = nsz p i" "node_at p' i = node_at p i" if "i < nents p" for i
    using node_frame [OF h(3) len, of i i] page_ok_entry [OF ok that] same pt [OF that] by auto
  have "page_ok p'" using ok len by (simp add: page_ok_def h n pt sz)
  moreover have "entries p' = entries p" by (simp add: entries_def n sz(2))
  ultimately show ?thesis using h by blast
qed

lemma relabelled:
  fixes pg :: pgno and tx :: u64
  assumes ok: "page_ok p"
  defines "p' \<equiv> p\<lparr>Data := blit (blit (Data p) 16 (enc32 pg)) 0 (enc64 tx)\<rparr>"
  shows "page_ok p'" "entries p' = entries p" "brp p' = brp p" "lfp p' = lfp p" "length (Data p') = length (Data p)"
    "pno p' = pg" "ptx p' = tx"
proof -
  note l = page_okD [OF ok]
  show len: "length (Data p') = length (Data p)" using l by (simp add: p'_def)
  have "page_ok p' \<and> entries p' = entries p \<and> brp p' = brp p \<and> lfp p' = lfp p"
    by (rule page_relabel [OF len ok]) (use l in \<open>auto simp: p'_def nth_blit\<close>)
  then show "page_ok p'" "entries p' = entries p" "brp p' = brp p" "lfp p' = lfp p" by simp_all
  show "pno p' = pg" "ptx p' = tx" using l by (simp_all add: p'_def pno_def ptx_def byte_simps)
qed

text \<open>The child pointer of an entry.\<close>

lemma set_child:
  fixes c :: pgno
  assumes ok: "page_ok p" and br: "brp p" and i: "i < nents p"
  defines "p' \<equiv> p\<lparr>Data := blit (Data p) (20 + ptr p i) (enc32 c)\<rparr>"
  shows "page_ok p'" "keys_of p' = keys_of p" "kids p' = (kids p)[i := c]" "brp p'" "lfp p' = lfp p"
    "length (Data p') = length (Data p)" "pno p' = pno p" "ptx p' = ptx p"
proof -
  note l = page_okD [OF ok] and e = page_ok_entry [OF ok i]
  define nd where "nd = enc32 c @ drop 4 (node_at p i)"
  have len: "length nd = nsz p i" using ok i nsz_ge8 [of p i] by (simp add: nd_def)
  have f: "g16 nd 6 = g16 (node_at p i) 6" "g32 nd 0 = c" "length (node_at p i) = nsz p i"
    using ok i nsz_ge8 [of p i] by (simp_all add: nd_def g16_def g32_def nth_append enc32_def nth_Cons')
  have wf: "node_wf (brp p) nd"
    using node_wf_node_at [OF ok i] br len f(1,3) by (simp add: node_wf_def nodesz_def)
  have "blit (Data p) (20 + ptr p i) nd = blit (Data p) (20 + ptr p i) (enc32 c)"
    using e nsz_ge8 [of p i] len by (intro nth_equalityI) (auto simp: nth_blit nd_def nth_append node_at_def)
  then have p: "page_ok p' \<and> entries p' = (entries p)[i := nd] \<and> length (Data p') = length (Data p) \<and> brp p' = brp p \<and>
    (\<forall>k < 20. Data p' ! k = Data p ! k)" using put_entry [OF ok i _ wf] len by (simp add: p'_def)
  then show "page_ok p'" "brp p'" "length (Data p') = length (Data p)" using br by simp_all
  have "\<forall>k. k < 12 \<or> 16 \<le> k \<and> k < 20 \<longrightarrow> Data p' ! k = Data p ! k" using p by auto
  then show "lfp p' = lfp p" "pno p' = pno p" "ptx p' = ptx p" using page_id [of p' p] p l by simp_all
  have "nd_key nd = nd_key (entries p ! i)"
    using i f(1) nsz_ge8 [of p i] by (simp add: nd_key_def nd_klen_def) (simp add: nd_def)
  then have "nd_key nd = keys_of p ! i" using i by simp
  then show "keys_of p' = keys_of p" using p list_update_id [of "keys_of p" i] by (simp add: keys_of_def map_update)
  show "kids p' = (kids p)[i := c]" using p f(2) by (simp add: kids_def map_update nd_dsize_def)
qed

end
