(* ===== verification/CowSpec.thy ===== *)
theory CowSpec
  imports PageCopy PageAllocSpec CursorPut
begin

text \<open>
  Copy-on-write (cursor_modify.go): a store through a dirty page changes that page of the
  transaction's view alone, a copied page enters the view under a new number, and touchPageAt makes
  the pages of the cursor's stack dirty without changing the tree or a page of the committed snapshot.
\<close>

section \<open>Stores\<close>

abbreviation vw :: "cst \<Rightarrow> pgno \<Rightarrow> page option" where "vw s \<equiv> seen (ce s) (ct s)"
abbreviation trk :: "cst \<Rightarrow> pgno \<Rightarrow> nat option" where "trk s \<equiv> mapping_of (dirtyTracker (ct s))"
abbreviation psize :: "cst \<Rightarrow> nat" where "psize s \<equiv> unat (envPageSize (ce s))"

lemma seen_tracked:
  assumes "tracked_ok e t" "mapping_of (dirtyTracker t) q = Some a"
  shows "seen e t q = deref e t a"
  using dirty_page_Some [OF assms] by (auto simp: seen_def split: option.splits)

lemma seen_untracked:
  assumes "mapping_of (dirtyTracker t) q = None"
  shows "seen e t q = map_option (\<lambda>d. \<lparr>Data = d\<rparr>) (getMmapPageData e q)"
  using assms by (simp add: seen_def dirty_page_def)

lemma write_struct_ok:
  assumes ok: "wtxn_ok n e t" and a: "mapping_of (dirtyTracker t) pg = Some a" and len: "length d = unat (envPageSize e)"
    and wr: "write_struct e t a d = (e', t')"
  shows "wtxn_ok n e' t'" "seen e' t' = (seen e t)(pg \<mapsto> \<lparr>Data = d\<rparr>)" "page_frame e t e' t'"
    "dirtyTracker t' = dirtyTracker t" "\<And>q. q \<noteq> pg \<Longrightarrow> getMmapPageData e' q = getMmapPageData e q"
proof -
  let ?n = "unat (envPageSize e)"
  note w = wtxn_okD [OF ok]
  note tok = tracked_okD [OF w(7)]
  have ai: "a < length (structs t)" "struct_ok e pg (structs t ! a)" using tok(1,2) [OF a] .
  have other: "b \<noteq> a" if "mapping_of (dirtyTracker t) q = Some b" "q \<noteq> pg" for q b using tok(3) [OF a, of q] that by auto
  have "wtxn_ok n e' t' \<and> (\<forall>q. seen e' t' q = ((seen e t)(pg \<mapsto> \<lparr>Data = d\<rparr>)) q) \<and> page_frame e t e' t' \<and>
    dirtyTracker t' = dirtyTracker t \<and> (\<forall>q. q \<noteq> pg \<longrightarrow> getMmapPageData e' q = getMmapPageData e q)"
  proof (cases "structs t ! a")
    case (MapPage x)
    with ai have x: "x = pg" "getMmapPageData e pg \<noteq> None" by (simp_all add: struct_ok_def)
    have r: "e' = e\<lparr>dataMap := map_option (\<lambda>m. blit m (unat pg * ?n) d) (dataMap e)\<rparr>"
      "t' = t\<lparr>mmapData := map_option (\<lambda>m. blit m (unat pg * ?n) d) (mmapData t)\<rparr>"
      using wr MapPage x(1) by (auto simp: write_struct_def write_map_def)
    have m: "getMmapPageData e' q = (if q = pg then Some d else getMmapPageData e q)" for q
      by (rule write_map_page [of _ _ d]) (use x len in \<open>simp_all add: r(1) write_map_def\<close>)
    have so: "struct_ok e' q s = struct_ok e q s" for q s
      using m x(2) r(1) by (auto simp: struct_ok_def split: pstruct.splits)
    have tr: "tracked_ok e' t'" using w(7) by (simp add: tracked_ok_def so r(2))
    have ok': "wtxn_ok n e' t'" using ok tr by (auto simp: wtxn_ok_def r spill_ready_def IsReadOnly_def)
    have se: "seen e' t' q = ((seen e t)(pg \<mapsto> \<lparr>Data = d\<rparr>)) q" for q
    proof (cases "mapping_of (dirtyTracker t) q")
      case None
      then have "q \<noteq> pg" using a by auto
      then show ?thesis using None m [of q] by (simp add: seen_untracked r(2))
    next
      case (Some b)
      then have s': "seen e' t' q = deref e' t' b" "seen e t q = deref e t b" using seen_tracked [OF tr] seen_tracked [OF w(7)] by (simp_all add: r(2))
      have b: "b < length (structs t)" "struct_ok e q (structs t ! b)" using tok(1,2) [OF Some] .
      show ?thesis
      proof (cases "q = pg")
        case True
        then have "b = a" using Some a by simp
        then show ?thesis using True s'(1) m [of pg] MapPage x(1) ai(1) by (simp add: deref_def r(2))
      next
        case False
        then show ?thesis using s' b m [of q] by (auto simp: deref_def r(2) struct_ok_def split: pstruct.splits)
      qed
    qed
    have "page_frame e t e' t'" by (rule page_frameI) (simp_all add: r)
    then show ?thesis using ok' se m by (simp add: r(2))
  next
    case (OwnPage x)
    have r: "e' = e" "t' = t\<lparr>structs := (structs t)[a := OwnPage d]\<rparr>" using wr OwnPage by (auto simp: write_struct_def)
    have tr: "tracked_ok e' t'"
      unfolding tracked_ok_def
    proof (intro conjI allI impI)
      fix q b assume q: "mapping_of (dirtyTracker t') q = Some b"
      then show "b < length (structs t')" using tok(1) [of q b] by (simp add: r)
      show "struct_ok e' q (structs t' ! b)"
        using q tok(1,2) [of q b] len ai(1) by (cases "b = a") (simp_all add: r struct_ok_def)
    next
      fix q q' b assume "mapping_of (dirtyTracker t') q = Some b" "mapping_of (dirtyTracker t') q' = Some b"
      then show "q = q'" using tok(3) [of q' b q] by (simp add: r)
    qed
    have ok': "wtxn_ok n e' t'" using ok tr by (simp add: wtxn_ok_def r IsReadOnly_def)
    have se: "seen e' t' q = ((seen e t)(pg \<mapsto> \<lparr>Data = d\<rparr>)) q" for q
    proof (cases "mapping_of (dirtyTracker t) q")
      case None
      then have "q \<noteq> pg" using a by auto
      then show ?thesis using None by (simp add: seen_untracked r)
    next
      case (Some b)
      then have "seen e' t' q = deref e' t' b" "seen e t q = deref e t b" using seen_tracked [OF tr] seen_tracked [OF w(7)] by (simp_all add: r)
      then show ?thesis using Some a ai(1) other [OF Some] by (auto simp: deref_def r split: pstruct.splits)
    qed
    have "page_frame e t e' t'" by (rule page_frameI) (simp_all add: r)
    then show ?thesis using ok' se by (simp add: r)
  qed
  then show "wtxn_ok n e' t'" "seen e' t' = (seen e t)(pg \<mapsto> \<lparr>Data = d\<rparr>)" "page_frame e t e' t'"
    "dirtyTracker t' = dirtyTracker t" "\<And>q. q \<noteq> pg \<Longrightarrow> getMmapPageData e' q = getMmapPageData e q" by (auto simp: fun_eq_iff)
qed

lemma write_struct_map: "write_struct e t a d = (e', t') \<Longrightarrow> mmapData t = dataMap e \<Longrightarrow> mmapData t' = dataMap e'"
  by (auto simp: write_struct_def write_map_def split: pstruct.splits)

section \<open>What copy-on-write leaves alone\<close>

definition wframe :: "cst \<Rightarrow> cst \<Rightarrow> bool" where
  "wframe s s' \<longleftrightarrow>
     (\<exists>m sb. ce s' = (ce s)\<lparr>dataMap := m, spillBuf := sb\<rparr>) \<and>
     (\<exists>ss dt sl mm al ts dd. ct s' = (ct s)\<lparr>structs := ss, dirtyTracker := dt, spillSlots := sl, mmapData := mm,
        allocatedPg := al, trees := ts, dbiDirty := dd\<rparr>) \<and>
     (\<exists>cp ix sd dm. cc s' = (cc s)\<lparr>cpages := cp, indices := ix, stackDirty := sd, dirtyMask := dm\<rparr>)"

lemma wframeI:
  assumes "ce s' = (ce s)\<lparr>dataMap := dataMap (ce s'), spillBuf := spillBuf (ce s')\<rparr>"
    "ct s' = (ct s)\<lparr>structs := structs (ct s'), dirtyTracker := dirtyTracker (ct s'), spillSlots := spillSlots (ct s'),
       mmapData := mmapData (ct s'), allocatedPg := allocatedPg (ct s'), trees := trees (ct s'), dbiDirty := dbiDirty (ct s')\<rparr>"
    "cc s' = (cc s)\<lparr>cpages := cpages (cc s'), indices := indices (cc s'), stackDirty := stackDirty (cc s'), dirtyMask := dirtyMask (cc s')\<rparr>"
  shows "wframe s s'"
  unfolding wframe_def using assms by blast

lemma wframe_refl: "wframe s s" by (rule wframeI) simp_all

lemma wframe_trans: "wframe s s1 \<Longrightarrow> wframe s1 s2 \<Longrightarrow> wframe s s2"
  unfolding wframe_def by (elim conjE exE) (intro conjI exI, simp_all)

lemma page_frame_wframe: "page_frame (ce s) (ct s) (ce s') (ct s') \<Longrightarrow> cc s' = cc s \<Longrightarrow> wframe s s'"
  unfolding page_frame_def by (elim conjE exE) (rule wframeI, simp_all)

lemma wframe_fields:
  assumes "wframe s s'"
  shows "envPageSize (ce s') = envPageSize (ce s)" "isWriteMap (ce s') = isWriteMap (ce s)" "txnID_of (ct s') = txnID_of (ct s)"
    "cdbi (cc s') = cdbi (cc s)" "top_ix (cc s') = top_ix (cc s)" "IsReadOnly (ct s') = IsReadOnly (ct s)"
    "state (cc s') = state (cc s)" "txn_valid (ct s') = txn_valid (ct s)"
  using assms by (auto simp: wframe_def isWriteMap_def IsReadOnly_def txn_valid_def)

text \<open>
  The page numbers not yet given out, and the promise of copy-on-write: the pages below that are not
  dirty stay as they are in the mapping.
\<close>

definition fresh :: "cst \<Rightarrow> pgno \<Rightarrow> bool" where "fresh s q \<longleftrightarrow> unat (allocatedPg (ct s)) \<le> unat q"

definition cow_frame :: "cst \<Rightarrow> cst \<Rightarrow> bool" where
  "cow_frame s s' \<longleftrightarrow> wframe s s' \<and> unat (allocatedPg (ct s)) \<le> unat (allocatedPg (ct s')) \<and>
     (\<forall>q. \<not> fresh s q \<longrightarrow> (trk s' q = None \<longleftrightarrow> trk s q = None) \<and>
        (trk s q = None \<longrightarrow> getMmapPageData (ce s') q = getMmapPageData (ce s) q)) \<and>
     (mmapData (ct s) = dataMap (ce s) \<longrightarrow> mmapData (ct s') = dataMap (ce s'))"

lemma cow_frame_refl: "cow_frame s s" by (simp add: cow_frame_def wframe_refl)

lemma cow_wframe: "cow_frame s s' \<Longrightarrow> wframe s s'" by (simp add: cow_frame_def)

lemma cow_frame_trans:
  assumes "cow_frame s s1" "cow_frame s1 s2"
  shows "cow_frame s s2"
proof -
  have "\<not> fresh s1 q" if "\<not> fresh s q" for q using that assms(1) by (simp add: cow_frame_def fresh_def)
  then show ?thesis using assms wframe_trans [of s s1 s2] unfolding cow_frame_def by fastforce
qed

text \<open>A step that keeps the tracker and the mapping.\<close>

lemma cow_frame_same:
  assumes "wframe s s'" "dirtyTracker (ct s') = dirtyTracker (ct s)" "dataMap (ce s') = dataMap (ce s)"
    "allocatedPg (ct s') = allocatedPg (ct s)" "mmapData (ct s') = mmapData (ct s)"
  shows "cow_frame s s'"
  using assms getMmapPageData_cong [of "ce s'" "ce s"] wframe_fields(1) [OF assms(1)] by (simp add: cow_frame_def)

section \<open>Copying a page\<close>

lemma fresh_next:
  assumes "unat (allocatedPg (ct s)) + 1 < 4294967296"
  shows "unat (allocatedPg (ct s) + 1) = unat (allocatedPg (ct s)) + 1"
  by (subst unat_plus_simple [THEN iffD1]) (use assms in \<open>simp_all add: word_le_nat_alt unat_word_ariths\<close>)

lemma copy_page_ok:
  assumes ok: "wtxn_ok (Suc n) (ce s) (ct s)" and w: "world_ok w" and p: "page_ok p" "length (Data p) = psize s"
    and room: "unat (allocatedPg (ct s)) + 1 < 4294967296"
  obtains s' a p' where "copy_page w s p = Some (s', allocatedPg (ct s), a)" "wtxn_ok n (ce s') (ct s')"
    "vw s' = (vw s)(allocatedPg (ct s) \<mapsto> p')" "trk s' = (trk s)(allocatedPg (ct s) \<mapsto> a)" "cow_frame s s'" "cc s' = cc s"
    "trees (ct s') = trees (ct s)" "allocatedPg (ct s') = allocatedPg (ct s) + 1"
    "page_ok p'" "entries p' = entries p" "brp p' = brp p" "lfp p' = lfp p" "length (Data p') = length (Data p)"
    "pno p' = allocatedPg (ct s)" "ptx p' = txnID_of (ct s)"
proof -
  define N where "N = allocatedPg (ct s)"
  define t where "t = (ct s)\<lparr>allocatedPg := N + 1\<rparr>"
  have tt: "dirtyTracker t = dirtyTracker (ct s)" "structs t = structs (ct s)" "spillSlots t = spillSlots (ct s)" "txnFlags t = txnFlags (ct s)"
    by (simp_all add: t_def)
  have okt: "wtxn_ok (Suc n) (ce s) t" using ok wtxn_ok_cong [OF tt] by simp
  from acquire_ok [OF okt w, of N] obtain sb sl x where
    a: "acquire w (ce s) t N = Some ((ce s)\<lparr>spillBuf := sb\<rparr>, t\<lparr>spillSlots := sl\<rparr>, x)" "struct_ok (ce s) N x"
    "map_room n sl" "spill_ready n ((ce s)\<lparr>spillBuf := sb\<rparr>)" "x = MapPage N \<Longrightarrow> isWriteMap (ce s)" by blast
  let ?e = "(ce s)\<lparr>spillBuf := sb\<rparr>"
  obtain t2 b where nt: "new_struct (t\<lparr>spillSlots := sl\<rparr>) x = (t2, b)" by (cases "new_struct (t\<lparr>spillSlots := sl\<rparr>) x")
  then have t2: "t2 = t\<lparr>spillSlots := sl, structs := structs t @ [x]\<rparr>" "b = length (structs t)" by (auto simp: new_struct_def)
  have mm: "getMmapPageData ?e = getMmapPageData (ce s)" by (rule getMmapPageData_cong) simp_all
  obtain p0 where p0: "deref ?e t2 b = Some p0" "length (Data p0) = psize s"
    using a(2) t2 by (auto simp: deref_def struct_ok_def mm getMmapPageData_def Let_def split: pstruct.splits option.splits if_splits)
  have b0: "blit (Data p0) 0 (Data p) = Data p" using p0(2) p(2) by (simp add: blit_def)
  define p' where "p' = p\<lparr>Data := blit (blit (Data p) 16 (enc32 N)) 0 (enc64 (txnID_of (ct s)))\<rparr>"
  note r = relabelled [OF p(1), of N "txnID_of (ct s)", folded p'_def]
  note l = page_okD [OF p(1)]
  obtain e2 t3 where wr: "write_struct ?e t2 b (Data p') = (e2, t3)" by (cases "write_struct ?e t2 b (Data p')")
  have len: "length (Data p') = unat (envPageSize (ce s))" using r(5) p(2) by simp
  from publish [OF okt a(2,5,3,4) nt len wr] obtain t4 where
    t4: "tracker_set t3 N b = Some t4" "wtxn_ok n e2 t4" "seen e2 t4 = (seen (ce s) t)(N \<mapsto> \<lparr>Data = Data p'\<rparr>)"
    "page_frame (ce s) t e2 t4" "\<And>q. q \<noteq> N \<or> \<not> isWriteMap (ce s) \<Longrightarrow> getMmapPageData e2 q = getMmapPageData (ce s) q" by blast
  define s' where "s' = s\<lparr>ce := e2, ct := t4\<rparr>"
  have st: "setPageNo (p0\<lparr>Data := blit (Data p0) 0 (Data p)\<rparr>) N = Some (p0\<lparr>Data := blit (Data p) 16 (enc32 N)\<rparr>)"
    "setTxnid_h (p0\<lparr>Data := blit (Data p) 16 (enc32 N)\<rparr>) (txnID_of (ct s)) = Some p'"
    using l by (simp_all add: b0 header_simps p'_def)
  have "txnID_of t2 = txnID_of (ct s)" by (simp add: t2 t_def)
  then have call: "copy_page w s p = Some (s', N, b)"
    using a(1) nt p0(1) st wr t4(1) by (simp add: copy_page_def Let_def s'_def t_def N_def [symmetric])
  have d3: "dirtyTracker t3 = dirtyTracker t"
    using wr by (auto simp: write_struct_def write_map_def t2 split: pstruct.splits)
  from fm.put_room [OF wtxn_okD(1) [OF okt], of N b] obtain m where
    "Set (dirtyTracker t) N (Some b) = Some m" "mapping_of m = (mapping_of (dirtyTracker t))(N \<mapsto> b)" by blast
  then have tr: "trk s' = (trk s)(N \<mapsto> b)" using t4(1) by (auto simp: tracker_set_def d3 s'_def t_def)
  note pf = page_frame_fields [OF t4(4)]
  have wf: "wframe s s'"
  proof (rule wframeI)
    from t4(4) obtain m0 sb0 where "e2 = (ce s)\<lparr>dataMap := m0, spillBuf := sb0\<rparr>" by (auto simp: page_frame_def)
    then show "ce s' = (ce s)\<lparr>dataMap := dataMap (ce s'), spillBuf := spillBuf (ce s')\<rparr>" by (simp add: s'_def)
    from t4(4) obtain ss tk sl0 mm0 where "t4 = t\<lparr>structs := ss, dirtyTracker := tk, spillSlots := sl0, mmapData := mm0\<rparr>"
      by (auto simp: page_frame_def)
    then show "ct s' = (ct s)\<lparr>structs := structs (ct s'), dirtyTracker := dirtyTracker (ct s'), spillSlots := spillSlots (ct s'),
       mmapData := mmapData (ct s'), allocatedPg := allocatedPg (ct s'), trees := trees (ct s'), dbiDirty := dbiDirty (ct s')\<rparr>"
      by (simp add: s'_def t_def)
  qed (simp add: s'_def)
  have al: "allocatedPg (ct s') = N + 1" "trees (ct s') = trees (ct s)" using pf by (simp_all add: s'_def t_def)
  have "cow_frame s s'"
    unfolding cow_frame_def
  proof (intro conjI allI impI wf)
    show "unat (allocatedPg (ct s)) \<le> unat (allocatedPg (ct s'))" using al fresh_next [OF room] by (simp add: N_def)
    fix q assume q: "\<not> fresh s q"
    then have "q \<noteq> N" by (auto simp: fresh_def N_def)
    then show "trk s' q = None \<longleftrightarrow> trk s q = None" "getMmapPageData (ce s') q = getMmapPageData (ce s) q"
      using tr t4(5) by (simp_all add: s'_def)
  next
    assume "mmapData (ct s) = dataMap (ce s)"
    then have "mmapData t3 = dataMap e2" using write_struct_map [OF wr] by (simp add: t2 t_def)
    then show "mmapData (ct s') = dataMap (ce s')" using t4(1) by (auto simp: tracker_set_def s'_def)
  qed
  moreover have "vw s' = (vw s)(N \<mapsto> p')" using t4(3) seen_cong [OF tt(1,2)] by (simp add: s'_def)
  ultimately show thesis using that call t4(2) tr al r by (simp add: s'_def N_def)
qed

section \<open>The stack over a tree\<close>

text \<open>Every page of the tree is well-formed, knows its number, and is dirty if it is of this transaction.\<close>

definition wpage :: "cst \<Rightarrow> nat \<Rightarrow> pgno \<Rightarrow> page \<Rightarrow> bool" where
  "wpage s h q p \<longleftrightarrow> kind_ok h q p \<and> length (Data p) = psize s \<and> pno p = q \<and> \<not> fresh s q \<and>
     (trk s q = None \<longrightarrow> ptx p \<noteq> txnID_of (ct s))"

text \<open>The levels of the stack hold the pages of a path: the struct of a dirty page, a slice of a clean one.\<close>

definition level_ref :: "cst \<Rightarrow> pgno \<Rightarrow> page \<Rightarrow> pref" where
  "level_ref s q p = (case trk s q of Some a \<Rightarrow> Ref a | None \<Rightarrow> Buf (Data p))"

definition on_wstack :: "cst \<Rightarrow> pgno \<Rightarrow> tpath \<Rightarrow> bool" where
  "on_wstack s pg st \<longleftrightarrow> top_ix (cc s) = int (length st) - 1 \<and> length st \<le> 32 \<and>
     length (cpages (cc s)) = 32 \<and> length (indices (cc s)) = 32 \<and> length (stackDirty (cc s)) = 32 \<and>
     (\<forall>l < length st. indices (cc s) ! l = of_nat (snd (st ! l)) \<and>
        cpages (cc s) ! l = level_ref s (pg_at pg st l) (fst (st ! l)) \<and>
        (dirtyMask (cc s) AND level_bit (int l) \<noteq> 0 \<longrightarrow> trk s (pg_at pg st l) \<noteq> None))"

definition wtree :: "nat \<Rightarrow> cst \<Rightarrow> nat \<Rightarrow> pgno \<Rightarrow> tpath \<Rightarrow> bool" where
  "wtree n s h pg st \<longleftrightarrow> wtxn_ok n (ce s) (ct s) \<and> unat (allocatedPg (ct s)) + n < 4294967296 \<and>
     path (vw s) h pg st \<and> distinct (tpages (vw s) h pg) \<and> tall (wpage s) (vw s) h pg \<and> on_wstack s pg st \<and>
     cdbi (cc s) < length (trees (ct s)) \<and> Root (trees (ct s) ! cdbi (cc s)) = pg"

lemma wtreeD:
  assumes "wtree n s h pg st"
  shows "wtxn_ok n (ce s) (ct s)" "unat (allocatedPg (ct s)) + n < 4294967296" "path (vw s) h pg st" "distinct (tpages (vw s) h pg)"
    "tall (wpage s) (vw s) h pg" "on_wstack s pg st" "cdbi (cc s) < length (trees (ct s))" "Root (trees (ct s) ! cdbi (cc s)) = pg"
  using assms by (simp_all add: wtree_def)

lemma wtxn_ok_mono: "wtxn_ok (Suc n) e t \<Longrightarrow> wtxn_ok n e t"
proof -
  assume a: "wtxn_ok (Suc n) e t"
  have "spill_room n b" if "spill_room (Suc n) b" for b using that by (simp add: spill_room_def)
  then show ?thesis
    using a map_room_mono [of "Suc n" "dirtyTracker t" n] map_room_mono [of "Suc n" "spillSlots t" n]
    by (auto simp: wtxn_ok_def spill_ready_def)
qed

lemma level_bits:
  assumes "l < 32" "i < 32"
  shows "level_bit (int l) AND level_bit (int i) \<noteq> 0 \<longleftrightarrow> l = i"
proof -
  have b: "level_bit (int i) = push_bit i 1" for i by (simp add: level_bit_def)
  show ?thesis
  proof (cases "l = i")
    case True
    then show ?thesis using assms by (simp add: b)
  next
    case False
    then have "push_bit l (1 :: u32) AND push_bit i 1 = 0" by (intro bit_word_eqI) (auto simp: bit_simps)
    then show ?thesis using False by (simp add: b)
  qed
qed

lemma path_nth:
  "path rd h pg st \<Longrightarrow> l < length st \<Longrightarrow> rd (pg_at pg st l) = Some (fst (st ! l)) \<and> pg_at pg st l \<in> set (tpages rd h pg) \<and>
     snd (st ! l) \<le> nents (fst (st ! l)) \<and> (Suc l < length st \<longrightarrow> snd (st ! l) < nents (fst (st ! l))) \<and>
     (Suc l < length st \<longrightarrow> pg_at pg st (Suc l) = kids (fst (st ! l)) ! snd (st ! l)) \<and> l \<le> h"
proof (induction l arbitrary: h pg st)
  case 0
  then show ?case by (cases st; cases "tl st"; cases h) auto
next
  case (Suc l)
  then obtain p i st1 where st: "st = (p, i) # st1" by (cases st) auto
  from Suc.prems obtain h' where h: "h = Suc h'" by (cases h) (auto simp: st)
  from Suc.prems have p: "rd pg = Some p" "i < nents p" "path rd h' (kids p ! i) st1" "l < length st1" by (simp_all add: st h)
  have "kids p ! i \<in> set (kids p)" using p(2) by simp
  then show ?case using Suc.IH [OF p(3,4)] p(1) by (auto simp: st h)
qed

text \<open>The facts about one level that the steps use.\<close>

lemma level_facts:
  assumes "wtree n s h pg st" "i < length st"
  defines "p \<equiv> fst (st ! i)" and "q \<equiv> pg_at pg st i"
  shows "at_ix (cpages (cc s)) (int i) = Some (level_ref s q p)" "page_of s (level_ref s q p) = Some p" "vw s q = Some p"
    "wpage s (h - i) q p" "at_ix (indices (cc s)) (int i) = Some (of_nat (snd (st ! i)))" "tracker_ref (ct s) q = Some (trk s q)"
    "snd (st ! i) \<le> nents p" "q \<in> set (tpages (vw s) h pg)"
proof -
  note t = wtreeD [OF assms(1)] and w = wtxn_okD [OF wtreeD(1) [OF assms(1)]]
  note pn = path_nth [OF t(3) assms(2), folded p_def q_def]
  show v: "vw s q = Some p" "snd (st ! i) \<le> nents p" "q \<in> set (tpages (vw s) h pg)" using pn by simp_all
  show "at_ix (cpages (cc s)) (int i) = Some (level_ref s q p)" "at_ix (indices (cc s)) (int i) = Some (of_nat (snd (st ! i)))"
    using t(6) assms(2) by (simp_all add: on_wstack_def at_ix_def p_def q_def)
  show "tracker_ref (ct s) q = Some (trk s q)" using fm.look_ok [OF w(1)] by (simp add: tracker_ref_def)
  show "page_of s (level_ref s q p) = Some p"
  proof (cases "trk s q")
    case None
    then show ?thesis by (simp add: level_ref_def page_of_def pref_page_def)
  next
    case (Some a)
    then show ?thesis using v(1) seen_tracked [OF w(7) Some] by (simp add: level_ref_def page_of_def pref_page_def)
  qed
  from subtree_replace [OF t(3) assms(2) t(4)] t(5) have "tall (wpage s) (vw s) (h - i) q" by (auto simp: q_def)
  from tall_top [OF this] v(1) show "wpage s (h - i) q p" by auto
qed

lemma wpage_mono:
  assumes "cow_frame s s'" "wpage s h q p"
  shows "wpage s' h q p"
  using assms wframe_fields(1,3) [of s s'] unfolding wpage_def cow_frame_def fresh_def by force

section \<open>One level\<close>

definition adopted :: "nat \<Rightarrow> nat \<Rightarrow> cursor \<Rightarrow> cursor" where
  "adopted i a c = c\<lparr>cpages := (cpages c)[i := Ref a], stackDirty := (stackDirty c)[i := Some a],
     dirtyMask := dirtyMask c OR level_bit (int i)\<rparr>"

lemma adopt_eq:
  assumes "on_wstack s0 pg st" "i < length st" "cc s = cc s0"
  shows "adopt (int i) a s = Some (s\<lparr>cc := adopted i a (cc s)\<rparr>)"
  using assms by (simp add: on_wstack_def adopt_def set_cpage_def set_stackDirty_def mark_level_def upd_ix_def adopted_def)

lemma on_wstack_adopt:
  assumes s: "on_wstack s pg st" and i: "i < length st" and st': "map snd st' = map snd st" and c: "cc s' = adopted i a (cc s)"
    and a: "trk s' (pg_at pg' st' i) = Some a"
    and oth: "\<And>l. l < length st \<Longrightarrow> l \<noteq> i \<Longrightarrow> level_ref s' (pg_at pg' st' l) (fst (st' ! l)) = level_ref s (pg_at pg st l) (fst (st ! l)) \<and>
      (trk s (pg_at pg st l) \<noteq> None \<longrightarrow> trk s' (pg_at pg' st' l) \<noteq> None)"
  shows "on_wstack s' pg' st'"
proof -
  have len: "length st' = length st" using arg_cong [OF st', of length] by simp
  have sn: "snd (st' ! l) = snd (st ! l)" if "l < length st" for l using arg_cong [OF st', of "\<lambda>x. x ! l"] that len by simp
  note o1 = s [unfolded on_wstack_def]
  have "indices (cc s') ! l = of_nat (snd (st' ! l)) \<and> cpages (cc s') ! l = level_ref s' (pg_at pg' st' l) (fst (st' ! l)) \<and>
        (dirtyMask (cc s') AND level_bit (int l) \<noteq> 0 \<longrightarrow> trk s' (pg_at pg' st' l) \<noteq> None)" if l: "l < length st" for l
  proof (cases "l = i")
    case True
    then show ?thesis using o1 i a sn [OF i] by (simp add: c adopted_def level_ref_def)
  next
    case False
    have "level_bit (int i) AND level_bit (int l) = 0" using level_bits [of i l] o1 l i False by simp
    then have "dirtyMask (cc s') AND level_bit (int l) = dirtyMask (cc s) AND level_bit (int l)"
      by (simp add: c adopted_def word_ao_dist)
    then show ?thesis using False o1 l oth [OF l False] sn [OF l] by (simp add: c adopted_def)
  qed
  then show ?thesis using o1 len by (simp add: on_wstack_def c adopted_def)
qed

text \<open>Of the trees only the root and the transaction id of the cursor's tree change.\<close>

definition tframe :: "cst \<Rightarrow> cst \<Rightarrow> bool" where
  "tframe s s' \<longleftrightarrow> (\<exists>r m. trees (ct s') =
     (trees (ct s))[cdbi (cc s) := (trees (ct s) ! cdbi (cc s))\<lparr>Root := r, ModTxnid := m\<rparr>])"

lemma tframe_refl: "tframe s s"
proof -
  have "trees (ct s) = (trees (ct s))[cdbi (cc s) := (trees (ct s) ! cdbi (cc s))\<lparr>Root := Root (trees (ct s) ! cdbi (cc s)),
    ModTxnid := ModTxnid (trees (ct s) ! cdbi (cc s))\<rparr>]" by simp
  then show ?thesis unfolding tframe_def by blast
qed

lemma tframe_trans:
  assumes "tframe s s1" "tframe s1 s2" "cdbi (cc s1) = cdbi (cc s)"
  shows "tframe s s2"
proof (cases "cdbi (cc s) < length (trees (ct s))")
  case True
  then show ?thesis using assms unfolding tframe_def by (elim exE) (intro exI, simp)
next
  case False
  then have "trees (ct s2) = trees (ct s)" using assms by (auto simp: tframe_def list_update_beyond)
  then show ?thesis using tframe_refl [of s] by (simp add: tframe_def)
qed

lemma touch_level_dirty:
  assumes t: "wtree (Suc n) s h pg st" and i: "i < length st" and a: "trk s (pg_at pg st i) = Some a"
  defines "s' \<equiv> s\<lparr>cc := adopted i a (cc s)\<rparr>"
  shows "touch_level w s (int i) = Some (s', Ref a)" "wtree n s' h pg st" "cow_frame s s'" "tframe s s'"
proof -
  note f = level_facts [OF t i] and d = wtreeD [OF t]
  have r: "level_ref s (pg_at pg st i) (fst (st ! i)) = Ref a" by (simp add: level_ref_def a)
  have p: "20 \<le> length (Data (fst (st ! i)))" "pno (fst (st ! i)) = pg_at pg st i"
    using f(4) by (simp_all add: wpage_def kind_ok_def page_ok_def)
  obtain hd' where "header (fst (st ! i)) = Some hd'" using page_header(2) [OF p(1)] by blast
  then show "touch_level w s (int i) = Some (s', Ref a)"
    using f(1,2,6) a page_header(1) [OF p(1)] p(2) adopt_eq [OF d(6) i refl]
    by (simp add: touch_level_def r s'_def)
  have eq: "ct s' = ct s" "ce s' = ce s" by (simp_all add: s'_def)
  have wf: "wframe s s'" by (rule wframeI) (simp_all add: s'_def adopted_def)
  then show cf: "cow_frame s s'" by (rule cow_frame_same) (simp_all add: eq)
  show "tframe s s'" using tframe_refl [of s] by (simp add: tframe_def eq)
  have "on_wstack s' pg st"
    by (rule on_wstack_adopt [OF d(6) i refl, of s' a]) (simp_all add: s'_def a level_ref_def)
  moreover have "tall (wpage s') (vw s') h pg" using tall_mono [OF d(5)] wpage_mono [OF cf] by (simp add: eq)
  ultimately show "wtree n s' h pg st" using d wtxn_ok_mono [OF d(1)] by (simp add: wtree_def eq s'_def adopted_def)
qed

lemma store_ok:
  assumes ok: "wtxn_ok n (ce s) (ct s)" and a: "trk s q = Some a" and len: "length (Data P) = psize s"
  obtains s' where "store s (Ref a) P = Some s'" "wtxn_ok n (ce s') (ct s')" "vw s' = (vw s)(q \<mapsto> P)" "trk s' = trk s"
    "cow_frame s s'" "cc s' = cc s" "trees (ct s') = trees (ct s)" "allocatedPg (ct s') = allocatedPg (ct s)"
proof -
  obtain e t where wr: "write_struct (ce s) (ct s) a (Data P) = (e, t)" by (cases "write_struct (ce s) (ct s) a (Data P)")
  note k = write_struct_ok [OF ok a len wr] and pf = page_frame_fields [OF write_struct_ok(3) [OF ok a len wr]]
  define s' where "s' = s\<lparr>ce := e, ct := t\<rparr>"
  have wf: "wframe s s'" by (rule page_frame_wframe) (use k(3) in \<open>simp_all add: s'_def\<close>)
  have "cow_frame s s'"
    unfolding cow_frame_def
  proof (intro conjI allI impI wf)
    fix q' assume "trk s q' = None"
    then have "q' \<noteq> q" using a by auto
    then show "getMmapPageData (ce s') q' = getMmapPageData (ce s) q'" using k(5) by (simp add: s'_def)
  next
    show "mmapData (ct s) = dataMap (ce s) \<Longrightarrow> mmapData (ct s') = dataMap (ce s')"
      using write_struct_map [OF wr] by (simp add: s'_def)
  qed (use k(4) pf in \<open>simp_all add: s'_def\<close>)
  moreover have "store s (Ref a) P = Some s'" by (simp add: store_def wr s'_def)
  ultimately show thesis using that [of s'] k pf by (simp add: s'_def)
qed

lemma updateChildPointer_eq:
  assumes "page_of s r = Some P" "page_ok P" "i < nents P"
  shows "updateChildPointer s r (int i) c = store s r (P\<lparr>Data := blit (Data P) (20 + ptr P i) (enc32 c)\<rparr>)"
proof -
  note e = page_ok_entry [OF assms(2,3)]
  have "putUint32LE (Data P) (int (20 + ptr P i)) c = Some (blit (Data P) (20 + ptr P i) (enc32 c))"
    unfolding putUint32LE_def using e(3) by (simp del: of_nat_add)
  then show ?thesis using assms(1) entry_off(1,5) [OF assms(2,3)] entry_uint(2) [OF assms(2,3)]
    by (simp add: updateChildPointer_def del: of_nat_add)
qed

lemma wtree_fresh: "wtree n s h pg st \<Longrightarrow> q \<in> set (tpages (vw s) h pg) \<Longrightarrow> \<not> fresh s q"
  using tall_pages [of "wpage s" "vw s" h pg q] wtreeD(5) [of n s h pg st] by (auto simp: wpage_def)

lemma touch_level_root:
  assumes t: "wtree (Suc n) s h pg st" and i: "0 < length st" and cl: "trk s pg = None" and w: "world_ok w"
  shows "\<exists>s' pg' st' a. touch_level w s 0 = Some (s', Ref a) \<and> wtree n s' h pg' st' \<and> abst (vw s') h pg' = abst (vw s) h pg \<and>
    map snd st' = map snd st \<and> trk s' (pg_at pg' st' 0) = Some a \<and> cow_frame s s' \<and> tframe s s'"
proof -
  note d = wtreeD [OF t] and f = level_facts [OF t i, simplified]
  define p where "p = fst (st ! 0)"
  have wp: "wpage s h pg p" "vw s pg = Some p" using f(3,4) by (simp_all add: p_def)
  have p: "page_ok p" "length (Data p) = psize s" "ptx p \<noteq> txnID_of (ct s)" "pno p = pg" "20 \<le> length (Data p)"
    using wp(1) cl by (auto simp: wpage_def kind_ok_def page_ok_def)
  have room: "unat (allocatedPg (ct s)) + 1 < 4294967296" using d(2) by simp
  define N where "N = allocatedPg (ct s)"
  have N: "fresh s N" "N \<notin> set (tpages (vw s) h pg)" using wtree_fresh [OF t, of N] by (auto simp: fresh_def N_def)
  from copy_page_ok [OF d(1) w p(1,2) room, folded N_def] obtain s1 a p' where
    s1: "copy_page w s p = Some (s1, N, a)" "wtxn_ok n (ce s1) (ct s1)" "vw s1 = (vw s)(N \<mapsto> p')" "trk s1 = (trk s)(N \<mapsto> a)" "cow_frame s s1" "cc s1 = cc s"
    "trees (ct s1) = trees (ct s)" "allocatedPg (ct s1) = N + 1" and
    p': "page_ok p'" "entries p' = entries p" "brp p' = brp p" "lfp p' = lfp p" "length (Data p') = length (Data p)" "pno p' = N" "ptx p' = txnID_of (ct s)"
    by blast
  define s2 where "s2 = s1\<lparr>cc := adopted 0 a (cc s1)\<rparr>"
  define tr where "tr = set_modTxnid s2 ((trees (ct s) ! cdbi (cc s))\<lparr>Root := N\<rparr>)"
  define s3 where "s3 = c_markDirty (s2\<lparr>ct := (ct s2)\<lparr>trees := (trees (ct s2))[cdbi (cc s) := tr]\<rparr>\<rparr>)"
  have ad: "adopt 0 a s1 = Some s2" using adopt_eq [OF d(6) i s1(6), of a] by (simp add: s2_def)
  have up: "upd_ctree (\<lambda>tr. set_modTxnid s2 (tr\<lparr>Root := N\<rparr>)) s2 =
      Some (s2\<lparr>ct := (ct s2)\<lparr>trees := (trees (ct s2))[cdbi (cc s) := tr]\<rparr>\<rparr>)"
    using d(7) s1(6,7) by (simp add: upd_ctree_def upd_tree_def tr_def s2_def adopted_def)
  obtain hd' where hd: "header p = Some hd'" "hTxnid hd' = ptx p" using page_header(2) [OF p(5)] by blast
  have r: "level_ref s pg p = Buf (Data p)" by (simp add: level_ref_def cl)
  have call: "touch_level w s 0 = Some (s3, Ref a)"
    using f(1,2,6) cl page_header(1) [OF p(5)] hd p(3,4) s1(1) ad up unfolding touch_level_def p_def [symmetric]
    by (simp add: r s3_def)
  have e3: "ce s3 = ce s1" "dirtyTracker (ct s3) = dirtyTracker (ct s1)" "structs (ct s3) = structs (ct s1)" "spillSlots (ct s3) = spillSlots (ct s1)"
    "txnFlags (ct s3) = txnFlags (ct s1)" "allocatedPg (ct s3) = N + 1" "cc s3 = adopted 0 a (cc s)" "mmapData (ct s3) = mmapData (ct s1)"
    "trees (ct s3) = (trees (ct s))[cdbi (cc s) := tr]"
    using s1(6-8) by (simp_all add: s3_def s2_def c_markDirty_def markTreeDirty_def)
  have v3: "vw s3 = (vw s)(N \<mapsto> p')" "trk s3 = (trk s)(N \<mapsto> a)" using seen_cong [OF e3(2,3)] s1(3,4) by (simp_all add: e3(1,2))
  have wf: "wframe s1 s3" by (rule wframeI) (simp_all add: s3_def s2_def c_markDirty_def markTreeDirty_def adopted_def)
  have cf: "cow_frame s s3" by (rule cow_frame_trans [OF s1(5)], rule cow_frame_same [OF wf]) (simp_all add: e3 s1(8))
  have st3: "st ! 0 = (p, snd (st ! 0))" by (simp add: p_def)
  define st' where "st' = st[0 := (p', snd (st ! 0))]"
  have sn: "map snd st' = map snd st" using i by (cases st) (simp_all add: st'_def)
  have oth: "vw s3 q = vw s q" if "q \<in> set (tl (tpages (vw s) h pg))" for q
    using that N(2) list.set_sel(2) [of "tpages (vw s) h pg" q] by (auto simp: v3)
  have vN: "vw s3 N = Some p'" by (simp add: v3)
  note C = copy_root_path [OF d(3) _ p_def [symmetric] vN p'(2) oth d(4) N(2), folded st'_def]
  have C': "distinct (tpages (vw s3) h N)" "abst (vw s3) h N = abst (vw s) h pg" "path (vw s3) h N st'"
    "\<And>Q. tall Q (vw s) h pg \<Longrightarrow> Q h N p' \<Longrightarrow> tall Q (vw s3) h N"
    using C i by auto
  have k: "kids p' = kids p" "nents p' = nents p" using entries_eqD [OF p'(2)] by simp_all
  have at: "pg_at N st' l = pg_at pg st l" if "0 < l" "l < length st" for l
  proof (cases l)
    case (Suc m)
    have "pg_at N ((p', x) # s) (Suc m) = pg_at pg ((p, x) # s) (Suc m)" for x s by (simp add: k)
    then show ?thesis using i Suc by (cases st) (auto simp: st'_def p_def)
  qed (use that in simp)
  have "wpage s3 h N p'"
    using wp(1) p' k fresh_next [OF room] wframe_fields(1,3) [OF cow_wframe [OF cf]]
    by (auto simp: wpage_def kind_ok_def v3(2) fresh_def e3(6) N_def)
  then have tl3: "tall (wpage s3) (vw s3) h N" using C'(4) tall_mono [OF d(5)] wpage_mono [OF cf] by blast
  have fl: "\<not> fresh s (pg_at pg st l)" if "l < length st" for l using wtree_fresh [OF t level_facts(8) [OF t that]] .
  have ws: "on_wstack s3 N st'"
  proof (rule on_wstack_adopt [OF d(6) i sn e3(7)])
    show "trk s3 (pg_at N st' 0) = Some a" by (simp add: v3)
    fix l assume l: "l < length st" "l \<noteq> 0"
    then have "pg_at N st' l = pg_at pg st l" "fst (st' ! l) = fst (st ! l)" using at by (simp_all add: st'_def)
    moreover have "pg_at pg st l \<noteq> N" using fl [OF l(1)] N(1) by auto
    ultimately show "level_ref s3 (pg_at N st' l) (fst (st' ! l)) = level_ref s (pg_at pg st l) (fst (st ! l)) \<and>
      (trk s (pg_at pg st l) \<noteq> None \<longrightarrow> trk s3 (pg_at N st' l) \<noteq> None)" by (simp add: level_ref_def v3)
  qed
  have "wtxn_ok n (ce s3) (ct s3)" using s1(2) wtxn_ok_cong [OF e3(2-5)] by (simp add: e3(1))
  then have "wtree n s3 h N st'"
    using C' tl3 ws d(2,7) fresh_next [OF room] by (simp add: wtree_def e3 N_def adopted_def tr_def set_modTxnid_def)
  moreover have "tframe s s3" unfolding tframe_def e3(9) tr_def by (auto simp: set_modTxnid_def)
  moreover have "trk s3 (pg_at N st' 0) = Some a" by (simp add: v3)
  ultimately show ?thesis using call sn cf C'(2) by blast
qed

lemma touch_level_child:
  assumes t: "wtree (Suc n) s h pg st" and i: "Suc l < length st" and cl: "trk s (pg_at pg st (Suc l)) = None"
    and up: "trk s (pg_at pg st l) = Some ap" and w: "world_ok w"
  shows "\<exists>s' st' a. touch_level w s (int (Suc l)) = Some (s', Ref a) \<and> wtree n s' h pg st' \<and> abst (vw s') h pg = abst (vw s) h pg \<and>
    map snd st' = map snd st \<and> trk s' (pg_at pg st' (Suc l)) = Some a \<and> cow_frame s s' \<and> tframe s s'"
proof -
  have l: "l < length st" using i by simp
  note d = wtreeD [OF t] and f = level_facts [OF t i] and g = level_facts [OF t l]
  define p q where "p = fst (st ! Suc l)" and "q = pg_at pg st (Suc l)"
  define P PP x where "P = fst (st ! l)" and "PP = pg_at pg st l" and "x = snd (st ! l)"
  note f = f [folded p_def q_def] and g = g [folded P_def PP_def x_def]
  note pn = path_nth [OF d(3) l, folded P_def PP_def x_def]
  have hl: "l < h" using path_nth [OF d(3) i] by simp
  have p: "page_ok p" "length (Data p) = psize s" "ptx p \<noteq> txnID_of (ct s)" "pno p = q" "20 \<le> length (Data p)"
    using f(4) cl by (auto simp: wpage_def kind_ok_def page_ok_def q_def)
  have P: "page_ok P" "brp P" "x < nents P" "length (Data P) = psize s"
    using g(4) pn i hl by (auto simp: wpage_def kind_ok_def)
  have room: "unat (allocatedPg (ct s)) + 1 < 4294967296" using d(2) by simp
  define N where "N = allocatedPg (ct s)"
  have N: "fresh s N" "N \<notin> set (tpages (vw s) h pg)" using wtree_fresh [OF t, of N] by (auto simp: fresh_def N_def)
  have PN: "PP \<noteq> N" using N(2) g(8) by auto
  from copy_page_ok [OF d(1) w p(1,2) room, folded N_def] obtain s1 a p' where
    s1: "copy_page w s p = Some (s1, N, a)" "wtxn_ok n (ce s1) (ct s1)" "vw s1 = (vw s)(N \<mapsto> p')" "trk s1 = (trk s)(N \<mapsto> a)" "cow_frame s s1" "cc s1 = cc s"
    "trees (ct s1) = trees (ct s)" "allocatedPg (ct s1) = N + 1" and
    p': "page_ok p'" "entries p' = entries p" "brp p' = brp p" "lfp p' = lfp p" "length (Data p') = length (Data p)" "pno p' = N" "ptx p' = txnID_of (ct s)"
    by blast
  define s2 where "s2 = s1\<lparr>cc := adopted (Suc l) a (cc s1)\<rparr>"
  have e2: "ce s2 = ce s1" "ct s2 = ct s1" "cc s2 = adopted (Suc l) a (cc s)" using s1(6) by (simp_all add: s2_def)
  have ad: "adopt (int (Suc l)) a s1 = Some s2" using adopt_eq [OF d(6) i s1(6), of a] by (simp add: s2_def)
  have cf2: "cow_frame s1 s2" by (rule cow_frame_same, rule wframeI) (simp_all add: s2_def adopted_def)
  define P' where "P' = P\<lparr>Data := blit (Data P) (20 + ptr P x) (enc32 N)\<rparr>"
  note P' = set_child [OF P(1-3), of N, folded P'_def]
  have tr2: "trk s2 PP = Some ap" using PN up by (simp add: e2 s1(4) PP_def)
  have "vw s2 PP = Some P" using PN g(3) by (simp add: e2 s1(3))
  then have pgo: "page_of s2 (Ref ap) = Some P"
    using seen_tracked [OF wtxn_okD(7) [OF s1(2)], of PP ap] tr2 by (simp add: page_of_def pref_page_def e2)
  have "psize s2 = psize s" using wframe_fields(1) [OF cow_wframe [OF s1(5)]] by (simp add: e2)
  then have lenP: "length (Data P') = psize s2" using P'(6) P(4) by simp
  from store_ok [of n s2, OF _ tr2 lenP] s1(2) obtain s3 where
    s3: "store s2 (Ref ap) P' = Some s3" "wtxn_ok n (ce s3) (ct s3)" "vw s3 = (vw s2)(PP \<mapsto> P')" "trk s3 = trk s2"
      "cow_frame s2 s3" "cc s3 = cc s2" "trees (ct s3) = trees (ct s2)" "allocatedPg (ct s3) = allocatedPg (ct s2)" by (auto simp: e2)
  have ws: "top_ix (cc s) = int (length st) - 1" "length st \<le> 32" "length (cpages (cc s)) = 32" "length (indices (cc s)) = 32"
    using d(6) by (simp_all add: on_wstack_def)
  have par: "at_ix (cpages (cc s2)) (int (Suc l) - 1) = Some (Ref ap)" "at_ix (indices (cc s2)) (int (Suc l) - 1) = Some (of_nat x)"
    using g(1,5) up by (simp_all add: e2(3) adopted_def at_ix_def level_ref_def PP_def split: if_splits)
  have ux: "uint (of_nat x :: u16) = int x" using uint_of_nat16 [of x] P(3) page_small [OF P(1)] by simp
  obtain hd' where hd: "header p = Some hd'" "hTxnid hd' = ptx p" using page_header(2) [OF p(5)] by blast
  have r: "level_ref s q p = Buf (Data p)" by (simp add: level_ref_def cl q_def)
  have call: "touch_level w s (int (Suc l)) = Some (s3, Ref a)"
    using f(1,2,6) cl page_header(1) [OF p(5)] hd p(3,4) s1(1) ad par updateChildPointer_eq [OF pgo P(1,3), of N] s3(1)
    unfolding touch_level_def q_def [symmetric]
    by (simp add: r ux P'_def [symmetric] del: of_nat_Suc)
  have v3: "vw s3 = (vw s)(N \<mapsto> p', PP \<mapsto> P')" "trk s3 = (trk s)(N \<mapsto> a)" by (simp_all add: s3(3,4) e2 s1(3,4))
  have cf: "cow_frame s s3" by (rule cow_frame_trans [OF s1(5) cow_frame_trans [OF cf2 s3(5)]])
  have al: "allocatedPg (ct s3) = N + 1" "trees (ct s3) = trees (ct s)" "cc s3 = adopted (Suc l) a (cc s)"
    by (simp_all add: s3(6-8) e2 s1(7,8))
  define st' where "st' = st[l := (P', x), Suc l := (p', snd (st ! Suc l))]"
  have sn: "map snd st' = map snd st" using l i by (intro nth_equalityI) (auto simp: st'_def nth_list_update x_def)
  have vN: "vw s3 PP = Some P'" "vw s3 N = Some p'" "vw s3 y = vw s y" if "y \<in> set (tpages (vw s) h pg)" "y \<noteq> PP" for y
    using PN that N(2) by (auto simp: v3)
  have vN': "vw s3 PP = Some P'" "vw s3 N = Some p'" using PN by (simp_all add: v3)
  have kk: "kids P' = (kids P)[x := N]" by (rule P'(3))
  note C = relink_path [OF d(3) i d(4) N(2), folded PP_def P_def x_def, OF vN'(1) P'(2) kk vN'(2) p'(2) [unfolded p_def] vN(3), folded st'_def p_def]
  have C': "distinct (tpages (vw s3) h pg)" "abst (vw s3) h pg = abst (vw s) h pg" "path (vw s3) h pg st'"
    "\<And>Q. tall Q (vw s) h pg \<Longrightarrow> Q (h - l) PP P' \<Longrightarrow> Q (h - Suc l) N p' \<Longrightarrow> tall Q (vw s3) h pg"
    using C by auto
  have k: "kids p' = kids p" "nents p' = nents p" "nents P' = nents P"
    using entries_eqD [OF p'(2)] arg_cong [OF P'(2), of length] by simp_all
  have len': "length st' = length st" by (simp add: st'_def)
  have at: "pg_at pg st' m = (if m = Suc l then N else pg_at pg st m)" if "m < length st" for m
    using that
  proof (induction m)
    case (Suc m)
    then have m: "m < length st'" by (simp add: len')
    have "pg_at pg st' (Suc m) = kids (fst (st' ! m)) ! snd (st' ! m)" by (rule pg_at_Suc [OF m])
    moreover have "kids (fst (st' ! m)) ! snd (st' ! m) = (if m = l then N else kids (fst (st ! m)) ! snd (st ! m))"
      using i Suc.prems k(1) P(3) by (auto simp: st'_def nth_list_update kk p_def)
    ultimately show ?case using pg_at_Suc [of m st pg] Suc.prems by simp
  qed simp
  have fr: "fresh s3 y \<Longrightarrow> fresh s y" for y using cf by (simp add: cow_frame_def fresh_def)
  note pf = wframe_fields [OF cow_wframe [OF cf]]
  have w1: "wpage s3 (h - l) PP P'"
    using wpage_mono [OF cf g(4)] P' k(3) P(2) hl by (auto simp: wpage_def kind_ok_def)
  have w2: "wpage s3 (h - Suc l) N p'"
    using f(4) p' k fresh_next [OF room] pf(1,3) by (auto simp: wpage_def kind_ok_def v3(2) fresh_def al(1) N_def)
  have tl3: "tall (wpage s3) (vw s3) h pg" using C'(4) tall_mono [OF d(5)] wpage_mono [OF cf] w1 w2 by blast
  have fl: "pg_at pg st m \<noteq> N" if "m < length st" for m using level_facts(8) [OF t that] N(2) by auto
  have ws: "on_wstack s3 pg st'"
  proof (rule on_wstack_adopt [OF d(6) i sn al(3)])
    show "trk s3 (pg_at pg st' (Suc l)) = Some a" using at [OF i] by (simp add: v3(2))
    fix m assume m: "m < length st" "m \<noteq> Suc l"
    have "trk s3 (pg_at pg st' m) = trk s (pg_at pg st m)" using at [OF m(1)] m(2) fl [OF m(1)] by (simp add: v3(2))
    moreover have "m \<noteq> l \<Longrightarrow> fst (st' ! m) = fst (st ! m)" using m by (simp add: st'_def)
    ultimately show "level_ref s3 (pg_at pg st' m) (fst (st' ! m)) = level_ref s (pg_at pg st m) (fst (st ! m)) \<and>
      (trk s (pg_at pg st m) \<noteq> None \<longrightarrow> trk s3 (pg_at pg st' m) \<noteq> None)"
      using up by (cases "m = l") (auto simp: level_ref_def)
  qed
  have "wtree n s3 h pg st'"
    using s3(2) C' tl3 ws d(2,7,8) fresh_next [OF room] pf(4) by (simp add: wtree_def al(1,2) N_def)
  moreover have "tframe s s3" using tframe_refl [of s] by (simp add: tframe_def al(2))
  moreover have "trk s3 (pg_at pg st' (Suc l)) = Some a" using at [OF i] by (simp add: v3(2))
  ultimately show ?thesis using call sn cf C'(2) by blast
qed

section \<open>The whole stack\<close>

lemma wtree_mono: "wtree (Suc n) s h pg st \<Longrightarrow> wtree n s h pg st"
  using wtxn_ok_mono by (auto simp: wtree_def)

lemma wtree_mono_add: "wtree (n + k) s h pg st \<Longrightarrow> wtree n s h pg st"
  by (induction k) (auto dest: wtree_mono)

text \<open>What a step of copy-on-write keeps.\<close>

definition cow_step :: "cst \<Rightarrow> nat \<Rightarrow> pgno \<Rightarrow> tpath \<Rightarrow> cst \<Rightarrow> pgno \<Rightarrow> tpath \<Rightarrow> bool" where
  "cow_step s h pg st s' pg' st' \<longleftrightarrow> abst (vw s') h pg' = abst (vw s) h pg \<and> map snd st' = map snd st \<and> cow_frame s s' \<and> tframe s s'"

lemma cow_step_refl: "cow_step s h pg st s pg st" by (simp add: cow_step_def cow_frame_refl tframe_refl)

lemma cow_step_trans: "cow_step s h pg st s1 pg1 st1 \<Longrightarrow> cow_step s1 h pg1 st1 s2 pg2 st2 \<Longrightarrow> cow_step s h pg st s2 pg2 st2"
  using cow_frame_trans [of s s1 s2] tframe_trans [of s s1 s2] wframe_fields(4) [of s s1] cow_wframe [of s s1] by (simp add: cow_step_def)

lemma cow_step_length: "cow_step s h pg st s' pg' st' \<Longrightarrow> length st' = length st"
  unfolding cow_step_def by (metis length_map)

lemma touch_level_ok:
  assumes "wtree (Suc n) s h pg st" "i < length st" "i = 0 \<or> trk s (pg_at pg st (i - 1)) \<noteq> None" "world_ok w"
  shows "\<exists>s' pg' st' a. touch_level w s (int i) = Some (s', Ref a) \<and> wtree n s' h pg' st' \<and> cow_step s h pg st s' pg' st' \<and>
    trk s' (pg_at pg' st' i) = Some a"
proof (cases "trk s (pg_at pg st i)")
  case None
  show ?thesis
  proof (cases i)
    case 0
    then show ?thesis using touch_level_root [OF assms(1) _ _ assms(4)] None assms(2) by (auto simp: cow_step_def)
  next
    case (Suc l)
    then obtain ap where "trk s (pg_at pg st l) = Some ap" using assms(3) by auto
    from touch_level_child [OF assms(1) assms(2) [unfolded Suc] None [unfolded Suc] this assms(4)] show ?thesis
      unfolding Suc cow_step_def by blast
  qed
next
  case (Some a)
  note d = touch_level_dirty [OF assms(1,2) Some]
  have "cow_step s h pg st (s\<lparr>cc := adopted i a (cc s)\<rparr>) pg st" using d(3,4) by (simp add: cow_step_def)
  with d(1,2) Some show ?thesis by fastforce
qed

lemma touch_loop_ok:
  assumes "wtree (n + k) s h pg st" "i + k = Suc L" "L < length st" "i = 0 \<or> trk s (pg_at pg st (i - 1)) \<noteq> None" "world_ok w"
  shows "\<exists>s' pg' st' r'. touch_loop w s r [int i..int L] = Some (s', r') \<and> wtree n s' h pg' st' \<and> cow_step s h pg st s' pg' st' \<and>
    (i \<le> L \<longrightarrow> (\<exists>a. r' = Ref a \<and> trk s' (pg_at pg' st' L) = Some a))"
  using assms(1-4)
proof (induction k arbitrary: s pg st i r)
  case 0
  then show ?case using cow_step_refl [of s h pg st] by (auto simp: upto_rec1)
next
  case (Suc k)
  have t: "wtree (Suc (n + k)) s h pg st" using Suc.prems(1) by simp
  have i: "i < length st" "i \<le> L" using Suc.prems(2,3) by auto
  from touch_level_ok [OF t i(1) Suc.prems(4) assms(5)] obtain s1 pg1 st1 a where
    s1: "touch_level w s (int i) = Some (s1, Ref a)" "wtree (n + k) s1 h pg1 st1" "cow_step s h pg st s1 pg1 st1"
      "trk s1 (pg_at pg1 st1 i) = Some a" by blast
  have L: "L < length st1" using cow_step_length [OF s1(3)] Suc.prems(3) by simp
  have up: "[int i..int L] = int i # [int (Suc i)..int L]" using i(2) by (simp add: upto_rec1 add.commute)
  have "Suc i + k = Suc L" using Suc.prems(2) by simp
  from Suc.IH [OF s1(2) this L, of "Ref a"] s1(4) obtain s2 pg2 st2 r2 where
    s2: "touch_loop w s1 (Ref a) [int (Suc i)..int L] = Some (s2, r2)" "wtree n s2 h pg2 st2" "cow_step s1 h pg1 st1 s2 pg2 st2"
      "Suc i \<le> L \<longrightarrow> (\<exists>a. r2 = Ref a \<and> trk s2 (pg_at pg2 st2 L) = Some a)" by auto
  show ?case
  proof (cases "i = L")
    case True
    then have "touch_loop w s r [int i..int L] = Some (s1, Ref a)" "k = 0" using s1(1) Suc.prems(2) by (simp_all add: up)
    with s1 True show ?thesis by auto
  next
    case False
    then have "Suc i \<le> L" using i(2) by simp
    moreover have "touch_loop w s r [int i..int L] = Some (s2, r2)" unfolding up using s1(1) s2(1) by simp
    ultimately show ?thesis using s2(2,4) cow_step_trans [OF s1(3) s2(3)] by blast
  qed
qed

lemma touch_start_ok:
  obtains b where "touch_start m (int L) = int b" "b \<le> L" "b = 0 \<or> m AND level_bit (int (b - 1)) \<noteq> 0"
proof (cases "filter (\<lambda>b. m AND level_bit b \<noteq> 0) (rev [0..int L - 1])")
  case Nil
  then show thesis using that [of 0] by (simp add: touch_start_def)
next
  case (Cons x xs)
  then have "x \<in> set (filter (\<lambda>b. m AND level_bit b \<noteq> 0) (rev [0..int L - 1]))" by simp
  then have "0 \<le> x" "x \<le> int L - 1" "m AND level_bit x \<noteq> 0" by simp_all
  then show thesis using Cons that [of "nat (x + 1)"] by (simp add: touch_start_def nat_add_distrib)
qed

lemma touchPageAt_ok:
  assumes t: "wtree (n + length st) s h pg st" and L: "L < length st" and w: "world_ok w"
  shows "\<exists>s' pg' st' a. touchPageAt w s (int L) = Some (s', Inr (Ref a)) \<and> wtree n s' h pg' st' \<and> cow_step s h pg st s' pg' st' \<and>
    trk s' (pg_at pg' st' L) = Some a"
proof -
  note d = wtreeD [OF t] and f = level_facts [OF t L]
  have ws: "top_ix (cc s) = int (length st) - 1" "length (stackDirty (cc s)) = 32" "length st \<le> 32"
    "\<forall>l < length st. dirtyMask (cc s) AND level_bit (int l) \<noteq> 0 \<longrightarrow> trk s (pg_at pg st l) \<noteq> None"
    using d(6) by (simp_all add: on_wstack_def)
  define r where "r = level_ref s (pg_at pg st L) (fst (st ! L))"
  have r: "at_ix (cpages (cc s)) (int L) = Some r" using f(1) by (simp add: r_def)
  obtain sd where sd: "at_ix (stackDirty (cc s)) (int L) = Some sd" using ws L by (simp add: at_ix_def)
  have bnd: "\<not> (int L < 0 \<or> int L > top_ix (cc s))" using ws L by simp
  define early where "early \<longleftrightarrow> sd \<noteq> None \<and> r = Ref (the sd) \<or> dirtyMask (cc s) AND level_bit (int L) \<noteq> 0"
  have eq: "touchPageAt w s (int L) = (if early then Some (s, Inr r)
      else do { (s, r) \<leftarrow> touch_loop w s r [touch_start (dirtyMask (cc s)) (int L)..int L]; Some (s, Inr r) })"
    unfolding touchPageAt_def if_not_P [OF bnd] r sd bind.bind_lunit early_def by (auto split: if_splits)
  show ?thesis
  proof (cases early)
    case True
    then obtain a where "r = Ref a" "trk s (pg_at pg st L) = Some a"
      using ws(4) L by (cases "trk s (pg_at pg st L)") (auto simp: early_def r_def level_ref_def)
    moreover have "wtree n s h pg st" using t wtree_mono_add by blast
    moreover have "touchPageAt w s (int L) = Some (s, Inr r)" using True eq by simp
    ultimately show ?thesis using cow_step_refl [of s h pg st] by blast
  next
    case False
    obtain b where b: "touch_start (dirtyMask (cc s)) (int L) = int b" "b \<le> L" "b = 0 \<or> dirtyMask (cc s) AND level_bit (int (b - 1)) \<noteq> 0"
      by (rule touch_start_ok)
    have up: "b = 0 \<or> trk s (pg_at pg st (b - 1)) \<noteq> None" using b ws(4) L by (metis diff_le_self order_le_less_trans)
    define k where "k = Suc L - b"
    have k: "b + k = Suc L" "k \<le> length st" using b(2) L by (simp_all add: k_def)
    have "wtree (n + k) s h pg st" using wtree_mono_add [of "n + k" "length st - k" s h pg st] t k(2) by simp
    from touch_loop_ok [OF this k(1) L up w, of r] b(2) obtain s' pg' st' a where
      "touch_loop w s r [int b..int L] = Some (s', Ref a)" "wtree n s' h pg' st'" "cow_step s h pg st s' pg' st'"
      "trk s' (pg_at pg' st' L) = Some a" by blast
    then show ?thesis using False eq b(1) by auto
  qed
qed

lemma touchPage_ok:
  assumes "wtree (n + length st) s h pg st" "st \<noteq> []" "world_ok w"
  shows "\<exists>s' pg' st' a. touchPage w s = Some (s', Inr (Ref a)) \<and> wtree n s' h pg' st' \<and> cow_step s h pg st s' pg' st' \<and>
    trk s' (pg_at pg' st' (length st - 1)) = Some a"
proof -
  have top: "top_ix (cc s) = int (length st - 1)" "\<not> top_ix (cc s) < 0"
    using wtreeD(6) [OF assms(1)] assms(2) by (cases st; simp add: on_wstack_def)+
  have "length st - 1 < length st" using assms(2) by simp
  from touchPageAt_ok [OF assms(1) this assms(3)] show ?thesis
    unfolding touchPage_def if_not_P [OF top(2)] top(1) [symmetric] .
qed

end
