(* ===== verification/PutPath.thy ===== *)
theory PutPath
  imports CowSpec
begin

text \<open>
  The search for the place of a key in a write transaction (cursor.searchForInsert): it leaves the
  cursor's stack on the path of the key from the root to a leaf, with the struct of every page that is
  dirty, and reports whether the leaf has the key.
\<close>

section \<open>The path of a key\<close>

fun spath :: "cmp_fn \<Rightarrow> bytes \<Rightarrow> (pgno \<Rightarrow> page option) \<Rightarrow> nat \<Rightarrow> pgno \<Rightarrow> tpath" where
  "spath cmp k rd 0 pg = (let p = the (rd pg) in [(p, leaf_pos cmp (keys_of p) k)])"
| "spath cmp k rd (Suc h) pg =
     (let p = the (rd pg); i = branch_pos cmp (keys_of p) k in (p, i) # spath cmp k rd h (kids p ! i))"

lemma length_spath [simp]: "length (spath cmp k rd h pg) = Suc h"
  by (induction h arbitrary: pg) (simp_all add: Let_def)

lemma spath_ne [simp]: "spath cmp k rd h pg \<noteq> []"
  by (metis length_spath length_0_conv nat.distinct(1))

context key_order
begin

lemma spath_ok:
  "tall kind_ok rd h pg \<Longrightarrow> path rd h pg (spath cmp k rd h pg)"
proof (induction h arbitrary: pg)
  case 0
  then show ?case using leaf_pos_le [of "keys_of (the (rd pg))" k] by (auto simp: Let_def split: option.splits)
next
  case (Suc h)
  then obtain p where p0: "rd pg = Some p" "kind_ok (Suc h) pg p" "\<forall>c \<in> set (kids p). tall kind_ok rd h c"
    by (auto split: option.splits)
  then have p: "rd pg = Some p" "0 < nents p" "\<forall>c \<in> set (kids p). tall kind_ok rd h c"
    unfolding kind_ok_def by auto
  have "keys_of p \<noteq> []" using p(2) by (auto simp flip: length_0_conv)
  then have b: "branch_pos cmp (keys_of p) k < nents p" using branch_pos_less [of "keys_of p" k] by simp
  then have "kids p ! branch_pos cmp (keys_of p) k \<in> set (kids p)" by simp
  then show ?case using Suc.IH p b by (simp add: Let_def)
qed

lemma spath_steps:
  "tall kind_ok rd h pg \<Longrightarrow> map snd (take h (spath cmp k rd h pg)) = bt_path cmp k h (abst rd h pg)"
proof (induction h arbitrary: pg)
  case (Suc h)
  then obtain p where p0: "rd pg = Some p" "kind_ok (Suc h) pg p" "\<forall>c \<in> set (kids p). tall kind_ok rd h c"
    by (auto split: option.splits)
  then have p: "rd pg = Some p" "0 < nents p" "\<forall>c \<in> set (kids p). tall kind_ok rd h c"
    unfolding kind_ok_def by auto
  have "keys_of p \<noteq> []" using p(2) by (auto simp flip: length_0_conv)
  then have b: "branch_pos cmp (keys_of p) k < nents p" using branch_pos_less [of "keys_of p" k] by simp
  then have "kids p ! branch_pos cmp (keys_of p) k \<in> set (kids p)" by simp
  then show ?case using Suc.IH p b by (simp add: Let_def)
qed simp

end

section \<open>Searching the place of a key\<close>

definition cmp_ready :: "cst \<Rightarrow> cmp_fn \<Rightarrow> bool" where
  "cmp_ready s cmp \<longleftrightarrow> key_order cmp \<and> comparator_of (ct s) (cdbi (cc s)) = Some cmp \<and>
     cdbi (cc s) < length (dbiUsesDefaultCmp (ct s)) \<and> (dbiUsesDefaultCmp (ct s) ! cdbi (cc s) \<longrightarrow> cmp = bytes_compare)"

definition map_ready :: "cst \<Rightarrow> bool" where
  "map_ready s \<longleftrightarrow> mmapData (ct s) = dataMap (ce s) \<and> txnPageSize (ct s) = envPageSize (ce s)"

lemma cursor_searchPage_ok:
  assumes "cmp_ready s cmp" "page_ok p" "keys_sorted cmp p"
  shows "cursor_searchPage s p k = Some (int (fst (search_result cmp p k)))"
proof -
  note l = page_okD(1) [OF assms(2)]
  show ?thesis
  proof (cases "nents p = 0")
    case True
    have "fst (search_result cmp p k) = 0"
      using True by (simp add: search_result_def branch_pos_def leaf_pos_def keys_of_def entries_def)
    then show ?thesis using True by (simp add: cursor_searchPage_def numEntriesFast_eq [OF l] Let_def)
  next
    case False
    then show ?thesis
      using assms searchPageAsm_ok [OF assms(2), of k] key_order.searchPage_cmp_ok [OF _ assms(2,3), of k]
      by (auto simp: cursor_searchPage_def numEntriesFast_eq [OF l] Let_def cmp_ready_def)
  qed
qed

lemma fill_seen:
  assumes ok: "wtxn_ok n (ce s) (ct s)" and m: "map_ready s" and v: "vw s q = Some p"
  shows "fill s q = Some (s, level_ref s q p)" "page_of s (level_ref s q p) = Some p"
proof -
  note w = wtxn_okD [OF ok]
  have tr: "tracker_ref (ct s) q = Some (trk s q)" using fm.look_ok [OF w(1)] by (simp add: tracker_ref_def)
  have "fill s q = Some (s, level_ref s q p) \<and> page_of s (level_ref s q p) = Some p"
  proof (cases "trk s q")
    case (Some a)
    then show ?thesis using w(6) tr v seen_tracked [OF w(7) Some]
      by (simp add: fill_def fillPageHotPath_def level_ref_def page_of_def pref_page_def)
  next
    case None
    then obtain d where d: "getMmapPageData (ce s) q = Some d" "p = \<lparr>Data = d\<rparr>" using v seen_untracked [OF None] by auto
    then have "getPageDataFast (ce s) (ct s) q = Some (ct s, Some d)"
      using m w(5) by (auto simp: getPageDataFast_def getMmapPageData_def map_ready_def mapped_def Let_def split: option.splits if_splits)
    then show ?thesis using None w(6) tr d(2) by (simp add: fill_def fillPageHotPath_def level_ref_def page_of_def pref_page_def mapped_def)
  qed
  then show "fill s q = Some (s, level_ref s q p)" "page_of s (level_ref s q p) = Some p" by simp_all
qed

text \<open>The stack with no marks above its top, and one page more on it.\<close>

definition clean_above :: "cst \<Rightarrow> nat \<Rightarrow> bool" where
  "clean_above s n \<longleftrightarrow> (\<forall>l < 32. n \<le> l \<longrightarrow> dirtyMask (cc s) AND level_bit (int l) = 0)"

definition pushed :: "cst \<Rightarrow> nat \<Rightarrow> pref \<Rightarrow> nat \<Rightarrow> cst" where
  "pushed s l r i = s\<lparr>cc := (cc s)\<lparr>top_ix := int l, cpages := (cpages (cc s))[l := r], indices := (indices (cc s))[l := of_nat i],
     dirtyMask := (case r of Ref _ \<Rightarrow> dirtyMask (cc s) OR level_bit (int l) | Buf _ \<Rightarrow> dirtyMask (cc s))\<rparr>\<rparr>"

lemma pg_at_append: "l \<le> length st \<Longrightarrow> pg_at pg (st @ st') l = pg_at pg st l"
proof (induction l arbitrary: pg st)
  case (Suc l)
  then obtain p i st1 where "st = (p, i) # st1" by (cases st) auto
  then show ?case using Suc by simp
qed simp

lemma on_wstack_push:
  assumes s: "on_wstack s PG st" "length st < 32" "clean_above s (length st)" and q: "q = pg_at PG st (length st)"
  shows "on_wstack (pushed s (length st) (level_ref s q p) i) PG (st @ [(p, i)])"
    "clean_above (pushed s (length st) (level_ref s q p) i) (Suc (length st))"
proof -
  let ?s = "pushed s (length st) (level_ref s q p) i"
  have e: "ct ?s = ct s" by (simp add: pushed_def)
  have m: "dirtyMask (cc ?s) AND level_bit (int l) = (if l = length st then (if trk s q = None then 0 else dirtyMask (cc ?s) AND level_bit (int l))
      else dirtyMask (cc s) AND level_bit (int l))" if "l < 32" for l
  proof (cases "trk s q")
    case None
    have "dirtyMask (cc ?s) = dirtyMask (cc s)" using None by (simp add: pushed_def level_ref_def)
    moreover have "dirtyMask (cc s) AND level_bit (int (length st)) = 0" using s(2,3) by (auto simp: clean_above_def)
    ultimately show ?thesis using None by auto
  next
    case (Some a)
    then show ?thesis using level_bits [of "length st" l] s(2) that by (auto simp: pushed_def level_ref_def word_ao_dist)
  qed
  have "dirtyMask (cc ?s) AND level_bit (int l) = 0" if "l < 32" "Suc (length st) \<le> l" for l
    using s(3) m [OF that(1)] that by (auto simp: clean_above_def)
  then show "clean_above ?s (Suc (length st))" unfolding clean_above_def by blast
  have "indices (cc ?s) ! l = of_nat (snd ((st @ [(p, i)]) ! l)) \<and>
      cpages (cc ?s) ! l = level_ref ?s (pg_at PG (st @ [(p, i)]) l) (fst ((st @ [(p, i)]) ! l)) \<and>
      (dirtyMask (cc ?s) AND level_bit (int l) \<noteq> 0 \<longrightarrow> trk ?s (pg_at PG (st @ [(p, i)]) l) \<noteq> None)" if l: "l < Suc (length st)" for l
  proof (cases "l = length st")
    case True
    then show ?thesis using s(1,2) q m [of l] pg_at_append [of l st PG "[(p, i)]"]
      by (auto simp: on_wstack_def pushed_def level_ref_def split: if_splits)
  next
    case False
    then have "l < length st" using l by simp
    then show ?thesis using s(1,2) m [of l] pg_at_append [of l st PG "[(p, i)]"]
      by (auto simp: on_wstack_def pushed_def level_ref_def nth_append)
  qed
  then show "on_wstack ?s PG (st @ [(p, i)])" using s(1,2) by (simp add: on_wstack_def pushed_def)
qed

text \<open>One level of the search.\<close>

lemma leaf_key_cmp:
  assumes c: "key_order cmp" and ok: "page_ok p" "keys_sorted cmp p" "\<not> brp p" and lt: "leaf_pos cmp (keys_of p) k < nents p"
  shows "cmp k (nd_key (node_at p (leaf_pos cmp (keys_of p) k))) = 0 \<longleftrightarrow> has_key cmp (keys_of p) k"
proof
  have st: "sorted_from cmp 0 (keys_of p)" using ok by (simp add: keys_sorted_def)
  show "has_key cmp (keys_of p) k" if "cmp k (nd_key (node_at p (leaf_pos cmp (keys_of p) k))) = 0"
    using that lt nth_mem [of "leaf_pos cmp (keys_of p) k" "keys_of p"] by (auto simp: has_key_def intro!: bexI)
  show "cmp k (nd_key (node_at p (leaf_pos cmp (keys_of p) k))) = 0" if "has_key cmp (keys_of p) k"
    using key_order.leaf_pos_hit(2) [OF c st that] lt by simp
qed

lemma no_key_at_end:
  assumes c: "key_order cmp" and st: "sorted_from cmp 0 ks" and "leaf_pos cmp ks k = length ks"
  shows "\<not> has_key cmp ks k"
  using key_order.leaf_pos_hit(1) [OF c st] assms(3) by fastforce

lemma search_insert_step:
  fixes k :: bytes
  assumes ok: "wtxn_ok n (ce s) (ct s)" "map_ready s" "cmp_ready s cmp" and v: "vw s q = Some p"
    and p: "page_ok p" "keys_sorted cmp p" "brp p \<longleftrightarrow> \<not> lfp p" "brp p \<longrightarrow> 0 < nents p"
    and l: "top_ix (cc s) = int l - 1" "l < 32" "length (cpages (cc s)) = 32" "length (indices (cc s)) = 32"
  defines "i \<equiv> fst (search_result cmp p k)"
  shows "search_insert_loop s k q = (if lfp p then Some (set_state cursorPointing (pushed s l (level_ref s q p) i), Inr (has_key cmp (keys_of p) k))
      else search_insert_loop (pushed s l (level_ref s q p) i) k (kids p ! i))"
proof -
  note o = page_okD(1) [OF p(1)]
  define r where "r = level_ref s q p"
  let ?s0 = "set_top (int l) s"
  have e0: "ce ?s0 = ce s" "ct ?s0 = ct s" by (simp_all add: set_top_def)
  have "level_ref ?s0 q p = r" by (simp add: r_def level_ref_def e0)
  then have f: "fill ?s0 q = Some (?s0, r)" "page_of s r = Some p"
    using fill_seen [of n ?s0 q p] fill_seen(2) [OF ok(1,2) v] ok(1,2) v by (simp_all add: e0 map_ready_def r_def)
  have pg: "page_of s' r = Some p" if "ce s' = ce s" "ct s' = ct s" for s' using f(2) that by (simp add: page_of_def)
  have cs: "cursor_searchPage s' p k = Some (int i)" if "ct s' = ct s" "cdbi (cc s') = cdbi (cc s)" for s'
    using cursor_searchPage_ok [of s' cmp p k] ok(3) p(1,2) that by (simp add: cmp_ready_def i_def)
  define m where "m = (case r of Ref _ \<Rightarrow> mark_level (int l) | Buf _ \<Rightarrow> id)"
  define s1 where "s1 = m (?s0\<lparr>cc := (cc ?s0)\<lparr>cpages := (cpages (cc s))[l := r]\<rparr>\<rparr>)"
  have m: "(case r of Ref _ \<Rightarrow> mark_level (int l) x | Buf _ \<Rightarrow> x) = m x" for x by (simp add: m_def split: pref.splits)
  have e1: "ce s1 = ce s" "ct s1 = ct s" "cdbi (cc s1) = cdbi (cc s)" "indices (cc s1) = indices (cc s)"
    by (simp_all add: s1_def m_def mark_level_def e0 set_top_def split: pref.splits)
  have set: "set_cpage (int l) r ?s0 = Some (?s0\<lparr>cc := (cc ?s0)\<lparr>cpages := (cpages (cc s))[l := r]\<rparr>\<rparr>)"
    using l by (simp add: set_cpage_def upd_ix_def set_top_def)
  have ind: "set_index (int l) (of_nat i) s1 = Some (pushed s l r i)"
    using l by (simp add: set_index_def upd_ix_def e1 s1_def m_def pushed_def mark_level_def set_top_def split: pref.splits)
  have top: "\<not> top_ix (cc s) \<ge> int CursorStackSize - 1" "top_ix (cc s) + 1 = int l" using l by (simp_all add: CursorStackSize_def)
  have lf: "isLeaf p = Some (lfp p)" using page_header(3) [of p] o by simp
  have n: "numEntries p = int (nents p)" using numEntries_eq o by simp
  have st: "sorted_from cmp 0 (keys_of p)" "i = leaf_pos cmp (keys_of p) k" if "lfp p"
    using p that by (simp_all add: keys_sorted_def i_def search_result_def)
  have c: "key_order cmp" "key_cmp s' k x = Some (cmp k x)" if "ct s' = ct s" "cdbi (cc s') = cdbi (cc s)" for s' x
    using ok(3) that by (simp_all add: cmp_ready_def key_cmp_def compareKeys_def)
  note eq = search_insert_loop.simps [of s k q, unfolded if_not_P [OF top(1)] top(2) Let_def f(1) bind.bind_lunit prod.case set m]
  have "search_insert_loop s k q = (let s = pushed s l r i in if lfp p then
          (if nents p \<le> i then Some (set_state cursorPointing s, Inr False)
           else do {
             x \<leftarrow> nodeGetKeyDirect p (int i);
             case x of
               None \<Rightarrow> Some (s, Inl ErrCorruptedError)
             | Some x \<Rightarrow> do { c \<leftarrow> key_cmp s k x; Some (set_state cursorPointing s, Inr (c = 0)) } })
        else do { child \<leftarrow> getChildPgno p (int i); search_insert_loop s k child })"
    unfolding eq s1_def [symmetric] pg [OF e1(1,2)] bind.bind_lunit cs [OF e1(2,3)] of_int_of_nat_eq ind lf n Let_def of_nat_le_iff ..
  moreover have "ct (pushed s l r i) = ct s" "cdbi (cc (pushed s l r i)) = cdbi (cc s)" by (simp_all add: pushed_def)
  ultimately have eq: "search_insert_loop s k q = (if lfp p then
          (if nents p \<le> i then Some (set_state cursorPointing (pushed s l r i), Inr False)
           else do {
             x \<leftarrow> nodeGetKeyDirect p (int i);
             case x of
               None \<Rightarrow> Some (pushed s l r i, Inl ErrCorruptedError)
             | Some x \<Rightarrow> Some (set_state cursorPointing (pushed s l r i), Inr (cmp k x = 0)) })
        else do { child \<leftarrow> getChildPgno p (int i); search_insert_loop (pushed s l r i) k child })"
    using c by (simp add: Let_def cong: option.case_cong)
  show ?thesis
  proof (cases "lfp p")
    case True
    note st = st [OF True]
    have c: "key_order cmp" using ok(3) by (simp add: cmp_ready_def)
    show ?thesis
    proof (cases "nents p \<le> i")
      case le: True
      then have "i = length (keys_of p)" using st(2) key_order.leaf_pos_le [OF c, of "keys_of p" k] by simp
      then have "\<not> has_key cmp (keys_of p) k" using no_key_at_end [OF c st(1)] st(2) by simp
      then show ?thesis using eq True le by (simp add: r_def)
    next
      case lt: False
      have "cmp k (nd_key (node_at p i)) = 0 \<longleftrightarrow> has_key cmp (keys_of p) k"
        using leaf_key_cmp [OF c p(1,2), of k] p(3) True lt st(2) by simp
      then show ?thesis using eq True lt key_accessors(1) [OF p(1), of i] by (simp add: r_def)
    qed
  next
    case False
    have ne: "keys_of p \<noteq> []" using p(3,4) False by (simp flip: length_0_conv)
    have "i < nents p" using key_order.branch_pos_less [OF c(1) [OF refl refl] ne, of k] p(3) False by (simp add: i_def search_result_def)
    then show ?thesis using eq False child_accessors(4) [OF p(1), of i] by (simp add: getChildPgno_def nth_kids r_def)
  qed
qed

lemma search_insert_ok:
  assumes "wtxn_ok n (ce s) (ct s)" "map_ready s" "cmp_ready s cmp" "tree_ok cmp (vw s) h q lo hi"
    and "on_wstack s PG st" "clean_above s (length st)" "q = pg_at PG st (length st)" "length st + h < 32"
  shows "\<exists>s' ix. search_insert_loop s k q = Some (set_state cursorPointing s', Inr (has_key cmp (keys_of (fst (last (spath cmp k (vw s) h q)))) k)) \<and>
    ce s' = ce s \<and> ct s' = ct s \<and> on_wstack s' PG (st @ spath cmp k (vw s) h q) \<and>
    cc s' = (cc s)\<lparr>top_ix := top_ix (cc s'), cpages := cpages (cc s'), indices := indices (cc s'), dirtyMask := dirtyMask (cc s')\<rparr>"
  using assms
proof (induction h arbitrary: s q st lo hi)
  case 0
  have "key_order cmp" using 0(3) by (simp add: cmp_ready_def)
  from key_order.tree_ok_page [OF this 0(4)] obtain p where p: "vw s q = Some p" "page_ok p" "keys_sorted cmp p" "\<not> brp p" "lfp p" by auto
  define i where "i = leaf_pos cmp (keys_of p) k"
  have w: "top_ix (cc s) = int (length st) - 1" "length st < 32" "length (cpages (cc s)) = 32" "length (indices (cc s)) = 32"
    using 0(5,8) by (simp_all add: on_wstack_def)
  have sr: "fst (search_result cmp p k) = i" using p by (simp add: search_result_def i_def)
  show ?case
    using search_insert_step [OF 0(1-3) p(1-3) _ _ w, of k] on_wstack_push [OF 0(5) w(2) 0(6,7), of p i] p sr
    by (intro exI [of _ "pushed s (length st) (level_ref s q p) i"]) (simp add: i_def pushed_def)
next
  case (Suc h)
  have c: "key_order cmp" using Suc.prems(3) by (simp add: cmp_ready_def)
  from Suc.prems(4) obtain p where p: "vw s q = Some p" "page_ok p" "keys_sorted cmp p" "brp p" "\<not> lfp p" "0 < nents p"
    and kid: "\<forall>i < nents p. tree_ok cmp (vw s) h (nd_dsize (entries p ! i)) (child_lo p lo i) (child_hi p hi i)"
    by (auto split: option.splits)
  define i where "i = branch_pos cmp (keys_of p) k"
  have w: "top_ix (cc s) = int (length st) - 1" "length st < 32" "length (cpages (cc s)) = 32" "length (indices (cc s)) = 32"
    using Suc.prems(5,8) by (simp_all add: on_wstack_def)
  have sr: "fst (search_result cmp p k) = i" using p by (simp add: search_result_def i_def)
  have "keys_of p \<noteq> []" using p(6) by (simp flip: length_0_conv)
  then have i: "i < nents p" using key_order.branch_pos_less [OF c, of "keys_of p" k] by (simp add: i_def)
  let ?s = "pushed s (length st) (level_ref s q p) i" and ?st = "st @ [(p, i)]"
  have e: "ce ?s = ce s" "ct ?s = ct s" "cdbi (cc ?s) = cdbi (cc s)" by (simp_all add: pushed_def)
  have "tree_ok cmp (vw ?s) h (kids p ! i) (child_lo p lo i) (child_hi p hi i)" using kid i by (simp add: e nth_kids)
  moreover have "kids p ! i = pg_at PG ?st (length ?st)"
    using pg_at_Suc [of "length st" ?st PG] by simp
  moreover note on_wstack_push [OF Suc.prems(5) w(2) Suc.prems(6,7), of p i]
  moreover have "cmp_ready ?s cmp" "map_ready ?s" using Suc.prems(2,3) by (simp_all add: cmp_ready_def map_ready_def e)
  ultimately obtain s' where s': "search_insert_loop ?s k (kids p ! i) =
      Some (set_state cursorPointing s', Inr (has_key cmp (keys_of (fst (last (spath cmp k (vw s) h (kids p ! i))))) k))"
    "ce s' = ce s" "ct s' = ct s" "on_wstack s' PG (?st @ spath cmp k (vw s) h (kids p ! i))"
    "cc s' = (cc ?s)\<lparr>top_ix := top_ix (cc s'), cpages := cpages (cc s'), indices := indices (cc s'), dirtyMask := dirtyMask (cc s')\<rparr>"
    using Suc.IH [of ?s "kids p ! i" "child_lo p lo i" "child_hi p hi i" ?st] Suc.prems(1,8) by (auto simp: e)
  have sp: "spath cmp k (vw s) (Suc h) q = (p, i) # spath cmp k (vw s) h (kids p ! i)" using p(1) by (simp add: i_def Let_def)
  have "search_insert_loop s k q = search_insert_loop ?s k (kids p ! i)"
    using search_insert_step [OF Suc.prems(1-3) p(1-3) _ _ w, of k] p sr by simp
  with s' show ?case unfolding sp
    by (intro exI [of _ s']) (simp add: pushed_def)
qed

end
