(* ===== verification/PutSpec.thy ===== *)
theory PutSpec
  imports PutPath CursorDup
begin

text \<open>
  Putting a pair through a cursor (Cursor.Put) when the leaf has room: the pages of the path become
  dirty and the leaf gets the node in the place of the key.  The table is then the old one with this
  node, and no page of the committed snapshot has changed.
\<close>

section \<open>A node in the place of its key\<close>

definition put_node :: "cmp_fn \<Rightarrow> bytes list \<Rightarrow> bytes \<Rightarrow> bytes \<Rightarrow> bytes list" where
  "put_node cmp ns k nd =
     (let ks = map nd_key ns; i = leaf_pos cmp ks k in take i ns @ nd # drop (if has_key cmp ks k then Suc i else i) ns)"

context key_order
begin

lemma cmp_eq_trans: "cmp a b = 0 \<Longrightarrow> cmp b c = 0 \<Longrightarrow> cmp a c = 0"
  using cmp_trans [of a b c] cmp_trans [of c b a] cmp_eq_flip [of a b] cmp_eq_flip [of b c] cmp_le_flip [of c a] by auto

lemma leaf_cut:
  fixes k :: bytes
  assumes "sorted_from cmp 0 (map nd_key ns)"
  defines "i \<equiv> leaf_pos cmp (map nd_key ns) k"
  shows "(\<forall>n \<in> set (take i ns). 0 < cmp k (nd_key n)) \<and> (\<forall>n \<in> set (drop i ns). cmp k (nd_key n) \<le> 0)"
  using assms(1) unfolding i_def
proof (induction ns)
  case (Cons x ns)
  have s: "sorted_from cmp 0 (map nd_key ns)" "\<forall>y \<in> set ns. cmp (nd_key x) (nd_key y) < 0"
    using Cons.prems by (simp_all add: sorted_from_def)
  show ?case
  proof (cases "0 < cmp k (nd_key x)")
    case True
    then have "leaf_pos cmp (map nd_key (x # ns)) k = Suc (leaf_pos cmp (map nd_key ns) k)" by (simp add: leaf_pos_def)
    then show ?thesis using Cons.IH [OF s(1)] True by (metis drop_Suc_Cons set_ConsD take_Suc_Cons)
  next
    case False
    have "cmp k (nd_key y) < 0" if "y \<in> set ns" for y
      using less_trans' [of k "nd_key x" "nd_key y"] s(2) False that by simp
    then have "\<forall>y \<in> set ns. cmp k (nd_key y) \<le> 0" "filter (\<lambda>x. 0 < cmp k x) (map nd_key ns) = []"
      by (fastforce simp: filter_empty_conv)+
    then show ?thesis using False by (simp add: leaf_pos_def)
  qed
qed simp

lemma leaf_split:
  fixes k :: bytes
  assumes st: "sorted_from cmp 0 (map nd_key ns)"
  defines "i \<equiv> leaf_pos cmp (map nd_key ns) k" and "b \<equiv> has_key cmp (map nd_key ns) k"
  shows "\<forall>n \<in> set (take i ns). cmp (nd_key n) k < 0" "\<forall>n \<in> set (drop (if b then Suc i else i) ns). cmp k (nd_key n) < 0"
    "b \<Longrightarrow> i < length ns \<and> cmp k (nd_key (ns ! i)) = 0"
proof -
  note c = leaf_cut [OF st, of k, folded i_def]
  show hit: "b \<Longrightarrow> i < length ns \<and> cmp k (nd_key (ns ! i)) = 0"
    using leaf_pos_hit [OF st] unfolding b_def i_def by fastforce
  show "\<forall>n \<in> set (take i ns). cmp (nd_key n) k < 0" using c cmp_flip by blast
  show "\<forall>n \<in> set (drop (if b then Suc i else i) ns). cmp k (nd_key n) < 0"
  proof
    fix n assume n: "n \<in> set (drop (if b then Suc i else i) ns)"
    show "cmp k (nd_key n) < 0"
    proof (cases b)
      case True
      then obtain j where "n = ns ! j" "Suc i \<le> j" "j < length ns" using n by (auto simp: in_set_conv_nth)
      then show ?thesis using key_after [OF st, of i j k] hit [OF True] by simp
    next
      case False
      then have "cmp k (nd_key n) \<le> 0" "n \<in> set ns" using c n by (auto dest: in_set_dropD)
      then show ?thesis using False by (auto simp: b_def has_key_def order.order_iff_strict)
    qed
  qed
qed

lemma put_node_sorted:
  assumes st: "sorted_from cmp 0 (map nd_key ns)" and k: "nd_key nd = k"
  shows "sorted_from cmp 0 (map nd_key (put_node cmp ns k nd))"
proof -
  define i b where "i = leaf_pos cmp (map nd_key ns) k" and "b = has_key cmp (map nd_key ns) k"
  note s = leaf_split [OF st, of k, folded i_def b_def]
  have d: "put_node cmp ns k nd = take i ns @ nd # drop (if b then Suc i else i) ns" by (simp add: put_node_def i_def b_def Let_def)
  have w: "sorted_wrt (\<lambda>x y. cmp (nd_key x) (nd_key y) < 0) ns" using st by (simp add: sorted_from_def sorted_wrt_map)
  have "cmp (nd_key x) (nd_key y) < 0" if "x \<in> set (take i ns)" "y \<in> set (drop (if b then Suc i else i) ns)" for x y
    using less_trans [of "nd_key x" k "nd_key y"] s(1,2) that by (meson less_imp_le)
  then have "sorted_wrt (\<lambda>x y. cmp (nd_key x) (nd_key y) < 0) (put_node cmp ns k nd)"
    unfolding d sorted_wrt_append using s(1,2) k w by (auto intro: sorted_wrt_take sorted_wrt_drop)
  then show ?thesis by (simp add: sorted_from_def sorted_wrt_map)
qed

text \<open>The nodes as a map from keys: only the key \<open>k\<close> has another node.\<close>

lemma find_eq_key: "cmp x k = 0 \<Longrightarrow> find_node cmp ns x = find_node cmp ns k"
proof -
  assume x: "cmp x k = 0"
  have "cmp x (nd_key n) = 0 \<longleftrightarrow> cmp k (nd_key n) = 0" for n
    using x cmp_eq_trans [of x k "nd_key n"] cmp_eq_trans [of k x "nd_key n"] cmp_eq_flip [of x k] by auto
  then show ?thesis by (simp add: find_node_def)
qed

lemma find_append [simp]:
  "find_node cmp (xs @ ys) k = (case find_node cmp xs k of None \<Rightarrow> find_node cmp ys k | Some n \<Rightarrow> Some n)"
  by (induction xs) (simp_all add: find_node_def)

lemma find_put_node:
  assumes st: "sorted_from cmp 0 (map nd_key ns)" and k: "nd_key nd = k"
  shows "find_node cmp (put_node cmp ns k nd) k = Some nd"
    "cmp x k \<noteq> 0 \<Longrightarrow> find_node cmp (A @ put_node cmp ns k nd @ B) x = find_node cmp (A @ ns @ B) x"
proof -
  define i b where "i = leaf_pos cmp (map nd_key ns) k" and "b = has_key cmp (map nd_key ns) k"
  note s = leaf_split [OF st, of k, folded i_def b_def]
  have d: "put_node cmp ns k nd = take i ns @ nd # drop (if b then Suc i else i) ns" by (simp add: put_node_def i_def b_def Let_def)
  have c: "find_node cmp (n # ms) x = (if cmp x (nd_key n) = 0 then Some n else find_node cmp ms x)" for n ms x
    by (simp add: find_node_def)
  have "find_node cmp (take i ns) k = None" using s(1) cmp_flip by (fastforce simp: find_node_def find_None_iff)
  then show "find_node cmp (put_node cmp ns k nd) k = Some nd" by (simp add: d c k cmp_refl)
  show "find_node cmp (A @ put_node cmp ns k nd @ B) x = find_node cmp (A @ ns @ B) x" if x: "cmp x k \<noteq> 0"
  proof -
    have ns: "ns = take i ns @ (if b then [ns ! i] else []) @ drop (if b then Suc i else i) ns"
      using s(3) by (auto simp: Cons_nth_drop_Suc)
    have "cmp x (nd_key (ns ! i)) \<noteq> 0" if b
      using s(3) [OF that] x cmp_eq_trans [of x "nd_key (ns ! i)" k] cmp_eq_flip [of k "nd_key (ns ! i)"] by auto
    then have "find_node cmp (put_node cmp ns k nd) x = find_node cmp ns x"
      unfolding d by (subst (3) ns) (auto simp: c k x simp del: append_take_drop_id split: option.split)
    then show ?thesis by (auto split: option.split)
  qed
qed

end

section \<open>The leaf of a key\<close>

definition leaf_of :: "cmp_fn \<Rightarrow> bytes \<Rightarrow> (pgno \<Rightarrow> page option) \<Rightarrow> nat \<Rightarrow> pgno \<Rightarrow> page" where
  "leaf_of cmp k rd h pg = fst (last (spath cmp k rd h pg))"

context key_order
begin

lemma leaf_of_0: "rd pg = Some p \<Longrightarrow> leaf_of cmp k rd 0 pg = p"
  by (simp add: leaf_of_def Let_def)

lemma leaf_of_Suc: "rd pg = Some p \<Longrightarrow> leaf_of cmp k rd (Suc h) pg = leaf_of cmp k rd h (kids p ! branch_pos cmp (keys_of p) k)"
  by (simp add: leaf_of_def Let_def)

lemma spath_leaf:
  "tree_ok cmp rd h pg lo hi \<Longrightarrow> spath cmp k rd h pg ! h = (leaf_of cmp k rd h pg, leaf_pos cmp (keys_of (leaf_of cmp k rd h pg)) k) \<and>
     bt_get (abst rd h pg) (bt_path cmp k h (abst rd h pg)) = BLeaf (entries (leaf_of cmp k rd h pg))"
proof (induction h arbitrary: pg lo hi)
  case 0
  then show ?case by (auto simp: leaf_of_def Let_def split: option.splits)
next
  case (Suc h)
  from Suc.prems obtain p where p: "rd pg = Some p" "0 < nents p"
    and kid: "\<And>i. i < nents p \<Longrightarrow> tree_ok cmp rd h (nd_dsize (entries p ! i)) (child_lo p lo i) (child_hi p hi i)"
    by (auto split: option.splits)
  define i where "i = branch_pos cmp (keys_of p) k"
  have "keys_of p \<noteq> []" using p(2) by (simp flip: length_0_conv)
  then have i: "i < nents p" using branch_pos_less [of "keys_of p" k] by (simp add: i_def)
  have "tree_ok cmp rd h (kids p ! i) (child_lo p lo i) (child_hi p hi i)" using kid [OF i] i by (simp add: nth_kids)
  from Suc.IH [OF this] show ?case using p(1) i by (simp add: leaf_of_Suc Let_def flip: i_def)
qed

lemma find_leaf_of:
  "tree_ok cmp rd h pg lo hi \<Longrightarrow> in_range cmp lo hi k \<Longrightarrow>
     find_node cmp (leaf_nodes rd h pg) k = find_node cmp (entries (leaf_of cmp k rd h pg)) k \<and>
     sorted_from cmp 0 (map nd_key (entries (leaf_of cmp k rd h pg)))"
proof (induction h arbitrary: pg lo hi)
  case 0
  then show ?case by (auto simp: leaf_of_0 keys_sorted_def keys_of_def split: option.splits)
next
  case (Suc h)
  from Suc.prems(1) obtain p where p: "rd pg = Some p" by (auto split: option.splits)
  note f = find_descend [OF Suc.prems(1) p Suc.prems(2)]
  show ?case using Suc.IH [OF f(3,2)] f(1,4) p by (simp add: leaf_of_Suc nth_kids del: leaf_nodes.simps)
qed

lemma bt_put_path:
  "bt_get t (bt_path cmp k h t) = BLeaf ns \<Longrightarrow> bt_ok cmp h t lo hi \<Longrightarrow>
     bt_path cmp k h (bt_put t (bt_path cmp k h t) (BLeaf x)) = bt_path cmp k h t \<and>
     bt_get (bt_put t (bt_path cmp k h t) (BLeaf x)) (bt_path cmp k h t) = BLeaf x"
proof (induction h arbitrary: t lo hi)
  case (Suc h)
  then obtain ks ts where t: "t = BNode ks ts" by (cases t) auto
  define i where "i = branch_pos cmp ks k"
  have i: "i < length ts" using Suc.prems(2) branch_pos_less [of ks k] by (auto simp: t i_def)
  have "bt_ok cmp h (ts ! i) (sep_lo ks lo i) (sep_hi ks hi i)" using Suc.prems(2) i by (simp add: t)
  then show ?case using Suc.IH [of "ts ! i"] Suc.prems(1) i by (simp add: t flip: i_def)
qed simp

text \<open>
  The effect of a put on the tree: whatever way the pages have changed, if the abstract tree is the
  old one with the node in its leaf, then it is in order again and its nodes are the old map with the
  key \<open>k\<close> at \<open>nd\<close>.
\<close>

lemma tree_put:
  assumes ok: "tree_ok cmp rd h pg None None" and k: "nd_key nd = k" and kind: "tall kind_ok rd' h pg'"
    and eq: "abst rd' h pg' = bt_put (abst rd h pg) (bt_path cmp k h (abst rd h pg)) (BLeaf (put_node cmp (entries (leaf_of cmp k rd h pg)) k nd))"
  shows "tree_ok cmp rd' h pg' None None"
    "find_node cmp (leaf_nodes rd' h pg') x = (if cmp x k = 0 then Some nd else find_node cmp (leaf_nodes rd h pg) x)"
proof -
  have r: "in_range cmp None None y" for y by (simp add: in_range_def)
  let ?t = "abst rd h pg" and ?ns = "entries (leaf_of cmp k rd h pg)"
  have t: "bt_ok cmp h ?t None None" using ok by (simp add: tree_ok_bt)
  have g: "bt_get ?t (bt_path cmp k h ?t) = BLeaf ?ns" using spath_leaf [OF ok] by blast
  have st: "sorted_from cmp 0 (map nd_key ?ns)" using find_leaf_of [OF ok r] by blast
  note st' = put_node_sorted [OF st k]
  have "n \<in> set ?ns \<or> cmp k (nd_key n) = 0" if "n \<in> set (put_node cmp ?ns k nd)" for n
    using that k cmp_refl by (auto simp: put_node_def Let_def dest: in_set_takeD in_set_dropD split: if_splits)
  then have "bt_ok cmp h (abst rd' h pg') None None" unfolding eq by (intro bt_put_ok [OF t r g st']) blast
  then show ok': "tree_ok cmp rd' h pg' None None" using kind by (simp add: tree_ok_bt)
  show "find_node cmp (leaf_nodes rd' h pg') x = (if cmp x k = 0 then Some nd else find_node cmp (leaf_nodes rd h pg) x)"
  proof (cases "cmp x k = 0")
    case True
    note b = bt_put_path [OF g t, of "put_node cmp ?ns k nd", folded eq]
    have "BLeaf (entries (leaf_of cmp k rd' h pg')) = BLeaf (put_node cmp ?ns k nd)"
      using spath_leaf [OF ok', of k] b by metis
    then have "find_node cmp (leaf_nodes rd' h pg') k = Some nd" using find_leaf_of [OF ok' r, of k] find_put_node(1) [OF st k] by simp
    then show ?thesis using True find_eq_key [OF True] by simp
  next
    case False
    from bleaves_put [OF t, of k] obtain A B where AB: "\<forall>x. bleaves (bt_put ?t (bt_path cmp k h ?t) (BLeaf x)) = A @ x @ B" by blast
    have "leaf_nodes rd h pg = A @ ?ns @ B" using AB [rule_format, of ?ns] bt_put_get [of ?t "bt_path cmp k h ?t"] g
      by (simp add: leaf_nodes_abst)
    moreover have "leaf_nodes rd' h pg' = A @ put_node cmp ?ns k nd @ B" using AB by (simp add: leaf_nodes_abst eq)
    ultimately show ?thesis using find_put_node(2) [OF st k False] False by simp
  qed
qed

end

section \<open>Another page in the place of the leaf\<close>

lemma pg_at_update: "l \<le> h \<Longrightarrow> h < length st \<Longrightarrow> pg_at PG (st[h := x]) l = pg_at PG st l"
  using pg_at_append [of l "take h st" PG "x # drop (Suc h) st"] pg_at_append [of l "take h st" PG "drop h st"]
  by (simp add: upd_conv_take_nth_drop)

lemma leaf_store:
  assumes t: "wtree n s h PG st" and len: "length st = Suc h" and a: "trk s (pg_at PG st h) = Some a"
    and p: "page_ok p'" "\<not> brp p'" "lfp p'" "length (Data p') = psize s" "pno p' = pg_at PG st h" "snd (st ! h) \<le> nents p'"
  obtains s' where "store s (Ref a) p' = Some s'" "wtree n s' h PG (st[h := (p', snd (st ! h))])"
    "abst (vw s') h PG = bt_put (abst (vw s) h PG) (steps st h) (BLeaf (entries p'))"
    "cow_frame s s'" "cc s' = cc s" "trees (ct s') = trees (ct s)" "trk s' = trk s"
proof -
  note d = wtreeD [OF t]
  define q where "q = pg_at PG st h"
  have h: "h < length st" using len by simp
  from store_ok [OF d(1) a p(4), folded q_def] obtain s' where
    s': "store s (Ref a) p' = Some s'" "wtxn_ok n (ce s') (ct s')" "vw s' = (vw s)(q \<mapsto> p')" "trk s' = trk s"
    "cow_frame s s'" "cc s' = cc s" "trees (ct s') = trees (ct s)" "allocatedPg (ct s') = allocatedPg (ct s)" by blast
  from subtree_replace [OF d(3) h d(4), folded q_def] obtain A B where
    AB: "tpages (vw s) h PG = A @ [q] @ B"
    and chg: "\<forall>rd'. (\<forall>x \<in> set A \<union> set B. rd' x = vw s x) \<longrightarrow>
      tpages rd' h PG = A @ tpages rd' 0 q @ B \<and> abst rd' h PG = bt_put (abst (vw s) h PG) (steps st h) (abst rd' 0 q) \<and>
      (\<forall>Q. tall Q (vw s) h PG \<longrightarrow> tall Q rd' 0 q \<longrightarrow> tall Q rd' h PG) \<and>
      (\<forall>st'. path rd' 0 q st' \<longrightarrow> path rd' h PG (take h st @ st'))" by auto
  have "q \<notin> set A \<union> set B" using d(4) unfolding AB by auto
  then have "\<forall>x \<in> set A \<union> set B. vw s' x = vw s x" by (auto simp: s'(3))
  note C = chg [THEN spec, THEN mp, OF this]
  have vq: "vw s' q = Some p'" by (simp add: s'(3))
  have nf: "\<not> fresh s q" using wtree_fresh [OF t, of q] AB by simp
  have wp: "wpage s' 0 q p'"
    using p nf a wframe_fields(1) [OF cow_wframe [OF s'(5)]] by (simp add: wpage_def kind_ok_def fresh_def s'(4,8) q_def)
  have tl: "tall (wpage s') (vw s') h PG" using C tall_mono [OF d(5)] wpage_mono [OF s'(5)] wp vq by auto
  let ?i = "snd (st ! h)" and ?st = "st[h := (p', snd (st ! h))]"
  have st': "?st = take h st @ [(p', ?i)]" using len by (simp add: upd_conv_take_nth_drop)
  have "path (vw s') 0 q [(p', ?i)]" using vq p(6) by simp
  then have pth: "path (vw s') h PG ?st" unfolding st' using C by blast
  have ws: "on_wstack s' PG ?st"
    unfolding on_wstack_def
  proof (intro conjI allI impI)
    fix l assume l: "l < length ?st"
    then have lh: "l \<le> h" by (simp add: len)
    note pa = pg_at_update [OF lh h, of PG]
    show "indices (cc s') ! l = of_nat (snd (?st ! l))" using d(6) l h by (cases "l = h") (simp_all add: on_wstack_def s'(6))
    show "dirtyMask (cc s') AND level_bit (int l) \<noteq> 0 \<Longrightarrow> trk s' (pg_at PG ?st l) \<noteq> None"
      using d(6) l by (auto simp: on_wstack_def s'(4,6) pa)
    show "cpages (cc s') ! l = level_ref s' (pg_at PG ?st l) (fst (?st ! l))"
      using d(6) l h a unfolding pa by (cases "l = h") (simp_all add: on_wstack_def s'(4,6) level_ref_def)
  qed (use d(6) in \<open>simp_all add: on_wstack_def s'(6)\<close>)
  have "wtree n s' h PG ?st" using s'(2) d(2,4,7,8) pth tl ws C AB by (simp add: wtree_def s'(6-8))
  moreover have "abst (vw s') h PG = bt_put (abst (vw s) h PG) (steps st h) (BLeaf (entries p'))" using C vq by simp
  ultimately show thesis using that s' by blast
qed

section \<open>The node that goes in\<close>

lemma node_bytes_ok:
  assumes "length k < 65536" "fl AND nodeBig = 0" "length v < 4294967296"
  defines "nd \<equiv> node_bytes (of_nat (length v)) fl k v"
  shows "length nd = 8 + length k + length v" "nd_key nd = k" "nd_data nd = v" "nd_flags nd = fl" "\<not> nd_big nd" "node_wf False nd"
proof -
  show l: "length nd = 8 + length k + length v" by (simp add: nd_def node_bytes_def)
  have g: "g16 nd 6 = of_nat (length k)" "g32 nd 0 = of_nat (length v)" "nd ! 4 = fl"
    by (simp_all add: nd_def node_bytes_def g16_def g32_def nth_append enc32_def enc16_def nth_Cons')
  have u: "unat (of_nat (length k) :: u16) = length k" "unat (of_nat (length v) :: u32) = length v"
    using assms(1,3) by (simp_all add: unat_of_nat take_bit_nat_eq_self)
  have kl: "nd_klen nd = length k" by (simp add: nd_klen_def g u)
  have dr: "drop 8 nd = k @ v" by (simp add: nd_def node_bytes_def)
  show "nd_key nd = k" by (simp add: nd_key_def kl dr)
  have "drop (8 + length k) nd = drop (length k) (drop 8 nd)" by (simp add: add.commute)
  then show "nd_data nd = v" by (simp add: nd_data_def kl dr)
  show "nd_flags nd = fl" "\<not> nd_big nd" using g(3) assms(2) by (simp_all add: nd_flags_def nd_big_def)
  show "node_wf False nd" using l g u assms(2) by (simp add: node_wf_def nodesz_def nodeBig_def)
qed

section \<open>Into the leaf\<close>

definition put_trees :: "nat \<Rightarrow> (tree \<Rightarrow> tree) \<Rightarrow> cst \<Rightarrow> cst" where
  "put_trees dbi f s = s\<lparr>ct := (ct s)\<lparr>trees := (trees (ct s))[dbi := f (trees (ct s) ! dbi)]\<rparr>\<rparr>"

lemma put_trees_ok:
  assumes "wtree n s h PG st" "\<And>tr. Root (f tr) = Root tr"
  shows "wtree n (put_trees (cdbi (cc s)) f s) h PG st" "cow_frame s (put_trees (cdbi (cc s)) f s)" "vw (put_trees (cdbi (cc s)) f s) = vw s"
    "upd_ctree f s = Some (put_trees (cdbi (cc s)) f s)"
proof -
  let ?s = "put_trees (cdbi (cc s)) f s"
  note d = wtreeD [OF assms(1)]
  have e: "dirtyTracker (ct ?s) = dirtyTracker (ct s)" "structs (ct ?s) = structs (ct s)" "spillSlots (ct ?s) = spillSlots (ct s)"
    "txnFlags (ct ?s) = txnFlags (ct s)" "allocatedPg (ct ?s) = allocatedPg (ct s)" "mmapData (ct ?s) = mmapData (ct s)"
    "ce ?s = ce s" "cc ?s = cc s" by (simp_all add: put_trees_def)
  show v: "vw ?s = vw s" using seen_cong [OF e(1,2)] by (simp add: e)
  have wf: "wframe s ?s" by (rule wframeI) (simp_all add: put_trees_def)
  show cf: "cow_frame s ?s" by (rule cow_frame_same [OF wf]) (simp_all add: e)
  have "wtxn_ok n (ce ?s) (ct ?s)" using d(1) wtxn_ok_cong [OF e(1-4)] by (simp add: e)
  moreover have "on_wstack ?s PG st" using d(6) by (simp add: on_wstack_def level_ref_def e)
  moreover have "tall (wpage ?s) (vw s) h PG" using tall_mono [OF d(5)] wpage_mono [OF cf] .
  moreover have "cdbi (cc ?s) < length (trees (ct ?s)) \<and> Root (trees (ct ?s) ! cdbi (cc ?s)) = PG"
    using d(7,8) assms(2) by (simp add: put_trees_def)
  ultimately show "wtree n ?s h PG st" using d(2-4) v by (simp add: wtree_def e)
  show "upd_ctree f s = Some ?s" using d(7) by (simp add: upd_ctree_def upd_tree_def put_trees_def)
qed

lemma set_cpage_same: "h < length (cpages (cc s)) \<Longrightarrow> cpages (cc s) ! h = r \<Longrightarrow> set_cpage (int h) r s = Some s"
  by (auto simp: set_cpage_def upd_ix_def)

lemma set_index_same: "h < length (indices (cc s)) \<Longrightarrow> indices (cc s) ! h = i \<Longrightarrow> set_index (int h) i s = Some s"
  by (auto simp: set_index_def upd_ix_def)

text \<open>The dirty leaf at the top of the stack.\<close>

definition at_leaf :: "nat \<Rightarrow> cst \<Rightarrow> nat \<Rightarrow> pgno \<Rightarrow> tpath \<Rightarrow> nat \<Rightarrow> page \<Rightarrow> nat \<Rightarrow> bool" where
  "at_leaf n s h PG st a p i \<longleftrightarrow> wtree n s h PG st \<and> length st = Suc h \<and> trk s (pg_at PG st h) = Some a \<and> st ! h = (p, i)"

lemma at_leafD:
  assumes "at_leaf n s h PG st a p i"
  shows "wtree n s h PG st" "length st = Suc h" "trk s (pg_at PG st h) = Some a" "st ! h = (p, i)"
    "page_of s (Ref a) = Some p" "page_ok p" "\<not> brp p" "lfp p" "length (Data p) = psize s" "pno p = pg_at PG st h" "i \<le> nents p"
    "top_ix (cc s) = int h" "set_cpage (int h) (Ref a) s = Some s" "set_index (int h) (of_nat i) s = Some s" "cur_index s = Some (int i)"
proof -
  show t: "wtree n s h PG st" "length st = Suc h" "trk s (pg_at PG st h) = Some a" "st ! h = (p, i)" using assms by (simp_all add: at_leaf_def)
  have h: "h < length st" using t(2) by simp
  note f = level_facts [OF t(1) h, unfolded t(4) fst_conv snd_conv]
  have r: "level_ref s (pg_at PG st h) p = Ref a" by (simp add: level_ref_def t(3))
  show p: "page_of s (Ref a) = Some p" "page_ok p" "\<not> brp p" "lfp p" "length (Data p) = psize s" "pno p = pg_at PG st h" "i \<le> nents p"
    using f(2,4,7) by (simp_all add: r wpage_def kind_ok_def)
  have w: "top_ix (cc s) = int (length st) - 1" "h < length (cpages (cc s))" "h < length (indices (cc s))"
    "cpages (cc s) ! h = Ref a" "indices (cc s) ! h = of_nat i"
    using wtreeD(6) [OF t(1)] h r t(4) by (simp_all add: on_wstack_def)
  show top: "top_ix (cc s) = int h" using w(1) t(2) by simp
  show "set_cpage (int h) (Ref a) s = Some s" "set_index (int h) (of_nat i) s = Some s"
    using w set_cpage_same set_index_same by blast+
  have "uint (of_nat i :: u16) = int i" using uint_of_nat16 [of i] p(7) page_small [OF p(2)] by simp
  then show "cur_index s = Some (int i)" using w(3,5) top by (simp add: cur_index_def at_ix_def)
qed

lemma at_leaf_store:
  assumes l: "at_leaf n s h PG st a p i"
    and p': "page_ok p'" "brp p' = brp p" "length (Data p') = length (Data p)" "i \<le> nents p'"
      "\<forall>k. k < 12 \<or> 16 \<le> k \<and> k < 20 \<longrightarrow> Data p' ! k = Data p ! k"
  obtains s' where "store s (Ref a) p' = Some s'" "at_leaf n s' h PG (st[h := (p', i)]) a p' i"
    "abst (vw s') h PG = bt_put (abst (vw s) h PG) (steps st h) (BLeaf (entries p'))"
    "cow_frame s s'" "cc s' = cc s" "trees (ct s') = trees (ct s)"
proof -
  note d = at_leafD [OF l]
  note id = page_id [OF p'(3) page_okD(1) [OF d(6)] p'(5)]
  from leaf_store [OF d(1-3) p'(1)] p' id d obtain s' where
    s': "store s (Ref a) p' = Some s'" "wtree n s' h PG (st[h := (p', snd (st ! h))])"
    "abst (vw s') h PG = bt_put (abst (vw s) h PG) (steps st h) (BLeaf (entries p'))"
    "cow_frame s s'" "cc s' = cc s" "trees (ct s') = trees (ct s)" "trk s' = trk s" by auto
  have "at_leaf n s' h PG (st[h := (p', i)]) a p' i"
    using s'(2,7) d(2-4) pg_at_update [of h h st PG "(p', i)"] by (simp add: at_leaf_def)
  then show thesis using that s' by blast
qed

lemma bt_put_put: "bt_put (bt_put t is x) is y = bt_put t is y"
proof (induction t "is" x rule: bt_put.induct)
  case (2 ks ts i "is" x)
  then show ?case by (cases "i < length ts") (simp_all add: list_update_beyond)
qed simp_all

lemma insertNodeAt_fits:
  assumes l: "at_leaf n s h PG st a p i" and nd: "node_wf False nd" "insert_fits p nd"
  shows "\<exists>s' p'. insertNodeAt w s (Ref a) (int i) nd upd = Some (s', None) \<and> at_leaf n s' h PG (st[h := (p', i)]) a p' i \<and>
    abst (vw s') h PG = bt_put (abst (vw s) h PG) (steps st h) (BLeaf (take i (entries p) @ nd # drop i (entries p))) \<and> cow_frame s s' \<and>
    cc s' = cc s \<and> trees (ct s') = (if upd then trees (ct s)
      else (trees (ct s))[cdbi (cc s) := (trees (ct s) ! cdbi (cc s))\<lparr>Items := Items (trees (ct s) ! cdbi (cc s)) + 1\<rparr>])"
proof -
  note d = at_leafD [OF l]
  from insertEntryWithBuf_fits [OF d(6,11) _ nd(2), of scratchBuf "poolPage w"] nd(1) d(7) obtain p' where
    ins: "insertEntryWithBuf p (int i) nd scratchBuf (poolPage w) = Some (p', True)" and
    p': "page_ok p'" "entries p' = take i (entries p) @ nd # drop i (entries p)" "length (Data p') = length (Data p)" "brp p' = brp p"
      "\<forall>k. k < 12 \<or> 16 \<le> k \<and> k < 20 \<longrightarrow> Data p' ! k = Data p ! k" by auto
  have "i \<le> nents p'" using arg_cong [OF p'(2), of length] d(11) by simp
  from at_leaf_store [OF l p'(1,4,3) this p'(5)] obtain s1 where
    s1: "store s (Ref a) p' = Some s1" "at_leaf n s1 h PG (st[h := (p', i)]) a p' i"
    "abst (vw s1) h PG = bt_put (abst (vw s) h PG) (steps st h) (BLeaf (entries p'))"
    "cow_frame s s1" "cc s1 = cc s" "trees (ct s1) = trees (ct s)" by blast
  note d1 = at_leafD [OF s1(2)]
  let ?f = "\<lambda>tr. tr\<lparr>Items := Items tr + 1\<rparr>"
  note u = put_trees_ok [OF d1(1), of ?f, simplified]
  define s2 where "s2 = (if upd then s1 else put_trees (cdbi (cc s1)) ?f s1)"
  have call: "insertNodeAt w s (Ref a) (int i) nd upd = Some (s2, None)"
    using d(5) ins s1(1) d1(12-14) u(4) by (simp add: insertNodeAt_def s2_def)
  have t2: "trk s2 = trk s1" "cc s2 = cc s1" by (simp_all add: s2_def put_trees_def)
  have "at_leaf n s2 h PG (st[h := (p', i)]) a p' i" using s1(2) u(1) t2 by (auto simp: at_leaf_def s2_def)
  moreover have "cow_frame s s2" using s1(4) cow_frame_trans [OF s1(4) u(2)] by (simp add: s2_def)
  ultimately show ?thesis using call s1 u(3) t2 p'(2)
    by (intro exI [of _ s2] exI [of _ p']) (simp add: s2_def put_trees_def)
qed

text \<open>The bytes a page takes with these nodes, and when one more fits.\<close>

definition page_room :: "bytes list \<Rightarrow> nat" where
  "page_room ns = 20 + sum_list (map (\<lambda>x. 2 + length x) ns)"

lemma page_room_eq: "page_room xs = 20 + 2 * length xs + sum_list (map length xs)"
  by (induction xs) (simp_all add: page_room_def)

lemma page_room_insert: "page_room (take i xs @ x # drop i xs) = page_room xs + 2 + length x"
proof -
  have "page_room xs = page_room (take i xs @ drop i xs)" by simp
  then show ?thesis by (simp add: page_room_def del: append_take_drop_id)
qed

lemma insert_fits_room: "page_ok p \<Longrightarrow> insert_fits p nd \<longleftrightarrow> page_room (entries p) + 2 + length nd \<le> length (Data p)"
  using page_okD(6) [of p] total_entries [of p] by (simp add: insert_fits_def page_room_eq algebra_simps)

text \<open>The leaf becomes dirty.\<close>

lemma touch_leaf:
  assumes t: "wtree (n + length st) s h PG st" "length st = Suc h" and w: "world_ok w"
  defines "p \<equiv> fst (st ! h)" and "i \<equiv> snd (st ! h)"
  obtains s' PG' st' a p' where "touchPage w s = Some (s', Inr (Ref a))" "at_leaf n s' h PG' st' a p' i" "entries p' = entries p"
    "abst (vw s') h PG' = abst (vw s) h PG" "steps st' h = steps st h" "cow_frame s s'" "tframe s s'"
proof -
  have h: "h < length st" "st \<noteq> []" "length st - 1 = h" using t(2) by auto
  from touchPage_ok [OF t(1) h(2) w, unfolded h(3)] obtain s' PG' st' a where
    s': "touchPage w s = Some (s', Inr (Ref a))" "wtree n s' h PG' st'" "cow_step s h PG st s' PG' st'" "trk s' (pg_at PG' st' h) = Some a"
    by blast
  have len: "length st' = Suc h" using cow_step_length [OF s'(3)] t(2) by simp
  then have h': "h < length st'" by simp
  have sn: "map snd st' = map snd st" using s'(3) by (simp add: cow_step_def)
  have si: "steps st' h = steps st h" "snd (st' ! h) = i"
    using arg_cong [OF sn, of "take h"] arg_cong [OF sn, of "\<lambda>x. x ! h"] h(1) h' by (simp_all add: take_map i_def)
  have g: "bt_get (abst (vw s) h PG) (steps st h) = BLeaf (entries p)"
    using subtree_replace [OF wtreeD(3) [OF t(1)] h(1) wtreeD(4) [OF t(1)]] level_facts(3) [OF t(1) h(1)] by (auto simp: p_def)
  have "bt_get (abst (vw s') h PG') (steps st' h) = BLeaf (entries (fst (st' ! h)))"
    using subtree_replace [OF wtreeD(3) [OF s'(2)] h' wtreeD(4) [OF s'(2)]] level_facts(3) [OF s'(2) h'] by auto
  moreover have "abst (vw s') h PG' = abst (vw s) h PG" using s'(3) by (simp add: cow_step_def)
  ultimately have "entries (fst (st' ! h)) = entries p" using g si by simp
  moreover have "at_leaf n s' h PG' st' a (fst (st' ! h)) i" using s' len si by (simp add: at_leaf_def prod_eq_iff)
  ultimately show thesis using that [of s' a PG' st' "fst (st' ! h)"] s' si by (simp add: cow_step_def)
qed

lemma updateEntry_store:
  assumes l: "at_leaf n s h PG st a p i" and i: "i < nents p" and nd: "node_wf False nd"
    and room: "page_room ((entries p)[i := nd]) \<le> psize s"
  shows "\<exists>s'. do { (p, done') \<leftarrow> updateEntry p (int i) nd;
             if done' then do { s \<leftarrow> store s (Ref a) p; s \<leftarrow> set_cpage (top_ix (cc s)) (Ref a) s; Some (s, None) }
             else do { (p, _) \<leftarrow> removeEntry p (int i); s \<leftarrow> store s (Ref a) p; insertNodeAt w s (Ref a) (int i) nd True } } = Some (s', None) \<and>
    (\<exists>st' p'. at_leaf n s' h PG st' a p' i) \<and>
    abst (vw s') h PG = bt_put (abst (vw s) h PG) (steps st h) (BLeaf ((entries p)[i := nd])) \<and> cow_frame s s' \<and>
    trees (ct s') = trees (ct s)"
proof -
  note d = at_leafD [OF l]
  have wf: "node_wf (brp p) nd" using nd d(7) by simp
  have upd: "(entries p)[i := nd] = take i (entries p) @ nd # drop (Suc i) (entries p)" using i by (simp add: upd_conv_take_nth_drop)
  have "(\<exists>p'. updateEntry p (int i) nd = Some (p', True) \<and> page_ok p' \<and> entries p' = (entries p)[i := nd] \<and>
      length (Data p') = length (Data p) \<and> brp p' = brp p \<and> (\<forall>k. k < 12 \<or> 16 \<le> k \<and> k < 20 \<longrightarrow> Data p' ! k = Data p ! k)) \<or>
    updateEntry p (int i) nd = Some (p, False)"
  proof (cases "length nd \<le> nsz p i")
    case True
    then show ?thesis using updateEntry_in_place [OF d(6) i _ wf] by blast
  next
    case False
    then show ?thesis using updateEntry_grow [OF d(6) i _ _ wf] updateEntry_full [OF d(6) i] by (cases "low p + length nd \<le> upp p") simp_all
  qed
  then consider (put) p' where "updateEntry p (int i) nd = Some (p', True)" "page_ok p'" "entries p' = (entries p)[i := nd]"
      "length (Data p') = length (Data p)" "brp p' = brp p" "\<forall>k. k < 12 \<or> 16 \<le> k \<and> k < 20 \<longrightarrow> Data p' ! k = Data p ! k"
    | (full) "updateEntry p (int i) nd = Some (p, False)" by blast
  then show ?thesis
  proof cases
    case put
    have "i \<le> nents p'" using arg_cong [OF put(3), of length] i by simp
    from at_leaf_store [OF l put(2,5,4) this put(6)] obtain s1 where
      s1: "store s (Ref a) p' = Some s1" "at_leaf n s1 h PG (st[h := (p', i)]) a p' i"
      "abst (vw s1) h PG = bt_put (abst (vw s) h PG) (steps st h) (BLeaf (entries p'))"
      "cow_frame s s1" "cc s1 = cc s" "trees (ct s1) = trees (ct s)" by blast
    then show ?thesis using put(1,3) at_leafD(12,13) [OF s1(2)] by auto
  next
    case full
    from removeEntry_ok [OF d(6) i] obtain p1 where
      rm: "removeEntry p (int i) = Some (p1, True)" and p1: "page_ok p1" "entries p1 = take i (entries p) @ drop (Suc i) (entries p)"
        "length (Data p1) = length (Data p)" "brp p1 = brp p" "\<forall>k. k < 12 \<or> 16 \<le> k \<and> k < 20 \<longrightarrow> Data p1 ! k = Data p ! k" by blast
    have "i \<le> nents p1" using arg_cong [OF p1(2), of length] i by simp
    from at_leaf_store [OF l p1(1,4,3) this p1(5)] obtain s1 where
      s1: "store s (Ref a) p1 = Some s1" "at_leaf n s1 h PG (st[h := (p1, i)]) a p1 i"
      "abst (vw s1) h PG = bt_put (abst (vw s) h PG) (steps st h) (BLeaf (entries p1))"
      "cow_frame s s1" "cc s1 = cc s" "trees (ct s1) = trees (ct s)" by blast
    have "insert_fits p1 nd"
      unfolding insert_fits_room [OF p1(1)] p1(2,3) d(9)
      using room upd by (simp add: page_room_def)
    from insertNodeAt_fits [OF s1(2) nd this, of w True] obtain s2 p2 where
      s2: "insertNodeAt w s1 (Ref a) (int i) nd True = Some (s2, None)" "at_leaf n s2 h PG (st[h := (p1, i), h := (p2, i)]) a p2 i"
      "abst (vw s2) h PG = bt_put (abst (vw s1) h PG) (steps (st[h := (p1, i)]) h) (BLeaf (take i (entries p1) @ nd # drop i (entries p1)))"
      "cow_frame s1 s2" "trees (ct s2) = trees (ct s1)" by auto
    have "take i (entries p1) @ nd # drop i (entries p1) = (entries p)[i := nd]" using i by (simp add: upd p1(2))
    moreover have "steps (st[h := (p1, i)]) h = steps st h" by simp
    ultimately have "abst (vw s2) h PG = bt_put (abst (vw s) h PG) (steps st h) (BLeaf ((entries p)[i := nd]))"
      using s2(3) s1(3) by (simp add: bt_put_put)
    then show ?thesis using full rm s1(1,6) s2(1,2,5) cow_frame_trans [OF s1(4) s2(4)] by auto
  qed
qed

text \<open>The nodes of the leaf with \<open>nd\<close> at the place of its key, in the two ways the code puts it there.\<close>

lemma leaf_put:
  fixes nd :: bytes and b :: bool
  assumes t: "wtree (n + length st) s h PG st" "length st = Suc h" and w: "world_ok w" and ne: "\<not> isEmpty (trees (ct s) ! cdbi (cc s))"
  defines "p \<equiv> fst (st ! h)" and "i \<equiv> snd (st ! h)"
  defines "ns \<equiv> take i (entries p) @ nd # drop (if b then Suc i else i) (entries p)"
  assumes nd: "node_wf False nd" and room: "page_room ns \<le> psize s" and b: "b \<Longrightarrow> i < nents p" "b \<Longrightarrow> \<not> nd_big (entries p ! i)"
  shows "\<exists>s' PG' st'. (if b then updateNode w s nd else insertNode w s nd) = Some (s', None) \<and> wtree n s' h PG' st' \<and>
    abst (vw s') h PG' = bt_put (abst (vw s) h PG) (steps st h) (BLeaf ns) \<and> cow_frame s s' \<and>
    (\<exists>r m. trees (ct s') = (trees (ct s))[cdbi (cc s) := (trees (ct s) ! cdbi (cc s))\<lparr>Root := r, ModTxnid := m,
      Items := Items (trees (ct s) ! cdbi (cc s)) + (if b then 0 else 1)\<rparr>])"
proof -
  obtain s1 PG1 st1 a p1 where
    s1: "touchPage w s = Some (s1, Inr (Ref a))" "at_leaf n s1 h PG1 st1 a p1 i" "entries p1 = entries p"
    "abst (vw s1) h PG1 = abst (vw s) h PG" "steps st1 h = steps st h" "cow_frame s s1" "tframe s s1"
    by (rule touch_leaf [OF t w, folded p_def i_def])
  note d = at_leafD [OF s1(2)] and k = wtreeD [OF t(1)]
  note wf = wframe_fields [OF cow_wframe [OF s1(6)]]
  have top: "\<not> top_ix (cc s) < 0" using d(12) wf(5) by simp
  have n1: "nents p1 = nents p" by (rule entries_eqD(1) [OF s1(3)])
  obtain r m where tf: "trees (ct s1) = (trees (ct s))[cdbi (cc s) := (trees (ct s) ! cdbi (cc s))\<lparr>Root := r, ModTxnid := m\<rparr>]"
    using s1(7) by (auto simp: tframe_def)
  show ?thesis
  proof (cases b)
    case True
    have e: "ns = (entries p1)[i := nd]" using True b(1) by (simp add: ns_def upd_conv_take_nth_drop s1(3))
    have i: "i < nents p1" using b(1) [OF True] n1 by simp
    from updateEntry_store [OF s1(2) i nd, of w] room obtain s2 where
      s2: "do { (p, done') \<leftarrow> updateEntry p1 (int i) nd;
             if done' then do { s \<leftarrow> store s1 (Ref a) p; s \<leftarrow> set_cpage (top_ix (cc s)) (Ref a) s; Some (s, None) }
             else do { (p, _) \<leftarrow> removeEntry p (int i); s \<leftarrow> store s1 (Ref a) p; insertNodeAt w s (Ref a) (int i) nd True } } = Some (s2, None)"
      "\<exists>st' p'. at_leaf n s2 h PG1 st' a p' i" "abst (vw s2) h PG1 = bt_put (abst (vw s1) h PG1) (steps st1 h) (BLeaf ((entries p1)[i := nd]))"
      "cow_frame s1 s2" "trees (ct s2) = trees (ct s1)" by (auto simp: e wf(1))
    have "\<not> nd_big (node_at p1 i)" using b(2) [OF True] b(1) [OF True] i s1(3) nth_entries [of i p1] nth_entries [of i p] by simp
    then have "free_old_overflow s1 p1 (int i) = Some s1"
      using flag_accessors [OF d(6) i] by (simp add: free_old_overflow_def nd_big_def)
    then have "updateNode w s nd = Some (s2, None)"
      using s1(1) d(5,15) s2(1) top by (simp add: updateNode_def with_touched_def)
    moreover have "trees (ct s2) = (trees (ct s))[cdbi (cc s) := (trees (ct s) ! cdbi (cc s))\<lparr>Root := r, ModTxnid := m,
      Items := Items (trees (ct s) ! cdbi (cc s)) + (if b then 0 else 1)\<rparr>]" using s2(5) tf True by simp
    ultimately show ?thesis using True s2(2,3) s1(4,5) cow_frame_trans [OF s1(6) s2(4)] e by (auto simp: at_leaf_def)
  next
    case False
    have e: "ns = take i (entries p1) @ nd # drop i (entries p1)" using False by (simp add: ns_def s1(3))
    have "insert_fits p1 nd"
      unfolding insert_fits_room [OF d(6)] d(9) wf(1)
      using room e page_room_insert [of i "entries p1" nd] by simp
    from insertNodeAt_fits [OF s1(2) nd this, of w False] obtain s2 p2 where
      s2: "insertNodeAt w s1 (Ref a) (int i) nd False = Some (s2, None)" "at_leaf n s2 h PG1 (st1[h := (p2, i)]) a p2 i"
      "abst (vw s2) h PG1 = bt_put (abst (vw s1) h PG1) (steps st1 h) (BLeaf ns)" "cow_frame s1 s2"
      "trees (ct s2) = (trees (ct s1))[cdbi (cc s1) := (trees (ct s1) ! cdbi (cc s1))\<lparr>Items := Items (trees (ct s1) ! cdbi (cc s1)) + 1\<rparr>]"
      by (auto simp: e)
    have "insertNode w s nd = Some (s2, None)"
      using s1(1) d(15) s2(1) top ne k(7) by (simp add: insertNode_def with_touched_def tree_of_def)
    moreover have "trees (ct s2) = (trees (ct s))[cdbi (cc s) := (trees (ct s) ! cdbi (cc s))\<lparr>Root := r, ModTxnid := m,
      Items := Items (trees (ct s) ! cdbi (cc s)) + (if b then 0 else 1)\<rparr>]" using s2(5) tf False k(7) wf(4) by simp
    ultimately show ?thesis using False s2(2,3) s1(4,5) cow_frame_trans [OF s1(6) s2(4)] by (auto simp: at_leaf_def)
  qed
qed

section \<open>A table of a write transaction\<close>

text \<open>
  The table of the cursor as a well-formed tree of height \<open>h\<close> over the pages of the transaction, with
  room for \<open>n\<close> more pages.
\<close>

abbreviation ctree :: "cst \<Rightarrow> tree" where "ctree s \<equiv> trees (ct s) ! cdbi (cc s)"
abbreviation croot :: "cst \<Rightarrow> pgno" where "croot s \<equiv> Root (ctree s)"

definition wtable_ok :: "nat \<Rightarrow> cmp_fn \<Rightarrow> cst \<Rightarrow> nat \<Rightarrow> bool" where
  "wtable_ok n cmp s h \<longleftrightarrow> wtree n (cursor_reset s) h (croot s) [] \<and> tree_ok cmp (vw s) h (croot s) None None \<and>
     cmp_ready s cmp \<and> map_ready s \<and> h < 32 \<and> \<not> isEmpty (ctree s)"

abbreviation wtable :: "cmp_fn \<Rightarrow> cst \<Rightarrow> nat \<Rightarrow> bytes \<Rightarrow> bytes option" where
  "wtable cmp s h k \<equiv> find_node cmp (leaf_nodes (vw s) h (croot s)) k"

lemma reset_same: "ce (cursor_reset s) = ce s" "ct (cursor_reset s) = ct s" "cdbi (cc (cursor_reset s)) = cdbi (cc s)"
  "top_ix (cc (cursor_reset s)) = - 1" "dirtyMask (cc (cursor_reset s)) = 0"
  by (simp_all add: cursor_reset_def clearDupState_def on_dup_def Let_def)

lemma set_state_same: "ce (set_state x s) = ce s" "ct (set_state x s) = ct s" "cdbi (cc (set_state x s)) = cdbi (cc s)"
  "wtree n (set_state x s) h pg st = wtree n s h pg st"
proof -
  show e: "ce (set_state x s) = ce s" "ct (set_state x s) = ct s" "cdbi (cc (set_state x s)) = cdbi (cc s)"
    by (simp_all add: set_state_def)
  have "wpage (set_state x s) = wpage s" by (simp add: wpage_def fresh_def e fun_eq_iff)
  moreover have "on_wstack (set_state x s) pg st = on_wstack s pg st"
    by (simp add: on_wstack_def level_ref_def e) (simp add: set_state_def)
  ultimately show "wtree n (set_state x s) h pg st = wtree n s h pg st" by (simp add: wtree_def e)
qed

lemma searchForInsert_ok:
  assumes t: "wtable_ok n cmp s h"
  obtains s' where "searchForInsert (cursor_reset s) k = Some (s', Inr (has_key cmp (keys_of (leaf_of cmp k (vw s) h (croot s))) k))"
    "wtree n s' h (croot s) (spath cmp k (vw s) h (croot s))" "ce s' = ce s" "ct s' = ct s" "cdbi (cc s') = cdbi (cc s)"
proof -
  let ?s = "cursor_reset s" and ?pg = "croot s"
  note t = t [unfolded wtable_ok_def] and r = reset_same [of s]
  have w: "wtree n ?s h ?pg []" and ok: "tree_ok cmp (vw s) h ?pg None None" using t by simp_all
  note d = wtreeD [OF w, unfolded r]
  have c: "key_order cmp" "cmp_ready ?s cmp" "map_ready ?s" using t by (simp_all add: cmp_ready_def map_ready_def r)
  have m: "clean_above ?s (length ([] :: tpath))" by (simp add: clean_above_def r)
  have tr: "tree_of ?s = Some (ctree s)" using d(7) by (simp add: tree_of_def r)
  have id: "x = x\<lparr>cc := (cc x)\<lparr>top_ix := top_ix (cc x), dirtyMask := dirtyMask (cc x)\<rparr>\<rparr>" for x :: cst by simp
  have "?s\<lparr>cc := (cc ?s)\<lparr>top_ix := - 1, dirtyMask := 0\<rparr>\<rparr> = ?s" using id [of ?s, unfolded r(4,5)] by (rule sym)
  then have eq: "searchForInsert ?s k = search_insert_loop ?s k ?pg" using tr t by (simp add: searchForInsert_def)
  from search_insert_ok [OF wtreeD(1) [OF w] c(3,2) _ wtreeD(6) [OF w] m, of h ?pg None None k] ok t obtain s' where
    s': "search_insert_loop ?s k ?pg = Some (set_state cursorPointing s', Inr (has_key cmp (keys_of (leaf_of cmp k (vw s) h ?pg)) k))"
    "ce s' = ce s" "ct s' = ct s" "on_wstack s' ?pg (spath cmp k (vw s) h ?pg)"
    "cc s' = (cc ?s)\<lparr>top_ix := top_ix (cc s'), cpages := cpages (cc s'), indices := indices (cc s'), dirtyMask := dirtyMask (cc s')\<rparr>"
    by (auto simp: r leaf_of_def)
  have "cdbi (cc s') = cdbi (cc s)" using arg_cong [OF s'(5), of cdbi] by (simp add: r)
  moreover have "wpage s' = wpage ?s" by (simp add: wpage_def fresh_def s'(2,3) r fun_eq_iff)
  moreover have "path (vw s) h ?pg (spath cmp k (vw s) h ?pg)"
    using key_order.spath_ok [OF c(1)] ok by (simp add: tree_ok_bt)
  ultimately have "wtree n s' h ?pg (spath cmp k (vw s) h ?pg)" using d s'(2-4) by (simp add: wtree_def r)
  then show thesis using that [of "set_state cursorPointing s'"] eq s'(1-3) \<open>cdbi (cc s') = cdbi (cc s)\<close>
    by (simp add: set_state_same)
qed

lemma wtree_reset:
  assumes "wtree n s h pg st"
  shows "wtree n (cursor_reset s) h pg []"
proof -
  have "wpage (cursor_reset s) = wpage s" by (simp add: wpage_def fresh_def reset_same fun_eq_iff)
  moreover have "on_wstack (cursor_reset s) pg []"
    using wtreeD(6) [OF assms] by (simp add: on_wstack_def cursor_reset_def clearDupState_def on_dup_def Let_def)
  ultimately show ?thesis using assms by (simp add: wtree_def reset_same)
qed

lemma cow_ready:
  assumes "cow_frame s s'" "map_ready s" "cmp_ready s cmp"
  shows "map_ready s'" "cmp_ready s' cmp"
proof -
  from assms(1) obtain ss dt sl mm al ts dd where
    ct: "ct s' = (ct s)\<lparr>structs := ss, dirtyTracker := dt, spillSlots := sl, mmapData := mm, allocatedPg := al, trees := ts, dbiDirty := dd\<rparr>"
    by (auto simp: cow_frame_def wframe_def)
  then have t: "txnPageSize (ct s') = txnPageSize (ct s)" "comparator_of (ct s') = comparator_of (ct s)"
    "dbiUsesDefaultCmp (ct s') = dbiUsesDefaultCmp (ct s)" by (simp_all add: comparator_of_def fun_eq_iff)
  note f = wframe_fields(1,4) [OF cow_wframe [OF assms(1)]]
  show "map_ready s'" using assms(1,2) t f by (simp add: map_ready_def cow_frame_def)
  show "cmp_ready s' cmp" using assms(3) t f by (simp add: cmp_ready_def)
qed

lemma wtable_leaf:
  assumes t: "wtable_ok n cmp s h"
  defines "L k \<equiv> leaf_of cmp k (vw s) h (croot s)"
  shows "page_ok (L k)" "length (Data (L k)) = psize s" "has_key cmp (keys_of (L k)) k \<longleftrightarrow> wtable cmp s h k \<noteq> None"
proof -
  have c: "key_order cmp" and ok: "tree_ok cmp (vw s) h (croot s) None None" using t by (simp_all add: wtable_ok_def cmp_ready_def)
  obtain s1 where s1: "wtree n s1 h (croot s) (spath cmp k (vw s) h (croot s))" "ce s1 = ce s" "ct s1 = ct s"
    by (rule searchForInsert_ok [OF t])
  have top: "fst (spath cmp k (vw s) h (croot s) ! h) = L k" using key_order.spath_leaf [OF c ok, of k] by (simp add: L_def)
  show L: "page_ok (L k)" "length (Data (L k)) = psize s"
    using level_facts(4) [OF s1(1), of h] by (simp_all add: top wpage_def kind_ok_def s1(2))
  have r: "in_range cmp None None k" by (simp add: in_range_def)
  note f = key_order.find_leaf_of [OF c ok r, folded L_def]
  have "sorted_from cmp 0 (keys_of (L k))" using f by (simp add: keys_of_def)
  then show "has_key cmp (keys_of (L k)) k \<longleftrightarrow> wtable cmp s h k \<noteq> None" using f key_order.find_leaf [OF c L(1), of k] by simp
qed

lemma put_sizes:
  assumes t: "wtable_ok n cmp s h"
    and room: "page_room (put_node cmp (entries (leaf_of cmp k (vw s) h (croot s))) k (node_bytes x fl k v)) \<le> psize s"
  shows "length k < 65536" "length v < 4294967296"
proof -
  note l = wtable_leaf(1,2) [OF t, of k]
  have "length (node_bytes x fl k v) \<le> page_room (put_node cmp (entries (leaf_of cmp k (vw s) h (croot s))) k (node_bytes x fl k v))"
    by (simp add: put_node_def Let_def page_room_def)
  then have "length (node_bytes x fl k v) < 65536" using room page_okD(2) [OF l(1)] l(2) by simp
  then show "length k < 65536" "length v < 4294967296" by (simp_all add: node_bytes_def)
qed

lemma put_ok:
  assumes t: "wtable_ok (n + Suc h) cmp s h" and w: "world_ok w"
    and k: "int (length k) \<le> MaxKeySize (ce s)" and v: "\<not> is_big (ce s) k v" and fl: "fl AND Append = 0" "fl AND NoOverwrite = 0 \<or> wtable cmp s h k = None"
    and ds: "tFlags (ctree s) AND ucast DupSort = 0"
  defines "nd \<equiv> node_bytes (of_nat (length v)) 0 k v"
  assumes room: "page_room (put_node cmp (entries (leaf_of cmp k (vw s) h (croot s))) k nd) \<le> psize s"
    and old: "\<And>nd. wtable cmp s h k = Some nd \<Longrightarrow> \<not> nd_big nd" and items: "Items (ctree s) + 1 \<noteq> 0"
  shows "\<exists>s'. put w s k v fl = Some (s', None) \<and> wtable_ok n cmp s' h \<and>
    (\<forall>x. wtable cmp s' h x = (if cmp x k = 0 then Some nd else wtable cmp s h x)) \<and>
    (\<forall>q. \<not> fresh s q \<longrightarrow> trk s q = None \<longrightarrow> trk s' q = None \<and> getMmapPageData (ce s') q = getMmapPageData (ce s) q) \<and>
    Items (ctree s') = Items (ctree s) + (if wtable cmp s h k = None then 1 else 0) \<and>
    cdbi (cc s') = cdbi (cc s) \<and> txn_valid (ct s') = txn_valid (ct s)"
proof -
  let ?pg = "croot s"
  have c: "key_order cmp" using t by (simp add: wtable_ok_def cmp_ready_def)
  have ok: "tree_ok cmp (vw s) h ?pg None None" and h: "h < 32" and ne: "\<not> isEmpty (ctree s)"
    and rdy: "map_ready s" "cmp_ready s cmp" using t by (simp_all add: wtable_ok_def)
  define L where "L = leaf_of cmp k (vw s) h ?pg"
  define b where "b = has_key cmp (keys_of L) k"
  obtain s1 where s1: "searchForInsert (cursor_reset s) k = Some (s1, Inr b)"
    "wtree (n + Suc h) s1 h ?pg (spath cmp k (vw s) h ?pg)" "ce s1 = ce s" "ct s1 = ct s" "cdbi (cc s1) = cdbi (cc s)"
    unfolding b_def L_def by (rule searchForInsert_ok [OF t])
  let ?st = "spath cmp k (vw s) h ?pg"
  note sl = key_order.spath_leaf [OF c ok, of k, folded L_def]
  have len: "length ?st = Suc h" by simp
  have top: "?st ! h = (L, leaf_pos cmp (keys_of L) k)" using sl by blast
  have r: "in_range cmp None None k" by (simp add: in_range_def)
  have tk: "tall kind_ok (vw s) h ?pg" using ok by (simp add: tree_ok_bt)
  note fl' = key_order.find_leaf_of [OF c ok r, folded L_def]
  note lf = level_facts [OF s1(2), of h, unfolded top fst_conv]
  have L: "page_ok L" "length (Data L) = psize s" using wtable_leaf(1,2) [OF t, of k] by (simp_all add: L_def)
  have st: "sorted_from cmp 0 (keys_of L)" using fl' by (simp add: keys_of_def)
  have tb: "wtable cmp s h k = (if b then Some (entries L ! leaf_pos cmp (keys_of L) k) else None)"
    using fl' key_order.find_leaf [OF c L(1) st, of k] by (simp add: b_def)
  have bi: "leaf_pos cmp (keys_of L) k < nents L" "\<not> nd_big (entries L ! leaf_pos cmp (keys_of L) k)" if b
    using that old tb key_order.leaf_pos_hit(1) [OF c st, of k] by (simp_all add: b_def)
  have big: "length k < 65536" "length v < 4294967296" using put_sizes [OF t] room unfolding nd_def by auto
  note nb = node_bytes_ok [OF big(1) _ big(2), of 0, folded nd_def, simplified]
  have pn: "put_node cmp (entries L) k nd =
      take (leaf_pos cmp (keys_of L) k) (entries L) @ nd # drop (if b then Suc (leaf_pos cmp (keys_of L) k) else leaf_pos cmp (keys_of L) k) (entries L)"
    by (simp add: put_node_def Let_def b_def keys_of_def)
  have t1: "wtree (n + length ?st) s1 h ?pg ?st" using s1(2) by simp
  have ne1: "\<not> isEmpty (trees (ct s1) ! cdbi (cc s1))" using ne by (simp add: s1(4,5))
  have room1: "page_room (put_node cmp (entries L) k nd) \<le> psize s1" using room by (simp add: s1(3) L_def)
  have bp: "steps ?st h = bt_path cmp k h (abst (vw s) h ?pg)" by (rule key_order.spath_steps [OF c tk])
  have v1: "vw s1 = vw s" "trk s1 = trk s" by (simp_all add: s1(3,4))
  note lp = leaf_put [where b = b, OF t1 len w ne1 nb(6), unfolded top fst_conv snd_conv, folded pn, OF room1, unfolded s1(3-5) bp]
  obtain s2 PG' st' r m where
    s2: "(if b then updateNode w s1 nd else insertNode w s1 nd) = Some (s2, None)" "wtree n s2 h PG' st'"
    "abst (vw s2) h PG' = bt_put (abst (vw s) h ?pg) (bt_path cmp k h (abst (vw s) h ?pg)) (BLeaf (put_node cmp (entries L) k nd))"
    "cow_frame s1 s2" and
    tr: "trees (ct s2) = (trees (ct s))[cdbi (cc s) := (ctree s)\<lparr>Root := r, ModTxnid := m, Items := Items (ctree s) + (if b then 0 else 1)\<rparr>]"
    using lp bi by blast
  have call: "put w s k v fl = Some (s2, None)"
  proof -
    have to: "tree_of s = Some (ctree s)" using wtreeD(7) [OF s1(2)] by (simp add: tree_of_def s1(4,5))
    have "fl AND NoOverwrite = 0 \<or> \<not> b" using fl(2) tb by auto
    then have pr: "put_refused s1 v fl b False = Some (s1, False)" by (auto simp: put_refused_def)
    have bl: "\<not> is_big (ce s1) k v" using v by (simp add: s1(3))
    have pa: "putAfterPosition w s1 k v fl b False = Some (s2, None)"
      using s2(1) bl by (cases b) (simp_all add: putAfterPosition_def Let_def buildNode_def buildNodeWithFlags_def flip: nd_def)
    show ?thesis using k to ds fl s1(1) pr pa by (simp add: put_def Let_def)
  qed
  note wf = wframe_fields [OF cow_wframe [OF s2(4)]]
  have rt: "croot s2 = PG'" "cdbi (cc s2) = cdbi (cc s)" using wtreeD(8) [OF s2(2)] wf(4) s1(5) by simp_all
  have kind: "tall kind_ok (vw s2) h PG'" using tall_mono [OF wtreeD(5) [OF s2(2)]] by (simp add: wpage_def)
  note tp = key_order.tree_put [OF c ok nb(2) kind s2(3) [unfolded L_def]]
  have it: "Items (ctree s2) = Items (ctree s) + (if b then 0 else 1)" using tr wtreeD(7) [OF s1(2)] by (simp add: rt(2) s1(4,5))
  have "unat PG' < unat (allocatedPg (ct s2))" using wtree_fresh [OF s2(2), of PG'] by (simp add: fresh_def)
  then have "PG' \<noteq> invalidPgno" using wtreeD(2) [OF s2(2)] by (auto simp: invalidPgno_def)
  then have ne2: "\<not> isEmpty (ctree s2)" using it items ne rt by (auto simp: isEmpty_def)
  have "map_ready s1" "cmp_ready s1 cmp" using rdy by (simp_all add: map_ready_def cmp_ready_def s1(3-5))
  from cow_ready [OF s2(4) this] have "wtable_ok n cmp s2 h"
    using wtree_reset [OF s2(2)] tp(1) h ne2 by (simp add: wtable_ok_def rt(1))
  moreover have "\<forall>x. wtable cmp s2 h x = (if cmp x k = 0 then Some nd else wtable cmp s h x)" using tp(2) by (simp add: rt(1))
  moreover have "\<forall>q. \<not> fresh s q \<longrightarrow> trk s q = None \<longrightarrow> trk s2 q = None \<and> getMmapPageData (ce s2) q = getMmapPageData (ce s) q"
    using s2(4) by (simp add: cow_frame_def fresh_def s1(3,4))
  ultimately show ?thesis using call it tb rt(2) wf(8) s1(4) by (intro exI [of _ s2]) simp
qed

text \<open>A lookup of the transaction reads the table.\<close>

lemma wtable_get:
  assumes t: "wtable_ok n cmp s h" and v: "txn_valid (ct s)" "0 < cdbi (cc s)"
  shows "\<exists>t'. txn_Get (ce s) [ct s] (cdbi (cc s)) k = lookup_value (ce s) [t'] cmp (leaf_nodes (vw s) h (croot s)) k"
proof -
  have d: "wtxn_ok n (ce s) (ct s)" "cdbi (cc s) < length (trees (ct s))"
    using wtreeD(1,7) [of n "cursor_reset s" h "croot s" "[]"] t by (simp_all add: wtable_ok_def reset_same)
  have src: "page_source (ce s) (ct s) [] = vw s" using rd_txn_seen [OF d(1)] wtxn_okD(6) [OF d(1)] by (simp add: page_source_def)
  have c: "table_cmp (ce s) (ct s) (cdbi (cc s)) = cmp" "cmp_cache_ok (ct s) (cdbi (cc s))" "key_order cmp"
    using t by (auto simp: wtable_ok_def cmp_ready_def comparator_of_def table_cmp_def cmp_cache_ok_def split: if_splits)
  have "tree_ok cmp (vw s) h (croot s) None None" "\<not> isEmpty (ctree s)" using t by (simp_all add: wtable_ok_def)
  then show ?thesis using txn_Get_ok [of "ct s" "cdbi (cc s)" "ce s" "[]" h k] v d(2) c by (auto simp: src)
qed

end
