(* ===== verification/PutProps.thy ===== *)
theory PutProps
  imports PutSpec WriteSamples CursorOpen
begin

text \<open>The properties of Cursor.Put on a table without duplicates, with a concrete write transaction for each.\<close>

section \<open>A concrete table in a write transaction\<close>

definition put_txn :: txn where
  "put_txn = sample_wtxn\<lparr>dbiComparators := [None, None, Some bytes_compare]\<rparr>"

definition put_cst :: "buffer \<Rightarrow> cst" where
  "put_cst b = \<lparr>ce = sample_wenv b, ct = put_txn, cc = newCursor\<lparr>cdbi := 2\<rparr>\<rparr>"

lemma put_cst_fields: "ce (put_cst b) = sample_wenv b" "ct (put_cst b) = put_txn" "cdbi (cc (put_cst b)) = 2"
  "ctree (put_cst b) = sample_tree" "envPageSize (sample_wenv b) = 64" "allocatedPg put_txn = 6" "txnID_of put_txn = 1"
  "length (trees put_txn) = 3" "txn_valid put_txn" "trees put_txn ! 2 = sample_tree" "IsReadOnly put_txn = False"
  by (simp_all add: put_cst_def put_txn_def sample_wtxn_def sample_txn_def sample_wenv_def sample_env_def txn_valid_def IsReadOnly_def)

lemma put_cst_seen: "vw (put_cst b) 5 = Some sample_leaf" "trk (put_cst b) q = None"
proof -
  show t: "trk (put_cst b) q = None" for q
    by (simp add: put_cst_def put_txn_def sample_wtxn_def sample_txn_def map_room_empty)
  have "getMmapPageData (sample_wenv b) 5 = Some (Data sample_leaf)"
    by (simp add: getMmapPageData_def sample_wenv_def sample_env_def sample_map_def sample_leaf_fields Let_def slice_def)
  then show "vw (put_cst b) 5 = Some sample_leaf" using seen_untracked [OF t] by (simp add: put_cst_fields)
qed

lemma put_cst_ok:
  assumes "spill_room 1000 b" "pageSize b = 64"
  shows "wtable_ok 1000 bytes_compare (put_cst b) 0"
proof -
  have w: "wtxn_ok 1000 (sample_wenv b) put_txn"
    using sample_wtxn_ok [OF assms] wtxn_ok_cong [of put_txn sample_wtxn 1000 "sample_wenv b"] by (simp add: put_txn_def)
  have leaf: "lfp sample_leaf" "pno sample_leaf = 5" "ptx sample_leaf = 0"
    by (simp_all add: lfp_def pno_def ptx_def sample_leaf_def g16_def g32_def g64_def le16_def le32_def le64_def pageLeaf_def)
  have wp: "wpage (cursor_reset (put_cst b)) 0 5 sample_leaf"
    by (simp add: wpage_def kind_ok_def sample_leaf_ok sample_leaf_fields leaf fresh_def reset_same put_cst_fields)
  have rt: "croot (put_cst b) = 5" by (simp add: put_cst_fields sample_tree_def)
  have st: "on_wstack (cursor_reset (put_cst b)) 5 []"
    by (simp add: on_wstack_def cursor_reset_def put_cst_def newCursor_def CursorStackSize_def clearDupState_def on_dup_def Let_def)
  have "wtree 1000 (cursor_reset (put_cst b)) 0 5 []"
    using w st wp put_cst_seen(1) [of b] rt by (simp add: wtree_def reset_same put_cst_fields)
  moreover have "tree_ok bytes_compare (vw (put_cst b)) 0 5 None None"
    using put_cst_seen(1) [of b] leaf by (simp add: sample_leaf_ok sample_sorted sample_leaf_fields in_range_def)
  moreover have "cmp_ready (put_cst b) bytes_compare"
    using bytes.key_order_axioms by (simp add: cmp_ready_def put_cst_def put_txn_def comparator_of_def sample_wtxn_def sample_txn_def)
  moreover have "map_ready (put_cst b)"
    by (simp add: map_ready_def put_cst_def put_txn_def sample_wtxn_def sample_txn_def sample_wenv_def sample_env_def)
  ultimately show ?thesis by (simp add: wtable_ok_def rt) (simp add: put_cst_fields sample_tree_def isEmpty_def invalidPgno_def)
qed

lemma put_cst_leaf: "leaf_of bytes_compare k (vw (put_cst b)) 0 5 = sample_leaf"
  using put_cst_seen(1) [of b] by (simp add: leaf_of_def Let_def)

lemma put_cst_keys: "nd_key (sample_node [98] [120]) = [98]" "nd_key (sample_node [100] [121, 122]) = [100]"
  by (simp_all add: sample_node_eval)

lemma put_cst_table:
  "wtable bytes_compare (put_cst b) 0 x = find_node bytes_compare [sample_node [98] [120], sample_node [100] [121, 122]] x"
  using put_cst_seen(1) [of b] by (simp add: put_cst_fields sample_tree_def sample_entries)

text \<open>The conditions of a put of c \<mapsto> w.\<close>

lemma put_cst_args:
  shows "int (length [99 :: u8]) \<le> MaxKeySize (ce (put_cst b))" "\<not> is_big (ce (put_cst b)) [99] [119]"
    "(0 :: u64) AND Append = 0" "(0 :: u64) AND NoOverwrite = 0 \<or> wtable bytes_compare (put_cst b) 0 [99] = None" "tFlags (ctree (put_cst b)) AND ucast DupSort = 0"
    "page_room (put_node bytes_compare (entries (leaf_of bytes_compare [99] (vw (put_cst b)) 0 (croot (put_cst b)))) [99]
       (node_bytes (of_nat (length [119 :: u8])) 0 [99] [119])) \<le> unat (envPageSize (ce (put_cst b)))"
    "wtable bytes_compare (put_cst b) 0 [99] = None" "Items (ctree (put_cst b)) + 1 \<noteq> 0"
    "node_bytes 1 0 [99] [119] = sample_node [99] [119]" "Items (ctree (put_cst b)) = 2"
proof -
  show nd: "node_bytes 1 0 [99] [119] = sample_node [99] [119]" by (simp add: node_bytes_def sample_node_def)
  have "put_node bytes_compare (entries sample_leaf) [99] (sample_node [99] [119]) =
      [sample_node [98] [120], sample_node [99] [119], sample_node [100] [121, 122]]"
    by (simp add: put_node_def sample_entries put_cst_keys leaf_pos_def has_key_def bytes_compare_def)
  moreover have "leaf_of bytes_compare [99] (vw (put_cst b)) 0 (croot (put_cst b)) = sample_leaf"
    using put_cst_leaf [of "[99]" b] by (simp add: put_cst_fields sample_tree_def)
  moreover have "envPageSize (ce (put_cst b)) = 64" "of_nat (length [119 :: u8]) = (1 :: u32)" by (simp_all add: put_cst_fields)
  ultimately show "page_room (put_node bytes_compare (entries (leaf_of bytes_compare [99] (vw (put_cst b)) 0 (croot (put_cst b)))) [99]
       (node_bytes (of_nat (length [119 :: u8])) 0 [99] [119])) \<le> unat (envPageSize (ce (put_cst b)))"
    using nd by (simp only:) (simp add: page_room_def sample_totals)
  show "wtable bytes_compare (put_cst b) 0 [99] = None" unfolding put_cst_table by (simp add: find_node_def put_cst_keys bytes_compare_def)
qed (simp_all add: MaxKeySize_def is_big_def MaxValSize_def effective_ps_def half_def put_cst_fields sample_tree_def)

section \<open>The properties\<close>

text \<open>C2: Cursor.Put refines a map update, on a leaf that needs no split.  On a non-empty, well-formed table without
  duplicates of a write transaction that has room for the copies of the path (wtable_ok), while the system
  grants memory for them, for a pair that is stored inline (not a large value), a key of admissible length
  whose old node is not large, without Append and, when the key is there, without NoOverwrite, and when the
  changed leaf fits into a page: Put succeeds; afterwards the tree is well-formed again, the key has the node
  built from the pair, every other key has the node it had, and Items counts the new key.  Every page that
  was neither dirty nor beyond the last allocated one is still clean, and its bytes in the mapping are what
  they were: the call does not write into clean pages.\<close>

theorem put_refines_map:
  assumes "wtable_ok (n + Suc h) cmp s h" "world_ok w"
    and "int (length k) \<le> MaxKeySize (ce s)" "\<not> is_big (ce s) k v" "fl AND Append = 0" "fl AND NoOverwrite = 0 \<or> wtable cmp s h k = None"
    and "tFlags (ctree s) AND ucast DupSort = 0" "nd = node_bytes (of_nat (length v)) 0 k v"
    and "page_room (put_node cmp (entries (leaf_of cmp k (vw s) h (croot s))) k nd) \<le> unat (envPageSize (ce s))"
    and "\<forall>nd. wtable cmp s h k = Some nd \<longrightarrow> \<not> nd_big nd" "Items (ctree s) + 1 \<noteq> 0"
  shows "\<exists>s'. cursor_Put w s k v fl = Some (s', None) \<and> wtable_ok n cmp s' h \<and>
    (\<forall>x. wtable cmp s' h x = (if cmp x k = 0 then Some nd else wtable cmp s h x)) \<and>
    (\<forall>q. \<not> fresh s q \<longrightarrow> trk s q = None \<longrightarrow> trk s' q = None \<and> getMmapPageData (ce s') q = getMmapPageData (ce s) q) \<and>
    Items (ctree s') = Items (ctree s) + (if wtable cmp s h k = None then 1 else 0)"
proof -
  have "txnFlags (ct s) AND ucast TxnReadOnly = 0"
    using wtxn_okD(6) [OF wtreeD(1)] assms(1) by (fastforce simp: wtable_ok_def reset_same IsReadOnly_def)
  then have eq: "cursor_Put w s k v fl = put w s k v fl" by (simp add: cursor_Put_def)
  have old: "\<And>nd. wtable cmp s h k = Some nd \<Longrightarrow> \<not> nd_big nd" using assms(10) by blast
  show ?thesis unfolding eq using put_ok [OF assms(1-7), folded assms(8), OF assms(9) old assms(11)] by blast
qed

theorem put_refines_map_witness:
  "\<exists>b s'. cursor_Put sample_world (put_cst b) [99] [119] 0 = Some (s', None) \<and>
    wtable bytes_compare s' 0 [99] = Some (sample_node [99] [119]) \<and>
    wtable bytes_compare s' 0 [100] = Some (sample_node [100] [121, 122]) \<and> Items (ctree s') = 3"
proof -
  obtain b where b: "spill_room 1000 b" "pageSize b = 64" using sample_buffer by blast
  note f = put_cst_args
  have ok: "wtable_ok (999 + Suc 0) bytes_compare (put_cst b) 0" using put_cst_ok [OF b] by simp
  from put_refines_map [OF ok sample_world_ok f(1-5) refl] f(6-8) obtain s' where
    s': "cursor_Put sample_world (put_cst b) [99] [119] 0 = Some (s', None)"
    "\<forall>x. wtable bytes_compare s' 0 x = (if bytes_compare x [99] = 0 then Some (node_bytes 1 0 [99] [119]) else wtable bytes_compare (put_cst b) 0 x)"
    "Items (ctree s') = Items (ctree (put_cst b)) + (if wtable bytes_compare (put_cst b) 0 [99] = None then 1 else 0)" by auto
  have "wtable bytes_compare s' 0 [99] = Some (sample_node [99] [119])" using s'(2) f(9) by (simp add: bytes.cmp_refl)
  moreover have "wtable bytes_compare s' 0 [100] = Some (sample_node [100] [121, 122])"
    unfolding s'(2) [rule_format] put_cst_table by (simp add: find_node_def put_cst_keys bytes_compare_def)
  moreover have "Items (ctree s') = 3" using s'(3) f(7,10) by simp
  ultimately show ?thesis using s'(1) by blast
qed

text \<open>C4: a pair that was put inline, without a split, is read back.  On a non-empty, well-formed table without
  duplicates of a write transaction that has room for the copies of the path (wtable_ok), while the system
  grants memory for them, for a key of admissible length, a value that is not large and does not replace a
  large one, a leaf that holds the changed nodes, without Append and, when the key is there, without
  NoOverwrite: Cursor.Put succeeds and Txn.Get of the key in the same transaction returns the value.\<close>

theorem put_then_get:
  assumes "wtable_ok (n + Suc h) cmp s h" "world_ok w"
    and "int (length k) \<le> MaxKeySize (ce s)" "\<not> is_big (ce s) k v" "fl AND Append = 0" "fl AND NoOverwrite = 0 \<or> wtable cmp s h k = None"
    and "tFlags (ctree s) AND ucast DupSort = 0" "nd = node_bytes (of_nat (length v)) 0 k v"
    and "page_room (put_node cmp (entries (leaf_of cmp k (vw s) h (croot s))) k nd) \<le> unat (envPageSize (ce s))"
    and "\<forall>nd. wtable cmp s h k = Some nd \<longrightarrow> \<not> nd_big nd" "Items (ctree s) + 1 \<noteq> 0" "txn_valid (ct s)" "0 < cdbi (cc s)"
  shows "\<exists>s' t'. cursor_Put w s k v fl = Some (s', None) \<and> txn_Get (ce s') [ct s'] (cdbi (cc s)) k = Some ([t'], Inr v)"
proof -
  from put_ok [OF assms(1-7), folded assms(8), OF assms(9)] assms(10,11) obtain s' where
    s': "put w s k v fl = Some (s', None)" "wtable_ok n cmp s' h" "wtable cmp s' h k = (if cmp k k = 0 then Some nd else wtable cmp s h k)"
    "cdbi (cc s') = cdbi (cc s)" "txn_valid (ct s')" using assms(12) by auto
  have c: "cmp k k = 0" using key_order.cmp_refl assms(1) by (auto simp: wtable_ok_def cmp_ready_def)
  have "txnFlags (ct s) AND ucast TxnReadOnly = 0"
    using wtxn_okD(6) [OF wtreeD(1)] assms(1) by (fastforce simp: wtable_ok_def reset_same IsReadOnly_def)
  then have call: "cursor_Put w s k v fl = Some (s', None)" using s'(1) by (simp add: cursor_Put_def)
  have len: "length k < 65536" "length v < 4294967296" using put_sizes [OF assms(1)] assms(9) unfolding assms(8) by auto
  note nb = node_bytes_ok [OF len(1) _ len(2), of 0, folded assms(8), simplified]
  have val: "value_of (ce s') [t'] nd = Some ([t'], Inr v)" for t' using nb by (simp add: value_of_def)
  from wtable_get [OF s'(2,5)] assms(13) s'(4) obtain t' where
    "txn_Get (ce s') [ct s'] (cdbi (cc s)) k = lookup_value (ce s') [t'] cmp (leaf_nodes (vw s') h (croot s')) k" by auto
  then show ?thesis using call s'(3) c val by (auto simp: lookup_value_def)
qed

theorem put_then_get_witness:
  "\<exists>b s' t'. cursor_Put sample_world (put_cst b) [99] [119] 0 = Some (s', None) \<and> txn_Get (ce s') [ct s'] 2 [99] = Some ([t'], Inr [119])"
proof -
  obtain b where b: "spill_room 1000 b" "pageSize b = 64" using sample_buffer by blast
  note f = put_cst_args
  have ok: "wtable_ok (999 + Suc 0) bytes_compare (put_cst b) 0" using put_cst_ok [OF b] by simp
  show ?thesis
    using put_then_get [OF ok sample_world_ok f(1-5) refl f(6)] f(7,8) by (auto simp: put_cst_fields)
qed

text \<open>C39: on a non-empty, well-formed table without duplicates, Put with NoOverwrite and without Append is refused with
  KeyExist for a key of admissible length that the table has, and environment and transaction are as they
  were.\<close>

theorem put_no_overwrite:
  assumes "wtable_ok n cmp s h" "int (length k) \<le> MaxKeySize (ce s)" "fl AND Append = 0" "fl AND NoOverwrite \<noteq> 0"
    and "tFlags (ctree s) AND ucast DupSort = 0" "wtable cmp s h k \<noteq> None"
  shows "\<exists>s'. cursor_Put w s k v fl = Some (s', Some (NewError ErrKeyExist)) \<and> ce s' = ce s \<and> ct s' = ct s"
proof -
  have "txnFlags (ct s) AND ucast TxnReadOnly = 0"
    using wtxn_okD(6) [OF wtreeD(1)] assms(1) by (fastforce simp: wtable_ok_def reset_same IsReadOnly_def)
  moreover obtain s1 where "searchForInsert (cursor_reset s) k = Some (s1, Inr True)" "ce s1 = ce s" "ct s1 = ct s"
    using searchForInsert_ok [OF assms(1), of k] wtable_leaf(3) [OF assms(1), of k] assms(6) by metis
  moreover have "tree_of s = Some (ctree s)"
    using wtreeD(7) [of n "cursor_reset s" h "croot s" "[]"] assms(1) by (simp add: wtable_ok_def reset_same tree_of_def)
  ultimately show ?thesis using assms by (simp add: cursor_Put_def put_def Let_def put_refused_def)
qed

theorem put_no_overwrite_witness:
  "\<exists>b s'. cursor_Put sample_world (put_cst b) [100] [119] NoOverwrite = Some (s', Some (NewError ErrKeyExist)) \<and> ct s' = put_txn"
proof -
  obtain b where b: "spill_room 1000 b" "pageSize b = 64" using sample_buffer by blast
  have "wtable bytes_compare (put_cst b) 0 [100] \<noteq> None"
    unfolding put_cst_table by (simp add: find_node_def put_cst_keys bytes_compare_def)
  moreover have "NoOverwrite AND Append = 0" "NoOverwrite AND NoOverwrite \<noteq> 0" by (simp_all add: NoOverwrite_def Append_def)
  moreover have "int (length [100 :: u8]) \<le> MaxKeySize (ce (put_cst b))" using put_cst_args(1) by simp
  ultimately show ?thesis
    using put_no_overwrite [OF put_cst_ok [OF b], of "[100]" NoOverwrite sample_world "[119]"] put_cst_args(5) [of b]
    by (auto simp: put_cst_fields)
qed

text \<open>C3: touchPage, on a cursor whose stack is a path of a well-formed tree of a write transaction with room for the
  copies (wtree), while the system grants memory for them, makes the page at the top of the stack a dirty
  page of the transaction.  The pages of the path keep their positions, the branches above lead to the copy,
  and the tree has the nodes it had; a page that was neither dirty nor beyond the last allocated one stays
  clean and keeps its bytes in the mapping.\<close>

theorem copy_on_write:
  assumes "wtree (n + length st) s h pg st" "st \<noteq> []" "world_ok w"
  shows "\<exists>s' pg' st' a. touchPage w s = Some (s', Inr (Ref a)) \<and> wtree n s' h pg' st' \<and> trk s' (pg_at pg' st' (length st - 1)) = Some a \<and>
    map snd st' = map snd st \<and> abst (vw s') h pg' = abst (vw s) h pg \<and>
    (\<forall>q. \<not> fresh s q \<longrightarrow> trk s q = None \<longrightarrow> trk s' q = None \<and> getMmapPageData (ce s') q = getMmapPageData (ce s) q)"
  using touchPage_ok [OF assms] unfolding cow_step_def cow_frame_def by blast

theorem copy_on_write_witness:
  "\<exists>s s' a. ct s = put_txn \<and> touchPage sample_world s = Some (s', Inr (Ref a)) \<and>
    leaf_nodes (vw s') 0 (croot s') = [sample_node [98] [120], sample_node [100] [121, 122]] \<and>
    getMmapPageData (ce s') 5 = Some (Data sample_leaf)"
proof -
  obtain b where b: "spill_room 1000 b" "pageSize b = 64" using sample_buffer by blast
  have rt: "croot (put_cst b) = 5" by (simp add: put_cst_fields sample_tree_def)
  have "wtable_ok 1000 bytes_compare (put_cst b) 0" by (rule put_cst_ok [OF b])
  from searchForInsert_ok [OF this, of "[99]"] obtain s where
    s: "wtree 1000 s 0 5 (spath bytes_compare [99] (vw (put_cst b)) 0 5)" "ce s = sample_wenv b" "ct s = put_txn"
    unfolding rt by (auto simp: put_cst_fields)
  let ?st = "spath bytes_compare [99] (vw (put_cst b)) 0 5"
  have v: "vw s 5 = Some sample_leaf" "trk s 5 = None" using put_cst_seen [of b] s(2,3) by (simp_all add: put_cst_fields)
  have "wtree (999 + length ?st) s 0 5 ?st" using s(1) by (simp add: Let_def)
  from copy_on_write [OF this spath_ne sample_world_ok] obtain s' pg' st' a where
    s': "touchPage sample_world s = Some (s', Inr (Ref a))" "wtree 999 s' 0 pg' st'" "abst (vw s') 0 pg' = abst (vw s) 0 5"
    "\<forall>q. \<not> fresh s q \<longrightarrow> trk s q = None \<longrightarrow> trk s' q = None \<and> getMmapPageData (ce s') q = getMmapPageData (ce s) q" by blast
  have "leaf_nodes (vw s') 0 pg' = bleaves (abst (vw s) 0 5)" by (simp only: leaf_nodes_abst s'(3))
  also have "\<dots> = [sample_node [98] [120], sample_node [100] [121, 122]]" using v by (simp add: sample_entries)
  finally have nodes: "leaf_nodes (vw s') 0 (croot s') = [sample_node [98] [120], sample_node [100] [121, 122]]"
    using wtreeD(8) [OF s'(2)] by simp
  have "getMmapPageData (ce s) 5 = Some (Data sample_leaf)"
    using v seen_untracked [OF v(2), of "ce s"] by (auto dest: arg_cong [where f = Data])
  then have "getMmapPageData (ce s') 5 = Some (Data sample_leaf)" using s'(4) v(2) s(3) by (simp add: fresh_def put_cst_fields)
  with s(3) s'(1) nodes show ?thesis by blast
qed

end
