(* ===== verification/RangeDelete.thy ===== *)
theory RangeDelete
  imports CursorDup
begin

text \<open>
  Deleting a range of keys (range_delete.go).  The functions of the source take the transaction and a
  table; here this is the state of a cursor of which only the transaction and the table index are
  used, so that page access and copy-on-write are those of the cursors.  A page is read once where the
  source keeps a pointer to it: nothing writes to it in between unless a page is its own descendant.
  Counts are Go's int64, as words in two's complement.
\<close>

type_synonym i64 = u64

section \<open>Pages\<close>

definition dr_getPage :: "cst \<Rightarrow> pgno \<Rightarrow> (cst \<times> (goerror + page)) option" where
  "dr_getPage s pg =
     do { (ts, res) \<leftarrow> getPage (ce s) [ct s] pg;
          t \<leftarrow> (case ts of [] \<Rightarrow> None | t # _ \<Rightarrow> Some t);
          Some (s\<lparr>ct := t\<rparr>, res) }"

definition add_free :: "pgno list \<Rightarrow> cst \<Rightarrow> cst" where
  "add_free pgs s = s\<lparr>ct := (ct s)\<lparr>freePages := freePages (ct s) @ pgs\<rparr>\<rparr>"

text \<open>Page counters are only lowered while they are not zero.\<close>

definition less_leaves :: "tree \<Rightarrow> tree" where
  "less_leaves tr = (if LeafPages tr > 0 then tr\<lparr>LeafPages := LeafPages tr - 1\<rparr> else tr)"

definition less_branches :: "tree \<Rightarrow> tree" where
  "less_branches tr = (if BranchPages tr > 0 then tr\<lparr>BranchPages := BranchPages tr - 1\<rparr> else tr)"

definition drCowPage :: "world \<Rightarrow> cst \<Rightarrow> pgno \<Rightarrow> (cst \<times> (goerror + pgno \<times> nat)) option" where
  "drCowPage w s oldPg =
     do { d \<leftarrow> tracker_ref (ct s) oldPg;
          case d of
            Some a \<Rightarrow> Some (s, Inr (oldPg, a))
          | None \<Rightarrow>
              do { (s, res) \<leftarrow> dr_getPage s oldPg;
                   case res of
                     Inl err \<Rightarrow> Some (s, Inl err)
                   | Inr p \<Rightarrow>
                       do { h \<leftarrow> header p;
                            if isWriteMap (ce s) \<and> hTxnid h = txnID_of (ct s) then
                              do { let (t, a) = new_struct (ct s) (MapPage oldPg);
                                   t \<leftarrow> tracker_set t oldPg a;
                                   Some (s\<lparr>ct := t\<rparr>, Inr (oldPg, a)) }
                            else
                              do { (s, newPgno, a) \<leftarrow> copy_page w s p;
                                   Some (s, Inr (newPgno, a)) } } } }"

definition drUpdateBranchChildPgno :: "page \<Rightarrow> int \<Rightarrow> pgno \<Rightarrow> page option" where
  "drUpdateBranchChildPgno p idx child =
     do { off \<leftarrow> entryOffset p idx;
          if off = 0 \<and> idx > 0 then Some p
          else map_option (\<lambda>d. p\<lparr>Data := d\<rparr>) (putUint32LE (Data p) (uint off) child) }"

definition drMarkDbiDirty :: "cst \<Rightarrow> cst" where
  "drMarkDbiDirty s =
     (let t = ct s; dbi = cdbi (cc s);
          ds = (case dbiDirty t of None \<Rightarrow> replicate (length (trees t)) False | Some ds \<Rightarrow> ds)
      in s\<lparr>ct := t\<lparr>dbiDirty := Some (if dbi < length ds then ds[dbi := True] else ds)\<rparr>\<rparr>)"

section \<open>Freeing\<close>

definition drFreeOverflowPages :: "cst \<Rightarrow> pgno \<Rightarrow> u32 \<Rightarrow> cst option" where
  "drFreeOverflowPages s ovPgno sz =
     (let n = overflow_count (uint (envPageSize (ce s))) (uint sz)
      in upd_ctree (\<lambda>tr. if LargePages tr \<ge> of_nat n then tr\<lparr>LargePages := LargePages tr - of_nat n\<rparr> else tr)
           (add_free (map (\<lambda>i. ovPgno + of_nat i) [0..<n]) s))"

fun dr_children :: "(cst \<Rightarrow> pgno \<Rightarrow> cst option) \<Rightarrow> page \<Rightarrow> int list \<Rightarrow> cst \<Rightarrow> cst option" where
  "dr_children f p [] s = Some s"
| "dr_children f p (i # is) s = do { c \<leftarrow> nodeGetChildPgnoDirect p i; s \<leftarrow> f s c; dr_children f p is s }"

primrec drFreeAllSubTreePages :: "nat \<Rightarrow> cst \<Rightarrow> pgno \<Rightarrow> cst option" where
  "drFreeAllSubTreePages 0 = (\<lambda>s root. Some s)"
| "drFreeAllSubTreePages (Suc h) = (\<lambda>s root.
     if root = invalidPgno then Some s
     else do {
       (s, res) \<leftarrow> dr_getPage s root;
       case res of
         Inl err \<Rightarrow> Some s
       | Inr p \<Rightarrow>
           do { s \<leftarrow> (if h > 0 then dr_children (drFreeAllSubTreePages h) p [0..numEntries p - 1] s else Some s);
                Some (add_free [root] s) } })"

text \<open>The tree record of a sub-tree node: its root and height, and its number of items.\<close>

definition free_dup_tree :: "cst \<Rightarrow> bytes \<Rightarrow> cst option" where
  "free_dup_tree s data = drFreeAllSubTreePages (unat (g16 data 2)) s (g32 data 8)"

definition drCountAndFreeDupItems :: "cst \<Rightarrow> page \<Rightarrow> int \<Rightarrow> u8 \<Rightarrow> (cst \<times> i64) option" where
  "drCountAndFreeDupItems s p idx fl =
     (if fl AND nodeTree \<noteq> 0 then
        do { data \<leftarrow> nodeGetDataDirect p idx;
             case data of
               Some d \<Rightarrow> if 48 \<le> length d then do { s \<leftarrow> free_dup_tree s d; Some (s, g64 d 32) } else Some (s, 1)
             | None \<Rightarrow> Some (s, 1) }
      else if fl AND nodeDup \<noteq> 0 then
        do { data \<leftarrow> nodeGetDataDirect p idx;
             case data of
               Some d \<Rightarrow> if 14 \<le> length d then Some (s, ucast (drop_bit 1 (g16 d 12))) else Some (s, 1)
             | None \<Rightarrow> Some (s, 1) }
      else Some (s, 1))"

text \<open>The resources of the entries of a leaf, and how many items they are.\<close>

fun dr_free_entries :: "bool \<Rightarrow> page \<Rightarrow> int list \<Rightarrow> cst \<Rightarrow> (cst \<times> i64) option" where
  "dr_free_entries dupSort p [] s = Some (s, 0)"
| "dr_free_entries dupSort p (i # is) s =
     do { fl \<leftarrow> nodeGetFlagsDirect p i;
          s \<leftarrow> (if fl AND nodeBig \<noteq> 0 then
                  do { ov \<leftarrow> nodeGetOverflowPgnoDirect p i; sz \<leftarrow> nodeGetDataSizeDirect p i; drFreeOverflowPages s ov sz }
                else Some s);
          (s, n) \<leftarrow> (if dupSort then drCountAndFreeDupItems s p i fl else Some (s, 1));
          (s, m) \<leftarrow> dr_free_entries dupSort p is s;
          Some (s, n + m) }"

text \<open>The children in turn, with the number of items and the error that ended it.\<close>

fun dr_subtrees ::
    "(cst \<Rightarrow> pgno \<Rightarrow> (cst \<times> i64 \<times> goerror option) option) \<Rightarrow> page \<Rightarrow> int list \<Rightarrow> i64 \<Rightarrow> cst \<Rightarrow> (cst \<times> i64 \<times> goerror option) option" where
  "dr_subtrees f p [] items s = Some (s, items, None)"
| "dr_subtrees f p (i # is) items s =
     do { c \<leftarrow> nodeGetChildPgnoDirect p i;
          (s, n, err) \<leftarrow> f s c;
          if err \<noteq> None then Some (s, items + n, err) else dr_subtrees f p is (items + n) s }"

primrec drFreeSubtreeRecursive :: "nat \<Rightarrow> bool \<Rightarrow> cst \<Rightarrow> pgno \<Rightarrow> (cst \<times> i64 \<times> goerror option) option" where
  "drFreeSubtreeRecursive 0 dupSort = (\<lambda>s pg. Some (s, 0, None))"
| "drFreeSubtreeRecursive (Suc h) dupSort = (\<lambda>s pg.
     if pg = invalidPgno then Some (s, 0, None)
     else do {
       (s, res) \<leftarrow> dr_getPage s pg;
       case res of
         Inl err \<Rightarrow> Some (s, 0, Some err)
       | Inr p \<Rightarrow>
           if h = 0 then
             do { (s, items) \<leftarrow> dr_free_entries dupSort p [0..numEntries p - 1] s;
                  s \<leftarrow> upd_ctree less_leaves (add_free [pg] s);
                  Some (s, items, None) }
           else
             do { (s, items, err) \<leftarrow> dr_subtrees (drFreeSubtreeRecursive h dupSort) p [0..numEntries p - 1] 0 s;
                  if err \<noteq> None then Some (s, items, err)
                  else do { s \<leftarrow> upd_ctree less_branches (add_free [pg] s); Some (s, items, None) } } })"

text \<open>The resources of a leaf when the whole table goes; duplicates are not counted.\<close>

fun dr_drop_entries :: "bool \<Rightarrow> page \<Rightarrow> int list \<Rightarrow> cst \<Rightarrow> cst option" where
  "dr_drop_entries dupSort p [] s = Some s"
| "dr_drop_entries dupSort p (i # is) s =
     do { fl \<leftarrow> nodeGetFlagsDirect p i;
          s \<leftarrow> (if fl AND nodeBig \<noteq> 0 then
                  do { ov \<leftarrow> nodeGetOverflowPgnoDirect p i; sz \<leftarrow> nodeGetDataSizeDirect p i; drFreeOverflowPages s ov sz }
                else Some s);
          s \<leftarrow> (if dupSort \<and> fl AND nodeTree \<noteq> 0 then
                  do { data \<leftarrow> nodeGetDataDirect p i;
                       case data of Some d \<Rightarrow> if 12 \<le> length d then free_dup_tree s d else Some s | None \<Rightarrow> Some s }
                else Some s);
          dr_drop_entries dupSort p is s }"

primrec drFreeTreeRecursive :: "nat \<Rightarrow> bool \<Rightarrow> cst \<Rightarrow> pgno \<Rightarrow> cst option" where
  "drFreeTreeRecursive 0 dupSort = (\<lambda>s pg. Some s)"
| "drFreeTreeRecursive (Suc h) dupSort = (\<lambda>s pg.
     if pg = invalidPgno then Some s
     else do {
       (s, res) \<leftarrow> dr_getPage s pg;
       case res of
         Inl err \<Rightarrow> Some s
       | Inr p \<Rightarrow>
           do { s \<leftarrow> (if h = 0 then dr_drop_entries dupSort p [0..numEntries p - 1] s
                      else dr_children (drFreeTreeRecursive h dupSort) p [0..numEntries p - 1] s);
                Some (add_free [pg] s) } })"

section \<open>Searching the ends of the range\<close>

text \<open>The loop of a leaf: the first index that does not satisfy \<open>c\<close>.\<close>

function dr_first_not :: "(int \<Rightarrow> bool option) \<Rightarrow> int \<Rightarrow> int \<Rightarrow> int option" where
  "dr_first_not c lo hi =
     (if lo < hi then
        let mid = (lo + hi) div 2
        in do { b \<leftarrow> c mid; if b then dr_first_not c (mid + 1) hi else dr_first_not c lo mid }
      else Some lo)"
  by auto
termination by (relation "measure (\<lambda>(c, lo, hi). nat (hi - lo))") auto

text \<open>The loop of a branch: the last index that satisfies \<open>c\<close>, or the first index.\<close>

function dr_last :: "(int \<Rightarrow> bool option) \<Rightarrow> int \<Rightarrow> int \<Rightarrow> int option" where
  "dr_last c lo hi =
     (if lo < hi then
        let mid = (lo + hi + 1) div 2
        in do { b \<leftarrow> c mid; if b then dr_last c mid hi else dr_last c lo (mid - 1) }
      else Some lo)"
  by auto
termination by (relation "measure (\<lambda>(c, lo, hi). nat (hi - lo))") auto

declare dr_first_not.simps [simp del] dr_last.simps [simp del]

definition key_less :: "cmp_fn \<Rightarrow> page \<Rightarrow> bytes \<Rightarrow> int \<Rightarrow> bool option" where
  "key_less cmp p k i = do { x \<leftarrow> nodeGetKeyDirect p i; Some (cmp (mapped x) k < 0) }"

definition key_le :: "cmp_fn \<Rightarrow> page \<Rightarrow> bytes \<Rightarrow> int \<Rightarrow> bool option" where
  "key_le cmp p k i = do { x \<leftarrow> nodeGetKeyDirect p i; Some (cmp (mapped x) k \<le> 0) }"

section \<open>Leaves\<close>

fun dr_remove :: "page \<Rightarrow> int list \<Rightarrow> page option" where
  "dr_remove p [] = Some p"
| "dr_remove p (i # is) = do { (p, _) \<leftarrow> removeEntry p i; dr_remove p is }"

type_synonym dr_result = "cst \<times> pgno \<times> i64 \<times> goerror option"

definition drDeleteInLeaf :: "world \<Rightarrow> cmp_fn \<Rightarrow> bool \<Rightarrow> cst \<Rightarrow> pgno \<Rightarrow> bytes option \<Rightarrow> bytes option \<Rightarrow> dr_result option" where
  "drDeleteInLeaf w cmp dupSort s pg fr to =
     do { (s, res) \<leftarrow> dr_getPage s pg;
          case res of
            Inl err \<Rightarrow> Some (s, pg, 0, Some err)
          | Inr p \<Rightarrow>
              (let n = numEntries p in
               if n = 0 then Some (s, pg, 0, None)
               else do {
                 startIdx \<leftarrow> (case fr of None \<Rightarrow> Some 0 | Some k \<Rightarrow> dr_first_not (key_less cmp p k) 0 n);
                 endIdx \<leftarrow> (case to of None \<Rightarrow> Some n | Some k \<Rightarrow> dr_first_not (key_less cmp p k) startIdx n);
                 if startIdx \<ge> endIdx then Some (s, pg, 0, None)
                 else do {
                   (s, res) \<leftarrow> drCowPage w s pg;
                   case res of
                     Inl err \<Rightarrow> Some (s, pg, 0, Some err)
                   | Inr (newPg, a) \<Rightarrow>
                       do { p \<leftarrow> page_of s (Ref a);
                            (s, deleted) \<leftarrow> dr_free_entries dupSort p [startIdx..endIdx - 1] s;
                            if startIdx = 0 \<and> endIdx = n then
                              do { s \<leftarrow> upd_ctree less_leaves (add_free [newPg] s);
                                   Some (s, invalidPgno, deleted, None) }
                            else
                              do { p \<leftarrow> dr_remove p (rev [startIdx..endIdx - 1]);
                                   s \<leftarrow> store s (Ref a) p;
                                   Some (s, newPg, deleted, None) } } } }) }"

section \<open>Branches\<close>

definition drIsChildFullyContained :: "page \<Rightarrow> int \<Rightarrow> int \<Rightarrow> bytes option \<Rightarrow> bytes option \<Rightarrow> cmp_fn \<Rightarrow> bool option" where
  "drIsChildFullyContained p i n fr to cmp =
     do { below \<leftarrow> (case fr of None \<Rightarrow> Some False | Some k \<Rightarrow> key_less cmp p k i);
          if below then Some False
          else if i < n - 1 then
            do { next \<leftarrow> nodeGetKeyDirect p (i + 1);
                 Some (case to of None \<Rightarrow> True | Some k \<Rightarrow> \<not> cmp (mapped next) k > 0) }
          else Some (to = None) }"

record childResult =
  origPgno :: pgno
  newPgno :: pgno
  cr_deleted :: i64
  fully :: bool

type_synonym dr_fun = "cst \<Rightarrow> pgno \<Rightarrow> bytes option \<Rightarrow> bytes option \<Rightarrow> dr_result option"

text \<open>The children of the range: kept for bulk freeing, or searched with their part of the range.\<close>

fun dr_phase1 ::
    "dr_fun \<Rightarrow> cmp_fn \<Rightarrow> page \<Rightarrow> int \<Rightarrow> int \<Rightarrow> bytes option \<Rightarrow> bytes option \<Rightarrow> int list \<Rightarrow> childResult list \<Rightarrow> i64 \<Rightarrow> cst \<Rightarrow>
      (cst \<times> childResult list \<times> i64 \<times> goerror option) option" where
  "dr_phase1 f cmp p st en fr to [] rs tot s = Some (s, rs, tot, None)"
| "dr_phase1 f cmp p st en fr to (i # is) rs tot s =
     do { c \<leftarrow> nodeGetChildPgnoDirect p i;
          full \<leftarrow> drIsChildFullyContained p i (numEntries p) fr to cmp;
          if full then
            dr_phase1 f cmp p st en fr to is
              (rs @ [\<lparr>origPgno = c, newPgno = invalidPgno, cr_deleted = 0, fully = True\<rparr>]) tot s
          else do {
            (s, newChild, n, err) \<leftarrow> f s c (if i = st then fr else None) (if i = en then to else None);
            if err \<noteq> None then Some (s, rs, tot + n, err)
            else dr_phase1 f cmp p st en fr to is
                   (rs @ [\<lparr>origPgno = c, newPgno = newChild, cr_deleted = n, fully = False\<rparr>]) (tot + n) s } }"

definition modified :: "childResult \<Rightarrow> bool" where
  "modified r \<longleftrightarrow> fully r \<or> sint (cr_deleted r) > 0 \<or> newPgno r \<noteq> origPgno r"

fun dr_free_full ::
    "(cst \<Rightarrow> pgno \<Rightarrow> (cst \<times> i64 \<times> goerror option) option) \<Rightarrow> childResult list \<Rightarrow> i64 \<Rightarrow> cst \<Rightarrow> (cst \<times> i64 \<times> goerror option) option" where
  "dr_free_full f [] tot s = Some (s, tot, None)"
| "dr_free_full f (r # rs) tot s =
     (if \<not> fully r then dr_free_full f rs tot s
      else do { (s, n, err) \<leftarrow> f s (origPgno r);
                if err \<noteq> None then Some (s, tot + n, err) else dr_free_full f rs (tot + n) s })"

text \<open>The entries of the branch from the last child of the range to the first.\<close>

fun dr_apply :: "page \<Rightarrow> (int \<times> childResult) list \<Rightarrow> page option" where
  "dr_apply p [] = Some p"
| "dr_apply p ((i, r) # rs) =
     do { p \<leftarrow> (if fully r \<or> newPgno r = invalidPgno then map_option fst (removeEntry p i)
               else if newPgno r \<noteq> origPgno r then drUpdateBranchChildPgno p i (newPgno r)
               else Some p);
          dr_apply p rs }"

definition branch_start :: "cmp_fn \<Rightarrow> page \<Rightarrow> int \<Rightarrow> bytes option \<Rightarrow> int option" where
  "branch_start cmp p n fr = (case fr of None \<Rightarrow> Some 0 | Some k \<Rightarrow> dr_last (key_le cmp p k) 0 (n - 1))"

text \<open>\<open>Some None\<close>: no child has a key of the range.\<close>

definition branch_end :: "cmp_fn \<Rightarrow> page \<Rightarrow> int \<Rightarrow> bytes option \<Rightarrow> int option option" where
  "branch_end cmp p n to =
     (case to of
        None \<Rightarrow> Some (Some (n - 1))
      | Some k \<Rightarrow>
          do { en \<leftarrow> dr_last (key_less cmp p k) 0 (n - 1);
               b \<leftarrow> key_less cmp p k en;
               Some (if b then Some en else if en = 0 then None else Some (en - 1)) })"

definition drDeleteInBranch ::
    "world \<Rightarrow> cmp_fn \<Rightarrow> bool \<Rightarrow> nat \<Rightarrow> dr_fun \<Rightarrow> cst \<Rightarrow> pgno \<Rightarrow> bytes option \<Rightarrow> bytes option \<Rightarrow> dr_result option" where
  "drDeleteInBranch w cmp dupSort h f s pg fr to =
     do { (s, res) \<leftarrow> dr_getPage s pg;
          case res of
            Inl err \<Rightarrow> Some (s, pg, 0, Some err)
          | Inr p \<Rightarrow>
              (let n = numEntries p in
               if n = 0 then Some (s, pg, 0, None)
               else do {
                 st \<leftarrow> branch_start cmp p n fr;
                 e \<leftarrow> branch_end cmp p n to;
                 case e of
                   None \<Rightarrow> Some (s, pg, 0, None)
                 | Some en \<Rightarrow>
                     if st > en then Some (s, pg, 0, None)
                     else do {
                       (s, rs, tot, err) \<leftarrow> dr_phase1 f cmp p st en fr to [st..en] [] 0 s;
                       if err \<noteq> None then Some (s, pg, tot, err)
                       else if \<not> list_ex modified rs then Some (s, pg, tot, None)
                       else do {
                         (s, res) \<leftarrow> drCowPage w s pg;
                         case res of
                           Inl err \<Rightarrow> Some (s, pg, tot, Some err)
                         | Inr (newPg, a) \<Rightarrow>
                             do { (s, tot, err) \<leftarrow> dr_free_full (drFreeSubtreeRecursive h dupSort) rs tot s;
                                  if err \<noteq> None then Some (s, newPg, tot, err)
                                  else do {
                                    p \<leftarrow> page_of s (Ref a);
                                    p \<leftarrow> dr_apply p (rev (zip [st..en] rs));
                                    s \<leftarrow> store s (Ref a) p;
                                    if numEntries p = 0 then
                                      do { s \<leftarrow> upd_ctree less_branches (add_free [newPg] s);
                                           Some (s, invalidPgno, tot, None) }
                                    else Some (s, newPg, tot, None) } } } } }) }"

primrec drDeleteInPage :: "nat \<Rightarrow> world \<Rightarrow> cmp_fn \<Rightarrow> bool \<Rightarrow> dr_fun" where
  "drDeleteInPage 0 w cmp dupSort = (\<lambda>s pg fr to. Some (s, pg, 0, None))"
| "drDeleteInPage (Suc h) w cmp dupSort = (\<lambda>s pg fr to.
     if pg = invalidPgno then Some (s, pg, 0, None)
     else if h = 0 then drDeleteInLeaf w cmp dupSort s pg fr to
     else drDeleteInBranch w cmp dupSort h (drDeleteInPage h w cmp dupSort) s pg fr to)"

section \<open>Txn.DeleteRange\<close>

text \<open>A root with a single child goes; each round takes one level, so the height bounds the loop.\<close>

primrec dr_collapse :: "nat \<Rightarrow> cst \<Rightarrow> cst option" where
  "dr_collapse 0 = Some"
| "dr_collapse (Suc n) = (\<lambda>s.
     do { tr \<leftarrow> tree_of s;
          if Height tr \<le> 1 \<or> Root tr = invalidPgno then Some s
          else do {
            (s, res) \<leftarrow> dr_getPage s (Root tr);
            case res of
              Inl err \<Rightarrow> Some s
            | Inr p \<Rightarrow>
                do { leafp \<leftarrow> isLeaf p;
                     if leafp \<or> numEntries p \<noteq> 1 then Some s
                     else do {
                       child \<leftarrow> nodeGetChildPgnoDirect p 0;
                       s \<leftarrow> upd_ctree (\<lambda>tr. (less_branches tr)\<lparr>Root := child, Height := Height tr - 1\<rparr>) (add_free [Root tr] s);
                       dr_collapse n s } } } })"

definition dr_empty_root :: "cst \<Rightarrow> cst option" where
  "dr_empty_root s =
     do { tr \<leftarrow> tree_of s;
          if Root tr = invalidPgno then Some s
          else do {
            (s, res) \<leftarrow> dr_getPage s (Root tr);
            case res of
              Inl err \<Rightarrow> Some s
            | Inr p \<Rightarrow>
                if numEntries p \<noteq> 0 then Some s
                else do {
                  leafp \<leftarrow> isLeaf p;
                  branchp \<leftarrow> isBranch p;
                  upd_ctree (\<lambda>tr. (if leafp \<and> LeafPages tr > 0 then less_leaves tr
                                   else if branchp \<and> BranchPages tr > 0 then less_branches tr else tr)
                                  \<lparr>Root := invalidPgno, Height := 0\<rparr>) (add_free [Root tr] s) } } }"

definition dr_delete_all :: "cst \<Rightarrow> tree \<Rightarrow> (cst \<times> i64 \<times> goerror option) option" where
  "dr_delete_all s tr =
     do { s \<leftarrow> drFreeTreeRecursive (unat (Height tr)) (tFlags tr AND ucast DupSort \<noteq> 0) s (Root tr);
          s \<leftarrow> upd_ctree (\<lambda>tr. tr\<lparr>Root := invalidPgno, Height := 0, Items := 0, LeafPages := 0, BranchPages := 0, LargePages := 0,
                 ModTxnid := txnID_of (ct s)\<rparr>) s;
          Some (drMarkDbiDirty s, Items tr, None) }"

definition DeleteRange :: "world \<Rightarrow> cst \<Rightarrow> bytes option \<Rightarrow> bytes option \<Rightarrow> (cst \<times> i64 \<times> goerror option) option" where
  "DeleteRange w s fr to =
     (let t = ct s; dbi = cdbi (cc s) in
      if \<not> txn_valid t then Some (s, 0, Some (NewError ErrBadTxn))
      else if IsReadOnly t then Some (s, 0, Some (NewError ErrPermissionDenied))
      else if dbi \<ge> length (trees t) then Some (s, 0, Some (NewError ErrBadDBI))
      else if dbi = 0 then Some (s, 0, Some (NewError ErrBadDBI))
      else let tr = trees t ! dbi in
        if isEmpty tr then Some (s, 0, None)
        else if fr = None \<and> to = None then dr_delete_all s tr
        else do {
          t \<leftarrow> cacheComparator (ce s) t dbi;
          let s = s\<lparr>ct := t\<rparr>;
          cmp \<leftarrow> comparator_of t dbi;
          if fr \<noteq> None \<and> to \<noteq> None \<and> cmp (the fr) (the to) \<ge> 0 then Some (s, 0, None)
          else do {
            (s, newRoot, deleted, err) \<leftarrow>
              drDeleteInPage (unat (Height tr)) w cmp (tFlags tr AND ucast DupSort \<noteq> 0) s (Root tr) fr to;
            if err \<noteq> None then Some (s, deleted, err)
            else if newRoot = Root tr \<and> deleted = 0 then Some (s, 0, None)
            else do {
              s \<leftarrow> upd_ctree (\<lambda>tr. tr\<lparr>Root := newRoot, Items := Items tr - deleted, ModTxnid := txnID_of (ct s)\<rparr>) s;
              s \<leftarrow> dr_collapse (unat (Height tr)) (drMarkDbiDirty s);
              s \<leftarrow> dr_empty_root s;
              Some (s, deleted, None) } } })"

end
