(* ===== verification/CursorHandles.thy ===== *)
theory CursorHandles
  imports CursorOpen CursorRun
begin

text \<open>
  Cursors as objects (txn.go, cursor.go, compat.go): a cursor has an address, a signature and the
  transaction it is bound to; every transaction curLists its cursors, closed cursors wait in a global
  cache from which the next OpenCursor takes them again.
\<close>

section \<open>State\<close>

record cell =
  csig :: bool
  ctxn :: "nat option"
  ccur :: cursor

text \<open>
  A transaction is its address.  Its list of cursors is a slice: the backing array and the length.
  \<open>cachedCur\<close> are the cursors of Put and Del, one per table.
\<close>

type_synonym tslice = "nat option list \<times> nat"

record cursors =
  cells :: "cell list"
  curCache :: "nat list"
  curLists :: "nat \<Rightarrow> tslice"
  cachedCur :: "nat \<Rightarrow> nat option list"

definition slice_append :: "tslice \<Rightarrow> nat option \<Rightarrow> tslice" where
  "slice_append s x = (take (snd s) (fst s) @ [x] @ drop (Suc (snd s)) (fst s), Suc (snd s))"

definition slice_list :: "tslice \<Rightarrow> nat option list" where
  "slice_list s = take (snd s) (fst s)"

definition set_list :: "nat \<Rightarrow> tslice \<Rightarrow> cursors \<Rightarrow> cursors" where
  "set_list a l st = st\<lparr>curLists := (curLists st)(a := l)\<rparr>"

definition set_cell :: "nat \<Rightarrow> cell \<Rightarrow> cursors \<Rightarrow> cursors" where
  "set_cell p c st = st\<lparr>cells := (cells st)[p := c]\<rparr>"

definition cell_valid :: "cell \<Rightarrow> bool" where
  "cell_valid c \<longleftrightarrow> csig c \<and> ctxn c \<noteq> None"

section \<open>Opening and closing\<close>

text \<open>newCursorFromCache: an address from the end of the cache, or a new cursor.\<close>

definition take_cell :: "cursors \<Rightarrow> nat \<times> cursors" where
  "take_cell st =
     (if curCache st \<noteq> [] then (last (curCache st), st\<lparr>curCache := butlast (curCache st)\<rparr>)
      else (length (cells st), st\<lparr>cells := cells st @ [\<lparr>csig = True, ctxn = None, ccur = newCursor\<rparr>]\<rparr>))"

definition open_cell :: "env \<Rightarrow> txn \<Rightarrow> nat \<Rightarrow> nat \<Rightarrow> cursors \<Rightarrow> (cursors \<times> txn \<times> (goerror + nat)) option" where
  "open_cell e t a dbi st =
     (if \<not> txn_valid t then Some (st, t, Inl (NewError ErrBadTxn))
      else if dbi \<ge> length (trees t) then Some (st, t, Inl (NewError ErrBadDBI))
      else do {
        let (p, st) = take_cell st;
        (r, _) \<leftarrow> OpenCursor e t dbi [ccur (cells st ! p)];
        case r of
          Inl err \<Rightarrow> None
        | Inr s \<Rightarrow>
            Some (set_list a (slice_append (curLists st a) (Some p)) (set_cell p \<lparr>csig = True, ctxn = Some a, ccur = cc s\<rparr> st),
                  ct s, Inr p) })"

definition index_of :: "nat \<Rightarrow> nat option list \<Rightarrow> nat option" where
  "index_of p xs = find (\<lambda>i. xs ! i = Some p) [0..<length xs]"

text \<open>removeCursor: the last element takes the place of the first occurrence.\<close>

definition removeCursor :: "nat \<Rightarrow> nat \<Rightarrow> cursors \<Rightarrow> cursors" where
  "removeCursor a p st =
     (let (arr, n) = curLists st a in
      case index_of p (take n arr) of
        None \<Rightarrow> st
      | Some i \<Rightarrow> set_list a ((arr[i := arr ! (n - 1)])[n - 1 := None], n - 1) st)"

definition cell_unlist :: "nat \<Rightarrow> cursors \<Rightarrow> cursors" where
  "cell_unlist p st = (case ctxn (cells st ! p) of Some a \<Rightarrow> removeCursor a p st | None \<Rightarrow> st)"

definition cache_cell :: "nat \<Rightarrow> cursors \<Rightarrow> cursors" where
  "cache_cell p st = (if length (curCache st) < cursorCacheCap then st\<lparr>curCache := curCache st @ [p]\<rparr> else st)"

text \<open>Cursor.Close with returnCursor; the address is not nil.\<close>

definition closeCursor :: "(nat \<Rightarrow> bytes) \<Rightarrow> (nat \<Rightarrow> bytes) \<Rightarrow> nat \<Rightarrow> cursors \<Rightarrow> cursors" where
  "closeCursor bufs subBufs p st =
     (if \<not> csig (cells st ! p) then st
      else let st = cell_unlist p st
           in cache_cell p (set_cell p \<lparr>csig = False, ctxn = None,
                ccur = hd (returnCursor bufs subBufs [] (ccur (cells st ! p)))\<rparr> st))"

definition closeAllCursors :: "nat \<Rightarrow> cursors \<Rightarrow> cursors" where
  "closeAllCursors a st =
     (let ps = slice_list (curLists st a) in
      st\<lparr>cells := map (\<lambda>i. if Some i \<in> set ps then (cells st ! i)\<lparr>csig := False, ctxn := None\<rparr> else cells st ! i) [0..<length (cells st)],
         curLists := (curLists st)(a := ([], 0)), cachedCur := (cachedCur st)(a := [])\<rparr>)"

section \<open>Binding\<close>

definition bind_cell :: "txn \<Rightarrow> nat \<Rightarrow> nat \<Rightarrow> nat \<Rightarrow> cursors \<Rightarrow> cursors \<times> goerror option" where
  "bind_cell t a dbi p st =
     (if \<not> txn_valid t then (st, Some (NewError ErrBadTxn))
      else if dbi \<ge> length (trees t) then (st, Some (NewError ErrBadDBI))
      else let c = cells st ! p in
        (set_list a (slice_append (curLists st a) (Some p)) (set_cell p
           \<lparr>csig = True, ctxn = Some a, ccur = (ccur c)\<lparr>cdbi := dbi, state := cursorUninitialized, top_ix := - 1, dirtyMask := 0\<rparr>\<rparr> st), None))"

definition renew_cell :: "txn \<Rightarrow> nat \<Rightarrow> nat \<Rightarrow> cursors \<Rightarrow> cursors \<times> goerror option" where
  "renew_cell t a p st =
     (if \<not> txn_valid t then (st, Some (NewError ErrBadTxn))
      else if txnFlags t AND ucast TxnReadOnly = 0 then (st, Some (NewError ErrIncompatible))
      else bind_cell t a (cdbi (ccur (cells st ! p))) p st)"

definition unbind_cell :: "nat \<Rightarrow> cursors \<Rightarrow> cursors" where
  "unbind_cell p st =
     (let st = cell_unlist p st; c = cells st ! p
      in set_cell p (c\<lparr>ctxn := None, ccur := (ccur c)\<lparr>state := cursorUninitialized, top_ix := - 1, dirtyMask := 0\<rparr>\<rparr>) st)"

text \<open>
  ReleaseAllCursors: the loop reads the elements of the slice it started with, while closing or
  unbinding a cursor moves elements inside the same array.
\<close>

fun release_loop :: "(nat \<Rightarrow> bytes) \<Rightarrow> (nat \<Rightarrow> bytes) \<Rightarrow> bool \<Rightarrow> nat \<Rightarrow> nat list \<Rightarrow> cursors \<Rightarrow> cursors" where
  "release_loop bufs subBufs unbind a [] st = st"
| "release_loop bufs subBufs unbind a (i # is) st =
     release_loop bufs subBufs unbind a is
       (case fst (curLists st a) ! i of
          None \<Rightarrow> st
        | Some p \<Rightarrow> if unbind then unbind_cell p st else closeCursor bufs subBufs p st)"

definition ReleaseAllCursors :: "(nat \<Rightarrow> bytes) \<Rightarrow> (nat \<Rightarrow> bytes) \<Rightarrow> bool \<Rightarrow> nat \<Rightarrow> cursors \<Rightarrow> cursors" where
  "ReleaseAllCursors bufs subBufs unbind a st =
     (let st = release_loop bufs subBufs unbind a [0..<snd (curLists st a)] st
      in set_list a (fst (curLists st a), 0) st)"

section \<open>The cursors of Put and Del\<close>

definition getCachedCursor :: "env \<Rightarrow> txn \<Rightarrow> nat \<Rightarrow> nat \<Rightarrow> cursors \<Rightarrow> (cursors \<times> txn \<times> (goerror + nat)) option" where
  "getCachedCursor e t a dbi st =
     (let old = cachedCur st a;
          cs = (if dbi \<ge> length old then old @ replicate (dbi + 1 - length old) None else old);
          st = st\<lparr>cachedCur := (cachedCur st)(a := cs)\<rparr>
      in case cs ! dbi of
           Some p \<Rightarrow> Some (st, t, Inr p)
         | None \<Rightarrow>
             do { (st, t, r) \<leftarrow> open_cell e t a dbi st;
                  case r of
                    Inl err \<Rightarrow> Some (st, t, Inl err)
                  | Inr p \<Rightarrow> Some (st\<lparr>cachedCur := (cachedCur st)(a := (cachedCur st a)[dbi := Some p])\<rparr>, t, Inr p) })"

section \<open>A bound cursor is in the list of its transaction\<close>

definition listed :: "cursors \<Rightarrow> bool" where
  "listed st \<longleftrightarrow> (\<forall>p < length (cells st). \<forall>a. ctxn (cells st ! p) = Some a \<longrightarrow> Some p \<in> set (slice_list (curLists st a)))"

definition handles_ok :: "cursors \<Rightarrow> bool" where
  "handles_ok st \<longleftrightarrow> listed st \<and> (\<forall>p \<in> set (curCache st). p < length (cells st)) \<and>
     (\<forall>a. snd (curLists st a) \<le> length (fst (curLists st a)))"

text \<open>What a program can do with its cursors, closing a transaction included.\<close>

inductive handle_step :: "cursors \<Rightarrow> cursors \<Rightarrow> bool" where
  Open: "open_cell e t a dbi st = Some (st', t', r) \<Longrightarrow> handle_step st st'"
| Cached: "getCachedCursor e t a dbi st = Some (st', t', r) \<Longrightarrow> handle_step st st'"
| Close: "p < length (cells st) \<Longrightarrow> handle_step st (closeCursor bufs subBufs p st)"
| Bind: "p < length (cells st) \<Longrightarrow> bind_cell t a dbi p st = (st', r) \<Longrightarrow> handle_step st st'"
| Renew: "p < length (cells st) \<Longrightarrow> renew_cell t a p st = (st', r) \<Longrightarrow> handle_step st st'"
| Unbind: "p < length (cells st) \<Longrightarrow> handle_step st (unbind_cell p st)"
| CloseAll: "handle_step st (closeAllCursors a st)"

inductive_cases handle_stepE: "handle_step st st'"

definition no_cursors :: cursors where
  "no_cursors = \<lparr>cells = [], curCache = [], curLists = (\<lambda>a. ([], 0)), cachedCur = (\<lambda>a. [])\<rparr>"

inductive handles_reach :: "cursors \<Rightarrow> bool" where
  init: "handles_reach no_cursors"
| step: "handles_reach st \<Longrightarrow> handle_step st st' \<Longrightarrow> handles_reach st'"

lemma slice_append_list:
  "snd s \<le> length (fst s) \<Longrightarrow> slice_list (slice_append s x) = slice_list s @ [x]"
  "snd s \<le> length (fst s) \<Longrightarrow> snd (slice_append s x) \<le> length (fst (slice_append s x))"
  by (simp_all add: slice_append_def slice_list_def)

lemma handles_okI:
  assumes "\<And>p a. p < length (cells st) \<Longrightarrow> ctxn (cells st ! p) = Some a \<Longrightarrow> Some p \<in> set (slice_list (curLists st a))"
    "\<And>p. p \<in> set (curCache st) \<Longrightarrow> p < length (cells st)" "\<And>a. snd (curLists st a) \<le> length (fst (curLists st a))"
  shows "handles_ok st"
  using assms by (simp add: handles_ok_def listed_def)

lemma handles_okD:
  assumes "handles_ok st"
  shows "p < length (cells st) \<Longrightarrow> ctxn (cells st ! p) = Some a \<Longrightarrow> Some p \<in> set (slice_list (curLists st a))"
    "p \<in> set (curCache st) \<Longrightarrow> p < length (cells st)" "snd (curLists st a) \<le> length (fst (curLists st a))"
  using assms by (simp_all add: handles_ok_def listed_def)

text \<open>Adding a cursor to a list, and putting it into its cell.\<close>

lemma bind_ok:
  assumes "handles_ok st" "p < length (cells st)"
  shows "handles_ok (set_list a (slice_append (curLists st a) (Some p)) (set_cell p \<lparr>csig = b, ctxn = Some a, ccur = c\<rparr> st))"
  using handles_okD [OF assms(1)] slice_append_list [OF handles_okD(3) [OF assms(1), of a]] assms(2)
  by (intro handles_okI) (auto simp: set_list_def set_cell_def nth_list_update split: if_splits)

lemma take_cell_ok:
  assumes "handles_ok st" "take_cell st = (p, st')"
  shows "handles_ok st'" "p < length (cells st')" "curLists st' = curLists st" "cachedCur st' = cachedCur st"
proof -
  note d = handles_okD [OF assms(1)]
  show "curLists st' = curLists st" "cachedCur st' = cachedCur st" using assms(2) by (auto simp: take_cell_def split: if_splits)
  show "p < length (cells st')" using assms(2) d(2) by (auto simp: take_cell_def split: if_splits)
  show "handles_ok st'"
    using assms(2) d(1,3) d(2) [OF in_set_butlastD]
    by (intro handles_okI) (auto simp: take_cell_def nth_append less_Suc_eq split: if_splits)
qed

lemma open_cell_ok:
  assumes "handles_ok st" "open_cell e t a dbi st = Some (st', t', r)"
  shows "handles_ok st'"
proof (cases "txn_valid t \<and> dbi < length (trees t)")
  case True
  obtain p st1 where p: "take_cell st = (p, st1)" by force
  note tk = take_cell_ok [OF assms(1) p]
  from assms(2) True p obtain r0 b where "OpenCursor e t dbi [ccur (cells st1 ! p)] = Some (r0, b)"
    by (cases "OpenCursor e t dbi [ccur (cells st1 ! p)]") (auto simp: open_cell_def)
  then show ?thesis using assms(2) True p bind_ok [OF tk(1,2)] by (cases r0) (auto simp: open_cell_def)
next
  case False
  then show ?thesis using assms by (auto simp: open_cell_def split: if_splits)
qed

lemma index_of_Some: "index_of p xs = Some i \<Longrightarrow> i < length xs \<and> xs ! i = Some p"
  by (auto simp: index_of_def find_Some_iff)

lemma removeCursor_ok:
  assumes "handles_ok st"
  shows "cells (removeCursor a p st) = cells st" "curCache (removeCursor a p st) = curCache st"
    "snd (curLists (removeCursor a p st) b) \<le> length (fst (curLists (removeCursor a p st) b))"
    "Some q \<in> set (slice_list (curLists st b)) \<Longrightarrow> q \<noteq> p \<Longrightarrow> Some q \<in> set (slice_list (curLists (removeCursor a p st) b))"
proof -
  obtain arr n where l: "curLists st a = (arr, n)" by force
  have n: "n \<le> length arr" using handles_okD(3) [OF assms, of a] l by simp
  show "cells (removeCursor a p st) = cells st" "curCache (removeCursor a p st) = curCache st"
    by (simp_all add: removeCursor_def l set_list_def split: option.splits)
  show "snd (curLists (removeCursor a p st) b) \<le> length (fst (curLists (removeCursor a p st) b))"
    using n handles_okD(3) [OF assms, of b] by (auto simp: removeCursor_def l set_list_def split: option.splits)
  show "Some q \<in> set (slice_list (curLists (removeCursor a p st) b))" if q: "Some q \<in> set (slice_list (curLists st b))" "q \<noteq> p"
  proof (cases "index_of p (take n arr)")
    case None
    then show ?thesis using q by (simp add: removeCursor_def l)
  next
    case (Some i)
    from index_of_Some [OF this] have i: "i < n" "arr ! i = Some p" using n by auto
    have "Some q \<in> set (take (n - 1) ((arr[i := arr ! (n - 1)])[n - 1 := None]))" if b: "Some q \<in> set (take n arr)"
    proof -
      from b obtain j where j: "j < n" "arr ! j = Some q" using n by (auto simp: in_set_conv_nth)
      then have "j \<noteq> i" using i q(2) by auto
      then have "(if j = n - 1 then i else j) < n - 1" "(arr[i := arr ! (n - 1)]) ! (if j = n - 1 then i else j) = Some q"
        using i j n by auto
      then have "\<exists>k < n - 1. (arr[i := arr ! (n - 1)]) ! k = Some q" by blast
      then show ?thesis using n by (force simp: in_set_conv_nth)
    qed
    then show ?thesis using q Some by (auto simp: removeCursor_def l set_list_def slice_list_def)
  qed
qed

text \<open>A cursor that gives up its transaction.\<close>

lemma release_ok:
  assumes "handles_ok st" "p < length (cells st)" "ctxn c = None"
  shows "handles_ok (set_cell p c (cell_unlist p st))"
proof (rule handles_okI)
  let ?st = "set_cell p c (cell_unlist p st)"
  note d = handles_okD [OF assms(1)]
  have cs: "cells ?st = (cells st)[p := c]" "curCache ?st = curCache st" "curLists ?st = curLists (cell_unlist p st)"
    using removeCursor_ok(1,2) [OF assms(1)] by (auto simp: set_cell_def cell_unlist_def split: option.splits)
  show "q < length (cells ?st)" if "q \<in> set (curCache ?st)" for q using that d(2) by (simp add: cs)
  show "snd (curLists ?st a) \<le> length (fst (curLists ?st a))" for a
    unfolding cs(3) using removeCursor_ok(3) [OF assms(1)] d(3) by (simp add: cell_unlist_def split: option.splits)
  show "Some q \<in> set (slice_list (curLists ?st a))" if "q < length (cells ?st)" "ctxn (cells ?st ! q) = Some a" for q a
  proof -
    have q: "q \<noteq> p" "ctxn (cells st ! q) = Some a" "q < length (cells st)" using that assms(2,3) by (auto simp: cs nth_list_update split: if_splits)
    show ?thesis unfolding cs(3) using d(1) [OF q(3,2)] removeCursor_ok(4) [OF assms(1) _ q(1)]
      by (simp add: cell_unlist_def split: option.splits)
  qed
qed

lemma close_ok: "handles_ok st \<Longrightarrow> p < length (cells st) \<Longrightarrow> handles_ok (closeCursor bufs subBufs p st)"
proof -
  assume a: "handles_ok st" "p < length (cells st)"
  have l: "length (cells (set_cell p c (cell_unlist p st))) = length (cells st)" for c
    using removeCursor_ok(1) [OF a(1)] by (simp add: set_cell_def cell_unlist_def split: option.splits)
  have "handles_ok (cache_cell p s)" if "handles_ok s" "p < length (cells s)" for s
    using that by (auto simp: cache_cell_def handles_ok_def listed_def)
  from this [OF release_ok [OF a]] show ?thesis using a l by (simp add: closeCursor_def Let_def)
qed

lemma unbind_ok: "handles_ok st \<Longrightarrow> p < length (cells st) \<Longrightarrow> handles_ok (unbind_cell p st)"
  by (simp add: unbind_cell_def Let_def release_ok)

lemma bind_cell_ok: "handles_ok st \<Longrightarrow> p < length (cells st) \<Longrightarrow> bind_cell t a dbi p st = (st', r) \<Longrightarrow> handles_ok st'"
  by (auto simp: bind_cell_def Let_def bind_ok split: if_splits)

lemma closeAll_ok: "handles_ok st \<Longrightarrow> handles_ok (closeAllCursors a st)"
  by (rule handles_okI) (auto simp: closeAllCursors_def Let_def handles_ok_def listed_def split: if_splits)

lemma cached_same: "handles_ok (st\<lparr>cachedCur := x\<rparr>) = handles_ok st"
  by (simp add: handles_ok_def listed_def)

lemma getCachedCursor_ok:
  assumes "handles_ok st" "getCachedCursor e t a dbi st = Some (st', t', r)"
  shows "handles_ok st'"
proof -
  let ?cs = "if dbi \<ge> length (cachedCur st a) then cachedCur st a @ replicate (dbi + 1 - length (cachedCur st a)) None else cachedCur st a"
  let ?st = "st\<lparr>cachedCur := (cachedCur st)(a := ?cs)\<rparr>"
  have ok: "handles_ok ?st" using assms(1) by (simp add: cached_same)
  show ?thesis
  proof (cases "?cs ! dbi")
    case None
    with assms(2) obtain st1 t1 r1 where o: "open_cell e t a dbi ?st = Some (st1, t1, r1)"
      "(case r1 of Inl err \<Rightarrow> st' = st1
         | Inr p \<Rightarrow> st' = st1\<lparr>cachedCur := (cachedCur st1)(a := (cachedCur st1 a)[dbi := Some p])\<rparr>)"
      unfolding getCachedCursor_def Let_def by (fastforce simp: bind_eq_Some_conv split: sum.splits)
    then show ?thesis using open_cell_ok [OF ok o(1)] by (auto simp: cached_same split: sum.splits)
  next
    case (Some p)
    with assms(2) have "st' = ?st" unfolding getCachedCursor_def Let_def by simp
    then show ?thesis using ok by simp
  qed
qed

lemma handle_step_ok:
  assumes "handle_step st st'" "handles_ok st"
  shows "handles_ok st'"
  using assms
proof cases
  case (Renew p t a r)
  then show ?thesis using assms(2) by (auto simp: renew_cell_def bind_cell_ok split: if_splits)
qed (auto intro: open_cell_ok getCachedCursor_ok close_ok bind_cell_ok unbind_ok closeAll_ok assms(2))

lemma handles_reach_ok: "handles_reach st \<Longrightarrow> handles_ok st"
proof (induction rule: handles_reach.induct)
  case init
  then show ?case by (simp add: no_cursors_def handles_ok_def listed_def)
qed (rule handle_step_ok)

section \<open>The properties\<close>

lemma closeAll_bound: "handles_ok st \<Longrightarrow> p < length (cells st) \<Longrightarrow> ctxn (cells (closeAllCursors a st) ! p) \<noteq> Some a"
  using handles_okD(1) [of st p a] by (auto simp: closeAllCursors_def Let_def)

text \<open>C31: the end of a transaction ends its cursors: whatever a program did with its cursors (opening, closing,
  caching for Put and Del, binding, renewing, unbinding), closeAllCursors leaves no cursor bound to the
  transaction, and the ones it had are invalid.\<close>

theorem cursors_end_with_txn:
  assumes "handles_reach st" "p < length (cells st)" "ctxn (cells st ! p) = Some a"
  shows "\<not> cell_valid (cells (closeAllCursors a st) ! p) \<and> (\<forall>q < length (cells st). ctxn (cells (closeAllCursors a st) ! q) \<noteq> Some a)"
  using assms closeAll_bound [OF handles_reach_ok] handles_okD(1) [OF handles_reach_ok]
  by (auto simp: closeAllCursors_def Let_def cell_valid_def)

theorem cursors_end_with_txn_witness:
  "\<exists>st t p. open_cell sample_env iter_txn 7 2 no_cursors = Some (st, t, Inr p) \<and> cell_valid (cells st ! p) \<and>
    \<not> cell_valid (cells (closeAllCursors 7 st) ! p)"
proof -
  obtain s b where o: "OpenCursor sample_env iter_txn 2 [newCursor] = Some (Inr s, b)"
    using iter_txn_facts(2,4) by (simp add: OpenCursor_def newCursorFromCache_def iter_txn_def)
  define st where "st = set_list 7 ([Some 0], 1) (no_cursors\<lparr>cells := [\<lparr>csig = True, ctxn = Some 7, ccur = cc s\<rparr>]\<rparr>)"
  have op: "open_cell sample_env iter_txn 7 2 no_cursors = Some (st, ct s, Inr 0)"
    using o iter_txn_facts(2)
    by (simp add: open_cell_def take_cell_def no_cursors_def iter_txn_def slice_append_def set_list_def set_cell_def st_def)
  then have "handles_reach st" by (rule handles_reach.step [OF handles_reach.init handle_step.Open])
  from cursors_end_with_txn [OF this, of 0 7] op show ?thesis
    by (auto simp: st_def set_list_def no_cursors_def cell_valid_def)
qed

text \<open>Two cursors of transaction 7.\<close>

definition two_open :: "cursors" where
  "two_open = \<lparr>cells = [\<lparr>csig = True, ctxn = Some 7, ccur = newCursor\<rparr>, \<lparr>csig = True, ctxn = Some 7, ccur = newCursor\<rparr>],
     curCache = [], curLists = (\<lambda>a. ([], 0))(7 := ([Some 0, Some 1], 2)), cachedCur = (\<lambda>a. [])\<rparr>"

text \<open>ReleaseAllCursors skips cursors: closing one moves the last one of the list to its place, behind the
  loop.  Of two cursors the second stays valid and bound to the transaction, which no longer lists it, so
  the end of the transaction does not reach it.\<close>

theorem release_all_skips:
  "cell_valid (cells (closeAllCursors 7 (ReleaseAllCursors bufs subBufs unbind 7 two_open)) ! 1) \<and>
   slice_list (curLists (ReleaseAllCursors bufs subBufs unbind 7 two_open) 7) = []"
  by (cases unbind) (simp_all add: ReleaseAllCursors_def two_open_def upt_rec closeCursor_def cell_unlist_def removeCursor_def
    index_of_def set_list_def set_cell_def cache_cell_def cursorCacheCap_def closeAllCursors_def cell_valid_def slice_list_def
    unbind_cell_def Let_def)

end
