(* ===== verification/LockFile.thy ===== *)
theory LockFile
  imports Errors SlotPool
begin

text \<open>
  The lock file of lock.go: the reader slots in the shared mapping, their acquisition through the
  free list or a scan, their release, the oldest reader, and the writer lock.  A pointer to a slot is
  its index.  Results of the operating system are parameters.  The second half takes acquire and
  release apart into their atomic accesses, as a step relation on threads that share the slots.
\<close>

section \<open>State\<close>

record readerSlot =
  rs_txnid :: u64
  rs_tid :: u64
  rs_pid :: u32
  snapshotPagesUsed :: u32
  snapshotPagesRetired :: u64

record lockHeader =
  magicAndVersion :: u64
  osFormat :: u32
  envMode :: u32
  autosyncThreshold :: u32
  metaSyncTxnID :: u32
  autosyncPeriod :: u64
  baitUniqueness :: u64
  mlockCount :: "u32 \<times> u32"
  cachedOldest :: u64
  eoosTimestamp :: u64
  unsyncVolume :: u64
  numReaders :: u32
  readersRefreshFlag :: u32

record lockFile =
  lf_file :: bool
  lf_mapped :: bool
  lf_header :: lockHeader
  lf_slots :: "readerSlot list"
  lf_maxReaders :: int
  writerLock :: bool
  lockless :: bool
  freeSlots :: "int list"

definition lockMagic :: u64 where "lockMagic = push_bit 8 0x59659DBDEF4C11 + 6"
definition defaultMaxReaders :: int where "defaultMaxReaders = 126"
definition readerSlotSize :: nat where "readerSlotSize = 32"
definition lockHeaderSize :: nat where "lockHeaderSize = 256"

definition free_slot :: readerSlot where
  "free_slot = \<lparr>rs_txnid = 0, rs_tid = 0, rs_pid = 0, snapshotPagesUsed = 0, snapshotPagesRetired = 0\<rparr>"

definition new_header :: lockHeader where
  "new_header = \<lparr>magicAndVersion = lockMagic, osFormat = 0, envMode = 0, autosyncThreshold = 0, metaSyncTxnID = 0,
     autosyncPeriod = 0, baitUniqueness = 0, mlockCount = (0, 0), cachedOldest = 0, eoosTimestamp = 0, unsyncVolume = 0,
     numReaders = 0, readersRefreshFlag = 0\<rparr>"

definition lockError :: "string \<Rightarrow> goerror option \<Rightarrow> goerror" where
  "lockError opn err = (case err of Some e \<Rightarrow> Wraps (''lock: '' @ opn) e | None \<Rightarrow> Plain (''lock: '' @ opn))"

definition errLockFileTooSmall :: goerror where "errLockFileTooSmall = lockError ''lock file too small'' None"
definition errLockInvalidFile :: goerror where "errLockInvalidFile = lockError ''invalid lock file'' None"
definition errLockReadersFull :: goerror where "errLockReadersFull = lockError ''reader slots full'' None"

section \<open>The memory layout\<close>

text \<open>The structs as they lie in memory, 176 and 32 bytes with the natural alignment.\<close>

definition header_bytes :: "lockHeader \<Rightarrow> bytes" where
  "header_bytes h =
     enc64 (magicAndVersion h) @ enc32 (osFormat h) @ enc32 (envMode h) @ enc32 (autosyncThreshold h) @
     enc32 (metaSyncTxnID h) @ enc64 (autosyncPeriod h) @ enc64 (baitUniqueness h) @ enc32 (fst (mlockCount h)) @
     enc32 (snd (mlockCount h)) @ replicate 64 0 @ enc64 (cachedOldest h) @ enc64 (eoosTimestamp h) @
     enc64 (unsyncVolume h) @ replicate 32 0 @ enc32 (numReaders h) @ enc32 (readersRefreshFlag h)"

definition lock_header_at :: "bytes \<Rightarrow> lockHeader" where
  "lock_header_at d = \<lparr>magicAndVersion = g64 d 0, osFormat = g32 d 8, envMode = g32 d 12, autosyncThreshold = g32 d 16,
     metaSyncTxnID = g32 d 20, autosyncPeriod = g64 d 24, baitUniqueness = g64 d 32, mlockCount = (g32 d 40, g32 d 44),
     cachedOldest = g64 d 112, eoosTimestamp = g64 d 120, unsyncVolume = g64 d 128, numReaders = g32 d 168,
     readersRefreshFlag = g32 d 172\<rparr>"

definition reader_at :: "bytes \<Rightarrow> nat \<Rightarrow> readerSlot" where
  "reader_at d i = (let o32 = lockHeaderSize + i * readerSlotSize in
     \<lparr>rs_txnid = g64 d o32, rs_tid = g64 d (o32 + 8), rs_pid = g32 d (o32 + 16), snapshotPagesUsed = g32 d (o32 + 20),
      snapshotPagesRetired = g64 d (o32 + 24)\<rparr>)"

section \<open>Opening and closing\<close>

record lockOS =
  osOpen :: "goerror option"
  osOpenRO :: "goerror option"
  osStat :: "goerror option"
  osTruncate :: "goerror option"
  osWriteAt :: "goerror option"
  osSync :: "goerror option"
  osStatMap :: "goerror option"
  osMmap :: "goerror option"
  strayBytes :: bytes

definition openLockFileReadOnly :: "lockOS \<Rightarrow> int \<Rightarrow> lockFile" where
  "openLockFileReadOnly os maxReaders =
     (let n = (if maxReaders \<le> 0 then defaultMaxReaders else maxReaders) in
      \<lparr>lf_file = (osOpenRO os = None), lf_mapped = False, lf_header = new_header, lf_slots = replicate (nat n) free_slot,
       lf_maxReaders = n, writerLock = False, lockless = True, freeSlots = []\<rparr>)"

text \<open>
  The header is written as 256 bytes starting at a struct of 176: the last 80 bytes are whatever
  lies behind the struct in memory.
\<close>

definition initialize :: "lockOS \<Rightarrow> nat \<Rightarrow> bytes \<Rightarrow> bytes \<times> goerror option" where
  "initialize os n file =
     (if osTruncate os \<noteq> None then (file, osTruncate os)
      else
        let file = take n (file @ replicate n 0) in
        if osWriteAt os \<noteq> None then (file, osWriteAt os)
        else (blit file 0 (take lockHeaderSize (header_bytes new_header @ strayBytes os)), osSync os))"

definition lock_mmap :: "lockOS \<Rightarrow> bytes \<Rightarrow> lockFile \<Rightarrow> (goerror + lockFile) option" where
  "lock_mmap os file lf =
     (if osStatMap os \<noteq> None then Some (Inl (the (osStatMap os)))
      else if osMmap os \<noteq> None then Some (Inl (the (osMmap os)))
      else if length file \<le> lockHeaderSize then None
      else
        let numSlots = min (int ((length file - lockHeaderSize) div readerSlotSize)) (lf_maxReaders lf) in
        Some (Inr (lf\<lparr>lf_mapped := True, lf_header := lock_header_at file, lf_slots := map (reader_at file) [0..<nat numSlots]\<rparr>)))"

definition openLockFile :: "lockOS \<Rightarrow> bytes \<Rightarrow> int \<Rightarrow> bool \<Rightarrow> (bytes \<times> (goerror + lockFile)) option" where
  "openLockFile os file maxReaders create =
     (let n = (if maxReaders \<le> 0 then defaultMaxReaders else maxReaders);
          expected = lockHeaderSize + nat n * readerSlotSize;
          lf = \<lparr>lf_file = True, lf_mapped = False, lf_header = new_header, lf_slots = [], lf_maxReaders = n,
                writerLock = False, lockless = False, freeSlots = []\<rparr>
      in
      case osOpen os of
        Some e \<Rightarrow> Some (file, if create then Inl e else Inr (openLockFileReadOnly os n))
      | None \<Rightarrow>
          if osStat os \<noteq> None then Some (file, Inl (the (osStat os)))
          else
            let (file', err) = (if file = [] \<and> create then initialize os expected file else (file, None)) in
            if err \<noteq> None then Some (file', Inl (the err))
            else if \<not> (file = [] \<and> create) \<and> length file < expected then Some (file', Inr (openLockFileReadOnly os n))
            else
              do { r \<leftarrow> lock_mmap os file' lf;
                   Some (file', case r of
                     Inl e \<Rightarrow> Inl e
                   | Inr lf \<Rightarrow> if magicAndVersion (lf_header lf) \<noteq> lockMagic then Inl errLockInvalidFile else Inr lf) })"

section \<open>The writer lock\<close>

datatype flockResult = FlockOk | FlockWouldBlock goerror | FlockFailed goerror

fun flock_error :: "flockResult \<Rightarrow> goerror option" where
  "flock_error FlockOk = None"
| "flock_error (FlockWouldBlock e) = Some e"
| "flock_error (FlockFailed e) = Some e"

definition lockWriter :: "flockResult \<Rightarrow> lockFile \<Rightarrow> lockFile \<times> goerror option" where
  "lockWriter r lf =
     (case flock_error r of
        Some e \<Rightarrow> (lf, Some (lockError ''acquire writer lock'' (Some e)))
      | None \<Rightarrow> (lf\<lparr>writerLock := True\<rparr>, None))"

definition tryLockWriter :: "flockResult \<Rightarrow> lockFile \<Rightarrow> lockFile \<times> bool \<times> goerror option" where
  "tryLockWriter r lf =
     (case r of
        FlockOk \<Rightarrow> (lf\<lparr>writerLock := True\<rparr>, True, None)
      | FlockWouldBlock e \<Rightarrow> (lf, False, None)
      | FlockFailed e \<Rightarrow> (lf, False, Some (lockError ''try writer lock'' (Some e))))"

definition unlockWriter :: "flockResult \<Rightarrow> lockFile \<Rightarrow> lockFile \<times> goerror option" where
  "unlockWriter r lf =
     (if \<not> writerLock lf then (lf, None)
      else case flock_error r of
        Some e \<Rightarrow> (lf, Some (lockError ''release writer lock'' (Some e)))
      | None \<Rightarrow> (lf\<lparr>writerLock := False\<rparr>, None))"

definition lock_close :: "goerror option \<Rightarrow> flockResult \<Rightarrow> goerror option \<Rightarrow> lockFile \<Rightarrow> lockFile \<times> goerror option" where
  "lock_close munmap unlock fclose lf =
     (if lf_mapped lf \<and> munmap \<noteq> None then (lf, munmap)
      else
        let lf = lf\<lparr>lf_mapped := False\<rparr>;
            lf = (if writerLock lf then fst (unlockWriter unlock lf) else lf)
        in (lf, if lf_file lf then fclose else None))"

section \<open>Reader slots\<close>

definition hasActiveReaders :: "lockFile \<Rightarrow> bool" where
  "hasActiveReaders lf \<longleftrightarrow> list_ex (\<lambda>s. rs_txnid s \<noteq> 0) (lf_slots lf)"

definition claim_slot :: "u32 \<Rightarrow> u64 \<Rightarrow> readerSlot \<Rightarrow> readerSlot" where
  "claim_slot pid tid s = s\<lparr>rs_txnid := - 1, rs_pid := pid, rs_tid := tid\<rparr>"

text \<open>The scan of the slow path, from a given index on.\<close>

fun scan_slots :: "nat \<Rightarrow> readerSlot list \<Rightarrow> nat option" where
  "scan_slots i [] = None"
| "scan_slots i (s # ss) = (if rs_txnid s = 0 then Some i else scan_slots (Suc i) ss)"

definition acquireReaderSlot :: "u32 \<Rightarrow> u64 \<Rightarrow> lockFile \<Rightarrow> (lockFile \<times> (goerror + nat)) option" where
  "acquireReaderSlot pid tid lf =
     (let slow = (\<lambda>lf. case scan_slots 0 (lf_slots lf) of
             Some i \<Rightarrow> (lf\<lparr>lf_slots := (lf_slots lf)[i := claim_slot pid tid (lf_slots lf ! i)]\<rparr>, Inr i)
           | None \<Rightarrow> (lf, Inl errLockReadersFull))
      in
      if freeSlots lf \<noteq> [] then
        let idx = last (freeSlots lf); lf = lf\<lparr>freeSlots := butlast (freeSlots lf)\<rparr> in
        if idx < 0 \<or> idx \<ge> int (length (lf_slots lf)) then None
        else if rs_txnid (lf_slots lf ! nat idx) = 0 then
          Some (lf\<lparr>lf_slots := (lf_slots lf)[nat idx := claim_slot pid tid (lf_slots lf ! nat idx)]\<rparr>, Inr (nat idx))
        else Some (slow lf)
      else Some (slow lf))"

definition int32 :: "nat \<Rightarrow> int" where "int32 n = sint (of_nat n :: u32)"

definition releaseReaderSlot :: "nat \<Rightarrow> lockFile \<Rightarrow> lockFile option" where
  "releaseReaderSlot i lf =
     (if i < length (lf_slots lf) then
        Some (lf\<lparr>lf_slots := (lf_slots lf)[i := (lf_slots lf ! i)\<lparr>rs_txnid := 0, rs_tid := 0, rs_pid := 0\<rparr>],
                 freeSlots := freeSlots lf @ [int32 i]\<rparr>)
      else None)"

definition setReaderTxnid :: "nat \<Rightarrow> u64 \<Rightarrow> lockFile \<Rightarrow> lockFile option" where
  "setReaderTxnid i v lf =
     (if i < length (lf_slots lf) then Some (lf\<lparr>lf_slots := (lf_slots lf)[i := (lf_slots lf ! i)\<lparr>rs_txnid := v\<rparr>]\<rparr>)
      else None)"

definition oldest_of :: "readerSlot list \<Rightarrow> u64" where
  "oldest_of ss = foldl (\<lambda>oldest s. if rs_txnid s > 0 \<and> rs_txnid s < oldest \<and> rs_txnid s \<noteq> - 1 then rs_txnid s else oldest) (- 1) ss"

definition oldestReader :: "lockFile \<Rightarrow> lockFile \<times> u64" where
  "oldestReader lf =
     (let oldest = oldest_of (lf_slots lf) in (lf\<lparr>lf_header := (lf_header lf)\<lparr>cachedOldest := oldest\<rparr>\<rparr>, oldest))"

definition cachedOldestReader :: "lockFile \<Rightarrow> u64" where
  "cachedOldestReader lf = cachedOldest (lf_header lf)"

definition numActiveReaders :: "lockFile \<Rightarrow> nat" where
  "numActiveReaders lf = length (filter (\<lambda>s. rs_txnid s > 0 \<and> rs_txnid s \<noteq> - 1) (lf_slots lf))"

definition is_stale :: "(u32 \<Rightarrow> bool) \<Rightarrow> u32 \<Rightarrow> readerSlot \<Rightarrow> bool" where
  "is_stale processExists myPID s \<longleftrightarrow>
     \<not> (rs_txnid s = 0 \<or> rs_txnid s = - 1) \<and> \<not> (rs_pid s = 0 \<or> rs_pid s = myPID) \<and> \<not> processExists (rs_pid s)"

definition cleanupStaleReaders :: "(u32 \<Rightarrow> bool) \<Rightarrow> u32 \<Rightarrow> lockFile \<Rightarrow> lockFile \<times> nat" where
  "cleanupStaleReaders processExists myPID lf =
     (lf\<lparr>lf_slots := map (\<lambda>s. if is_stale processExists myPID s then s\<lparr>rs_txnid := 0\<rparr> else s) (lf_slots lf)\<rparr>,
      length (filter (is_stale processExists myPID) (lf_slots lf)))"

section \<open>Sequential behaviour\<close>

definition held_slots :: "lockFile \<Rightarrow> nat set" where
  "held_slots lf = {i. i < length (lf_slots lf) \<and> rs_txnid (lf_slots lf ! i) \<noteq> 0}"

definition lock_inv :: "lockFile \<Rightarrow> bool" where
  "lock_inv lf \<longleftrightarrow> length (lf_slots lf) < 2 ^ 31 \<and> (\<forall>x \<in> set (freeSlots lf). 0 \<le> x \<and> x < int (length (lf_slots lf)))"

lemma scan_slots_Some:
  "scan_slots k ss = Some i \<longleftrightarrow> k \<le> i \<and> i < k + length ss \<and> rs_txnid (ss ! (i - k)) = 0 \<and> (\<forall>j < i - k. rs_txnid (ss ! j) \<noteq> 0)"
proof (induction ss arbitrary: k)
  case (Cons s ss)
  have split: "(\<forall>j < n. rs_txnid ((s # ss) ! j) \<noteq> 0) \<longleftrightarrow> n = 0 \<or> rs_txnid s \<noteq> 0 \<and> (\<forall>j < n - 1. rs_txnid (ss ! j) \<noteq> 0)" for n
    by (cases n) (auto simp: less_Suc_eq_0_disj)
  show ?case
  proof (cases "i - k")
    case 0
    then show ?thesis using Cons.IH [of "Suc k"] by (auto simp: split)
  next
    case (Suc n)
    then have "i - Suc k = n" "k < i" by auto
    then show ?thesis using Cons.IH [of "Suc k"] Suc by (auto simp: split)
  qed
qed simp

lemma scan_slots_None: "scan_slots k ss = None \<longleftrightarrow> (\<forall>s \<in> set ss. rs_txnid s \<noteq> 0)"
  by (induction ss arbitrary: k) auto

lemma claim_slot_fields [simp]:
  "rs_txnid (claim_slot pid tid s) = - 1" "rs_pid (claim_slot pid tid s) = pid" "rs_tid (claim_slot pid tid s) = tid"
  by (simp_all add: claim_slot_def)

lemma held_slots_update:
  "i < length (lf_slots lf) \<Longrightarrow> held_slots (lf\<lparr>lf_slots := (lf_slots lf)[i := s], freeSlots := fs\<rparr>) =
     (if rs_txnid s = 0 then held_slots lf - {i} else insert i (held_slots lf))"
  "i < length (lf_slots lf) \<Longrightarrow> held_slots (lf\<lparr>lf_slots := (lf_slots lf)[i := s]\<rparr>) =
     (if rs_txnid s = 0 then held_slots lf - {i} else insert i (held_slots lf))"
  by (auto simp: held_slots_def nth_list_update)

lemma int32_small: "n < 2 ^ 31 \<Longrightarrow> int32 n = int n"
proof -
  have "sint (of_nat n :: u32) = signed_take_bit 31 (int n)" by transfer simp
  moreover assume "n < 2 ^ 31"
  ultimately show ?thesis by (simp add: int32_def signed_take_bit_int_eq_self)
qed

lemma reader_acquire_ok:
  assumes "lock_inv lf"
  shows "\<exists>lf' r. acquireReaderSlot pid tid lf = Some (lf', r) \<and> lock_inv lf' \<and>
    (case r of
       Inl e \<Rightarrow> e = errLockReadersFull \<and> lf_slots lf' = lf_slots lf \<and> held_slots lf = {..< length (lf_slots lf)}
     | Inr i \<Rightarrow> i < length (lf_slots lf) \<and> i \<notin> held_slots lf \<and>
         lf_slots lf' = (lf_slots lf)[i := claim_slot pid tid (lf_slots lf ! i)])"
proof -
  have inv: "lock_inv (lf\<lparr>freeSlots := butlast (freeSlots lf)\<rparr>)" using assms by (auto simp: lock_inv_def dest: in_set_butlastD)
  have rng: "0 \<le> last (freeSlots lf) \<and> last (freeSlots lf) < int (length (lf_slots lf))" if "freeSlots lf \<noteq> []"
    using assms that last_in_set [OF that] by (auto simp: lock_inv_def)
  show ?thesis
  proof (cases "freeSlots lf \<noteq> [] \<and> rs_txnid (lf_slots lf ! nat (last (freeSlots lf))) = 0")
    case True
    let ?i = "nat (last (freeSlots lf))"
    have i: "?i < length (lf_slots lf)" using rng True by auto
    have "lock_inv (lf\<lparr>freeSlots := butlast (freeSlots lf), lf_slots := (lf_slots lf)[?i := claim_slot pid tid (lf_slots lf ! ?i)]\<rparr>)"
      using inv by (simp add: lock_inv_def)
    then show ?thesis using True rng i by (simp add: acquireReaderSlot_def Let_def held_slots_def)
  next
    case False
    define lf1 where "lf1 = (if freeSlots lf \<noteq> [] then lf\<lparr>freeSlots := butlast (freeSlots lf)\<rparr> else lf)"
    have l1: "lf_slots lf1 = lf_slots lf" "lock_inv lf1" using inv assms by (simp_all add: lf1_def)
    have a: "acquireReaderSlot pid tid lf = Some (case scan_slots 0 (lf_slots lf1) of
        Some i \<Rightarrow> (lf1\<lparr>lf_slots := (lf_slots lf1)[i := claim_slot pid tid (lf_slots lf1 ! i)]\<rparr>, Inr i)
      | None \<Rightarrow> (lf1, Inl errLockReadersFull))"
      using False rng by (cases "freeSlots lf = []") (auto simp: acquireReaderSlot_def Let_def lf1_def split: option.splits)
    show ?thesis
    proof (cases "scan_slots 0 (lf_slots lf1)")
      case None
      then have "held_slots lf = {..< length (lf_slots lf)}" by (auto simp: l1 scan_slots_None held_slots_def)
      then show ?thesis using a None l1 by auto
    next
      case (Some i)
      then have "i < length (lf_slots lf)" "rs_txnid (lf_slots lf ! i) = 0" by (simp_all add: l1 scan_slots_Some)
      moreover have "lock_inv (lf1\<lparr>lf_slots := (lf_slots lf)[i := claim_slot pid tid (lf_slots lf ! i)]\<rparr>)"
        using l1 by (simp add: lock_inv_def)
      ultimately show ?thesis using a Some l1 by (simp add: held_slots_def)
    qed
  qed
qed

lemma reader_release_ok:
  assumes "lock_inv lf" "i < length (lf_slots lf)"
  shows "\<exists>lf'. releaseReaderSlot i lf = Some lf' \<and> lock_inv lf' \<and> held_slots lf' = held_slots lf - {i}"
  using assms by (auto simp: releaseReaderSlot_def held_slots_update lock_inv_def int32_small)

text \<open>The reader slots are an allocator of slots.\<close>

definition lk_alloc :: "u32 \<Rightarrow> u64 \<Rightarrow> lockFile \<Rightarrow> (lockFile \<times> nat option) option" where
  "lk_alloc pid tid lf = map_option (map_prod id (\<lambda>r. case r of Inl e \<Rightarrow> None | Inr i \<Rightarrow> Some i)) (acquireReaderSlot pid tid lf)"

interpretation lk: slot_pool "lk_alloc pid tid" "\<lambda>lf i. releaseReaderSlot i lf" held_slots lock_inv "\<lambda>lf i. i < length (lf_slots lf)"
proof
  fix lf assume inv: "lock_inv lf"
  from reader_acquire_ok [OF this, of pid tid] obtain lf' r where a: "acquireReaderSlot pid tid lf = Some (lf', r)" "lock_inv lf'"
    "case r of
       Inl e \<Rightarrow> e = errLockReadersFull \<and> lf_slots lf' = lf_slots lf \<and> held_slots lf = {..< length (lf_slots lf)}
     | Inr i \<Rightarrow> i < length (lf_slots lf) \<and> i \<notin> held_slots lf \<and>
         lf_slots lf' = (lf_slots lf)[i := claim_slot pid tid (lf_slots lf ! i)]" by blast
  show "\<exists>s' r. lk_alloc pid tid lf = Some (s', r) \<and> lock_inv s' \<and>
      (case r of None \<Rightarrow> held_slots s' = held_slots lf
       | Some i \<Rightarrow> i \<notin> held_slots lf \<and> held_slots s' = insert i (held_slots lf))"
  proof (cases r)
    case (Inl e)
    with a show ?thesis by (simp add: lk_alloc_def held_slots_def)
  next
    case (Inr i)
    with a have "held_slots lf' = insert i (held_slots lf)" by (auto simp: held_slots_def nth_list_update)
    with a Inr show ?thesis by (simp add: lk_alloc_def)
  qed
qed (use reader_release_ok in blast)

lemma oldest_fold:
  "foldl (\<lambda>oldest s. if rs_txnid s > 0 \<and> rs_txnid s < oldest \<and> rs_txnid s \<noteq> - 1 then rs_txnid s else oldest) m ss =
   Min (insert m {rs_txnid s | s. s \<in> set ss \<and> rs_txnid s \<noteq> 0})" for m :: u64
proof (induction ss arbitrary: m)
  case (Cons s ss)
  let ?A = "{rs_txnid s | s. s \<in> set ss \<and> rs_txnid s \<noteq> 0}"
  have fin: "finite ?A" by simp
  have top: "x \<le> (- 1 :: u64)" for x by (rule word_n1_ge)
  let ?m' = "if rs_txnid s > 0 \<and> rs_txnid s < m \<and> rs_txnid s \<noteq> - 1 then rs_txnid s else m"
  have m': "?m' = (if rs_txnid s \<noteq> 0 then min m (rs_txnid s) else m)"
    using top [of m] by (auto simp: min_def word_neq_0_conv)
  have "{rs_txnid t | t. t \<in> set (s # ss) \<and> rs_txnid t \<noteq> 0} = (if rs_txnid s \<noteq> 0 then insert (rs_txnid s) ?A else ?A)" by auto
  moreover have "Min (insert (min m x) A) = Min (insert m (insert x A))" if "finite A" for x and A :: "u64 set"
    using that by (cases "A = {}") (simp_all add: min.assoc)
  note this [OF fin]
  ultimately show ?case using Cons.IH [of ?m'] by (simp add: m')
qed simp

lemma oldest_of_eq: "oldest_of ss = Min (insert (- 1) {rs_txnid s | s. s \<in> set ss \<and> rs_txnid s \<noteq> 0})"
  unfolding oldest_of_def by (rule oldest_fold)

lemma acquire_length: "acquireReaderSlot pid tid lf = Some (lf', r) \<Longrightarrow> length (lf_slots lf') = length (lf_slots lf)"
  by (auto simp: acquireReaderSlot_def Let_def split: if_splits option.splits)

lemma lk_admissible:
  "\<forall>i. Some i \<in> set cmds \<longrightarrow> i < length (lf_slots lf) \<Longrightarrow> lk.admissible pid tid lf cmds"
proof (induction cmds arbitrary: lf)
  case (Cons c cmds)
  show ?case
  proof (cases c)
    case None
    have "lk.admissible pid tid lf1 cmds" if "lk_alloc pid tid lf = Some (lf1, r)" for lf1 r
    proof -
      from that have "length (lf_slots lf1) = length (lf_slots lf)" by (auto simp: lk_alloc_def dest: acquire_length)
      with Cons show ?thesis by auto
    qed
    with None show ?thesis by simp
  next
    case (Some i)
    have "lk.admissible pid tid lf1 cmds" if "releaseReaderSlot i lf = Some lf1" for lf1
    proof -
      from that have "length (lf_slots lf1) = length (lf_slots lf)" by (auto simp: releaseReaderSlot_def split: if_splits)
      with Cons show ?thesis by auto
    qed
    with Some Cons.prems show ?thesis by simp
  qed
qed simp

section \<open>A new lock file\<close>

lemma length_header_bytes [simp]: "length (header_bytes h) = 176"
  by (simp add: header_bytes_def enc64_def enc32_def)

lemma g64_header: "g64 (header_bytes h @ xs) 0 = magicAndVersion h"
  by (simp add: header_bytes_def enc64_def enc32_def g64_def g32_def)

lemma open_new_lock_file:
  assumes os: "osOpen os = None" "osStat os = None" "osTruncate os = None" "osWriteAt os = None" "osSync os = None"
      "osStatMap os = None" "osMmap os = None" "80 \<le> length (strayBytes os)"
    and n: "0 < n"
  shows "\<exists>img lf. openLockFile os [] n True = Some (img, Inr lf) \<and> lf_slots lf = replicate (nat n) free_slot \<and>
    length img = 256 + 32 * nat n \<and> \<not> lockless lf \<and> lock_inv (lf\<lparr>freeSlots := []\<rparr>) = (nat n < 2 ^ 31) \<and> freeSlots lf = []"
proof -
  define hd256 where "hd256 = take 256 (header_bytes new_header @ strayBytes os)"
  define img where "img = hd256 @ replicate (32 * nat n) 0"
  have lh: "length hd256 = 256" using os(8) by (simp add: hd256_def)
  have size: "lockHeaderSize + nat n * readerSlotSize = 256 + 32 * nat n"
    by (simp add: lockHeaderSize_def readerSlotSize_def)
  have init: "initialize os (256 + 32 * nat n) [] = (img, None)"
    using os(3-5) lh by (simp add: initialize_def Let_def img_def hd256_def lockHeaderSize_def blit_def min_def)
  have slot: "reader_at img i = free_slot" if "i < nat n" for i
  proof -
    have z: "img ! (256 + k) = 0" if "k < 32 * nat n" for k using that lh by (simp add: img_def nth_append)
    have e: "img ! (256 + i * 32 + k) = 0" if "k < 32" for k using z [of "i * 32 + k"] \<open>i < nat n\<close> that by (simp add: add.assoc)
    have w: "g32 img (256 + i * 32 + k) = 0" if "k + 3 < 32" for k
      using e [of k] e [of "k + 1"] e [of "k + 2"] e [of "k + 3"] that by (simp add: g32_def le32_def add.assoc)
    have "g64 img (256 + i * 32 + k) = 0" if "k + 7 < 32" for k
      using w [of k] w [of "k + 4"] that by (simp add: g64_def le64_def add.assoc)
    from this [of 0] this [of 8] this [of 24] w [of 16] w [of 20] show ?thesis
      by (simp add: reader_at_def free_slot_def lockHeaderSize_def readerSlotSize_def Let_def)
  qed
  have magic: "magicAndVersion (lock_header_at img) = lockMagic"
    using g64_header [of new_header "drop 176 hd256 @ replicate (32 * nat n) 0"] os(8)
    by (simp add: lock_header_at_def img_def hd256_def new_header_def take_Cons')
  have slots: "map (reader_at img) [0..<nat n] = replicate (nat n) free_slot"
    by (rule nth_equalityI) (simp_all add: slot)
  have len: "length img = 256 + 32 * nat n" using lh by (simp add: img_def)
  have "lock_mmap os img lf = Some (Inr (lf\<lparr>lf_mapped := True, lf_header := lock_header_at img, lf_slots := replicate (nat n) free_slot\<rparr>))"
    if "lf_maxReaders lf = n" for lf
    using os(6,7) n that slots by (simp add: lock_mmap_def len lockHeaderSize_def readerSlotSize_def)
  then show ?thesis using os(1,2) n magic len by (simp add: openLockFile_def size init Let_def lock_inv_def)
qed

end
