(* ===== verification/TxnLife.thy ===== *)
theory TxnLife
  imports CursorHandles CursorDel MetaUpdate LockFile
begin

text \<open>
  The life of transactions (txn.go, env.go): beginning a transaction on an environment, the write of
  the dirty pages and of the meta by Commit, Abort, Reset and Renew of a reader, and the opening of
  named tables.  The database is its environment, the data file, the lock file and the caches.  The
  mapping shares its bytes with the file: stores on either side are seen on the other.  What the
  operating system answers is the record \<open>kernel\<close>.
\<close>

section \<open>State\<close>

text \<open>A transaction object: its address, the transaction, the reader slot and its index.\<close>

record txh =
  haddr :: nat
  htxn :: txn
  hslot :: "nat option"

record db =
  denv :: env
  dfile :: bytes
  dlk :: "lockFile option"
  dwriter :: "nat option"
  dwg :: int
  doldMaps :: "nat list"
  dcur :: cursors
  readCache :: "txh list"
  writeCache :: "txh list"
  dnext :: nat

record kernel =
  kWorld :: world
  kTrunc :: "goerror option"
  kMmap :: "goerror option"
  kWrite :: "pgno \<Rightarrow> goerror option"
  kMeta1 :: "goerror option"
  kMeta2 :: "goerror option"
  kSync :: "goerror option"
  kLock :: flockResult
  kUnlock :: flockResult
  kBufs :: "nat \<Rightarrow> bytes"
  kSubBufs :: "nat \<Rightarrow> bytes"
  kPid :: u32
  kSysPage :: int

text \<open>The bytes of the file with what was stored through the mapping, and a store into the file.\<close>

definition file_now :: "db \<Rightarrow> bytes" where
  "file_now d = (case dataMap (denv d) of None \<Rightarrow> dfile d | Some m \<Rightarrow> m @ drop (length m) (dfile d))"

definition share :: "bytes \<Rightarrow> bytes option \<Rightarrow> bytes option" where
  "share f m = map_option (\<lambda>d. take (length d) f) m"

definition set_file :: "bytes \<Rightarrow> db \<Rightarrow> db" where
  "set_file f d = d\<lparr>dfile := f, denv := (denv d)\<lparr>dataMap := share f (dataMap (denv d))\<rparr>\<rparr>"

definition set_txn_map :: "bytes \<Rightarrow> txh \<Rightarrow> txh" where
  "set_txn_map f h = h\<lparr>htxn := (htxn h)\<lparr>mmapData := share f (mmapData (htxn h))\<rparr>\<rparr>"

definition unlock_writer :: "kernel \<Rightarrow> db \<Rightarrow> db option" where
  "unlock_writer k d = map_option (\<lambda>lf. d\<lparr>dlk := Some (fst (unlockWriter (kUnlock k) lf))\<rparr>) (dlk d)"

section \<open>The transaction caches\<close>

definition zero_tree :: tree where
  "zero_tree = \<lparr>tFlags = 0, Height = 0, DupfixSize = 0, Root = 0, BranchPages = 0, LeafPages = 0, LargePages = 0,
     Sequence = 0, Items = 0, ModTxnid = 0\<rparr>"

definition zero_map :: "'v Uint32Map" where
  "zero_map = \<lparr>buckets = [], mcount = 0, mmask = 0\<rparr>"

definition zero_txn :: txn where
  "zero_txn = \<lparr>signature = 0, txnFlags = 0, txnID_of = 0, trees = [], dirtyTracker = zero_map, structs = [], freePages = [],
     allocatedPg = 0, hasNonMmapPages = False, dbiDirty = None, dbiComparators = [], dbiDupComparators = [],
     dbiUsesDefaultCmp = [], dbiUsesDefaultDupCmp = [], spillSlots = zero_map, pageCache = None, mmapData = None, txnPageSize = 0\<rparr>"

definition new_txh :: "db \<Rightarrow> txh \<times> db" where
  "new_txh d = (\<lparr>haddr = dnext d, htxn = zero_txn, hslot = None\<rparr>, d\<lparr>dnext := Suc (dnext d)\<rparr>)"

definition writeTxnCacheCap :: nat where "writeTxnCacheCap = 64"
definition readTxnCacheCap :: nat where "readTxnCacheCap = 256"

definition getWriteTxnFromCache :: "db \<Rightarrow> txh \<times> db" where
  "getWriteTxnFromCache d =
     (if writeCache d \<noteq> [] then (last (writeCache d), d\<lparr>writeCache := butlast (writeCache d)\<rparr>) else new_txh d)"

definition returnWriteTxnToCache :: "txh \<Rightarrow> db \<Rightarrow> db" where
  "returnWriteTxnToCache h d = (if length (writeCache d) < writeTxnCacheCap then d\<lparr>writeCache := writeCache d @ [h]\<rparr> else d)"

definition getReadTxnFromCache :: "db \<Rightarrow> txh \<times> db" where
  "getReadTxnFromCache d =
     (if readCache d \<noteq> [] then (last (readCache d), d\<lparr>readCache := butlast (readCache d)\<rparr>) else new_txh d)"

definition returnReadTxnToCache :: "txh \<Rightarrow> db \<Rightarrow> db" where
  "returnReadTxnToCache h d = (if length (readCache d) < readTxnCacheCap then d\<lparr>readCache := readCache d @ [h]\<rparr> else d)"

section \<open>Beginning a transaction\<close>

text \<open>The trees of the named tables that the environment has in its slots, from \<open>CoreDBs\<close> to below \<open>n\<close>.\<close>

definition copy_tree :: "env \<Rightarrow> tree list \<Rightarrow> nat \<Rightarrow> tree list option" where
  "copy_tree e ts i =
     (if i < length (dbis e) then
        (case Option.bind (dbis e ! i) di_tree of
           None \<Rightarrow> Some ts
         | Some tr \<Rightarrow> if i < length ts then Some (ts[i := tr]) else None)
      else None)"

definition copy_trees :: "env \<Rightarrow> nat \<Rightarrow> tree list \<Rightarrow> tree list option" where
  "copy_trees e n ts = foldl (\<lambda>r i. Option.bind r (\<lambda>ts. copy_tree e ts i)) (Some ts) [2..<n]"

definition core_trees :: "meta \<Rightarrow> tree list \<Rightarrow> tree list option" where
  "core_trees m ts = (if 2 \<le> length ts then Some (ts[0 := GCTree m, 1 := MainTree m]) else None)"

text \<open>
  beginReadTxn.  The arrays of a cached transaction are reused; the trees that no table fills keep
  their old content, so do the comparators of values.  The code compares capacities, which are lengths
  here.
\<close>

definition init_read :: "env \<Rightarrow> meta \<Rightarrow> txn \<Rightarrow> txn option" where
  "init_read e m t =
     (let n = unat (maxDBs e);
          ts = (if length (trees t) \<ge> n then take n (trees t) else replicate n zero_tree)
      in do { ts \<leftarrow> core_trees m ts;
              ts \<leftarrow> copy_trees e n ts;
              Some (t\<lparr>signature := txnSignature, txnFlags := ucast TxnReadOnly, txnID_of := txnID m,
                dbiComparators := replicate n None, dbiUsesDefaultCmp := replicate n False, trees := ts,
                mmapData := dataMap e, txnPageSize := envPageSize e\<rparr>) })"

definition release_slot :: "nat \<Rightarrow> db \<Rightarrow> db option" where
  "release_slot i d = do { lf \<leftarrow> dlk d; lf \<leftarrow> releaseReaderSlot i lf; Some (d\<lparr>dlk := Some lf\<rparr>) }"

definition set_slot :: "nat \<Rightarrow> u64 \<Rightarrow> db \<Rightarrow> db option" where
  "set_slot i v d = do { lf \<leftarrow> dlk d; lf \<leftarrow> setReaderTxnid i v lf; Some (d\<lparr>dlk := Some lf\<rparr>) }"

definition beginReadTxn :: "kernel \<Rightarrow> db \<Rightarrow> (db \<times> (goerror + txh)) option" where
  "beginReadTxn k d =
     (if dataMap (denv d) = None then Some (d, Inl (NewError ErrInvalid))
      else do {
        lf \<leftarrow> dlk d;
        (lf, r) \<leftarrow> acquireReaderSlot (kPid k) 0 lf;
        let d = d\<lparr>dlk := Some lf\<rparr>;
        case r of
          Inl err \<Rightarrow> Some (d, Inl (WrapError ErrReadersFull err))
        | Inr slot \<Rightarrow>
            do { mt \<leftarrow> envMeta (denv d);
                 case recentMeta mt of
                   None \<Rightarrow> do { d \<leftarrow> release_slot slot d; Some (d, Inl (NewError ErrCorrupted)) }
                 | Some m \<Rightarrow>
                     do { let (h, d) = getReadTxnFromCache d;
                          t \<leftarrow> init_read (denv d) m (htxn h);
                          d \<leftarrow> set_slot slot (txnID m) d;
                          Some (d\<lparr>dwg := dwg d + 1\<rparr>, Inr (h\<lparr>htxn := t, hslot := Some slot\<rparr>)) } } })"

text \<open>beginWriteTxn; \<open>Waits\<close>: the call blocks on the condition variable while there is a write transaction.\<close>

datatype begun = Waits | Refused goerror | Begun txh

definition clear_prefix :: "nat \<Rightarrow> 'a \<Rightarrow> 'a list \<Rightarrow> 'a list" where
  "clear_prefix n x xs = (if length xs < n then replicate n x else replicate n x @ drop n xs)"

definition init_write :: "env \<Rightarrow> u64 \<Rightarrow> meta \<Rightarrow> txn \<Rightarrow> txn option" where
  "init_write e fl m t =
     (let n = unat (maxDBs e);
          ts = (if length (trees t) < n then replicate n zero_tree else trees t)
      in do { ts \<leftarrow> core_trees m ts;
              ts \<leftarrow> copy_trees e n ts;
              Some (t\<lparr>signature := txnSignature, txnFlags := ucast fl, txnID_of := txnID m + 1,
                allocatedPg := Now (Geometry m), dbiDirty := None, dirtyTracker := Clear (dirtyTracker t),
                hasNonMmapPages := False, freePages := [],
                dbiComparators := clear_prefix n None (dbiComparators t),
                dbiUsesDefaultCmp := clear_prefix n False (dbiUsesDefaultCmp t), trees := ts,
                mmapData := dataMap e, txnPageSize := envPageSize e\<rparr>) })"

definition env_load_meta :: "env \<Rightarrow> (env \<times> goerror option) option" where
  "env_load_meta e =
     do { m \<leftarrow> dataMap e;
          r \<leftarrow> env_readMeta m (envPageSize e);
          Some (case r of Inl err \<Rightarrow> (e, Some err) | Inr mt \<Rightarrow> (e\<lparr>envMeta := Some mt\<rparr>, None)) }"

definition beginWriteTxn :: "kernel \<Rightarrow> u64 \<Rightarrow> db \<Rightarrow> (db \<times> begun) option" where
  "beginWriteTxn k fl d =
     (if dwriter d \<noteq> None then Some (d, Waits)
      else if dataMap (denv d) = None then Some (d, Refused (NewError ErrInvalid))
      else if envFlags (denv d) AND ReadOnly \<noteq> 0 then Some (d, Refused (NewError ErrPermissionDenied))
      else do {
        lf \<leftarrow> dlk d;
        let (lf, err) = lockWriter (kLock k) lf;
        let d = d\<lparr>dlk := Some lf\<rparr>;
        case err of
          Some x \<Rightarrow> Some (d, Refused (WrapError ErrBusy x))
        | None \<Rightarrow>
            do { (e, err) \<leftarrow> env_load_meta (denv d);
                 let d = d\<lparr>denv := e\<rparr>;
                 case err of
                   Some x \<Rightarrow> do { d \<leftarrow> unlock_writer k d; Some (d, Refused x) }
                 | None \<Rightarrow>
                     do { mt \<leftarrow> envMeta e;
                          case recentMeta mt of
                            None \<Rightarrow> do { d \<leftarrow> unlock_writer k d; Some (d, Refused (NewError ErrCorrupted)) }
                          | Some m \<Rightarrow>
                              do { let (h, d) = getWriteTxnFromCache d;
                                   t \<leftarrow> init_write e fl m (htxn h);
                                   let h = h\<lparr>htxn := t\<rparr>;
                                   let c = dcur d;
                                   Some (d\<lparr>dwg := dwg d + 1, dwriter := Some (haddr h),
                                           dcur := c\<lparr>curLists := (curLists c)(haddr h := ([], 0))\<rparr>\<rparr>, Begun h) } } } })"

definition env_valid :: "env \<Rightarrow> bool" where "env_valid e \<longleftrightarrow> envSignature e = 0x454E5658"

definition BeginTxn :: "kernel \<Rightarrow> u64 \<Rightarrow> db \<Rightarrow> (db \<times> begun) option" where
  "BeginTxn k fl d =
     (if \<not> env_valid (denv d) then Some (d, Refused (NewError ErrInvalid))
      else if fl AND TxnReadOnly \<noteq> 0 then
        do { (d, r) \<leftarrow> beginReadTxn k d; Some (d, case r of Inl err \<Rightarrow> Refused err | Inr h \<Rightarrow> Begun h) }
      else beginWriteTxn k fl d)"

section \<open>Ending a transaction\<close>

definition close_cursors :: "txh \<Rightarrow> db \<Rightarrow> db" where
  "close_cursors h d = d\<lparr>dcur := closeAllCursors (haddr h) (dcur d)\<rparr>"

definition release_spill :: "env \<Rightarrow> txn \<Rightarrow> (env \<times> txn) option" where
  "release_spill e t =
     (case spillBuf e of
        Some b \<Rightarrow>
          if Len (spillSlots t) > 0 then
            do { b \<leftarrow> ReleaseBulk b (ForEach (\<lambda>l k v. l @ [v]) (spillSlots t) []);
                 Some (e\<lparr>spillBuf := Some b\<rparr>, t\<lparr>spillSlots := Clear (spillSlots t)\<rparr>) }
          else Some (e, t)
      | None \<Rightarrow> Some (e, t))"

text \<open>abortInternal for both kinds of transaction; the transaction object goes back to its cache.\<close>

definition abortInternal :: "kernel \<Rightarrow> txh \<Rightarrow> db \<Rightarrow> (db \<times> txh) option" where
  "abortInternal k h d =
     (let d = close_cursors h d; t = htxn h in
      if IsReadOnly t then
        do { d \<leftarrow> (case hslot h of Some i \<Rightarrow> release_slot i d | None \<Rightarrow> Some d);
             let h = h\<lparr>hslot := None, htxn := t\<lparr>pageCache := map_option (\<lambda>_. Map.empty) (pageCache t), signature := 0,
               mmapData := None\<rparr>\<rparr>;
             Some (returnReadTxnToCache h (d\<lparr>dwg := dwg d - 1\<rparr>), h) }
      else
        do { d \<leftarrow> unlock_writer k d;
             let t = t\<lparr>dirtyTracker := Clear (dirtyTracker t), freePages := [], hasNonMmapPages := False\<rparr>;
             (e, t) \<leftarrow> release_spill (denv d) t;
             let h = h\<lparr>htxn := t\<lparr>signature := 0, mmapData := None\<rparr>\<rparr>;
             Some (returnWriteTxnToCache h (d\<lparr>dwriter := None, denv := e, dwg := dwg d - 1\<rparr>), h) })"

definition Abort :: "kernel \<Rightarrow> txh \<Rightarrow> db \<Rightarrow> (db \<times> txh) option" where
  "Abort k h d = (if \<not> txn_valid (htxn h) then Some (d, h) else abortInternal k h d)"

section \<open>Writing the dirty pages\<close>

text \<open>The pages of the tracker in the order of its table.\<close>

definition dirty_list :: "txn \<Rightarrow> (pgno \<times> nat option) list" where
  "dirty_list t = ForEach (\<lambda>l k v. l @ [(k, v)]) (dirtyTracker t) []"

fun write_pages :: "kernel \<Rightarrow> env \<Rightarrow> txn \<Rightarrow> bool \<Rightarrow> (pgno \<times> nat option) list \<Rightarrow> bytes \<Rightarrow> (bytes \<times> goerror option) option" where
  "write_pages k e t useWriteMap [] f = Some (f, None)"
| "write_pages k e t useWriteMap ((pn, a) # ps) f =
     do { a \<leftarrow> a;
          p \<leftarrow> deref e t a;
          let offset = unat pn * unat (envPageSize e);
          if useWriteMap \<and> offset + length (Data p) \<le> length (mapped (dataMap e)) then
            (if Data p = [] then None
             else if structs t ! a = MapPage pn then write_pages k e t useWriteMap ps f
             else write_pages k e t useWriteMap ps (blit f offset (Data p)))
          else
            case kWrite k pn of
              Some err \<Rightarrow> Some (f, Some (WrapError ErrProblem err))
            | None \<Rightarrow> write_pages k e t useWriteMap ps (write_at f offset (Data p)) }"

text \<open>The file is extended and mapped anew; the old mapping stays for its readers.\<close>

definition extend_file :: "kernel \<Rightarrow> nat \<Rightarrow> db \<Rightarrow> (db \<times> goerror option) option" where
  "extend_file k n d =
     (case kTrunc k of
        Some err \<Rightarrow> Some (d, Some (WrapError ErrProblem err))
      | None \<Rightarrow>
          let f = take n (file_now d @ replicate (n - length (file_now d)) 0); d = d\<lparr>dfile := f\<rparr> in
          case kMmap k of
            Some err \<Rightarrow> Some (d, Some (WrapError ErrProblem err))
          | None \<Rightarrow>
              do { let d = d\<lparr>denv := (denv d)\<lparr>dataMap := Some f\<rparr>, doldMaps := doldMaps d @ [length (mapped (dataMap (denv d)))]\<rparr>;
                   (e, err) \<leftarrow> env_load_meta (denv d);
                   Some (d\<lparr>denv := e\<rparr>, map_option (WrapError ErrProblem) err) })"

definition writeDirtyPages :: "kernel \<Rightarrow> txh \<Rightarrow> db \<Rightarrow> (db \<times> txh \<times> goerror option) option" where
  "writeDirtyPages k h d =
     (let t = htxn h in
      if Len (dirtyTracker t) = 0 then Some (d, h, None)
      else do {
        m \<leftarrow> dataMap (denv d);
        let requiredSize = alignToSysPageSize (kSysPage k) (uint (allocatedPg t) * uint (envPageSize (denv d)));
        (d, err) \<leftarrow> (if requiredSize > int (length m) then extend_file k (nat requiredSize) d else Some (d, None));
        case err of
          Some x \<Rightarrow> Some (d, h, Some x)
        | None \<Rightarrow>
            if isWriteMap (denv d) \<and> \<not> hasNonMmapPages t \<and> Len (spillSlots t) = 0 then Some (d, h, None)
            else
              do { (f, err) \<leftarrow> write_pages k (denv d) t (isWriteMap (denv d)) (dirty_list t) (file_now d);
                   Some (set_file f d, set_txn_map f h, err) } })"

section \<open>Commit\<close>

definition commit_of :: "kernel \<Rightarrow> env \<Rightarrow> txn \<Rightarrow> commit" where
  "commit_of k e t = \<lparr>ctxnID = txnID_of t, cGC = trees t ! 0, cMain = trees t ! 1, callocatedPg = allocatedPg t,
     cpageSize = envPageSize e, csysPageSize = kSysPage k,
     cwillSync = (txnFlags t AND ucast TxnNoSync = 0 \<and> envFlags e AND NoMetaSync = 0)\<rparr>"

text \<open>updateMeta on the mapped part of the file.\<close>

definition commit_meta :: "kernel \<Rightarrow> txh \<Rightarrow> db \<Rightarrow> (db \<times> txh \<times> goerror option) option" where
  "commit_meta k h d =
     (if length (trees (htxn h)) < 2 then None
      else do {
        m \<leftarrow> dataMap (denv d);
        mt \<leftarrow> envMeta (denv d);
        (fs, r) \<leftarrow> updateMeta (isWriteMap (denv d)) (kMeta1 k) (kMeta2 k) (kSync k) (commit_of k (denv d) (htxn h)) mt m;
        let f = last fs @ drop (length m) (dfile d);
        let d = set_file f d;
        let h = set_txn_map f h;
        Some (case r of
            Inl err \<Rightarrow> (d, h, Some err)
          | Inr mt \<Rightarrow> (d\<lparr>denv := (denv d)\<lparr>envMeta := Some mt\<rparr>\<rparr>, h, None)) })"

definition is_dirty :: "txn \<Rightarrow> nat \<Rightarrow> bool" where
  "is_dirty t i = (case dbiDirty t of None \<Rightarrow> False | Some dd \<Rightarrow> i < length dd \<and> dd ! i)"

text \<open>The named tables that are dirty, with their names.\<close>

definition table_name :: "env \<Rightarrow> nat \<Rightarrow> bytes option option" where
  "table_name e i =
     (if i < length (dbis e) then
        Some (case dbis e ! i of None \<Rightarrow> None | Some info \<Rightarrow> if di_name info = [] then None else Some (di_name info))
      else None)"

fun persist_loop :: "world \<Rightarrow> nat list \<Rightarrow> cst \<Rightarrow> (cst \<times> goerror option) option" where
  "persist_loop w [] s = Some (s, None)"
| "persist_loop w (i # is) s =
     (if \<not> is_dirty (ct s) i then persist_loop w is s
      else do {
        nm \<leftarrow> table_name (ce s) i;
        case nm of
          None \<Rightarrow> persist_loop w is s
        | Some nm \<Rightarrow>
            do { tr \<leftarrow> at_ix (trees (ct s)) (int i);
                 b \<leftarrow> serializeTreeToBytes tr;
                 (s, err) \<leftarrow> PutTree w s nm b 0;
                 if err \<noteq> None then Some (s, err) else persist_loop w is s } })"

text \<open>Running a cursor of the database: its cell, the environment and the transaction are the state of the operation.\<close>

definition with_cursor :: "nat \<Rightarrow> (cst \<Rightarrow> (cst \<times> 'a) option) \<Rightarrow> txh \<Rightarrow> db \<Rightarrow> (db \<times> txh \<times> 'a) option" where
  "with_cursor p f h d =
     do { (s, r) \<leftarrow> f \<lparr>ce = denv d, ct = htxn h, cc = ccur (cells (dcur d) ! p)\<rparr>;
          Some (d\<lparr>denv := ce s, dcur := set_cell p ((cells (dcur d) ! p)\<lparr>ccur := cc s\<rparr>) (dcur d)\<rparr>, h\<lparr>htxn := ct s\<rparr>, r) }"

definition close_cursor :: "kernel \<Rightarrow> nat \<Rightarrow> db \<Rightarrow> db" where
  "close_cursor k p d = d\<lparr>dcur := closeCursor (kBufs k) (kSubBufs k) p (dcur d)\<rparr>"

definition db_OpenCursor :: "nat \<Rightarrow> txh \<Rightarrow> db \<Rightarrow> (db \<times> txh \<times> (goerror + nat)) option" where
  "db_OpenCursor dbi h d =
     do { (c, t, r) \<leftarrow> open_cell (denv d) (htxn h) (haddr h) dbi (dcur d);
          Some (d\<lparr>dcur := c\<rparr>, h\<lparr>htxn := t\<rparr>, r) }"

definition dirty_tables :: "txn \<Rightarrow> nat list" where
  "dirty_tables t = (case dbiDirty t of None \<Rightarrow> [] | Some dd \<Rightarrow> [2..<length dd])"

definition persistNamedDBTrees :: "kernel \<Rightarrow> txh \<Rightarrow> db \<Rightarrow> (db \<times> txh \<times> goerror option) option" where
  "persistNamedDBTrees k h d =
     (if \<not> list_ex (is_dirty (htxn h)) (dirty_tables (htxn h)) then Some (d, h, None)
      else do {
        (d, h, r) \<leftarrow> db_OpenCursor 1 h d;
        case r of
          Inl err \<Rightarrow> Some (d, h, Some err)
        | Inr p \<Rightarrow>
            do { (d, h, err) \<leftarrow> with_cursor p (persist_loop (kWorld k) (dirty_tables (htxn h))) h d;
                 Some (close_cursor k p d, h, err) } })"

definition updateCachedDBITrees :: "txh \<Rightarrow> db \<Rightarrow> db option" where
  "updateCachedDBITrees h d =
     foldl (\<lambda>r i. Option.bind r (\<lambda>d.
         if \<not> is_dirty (htxn h) i then Some d
         else do { nm \<leftarrow> table_name (denv d) i;
                   if nm = None then Some d
                   else do { tr \<leftarrow> at_ix (trees (htxn h)) (int i);
                             info \<leftarrow> dbis (denv d) ! i;
                             Some (d\<lparr>denv := (denv d)\<lparr>dbis := (dbis (denv d))[i := Some (info\<lparr>di_tree := Some tr\<rparr>)]\<rparr>\<rparr>) } }))
       (Some d) (dirty_tables (htxn h))"

text \<open>What follows a successful commit: the write lock, the spill slots and the transaction object.\<close>

definition finish_commit :: "kernel \<Rightarrow> txh \<Rightarrow> db \<Rightarrow> (db \<times> txh) option" where
  "finish_commit k h d =
     do { d \<leftarrow> updateCachedDBITrees h d;
          d \<leftarrow> unlock_writer k d;
          (e, t) \<leftarrow> release_spill (denv d) (htxn h);
          let h = h\<lparr>htxn := t\<lparr>pageCache := map_option (\<lambda>_. Map.empty) (pageCache t), signature := 0, mmapData := None\<rparr>\<rparr>;
          Some (returnWriteTxnToCache h (d\<lparr>dwriter := None, denv := e, dwg := dwg d - 1\<rparr>), h) }"

definition abort_with :: "kernel \<Rightarrow> goerror option \<Rightarrow> txh \<Rightarrow> db \<Rightarrow> (db \<times> txh \<times> goerror option) option" where
  "abort_with k err h d = map_option (\<lambda>(d, h). (d, h, err)) (Abort k h d)"

definition Commit :: "kernel \<Rightarrow> txh \<Rightarrow> db \<Rightarrow> (db \<times> txh \<times> goerror option) option" where
  "Commit k h d =
     (if \<not> txn_valid (htxn h) then Some (d, h, Some (NewError ErrBadTxn))
      else if IsReadOnly (htxn h) then abort_with k None h d
      else do {
        (d, h, err) \<leftarrow> persistNamedDBTrees k h d;
        if err \<noteq> None then abort_with k err h d
        else do {
          (d, h, err) \<leftarrow> writeDirtyPages k h (close_cursors h d);
          if err \<noteq> None then abort_with k err h d
          else do {
            (d, h, err) \<leftarrow> commit_meta k h d;
            if err \<noteq> None then abort_with k err h d
            else do { (d, h) \<leftarrow> finish_commit k h d; Some (d, h, None) } } } })"

end
