(* ===== verification/CommitSpec.thy ===== *)
theory CommitSpec
  imports TxnLife PutProps
begin

text \<open>
  What a commit does to the file: the dirty pages replace their places, every other page keeps its
  bytes, the meta of the transaction becomes the current one, and a transaction begun afterwards sees
  the view of the committed one.  The commit is the one without \<open>WriteMap\<close>.
\<close>

section \<open>Pages of a file\<close>

definition file_page :: "nat \<Rightarrow> bytes \<Rightarrow> nat \<Rightarrow> bytes option" where
  "file_page n f q = (if q * n + n \<le> length f then Some (take n (drop (q * n) f)) else None)"

lemma getMmapPageData_of: "dataMap e = Some m \<Longrightarrow> getMmapPageData e q = file_page (unat (envPageSize e)) m (unat q)"
  by (simp add: getMmapPageData_def file_page_def Let_def)

lemma rd_map_page: "rd_map m n q = map_option (\<lambda>d. \<lparr>Data = d\<rparr>) (file_page n m (unat q))"
proof -
  have "slice m (int a) (int (a + n)) = (if a + n \<le> length m then Some (take n (drop a m)) else None)" for a
    by (auto simp: slice_def)
  then show ?thesis by (simp only: rd_map_def file_page_def)
qed

lemma file_page_same:
  assumes "length f' = length f" "\<And>x. q * n \<le> x \<Longrightarrow> x < q * n + n \<Longrightarrow> x < length f \<Longrightarrow> f' ! x = f ! x"
  shows "file_page n f' q = file_page n f q"
  using assms by (auto simp: file_page_def intro!: nth_equalityI)

lemma file_page_append: "q * n + n \<le> length f \<Longrightarrow> file_page n (f @ r) q = file_page n f q"
  by (simp add: file_page_def)

lemma file_page_blit:
  assumes "p * n + n \<le> length f" "length d = n"
  shows "file_page n (blit f (p * n) d) q = (if q = p then Some d else file_page n f q)"
proof (cases "q = p")
  case True
  then show ?thesis using assms take_drop_blit_same [of "p * n" d f] by (simp add: file_page_def)
next
  case False
  note page_ranges [OF False, of n]
  then have "take n (drop (q * n) (blit f (p * n) d)) = take n (drop (q * n) f)"
    using assms by (intro take_drop_blit_out) auto
  then show ?thesis using False assms by (simp add: file_page_def)
qed

section \<open>Writing the dirty pages\<close>

lemma write_pages_ok:
  assumes "\<And>pn v. (pn, v) \<in> set ps \<Longrightarrow> \<exists>a p. v = Some a \<and> deref e t a = Some p \<and> length (Data p) = n \<and> unat pn * n + n \<le> length f"
    and "distinct (map fst ps)" "\<And>pn. kWrite k pn = None" "unat (envPageSize e) = n"
  shows "\<exists>f'. write_pages k e t False ps f = Some (f', None) \<and> length f' = length f \<and>
    (\<forall>q. file_page n f' (unat q) = (case map_of ps q of
       Some v \<Rightarrow> map_option Data (Option.bind v (deref e t)) | None \<Rightarrow> file_page n f (unat q))) \<and>
    (\<forall>x. (\<forall>(q, v) \<in> set ps. x < unat q * n \<or> unat q * n + n \<le> x) \<longrightarrow> x < length f \<longrightarrow> f' ! x = f ! x)"
  using assms(1,2)
proof (induction ps arbitrary: f)
  case Nil
  then show ?case by simp
next
  case (Cons x ps)
  obtain pn v where x: "x = (pn, v)" by (cases x)
  from Cons.prems(1) [of pn v] obtain a p where
    v: "v = Some a" "deref e t a = Some p" "length (Data p) = n" "unat pn * n + n \<le> length f" by (auto simp: x)
  define g where "g = write_at f (unat pn * n) (Data p)"
  have g: "g = blit f (unat pn * n) (Data p)" using v(3,4) by (simp add: g_def write_at_def)
  have lg: "length g = length f" using v(3,4) by (simp add: g)
  have pr: "\<exists>a p. v = Some a \<and> deref e t a = Some p \<and> length (Data p) = n \<and> unat qn * n + n \<le> length g"
    if "(qn, v) \<in> set ps" for qn v using Cons.prems(1) [of qn v] that by (auto simp: lg)
  from Cons.IH [OF pr] Cons.prems(2) obtain f' where f':
    "write_pages k e t False ps g = Some (f', None)" "length f' = length g"
    "\<forall>q. file_page n f' (unat q) = (case map_of ps q of
       Some v \<Rightarrow> map_option Data (Option.bind v (deref e t)) | None \<Rightarrow> file_page n g (unat q))"
    "\<forall>x. (\<forall>(q, v) \<in> set ps. x < unat q * n \<or> unat q * n + n \<le> x) \<longrightarrow> x < length g \<longrightarrow> f' ! x = g ! x" by auto
  have w: "write_pages k e t False (x # ps) f = Some (f', None)"
    using f'(1) assms(3,4) v(1,2) by (simp add: x g_def)
  have pg: "file_page n g (unat q) = (if q = pn then Some (Data p) else file_page n f (unat q))" for q
    using file_page_blit [OF v(4,3), of "unat q"] by (auto simp: g word_unat_eq_iff)
  have "map_of ps pn = None" using Cons.prems(2) by (simp add: x map_of_eq_None_iff)
  then have "\<forall>q. file_page n f' (unat q) = (case map_of (x # ps) q of
       Some v \<Rightarrow> map_option Data (Option.bind v (deref e t)) | None \<Rightarrow> file_page n f (unat q))"
    using f'(3) pg v(1,2) by (auto simp: x split: option.split)
  moreover have "\<forall>i. (\<forall>(q, v) \<in> set (x # ps). i < unat q * n \<or> unat q * n + n \<le> i) \<longrightarrow> i < length f \<longrightarrow> f' ! i = f ! i"
    using f'(4) v(3,4) by (auto simp: lg g x nth_blit)
  ultimately show ?case using w f'(2) lg by (intro exI [of _ f'] conjI) simp_all
qed

text \<open>The pages of the tracker.\<close>

lemma dirty_list_entries:
  assumes "map_room n (dirtyTracker t)"
  shows "distinct (map fst (dirty_list t))" "map_of (dirty_list t) q = map_option Some (mapping_of (dirtyTracker t) q)"
proof -
  have "fold (\<lambda>(k, v) l. l @ [(k, v)]) xs ys = ys @ xs" for xs ys :: "(pgno \<times> nat option) list"
    by (induction xs arbitrary: ys) auto
  then have l: "dirty_list t = entries_of (buckets (dirtyTracker t))"
    by (simp add: dirty_list_def ForEach_entries)
  have inv: "map_inv (dirtyTracker t)" and nn: "lookup (dirtyTracker t) k \<noteq> Some None" for k using assms by (simp_all add: map_room_def)
  show "distinct (map fst (dirty_list t))" using ForEach_distinct(1) [OF inv] by (simp add: l)
  show "map_of (dirty_list t) q = map_option Some (mapping_of (dirtyTracker t) q)"
    using nn [of q] by (auto simp: l mapping_of_def lookup_def split: option.splits)
qed

section \<open>What a commit starts from\<close>

definition kernel_ok :: "kernel \<Rightarrow> bool" where
  "kernel_ok k \<longleftrightarrow> kTrunc k = None \<and> kMmap k = None \<and> (\<forall>q. kWrite k q = None) \<and> kMeta1 k = None \<and> kMeta2 k = None \<and>
     kSync k = None \<and> 0 < kSysPage k"

text \<open>
  A write transaction on a database whose file is mapped as a whole.  Its dirty pages lie behind the
  metas and below the next page to allocate.
\<close>

definition dirty_in_range :: "txn \<Rightarrow> bool" where
  "dirty_in_range t \<longleftrightarrow>
     (\<forall>q a. mapping_of (dirtyTracker t) q = Some a \<longrightarrow> 3 \<le> unat q \<and> unat q < unat (allocatedPg t))"

definition commit_ready :: "kernel \<Rightarrow> txh \<Rightarrow> db \<Rightarrow> bytes \<Rightarrow> metaTriple \<Rightarrow> nat \<Rightarrow> meta \<Rightarrow> bool" where
  "commit_ready k h d m mt r rm \<longleftrightarrow>
     kernel_ok k \<and> txn_valid (htxn h) \<and> wtxn_ok 0 (denv d) (htxn h) \<and> \<not> isWriteMap (denv d) \<and>
     dataMap (denv d) = Some m \<and> length (dfile d) \<le> length m \<and> dlk d \<noteq> None \<and> envMeta (denv d) = Some mt \<and>
     commit_pre (commit_of k (denv d) (htxn h)) m mt r rm \<and> 2 \<le> length (trees (htxn h)) \<and> dirty_in_range (htxn h)"

lemma tracked_len:
  assumes "tracked_ok e t" "mapping_of (dirtyTracker t) q = Some a"
  shows "\<exists>p. deref e t a = Some p \<and> length (Data p) = unat (envPageSize e)"
  using tracked_okD(1,2) [OF assms]
  by (auto simp: deref_def struct_ok_def getMmapPageData_def Let_def split: pstruct.splits option.splits if_splits)

text \<open>A file that has the same first three pages has the same metas.\<close>

lemma readMeta_same:
  assumes "env_readMeta f ps = Some (Inr mt)" "244 \<le> unat ps" "unat ps * 3 \<le> length f" "length f \<le> length f'"
    and "\<And>x. x < unat ps * 3 \<Longrightarrow> f' ! x = f ! x"
  shows "env_readMeta f' ps = Some (Inr mt)"
proof -
  let ?n = "unat ps"
  have "page_body f' ?n i = page_body f ?n i" if i: "i < 3" for i
  proof -
    define a b where "a = i * ?n" and "b = ?n * 3"
    have r: "a + ?n \<le> b" "b \<le> length f" using slot_room [OF i, of ?n b] assms(3) by (simp_all add: a_def b_def)
    have "take (?n - 20) (drop (a + 20) f') = take (?n - 20) (drop (a + 20) f)"
      by (intro nth_equalityI) (use assms(2,4) r in \<open>auto intro!: assms(5) [folded b_def]\<close>)
    then show ?thesis by (simp only: page_body_def a_def)
  qed
  then have "file_metas f' ?n = file_metas f ?n" by (simp add: file_metas_def)
  then show ?thesis using env_readMeta_eq [OF assms(2,3)] env_readMeta_eq [OF assms(2), of f'] assms(1,3,4) by simp
qed

lemma commit_pre_same:
  assumes "commit_pre c f mt r rm" "length f \<le> length f'" "\<And>x. x < unat (cpageSize c) * 3 \<Longrightarrow> f' ! x = f ! x"
  shows "commit_pre c f' mt r rm"
  using assms readMeta_same [of f "cpageSize c" mt f'] by (auto simp: commit_pre_def)

lemma deref_extend:
  assumes "tracked_ok e t" "mapping_of (dirtyTracker t) q = Some a" "dataMap e = Some m"
  shows "deref (e\<lparr>dataMap := Some (m @ z)\<rparr>) t a = deref e t a"
  using tracked_okD(1,2) [OF assms(1,2)] assms(3)
  by (auto simp: deref_def struct_ok_def getMmapPageData_of file_page_def Let_def split: pstruct.splits)

text \<open>The state after the dirty pages are written: the mapping is longer and holds the view.\<close>

definition written :: "db \<Rightarrow> txh \<Rightarrow> bytes \<Rightarrow> db \<Rightarrow> txh \<Rightarrow> bool" where
  "written d h m' d' h' \<longleftrightarrow>
     (\<exists>f om. d' = d\<lparr>dfile := f, denv := (denv d)\<lparr>dataMap := Some m'\<rparr>, doldMaps := om\<rparr> \<and> length f \<le> length m') \<and>
     (\<exists>mm. h' = h\<lparr>htxn := (htxn h)\<lparr>mmapData := mm\<rparr>\<rparr>)"

lemma extend_file_ok:
  assumes "commit_ready k h d m mt r rm" "length m < N"
  shows "extend_file k N d = Some (d\<lparr>dfile := m @ replicate (N - length m) 0,
    denv := (denv d)\<lparr>dataMap := Some (m @ replicate (N - length m) 0)\<rparr>, doldMaps := doldMaps d @ [length m]\<rparr>, None)"
proof -
  let ?f = "m @ replicate (N - length m) (0 :: u8)"
  note a = assms(1) [unfolded commit_ready_def commit_pre_def]
  have now: "file_now d = m" using a by (simp add: file_now_def)
  have "env_readMeta ?f (envPageSize (denv d)) = Some (Inr mt)"
    by (rule readMeta_same [of m]) (use a in \<open>simp_all add: commit_of_def nth_append\<close>)
  moreover have "(denv d)\<lparr>dataMap := Some ?f, envMeta := Some mt\<rparr> = (denv d)\<lparr>dataMap := Some ?f\<rparr>"
    using a by (cases "denv d") simp
  ultimately show ?thesis
    using a assms(2) by (simp add: extend_file_def kernel_ok_def now env_load_meta_def Let_def mapped_def)
qed

lemma ready_facts:
  assumes "commit_ready k h d m mt r rm"
  defines "n \<equiv> unat (envPageSize (denv d))"
  shows "244 \<le> n" "n * 3 \<le> length m" "file_now d = m" "seen (denv d) (htxn h) q = Some p \<Longrightarrow> unat q * n + n \<le> length m \<or> unat q < unat (allocatedPg (htxn h))"
    "mapping_of (dirtyTracker (htxn h)) q = None \<Longrightarrow> seen (denv d) (htxn h) q = map_option (\<lambda>d. \<lparr>Data = d\<rparr>) (file_page n m (unat q))"
proof -
  note a = assms(1) [unfolded commit_ready_def commit_pre_def]
  show "244 \<le> n" "n * 3 \<le> length m" "file_now d = m" using a by (simp_all add: n_def commit_of_def file_now_def)
  show u: "seen (denv d) (htxn h) q = map_option (\<lambda>d. \<lparr>Data = d\<rparr>) (file_page n m (unat q))"
    if "mapping_of (dirtyTracker (htxn h)) q = None" for q
    using that a getMmapPageData_of by (simp add: seen_untracked n_def)
  show "unat q * n + n \<le> length m \<or> unat q < unat (allocatedPg (htxn h))" if "seen (denv d) (htxn h) q = Some p"
    using that u [of q] a by (cases "mapping_of (dirtyTracker (htxn h)) q") (auto simp: file_page_def dirty_in_range_def split: if_splits)
qed

text \<open>
  What writeDirtyPages finds when there are dirty pages: the file extended by zeros, and every page of the
  tracker a whole page that lies within it.
\<close>

lemma dirty_setup:
  assumes ready: "commit_ready k h d m mt r rm"
  defines "n \<equiv> unat (envPageSize (denv d))" and "t \<equiv> htxn h" and "e \<equiv> denv d"
  defines "N \<equiv> nat (alignToSysPageSize (kSysPage k) (uint (allocatedPg t) * uint (envPageSize e)))"
  defines "z \<equiv> replicate (N - length m) (0 :: u8)"
  obtains d1 f0 om where "d1 = d\<lparr>dfile := f0, denv := e\<lparr>dataMap := Some (m @ z)\<rparr>, doldMaps := om\<rparr>" "length f0 \<le> length (m @ z)"
    "(if alignToSysPageSize (kSysPage k) (uint (allocatedPg t) * uint (envPageSize e)) > int (length m)
        then extend_file k N d else Some (d, None)) = Some (d1, None)" "file_now d1 = m @ z"
    "\<And>q x. mapping_of (dirtyTracker t) q = Some x \<Longrightarrow> deref (denv d1) t x = deref e t x"
    "\<And>pn v. (pn, v) \<in> set (dirty_list t) \<Longrightarrow> 3 \<le> unat pn \<and>
       (\<exists>a p. v = Some a \<and> deref (denv d1) t a = Some p \<and> length (Data p) = n \<and> unat pn * n + n \<le> length (m @ z))"
proof -
  note a = ready [unfolded commit_ready_def, folded t_def e_def]
  note rf = ready_facts [OF ready, folded n_def t_def e_def]
  have room: "map_room 0 (dirtyTracker t)" "tracked_ok e t" using wtxn_okD [of 0 e t] a by simp_all
  have dm: "dataMap e = Some m" using a by simp
  define d1 where "d1 = (if length m < N then d\<lparr>dfile := m @ z, denv := e\<lparr>dataMap := Some (m @ z)\<rparr>, doldMaps := doldMaps d @ [length m]\<rparr> else d)"
  have req: "uint (allocatedPg t) * uint (envPageSize e) = int (unat (allocatedPg t) * n)" by (simp add: n_def e_def)
  have "int (unat (allocatedPg t) * n) \<le> alignToSysPageSize (kSysPage k) (int (unat (allocatedPg t) * n))"
    using align_ge a by (simp add: kernel_ok_def)
  then have N: "unat (allocatedPg t) * n \<le> N" unfolding N_def req by linarith
  have lz: "max (length m) N \<le> length (m @ z)" by (simp add: z_def)
  have e1: "denv d1 = e\<lparr>dataMap := Some (m @ z)\<rparr>" using dm by (cases e) (simp add: d1_def z_def flip: e_def)
  have dr: "deref (denv d1) t x = deref e t x" if "mapping_of (dirtyTracker t) q = Some x" for q x
    unfolding e1 by (rule deref_extend [OF room(2) that dm])
  have fits: "unat q * n + n \<le> length (m @ z)" if "mapping_of (dirtyTracker t) q = Some x" for q x
  proof -
    have "Suc (unat q) * n \<le> unat (allocatedPg t) * n"
      using that a by (intro mult_le_mono1) (auto simp: dirty_in_range_def)
    then show ?thesis using N lz by simp
  qed
  have ents: "3 \<le> unat pn \<and> (\<exists>a p. v = Some a \<and> deref (denv d1) t a = Some p \<and> length (Data p) = n \<and> unat pn * n + n \<le> length (m @ z))"
    if "(pn, v) \<in> set (dirty_list t)" for pn v
  proof -
    note dl = dirty_list_entries [OF room(1)]
    have "map_of (dirty_list t) pn = Some v" using that dl(1) by simp
    then obtain x where x: "v = Some x" "mapping_of (dirtyTracker t) pn = Some x" by (auto simp: dl(2))
    then have "3 \<le> unat pn" using a by (auto simp: dirty_in_range_def)
    then show ?thesis using tracked_len [OF room(2) x(2)] x(1) dr [OF x(2)] fits [OF x(2)] by (simp add: n_def e_def)
  qed
  have d1: "d1 = d\<lparr>dfile := if length m < N then m @ z else dfile d, denv := e\<lparr>dataMap := Some (m @ z)\<rparr>,
      doldMaps := if length m < N then doldMaps d @ [length m] else doldMaps d\<rparr>"
    unfolding e1 [symmetric] by (cases d) (simp add: d1_def e_def)
  show thesis
  proof (rule that [OF d1 _ _ _ dr ents])
    show "(if alignToSysPageSize (kSysPage k) (uint (allocatedPg t) * uint (envPageSize e)) > int (length m)
        then extend_file k N d else Some (d, None)) = Some (d1, None)"
      using extend_file_ok [OF ready, of N] by (simp add: d1_def z_def e_def N_def zless_nat_eq_int_zless)
    show "file_now d1 = m @ z" using rf(3) by (simp add: d1_def file_now_def z_def)
    show "length (if length m < N then m @ z else dfile d) \<le> length (m @ z)" using a by simp
  qed
qed

lemma untracked_all:
  assumes "map_room 0 (dirtyTracker t)" "Len (dirtyTracker t) = 0"
  shows "mapping_of (dirtyTracker t) q = None"
proof -
  have "finite (dom (lookup (dirtyTracker t)))" by (simp add: lookup_def finite_dom_map_of)
  then have "lookup (dirtyTracker t) = Map.empty" using Len_ok [of "dirtyTracker t"] assms by (simp add: map_room_def)
  then show ?thesis by (simp add: mapping_of_def)
qed

lemma outside_dirty:
  assumes "\<forall>(pn, v) \<in> set ps. 3 \<le> unat pn" "x < n * 3"
  shows "\<forall>(q, v) \<in> set ps. x < unat q * n \<or> unat q * n + n \<le> x"
proof -
  have "x < unat q * n" if "(q, v) \<in> set ps" for q v
  proof -
    have "3 \<le> unat q" using assms(1) that by blast
    then have "3 * n \<le> unat q * n" by (rule mult_le_mono1)
    then show ?thesis using assms(2) by (metis less_le_trans mult.commute)
  qed
  then show ?thesis by blast
qed

lemma writeDirtyPages_ok:
  assumes ready: "commit_ready k h d m mt r rm"
  shows "\<exists>d' h' m'. writeDirtyPages k h d = Some (d', h', None) \<and> written d h m' d' h' \<and> length m \<le> length m' \<and>
    (\<forall>q p. seen (denv d) (htxn h) q = Some p \<longrightarrow> file_page (unat (envPageSize (denv d))) m' (unat q) = Some (Data p)) \<and>
    (\<forall>x < unat (envPageSize (denv d)) * 3. m' ! x = m ! x)"
proof -
  define n t e where nte: "n = unat (envPageSize (denv d))" "t = htxn h" "e = denv d"
  note a = ready [unfolded commit_ready_def, folded nte]
  note rf = ready_facts [OF ready, folded nte]
  have room: "map_room 0 (dirtyTracker t)" "tracked_ok e t" using wtxn_okD [of 0 e t] a by simp_all
  have dm: "dataMap e = Some m" using a by simp
  show ?thesis
  proof (cases "Len (dirtyTracker t) = 0")
    case True
    have "file_page n m (unat q) = Some (Data p)" if "seen e t q = Some p" for q p
      using that rf(5) [of q] untracked_all [OF room(1) True] by auto
    moreover have "written d h m d h"
      unfolding written_def using a
      by (intro conjI exI [of _ "dfile d"] exI [of _ "doldMaps d"] exI [of _ "mmapData t"]) (simp_all add: nte)
    moreover have "writeDirtyPages k h d = Some (d, h, None)" using True by (simp add: writeDirtyPages_def nte)
    ultimately show ?thesis by (auto simp: nte)
  next
    case False
    define N z where nz: "N = nat (alignToSysPageSize (kSysPage k) (uint (allocatedPg t) * uint (envPageSize e)))"
      "z = replicate (N - length m) (0 :: u8)"
    obtain d1 f0 om where d1: "d1 = d\<lparr>dfile := f0, denv := e\<lparr>dataMap := Some (m @ z)\<rparr>, doldMaps := om\<rparr>"
      "(if alignToSysPageSize (kSysPage k) (uint (allocatedPg t) * uint (envPageSize e)) > int (length m)
        then extend_file k N d else Some (d, None)) = Some (d1, None)" "file_now d1 = m @ z"
      and dr: "\<And>q x. mapping_of (dirtyTracker t) q = Some x \<Longrightarrow> deref (denv d1) t x = deref e t x"
      and ents: "\<And>pn v. (pn, v) \<in> set (dirty_list t) \<Longrightarrow> 3 \<le> unat pn \<and>
        (\<exists>a p. v = Some a \<and> deref (denv d1) t a = Some p \<and> length (Data p) = n \<and> unat pn * n + n \<le> length (m @ z))"
      by (rule dirty_setup [OF ready, folded nte, folded nz]) (rule that)
    note dl = dirty_list_entries [OF room(1)]
    have kw: "kWrite k pn = None" and en: "unat (envPageSize (denv d1)) = n" for pn using a by (simp_all add: kernel_ok_def d1 nte)
    from write_pages_ok [OF conjunct2 [OF ents] dl(1) kw en] obtain f where f:
      "write_pages k (denv d1) t False (dirty_list t) (m @ z) = Some (f, None)" "length f = length (m @ z)"
      "\<forall>q. file_page n f (unat q) = (case map_of (dirty_list t) q of
         Some v \<Rightarrow> map_option Data (Option.bind v (deref (denv d1) t)) | None \<Rightarrow> file_page n (m @ z) (unat q))"
      "\<forall>x. (\<forall>(q, v) \<in> set (dirty_list t). x < unat q * n \<or> unat q * n + n \<le> x) \<longrightarrow> x < length (m @ z) \<longrightarrow> f ! x = (m @ z) ! x"
      by blast
    have wm: "\<not> isWriteMap (denv d1)" using a by (simp add: d1 isWriteMap_def)
    have "writeDirtyPages k h d = Some (set_file f d1, set_txn_map f h, None)"
      using False dm d1(2,3) wm f(1) unfolding writeDirtyPages_def Let_def nte [symmetric] nz(1) [symmetric] by simp
    moreover have "written d h f (set_file f d1) (set_txn_map f h)"
      using f(2) a dm unfolding written_def set_file_def set_txn_map_def
      by (intro conjI exI [of _ f] exI [of _ "doldMaps d1"] exI [of _ "share f (mmapData t)"])
         (simp_all add: share_def d1(1) nte)
    moreover have "file_page n f (unat q) = Some (Data p)" if q: "seen e t q = Some p" for q p
    proof (cases "mapping_of (dirtyTracker t) q")
      case None
      then have o: "file_page n m (unat q) = Some (Data p)" using q rf(5) [OF None] by auto
      then have "unat q * n + n \<le> length m" by (simp add: file_page_def split: if_splits)
      then show ?thesis using f(3) None o file_page_append by (simp add: dl(2))
    next
      case (Some x)
      then have "deref e t x = Some p" using q seen_tracked [OF room(2) Some] by simp
      then show ?thesis using f(3) Some dr [OF Some] by (simp add: dl(2))
    qed
    moreover have "f ! x = m ! x" if "x < n * 3" for x
    proof -
      have "\<forall>(pn, v) \<in> set (dirty_list t). 3 \<le> unat pn" using ents by blast
      from outside_dirty [OF this that] show ?thesis using f(4) that rf(2) by (simp add: nth_append)
    qed
    ultimately show ?thesis using f(2) by (auto simp: nte)
  qed
qed

section \<open>The meta\<close>

text \<open>The meta page written by updateMeta is one of the first three pages.\<close>

lemma updateMeta_rest:
  assumes pre: "commit_pre c f mt r rm" and u: "updateMeta_file None None None c mt f = Some (fs, res)"
  shows "length (last fs) = length f" "unat (cpageSize c) * 3 \<le> x \<Longrightarrow> x < length f \<Longrightarrow> last fs ! x = f ! x"
proof -
  define n where "n = unat (cpageSize c)"
  define o0 where "o0 = nextMetaIndex mt * n"
  note d = commit_preD [OF pre]
  have ps: "244 \<le> n" "n * 3 \<le> length f" "recentMeta mt = Some rm" using pre by (simp_all add: commit_pre_def n_def)
  have room: "o0 + n \<le> n * 3" unfolding o0_def by (rule slot_room [OF d(4)]) simp
  have wf: "meta_wf (beginMetaUpdate (fill_meta c rm) (ctxnID c))" "meta_wf (endMetaUpdate (beginMetaUpdate (fill_meta c rm) (ctxnID c)) (ctxnID c))"
    using d(8) by (simp_all add: meta_wf_def beginMetaUpdate_def endMetaUpdate_def)
  have w: "length (write_at g o0 (meta_image (cpageSize c) j m)) = length g \<and>
      (\<forall>x < length g. n * 3 \<le> x \<longrightarrow> write_at g o0 (meta_image (cpageSize c) j m) ! x = g ! x)"
    if "meta_wf m" "n * 3 \<le> length g" for g j m
    using that room ps(1) length_meta_image [OF that(1)] by (auto simp: write_at_def n_def nth_blit)
  define g1 where "g1 = write_at f o0 (meta_image (cpageSize c) (nextMetaIndex mt) (beginMetaUpdate (fill_meta c rm) (ctxnID c)))"
  define g2 where "g2 = write_at g1 o0 (meta_image (cpageSize c) (nextMetaIndex mt)
      (endMetaUpdate (beginMetaUpdate (fill_meta c rm) (ctxnID c)) (ctxnID c)))"
  have "fs = [f, g1, g2]"
    using u ps(3) unfolding updateMeta_file_def Let_def n_def [symmetric] o0_def [symmetric]
    by (auto simp: g1_def g2_def bind_eq_Some_conv)
  then have l: "last fs = g2" by simp
  note w1 = w [OF wf(1) ps(2), of "nextMetaIndex mt", folded g1_def]
  have "n * 3 \<le> length g1" using w1 ps(2) by simp
  note w2 = w [OF wf(2) this, of "nextMetaIndex mt", folded g2_def]
  show "length (last fs) = length f" using w1 w2 by (simp add: l)
  show "last fs ! x = f ! x" if "unat (cpageSize c) * 3 \<le> x" "x < length f" using w1 w2 that by (simp add: l n_def)
qed

text \<open>The writing of the meta after the pages: the committed meta is the current one, the pages behind the metas stay.\<close>

definition meta_written :: "kernel \<Rightarrow> db \<Rightarrow> txh \<Rightarrow> bytes \<Rightarrow> metaTriple \<Rightarrow> db \<Rightarrow> txh \<Rightarrow> bool" where
  "meta_written k d h m2 mt2 d2 h2 \<longleftrightarrow>
     (\<exists>f om. d2 = d\<lparr>dfile := f, denv := (denv d)\<lparr>dataMap := Some m2, envMeta := Some mt2\<rparr>, doldMaps := om\<rparr> \<and> length f \<le> length m2) \<and>
     (\<exists>mm. h2 = h\<lparr>htxn := (htxn h)\<lparr>mmapData := mm\<rparr>\<rparr>)"

lemma commit_meta_ok:
  assumes ready: "commit_ready k h d m mt r rm" and w: "written d h m1 d1 h1" and len: "length m \<le> length m1"
    and same: "\<forall>x < unat (envPageSize (denv d)) * 3. m1 ! x = m ! x"
  defines "c \<equiv> commit_of k (denv d) (htxn h)" and "n \<equiv> unat (envPageSize (denv d))"
  shows "\<exists>d2 h2 m2 mt2. commit_meta k h1 d1 = Some (d2, h2, None) \<and> meta_written k d h m2 mt2 d2 h2 \<and> length m2 = length m1 \<and>
    env_readMeta m2 (envPageSize (denv d)) = Some (Inr mt2) \<and> recentMeta mt2 = Some (committed_meta c rm) \<and>
    (\<exists>j < 3. txnids mt2 ! j < txnids mt2 ! nat (recent mt2)) \<and>
    (\<forall>q. 3 \<le> unat q \<longrightarrow> file_page n m2 (unat q) = file_page n m1 (unat q))"
proof -
  note a = ready [unfolded commit_ready_def]
  obtain f om mm where d1: "d1 = d\<lparr>dfile := f, denv := (denv d)\<lparr>dataMap := Some m1\<rparr>, doldMaps := om\<rparr>" "length f \<le> length m1"
    "h1 = h\<lparr>htxn := (htxn h)\<lparr>mmapData := mm\<rparr>\<rparr>" using w by (auto simp: written_def)
  have c1: "commit_of k (denv d1) (htxn h1) = c" by (simp add: d1 c_def commit_of_def)
  have ps: "cpageSize c = envPageSize (denv d)" by (simp add: c_def commit_of_def)
  have pre: "commit_pre c m1 mt r rm"
    by (rule commit_pre_same [of c m]) (use a len same in \<open>simp_all add: c_def [symmetric] ps\<close>)
  from updateMeta_file_safe [OF pre] obtain f1 f2 mt2 where u:
    "updateMeta_file None None None c mt m1 = Some ([m1, f1, f2], Inr mt2)" "recentMeta mt2 = Some (committed_meta c rm)"
    "env_readMeta f2 (cpageSize c) = Some (Inr mt2)" "\<exists>j < 3. txnids mt2 ! j < txnids mt2 ! nat (recent mt2)" "length f2 = length m1"
    by blast
  note rest = updateMeta_rest [OF pre u(1), simplified]
  define d2 where "d2 = d\<lparr>dfile := f2, denv := (denv d)\<lparr>dataMap := Some f2, envMeta := Some mt2\<rparr>, doldMaps := om\<rparr>"
  define h2 where "h2 = set_txn_map f2 h1"
  have "commit_meta k h1 d1 = Some (d2, h2, None)"
    using a u(1,5) unfolding commit_meta_def c1
    by (simp add: d1 kernel_ok_def updateMeta_def isWriteMap_def set_file_def share_def d2_def h2_def)
  moreover have "meta_written k d h f2 mt2 d2 h2"
    unfolding meta_written_def
    by (intro conjI exI [of _ f2] exI [of _ om] exI [of _ "share f2 mm"]) (simp_all add: d2_def h2_def d1(3) set_txn_map_def)
  moreover have "file_page n f2 (unat q) = file_page n m1 (unat q)" if "3 \<le> unat q" for q
  proof (rule file_page_same)
    fix x assume x: "unat q * n \<le> x" "x < length m1"
    have "3 * n \<le> unat q * n" using that by (rule mult_le_mono1)
    then have "n * 3 \<le> x" using x by (metis mult.commute order_trans)
    then show "f2 ! x = m1 ! x" using rest(2) x(2) by (simp add: ps n_def)
  qed (rule u(5))
  ultimately show ?thesis using u(2-5) by (auto simp: ps)
qed

section \<open>The end of a commit\<close>

text \<open>Releasing slots in bulk never panics.\<close>

lemma bulk_total:
  "(\<And>seg. seg \<in> set (segments b) \<Longrightarrow> bm_inv (sbitmap seg)) \<Longrightarrow> \<exists>b' m'. bulk_loop b m sls = Some (b', m')"
proof (induction sls arbitrary: b m)
  case (Cons x sls)
  show ?case
  proof (cases x)
    case None
    then show ?thesis using Cons by simp
  next
    case (Some sl)
    show ?thesis
    proof (cases "unat (SegmentIdx sl) < length (segments b)")
      case True
      have "bm_inv (sbitmap (segments b ! unat (SegmentIdx sl)))" using True by (intro Cons.prems) simp
      from Free_ok [OF this, of "ucast (SlotIdx sl)"] obtain bm where
        bm: "Free (sbitmap (segments b ! unat (SegmentIdx sl))) (ucast (SlotIdx sl)) = Some bm" "bm_inv bm" by blast
      then obtain b1 where b1: "free_in b sl = Some b1"
        "segments b1 = (segments b)[unat (SegmentIdx sl) := (segments b ! unat (SegmentIdx sl))\<lparr>sbitmap := bm\<rparr>]"
        by (auto simp: free_in_def Let_def)
      have "bm_inv (sbitmap seg)" if "seg \<in> set (segments b1)" for seg
        using that b1(2) bm(2) Cons.prems by (auto dest: set_update_subset_insert [THEN subsetD])
      from Cons.IH [OF this] show ?thesis using Some True b1(1) by simp
    next
      case False
      then show ?thesis using Some Cons by simp
    qed
  qed
qed simp

lemma release_spill_ok:
  assumes "spill_ready n e"
  shows "\<exists>sb sl. release_spill e t = Some (e\<lparr>spillBuf := sb\<rparr>, t\<lparr>spillSlots := sl\<rparr>)"
proof -
  from assms obtain b where b: "spillBuf e = Some b" "buf_inv b" by (auto simp: spill_ready_def spill_room_def spill_ok_def)
  have "bm_inv (sbitmap seg)" if "seg \<in> set (segments b)" for seg
    using b(2) that by (auto simp: buf_inv_def seg_inv_def in_set_conv_nth)
  note bt = bulk_total [OF this, of b "curSegment b"]
  have "\<exists>b'. ReleaseBulk b sls = Some b'" for sls using bt [of sls] by (auto simp: ReleaseBulk_def)
  then obtain b' where b': "ReleaseBulk b (ForEach (\<lambda>l k v. l @ [v]) (spillSlots t) []) = Some b'" by blast
  show ?thesis
  proof (cases "Len (spillSlots t) > 0")
    case True
    then show ?thesis using b(1) b' by (auto simp: release_spill_def)
  next
    case False
    then show ?thesis
      using b(1) by (intro exI [of _ "spillBuf e"] exI [of _ "spillSlots t"]) (simp add: release_spill_def)
  qed
qed

text \<open>The cached trees of the named tables that the transaction changed.\<close>

definition named :: "env \<Rightarrow> nat \<Rightarrow> bool" where
  "named e i \<longleftrightarrow> (\<exists>info. dbis e ! i = Some info \<and> di_name info \<noteq> [])"

definition cached_table :: "env \<Rightarrow> txn \<Rightarrow> nat \<Rightarrow> dbiInfo option" where
  "cached_table e t i = (if 2 \<le> i \<and> is_dirty t i \<and> named e i then map_option (di_tree_update (\<lambda>_. Some (trees t ! i))) (dbis e ! i) else dbis e ! i)"

definition dirty_bound :: "env \<Rightarrow> txn \<Rightarrow> bool" where
  "dirty_bound e t \<longleftrightarrow> (\<forall>dd. dbiDirty t = Some dd \<longrightarrow> length dd \<le> length (dbis e) \<and> length dd \<le> length (trees t))"

lemma updateCachedDBITrees_ok:
  assumes "dirty_bound (denv d) (htxn h)"
  shows "updateCachedDBITrees h d =
    Some (d\<lparr>denv := (denv d)\<lparr>dbis := map (cached_table (denv d) (htxn h)) [0..<length (dbis (denv d))]\<rparr>\<rparr>)"
proof (cases "dbiDirty (htxn h)")
  case None
  then have "map (cached_table (denv d) (htxn h)) [0..<length (dbis (denv d))] = dbis (denv d)"
    by (intro nth_equalityI) (simp_all add: cached_table_def is_dirty_def)
  then show ?thesis using None by (simp add: updateCachedDBITrees_def dirty_tables_def)
next
  case (Some dd)
  define e where "e = denv d"
  define t where "t = htxn h"
  define N where "N = length (dbis e)"
  define cd where "cd n = map (\<lambda>i. if i < n then cached_table e t i else dbis e ! i) [0..<N]" for n
  have bd: "length dd \<le> N" "length dd \<le> length (trees t)" using assms Some by (auto simp: dirty_bound_def N_def e_def t_def)
  define stp where "stp = (\<lambda>(r :: db option) i. Option.bind r (\<lambda>d.
         if \<not> is_dirty (htxn h) i then Some d
         else do { nm \<leftarrow> table_name (denv d) i;
                   if nm = None then Some d
                   else do { tr \<leftarrow> at_ix (trees (htxn h)) (int i);
                             info \<leftarrow> dbis (denv d) ! i;
                             Some (d\<lparr>denv := (denv d)\<lparr>dbis := (dbis (denv d))[i := Some (info\<lparr>di_tree := Some tr\<rparr>)]\<rparr>\<rparr>) } }))"
  have cdn: "cd n ! i = dbis e ! i" "length (cd n) = N" if "n \<le> i" "i < N" for n i using that by (simp_all add: cd_def)
  have step: "stp (Some (d\<lparr>denv := e\<lparr>dbis := cd n\<rparr>\<rparr>)) n = Some (d\<lparr>denv := e\<lparr>dbis := cd (Suc n)\<rparr>\<rparr>)"
    if n: "2 \<le> n" "n < length dd" for n
  proof -
    have nN: "n < N" using n bd by simp
    have cs: "cd (Suc n) = (cd n)[n := cached_table e t n]"
      using nN by (intro nth_equalityI) (auto simp: cd_def nth_list_update less_Suc_eq)
    show ?thesis
    proof (cases "is_dirty t n \<and> named e n")
      case True
      then obtain info where i: "dbis e ! n = Some info" "di_name info \<noteq> []" by (auto simp: named_def)
      have "cached_table e t n = Some (info\<lparr>di_tree := Some (trees t ! n)\<rparr>)" using True n(1) i by (simp add: cached_table_def)
      then show ?thesis
        using True i cdn [of n n] nN n(2) bd by (simp add: stp_def cs table_name_def at_ix_def flip: t_def)
    next
      case False
      then have "cached_table e t n = dbis e ! n" by (auto simp: cached_table_def)
      then have "cd (Suc n) = cd n" using cdn [of n n] nN by (simp add: cs) (metis list_update_id)
      moreover have "dbis e ! n = None \<or> (\<exists>info. dbis e ! n = Some info \<and> (di_name info = [] \<or> \<not> is_dirty t n))"
        using False by (cases "dbis e ! n") (auto simp: named_def)
      ultimately show ?thesis using cdn [of n n] nN by (auto simp: stp_def table_name_def simp flip: t_def)
    qed
  qed
  have "foldl stp (Some d) [2..<n] = Some (d\<lparr>denv := e\<lparr>dbis := cd n\<rparr>\<rparr>)" if "n \<le> length dd" for n
    using that
  proof (induction n)
    case 0
    have "cd 0 = dbis e" by (simp add: cd_def N_def map_nth)
    then show ?case by (simp add: e_def)
  next
    case (Suc n)
    show ?case
    proof (cases "2 \<le> n")
      case True
      then show ?thesis using Suc step [of n] by simp
    next
      case False
      have "cd (Suc n) = dbis e"
        using False by (intro nth_equalityI) (auto simp: cd_def N_def cached_table_def)
      then show ?thesis using False by (simp add: e_def)
    qed
  qed
  from this [of "length dd"] have "updateCachedDBITrees h d = Some (d\<lparr>denv := e\<lparr>dbis := cd (length dd)\<rparr>\<rparr>)"
    using Some by (simp add: updateCachedDBITrees_def dirty_tables_def stp_def)
  moreover have "cd (length dd) = map (cached_table e t) [0..<N]"
    using Some bd by (auto simp: cd_def cached_table_def is_dirty_def t_def)
  ultimately show ?thesis by (simp add: e_def t_def N_def)
qed

section \<open>A whole commit\<close>

text \<open>The database after the commit of a transaction whose view was \<open>e\<close>, \<open>t\<close>.\<close>

definition committed :: "db \<Rightarrow> txn \<Rightarrow> meta \<Rightarrow> db \<Rightarrow> bool" where
  "committed d t m d' \<longleftrightarrow>
     dwriter d' = None \<and> dwg d' = dwg d - 1 \<and> (\<exists>u. dlk d' = map_option (\<lambda>lf. fst (unlockWriter u lf)) (dlk d)) \<and>
     (\<exists>f mt sb. denv d' = (denv d)\<lparr>dataMap := Some f, envMeta := Some mt, spillBuf := sb,
        dbis := map (cached_table (denv d) t) [0..<length (dbis (denv d))]\<rparr> \<and> length (dfile d') \<le> length f \<and>
        env_readMeta f (envPageSize (denv d)) = Some (Inr mt) \<and> recentMeta mt = Some m \<and>
        (\<exists>j < 3. txnids mt ! j < txnids mt ! nat (recent mt)) \<and>
        (\<forall>q p. 3 \<le> unat q \<longrightarrow> seen (denv d) t q = Some p \<longrightarrow>
           file_page (unat (envPageSize (denv d))) f (unat q) = Some (Data p)))"

lemma committed_dirty: "cached_table (e\<lparr>dataMap := x, envMeta := y\<rparr>) (t\<lparr>mmapData := z\<rparr>) = cached_table e t"
  by (auto simp: cached_table_def named_def is_dirty_def fun_eq_iff)

lemma Commit_ok:
  assumes v: "txn_valid (htxn h0)" "\<not> IsReadOnly (htxn h0)" and ps: "persistNamedDBTrees k h0 d0 = Some (d, h, None)"
    and ready: "commit_ready k h d m mt r rm" and bd: "dirty_bound (denv d) (htxn h)"
  shows "\<exists>d' h'. Commit k h0 d0 = Some (d', h', None) \<and> \<not> txn_valid (htxn h') \<and>
    committed d (htxn h) (committed_meta (commit_of k (denv d) (htxn h)) rm) d'"
proof -
  define dc where "dc = close_cursors h d"
  have e: "denv dc = denv d" "dfile dc = dfile d" "dlk dc = dlk d" "dwg dc = dwg d" by (simp_all add: dc_def close_cursors_def)
  have rd: "commit_ready k h dc m mt r rm" using ready by (simp add: commit_ready_def e)
  note a = ready [unfolded commit_ready_def]
  from writeDirtyPages_ok [OF rd] obtain d1 h1 m1 where w: "writeDirtyPages k h dc = Some (d1, h1, None)" "written dc h m1 d1 h1"
    "length m \<le> length m1" "\<forall>q p. seen (denv d) (htxn h) q = Some p \<longrightarrow> file_page (unat (envPageSize (denv d))) m1 (unat q) = Some (Data p)"
    "\<forall>x < unat (envPageSize (denv d)) * 3. m1 ! x = m ! x" unfolding e by blast
  from commit_meta_ok [OF rd w(2,3)] w(5) obtain d2 h2 m2 mt2 where c: "commit_meta k h1 d1 = Some (d2, h2, None)"
    "meta_written k dc h m2 mt2 d2 h2" "env_readMeta m2 (envPageSize (denv d)) = Some (Inr mt2)"
    "recentMeta mt2 = Some (committed_meta (commit_of k (denv d) (htxn h)) rm)" "\<exists>j < 3. txnids mt2 ! j < txnids mt2 ! nat (recent mt2)"
    "\<forall>q :: pgno. 3 \<le> unat q \<longrightarrow> file_page (unat (envPageSize (denv d))) m2 (unat q) = file_page (unat (envPageSize (denv d))) m1 (unat q)"
    unfolding e by blast
  obtain f om mm where d2: "d2 = dc\<lparr>dfile := f, denv := (denv d)\<lparr>dataMap := Some m2, envMeta := Some mt2\<rparr>, doldMaps := om\<rparr>"
    "length f \<le> length m2" "h2 = h\<lparr>htxn := (htxn h)\<lparr>mmapData := mm\<rparr>\<rparr>" using c(2) by (auto simp: meta_written_def e)
  define ds where "ds = map (cached_table (denv d) (htxn h)) [0..<length (dbis (denv d))]"
  have "dirty_bound (denv d2) (htxn h2)" using bd by (simp add: d2 dirty_bound_def)
  from updateCachedDBITrees_ok [OF this] have up: "updateCachedDBITrees h2 d2 = Some (d2\<lparr>denv := (denv d2)\<lparr>dbis := ds\<rparr>\<rparr>)"
    by (simp add: d2 committed_dirty ds_def)
  obtain lf where lf: "dlk d = Some lf" using a by auto
  have "spill_ready 0 (denv d)" using a wtxn_okD(3) by blast
  then have "spill_ready 0 ((denv d2)\<lparr>dbis := ds\<rparr>)" by (simp add: d2 spill_ready_def)
  from release_spill_ok [OF this, of "htxn h2"] obtain sb sl where
    sp: "release_spill ((denv d2)\<lparr>dbis := ds\<rparr>) (htxn h2) = Some ((denv d2)\<lparr>dbis := ds, spillBuf := sb\<rparr>, (htxn h2)\<lparr>spillSlots := sl\<rparr>)" by blast
  obtain d3 h3 where fin: "finish_commit k h2 d2 = Some (d3, h3)" "signature (htxn h3) = 0"
    "dwriter d3 = None" "dwg d3 = dwg d - 1" "dlk d3 = map_option (\<lambda>lf. fst (unlockWriter (kUnlock k) lf)) (dlk d)"
    "denv d3 = (denv d2)\<lparr>dbis := ds, spillBuf := sb\<rparr>" "dfile d3 = f"
    using up sp lf
    by (auto simp: finish_commit_def unlock_writer_def d2 e returnWriteTxnToCache_def Let_def split: if_splits)
  have "Commit k h0 d0 = Some (d3, h3, None)"
    using v ps w(1) c(1) fin(1) by (simp add: Commit_def dc_def)
  moreover have "committed d (htxn h) (committed_meta (commit_of k (denv d) (htxn h)) rm) d3"
  proof -
    have "length (dfile d3) \<le> length m2" using fin(7) d2(2) by simp
    moreover have "\<forall>q p. 3 \<le> unat q \<longrightarrow> seen (denv d) (htxn h) q = Some p \<longrightarrow>
        file_page (unat (envPageSize (denv d))) m2 (unat q) = Some (Data p)"
    proof (intro allI impI)
      fix q p assume "3 \<le> unat q" "seen (denv d) (htxn h) q = Some p"
      then show "file_page (unat (envPageSize (denv d))) m2 (unat q) = Some (Data p)"
        using c(6) [rule_format, of q] w(4) [rule_format, of q p] by argo
    qed
    moreover have "denv d3 = (denv d)\<lparr>dataMap := Some m2, envMeta := Some mt2, spillBuf := sb,
        dbis := map (cached_table (denv d) (htxn h)) [0..<length (dbis (denv d))]\<rparr>" by (simp add: fin(6) d2 ds_def)
    ultimately show ?thesis unfolding committed_def using fin(3-5) c(3-5) by blast
  qed
  ultimately show ?thesis using fin(2) by (auto simp: txn_valid_def txnSignature_def)
qed

section \<open>A transaction begun after the commit\<close>

lemma copy_trees_nth:
  "copy_trees e n ts = Some ts' \<Longrightarrow> length ts' = length ts \<and> (\<forall>i. ts' ! i =
     (if 2 \<le> i \<and> i < n \<and> Option.bind (dbis e ! i) di_tree \<noteq> None then the (Option.bind (dbis e ! i) di_tree) else ts ! i))"
proof (induction n arbitrary: ts')
  case 0
  then show ?case by (simp add: copy_trees_def)
next
  case (Suc n)
  show ?case
  proof (cases "2 \<le> n")
    case False
    then show ?thesis using Suc.prems by (auto simp: copy_trees_def)
  next
    case True
    then obtain ts1 where ts1: "copy_trees e n ts = Some ts1" "copy_tree e ts1 n = Some ts'"
      using Suc.prems by (auto simp: copy_trees_def bind_eq_Some_conv)
    note IH = Suc.IH [OF ts1(1)]
    show ?thesis
    proof (cases "Option.bind (dbis e ! n) di_tree")
      case None
      then have "ts' = ts1" using ts1(2) by (auto simp: copy_tree_def split: if_splits)
      then show ?thesis using IH None by (auto simp: less_Suc_eq simp del: bind_eq_None_conv)
    next
      case (Some tr)
      then have "ts' = ts1[n := tr]" "n < length ts1" using ts1(2) by (auto simp: copy_tree_def split: if_splits)
      then show ?thesis using IH Some True by (auto simp: less_Suc_eq nth_list_update simp del: bind_eq_None_conv)
    qed
  qed
qed

lemma init_read_ok:
  assumes "init_read e m t = Some t'"
  shows "txn_valid t'" "IsReadOnly t'" "txnID_of t' = txnID m" "mmapData t' = dataMap e" "txnPageSize t' = envPageSize e"
    "trees t' ! 0 = GCTree m" "trees t' ! 1 = MainTree m" "length (trees t') = unat (maxDBs e)" "2 \<le> unat (maxDBs e)"
    "2 \<le> i \<Longrightarrow> i < unat (maxDBs e) \<Longrightarrow> Option.bind (dbis e ! i) di_tree = Some tr \<Longrightarrow> trees t' ! i = tr"
    "dbiComparators t' = replicate (unat (maxDBs e)) None" "dbiUsesDefaultCmp t' = replicate (unat (maxDBs e)) False"
proof -
  from assms obtain ts ts' where ts: "core_trees m ts = Some ts'" "length ts = unat (maxDBs e)"
    "copy_trees e (unat (maxDBs e)) ts' = Some (trees t')" and
    t': "t' = t\<lparr>signature := txnSignature, txnFlags := ucast TxnReadOnly, txnID_of := txnID m,
      dbiComparators := replicate (unat (maxDBs e)) None, dbiUsesDefaultCmp := replicate (unat (maxDBs e)) False, trees := trees t',
      mmapData := dataMap e, txnPageSize := envPageSize e\<rparr>"
    by (auto simp: init_read_def Let_def bind_eq_Some_conv)
  note c = copy_trees_nth [OF ts(3)]
  have l: "2 \<le> length ts" "ts' = ts[0 := GCTree m, 1 := MainTree m]" using ts(1) by (auto simp: core_trees_def split: if_splits)
  show "trees t' ! 0 = GCTree m" "trees t' ! 1 = MainTree m" "length (trees t') = unat (maxDBs e)" "2 \<le> unat (maxDBs e)"
    using c l ts(2) by simp_all
  show "trees t' ! i = tr" if "2 \<le> i" "i < unat (maxDBs e)" "Option.bind (dbis e ! i) di_tree = Some tr" using c that by simp
  show "txn_valid t'" "IsReadOnly t'" "txnID_of t' = txnID m" "mmapData t' = dataMap e" "txnPageSize t' = envPageSize e"
    "dbiComparators t' = replicate (unat (maxDBs e)) None" "dbiUsesDefaultCmp t' = replicate (unat (maxDBs e)) False"
    by (subst t', simp add: txn_valid_def IsReadOnly_def TxnReadOnly_def)+
qed

lemma beginReadTxn_ok:
  assumes "beginReadTxn k d = Some (d', Inr h)" "envMeta (denv d) = Some mt" "recentMeta mt = Some m"
  shows "denv d' = denv d" "\<exists>t. init_read (denv d) m t = Some (htxn h)"
proof -
  obtain lf lf' r where lf: "dlk d = Some lf" "acquireReaderSlot (kPid k) 0 lf = Some (lf', r)"
    using assms(1) by (auto simp: beginReadTxn_def bind_eq_Some_conv split: if_splits)
  obtain slot where "r = Inr slot" using assms(1) lf by (cases r) (auto simp: beginReadTxn_def split: if_splits)
  then show "denv d' = denv d" "\<exists>t. init_read (denv d) m t = Some (htxn h)"
    using assms lf by (auto simp: beginReadTxn_def Let_def bind_eq_Some_conv getReadTxnFromCache_def new_txh_def set_slot_def split: if_splits)
qed

end
