(* ===== verification/CommitFail.thy ===== *)
theory CommitFail
  imports CommitSpec
begin

text \<open>
  Commits that fail: whatever the operating system refuses, the snapshot that was committed before is still
  the one a reader finds, and the writer's place is free.
\<close>

section \<open>The snapshot before the commit\<close>

text \<open>The kernel without its refusals; a sync that fails is not among them, it comes after the new meta.\<close>

definition quiet :: "kernel \<Rightarrow> kernel" where
  "quiet k = k\<lparr>kTrunc := None, kMmap := None, kWrite := \<lambda>_. None, kMeta1 := None, kMeta2 := None\<rparr>"

definition keeps_snapshot :: "nat \<Rightarrow> txn \<Rightarrow> bytes \<Rightarrow> bytes \<Rightarrow> bool" where
  "keeps_snapshot n t m g \<longleftrightarrow> length m \<le> length g \<and> (\<forall>x < n * 3. g ! x = m ! x) \<and>
     (\<forall>q. mapping_of (dirtyTracker t) q = None \<longrightarrow> unat q * n + n \<le> length m \<longrightarrow> file_page n g (unat q) = file_page n m (unat q))"

text \<open>The database and the transaction object where the commit stopped.\<close>

definition stopped :: "db \<Rightarrow> txh \<Rightarrow> db \<Rightarrow> txh \<Rightarrow> bool" where
  "stopped d h d1 h1 \<longleftrightarrow>
     (\<exists>f dm mt om. d1 = d\<lparr>dfile := f, denv := (denv d)\<lparr>dataMap := dm, envMeta := mt\<rparr>, doldMaps := om\<rparr>) \<and>
     (\<exists>mm. h1 = h\<lparr>htxn := (htxn h)\<lparr>mmapData := mm\<rparr>\<rparr>)"

lemma keeps_snapshot_append: "n * 3 \<le> length m \<Longrightarrow> keeps_snapshot n t m (m @ z)"
  by (simp add: keeps_snapshot_def nth_append file_page_append)

section \<open>Writing the pages\<close>

text \<open>A write of the pages that is refused has written the first of them.\<close>

lemma write_pages_prefix:
  "write_pages k e t False ps f = Some (f', err) \<Longrightarrow>
     \<exists>qs rs. ps = qs @ rs \<and> write_pages (quiet k) e t False qs f = Some (f', None) \<and> (err = None \<longrightarrow> rs = [])"
proof (induction k e t False ps f rule: write_pages.induct)
  case (1 k e t f)
  then show ?case by simp
next
  case (2 k e t pn a ps f)
  obtain a' p where a: "a = Some a'" "deref e t a' = Some p" using "2.prems" by (auto simp: bind_eq_Some_conv)
  show ?case
  proof (cases "kWrite k pn")
    case None
    have "write_pages k e t False ps (write_at f (unat pn * unat (envPageSize e)) (Data p)) = Some (f', err)"
      using "2.prems" a None by simp
    with "2.hyps"(3) [OF a] None obtain qs rs where
      "ps = qs @ rs" "write_pages (quiet k) e t False qs (write_at f (unat pn * unat (envPageSize e)) (Data p)) = Some (f', None)"
      "err = None \<longrightarrow> rs = []" by auto
    then show ?thesis using a by (intro exI [of _ "(pn, a) # qs"] exI [of _ rs]) (simp add: quiet_def)
  next
    case (Some x)
    then show ?thesis using "2.prems" a by (intro exI [of _ "[]"] exI [of _ "(pn, a) # ps"]) auto
  qed
qed

lemma write_pages_total:
  assumes "\<And>pn v. (pn, v) \<in> set ps \<Longrightarrow> \<exists>a p. v = Some a \<and> deref e t a = Some p"
  shows "\<exists>f' err. write_pages k e t False ps f = Some (f', err)"
  using assms
proof (induction ps arbitrary: f)
  case (Cons x ps)
  obtain pn v where x: "x = (pn, v)" by (cases x)
  then obtain a p where "v = Some a" "deref e t a = Some p" using Cons.prems [of pn v] by auto
  moreover have "\<exists>f' err. write_pages k e t False ps g = Some (f', err)" for g
    using Cons.prems by (intro Cons.IH) auto
  ultimately show ?case by (cases "kWrite k pn") (simp_all add: x)
qed simp

lemma extend_file_any:
  assumes ready: "commit_ready (quiet k) h d m mt r rm" and N: "length m < N"
  shows "extend_file k N d = extend_file (quiet k) N d \<or>
    (\<exists>d1 err z. extend_file k N d = Some (d1, Some err) \<and> stopped d h d1 h \<and> file_now d1 = m @ z)"
proof -
  note a = ready [unfolded commit_ready_def]
  have now: "file_now d = m" using a by (simp add: file_now_def)
  have here: "stopped d h d h" unfolding stopped_def
    by (intro conjI exI [of _ "dfile d"] exI [of _ "dataMap (denv d)"] exI [of _ "envMeta (denv d)"] exI [of _ "doldMaps d"]
      exI [of _ "mmapData (htxn h)"]) simp_all
  show ?thesis
  proof (cases "kTrunc k")
    case Some
    then show ?thesis using here now by (auto simp: extend_file_def intro!: exI [of _ "[]"])
  next
    case None
    show ?thesis
    proof (cases "kMmap k")
      case None
      then show ?thesis using \<open>kTrunc k = None\<close> by (simp add: extend_file_def quiet_def)
    next
      case (Some x)
      let ?f = "m @ replicate (N - length m) (0 :: u8)"
      have "extend_file k N d = Some (d\<lparr>dfile := ?f\<rparr>, Some (WrapError ErrProblem x))"
        using Some \<open>kTrunc k = None\<close> N by (simp add: extend_file_def now)
      moreover have "stopped d h (d\<lparr>dfile := ?f\<rparr>) h" unfolding stopped_def
        by (intro conjI exI [of _ ?f] exI [of _ "dataMap (denv d)"] exI [of _ "envMeta (denv d)"] exI [of _ "doldMaps d"]
          exI [of _ "mmapData (htxn h)"]) simp_all
      moreover have "file_now (d\<lparr>dfile := ?f\<rparr>) = ?f" using a by (simp add: file_now_def)
      ultimately show ?thesis by blast
    qed
  qed
qed

lemma writeDirtyPages_any:
  assumes ready: "commit_ready (quiet k) h d m mt r rm"
  shows "writeDirtyPages k h d = writeDirtyPages (quiet k) h d \<or>
    (\<exists>d1 h1 err. writeDirtyPages k h d = Some (d1, h1, Some err) \<and> stopped d h d1 h1 \<and>
      keeps_snapshot (unat (envPageSize (denv d))) (htxn h) m (file_now d1))"
proof (cases "Len (dirtyTracker (htxn h)) = 0")
  case True
  then show ?thesis by (simp add: writeDirtyPages_def)
next
  case False
  define n t e where nte: "n = unat (envPageSize (denv d))" "t = htxn h" "e = denv d"
  define N z where nz: "N = nat (alignToSysPageSize (kSysPage k) (uint (allocatedPg t) * uint (envPageSize e)))"
    "z = replicate (N - length m) (0 :: u8)"
  have sys: "kSysPage (quiet k) = kSysPage k" by (simp add: quiet_def)
  note a = ready [unfolded commit_ready_def, folded nte]
  note rf = ready_facts [OF ready, folded nte]
  have room: "map_room 0 (dirtyTracker t)" using wtxn_okD(1) [of 0 e t] a by simp
  have dm: "dataMap e = Some m" using a by simp
  let ?big = "alignToSysPageSize (kSysPage k) (uint (allocatedPg t) * uint (envPageSize e)) > int (length m)"
  obtain d1 f0 om where d1: "d1 = d\<lparr>dfile := f0, denv := e\<lparr>dataMap := Some (m @ z)\<rparr>, doldMaps := om\<rparr>"
    "(if ?big then extend_file (quiet k) N d else Some (d, None)) = Some (d1, None)" "file_now d1 = m @ z"
    and ents: "\<And>pn v. (pn, v) \<in> set (dirty_list t) \<Longrightarrow> 3 \<le> unat pn \<and>
      (\<exists>a p. v = Some a \<and> deref (denv d1) t a = Some p \<and> length (Data p) = n \<and> unat pn * n + n \<le> length (m @ z))"
    by (rule dirty_setup [OF ready, folded nte, unfolded sys, folded nz]) (rule that)
  have wm: "\<not> isWriteMap (denv d1)" using a by (simp add: d1 isWriteMap_def)
  have big: "?big \<Longrightarrow> length m < N" by (simp add: nz zless_nat_eq_int_zless)
  show ?thesis
  proof (cases "(if ?big then extend_file k N d else Some (d, None)) = Some (d1, None)")
    case False
    with d1(2) obtain d2 err zz where ext: "?big" "extend_file k N d = Some (d2, Some err)" "stopped d h d2 h" "file_now d2 = m @ zz"
      using extend_file_any [OF ready big] by (auto split: if_splits)
    have "writeDirtyPages k h d = Some (d2, h, Some err)"
      using \<open>Len _ \<noteq> 0\<close> dm ext unfolding writeDirtyPages_def Let_def nte [symmetric] nz(1) [symmetric] by simp
    then show ?thesis using ext(3,4) keeps_snapshot_append rf(2) by (auto simp: nte)
  next
    case True
    have wr: "writeDirtyPages k' h d = (case write_pages k' (denv d1) t False (dirty_list t) (m @ z) of
        None \<Rightarrow> None | Some (f, err) \<Rightarrow> Some (set_file f d1, set_txn_map f h, err))"
      if "kSysPage k' = kSysPage k" "(if ?big then extend_file k' N d else Some (d, None)) = Some (d1, None)" for k'
      using \<open>Len _ \<noteq> 0\<close> dm that wm d1(3) unfolding writeDirtyPages_def Let_def nte [symmetric] that(1) nz(1) [symmetric]
      by (simp split: option.splits)
    obtain f err where f: "write_pages k (denv d1) t False (dirty_list t) (m @ z) = Some (f, err)"
      using write_pages_total [of "dirty_list t" "denv d1" t k] ents by blast
    from write_pages_prefix [OF f] obtain qs rs where q: "dirty_list t = qs @ rs"
      "write_pages (quiet k) (denv d1) t False qs (m @ z) = Some (f, None)" "err = None \<longrightarrow> rs = []" by blast
    show ?thesis
    proof (cases err)
      case None
      then show ?thesis using wr [OF refl True] wr [OF sys d1(2)] f q by simp
    next
      case (Some x)
      note dl = dirty_list_entries [OF room]
      have dq: "distinct (map fst qs)" using dl(1) q(1) by simp
      have eq: "\<And>pn v. (pn, v) \<in> set qs \<Longrightarrow>
          \<exists>a p. v = Some a \<and> deref (denv d1) t a = Some p \<and> length (Data p) = n \<and> unat pn * n + n \<le> length (m @ z)"
        using ents q(1) by auto
      have kw: "kWrite (quiet k) pn = None" and en: "unat (envPageSize (denv d1)) = n" for pn by (simp_all add: quiet_def d1 nte)
      from write_pages_ok [OF eq dq kw en] q(2) have o: "length f = length (m @ z)"
        "\<forall>q. file_page n f (unat q) = (case map_of qs q of
           Some v \<Rightarrow> map_option Data (Option.bind v (deref (denv d1) t)) | None \<Rightarrow> file_page n (m @ z) (unat q))"
        "\<forall>x. (\<forall>(q, v) \<in> set qs. x < unat q * n \<or> unat q * n + n \<le> x) \<longrightarrow> x < length (m @ z) \<longrightarrow> f ! x = (m @ z) ! x" by auto
      have "\<forall>(pn, v) \<in> set qs. 3 \<le> unat pn" using ents q(1) by auto
      from outside_dirty [OF this] have "\<forall>x < n * 3. f ! x = m ! x" using o(3) rf(2) by (simp add: nth_append)
      moreover have "file_page n f (unat q) = file_page n m (unat q)"
        if "mapping_of (dirtyTracker t) q = None" "unat q * n + n \<le> length m" for q
      proof -
        have "map_of (dirty_list t) q = None" using that(1) by (simp add: dl(2))
        then have "map_of qs q = None" by (simp add: q(1) map_add_def split: option.splits)
        then show ?thesis using o(2) that(2) file_page_append by simp
      qed
      ultimately have "keeps_snapshot n t m f" using o(1) by (simp add: keeps_snapshot_def)
      moreover have "file_now (set_file f d1) = f" by (simp add: set_file_def file_now_def share_def d1(1) o(1))
      moreover have "stopped d h (set_file f d1) (set_txn_map f h)" unfolding stopped_def
        by (intro conjI exI [of _ f] exI [of _ "share f (Some (m @ z))"] exI [of _ "envMeta e"] exI [of _ om]
          exI [of _ "share f (mmapData t)"]) (simp_all add: set_file_def set_txn_map_def d1(1) nte)
      moreover have "writeDirtyPages k h d = Some (set_file f d1, set_txn_map f h, Some x)" using wr [OF refl True] f Some by simp
      ultimately show ?thesis by (auto simp: nte)
    qed
  qed
qed

section \<open>Writing the meta\<close>

text \<open>A commit of the meta that is refused leaves a file whose current meta is the old one.\<close>

lemma updateMeta_refused:
  assumes pre: "commit_pre c f mt r rm" and u: "updateMeta_file None None None c mt f = Some ([f, f1, f2], Inr mt2)"
  shows "(\<exists>g err. updateMeta_file w1 w2 None c mt f = Some (g, Inl err) \<and> last g \<in> {f, f1}) \<or>
    updateMeta_file w1 w2 None c mt f = Some ([f, f1, f2], Inr mt2)"
proof -
  have "recentMeta mt = Some rm" using pre by (simp add: commit_pre_def)
  then show ?thesis using u unfolding updateMeta_file_def Let_def
    by (cases w1; cases w2) (auto simp: bind_eq_Some_conv)
qed

lemma updateMeta_first:
  assumes pre: "commit_pre c f mt r rm" and u: "updateMeta_file None None None c mt f = Some ([f, f1, f2], Inr mt2)"
  shows "length f1 = length f" "unat (cpageSize c) * 3 \<le> x \<Longrightarrow> x < length f \<Longrightarrow> f1 ! x = f ! x"
proof -
  define n where "n = unat (cpageSize c)"
  define o0 where "o0 = nextMetaIndex mt * n"
  note d = commit_preD [OF pre]
  have ps: "244 \<le> n" "n * 3 \<le> length f" "recentMeta mt = Some rm" using pre by (simp_all add: commit_pre_def n_def)
  have room: "o0 + n \<le> n * 3" unfolding o0_def by (rule slot_room [OF d(4)]) simp
  have wf: "meta_wf (beginMetaUpdate (fill_meta c rm) (ctxnID c))" using d(8) by (simp add: meta_wf_def beginMetaUpdate_def)
  have f1: "f1 = write_at f o0 (meta_image (cpageSize c) (nextMetaIndex mt) (beginMetaUpdate (fill_meta c rm) (ctxnID c)))"
    using u ps(3) unfolding updateMeta_file_def Let_def n_def [symmetric] o0_def [symmetric] by (auto simp: bind_eq_Some_conv)
  show "length f1 = length f" using length_meta_image [OF wf] room ps by (simp add: f1 write_at_def n_def)
  show "f1 ! x = f ! x" if "unat (cpageSize c) * 3 \<le> x" "x < length f"
    using that length_meta_image [OF wf] room ps by (auto simp: f1 write_at_def n_def nth_blit)
qed

lemma commit_meta_any:
  assumes ready: "commit_ready (quiet k) h d m mt r rm" and w: "written d h m1 d1 h1" and len: "length m \<le> length m1"
    and same: "\<forall>x < unat (envPageSize (denv d)) * 3. m1 ! x = m ! x"
  defines "n \<equiv> unat (envPageSize (denv d))"
  shows "commit_meta k h1 d1 = commit_meta (quiet k) h1 d1 \<or>
    (\<exists>d2 h2 err mt2. commit_meta k h1 d1 = Some (d2, h2, Some err) \<and> stopped d h d2 h2 \<and>
      env_readMeta (file_now d2) (envPageSize (denv d)) = Some (Inr mt2) \<and> recentMeta mt2 = Some rm \<and>
      length m1 = length (file_now d2) \<and> (\<forall>x. n * 3 \<le> x \<longrightarrow> x < length m1 \<longrightarrow> file_now d2 ! x = m1 ! x))"
proof -
  note a = ready [unfolded commit_ready_def]
  define c where "c = commit_of k (denv d) (htxn h)"
  obtain f om mm where d1: "d1 = d\<lparr>dfile := f, denv := (denv d)\<lparr>dataMap := Some m1\<rparr>, doldMaps := om\<rparr>" "length f \<le> length m1"
    "h1 = h\<lparr>htxn := (htxn h)\<lparr>mmapData := mm\<rparr>\<rparr>" using w by (auto simp: written_def)
  have c1: "commit_of k (denv d1) (htxn h1) = c" "commit_of (quiet k) (denv d1) (htxn h1) = c" "commit_of (quiet k) (denv d) (htxn h) = c"
    by (simp_all add: d1 c_def commit_of_def quiet_def)
  have ps: "cpageSize c = envPageSize (denv d)" by (simp add: c_def commit_of_def)
  have pre0: "commit_pre c m mt r rm" using a c1(3) by simp
  have pre: "commit_pre c m1 mt r rm" by (rule commit_pre_same [OF pre0 len]) (use same in \<open>simp add: ps\<close>)
  from updateMeta_file_safe [OF pre] obtain f1 f2 mt2 where u:
    "updateMeta_file None None None c mt m1 = Some ([m1, f1, f2], Inr mt2)"
    "\<exists>mt1. env_readMeta f1 (cpageSize c) = Some (Inr mt1) \<and> recentMeta mt1 = Some rm" by blast
  have old: "env_readMeta m1 (cpageSize c) = Some (Inr mt)" "recentMeta mt = Some rm" using pre by (simp_all add: commit_pre_def)
  have env: "dataMap (denv d1) = Some m1" "envMeta (denv d1) = Some mt" "\<not> isWriteMap (denv d1)" "2 \<le> length (trees (htxn h1))"
    "kSync k = None" "drop (length m1) (dfile d1) = []"
    using a d1 by (simp_all add: isWriteMap_def kernel_ok_def quiet_def)
  consider "updateMeta_file (kMeta1 k) (kMeta2 k) None c mt m1 = Some ([m1, f1, f2], Inr mt2)"
    | g err where "updateMeta_file (kMeta1 k) (kMeta2 k) None c mt m1 = Some (g, Inl err)" "last g \<in> {m1, f1}"
    using updateMeta_refused [OF pre u(1)] by blast
  then show ?thesis
  proof cases
    case 1
    have "commit_meta k h1 d1 = commit_meta (quiet k) h1 d1"
      using env 1 u(1) unfolding commit_meta_def c1 by (simp add: updateMeta_def quiet_def)
    then show ?thesis ..
  next
    case 2
    have g: "length (last g) = length m1" "\<And>x. n * 3 \<le> x \<Longrightarrow> x < length m1 \<Longrightarrow> last g ! x = m1 ! x"
      using 2(2) updateMeta_first [OF pre u(1)] by (auto simp: ps n_def)
    let ?d2 = "set_file (last g) d1" and ?h2 = "set_txn_map (last g) h1"
    have "commit_meta k h1 d1 = Some (?d2, ?h2, Some err)"
      using env 2(1) unfolding commit_meta_def c1 by (simp add: updateMeta_def Let_def)
    moreover have "stopped d h ?d2 ?h2" unfolding stopped_def
      by (intro conjI exI [of _ "last g"] exI [of _ "share (last g) (Some m1)"] exI [of _ "envMeta (denv d)"] exI [of _ om]
        exI [of _ "share (last g) mm"]) (simp_all add: set_file_def set_txn_map_def d1)
    moreover have "file_now ?d2 = last g" by (simp add: set_file_def file_now_def share_def env(1) g(1))
    moreover have "\<exists>mt2. env_readMeta (last g) (envPageSize (denv d)) = Some (Inr mt2) \<and> recentMeta mt2 = Some rm"
      using 2(2) u(2) old by (auto simp: ps)
    ultimately show ?thesis using g by auto
  qed
qed

section \<open>The end of a failed commit\<close>

lemma abort_stopped:
  assumes "stopped d h d1 h1" "txn_valid (htxn h)" "\<not> IsReadOnly (htxn h)" "spill_ready 0 (denv d)" "dlk d \<noteq> None"
  shows "\<exists>d' h'. Abort k h1 d1 = Some (d', h') \<and> dwriter d' = None \<and> \<not> txn_valid (htxn h') \<and> dfile d' = dfile d1 \<and>
    dataMap (denv d') = dataMap (denv d1)"
proof -
  obtain f dm mt om where d1: "d1 = d\<lparr>dfile := f, denv := (denv d)\<lparr>dataMap := dm, envMeta := mt\<rparr>, doldMaps := om\<rparr>"
    using assms(1) by (auto simp: stopped_def)
  obtain mm where h1: "h1 = h\<lparr>htxn := (htxn h)\<lparr>mmapData := mm\<rparr>\<rparr>" using assms(1) by (auto simp: stopped_def)
  let ?t = "(htxn h1)\<lparr>dirtyTracker := Clear (dirtyTracker (htxn h1)), freePages := [], hasNonMmapPages := False\<rparr>"
  have "spill_ready 0 (denv d1)" using assms(4) by (simp add: d1 spill_ready_def)
  from release_spill_ok [OF this, of ?t] obtain sb sl where
    "release_spill (denv d1) ?t = Some ((denv d1)\<lparr>spillBuf := sb\<rparr>, ?t\<lparr>spillSlots := sl\<rparr>)" by blast
  moreover have "txn_valid (htxn h1)" "\<not> IsReadOnly (htxn h1)" using assms(2,3) by (simp_all add: h1 txn_valid_def IsReadOnly_def)
  ultimately show ?thesis using assms(5)
    by (auto simp: Abort_def abortInternal_def Let_def close_cursors_def unlock_writer_def returnWriteTxnToCache_def d1 txn_valid_def
      txnSignature_def)
qed

section \<open>Both ends of a commit\<close>

definition old_or_new :: "db \<Rightarrow> txn \<Rightarrow> bytes \<Rightarrow> meta \<Rightarrow> meta \<Rightarrow> db \<Rightarrow> goerror option \<Rightarrow> bool" where
  "old_or_new d t m rm new d' err \<longleftrightarrow>
     (let n = unat (envPageSize (denv d)); f = file_now d' in
      \<exists>mt m2. env_readMeta f (envPageSize (denv d)) = Some (Inr mt) \<and> recentMeta mt = Some m2 \<and>
        (case err of
           None \<Rightarrow> m2 = new \<and> (\<forall>q p. 3 \<le> unat q \<longrightarrow> seen (denv d) t q = Some p \<longrightarrow> file_page n f (unat q) = Some (Data p))
         | Some _ \<Rightarrow> m2 = rm \<and> (\<forall>q. 3 \<le> unat q \<longrightarrow> mapping_of (dirtyTracker t) q = None \<longrightarrow> unat q * n + n \<le> length m \<longrightarrow>
             file_page n f (unat q) = file_page n m (unat q))))"

lemma quiet_same: "persistNamedDBTrees (quiet k) h d = persistNamedDBTrees k h d" "finish_commit (quiet k) h d = finish_commit k h d"
  "commit_of (quiet k) e t = commit_of k e t"
proof -
  have "close_cursor (quiet k) = close_cursor k" "kWorld (quiet k) = kWorld k" "unlock_writer (quiet k) = unlock_writer k"
    by (simp_all add: fun_eq_iff close_cursor_def unlock_writer_def quiet_def)
  then show "persistNamedDBTrees (quiet k) h d = persistNamedDBTrees k h d" "finish_commit (quiet k) h d = finish_commit k h d"
    by (simp_all only: persistNamedDBTrees_def finish_commit_def)
qed (simp add: commit_of_def quiet_def)

lemma old_or_new_committed:
  assumes "committed d t new d'"
  shows "old_or_new d t m rm new d' None"
proof -
  obtain f mt sb where c: "denv d' = (denv d)\<lparr>dataMap := Some f, envMeta := Some mt, spillBuf := sb,
      dbis := map (cached_table (denv d) t) [0..<length (dbis (denv d))]\<rparr>" "length (dfile d') \<le> length f"
    "env_readMeta f (envPageSize (denv d)) = Some (Inr mt)" "recentMeta mt = Some new"
    "\<forall>q p. 3 \<le> unat q \<longrightarrow> seen (denv d) t q = Some p \<longrightarrow> file_page (unat (envPageSize (denv d))) f (unat q) = Some (Data p)"
    using assms unfolding committed_def by blast
  have "file_now d' = f" by (simp add: file_now_def c(1,2))
  then show ?thesis using c(3-5) by (simp add: old_or_new_def)
qed

lemma Commit_any:
  assumes v: "txn_valid (htxn h0)" "\<not> IsReadOnly (htxn h0)" and ps: "persistNamedDBTrees k h0 d0 = Some (d, h, None)"
    and ready: "commit_ready (quiet k) h d m mt r rm" and bd: "dirty_bound (denv d) (htxn h)"
  shows "\<exists>d' h' err. Commit k h0 d0 = Some (d', h', err) \<and> dwriter d' = None \<and> \<not> txn_valid (htxn h') \<and>
    old_or_new d (htxn h) m rm (committed_meta (commit_of k (denv d) (htxn h)) rm) d' err"
proof -
  define dc n where "dc = close_cursors h d" and "n = unat (envPageSize (denv d))"
  have e: "denv dc = denv d" "dfile dc = dfile d" "dlk dc = dlk d" by (simp_all add: dc_def close_cursors_def)
  have rd: "commit_ready (quiet k) h dc m mt r rm" using ready by (simp add: commit_ready_def e)
  note a = ready [unfolded commit_ready_def]
  note rf = ready_facts [OF ready, folded n_def]
  have ab: "\<exists>d' h'. Abort k h1 d1 = Some (d', h') \<and> dwriter d' = None \<and> \<not> txn_valid (htxn h') \<and> dfile d' = dfile d1 \<and>
      dataMap (denv d') = dataMap (denv d1)" if "stopped dc h d1 h1" for d1 h1
    using abort_stopped [OF that] a wtxn_okD(3,6) by (fastforce simp: e)
  consider (pages) d1 h1 err where "writeDirtyPages k h dc = Some (d1, h1, Some err)" "stopped dc h d1 h1"
      "keeps_snapshot n (htxn h) m (file_now d1)"
    | (written) "writeDirtyPages k h dc = writeDirtyPages (quiet k) h dc"
    using writeDirtyPages_any [OF rd] by (auto simp: e n_def)
  then show ?thesis
  proof cases
    case pages
    from ab [OF pages(2)] obtain d' h' where b: "Abort k h1 d1 = Some (d', h')" "dwriter d' = None" "\<not> txn_valid (htxn h')"
      "dfile d' = dfile d1" "dataMap (denv d') = dataMap (denv d1)" by blast
    have "Commit k h0 d0 = Some (d', h', Some err)" using v ps pages(1) b(1) by (simp add: Commit_def abort_with_def dc_def)
    moreover have now: "file_now d' = file_now d1" by (simp add: file_now_def b cong: option.case_cong)
    moreover have "env_readMeta (file_now d1) (envPageSize (denv d)) = Some (Inr mt)"
      using readMeta_same [of m "envPageSize (denv d)" mt "file_now d1"] pages(3) rf(1,2) a
      by (simp add: keeps_snapshot_def commit_pre_def commit_of_def n_def)
    ultimately show ?thesis using b(2,3) pages(3) a by (auto simp: old_or_new_def Let_def keeps_snapshot_def commit_pre_def n_def)
  next
    case written
    from writeDirtyPages_ok [OF rd] obtain d1 h1 m1 where w: "writeDirtyPages (quiet k) h dc = Some (d1, h1, None)" "written dc h m1 d1 h1"
      "length m \<le> length m1" "\<forall>q p. seen (denv d) (htxn h) q = Some p \<longrightarrow> file_page n m1 (unat q) = Some (Data p)"
      "\<forall>x < n * 3. m1 ! x = m ! x" unfolding e n_def by blast
    consider (meta) d2 h2 err mt2 where "commit_meta k h1 d1 = Some (d2, h2, Some err)" "stopped dc h d2 h2"
        "env_readMeta (file_now d2) (envPageSize (denv d)) = Some (Inr mt2)" "recentMeta mt2 = Some rm"
        "length m1 = length (file_now d2)" "\<forall>x. n * 3 \<le> x \<longrightarrow> x < length m1 \<longrightarrow> file_now d2 ! x = m1 ! x"
      | (finished) "commit_meta k h1 d1 = commit_meta (quiet k) h1 d1"
      using commit_meta_any [OF rd w(2,3)] w(5) unfolding e n_def by blast
    then show ?thesis
    proof cases
      case finished
      obtain d2 h2 where "commit_meta (quiet k) h1 d1 = Some (d2, h2, None)"
        using commit_meta_ok [OF rd w(2,3)] w(5) unfolding e n_def by blast
      then have "Commit k h0 d0 = Commit (quiet k) h0 d0"
        using v ps w(1) written finished by (simp add: Commit_def quiet_same flip: dc_def)
      moreover from Commit_ok [OF v _ ready bd, unfolded quiet_same, OF ps] obtain d' h' where
        c: "Commit (quiet k) h0 d0 = Some (d', h', None)" "\<not> txn_valid (htxn h')"
        "committed d (htxn h) (committed_meta (commit_of k (denv d) (htxn h)) rm) d'" by blast
      ultimately show ?thesis using c(2) old_or_new_committed [OF c(3)] c(3) by (auto simp: committed_def)
    next
      case meta
      from ab [OF meta(2)] obtain d' h' where b: "Abort k h2 d2 = Some (d', h')" "dwriter d' = None" "\<not> txn_valid (htxn h')"
        "dfile d' = dfile d2" "dataMap (denv d') = dataMap (denv d2)" by blast
      have "Commit k h0 d0 = Some (d', h', Some err)"
        using v ps w(1) written meta(1) b(1) by (simp add: Commit_def abort_with_def flip: dc_def)
      moreover have now: "file_now d' = file_now d2" by (simp add: file_now_def b cong: option.case_cong)
      moreover have "file_page n (file_now d2) (unat q) = file_page n m (unat q)"
        if q: "3 \<le> unat q" "mapping_of (dirtyTracker (htxn h)) q = None" "unat q * n + n \<le> length m" for q
      proof -
        obtain p where p: "file_page n m (unat q) = Some p" using q(3) by (simp add: file_page_def)
        then have "file_page n m1 (unat q) = Some p" using w(4) rf(5) [OF q(2)] by auto
        moreover have "file_page n (file_now d2) (unat q) = file_page n m1 (unat q)"
        proof (rule file_page_same)
          fix x assume x: "unat q * n \<le> x" "x < length m1"
          have "3 * n \<le> unat q * n" using q(1) by (rule mult_le_mono1)
          then have "n * 3 \<le> x" using x by (metis mult.commute order_trans)
          then show "file_now d2 ! x = m1 ! x" using meta(6) x(2) by blast
        qed (simp add: meta(5))
        ultimately show ?thesis using p by simp
      qed
      ultimately show ?thesis using b(2,3) meta(3,4) by (auto simp: old_or_new_def Let_def n_def)
    qed
  qed
qed

end
