(* ===== verification/CommitProps.thy ===== *)
theory CommitProps
  imports CommitFail PutProps
begin

text \<open>
  What a commit promises: the readers begun after it see its pages and trees, a failed commit leaves the
  committed snapshot, and every way out of a write transaction lets the next writer in.
\<close>

section \<open>A concrete commit\<close>

text \<open>The sample leaf on a page of 256 bytes, as the only dirty page of a transaction on a new database.\<close>

definition wide_leaf :: bytes where "wide_leaf = Data sample_leaf @ replicate 192 0"

lemma wide_leaf_page:
  "page_ok \<lparr>Data = wide_leaf\<rparr>" "entries \<lparr>Data = wide_leaf\<rparr> = [sample_node [98] [120], sample_node [100] [121, 122]]" "nents \<lparr>Data = wide_leaf\<rparr> = 2"
  "length wide_leaf = 256" "\<not> brp \<lparr>Data = wide_leaf\<rparr>" "lfp \<lparr>Data = wide_leaf\<rparr>"
proof -
  let ?p = "\<lparr>Data = wide_leaf\<rparr>"
  show f: "nents ?p = 2" "length wide_leaf = 256" "\<not> brp ?p" "lfp ?p"
    by (simp_all add: wide_leaf_def sample_leaf_def sample_eval lfp_def pageLeaf_def)
  have g: "low ?p = 4" "upp ?p = 23" "ptr ?p 0 = 34" "ptr ?p (Suc 0) = 23" "nsz ?p 0 = 10" "nsz ?p (Suc 0) = 11"
    by (simp_all add: wide_leaf_def sample_leaf_def sample_eval)
  show "page_ok ?p" unfolding page_ok_def f less_2_cases' by (auto simp: f g)
  have u: "[0..<2] = [0, Suc 0]" by (simp add: upt_rec)
  show "entries ?p = [sample_node [98] [120], sample_node [100] [121, 122]]"
    unfolding entries_def f u node_at_def list.map g
    by (simp add: wide_leaf_def sample_leaf_def sample_node_def enc16_def enc32_def)
qed

definition calm :: kernel where
  "calm = \<lparr>kWorld = sample_world, kTrunc = None, kMmap = None, kWrite = \<lambda>_. None, kMeta1 = None, kMeta2 = None, kSync = None,
     kLock = FlockOk, kUnlock = FlockOk, kBufs = \<lambda>_. [], kSubBufs = \<lambda>_. [], kPid = 1, kSysPage = 4096\<rparr>"

definition small_locks :: lockFile where
  "small_locks = \<lparr>lf_file = True, lf_mapped = True, lf_header = new_header, lf_slots = [free_slot], lf_maxReaders = 1,
     writerLock = True, lockless = False, freeSlots = []\<rparr>"

definition small_db :: "env \<Rightarrow> bytes \<Rightarrow> db" where
  "small_db e f = \<lparr>denv = e, dfile = f, dlk = Some small_locks, dwriter = Some 0, dwg = 1, doldMaps = [], dcur = no_cursors,
     readCache = [], writeCache = [], dnext = 1\<rparr>"

definition small_txn :: "nat Uint32Map \<Rightarrow> bytes \<Rightarrow> tree \<Rightarrow> txn" where
  "small_txn tr f gc = put_txn\<lparr>txnID_of := 4, trees := [gc, sample_tree], dirtyTracker := tr, structs := [OwnPage wide_leaf],
     mmapData := Some f, txnPageSize := 256\<rparr>"

lemma small_commit:
  obtains e f mt m t where "commit_ready calm \<lparr>haddr = 0, htxn = t, hslot = None\<rparr> (small_db e f) f mt 2 m" "env_valid e"
    "maxDBs e = 16" "dbis e = replicate 16 None" "envPageSize e = 256" "trees t ! 1 = sample_tree" "dbiDirty t = None"
    "seen e t 5 = Some \<lparr>Data = wide_leaf\<rparr>" "mapping_of (dirtyTracker t) 1 = None" "txnID_of t = 4" "MainTree m \<noteq> sample_tree"
proof -
  obtain b where b: "New None ''spill'' 256 16 = Inr b" "buf_inv b" "live b = {}" "segmentCap b = 16" "pageSize b = 256"
    using New_ok [of 16 "''spill''" 256] by auto
  let ?boot = "\<lambda>i :: nat. replicate 16 (0 :: u8)"
  from initNewDB_ok [of 256 1 ?boot 0] obtain f mt m where
    i: "768 \<le> length f" "env_readMeta f 256 = Some (Inr mt)" "recent mt = 2" "recentMeta mt = Some m" "txnids mt = [1, 2, 3]"
      "isEmpty (MainTree m)" by auto
  have "map_room (Suc 0) (empty_map :: nat Uint32Map)" by (simp add: map_room_empty)
  from fm.put_ok [OF this, of 5 0] obtain tr where
    tr: "map_room 0 tr" "mapping_of tr = [5 \<mapsto> 0 :: nat]" by (auto simp: map_room_empty)
  define e where "e = (sample_wenv b)\<lparr>envSignature := 0x454E5658, dataMap := Some f, envPageSize := 256, envMeta := Some mt,
      dbis := replicate 16 None\<rparr>"
  define t where "t = small_txn tr f (GCTree m)"
  have tf: "dirtyTracker t = tr" "structs t = [OwnPage wide_leaf]" "txnID_of t = 4" "trees t = [GCTree m, sample_tree]" "txn_valid t"
    "\<not> IsReadOnly t" "allocatedPg t = 6" "dbiDirty t = None" "spillSlots t = empty_map"
    by (simp_all add: t_def small_txn_def put_txn_def sample_wtxn_def sample_txn_def txn_valid_def IsReadOnly_def)
  have ef: "dataMap e = Some f" "envPageSize e = 256" "maxDBs e = 16" "spillBuf e = Some b" "\<not> isWriteMap e" "envMeta e = Some mt"
    by (simp_all add: e_def sample_wenv_def sample_env_def isWriteMap_def)
  have "spill_ready 0 e" using b ef by (auto simp: spill_ready_def spill_room_def spill_ok_def DefaultMaxSegments_def)
  moreover have tk: "tracked_ok e t" using wide_leaf_page(4) by (simp add: tracked_ok_def tf tr(2) struct_ok_def ef split: if_splits)
  ultimately have w: "wtxn_ok 0 e t" using tr(1) by (simp add: wtxn_ok_def tf ef map_room_empty)
  have three: "(\<exists>j < 3. P j) \<longleftrightarrow> P 0 \<or> P (Suc 0) \<or> P 2" "(\<forall>j < 3. P j) \<longleftrightarrow> P 0 \<and> P (Suc 0) \<and> P 2" for P :: "nat \<Rightarrow> bool"
    using less_3_cases by auto
  have "commit_pre (commit_of calm e t) f mt 2 m" unfolding commit_pre_def three by (simp add: commit_of_def i tf ef)
  then have "commit_ready calm \<lparr>haddr = 0, htxn = t, hslot = None\<rparr> (small_db e f) f mt 2 m"
    using w by (simp add: commit_ready_def kernel_ok_def calm_def small_db_def tf ef dirty_in_range_def tr(2) small_locks_def)
  moreover have "seen e t 5 = Some \<lparr>Data = wide_leaf\<rparr>"
    using seen_tracked [OF tk, of 5 0] by (simp add: tf tr(2) deref_def)
  moreover have "MainTree m \<noteq> sample_tree" using i(6) by (auto simp: isEmpty_def sample_tree_def invalidPgno_def)
  ultimately show thesis
    by (intro that [of t e f mt m]) (simp_all add: tf tr(2) ef env_valid_def e_def sample_wenv_def sample_env_def)
qed

section \<open>Beginning a reader\<close>

lemma copy_trees_total:
  assumes "n \<le> length (dbis e)" "n \<le> length ts"
  shows "\<exists>ts'. copy_trees e n ts = Some ts' \<and> length ts' = length ts"
  using assms
proof (induction n)
  case 0
  then show ?case by (simp add: copy_trees_def)
next
  case (Suc n)
  then obtain ts' where "copy_trees e n ts = Some ts'" "length ts' = length ts" by auto
  then show ?case using Suc.prems by (cases "2 \<le> n") (auto simp: copy_trees_def copy_tree_def split: option.splits)
qed

lemma init_read_total:
  assumes "2 \<le> unat (maxDBs e)" "unat (maxDBs e) \<le> length (dbis e)"
  shows "\<exists>t'. init_read e m t = Some t'"
proof -
  define ts where "ts = (if length (trees t) \<ge> unat (maxDBs e) then take (unat (maxDBs e)) (trees t) else replicate (unat (maxDBs e)) zero_tree)"
  have l: "length ts = unat (maxDBs e)" by (simp add: ts_def)
  then have "core_trees m ts = Some (ts[0 := GCTree m, 1 := MainTree m])" using assms by (simp add: core_trees_def)
  moreover from copy_trees_total [OF assms(2), of "ts[0 := GCTree m, 1 := MainTree m]"] obtain ts' where
    "copy_trees e (unat (maxDBs e)) (ts[0 := GCTree m, 1 := MainTree m]) = Some ts'" using l by auto
  ultimately show ?thesis by (simp add: init_read_def ts_def [symmetric] Let_def)
qed

text \<open>A read transaction that began: its slot was free and carries the id of the meta.\<close>

definition began_reading :: "db \<Rightarrow> lockFile \<Rightarrow> meta \<Rightarrow> db \<Rightarrow> txh \<Rightarrow> bool" where
  "began_reading d lf m d' h \<longleftrightarrow> (\<exists>i lf'. hslot h = Some i \<and> i < length (lf_slots lf) \<and> i \<notin> held_slots lf \<and> dlk d' = Some lf' \<and>
     rs_txnid (lf_slots lf' ! i) = txnID m \<and> (\<forall>j. j \<noteq> i \<longrightarrow> lf_slots lf' ! j = lf_slots lf ! j)) \<and>
     txn_valid (htxn h) \<and> IsReadOnly (htxn h) \<and> txnID_of (htxn h) = txnID m \<and> mmapData (htxn h) = dataMap (denv d) \<and>
     trees (htxn h) ! 0 = GCTree m \<and> trees (htxn h) ! 1 = MainTree m"

lemma begin_read:
  assumes "env_valid (denv d)" "dataMap (denv d) \<noteq> None" "dlk d = Some lf" "lock_inv lf"
    and "envMeta (denv d) = Some mt" "recentMeta mt = Some m" "2 \<le> unat (maxDBs (denv d))" "unat (maxDBs (denv d)) \<le> length (dbis (denv d))"
    and "fl AND TxnReadOnly \<noteq> 0"
  shows "\<exists>d' r. BeginTxn k fl d = Some (d', r) \<and> denv d' = denv d \<and> dfile d' = dfile d \<and>
    (case r of Waits \<Rightarrow> False | Refused err \<Rightarrow> held_slots lf = {..< length (lf_slots lf)} | Begun h \<Rightarrow> began_reading d lf m d' h)"
proof -
  from reader_acquire_ok [OF assms(4), of "kPid k" 0] obtain lf1 r where a: "acquireReaderSlot (kPid k) 0 lf = Some (lf1, r)"
    "(case r of Inl e \<Rightarrow> e = errLockReadersFull \<and> lf_slots lf1 = lf_slots lf \<and> held_slots lf = {..< length (lf_slots lf)}
     | Inr i \<Rightarrow> i < length (lf_slots lf) \<and> i \<notin> held_slots lf \<and> lf_slots lf1 = (lf_slots lf)[i := claim_slot (kPid k) 0 (lf_slots lf ! i)])"
    by blast
  show ?thesis
  proof (cases r)
    case (Inl err)
    then show ?thesis using a assms by (simp add: BeginTxn_def beginReadTxn_def Let_def)
  next
    case (Inr i)
    define d1 where "d1 = d\<lparr>dlk := Some lf1\<rparr>"
    obtain h d2 where g: "getReadTxnFromCache d1 = (h, d2)" by fastforce
    have d2: "denv d2 = denv d" "dfile d2 = dfile d" "dlk d2 = Some lf1"
      using g by (auto simp: getReadTxnFromCache_def new_txh_def d1_def split: if_splits)
    obtain t where t: "init_read (denv d) m (htxn h) = Some t" using init_read_total [OF assms(7,8)] by blast
    define lf2 where "lf2 = lf1\<lparr>lf_slots := (lf_slots lf1)[i := (lf_slots lf1 ! i)\<lparr>rs_txnid := txnID m\<rparr>]\<rparr>"
    have i: "i < length (lf_slots lf)" "i \<notin> held_slots lf" "lf_slots lf1 = (lf_slots lf)[i := claim_slot (kPid k) 0 (lf_slots lf ! i)]"
      using a(2) Inr by simp_all
    have s: "set_slot i (txnID m) d2 = Some (d2\<lparr>dlk := Some lf2\<rparr>)" using i d2(3) by (simp add: set_slot_def setReaderTxnid_def lf2_def)
    have "BeginTxn k fl d = Some (d2\<lparr>dlk := Some lf2, dwg := dwg d2 + 1\<rparr>, Begun (h\<lparr>htxn := t, hslot := Some i\<rparr>))"
      using a(1) assms g t s d2(1) Inr by (simp add: BeginTxn_def beginReadTxn_def Let_def flip: d1_def)
    moreover have "rs_txnid (lf_slots lf2 ! i) = txnID m" "\<forall>j. j \<noteq> i \<longrightarrow> lf_slots lf2 ! j = lf_slots lf ! j"
      using i by (simp_all add: lf2_def)
    ultimately show ?thesis using i(1,2) d2 init_read_ok [OF t] by (simp add: began_reading_def)
  qed
qed

text \<open>C29: a read transaction begins unless every reader slot is taken.  BeginTxn returns, does not touch the
  environment, and when it succeeds the transaction has a slot that was free, the slot carries the id of
  the newest committed meta (the snapshot a later writer must respect), the other slots are as they were,
  and the transaction has that meta's trees and the mapping of the environment.\<close>

theorem begin_read_ok:
  assumes "env_valid (denv d)" "dataMap (denv d) \<noteq> None" "dlk d = Some lf" "lock_inv lf"
    and "envMeta (denv d) = Some mt" "recentMeta mt = Some m" "2 \<le> unat (maxDBs (denv d))" "unat (maxDBs (denv d)) \<le> length (dbis (denv d))"
    and "fl AND TxnReadOnly \<noteq> 0"
  shows "\<exists>d' r. BeginTxn k fl d = Some (d', r) \<and> denv d' = denv d \<and> dfile d' = dfile d \<and>
    (case r of Waits \<Rightarrow> False | Refused err \<Rightarrow> held_slots lf = {..< length (lf_slots lf)} | Begun h \<Rightarrow> began_reading d lf m d' h)"
  by (rule begin_read [OF assms])

lemma small_held: "held_slots small_locks = {}" "lock_inv small_locks" "length (lf_slots small_locks) = 1"
  by (simp_all add: held_slots_def small_locks_def free_slot_def lock_inv_def nth_Cons')

lemma read_only_flag: "TxnReadOnly AND TxnReadOnly \<noteq> 0"
  by (simp add: TxnReadOnly_def)

theorem begin_read_ok_witness:
  "\<exists>d d' h m. BeginTxn calm TxnReadOnly d = Some (d', Begun h) \<and> began_reading d small_locks m d' h"
proof -
  obtain e f mt m t where s: "commit_ready calm \<lparr>haddr = 0, htxn = t, hslot = None\<rparr> (small_db e f) f mt 2 m" "env_valid e"
    "maxDBs e = 16" "dbis e = replicate 16 None" by (rule small_commit)
  have i: "dataMap e = Some f" "envMeta e = Some mt" "recentMeta mt = Some m"
    using s(1) by (auto simp: commit_ready_def commit_pre_def small_db_def)
  have d: "denv (small_db e f) = e" "dlk (small_db e f) = Some small_locks" by (simp_all add: small_db_def)
  obtain d' r where r: "BeginTxn calm TxnReadOnly (small_db e f) = Some (d', r)"
    "case r of Waits \<Rightarrow> False | Refused err \<Rightarrow> held_slots small_locks = {..< length (lf_slots small_locks)}
       | Begun h \<Rightarrow> began_reading (small_db e f) small_locks m d' h"
    using begin_read_ok [of "small_db e f" small_locks mt m TxnReadOnly calm, unfolded d, OF s(2) _ refl small_held(2) i(2,3) _ _ read_only_flag]
      s(3,4) i(1) by auto
  have "{..< (1 :: nat)} \<noteq> {}" by auto
  then show ?thesis using r by (cases r) (use small_held in auto)
qed

section \<open>A reader after a commit\<close>

text \<open>The second transaction sees the trees and the pages of the first.\<close>

definition publishes :: "env \<Rightarrow> txn \<Rightarrow> env \<Rightarrow> txn \<Rightarrow> bool" where
  "publishes e t e2 t2 \<longleftrightarrow> txn_valid t2 \<and> IsReadOnly t2 \<and> txnID_of t2 = txnID_of t \<and> trees t2 ! 1 = trees t ! 1 \<and>
     (\<forall>i. 2 \<le> i \<longrightarrow> i < unat (maxDBs e) \<longrightarrow> i < length (dbis e) \<longrightarrow> named e i \<longrightarrow> is_dirty t i \<longrightarrow> trees t2 ! i = trees t ! i) \<and>
     (\<forall>q p. 3 \<le> unat q \<longrightarrow> seen e t q = Some p \<longrightarrow> page_source e2 t2 [] q = Some p)"

lemma reader_publishes:
  assumes "committed d t (committed_meta (commit_of k (denv d) t) rm) d'" "beginReadTxn k2 d' = Some (d2, Inr h2)"
  shows "publishes (denv d) t (denv d2) (htxn h2)"
    "length (trees (htxn h2)) = unat (maxDBs (denv d))" "2 \<le> unat (maxDBs (denv d))"
    "dbiComparators (htxn h2) = replicate (unat (maxDBs (denv d))) None"
    "dbiUsesDefaultCmp (htxn h2) = replicate (unat (maxDBs (denv d))) False" "\<And>i. env_cmp (denv d2) i = env_cmp (denv d) i"
proof -
  let ?e = "denv d"
  obtain f mt sb where c: "denv d' = ?e\<lparr>dataMap := Some f, envMeta := Some mt, spillBuf := sb,
      dbis := map (cached_table ?e t) [0..<length (dbis ?e)]\<rparr>" "recentMeta mt = Some (committed_meta (commit_of k ?e t) rm)"
    "\<forall>q p. 3 \<le> unat q \<longrightarrow> seen ?e t q = Some p \<longrightarrow> file_page (unat (envPageSize ?e)) f (unat q) = Some (Data p)"
    using assms(1) by (auto simp: committed_def)
  have m: "envMeta (denv d') = Some mt" by (simp add: c)
  from beginReadTxn_ok [OF assms(2) m c(2)] obtain t0 where
    d2: "denv d2 = denv d'" and i: "init_read (denv d') (committed_meta (commit_of k ?e t) rm) t0 = Some (htxn h2)" by blast
  note r = init_read_ok [OF i]
  show "length (trees (htxn h2)) = unat (maxDBs ?e)" "2 \<le> unat (maxDBs ?e)"
    "dbiComparators (htxn h2) = replicate (unat (maxDBs ?e)) None" "dbiUsesDefaultCmp (htxn h2) = replicate (unat (maxDBs ?e)) False"
    using r by (simp_all add: c)
  show "env_cmp (denv d2) i = env_cmp ?e i" for i
    by (auto simp: d2 c(1) env_cmp_def cached_table_def split: option.splits) (cases "dbis ?e ! i"; simp)
  have "trees (htxn h2) ! i = trees t ! i" if "2 \<le> i" "i < unat (maxDBs ?e)" "i < length (dbis ?e)" "named ?e i" "is_dirty t i" for i
    using r(10) [of i "trees t ! i"] that by (auto simp: c(1) cached_table_def named_def)
  moreover have "page_source (denv d2) (htxn h2) [] q = Some p" if "3 \<le> unat q" "seen ?e t q = Some p" for q p
    using c(3) that r(2,4,5) by (simp add: page_source_def mapped_def c(1) rd_map_page)
  ultimately show "publishes ?e t (denv d2) (htxn h2)"
    using r(1-3,7) by (simp add: publishes_def commit_of_def)
qed

lemma BeginTxn_reader:
  assumes "fl AND TxnReadOnly \<noteq> 0" "BeginTxn k fl d = Some (d2, Begun h2)"
  shows "beginReadTxn k d = Some (d2, Inr h2)"
proof -
  obtain b where b: "beginReadTxn k d = Some (d2, b)" "(case b of Inl err \<Rightarrow> Refused err | Inr h \<Rightarrow> Begun h) = Begun h2"
    using assms by (auto simp: BeginTxn_def bind_eq_Some_conv split: if_splits)
  then show ?thesis by (cases b) simp_all
qed

text \<open>The readers that can begin: the environment is open, and a slot is free.\<close>

definition readers_open :: "db \<Rightarrow> bool" where
  "readers_open d \<longleftrightarrow> env_valid (denv d) \<and> 2 \<le> unat (maxDBs (denv d)) \<and> unat (maxDBs (denv d)) \<le> length (dbis (denv d)) \<and>
     (\<exists>lf. dlk d = Some lf \<and> lock_inv lf \<and> held_slots lf \<noteq> {..< length (lf_slots lf)})"

lemma reader_after:
  assumes c: "committed d t (committed_meta (commit_of k (denv d) t) rm) d'" and o: "readers_open d" and fl: "fl AND TxnReadOnly \<noteq> 0"
  obtains d2 h2 where "BeginTxn k2 fl d' = Some (d2, Begun h2)" "beginReadTxn k2 d' = Some (d2, Inr h2)" "denv d2 = denv d'"
proof -
  obtain f mt sb u where d': "denv d' = (denv d)\<lparr>dataMap := Some f, envMeta := Some mt, spillBuf := sb,
      dbis := map (cached_table (denv d) t) [0..<length (dbis (denv d))]\<rparr>" "dlk d' = map_option (\<lambda>lf. fst (unlockWriter u lf)) (dlk d)"
    "recentMeta mt = Some (committed_meta (commit_of k (denv d) t) rm)"
    using c unfolding committed_def by blast
  obtain lf where lf: "dlk d = Some lf" "lock_inv lf" "held_slots lf \<noteq> {..< length (lf_slots lf)}" using o by (auto simp: readers_open_def)
  have u: "lf_slots (fst (unlockWriter u lf)) = lf_slots lf" "lock_inv (fst (unlockWriter u lf))"
    "held_slots (fst (unlockWriter u lf)) = held_slots lf"
    using lf(2) by (simp_all add: unlockWriter_def lock_inv_def held_slots_def split: option.splits)
  have mt: "envMeta (denv d') = Some mt" by (simp add: d')
  have "env_valid (denv d')" "dataMap (denv d') \<noteq> None" "2 \<le> unat (maxDBs (denv d'))" "unat (maxDBs (denv d')) \<le> length (dbis (denv d'))"
    using o by (simp_all add: readers_open_def d' env_valid_def)
  moreover have "dlk d' = Some (fst (unlockWriter u lf))" using d'(2) lf(1) by simp
  ultimately obtain d2 r where r: "BeginTxn k2 fl d' = Some (d2, r)" "denv d2 = denv d'"
      "case r of Waits \<Rightarrow> False | Refused err \<Rightarrow> held_slots (fst (unlockWriter u lf)) = {..< length (lf_slots (fst (unlockWriter u lf)))}
       | Begun h \<Rightarrow> began_reading d' (fst (unlockWriter u lf)) (committed_meta (commit_of k (denv d) t) rm) d2 h"
    using begin_read [of d' "fst (unlockWriter u lf)" mt "committed_meta (commit_of k (denv d) t) rm" fl k2] u(2) mt d'(3) fl by auto
  then obtain h2 where h2: "r = Begun h2" using lf(3) u by (cases r) auto
  show thesis using that [OF _ _ r(2)] r(1) BeginTxn_reader [OF fl] by (simp add: h2)
qed

text \<open>C7: a successful Commit without WriteMap publishes the transaction.  For a write transaction that is ready to
  commit (commit_ready: its dirty pages lie behind the metas and below the allocation limit, the mapping
  shows the file, the environment has its newest meta), whose named trees are stored, when the operating
  system accepts every write: Commit returns without an error, the object is no longer a transaction and the
  writer's place is free.  While a reader slot is free, a read transaction begins afterwards and has the id,
  the main tree, the changed named trees and every page behind the metas as the write transaction last saw
  them.\<close>

theorem commit_publishes:
  assumes "txn_valid (htxn h0)" "\<not> IsReadOnly (htxn h0)" "persistNamedDBTrees k h0 d0 = Some (d, h, None)"
    and "commit_ready k h d m mt r rm" "dirty_bound (denv d) (htxn h)" "readers_open d" "fl AND TxnReadOnly \<noteq> 0"
  shows "\<exists>d' h' d2 h2. Commit k h0 d0 = Some (d', h', None) \<and> \<not> txn_valid (htxn h') \<and> dwriter d' = None \<and>
    BeginTxn k2 fl d' = Some (d2, Begun h2) \<and> publishes (denv d) (htxn h) (denv d2) (htxn h2)"
proof -
  from Commit_ok [OF assms(1-5)] obtain d' h' where c: "Commit k h0 d0 = Some (d', h', None)" "\<not> txn_valid (htxn h')"
    "committed d (htxn h) (committed_meta (commit_of k (denv d) (htxn h)) rm) d'" by blast
  from reader_after [OF c(3) assms(6,7)] obtain d2 h2 where
    b: "BeginTxn k2 fl d' = Some (d2, Begun h2)" "beginReadTxn k2 d' = Some (d2, Inr h2)" by metis
  have "dwriter d' = None" using c(3) by (simp add: committed_def)
  with c b reader_publishes(1) [OF c(3) b(2)] show ?thesis by blast
qed

lemma small_persist: "dbiDirty (htxn h) = None \<Longrightarrow> persistNamedDBTrees k h d = Some (d, h, None)"
  by (simp add: persistNamedDBTrees_def dirty_tables_def)

lemma small_open: "env_valid e \<Longrightarrow> maxDBs e = 16 \<Longrightarrow> dbis e = replicate 16 None \<Longrightarrow> readers_open (small_db e f)"
  using small_held by (auto simp: readers_open_def small_db_def)

lemma small_valid: "commit_ready k h d m mt r rm \<Longrightarrow> txn_valid (htxn h) \<and> \<not> IsReadOnly (htxn h)"
  using wtxn_okD(6) by (auto simp: commit_ready_def)

theorem commit_publishes_witness:
  "\<exists>h d d' h' d2 h2. Commit calm h d = Some (d', h', None) \<and> BeginTxn calm TxnReadOnly d' = Some (d2, Begun h2) \<and>
    txnID_of (htxn h2) = 4 \<and> page_source (denv d2) (htxn h2) [] 5 = Some \<lparr>Data = wide_leaf\<rparr>"
proof -
  obtain e f mt m t where s: "commit_ready calm \<lparr>haddr = 0, htxn = t, hslot = None\<rparr> (small_db e f) f mt 2 m" "env_valid e"
    "maxDBs e = 16" "dbis e = replicate 16 None" "dbiDirty t = None" "seen e t 5 = Some \<lparr>Data = wide_leaf\<rparr>" "txnID_of t = 4"
    by (rule small_commit)
  let ?h = "\<lparr>haddr = 0, htxn = t, hslot = None\<rparr>"
  have v: "txn_valid (htxn ?h)" "\<not> IsReadOnly (htxn ?h)" using small_valid [OF s(1)] by simp_all
  have p: "persistNamedDBTrees calm ?h (small_db e f) = Some (small_db e f, ?h, None)" by (rule small_persist) (simp add: s(5))
  have bd: "dirty_bound (denv (small_db e f)) (htxn ?h)" by (simp add: dirty_bound_def s(5))
  from commit_publishes [OF v p s(1) bd small_open [OF s(2-4)] read_only_flag, of calm] obtain d' h' d2 h2 where
    "Commit calm ?h (small_db e f) = Some (d', h', None)" "BeginTxn calm TxnReadOnly d' = Some (d2, Begun h2)"
    "publishes e t (denv d2) (htxn h2)" by (auto simp: small_db_def)
  then show ?thesis using s(6,7) by (intro exI conjI) (auto simp: publishes_def)
qed

text \<open>C6: what a write transaction has, the readers after its commit find, when the commit does not use WriteMap
  (commit_ready), the named trees are stored, the operating system accepts every write and a reader slot is
  free.  For a non-empty table whose tree lies behind the metas and is in order in the writer's view (the main
  table, or a named one the transaction changed), Txn.Get of a reader begun after the commit finds the node
  that the writer's tree has for the key, and returns not found when it has none.  It returns the data of an
  unflagged node; of a node of a large value or of duplicates it returns what its own view has behind that
  node.\<close>

theorem commit_then_get:
  assumes "txn_valid (htxn h0)" "\<not> IsReadOnly (htxn h0)" "persistNamedDBTrees k h0 d0 = Some (d, h, None)"
    and "commit_ready k h d m mt r rm" "dirty_bound (denv d) (htxn h)" "readers_open d" "fl AND TxnReadOnly \<noteq> 0"
    and "i = 1 \<or> 2 \<le> i \<and> i < unat (maxDBs (denv d)) \<and> i < length (dbis (denv d)) \<and> named (denv d) i \<and> is_dirty (htxn h) i"
    and "cmp = (case env_cmp (denv d) i of Some c \<Rightarrow> c | None \<Rightarrow> bytes_compare)" "key_order cmp"
    and "tr = trees (htxn h) ! i" "\<not> isEmpty tr" "tree_ok cmp (seen (denv d) (htxn h)) hh (Root tr) None None"
    and "\<forall>q \<in> set (tpages (seen (denv d) (htxn h)) hh (Root tr)). 3 \<le> unat q"
    and "nodes = leaf_nodes (seen (denv d) (htxn h)) hh (Root tr)"
  shows "\<exists>d' h' d2 h2 t2. Commit k h0 d0 = Some (d', h', None) \<and> BeginTxn k2 fl d' = Some (d2, Begun h2) \<and>
    txn_Get (denv d2) [htxn h2] i x =
      (case find_node cmp nodes x of
         None \<Rightarrow> Some ([t2], Inl ErrNotFoundError)
       | Some nd \<Rightarrow> if nd_flags nd = 0 then Some ([t2], Inr (nd_data nd)) else value_of (denv d2) [t2] nd)"
proof -
  from Commit_ok [OF assms(1-5)] obtain d' h' where c: "Commit k h0 d0 = Some (d', h', None)"
    "committed d (htxn h) (committed_meta (commit_of k (denv d) (htxn h)) rm) d'" by blast
  from reader_after [OF c(2) assms(6,7)] obtain d2 h2 where
    b: "BeginTxn k2 fl d' = Some (d2, Begun h2)" "beginReadTxn k2 d' = Some (d2, Inr h2)" by metis
  note p = reader_publishes [OF c(2) b(2)]
  let ?rd = "seen (denv d) (htxn h)" and ?t = "htxn h2" and ?src = "page_source (denv d2) (htxn h2) []"
  have i: "0 < i" "i < unat (maxDBs (denv d))" using assms(8) p(3) by auto
  have cmp: "table_cmp (denv d2) ?t i = cmp" using i assms(9) by (simp add: table_cmp_def p(4,6))
  have tr: "trees ?t ! i = tr" using p(1) assms(8,11) i by (auto simp: publishes_def)
  have "tall kind_ok ?rd hh (Root tr)" using assms(13) by (simp add: tree_ok_bt)
  then have "?src q = ?rd q" if "q \<in> set (tpages ?rd hh (Root tr))" for q
    using tall_pages [OF _ that] assms(14) that p(1) by (fastforce simp: publishes_def)
  note same = tree_frame [OF this]
  have ok: "tree_ok cmp ?src hh (Root tr) None None" using assms(13) same by (simp add: tree_ok_bt)
  have "txn_valid ?t" "i < length (trees ?t)" "cmp_cache_ok ?t i" using p(1,2) i by (simp_all add: publishes_def cmp_cache_ok_def p(4,5))
  with txn_Get_ok [of ?t i "denv d2" "[]" hh x] i assms(10,12) ok obtain t2 where
    g: "txn_Get (denv d2) [?t] i x = lookup_value (denv d2) [t2] cmp (leaf_nodes ?src hh (Root tr)) x"
    by (auto simp: cmp tr)
  have nodes: "leaf_nodes ?src hh (Root tr) = nodes" using same assms(15) by (simp add: leaf_nodes_abst)
  have "value_of (denv d2) [t2] nd = Some ([t2], Inr (nd_data nd))" if "nd_flags nd = 0" for nd
    using that by (simp add: value_of_def nd_big_def)
  then have "txn_Get (denv d2) [?t] i x =
      (case find_node cmp nodes x of
         None \<Rightarrow> Some ([t2], Inl ErrNotFoundError)
       | Some nd \<Rightarrow> if nd_flags nd = 0 then Some ([t2], Inr (nd_data nd)) else value_of (denv d2) [t2] nd)"
    by (simp add: g nodes lookup_value_def split: option.split)
  then show ?thesis using c(1) b(1) by blast
qed

theorem commit_then_get_witness:
  "\<exists>h d d' h' d2 h2 t2. Commit calm h d = Some (d', h', None) \<and> BeginTxn calm TxnReadOnly d' = Some (d2, Begun h2) \<and>
    txn_Get (denv d2) [htxn h2] 1 [100] = Some ([t2], Inr [121, 122])"
proof -
  obtain e f mt m t where s: "commit_ready calm \<lparr>haddr = 0, htxn = t, hslot = None\<rparr> (small_db e f) f mt 2 m" "env_valid e"
    "maxDBs e = 16" "dbis e = replicate 16 None" "trees t ! 1 = sample_tree" "dbiDirty t = None"
    "seen e t 5 = Some \<lparr>Data = wide_leaf\<rparr>" by (rule small_commit)
  let ?h = "\<lparr>haddr = 0, htxn = t, hslot = None\<rparr>" and ?nds = "[sample_node [98] [120], sample_node [100] [121, 122]]"
  have v: "txn_valid (htxn ?h)" "\<not> IsReadOnly (htxn ?h)" using small_valid [OF s(1)] by simp_all
  have p: "persistNamedDBTrees calm ?h (small_db e f) = Some (small_db e f, ?h, None)" by (rule small_persist) (simp add: s(6))
  have bd: "dirty_bound (denv (small_db e f)) (htxn ?h)" by (simp add: dirty_bound_def s(6))
  have tree: "\<not> isEmpty sample_tree" "Root sample_tree = 5" by (simp_all add: isEmpty_def sample_tree_def invalidPgno_def)
  have cmp: "env_cmp e 1 = None" by (simp add: env_cmp_def s(4))
  have "keys_sorted bytes_compare \<lparr>Data = wide_leaf\<rparr>"
    by (simp add: keys_sorted_def sorted_from_def keys_of_def wide_leaf_page sample_node_eval bytes_compare_def)
  then have ok: "tree_ok bytes_compare (seen e t) 0 5 None None" using s(7) wide_leaf_page by (simp add: in_range_def)
  have f: "nd_flags (sample_node [98] [120]) = 0" "nd_flags (sample_node [100] [121, 122]) = 0" "nd_data (sample_node [100] [121, 122]) = [121, 122]"
    by (simp_all add: sample_node_eval nd_flags_def nd_data_def)
  from commit_then_get [OF v p s(1) bd small_open [OF s(2-4)] read_only_flag, of 1 bytes_compare sample_tree 0 ?nds calm "[100]"]
    obtain d' h' d2 h2 t2 where "Commit calm ?h (small_db e f) = Some (d', h', None)" "BeginTxn calm TxnReadOnly d' = Some (d2, Begun h2)"
      "txn_Get (denv d2) [htxn h2] 1 [100] = Some ([t2], Inr [121, 122])"
    using cmp tree ok bytes.key_order_axioms s(5,7) f
    by (auto simp: small_db_def wide_leaf_page find_node_def put_cst_keys bytes_compare_def)
  then show ?thesis by blast
qed



section \<open>Ending a transaction\<close>

lemma abortInternal_writer:
  assumes "abortInternal k h d = Some (d', h')"
  shows "signature (htxn h') = 0" "\<not> IsReadOnly (htxn h) \<Longrightarrow> dwriter d' = None" "dwg d' = dwg d - 1" "dfile d' = dfile d"
    "dataMap (denv d') = dataMap (denv d)" "envMeta (denv d') = envMeta (denv d)" "envFlags (denv d') = envFlags (denv d)"
proof -
  have "signature (htxn h') = 0 \<and> (\<not> IsReadOnly (htxn h) \<longrightarrow> dwriter d' = None) \<and> dwg d' = dwg d - 1 \<and> dfile d' = dfile d \<and>
    dataMap (denv d') = dataMap (denv d) \<and> envMeta (denv d') = envMeta (denv d) \<and> envFlags (denv d') = envFlags (denv d)"
  proof (cases "IsReadOnly (htxn h)")
    case True
    obtain d1 where "(case hslot h of Some i \<Rightarrow> release_slot i (close_cursors h d) | None \<Rightarrow> Some (close_cursors h d)) = Some d1"
      using assms True by (auto simp: abortInternal_def Let_def bind_eq_Some_conv)
    then show ?thesis using assms True
      by (auto simp: abortInternal_def Let_def bind_eq_Some_conv close_cursors_def release_slot_def returnReadTxnToCache_def
        split: option.splits)
  next
    case False
    let ?t = "(htxn h)\<lparr>dirtyTracker := Clear (dirtyTracker (htxn h)), freePages := [], hasNonMmapPages := False\<rparr>"
    obtain d1 e t where r: "unlock_writer k (close_cursors h d) = Some d1" "release_spill (denv d1) ?t = Some (e, t)"
      using assms False by (auto simp: abortInternal_def Let_def bind_eq_Some_conv)
    have "dataMap e = dataMap (denv d1) \<and> envMeta e = envMeta (denv d1) \<and> envFlags e = envFlags (denv d1)"
      using r(2) by (auto simp: release_spill_def bind_eq_Some_conv split: option.splits if_splits)
    moreover have "dfile d1 = dfile d" "dwg d1 = dwg d" "denv d1 = denv d"
      using r(1) by (auto simp: unlock_writer_def close_cursors_def)
    ultimately show ?thesis using assms False r by (simp add: abortInternal_def Let_def returnWriteTxnToCache_def) auto
  qed
  then show "signature (htxn h') = 0" "\<not> IsReadOnly (htxn h) \<Longrightarrow> dwriter d' = None" "dwg d' = dwg d - 1" "dfile d' = dfile d"
    "dataMap (denv d') = dataMap (denv d)" "envMeta (denv d') = envMeta (denv d)" "envFlags (denv d') = envFlags (denv d)" by blast+
qed

text \<open>C30: Abort always ends the transaction.  It returns, the object is no longer valid, files and mapping are as
  they were; the writer's place is free again (a next writer does not wait), or the reader's slot is free
  and no other slot changed.\<close>

theorem abort_ends:
  assumes "txn_valid (htxn h)" "dlk d = Some lf" "lock_inv lf"
    and "if IsReadOnly (htxn h) then \<exists>i < length (lf_slots lf). hslot h = Some i else spill_ready 0 (denv d)"
  shows "\<exists>d' h' lf'. Abort k h d = Some (d', h') \<and> \<not> txn_valid (htxn h') \<and> dfile d' = dfile d \<and> dlk d' = Some lf' \<and>
    dataMap (denv d') = dataMap (denv d) \<and> envMeta (denv d') = envMeta (denv d) \<and>
    held_slots lf' = held_slots lf - set_option (if IsReadOnly (htxn h) then hslot h else None) \<and>
    (\<not> IsReadOnly (htxn h) \<longrightarrow> (\<forall>k fl d''. beginWriteTxn k fl d' \<noteq> Some (d'', Waits)))"
proof -
  have "\<exists>d' h' lf'. abortInternal k h d = Some (d', h') \<and> dlk d' = Some lf' \<and>
    held_slots lf' = held_slots lf - set_option (if IsReadOnly (htxn h) then hslot h else None)"
  proof (cases "IsReadOnly (htxn h)")
    case True
    then obtain i where i: "i < length (lf_slots lf)" "hslot h = Some i" using assms(4) by auto
    from reader_release_ok [OF assms(3) i(1)] obtain lf' where "releaseReaderSlot i lf = Some lf'" "held_slots lf' = held_slots lf - {i}" by blast
    then show ?thesis using True i assms(2)
      by (simp add: abortInternal_def Let_def close_cursors_def release_slot_def returnReadTxnToCache_def)
  next
    case False
    let ?t = "(htxn h)\<lparr>dirtyTracker := Clear (dirtyTracker (htxn h)), freePages := [], hasNonMmapPages := False\<rparr>"
    obtain sb sl where "release_spill (denv d) ?t = Some ((denv d)\<lparr>spillBuf := sb\<rparr>, ?t\<lparr>spillSlots := sl\<rparr>)"
      using release_spill_ok [of 0 "denv d" ?t] False assms(4) by auto
    moreover have "held_slots (fst (unlockWriter u lf)) = held_slots lf" for u
      by (simp add: unlockWriter_def held_slots_def split: option.splits)
    ultimately show ?thesis using False assms(2)
      by (simp add: abortInternal_def Let_def close_cursors_def unlock_writer_def returnWriteTxnToCache_def)
  qed
  then obtain d' h' lf' where a: "abortInternal k h d = Some (d', h')" "dlk d' = Some lf'"
    "held_slots lf' = held_slots lf - set_option (if IsReadOnly (htxn h) then hslot h else None)" by blast
  note w = abortInternal_writer [OF a(1)]
  have "beginWriteTxn k fl d' \<noteq> Some (d'', Waits)" if "\<not> IsReadOnly (htxn h)" for k fl d''
    using w(2) [OF that] by (auto simp: beginWriteTxn_def Let_def bind_eq_Some_conv split: if_splits option.splits prod.splits)
  then show ?thesis using a w assms(1) by (simp add: Abort_def txn_valid_def txnSignature_def)
qed

theorem abort_ends_witness:
  "\<exists>h d d' h'. txn_valid (htxn h) \<and> Abort calm h d = Some (d', h') \<and> \<not> txn_valid (htxn h') \<and>
    (\<forall>fl d''. beginWriteTxn calm fl d' \<noteq> Some (d'', Waits))"
proof -
  obtain e f mt m t where s: "commit_ready calm \<lparr>haddr = 0, htxn = t, hslot = None\<rparr> (small_db e f) f mt 2 m" by (rule small_commit)
  let ?h = "\<lparr>haddr = 0, htxn = t, hslot = None\<rparr>"
  have v: "txn_valid (htxn ?h)" "\<not> IsReadOnly (htxn ?h)" using small_valid [OF s] by simp_all
  have "spill_ready 0 (denv (small_db e f))" using s wtxn_okD(3) by (auto simp: commit_ready_def)
  then show ?thesis
    using abort_ends [OF v(1), of "small_db e f" small_locks calm] v
    by (fastforce simp: small_db_def small_locks_def lock_inv_def)
qed

end
