(* ===== verification/TxnOps.thy ===== *)
theory TxnOps
  imports TxnLife
begin

text \<open>
  The operations of a transaction beside its beginning and end (txn.go, dbi.go, compat.go): resetting,
  parking and renewing a reader, opening, creating, dropping and listing tables, Put, Del and their
  variants, statistics, and running a function in a transaction.  A function of the program is an
  argument that takes the transaction object and the database.
\<close>

type_synonym 'a db_result = "(db \<times> txh \<times> 'a) option"
type_synonym txn_op = "txh \<Rightarrow> db \<Rightarrow> goerror option db_result"

section \<open>Reset and Renew, Park and Unpark\<close>

definition give_slot :: "txh \<Rightarrow> db \<Rightarrow> (db \<times> txh) option" where
  "give_slot h d =
     (case hslot h of None \<Rightarrow> Some (d, h) | Some i \<Rightarrow> do { d \<leftarrow> release_slot i d; Some (d, h\<lparr>hslot := None\<rparr>) })"

definition Reset :: "txh \<Rightarrow> db \<Rightarrow> (db \<times> txh) option" where
  "Reset h d =
     (if \<not> txn_valid (htxn h) \<or> \<not> IsReadOnly (htxn h) then Some (d, h) else give_slot h (close_cursors h d))"

definition Park :: "txh \<Rightarrow> db \<Rightarrow> goerror option db_result" where
  "Park h d =
     (if \<not> txn_valid (htxn h) \<or> \<not> IsReadOnly (htxn h) then Some (d, h, Some (NewError ErrBadTxn))
      else do { (d, h) \<leftarrow> give_slot h d; Some (d, h, None) })"

definition claim_reader :: "u32 \<Rightarrow> u64 \<Rightarrow> db \<Rightarrow> (db \<times> (goerror + nat)) option" where
  "claim_reader pid tid d = do { lf \<leftarrow> dlk d; (lf, r) \<leftarrow> acquireReaderSlot pid tid lf; Some (d\<lparr>dlk := Some lf\<rparr>, r) }"

text \<open>The address of the transaction object stands for its thread.\<close>

definition Unpark :: "kernel \<Rightarrow> txh \<Rightarrow> db \<Rightarrow> goerror option db_result" where
  "Unpark k h d =
     (if \<not> txn_valid (htxn h) \<or> \<not> IsReadOnly (htxn h) then Some (d, h, Some (NewError ErrBadTxn))
      else if hslot h \<noteq> None then Some (d, h, None)
      else do {
        (d, r) \<leftarrow> claim_reader (kPid k) (of_nat (haddr h)) d;
        case r of
          Inl err \<Rightarrow> Some (d, h, Some (WrapError ErrReadersFull err))
        | Inr i \<Rightarrow> do { d \<leftarrow> set_slot i (txnID_of (htxn h)) d; Some (d, h\<lparr>hslot := Some i\<rparr>, None) } })"

text \<open>Renew claims its slot without a process id.  The trees of all open tables are taken over.\<close>

definition renew_trees :: "env \<Rightarrow> meta \<Rightarrow> tree list \<Rightarrow> tree list option" where
  "renew_trees e m ts = do { ts \<leftarrow> core_trees m ts; copy_trees e (min (length (dbis e)) (length ts)) ts }"

definition Renew :: "txh \<Rightarrow> db \<Rightarrow> goerror option db_result" where
  "Renew h d =
     (if \<not> txn_valid (htxn h) \<or> \<not> IsReadOnly (htxn h) then Some (d, h, Some (NewError ErrBadTxn))
      else if hslot h \<noteq> None then Some (d, h, Some (NewError ErrBadTxn))
      else do {
        (d, r) \<leftarrow> claim_reader 0 0 d;
        case r of
          Inl err \<Rightarrow> Some (d, h, Some (WrapError ErrReadersFull err))
        | Inr i \<Rightarrow>
            do { mt \<leftarrow> envMeta (denv d);
                 f \<leftarrow> dataMap (denv d);
                 let t = (htxn h)\<lparr>mmapData := Some f, txnPageSize := envPageSize (denv d)\<rparr>;
                 case recentMeta mt of
                   None \<Rightarrow> do { d \<leftarrow> release_slot i d; Some (d, h\<lparr>htxn := t\<rparr>, Some (NewError ErrCorrupted)) }
                 | Some m \<Rightarrow>
                     do { d \<leftarrow> set_slot i (txnID m) d;
                          ts \<leftarrow> renew_trees (denv d) m (trees t);
                          Some (d, h\<lparr>htxn := t\<lparr>txnID_of := txnID m, trees := ts\<rparr>, hslot := Some i\<rparr>, None) } } })"

section \<open>Opening tables\<close>

definition find_dbi :: "env \<Rightarrow> bytes \<Rightarrow> nat option" where
  "find_dbi e nm = List.find (\<lambda>i. case dbis e ! i of None \<Rightarrow> False | Some info \<Rightarrow> di_name info = nm) [0..<length (dbis e)]"

fun free_dbi :: "env \<Rightarrow> nat list \<Rightarrow> nat option option" where
  "free_dbi e [] = Some None"
| "free_dbi e (i # is) =
     (if i \<ge> length (dbis e) then None else if dbis e ! i = None then Some (Some i) else free_dbi e is)"

definition set_dbi :: "nat \<Rightarrow> dbiInfo option \<Rightarrow> env \<Rightarrow> env" where
  "set_dbi i x e = e\<lparr>dbis := (dbis e)[i := x]\<rparr>"

definition set_tree :: "nat \<Rightarrow> tree \<Rightarrow> txn \<Rightarrow> txn" where
  "set_tree i tr t = (if i < length (trees t) then t\<lparr>trees := (trees t)[i := tr]\<rparr> else t)"

text \<open>The first free slot becomes the table's; its tree is the environment's and the transaction's.\<close>

definition alloc_dbi :: "dbiInfo \<Rightarrow> tree \<Rightarrow> txh \<Rightarrow> db \<Rightarrow> (goerror + nat) db_result" where
  "alloc_dbi info tr h d =
     do { r \<leftarrow> free_dbi (denv d) [2..<unat (maxDBs (denv d))];
          Some (case r of
              None \<Rightarrow> (d, h, Inl (NewError ErrDBsFull))
            | Some i \<Rightarrow> (d\<lparr>denv := set_dbi i (Some (info\<lparr>di_tree := Some tr\<rparr>)) (denv d)\<rparr>, h\<lparr>htxn := set_tree i tr (htxn h)\<rparr>, Inr i)) }"

definition createNamedDBI :: "kernel \<Rightarrow> dbiInfo \<Rightarrow> nat \<Rightarrow> txh \<Rightarrow> db \<Rightarrow> (goerror + nat) db_result" where
  "createNamedDBI k info p h d =
     do { let tr = zero_tree\<lparr>tFlags := ucast (di_flags info), Root := invalidPgno, ModTxnid := txnID_of (htxn h)\<rparr>;
          b \<leftarrow> serializeTreeToBytes tr;
          (d, h, err) \<leftarrow> with_cursor p (\<lambda>s. PutTree (kWorld k) s (di_name info) b 0) h d;
          case err of Some x \<Rightarrow> Some (d, h, Inl x) | None \<Rightarrow> alloc_dbi info tr h d }"

text \<open>The name in the main table, on the open cursor p.\<close>

definition lookup_dbi :: "kernel \<Rightarrow> dbiInfo \<Rightarrow> nat \<Rightarrow> txh \<Rightarrow> db \<Rightarrow> (goerror + nat) db_result" where
  "lookup_dbi k info p h d =
     do { (d, h, r) \<leftarrow> with_cursor p (\<lambda>s. cursor_Get s (di_name info) None OpSet) h d;
          case r of
            Inl err \<Rightarrow>
              if \<not> IsNotFound (Some err) then Some (d, h, Inl err)
              else if di_flags info AND Create = 0 then Some (d, h, Inl (NewError ErrNotFound))
              else if IsReadOnly (htxn h) then Some (d, h, Inl (NewError ErrPermissionDenied))
              else createNamedDBI k info p h d
          | Inr (_, treeData) \<Rightarrow>
              (case parseTreeFromBytes treeData of
                 None \<Rightarrow> Some (d, h, Inl (NewError ErrCorrupted))
               | Some tr \<Rightarrow>
                   (case find_dbi (denv d) (di_name info) of
                      Some i \<Rightarrow> Some (d, h, Inr i)
                    | None \<Rightarrow> alloc_dbi info tr h d)) }"

definition openNamedDBI :: "kernel \<Rightarrow> dbiInfo \<Rightarrow> txh \<Rightarrow> db \<Rightarrow> (goerror + nat) db_result" where
  "openNamedDBI k info h d =
     (case (if IsReadOnly (htxn h) then None else find_dbi (denv d) (di_name info)) of
        Some i \<Rightarrow>
          Some (d, (case Option.bind (dbis (denv d) ! i) di_tree of None \<Rightarrow> h | Some tr \<Rightarrow> h\<lparr>htxn := set_tree i tr (htxn h)\<rparr>), Inr i)
      | None \<Rightarrow>
          do { (d, h, r) \<leftarrow> db_OpenCursor 1 h d;
               case r of
                 Inl err \<Rightarrow> Some (d, h, Inl err)
               | Inr p \<Rightarrow> do { (d, h, r) \<leftarrow> lookup_dbi k info p h d; Some (close_cursor k p d, h, r) } })"

definition OpenDBI :: "kernel \<Rightarrow> bytes \<Rightarrow> u64 \<Rightarrow> cmp_fn option \<Rightarrow> cmp_fn option \<Rightarrow> txh \<Rightarrow> db \<Rightarrow> (goerror + nat) db_result" where
  "OpenDBI k nm fl cmp dcmp h d =
     (if \<not> txn_valid (htxn h) then Some (d, h, Inl (NewError ErrBadTxn))
      else if nm = [] then Some (d, h, Inr (unat MainDBI))
      else openNamedDBI k \<lparr>di_name = nm, di_flags = fl, di_tree = None, di_cmp = cmp, di_dcmp = dcmp\<rparr> h d)"

definition OpenDBISimple :: "kernel \<Rightarrow> bytes \<Rightarrow> u64 \<Rightarrow> txh \<Rightarrow> db \<Rightarrow> (goerror + nat) db_result" where
  "OpenDBISimple k nm fl = OpenDBI k nm fl None None"

definition CreateDBI :: "kernel \<Rightarrow> bytes \<Rightarrow> txh \<Rightarrow> db \<Rightarrow> (goerror + nat) db_result" where
  "CreateDBI k nm = OpenDBISimple k nm Create"

section \<open>Dropping tables, their flags and comparators\<close>

definition Drop :: "nat \<Rightarrow> bool \<Rightarrow> txh \<Rightarrow> db \<Rightarrow> goerror option db_result" where
  "Drop i delete h d =
     (let t = htxn h in
      if \<not> txn_valid t then Some (d, h, Some (NewError ErrBadTxn))
      else if IsReadOnly t then Some (d, h, Some (NewError ErrPermissionDenied))
      else if i < unat CoreDBs then Some (d, h, Some (NewError ErrInvalid))
      else if i \<ge> length (trees t) then Some (d, h, Some (NewError ErrBadDBI))
      else
        let h = h\<lparr>htxn := markTreeDirty (t\<lparr>trees := (trees t)[i := reset_tree (trees t ! i)]\<rparr>) i\<rparr> in
        if \<not> delete then Some (d, h, None)
        else if i \<ge> length (dbis (denv d)) then None
        else Some (d\<lparr>denv := set_dbi i None (denv d)\<rparr>, h, None))"

definition DBIFlags :: "txn \<Rightarrow> nat \<Rightarrow> goerror + u64" where
  "DBIFlags t i =
     (if \<not> txn_valid t then Inl (NewError ErrBadTxn)
      else if i \<ge> length (trees t) then Inl (NewError ErrBadDBI)
      else Inr (ucast (tFlags (trees t ! i))))"

definition txn_Sequence :: "nat \<Rightarrow> u64 \<Rightarrow> txn \<Rightarrow> txn \<times> (goerror + u64)" where
  "txn_Sequence i increment t =
     (if \<not> txn_valid t then (t, Inl (NewError ErrBadTxn))
      else if i \<ge> length (trees t) then (t, Inl (NewError ErrBadDBI))
      else if increment > 0 \<and> IsReadOnly t then (t, Inl (NewError ErrPermissionDenied))
      else let tr = trees t ! i in
        (if increment > 0 then t\<lparr>trees := (trees t)[i := tr\<lparr>Sequence := Sequence tr + increment\<rparr>]\<rparr> else t, Inr (Sequence tr)))"

definition empty_info :: dbiInfo where
  "empty_info = \<lparr>di_name = [], di_flags = 0, di_tree = None, di_cmp = None, di_dcmp = None\<rparr>"

definition on_dbi :: "nat \<Rightarrow> (dbiInfo \<Rightarrow> dbiInfo) \<Rightarrow> env \<Rightarrow> env \<times> goerror option" where
  "on_dbi i f e =
     (if \<not> env_valid e then (e, Some (NewError ErrInvalid))
      else if i \<ge> length (dbis e) then (e, Some (NewError ErrBadDBI))
      else (set_dbi i (Some (f (case dbis e ! i of None \<Rightarrow> empty_info | Some info \<Rightarrow> info))) e, None))"

definition SetCompare :: "nat \<Rightarrow> cmp_fn option \<Rightarrow> env \<Rightarrow> env \<times> goerror option" where
  "SetCompare i cmp = on_dbi i (di_cmp_update (\<lambda>_. cmp))"

definition SetDupCompare :: "nat \<Rightarrow> cmp_fn option \<Rightarrow> env \<Rightarrow> env \<times> goerror option" where
  "SetDupCompare i cmp = on_dbi i (di_dcmp_update (\<lambda>_. cmp))"

section \<open>Statistics\<close>

record dbStat =
  stPageSize :: u32
  stDepth :: u32
  stBranchPages :: u64
  stLeafPages :: u64
  stLargePages :: u64
  stOverflowPages :: u64
  stEntries :: u64
  stRoot :: u32
  stModTxnID :: u64

definition tree_stat :: "u32 \<Rightarrow> tree \<Rightarrow> dbStat" where
  "tree_stat ps t = \<lparr>stPageSize = ps, stDepth = ucast (Height t), stBranchPages = ucast (BranchPages t), stLeafPages = ucast (LeafPages t),
     stLargePages = ucast (LargePages t), stOverflowPages = ucast (LargePages t), stEntries = Items t, stRoot = Root t,
     stModTxnID = ModTxnid t\<rparr>"

definition txn_Stat :: "env \<Rightarrow> txn \<Rightarrow> nat \<Rightarrow> goerror + dbStat" where
  "txn_Stat e t i =
     (if \<not> txn_valid t then Inl (NewError ErrBadTxn)
      else if i \<ge> length (trees t) then Inl (NewError ErrBadDBI)
      else Inr (tree_stat (envPageSize e) (trees t ! i)))"

definition GetTree :: "txn \<Rightarrow> nat \<Rightarrow> tree option" where
  "GetTree t i = (if i < length (trees t) then Some (trees t ! i) else None)"

definition txn_ID :: "txn \<Rightarrow> u64" where "txn_ID t = txnID_of t"

definition txn_DCmp :: "env \<Rightarrow> txn \<Rightarrow> nat \<Rightarrow> bytes \<Rightarrow> bytes \<Rightarrow> (txn \<times> int) option" where
  "txn_DCmp = compareDupValues"

definition DebugGetPage :: "env \<Rightarrow> txn list \<Rightarrow> pgno \<Rightarrow> (txn list \<times> (goerror + bytes)) option" where
  "DebugGetPage e ts pg = map_option (\<lambda>(ts, r). (ts, map_sum id Data r)) (getPage e ts pg)"

section \<open>Put and Del on the cached cursor of a table\<close>

definition db_cachedCursor :: "nat \<Rightarrow> txh \<Rightarrow> db \<Rightarrow> (goerror + nat) db_result" where
  "db_cachedCursor i h d =
     do { (c, t, r) \<leftarrow> getCachedCursor (denv d) (htxn h) (haddr h) i (dcur d); Some (d\<lparr>dcur := c\<rparr>, h\<lparr>htxn := t\<rparr>, r) }"

definition txn_Put :: "kernel \<Rightarrow> nat \<Rightarrow> bytes \<Rightarrow> bytes \<Rightarrow> u64 \<Rightarrow> txh \<Rightarrow> db \<Rightarrow> goerror option db_result" where
  "txn_Put k i x v fl h d =
     (if \<not> txn_valid (htxn h) then Some (d, h, Some (NewError ErrBadTxn))
      else if IsReadOnly (htxn h) then Some (d, h, Some (NewError ErrPermissionDenied))
      else do {
        (d, h, r) \<leftarrow> db_cachedCursor i h d;
        case r of Inl err \<Rightarrow> Some (d, h, Some err) | Inr p \<Rightarrow> with_cursor p (\<lambda>s. cursor_Put (kWorld k) s x v fl) h d })"

text \<open>Without a value every value of the key is deleted.\<close>

definition txn_Del :: "kernel \<Rightarrow> nat \<Rightarrow> bytes \<Rightarrow> bytes option \<Rightarrow> txh \<Rightarrow> db \<Rightarrow> goerror option db_result" where
  "txn_Del k i x v h d =
     (if \<not> txn_valid (htxn h) then Some (d, h, Some (NewError ErrBadTxn))
      else if IsReadOnly (htxn h) then Some (d, h, Some (NewError ErrPermissionDenied))
      else do {
        (d, h, r) \<leftarrow> db_cachedCursor i h d;
        case r of
          Inl err \<Rightarrow> Some (d, h, Some err)
        | Inr p \<Rightarrow>
            do { (d, h, r) \<leftarrow> with_cursor p (\<lambda>s. cursor_Get s x v (if v = None then OpSet else OpGetBoth)) h d;
                 case r of
                   Inl err \<Rightarrow> Some (d, h, Some err)
                 | Inr _ \<Rightarrow> with_cursor p (\<lambda>s. cursor_Del (kWorld k) s (if v = None then NoDupData else 0)) h d } })"

definition txn_PutReserve :: "kernel \<Rightarrow> nat \<Rightarrow> bytes \<Rightarrow> nat \<Rightarrow> u64 \<Rightarrow> txh \<Rightarrow> db \<Rightarrow> (goerror + bytes) db_result" where
  "txn_PutReserve k i x n fl h d =
     (let v = replicate n 0 in
      do { (d, h, err) \<leftarrow> txn_Put k i x v fl h d; Some (d, h, case err of Some e \<Rightarrow> Inl e | None \<Rightarrow> Inr v) })"

text \<open>PutReserve and PutMulti on an open cursor (compat.go); a stride of 0 is a division by zero.\<close>

definition cursor_PutReserve :: "world \<Rightarrow> bytes \<Rightarrow> nat \<Rightarrow> u64 \<Rightarrow> cst \<Rightarrow> (cst \<times> (goerror + bytes)) option" where
  "cursor_PutReserve w x n fl s =
     (if IsReadOnly (ct s) then Some (s, Inl (NewError ErrPermissionDenied))
      else do { (s, err) \<leftarrow> cursor_Put w s x (replicate n 0) fl;
                Some (s, case err of Some e \<Rightarrow> Inl e | None \<Rightarrow> Inr (replicate n 0)) })"

fun put_values :: "world \<Rightarrow> bytes \<Rightarrow> bytes list \<Rightarrow> u64 \<Rightarrow> cst \<Rightarrow> (cst \<times> goerror option) option" where
  "put_values w x [] fl s = Some (s, None)"
| "put_values w x (v # vs) fl s =
     do { (s, err) \<leftarrow> cursor_Put w s x v fl; if err \<noteq> None then Some (s, err) else put_values w x vs fl s }"

definition strides :: "nat \<Rightarrow> bytes \<Rightarrow> bytes list" where
  "strides n b = map (\<lambda>i. take n (drop (i * n) b)) [0..<length b div n]"

definition PutMulti :: "world \<Rightarrow> bytes \<Rightarrow> bytes \<Rightarrow> nat \<Rightarrow> u64 \<Rightarrow> cst \<Rightarrow> (cst \<times> goerror option) option" where
  "PutMulti w x b stride fl s =
     (if IsReadOnly (ct s) then Some (s, Some (NewError ErrPermissionDenied))
      else if stride = 0 then None
      else put_values w x (strides stride b) fl s)"

text \<open>The view of a page of values of one length (compat.go, Multi).\<close>

definition multi_Vals :: "nat \<Rightarrow> bytes \<Rightarrow> bytes list" where
  "multi_Vals n b = (if n = 0 \<or> b = [] then [] else strides n b)"

definition multi_Val :: "nat \<Rightarrow> bytes \<Rightarrow> int \<Rightarrow> bytes option option" where
  "multi_Val n b i =
     (if n = 0 \<or> i < 0 \<or> i * int n \<ge> int (length b) then Some None
      else map_option Some (slice b (i * int n) ((i + 1) * int n)))"

definition multi_Len :: "nat \<Rightarrow> bytes \<Rightarrow> nat" where
  "multi_Len n b = (if n = 0 then 0 else length b div n)"

section \<open>The names of the tables\<close>

partial_function (option) list_names :: "cst \<Rightarrow> (cst \<times> (goerror + bytes list)) option" where
  "list_names s =
     do { (s, r) \<leftarrow> cursor_Get s [] None OpNext;
          case r of
            Inl err \<Rightarrow> Some (s, if IsNotFound (Some err) then Inr [] else Inl err)
          | Inr (nm, _) \<Rightarrow> do { (s, r) \<leftarrow> list_names s; Some (s, map_sum id (\<lambda>nms. nm # nms) r) } }"

definition ListDBI :: "kernel \<Rightarrow> txh \<Rightarrow> db \<Rightarrow> (goerror + bytes list) db_result" where
  "ListDBI k h d =
     (if \<not> txn_valid (htxn h) then Some (d, h, Inl (NewError ErrBadTxn))
      else do {
        (d, h, r) \<leftarrow> db_OpenCursor 1 h d;
        case r of
          Inl err \<Rightarrow> Some (d, h, Inl err)
        | Inr p \<Rightarrow> do { (d, h, r) \<leftarrow> with_cursor p list_names h d; Some (close_cursor k p d, h, r) } })"

section \<open>Functions in transactions\<close>

definition Sub :: "txn_op \<Rightarrow> txn_op" where "Sub fn = fn"

definition RunOp :: "kernel \<Rightarrow> txn_op \<Rightarrow> bool \<Rightarrow> txn_op" where
  "RunOp k fn terminate h d =
     do { (d, h, err) \<leftarrow> fn h d;
          if \<not> terminate then Some (d, h, err)
          else if err \<noteq> None then abort_with k err h d
          else Commit k h d }"

datatype ran = RunWaits | Ran "goerror option"

definition RunTxn :: "kernel \<Rightarrow> u64 \<Rightarrow> txn_op \<Rightarrow> db \<Rightarrow> (db \<times> ran) option" where
  "RunTxn k fl fn d =
     do { (d, b) \<leftarrow> BeginTxn k fl d;
          case b of
            Waits \<Rightarrow> Some (d, RunWaits)
          | Refused err \<Rightarrow> Some (d, Ran (Some err))
          | Begun h \<Rightarrow> do { (d, h, err) \<leftarrow> RunOp k fn True h d; Some (d, Ran err) } }"

definition View :: "kernel \<Rightarrow> txn_op \<Rightarrow> db \<Rightarrow> (db \<times> ran) option" where
  "View k fn = RunTxn k TxnReadOnly fn"

definition env_Update :: "kernel \<Rightarrow> txn_op \<Rightarrow> db \<Rightarrow> (db \<times> ran) option" where
  "env_Update k fn = RunTxn k TxnReadWrite fn"

section \<open>A dropped table keeps its record\<close>

lemma persist_loop_unnamed:
  assumes "\<And>i. i \<in> set is \<Longrightarrow> is_dirty (ct s) i \<Longrightarrow> table_name (ce s) i = Some None"
  shows "persist_loop w is s = Some (s, None)"
  using assms by (induction "is") (auto simp del: bind_eq_Some_conv)

lemma db_OpenCursor_open:
  assumes "txn_valid (htxn h)" "i < length (trees (htxn h))" "cmp_cache_ok (htxn h) i" "mmapData (htxn h) \<noteq> None"
  obtains d1 h1 p where "db_OpenCursor i h d = Some (d1, h1, Inr p)" "denv d1 = denv d" "same_pages (htxn h) (htxn h1)"
proof -
  obtain t where t: "cacheComparator (denv d) (htxn h) i = Some t" "same_pages (htxn h) t" using cacheComparator_ok [OF assms(3)] by metis
  have m: "mmapData t \<noteq> None" using t(2) assms(4) by (auto simp: same_pages_def)
  obtain q st where x: "take_cell (dcur d) = (q, st)" by fastforce
  obtain c where o: "OpenCursor (denv d) (htxn h) i [ccur (cells st ! q)] = Some (Inr \<lparr>ce = denv d, ct = t, cc = c\<rparr>, [])"
    using assms(1,2) t(1) m by (simp add: OpenCursor_def newCursorFromCache_def cursor_initMmapCache_def)
  show thesis
    by (rule that [of "d\<lparr>dcur := set_list (haddr h) (slice_append (curLists st (haddr h)) (Some q))
        (set_cell q \<lparr>csig = True, ctxn = Some (haddr h), ccur = c\<rparr> st)\<rparr>" "h\<lparr>htxn := t\<rparr>" q])
       (use assms(1,2) x o t(2) in \<open>simp_all add: db_OpenCursor_def open_cell_def\<close>)
qed

text \<open>Drop with deletion forgets the table in the environment at once.  When the transaction commits, its named trees
  are stored without the dropped one, so that nothing takes the table's record out of the main tree.\<close>

theorem drop_keeps_record:
  assumes "Drop i True h d = Some (d', h', None)" "dbiDirty (htxn h) = None" "cmp_cache_ok (htxn h) 1" "mmapData (htxn h) \<noteq> None"
  shows "\<exists>d2 h2. persistNamedDBTrees k h' d' = Some (d2, h2, None) \<and> trees (htxn h2) ! 1 = trees (htxn h) ! 1 \<and>
    dirtyTracker (htxn h2) = dirtyTracker (htxn h) \<and> find_dbi (denv d') nm \<noteq> Some i"
proof -
  let ?t = "markTreeDirty ((htxn h)\<lparr>trees := (trees (htxn h))[i := reset_tree (trees (htxn h) ! i)]\<rparr>) i"
  have i: "2 \<le> i" "i < length (trees (htxn h))" "i < length (dbis (denv d))" and v: "txn_valid (htxn h)"
    and d': "d' = d\<lparr>denv := set_dbi i None (denv d)\<rparr>" and h': "h' = h\<lparr>htxn := ?t\<rparr>"
    using assms(1) by (auto simp: Drop_def Let_def CoreDBs_def split: if_splits)
  have t: "trees ?t ! 1 = trees (htxn h) ! 1" "length (trees ?t) = length (trees (htxn h))" "txn_valid ?t" "cmp_cache_ok ?t 1"
    "mmapData ?t \<noteq> None" "dirtyTracker ?t = dirtyTracker (htxn h)"
    "dbiDirty ?t = Some ((replicate (length (trees (htxn h))) False)[i := True])"
    using i v assms(2-4) by (simp_all add: markTreeDirty_def txn_valid_def cmp_cache_ok_def)
  have dirty: "is_dirty ?t j \<Longrightarrow> j = i" for j using t(7) by (cases "j = i") (auto simp: is_dirty_def)
  have none: "table_name (denv d') i = Some None" using i by (simp add: table_name_def d' set_dbi_def)
  have nf: "find_dbi (denv d') nm \<noteq> Some i" using i by (auto simp: find_dbi_def find_Some_iff d' set_dbi_def)
  from db_OpenCursor_open [of h' 1 d'] t i obtain d1 h1 p where
    o: "db_OpenCursor 1 h' d' = Some (d1, h1, Inr p)" "denv d1 = denv d'" "same_pages ?t (htxn h1)" by (auto simp: h')
  have same: "is_dirty (htxn h1) = is_dirty ?t" "trees (htxn h1) = trees ?t" "dirtyTracker (htxn h1) = dirtyTracker ?t"
    using o(3) by (auto simp: same_pages_def is_dirty_def fun_eq_iff)
  have "persist_loop (kWorld k) is \<lparr>ce = denv d1, ct = htxn h1, cc = c\<rparr> = Some (\<lparr>ce = denv d1, ct = htxn h1, cc = c\<rparr>, None)" for "is" c
    by (rule persist_loop_unnamed) (use dirty none o(2) same in auto)
  then have "persistNamedDBTrees k h' d' = Some (d1, h1, None) \<or> (\<exists>d2. persistNamedDBTrees k h' d' = Some (d2, h1, None))
      \<or> persistNamedDBTrees k h' d' = Some (d', h', None)"
    using o(1) by (simp add: persistNamedDBTrees_def with_cursor_def)
  then show ?thesis using same t nf by (auto simp: h')
qed

section \<open>A renewed reader is never stale\<close>

text \<open>Renew claims its slot with process id 0, which cleanupStaleReaders skips: when the process dies, the slot holds its
  snapshot for ever.\<close>

theorem renewed_never_stale:
  assumes "Renew h d = Some (d', h', None)" "dlk d = Some lf" "lock_inv lf"
  shows "\<exists>i lf'. hslot h' = Some i \<and> dlk d' = Some lf' \<and> rs_txnid (lf_slots lf' ! i) = txnID_of (htxn h') \<and>
    \<not> is_stale processExists myPID (lf_slots lf' ! i)"
proof -
  from reader_acquire_ok [OF assms(3), of 0 0] obtain lf1 r where a: "acquireReaderSlot 0 0 lf = Some (lf1, r)"
    "case r of Inl e \<Rightarrow> e = errLockReadersFull \<and> lf_slots lf1 = lf_slots lf \<and> held_slots lf = {..< length (lf_slots lf)}
     | Inr i \<Rightarrow> i < length (lf_slots lf) \<and> i \<notin> held_slots lf \<and> lf_slots lf1 = (lf_slots lf)[i := claim_slot 0 0 (lf_slots lf ! i)]"
    by blast
  then obtain i where r: "r = Inr i"
    using assms(1,2) by (cases r) (auto simp: Renew_def claim_reader_def split: if_splits)
  then have i: "i < length (lf_slots lf)" "lf_slots lf1 = (lf_slots lf)[i := claim_slot 0 0 (lf_slots lf ! i)]" using a(2) by auto
  obtain mt m where m: "envMeta (denv d) = Some mt" "recentMeta mt = Some m"
    using assms(1,2) a(1) r by (auto simp: Renew_def claim_reader_def Let_def bind_eq_Some_conv split: if_splits option.splits)
  then show ?thesis
    using assms(1,2) a(1) r i
    by (auto simp: Renew_def claim_reader_def Let_def bind_eq_Some_conv set_slot_def setReaderTxnid_def is_stale_def claim_slot_def
      split: if_splits)
qed

end
