(* ===== verification/EnvOps.thy ===== *)
theory EnvOps
  imports TxnOps
begin

text \<open>
  The environment (env.go): its options, opening it on files that exist or are created, extending the
  mapping, closing, statistics and the list of readers.  What the operating system answers to Open is the
  record \<open>openOS\<close>; the data file and the lock file are byte strings.
\<close>

section \<open>Handles\<close>

text \<open>An environment with its files: \<open>hOpen\<close> when the data file is open.\<close>

record handle =
  hdb :: db
  hOpen :: bool
  hLockImg :: bytes

definition set_env :: "env \<Rightarrow> handle \<Rightarrow> handle" where
  "set_env e h = h\<lparr>hdb := (hdb h)\<lparr>denv := e\<rparr>\<rparr>"

definition NewEnv :: env where
  "NewEnv = \<lparr>envSignature = 0x454E5658, envFlags = 0, dataMap = None, envPageSize = of_int DefaultPageSize, maxReaders = 126, maxDBs = 16,
     geoLower = 0, geoUpper = 0, geoNow = 0, geoGrow = 0, geoShrink = 0, envMeta = None, dbis = replicate (unat MaxDBI) None,
     mmapVersion = 0, spillBuf = None\<rparr>"

section \<open>Options before opening\<close>

definition before_open :: "(env \<Rightarrow> env) \<Rightarrow> handle \<Rightarrow> handle \<times> goerror option" where
  "before_open f h =
     (if \<not> env_valid (denv (hdb h)) \<or> hOpen h then (h, Some (NewError ErrInvalid)) else (set_env (f (denv (hdb h))) h, None))"

definition SetMaxDBs :: "u32 \<Rightarrow> handle \<Rightarrow> handle \<times> goerror option" where
  "SetMaxDBs n = before_open (\<lambda>e. e\<lparr>maxDBs := min n MaxDBI\<rparr>)"

definition SetMaxReaders :: "u32 \<Rightarrow> handle \<Rightarrow> handle \<times> goerror option" where
  "SetMaxReaders n = before_open (\<lambda>e. e\<lparr>maxReaders := n\<rparr>)"

definition page_size_ok :: "int \<Rightarrow> bool" where
  "page_size_ok n \<longleftrightarrow> MinPageSize \<le> n \<and> n \<le> MaxPageSize \<and> n AND (n - 1) = 0"

definition SetPageSize :: "u32 \<Rightarrow> env \<Rightarrow> env \<times> goerror option" where
  "SetPageSize n e =
     (if \<not> env_valid e \<or> \<not> page_size_ok (uint n) then (e, Some (NewError ErrInvalid)) else (e\<lparr>envPageSize := n\<rparr>, None))"

definition geo_field :: "int \<Rightarrow> u64 \<Rightarrow> u64" where "geo_field n old = (if n > 0 then of_int n else old)"

definition SetGeometry :: "int \<Rightarrow> int \<Rightarrow> int \<Rightarrow> int \<Rightarrow> int \<Rightarrow> int \<Rightarrow> env \<Rightarrow> env \<times> goerror option" where
  "SetGeometry sizeLower sizeNow sizeUpper growthStep shrinkThreshold ps e =
     (if \<not> env_valid e \<or> (ps > 0 \<and> \<not> page_size_ok ps) then (e, Some (NewError ErrInvalid))
      else (e\<lparr>envPageSize := (if ps > 0 then of_int ps else envPageSize e), geoLower := geo_field sizeLower (geoLower e),
         geoUpper := geo_field sizeUpper (geoUpper e), geoNow := geo_field sizeNow (geoNow e),
         geoGrow := geo_field growthStep (geoGrow e), geoShrink := geo_field shrinkThreshold (geoShrink e)\<rparr>, None))"

definition SetEnvFlags :: "u64 \<Rightarrow> bool \<Rightarrow> env \<Rightarrow> env" where
  "SetEnvFlags fl enable e = e\<lparr>envFlags := (if enable then envFlags e OR fl else envFlags e AND NOT fl)\<rparr>"

definition SetFlags :: "u64 \<Rightarrow> env \<Rightarrow> env" where "SetFlags fl e = e\<lparr>envFlags := envFlags e OR fl\<rparr>"
definition UnsetFlags :: "u64 \<Rightarrow> env \<Rightarrow> env" where "UnsetFlags fl e = e\<lparr>envFlags := envFlags e AND NOT fl\<rparr>"

definition env_Flags :: "env \<Rightarrow> goerror + u64" where
  "env_Flags e = (if \<not> env_valid e then Inl (NewError ErrInvalid) else Inr (envFlags e))"

text \<open>Options 0 and 1 are the numbers of tables and readers; the others read as 0 and are not stored.\<close>

definition GetOption :: "nat \<Rightarrow> env \<Rightarrow> goerror + u64" where
  "GetOption opt e =
     (if \<not> env_valid e then Inl (NewError ErrInvalid)
      else if opt = 0 then Inr (ucast (maxDBs e)) else if opt = 1 then Inr (ucast (maxReaders e)) else Inr 0)"

definition SetOption :: "nat \<Rightarrow> u64 \<Rightarrow> env \<Rightarrow> env \<times> goerror option" where
  "SetOption opt v e =
     (if \<not> env_valid e then (e, Some (NewError ErrInvalid))
      else (if opt = 0 then e\<lparr>maxDBs := ucast v\<rparr> else if opt = 1 then e\<lparr>maxReaders := ucast v\<rparr> else e, None))"

definition env_CloseDBI :: "nat \<Rightarrow> env \<Rightarrow> env" where
  "env_CloseDBI i e = (if i < length (dbis e) then e\<lparr>dbis := (dbis e)[i := None]\<rparr> else e)"

section \<open>Opening and closing\<close>

record openOS =
  oMkdir :: "goerror option"
  oLock :: lockOS
  oDataOpen :: "goerror option"
  oDataStat :: "goerror option"
  oInit :: "nat \<Rightarrow> goerror option"
  oBoot :: "nat \<Rightarrow> bytes"
  oMap :: "goerror option"
  oSpill :: "goerror option"
  oSysPage :: int
  oUnmapLock :: "goerror option"
  oUnlock :: flockResult
  oCloseLock :: "goerror option"

definition closeFiles :: "handle \<Rightarrow> handle" where
  "closeFiles h = h\<lparr>hdb := (hdb h)\<lparr>denv := (denv (hdb h))\<lparr>spillBuf := None, dataMap := None\<rparr>, doldMaps := [], dlk := None\<rparr>, hOpen := False\<rparr>"

definition map_file :: "goerror option \<Rightarrow> bytes \<Rightarrow> goerror option" where
  "map_file os f = (if f = [] then Some (Plain ''mmap: invalid size'') else os)"

definition open_fails :: "handle \<Rightarrow> goerror \<Rightarrow> (handle \<times> goerror option) option" where
  "open_fails h err = Some (closeFiles h, Some err)"

text \<open>What the current meta says about sizes; DBPgsize holds the upper limit.\<close>

definition open_geometry :: "meta \<Rightarrow> env \<Rightarrow> env" where
  "open_geometry m e =
     (let ps = (if meta_pageSize m = 0 then of_int DefaultPageSize else meta_pageSize m); g = Geometry m
      in e\<lparr>envPageSize := ps, geoLower := ucast (Lower g) * ucast ps, geoUpper := ucast (DBPgsize g) * ucast ps,
           geoNow := ucast (Now g) * ucast ps\<rparr>)"

definition spill_path :: "string \<Rightarrow> u64 \<Rightarrow> string" where
  "spill_path dir fl = (if fl AND NoSubdir \<noteq> 0 then dir @ ''-spill'' else dir @ ''.spill'')"

text \<open>With the data file open and its content known: the mapping, the metas, the spill buffer.\<close>

definition open_data :: "openOS \<Rightarrow> string \<Rightarrow> u64 \<Rightarrow> handle \<Rightarrow> (handle \<times> goerror option) option" where
  "open_data w dir fl h =
     (let f = dfile (hdb h) in
      case map_file (oMap w) f of
        Some err \<Rightarrow> open_fails h (WrapError ErrInvalid err)
      | None \<Rightarrow>
          do { (e, err) \<leftarrow> env_load_meta ((denv (hdb h))\<lparr>dataMap := Some f\<rparr>);
               let h = set_env e h;
               case err of
                 Some x \<Rightarrow> open_fails h x
               | None \<Rightarrow>
                   do { mt \<leftarrow> envMeta e;
                        case recentMeta mt of
                          None \<Rightarrow> open_fails h (NewError ErrCorrupted)
                        | Some m \<Rightarrow>
                            let e = open_geometry m e; h = set_env e h in
                            if fl AND ReadOnly \<noteq> 0 then Some (h, None)
                            else
                              case New (oSpill w) (spill_path dir fl) (envPageSize e) DefaultInitialCap of
                                Inl err \<Rightarrow> open_fails h (WrapError ErrProblem err)
                              | Inr b \<Rightarrow> Some (set_env (e\<lparr>spillBuf := Some b\<rparr>) h, None) } })"

definition open_file :: "openOS \<Rightarrow> string \<Rightarrow> u64 \<Rightarrow> handle \<Rightarrow> (handle \<times> goerror option) option" where
  "open_file w dir fl h =
     (case oDataOpen w of
        Some err \<Rightarrow>
          Some (h\<lparr>hdb := (hdb h)\<lparr>dlk := map_option (\<lambda>lf. fst (lock_close (oUnmapLock w) (oUnlock w) (oCloseLock w) lf)) (dlk (hdb h))\<rparr>\<rparr>,
                Some (WrapError ErrInvalid err))
      | None \<Rightarrow>
          let h = h\<lparr>hOpen := True\<rparr>; e = denv (hdb h) in
          case oDataStat w of
            Some err \<Rightarrow> open_fails h (WrapError ErrInvalid err)
          | None \<Rightarrow>
              if dfile (hdb h) \<noteq> [] then open_data w dir fl h
              else if fl AND ReadOnly \<noteq> 0 then open_fails h (NewError ErrInvalid)
              else
                let (f, err) = initNewDB (oInit w) (geoNow e) (envPageSize e) (oSysPage w) (oBoot w);
                    h = h\<lparr>hdb := (hdb h)\<lparr>dfile := f\<rparr>\<rparr>
                in case err of Some x \<Rightarrow> open_fails h x | None \<Rightarrow> open_data w dir fl h)"

definition env_Open :: "openOS \<Rightarrow> string \<Rightarrow> u64 \<Rightarrow> handle \<Rightarrow> (handle \<times> goerror option) option" where
  "env_Open w dir fl h =
     (let e = denv (hdb h) in
      if \<not> env_valid e \<or> hOpen h then Some (h, Some (NewError ErrInvalid))
      else
        let h = set_env (e\<lparr>envFlags := fl\<rparr>) h in
        case (if fl AND NoSubdir = 0 then oMkdir w else None) of
          Some err \<Rightarrow> Some (h, Some (WrapError ErrInvalid err))
        | None \<Rightarrow>
            do { (img, r) \<leftarrow> openLockFile (oLock w) (hLockImg h) (uint (maxReaders e)) (fl AND ReadOnly = 0);
                 let h = h\<lparr>hLockImg := img\<rparr>;
                 case r of
                   Inl err \<Rightarrow> Some (h, Some (WrapError ErrInvalid err))
                 | Inr lf \<Rightarrow> open_file w dir fl (h\<lparr>hdb := (hdb h)\<lparr>dlk := Some lf\<rparr>\<rparr>) })"

text \<open>Close marks the environment and then waits for its transactions; \<open>False\<close>: the call still waits.\<close>

definition env_Close :: "handle \<Rightarrow> handle \<times> bool" where
  "env_Close h =
     (if \<not> env_valid (denv (hdb h)) then (h, True)
      else
        let h = set_env ((denv (hdb h))\<lparr>envSignature := 0\<rparr>) h in
        if dwg (hdb h) \<noteq> 0 then (h, False) else (closeFiles h, True))"

text \<open>The results of msync are arguments.\<close>

definition env_Sync :: "goerror option \<Rightarrow> goerror option \<Rightarrow> bool \<Rightarrow> env \<Rightarrow> goerror option" where
  "env_Sync sync async force e =
     (if \<not> env_valid e \<or> dataMap e = None then Some (NewError ErrInvalid) else if force then sync else async)"

definition EnableSpillBuffer :: "goerror option \<Rightarrow> string \<Rightarrow> u32 \<Rightarrow> env \<Rightarrow> env \<times> goerror option" where
  "EnableSpillBuffer os dir initialCap e =
     (if \<not> env_valid e then (e, Some (NewError ErrInvalid))
      else if spillBuf e \<noteq> None then (e, None)
      else case New os (spill_path dir (envFlags e)) (envPageSize e) initialCap of
          Inl err \<Rightarrow> (e, Some (WrapError ErrProblem err))
        | Inr b \<Rightarrow> (e\<lparr>spillBuf := Some b\<rparr>, None))"

section \<open>Extending the mapping\<close>

definition truncated :: "nat \<Rightarrow> bytes \<Rightarrow> bytes" where
  "truncated n f = take n (f @ replicate (n - length f) 0)"

text \<open>The new mapping and its metas; the old mapping is kept when it is not moved.\<close>

definition map_anew :: "bytes \<Rightarrow> bool \<Rightarrow> db \<Rightarrow> (db \<times> goerror option) option" where
  "map_anew f keep d =
     do { let e = (denv d)\<lparr>dataMap := Some f, mmapVersion := mmapVersion (denv d) + 1\<rparr>;
          (e, err) \<leftarrow> env_load_meta e;
          Some (d\<lparr>dfile := f, denv := e, doldMaps := (if keep then doldMaps d @ [length (mapped (dataMap (denv d)))] else doldMaps d)\<rparr>, err) }"

text \<open>
  The page number is a word, its successor wraps around.  The capped size is a signed integer of 64 bits.
  A remapping that fails has unmapped the old mapping.
\<close>

definition extendMmap :: "kernel \<Rightarrow> pgno \<Rightarrow> db \<Rightarrow> (db \<times> bool) option" where
  "extendMmap k needPgno d =
     (let e = denv d in
      case dataMap e of
        None \<Rightarrow> Some (d, False)
      | Some m \<Rightarrow>
          let neededSize = uint (needPgno + 1) * uint (envPageSize e) in
          if neededSize \<le> int (length m) then Some (d, True)
          else
            let growStep = (if sint (geoGrow e) \<le> 0 then 64 * 1024 * 1024 else sint (geoGrow e));
                newSize = alignToSysPageSize (kSysPage k) (((neededSize + growStep - 1) div growStep) * growStep);
                capped = geoUpper e > 0 \<and> newSize > uint (geoUpper e);
                newSize = (if capped then sint (geoUpper e) else newSize)
            in
            if capped \<and> neededSize > newSize then Some (d, False)
            else if kTrunc k \<noteq> None then Some (d, False)
            else
              let f = truncated (nat newSize) (file_now d) in
              if kMmap k \<noteq> None then Some (d\<lparr>dfile := f, denv := e\<lparr>dataMap := Some []\<rparr>\<rparr>, False)
              else do { (d, err) \<leftarrow> map_anew f False d; Some (d, err = None) })"

definition PreExtendMmap :: "kernel \<Rightarrow> int \<Rightarrow> db \<Rightarrow> (db \<times> goerror option) option" where
  "PreExtendMmap k n d =
     (let e = denv d in
      case dataMap e of
        None \<Rightarrow> Some (d, Some (NewError ErrInvalid))
      | Some m \<Rightarrow>
          if n \<le> int (length m) then Some (d, None)
          else
            let n = alignToSysPageSize (kSysPage k) n;
                n = (if geoUpper e > 0 \<and> n > uint (geoUpper e) then sint (geoUpper e) else n)
            in case (if n < 0 then Some (Plain ''truncate: invalid argument'') else kTrunc k) of
                 Some err \<Rightarrow> Some (d, Some (WrapError ErrProblem err))
               | None \<Rightarrow>
                   let f = truncated (nat n) (file_now d) in
                   case kMmap k of
                     Some err \<Rightarrow> Some (d\<lparr>dfile := f\<rparr>, Some (WrapError ErrProblem err))
                   | None \<Rightarrow> do { (d, err) \<leftarrow> map_anew f True d; Some (d, map_option (WrapError ErrProblem) err) })"

section \<open>Statistics and readers\<close>

record envInfo =
  infGeoLower :: u64
  infGeoUpper :: u64
  infGeoCurrent :: u64
  infGeoShrink :: u64
  infGeoGrow :: u64
  infMapSize :: int
  infLastPNO :: int
  infLastTxnID :: u64
  infRecentTxnID :: u64
  infMaxReaders :: u32
  infPageSize :: u32
  infFlags :: u32

text \<open>The fields of the result that are not constant, one for those that are equal.\<close>

definition env_Info :: "env \<Rightarrow> txn option \<Rightarrow> goerror + envInfo" where
  "env_Info e t =
     (case envMeta e of
        None \<Rightarrow> Inl (NewError ErrInvalid)
      | Some mt \<Rightarrow>
          (case recentMeta mt of
             None \<Rightarrow> Inl (NewError ErrCorrupted)
           | Some m \<Rightarrow>
               let g = Geometry m; ps = envPageSize e in
               Inr \<lparr>infGeoLower = ucast (Lower g) * ucast ps, infGeoUpper = ucast (DBPgsize g) * ucast ps,
                 infGeoCurrent = ucast (Now g) * ucast ps, infGeoShrink = ucast (ShrinkPV g), infGeoGrow = ucast (GrowPV g),
                 infMapSize = uint (Now g) * uint ps, infLastPNO = uint (Now g),
                 infLastTxnID = (case t of Some t \<Rightarrow> if txn_valid t then txnID_of t else txnID m | None \<Rightarrow> txnID m),
                 infRecentTxnID = txnID m, infMaxReaders = maxReaders e, infPageSize = ps, infFlags = ucast (envFlags e)\<rparr>))"

definition ReaderCheck :: "(u32 \<Rightarrow> bool) \<Rightarrow> u32 \<Rightarrow> db \<Rightarrow> db \<times> (goerror + nat)" where
  "ReaderCheck processExists myPID d =
     (case dlk d of
        None \<Rightarrow> (d, Inl (NewError ErrInvalid))
      | Some lf \<Rightarrow> let (lf, n) = cleanupStaleReaders processExists myPID lf in (d\<lparr>dlk := Some lf\<rparr>, Inr n))"

record readerInfo =
  riSlot :: nat
  riTxnID :: u64
  riPID :: u32
  riThread :: u64
  riBytes :: u64
  riRetxL :: u64

text \<open>The function gets the slots in use in turn until it returns an error; what it was given is the list.\<close>

fun each_reader :: "(readerInfo \<Rightarrow> goerror option) \<Rightarrow> u32 \<Rightarrow> nat \<Rightarrow> readerSlot list \<Rightarrow> readerInfo list \<times> goerror option" where
  "each_reader fn ps i [] = ([], None)"
| "each_reader fn ps i (s # ss) =
     (if rs_txnid s = 0 then each_reader fn ps (Suc i) ss
      else
        let r = \<lparr>riSlot = i, riTxnID = rs_txnid s, riPID = rs_pid s, riThread = rs_tid s,
                riBytes = ucast (snapshotPagesUsed s) * ucast ps, riRetxL = snapshotPagesRetired s\<rparr>
        in case fn r of
             Some err \<Rightarrow> ([r], Some err)
           | None \<Rightarrow> let (rs, err) = each_reader fn ps (Suc i) ss in (r # rs, err))"

definition ReaderList :: "(readerInfo \<Rightarrow> goerror option) \<Rightarrow> db \<Rightarrow> readerInfo list \<times> goerror option" where
  "ReaderList fn d =
     (case dlk d of None \<Rightarrow> ([], Some (NewError ErrInvalid)) | Some lf \<Rightarrow> each_reader fn (envPageSize (denv d)) 0 (lf_slots lf))"

section \<open>Copying\<close>

definition env_Stat :: "env \<Rightarrow> goerror + dbStat" where
  "env_Stat e =
     (case envMeta e of
        None \<Rightarrow> Inl (NewError ErrInvalid)
      | Some mt \<Rightarrow>
          (case recentMeta mt of
             None \<Rightarrow> Inl (NewError ErrCorrupted)
           | Some m \<Rightarrow> Inr ((tree_stat (envPageSize e) (MainTree m))\<lparr>stRoot := 0\<rparr>)))"

text \<open>
  The copy is a loop of reads of at most 64 KiB from the data file; the results of the system are functions of
  the position.  A read behind the end of the file gives io.EOF.
\<close>

definition copyBuf :: nat where "copyBuf = 64 * 1024"

function copy_loop :: "(nat \<Rightarrow> goerror option) \<Rightarrow> (nat \<Rightarrow> goerror option) \<Rightarrow> bytes \<Rightarrow> nat \<Rightarrow> bytes \<Rightarrow> bytes \<times> goerror option" where
  "copy_loop rd wr f fileSize out =
     (if fileSize \<le> length out then (out, None)
      else
        let toRead = min (fileSize - length out) copyBuf; buf = take toRead (drop (length out) f)
        in case rd (length out) of
             Some err \<Rightarrow> (out, Some err)
           | None \<Rightarrow>
               if buf = [] then (out, Some (Plain ''EOF''))
               else case wr (length out) of
                   Some err \<Rightarrow> (out, Some err)
                 | None \<Rightarrow> copy_loop rd wr f fileSize (out @ buf))"
  by pat_completeness auto

termination
  by (relation "measure (\<lambda>(rd, wr, f, fileSize, out). fileSize - length out)") (auto simp: min_def split: if_splits)

declare copy_loop.simps [simp del]

text \<open>
  CopyFD: the read transaction keeps old pages from being reused, the size is that of the current meta,
  and the bytes come from the file as it is.  \<open>rwnd\<close> and \<open>sync\<close> are the results of Seek and Sync.
\<close>

definition copy_snapshot :: "goerror option \<Rightarrow> (nat \<Rightarrow> goerror option) \<Rightarrow> (nat \<Rightarrow> goerror option) \<Rightarrow> goerror option \<Rightarrow> handle \<Rightarrow>
    (bytes \<times> goerror option) option" where
  "copy_snapshot rwnd rd wr sync h =
     (if \<not> hOpen h then Some ([], Some (NewError ErrInvalid))
      else do {
        mt \<leftarrow> envMeta (denv (hdb h));
        case recentMeta mt of
          None \<Rightarrow> Some ([], Some (NewError ErrCorrupted))
        | Some m \<Rightarrow>
            if rwnd \<noteq> None then Some ([], rwnd)
            else
              let fileSize = unat (Now (Geometry m)) * unat (envPageSize (denv (hdb h)));
                  (out, err) = copy_loop rd wr (file_now (hdb h)) fileSize []
              in Some (out, if err \<noteq> None then err else sync) })"

definition CopyFD :: "kernel \<Rightarrow> goerror option \<Rightarrow> (nat \<Rightarrow> goerror option) \<Rightarrow> (nat \<Rightarrow> goerror option) \<Rightarrow> goerror option \<Rightarrow> handle \<Rightarrow>
    (handle \<times> bytes \<times> goerror option) option" where
  "CopyFD k rwnd rd wr sync h =
     (if \<not> env_valid (denv (hdb h)) then Some (h, [], Some (NewError ErrInvalid))
      else do {
        (d, b) \<leftarrow> BeginTxn k TxnReadOnly (hdb h);
        let h = h\<lparr>hdb := d\<rparr>;
        case b of
          Waits \<Rightarrow> None
        | Refused err \<Rightarrow> Some (h, [], Some err)
        | Begun t \<Rightarrow>
            do { (out, err) \<leftarrow> copy_snapshot rwnd rd wr sync h;
                 (d, t) \<leftarrow> Abort k t d;
                 Some (h\<lparr>hdb := d\<rparr>, out, err) } })"

definition UpdateLocked :: "kernel \<Rightarrow> txn_op \<Rightarrow> db \<Rightarrow> (db \<times> ran) option" where
  "UpdateLocked k fn d =
     do { (d, b) \<leftarrow> BeginTxn k TxnReadWrite d;
          case b of
            Waits \<Rightarrow> Some (d, RunWaits)
          | Refused err \<Rightarrow> Some (d, Ran (Some err))
          | Begun h \<Rightarrow>
              do { (d, h, err) \<leftarrow> fn h d;
                   (d, h, err) \<leftarrow> (if err \<noteq> None then abort_with k err h d else Commit k h d);
                   Some (d, Ran err) } }"

lemma copy_loop_prefix:
  assumes "fileSize \<le> length f" "out = take n f" "n \<le> fileSize" "rd = (\<lambda>_. None)" "wr = (\<lambda>_. None)"
  shows "copy_loop rd wr f fileSize out = (take fileSize f, None)"
  using assms
proof (induction rd wr f fileSize out arbitrary: n rule: copy_loop.induct)
  case (1 rd wr f fileSize out)
  show ?case
  proof (cases "fileSize \<le> length out")
    case True
    with "1.prems" show ?thesis by (simp add: copy_loop.simps)
  next
    case False
    let ?t = "min (fileSize - length out) copyBuf" and ?b = "take (min (fileSize - length out) copyBuf) (drop (length out) f)"
    have n: "length out = n" "n < fileSize" using "1.prems" False by auto
    then have b: "?b \<noteq> []" using "1.prems"(1) by (simp add: copyBuf_def)
    have app: "out @ ?b = take (n + ?t) f" using "1.prems"(2) n by (simp add: take_add)
    have "copy_loop rd wr f fileSize (out @ ?b) = (take fileSize f, None)"
      by (rule "1.IH" [of ?t ?b "n + ?t"]) (use False b n app "1.prems" in simp_all)
    then show ?thesis using False b "1.prems"(4,5) by (subst copy_loop.simps) (simp add: Let_def)
  qed
qed

text \<open>The copy of a database that the system does not interfere with is the part of its file that is in use.\<close>

lemma copy_snapshot_prefix:
  assumes "hOpen h" "envMeta (denv (hdb h)) = Some mt" "recentMeta mt = Some m"
    and "unat (Now (Geometry m)) * unat (envPageSize (denv (hdb h))) \<le> length (file_now (hdb h))"
  shows "copy_snapshot None (\<lambda>_. None) (\<lambda>_. None) None h =
    Some (take (unat (Now (Geometry m)) * unat (envPageSize (denv (hdb h)))) (file_now (hdb h)), None)"
  using assms copy_loop_prefix [OF assms(4), of "[]" 0] by (simp add: copy_snapshot_def)

section \<open>Page buffers\<close>

text \<open>The cache of page buffers is shared by all environments and has a stack of buffers for every page size.\<close>

type_synonym page_cache = "u32 \<rightharpoonup> bytes list"

definition defaultPageCacheCap :: nat where "defaultPageCacheCap = 8192"

definition getGlobalPageCache :: "u32 \<Rightarrow> page_cache \<Rightarrow> page_cache \<times> bytes list" where
  "getGlobalPageCache ps c = (case c ps of None \<Rightarrow> (c(ps \<mapsto> []), []) | Some l \<Rightarrow> (c, l))"

definition getPageDataFromCache :: "u32 \<Rightarrow> page_cache \<Rightarrow> page_cache \<times> bytes" where
  "getPageDataFromCache ps c =
     (let (c, l) = getGlobalPageCache ps c
      in if l = [] then (c, replicate (unat ps) 0) else (c(ps \<mapsto> butlast l), last l))"

definition returnPageDataToCache :: "u32 \<Rightarrow> bytes list \<Rightarrow> page_cache \<Rightarrow> page_cache" where
  "returnPageDataToCache ps bs c =
     (if bs = [] then c
      else
        let (c, l) = getGlobalPageCache ps c
        in if defaultPageCacheCap \<le> length l then c
           else let available = defaultPageCacheCap - length l
                in c(ps \<mapsto> l @ take (min (length bs) available) bs))"

definition cache_ok :: "page_cache \<Rightarrow> bool" where
  "cache_ok c \<longleftrightarrow> (\<forall>ps l. c ps = Some l \<longrightarrow> length l \<le> defaultPageCacheCap \<and> (\<forall>b \<in> set l. length b = unat ps))"

lemma cache_okD: "cache_ok c \<Longrightarrow> c ps = Some l \<Longrightarrow> length l \<le> defaultPageCacheCap" "cache_ok c \<Longrightarrow> c ps = Some l \<Longrightarrow> b \<in> set l \<Longrightarrow> length b = unat ps"
  by (auto simp: cache_ok_def)

lemma page_cache_get:
  assumes "cache_ok c" "getPageDataFromCache ps c = (c', b)"
  shows "cache_ok c'" "length b = unat ps"
proof -
  have "cache_ok (c(ps \<mapsto> l))" if "\<forall>b \<in> set l. length b = unat ps" "length l \<le> defaultPageCacheCap" for l
    using assms(1) that by (simp add: cache_ok_def)
  moreover have "length (butlast l) \<le> defaultPageCacheCap" "\<forall>b \<in> set (butlast l). length b = unat ps" if "c ps = Some l" for l
    using cache_okD [OF assms(1) that] by (auto dest: in_set_butlastD intro: order_trans [OF diff_le_self])
  ultimately show "cache_ok c'" "length b = unat ps"
    using assms cache_okD(2) [OF assms(1), of ps]
    by (auto simp: getPageDataFromCache_def getGlobalPageCache_def split: option.splits if_splits)
qed

lemma page_cache_return:
  assumes "cache_ok c" "\<forall>b \<in> set bs. length b = unat ps"
  shows "cache_ok (returnPageDataToCache ps bs c)"
  using assms by (auto simp: returnPageDataToCache_def getGlobalPageCache_def cache_ok_def Let_def split: option.splits dest: in_set_takeD)

section \<open>Options after opening\<close>

text \<open>SetOption stores any number of tables, and a transaction that copies the trees of so many tables panics.\<close>

lemma copy_trees_None:
  assumes "length (dbis e) < n" "2 \<le> length (dbis e)"
  shows "copy_trees e n ts = None"
proof -
  have n: "foldl (\<lambda>r i. Option.bind r (\<lambda>ts. copy_tree e ts i)) None js = None" for js by (induction js) simp_all
  have s: "[2..<n] = [2..<length (dbis e)] @ length (dbis e) # [Suc (length (dbis e))..<n]"
    using assms upt_add_eq_append [of 2 "length (dbis e)" "n - length (dbis e)"] by (simp add: upt_conv_Cons)
  have "Option.bind r (\<lambda>ts. copy_tree e ts (length (dbis e))) = None" for r by (cases r) (simp_all add: copy_tree_def)
  then show ?thesis by (simp add: copy_trees_def s n)
qed

lemma set_option_breaks_begin:
  assumes "env_valid e" "length (dbis e) < unat (ucast v :: u32)" "2 \<le> length (dbis e)"
  shows "snd (SetOption 0 v e) = None" "init_read (fst (SetOption 0 v e)) m t = None"
proof -
  have "copy_trees (e\<lparr>maxDBs := ucast v\<rparr>) (unat (ucast v :: u32)) ts = None" for ts
    using assms by (intro copy_trees_None) simp_all
  then show "init_read (fst (SetOption 0 v e)) m t = None"
    using assms(1) by (simp add: SetOption_def init_read_def Let_def bind_eq_None_conv)
qed (use assms(1) in \<open>simp add: SetOption_def\<close>)

section \<open>Extending can shrink\<close>

text \<open>PreExtendMmap cuts the file off when the upper limit lies below its size, which commits do not respect.\<close>

lemma pre_extend_shrinks:
  assumes "dataMap (denv d) = Some m" "length (dfile d) = length m" "int (length m) < n" "0 < kSysPage k"
    and "geoUpper (denv d) > 0" "sint (geoUpper (denv d)) < int (length m)" "uint (geoUpper (denv d)) < n" "kTrunc k = None" "kMmap k = None"
    and "0 < sint (geoUpper (denv d))" "PreExtendMmap k n d = Some (d', err)"
  shows "length (dfile d') < length (dfile d)"
proof -
  have "n \<le> alignToSysPageSize (kSysPage k) n" using align_ge assms(4) by blast
  then have c: "uint (geoUpper (denv d)) < alignToSysPageSize (kSysPage k) n" using assms(7) by linarith
  define N where "N = sint (geoUpper (denv d))"
  have now: "file_now d = m" using assms(1,2) by (simp add: file_now_def)
  have "length (truncated (nat N) m) = nat N" by (simp add: truncated_def)
  moreover have "dfile d' = truncated (nat N) m"
    using assms c now by (auto simp: PreExtendMmap_def Let_def map_anew_def bind_eq_Some_conv N_def split: if_splits prod.splits)
  ultimately show ?thesis using assms(2,6,10) by (simp add: N_def)
qed

section \<open>A new database\<close>

definition no_errors :: "openOS \<Rightarrow> bool" where
  "no_errors w \<longleftrightarrow> oMkdir w = None \<and> oDataOpen w = None \<and> oDataStat w = None \<and> oInit w = (\<lambda>_. None) \<and> oMap w = None \<and> oSpill w = None \<and>
     0 < oSysPage w \<and> (\<forall>i. length (oBoot w i) = 16) \<and>
     osOpen (oLock w) = None \<and> osStat (oLock w) = None \<and> osTruncate (oLock w) = None \<and> osWriteAt (oLock w) = None \<and>
     osSync (oLock w) = None \<and> osStatMap (oLock w) = None \<and> osMmap (oLock w) = None \<and> 80 \<le> length (strayBytes (oLock w))"

definition fresh_handle :: "env \<Rightarrow> handle" where
  "fresh_handle e = \<lparr>hdb = \<lparr>denv = e, dfile = [], dlk = None, dwriter = None, dwg = 0, doldMaps = [], dcur = no_cursors, readCache = [],
     writeCache = [], dnext = 0\<rparr>, hOpen = False, hLockImg = []\<rparr>"

lemma open_new:
  assumes w: "no_errors w" and e: "env_valid e" "dataMap e = None" "244 \<le> unat (envPageSize e)" "0 < maxReaders e" "uint (maxReaders e) < 2 ^ 31"
    and ro: "fl AND ReadOnly = 0"
  shows "\<exists>h mt m lf b. env_Open w dir fl (fresh_handle e) = Some (h, None) \<and> hOpen h \<and> env_valid (denv (hdb h)) \<and>
    dataMap (denv (hdb h)) = Some (dfile (hdb h)) \<and> envMeta (denv (hdb h)) = Some mt \<and> recentMeta mt = Some m \<and>
    txnID m = InitialTxnID \<and> isEmpty (MainTree m) \<and> envPageSize (denv (hdb h)) = envPageSize e \<and> maxDBs (denv (hdb h)) = maxDBs e \<and>
    dbis (denv (hdb h)) = dbis e \<and> spillBuf (denv (hdb h)) = Some b \<and> buf_inv b \<and> live b = {} \<and> pageSize b = envPageSize e \<and>
    env_readMeta (dfile (hdb h)) (envPageSize e) = Some (Inr mt) \<and> envFlags (denv (hdb h)) = fl \<and> writeCache (hdb h) = [] \<and> readCache (hdb h) = [] \<and>
    dlk (hdb h) = Some lf \<and> lock_inv lf \<and> held_slots lf = {} \<and> length (lf_slots lf) = unat (maxReaders e) \<and> dwriter (hdb h) = None"
proof -
  note w = w [unfolded no_errors_def]
  have n: "0 < uint (maxReaders e)" using e(4) by (simp add: word_less_def)
  have os: "osOpen (oLock w) = None" "osStat (oLock w) = None" "osTruncate (oLock w) = None" "osWriteAt (oLock w) = None"
    "osSync (oLock w) = None" "osStatMap (oLock w) = None" "osMmap (oLock w) = None" "80 \<le> length (strayBytes (oLock w))"
    using w by blast+
  from open_new_lock_file [OF os n] obtain img lf where
    lf: "openLockFile (oLock w) [] (uint (maxReaders e)) True = Some (img, Inr lf)" "lf_slots lf = replicate (nat (uint (maxReaders e))) free_slot"
    "lock_inv (lf\<lparr>freeSlots := []\<rparr>) = (nat (uint (maxReaders e)) < 2 ^ 31)" "freeSlots lf = []" by blast
  have "nat (uint (maxReaders e)) < 2 ^ 31" using e(5) by (subst nat_less_iff) simp_all
  then have li: "lock_inv lf" using lf(2) by (simp add: lock_inv_def lf(4))
  have hs: "held_slots lf = {}" by (auto simp: held_slots_def lf(2) free_slot_def)
  have nw: "0 < oSysPage w" "\<forall>i. length (oBoot w i) = 16" using w by blast+
  from initNewDB_ok [OF e(3) nw, of "geoNow e"] obtain f mt m where
    f: "initNewDB (\<lambda>n. None) (geoNow e) (envPageSize e) (oSysPage w) (oBoot w) = (f, None)" "unat (envPageSize e) * 3 \<le> length f"
      "env_readMeta f (envPageSize e) = Some (Inr mt)" "recentMeta mt = Some m" "txnID m = InitialTxnID" "meta_pageSize m = envPageSize e"
      "isEmpty (MainTree m)" by blast
  have fne: "f \<noteq> []" using f(2) e(3) by auto
  have ps: "envPageSize e \<noteq> 0" using e(3) by auto
  have "unat DefaultInitialCap < 2 ^ 32 - 64" by (simp add: DefaultInitialCap_def)
  from New_ok [OF this, of "spill_path dir fl" "envPageSize e"] obtain b where
    b: "New None (spill_path dir fl) (envPageSize e) DefaultInitialCap = Inr b" "buf_inv b" "live b = {}"
    "pageSize b = envPageSize e" by blast
  define h where "h = set_env ((open_geometry m (e\<lparr>envFlags := fl, dataMap := Some f, envMeta := Some mt\<rparr>))\<lparr>spillBuf := Some b\<rparr>)
      (fresh_handle e\<lparr>hdb := (hdb (fresh_handle e))\<lparr>dlk := Some lf, dfile := f\<rparr>, hLockImg := img, hOpen := True\<rparr>)"
  have "env_Open w dir fl (fresh_handle e) = Some (h, None)"
    using w e(1,2) ro lf(1) f fne b(1) ps
    by (simp add: env_Open_def fresh_handle_def set_env_def open_file_def open_data_def map_file_def env_load_meta_def open_geometry_def
      Let_def h_def env_valid_def)
  moreover have "length (lf_slots lf) = unat (maxReaders e)" by (simp add: lf(2))
  ultimately show ?thesis
    using f(3-5,7) b(2-4) li hs e(1) f(6) ps
    by (intro exI [of _ h] exI [of _ mt] exI [of _ m] exI [of _ lf] exI [of _ b])
       (simp add: h_def set_env_def open_geometry_def Let_def fresh_handle_def env_valid_def)
qed

end
