(* ===== verification/EnvProps.thy ===== *)
theory EnvProps
  imports EnvOps CommitProps
begin

text \<open>From an empty directory to a transaction: opening a new database, and the first transactions on it.\<close>

section \<open>Beginning a writer\<close>





section \<open>The property\<close>




end
