(* ===== verification/Mmap.thy ===== *)
theory Mmap
  imports Errors
begin

text \<open>
  Memory mappings (mmap/mmap.go, mmap/mmap_unix.go, mmap/mmap_linux.go).  A mapping shows the bytes of its
  file; what lies behind the end of the file is taken to be zero.  The results of the system calls are
  parameters; on systems without mremap its result is always an error.
\<close>

section \<open>Mappings\<close>

text \<open>The fields \<open>fd\<close>, \<open>handle\<close> and \<open>mapping\<close> stand for the file itself, which the operations get as an argument.\<close>

record mmap =
  mData :: "bytes option"
  mSize :: int
  mCapacity :: int
  mWritable :: bool

record mmapOS =
  osMunmap :: "goerror option"
  osMremap :: "goerror option"
  osMap :: "goerror option"
  osMsync :: "goerror option"

definition mmap_error :: "string \<Rightarrow> goerror option \<Rightarrow> goerror" where
  "mmap_error op err = (case err of None \<Rightarrow> Plain (''mmap: '' @ op) | Some e \<Rightarrow> Wraps (''mmap: '' @ op) e)"

definition ErrInvalidSize :: goerror where "ErrInvalidSize = mmap_error ''invalid size'' None"
definition ErrInvalidRange :: goerror where "ErrInvalidRange = mmap_error ''invalid range'' None"
definition ErrNotMapped :: goerror where "ErrNotMapped = mmap_error ''not mapped'' None"
definition ErrEmptyFile :: goerror where "ErrEmptyFile = mmap_error ''empty file'' None"

definition view :: "bytes \<Rightarrow> int \<Rightarrow> bytes" where "view f n = take (nat n) (f @ replicate (nat n - length f) 0)"

definition mmap_New :: "mmapOS \<Rightarrow> bytes \<Rightarrow> int \<Rightarrow> bool \<Rightarrow> goerror + mmap" where
  "mmap_New os f n writable =
     (if n \<le> 0 then Inl ErrInvalidSize
      else case osMap os of
          Some err \<Rightarrow> Inl (mmap_error ''mmap'' (Some err))
        | None \<Rightarrow> Inr \<lparr>mData = Some (view f n), mSize = n, mCapacity = n, mWritable = writable\<rparr>)"

text \<open>The results of opening the file and of its Stat are arguments.\<close>

definition MapFile :: "goerror option \<Rightarrow> goerror option \<Rightarrow> mmapOS \<Rightarrow> bytes \<Rightarrow> bool \<Rightarrow> goerror + mmap" where
  "MapFile opened stat os f writable =
     (case opened of
        Some err \<Rightarrow> Inl err
      | None \<Rightarrow>
          case stat of
            Some err \<Rightarrow> Inl err
          | None \<Rightarrow> if f = [] then Inl ErrEmptyFile else mmap_New os f (int (length f)) writable)"

definition mmap_Sync :: "mmapOS \<Rightarrow> mmap \<Rightarrow> goerror option" where
  "mmap_Sync os m = (if mData m = None then Some ErrNotMapped else osMsync os)"

text \<open>The sum of offset and length wraps around; the result is \<open>None\<close> when the slice expression panics.\<close>

definition SyncRange :: "mmapOS \<Rightarrow> 64 word \<Rightarrow> 64 word \<Rightarrow> mmap \<Rightarrow> goerror option option" where
  "SyncRange os offset n m =
     (case mData m of
        None \<Rightarrow> Some (Some ErrNotMapped)
      | Some b \<Rightarrow>
          if sint offset < 0 \<or> sint n < 0 \<or> sint (offset + n) > mSize m then Some (Some ErrInvalidRange)
          else do { r \<leftarrow> slice b (sint offset) (sint (offset + n)); Some (osMsync os) })"

definition mmap_Close :: "mmapOS \<Rightarrow> mmap \<Rightarrow> mmap \<times> goerror option" where
  "mmap_Close os m =
     (if mData m = None then (m, None)
      else (m\<lparr>mData := None, mSize := 0, mCapacity := 0\<rparr>, osMunmap os))"

definition tryMremap :: "mmapOS \<Rightarrow> bytes \<Rightarrow> int \<Rightarrow> goerror + bytes" where
  "tryMremap os f newSize = (case osMremap os of Some err \<Rightarrow> Inl err | None \<Rightarrow> Inr (view f newSize))"

definition Remap :: "mmapOS \<Rightarrow> bytes \<Rightarrow> int \<Rightarrow> mmap \<Rightarrow> mmap \<times> goerror option" where
  "Remap os f newSize m =
     (if mData m = None then (m, Some ErrNotMapped)
      else if newSize \<le> 0 then (m, Some ErrInvalidSize)
      else if newSize = mSize m then (m, None)
      else case tryMremap os f newSize of
          Inr b \<Rightarrow> (m\<lparr>mData := Some b, mSize := newSize, mCapacity := max newSize (mCapacity m)\<rparr>, None)
        | Inl _ \<Rightarrow>
            case osMunmap os of
              Some err \<Rightarrow> (m, Some (mmap_error ''munmap for remap'' (Some err)))
            | None \<Rightarrow>
                case osMap os of
                  Some err \<Rightarrow> (m\<lparr>mData := None, mSize := 0\<rparr>, Some (mmap_error ''mmap for remap'' (Some err)))
                | None \<Rightarrow> (m\<lparr>mData := Some (view f newSize), mSize := newSize, mCapacity := newSize\<rparr>, None))"

text \<open>Lock, Unlock and Advise differ in the system call.\<close>

definition on_mapped :: "goerror option \<Rightarrow> mmap \<Rightarrow> goerror option" where
  "on_mapped call m = (if mData m = None then Some ErrNotMapped else call)"

section \<open>The invariant\<close>

text \<open>The slice has the recorded size, which the capacity covers.\<close>

definition mmap_ok :: "mmap \<Rightarrow> bool" where
  "mmap_ok m \<longleftrightarrow> (case mData m of None \<Rightarrow> mSize m = 0 | Some b \<Rightarrow> int (length b) = mSize m \<and> 0 < mSize m \<and> mSize m \<le> mCapacity m)"

lemma length_view: "0 \<le> n \<Longrightarrow> int (length (view f n)) = n"
  by (simp add: view_def)

lemma mmap_New_ok: "mmap_New os f n writable = Inr m \<Longrightarrow> mmap_ok m \<and> mSize m = n"
  by (auto simp: mmap_New_def mmap_ok_def length_view split: if_splits option.splits)

lemma MapFile_ok: "MapFile opened stat os f writable = Inr m \<Longrightarrow> mmap_ok m \<and> mData m = Some f"
  by (auto simp: MapFile_def mmap_New_def mmap_ok_def view_def split: if_splits option.splits)

lemma mmap_Close_ok: "mmap_ok m \<Longrightarrow> mmap_ok (fst (mmap_Close os m)) \<and> mData (fst (mmap_Close os m)) = None"
  by (auto simp: mmap_Close_def mmap_ok_def)

text \<open>A Remap that returns no error shows the file at the new size; one that fails keeps the mapping or drops it.\<close>

lemma Remap_ok:
  assumes "mmap_ok m" "Remap os f newSize m = (m', err)"
  shows "mmap_ok m'"
    and "err = None \<Longrightarrow> mSize m' = newSize \<and> (newSize \<noteq> mSize m \<longrightarrow> mData m' = Some (view f newSize))"
    and "err \<noteq> None \<Longrightarrow> m' = m \<or> mData m' = None \<and> osMunmap os = None"
  using assms
  by (auto simp: Remap_def tryMremap_def mmap_ok_def length_view split: if_splits option.splits sum.splits)

section \<open>A range that wraps around\<close>

text \<open>A range whose end overflows passes the test of its bounds, and the slice expression panics.\<close>

lemma sync_range_panics:
  assumes "mData m = Some b" "mSize m = int (length b)" "0 < length b"
  shows "SyncRange os 1 0x7FFFFFFFFFFFFFFF m = None"
proof -
  have "sint ((1 :: 64 word) + 0x7FFFFFFFFFFFFFFF) = - (2 ^ 63)" "sint (1 :: 64 word) = 1" "sint (0x7FFFFFFFFFFFFFFF :: 64 word) = 2 ^ 63 - 1"
    by simp_all
  then show ?thesis using assms by (simp add: SyncRange_def slice_def)
qed

end
