(* ===== verification/Compat.thy ===== *)
theory Compat
  imports Errors
begin

text \<open>
  The settings and helpers of the compatibility layer (compat.go): hexadecimal strings, the debug flags
  and the log level.
\<close>

section \<open>Hexadecimal strings\<close>

definition fromHexChar :: "u8 \<Rightarrow> u8" where
  "fromHexChar c =
     (if 48 \<le> c \<and> c \<le> 57 then c - 48
      else if 97 \<le> c \<and> c \<le> 102 then c - 97 + 10
      else if 65 \<le> c \<and> c \<le> 70 then c - 65 + 10
      else 0)"

fun hex_pairs :: "bytes \<Rightarrow> bytes" where
  "hex_pairs (a # b # s) = (push_bit 4 (fromHexChar a) OR fromHexChar b) # hex_pairs s"
| "hex_pairs s = []"

definition FromHex :: "bytes \<Rightarrow> bytes" where
  "FromHex s =
     (let s = (if 2 \<le> length s \<and> s ! 0 = 48 \<and> (s ! 1 = 120 \<or> s ! 1 = 88) then drop 2 s else s);
          s = (if length s mod 2 \<noteq> 0 then 48 # s else s)
      in hex_pairs s)"

text \<open>The digits of a byte, in lower case.\<close>

definition hexChar :: "u8 \<Rightarrow> u8" where "hexChar n = (if n < 10 then 48 + n else 87 + n)"

definition toHex :: "bytes \<Rightarrow> bytes" where
  "toHex b = concat (map (\<lambda>x. [hexChar (drop_bit 4 x), hexChar (x AND 15)]) b)"

definition digit_ok :: "u8 \<Rightarrow> bool" where
  "digit_ok n \<longleftrightarrow> fromHexChar (hexChar n) = n \<and> hexChar n \<noteq> 120 \<and> hexChar n \<noteq> 88"

lemma digits_ok: "list_all (\<lambda>k. digit_ok (of_nat k)) [0..<16]"
  by code_simp

lemma hexChar_digit:
  assumes "n < (16 :: u8)"
  shows "fromHexChar (hexChar n) = n" "hexChar n \<noteq> 120" "hexChar n \<noteq> 88"
proof -
  have "unat n \<in> set [0..<16]" using assms by (simp add: word_less_nat_alt)
  then have "digit_ok (of_nat (unat n))" using digits_ok by (simp only: list_all_iff)
  then show "fromHexChar (hexChar n) = n" "hexChar n \<noteq> 120" "hexChar n \<noteq> 88" by (simp_all add: digit_ok_def)
qed

lemma nibbles: "drop_bit 4 x < (16 :: u8)" "x AND 15 < (16 :: u8)" "push_bit 4 (drop_bit 4 x) OR (x AND 15) = (x :: u8)"
proof -
  have m: "x AND 15 = take_bit 4 x" by (simp add: take_bit_eq_mask mask_eq_exp_minus_1)
  show "push_bit 4 (drop_bit 4 x) OR (x AND 15) = x"
    unfolding m by (rule bit_word_eqI) (auto simp: bit_simps not_le dest: bit_imp_le_length)
  have "unat x < 16 * 16" using unsigned_less [of x, where 'a = nat] by simp
  then show "drop_bit 4 x < 16"
    by (simp add: word_less_nat_alt drop_bit_eq_div unat_div less_mult_imp_div_less)
  show "x AND 15 < 16" unfolding m by (simp add: word_less_nat_alt take_bit_eq_mod unat_mod)
qed

lemma hex_pairs_toHex: "hex_pairs (toHex b) = b"
  by (induction b) (simp_all add: toHex_def hexChar_digit nibbles)

text \<open>FromHex reads what is written in lower case, with a prefix or without.\<close>

lemma FromHex_toHex: "FromHex (toHex b) = b" "FromHex (48 # 120 # toHex b) = b"
proof -
  have even: "length (toHex b) mod 2 = 0" by (induction b) (simp_all add: toHex_def)
  have "toHex b ! 1 \<noteq> 120 \<and> toHex b ! 1 \<noteq> 88" if "2 \<le> length (toHex b)"
    using that by (cases b) (simp_all add: toHex_def hexChar_digit nibbles)
  then show "FromHex (toHex b) = b" "FromHex (48 # 120 # toHex b) = b"
    using even by (auto simp: FromHex_def hex_pairs_toHex)
qed

section \<open>Settings\<close>

text \<open>The global settings and what the setters return; loggers and handlers are values.\<close>

record 'l settings =
  globalDebug :: u64
  globalLogLevel :: int
  globalLogger :: "'l option"

definition SetDebug :: "u64 \<Rightarrow> 'l settings \<Rightarrow> 'l settings \<times> u64" where
  "SetDebug fl g = ((if fl \<noteq> 0xFFFFFFFF then g\<lparr>globalDebug := fl\<rparr> else g), globalDebug g)"

definition SetLogger :: "'l option \<Rightarrow> int \<Rightarrow> 'l settings \<Rightarrow> 'l settings \<times> int" where
  "SetLogger logger level g =
     (g\<lparr>globalLogger := logger, globalLogLevel := (if level \<noteq> - 1 then level else globalLogLevel g)\<rparr>, globalLogLevel g)"

end
