(* ===== verification/LockSteps.thy ===== *)
theory LockSteps
  imports LockFile
begin

text \<open>
  Acquire and release of reader slots, taken apart into the atomic accesses of lock.go.  Threads are
  numbers; thread \<open>t\<close> runs with the process and thread id \<open>who t\<close>.  The mutex of the free list makes a
  push and a pop one step each.  A holder may store a non-zero transaction id any number of times.  The store
  of cleanupStaleReaders into a slot whose process is dead is not a step: a thread of a dead process takes
  no further steps.
\<close>

section \<open>Steps\<close>

datatype pc =
    Idle | CasFree nat | Scan nat | CasScan nat | StorePid nat | StoreTid nat | Holding nat
  | ZeroTid nat | ZeroPid nat | Push nat | Full

record lock_sys =
  ls_slots :: "readerSlot list"
  ls_free :: "int list"
  ls_pc :: "nat \<Rightarrow> pc"

definition goto :: "nat \<Rightarrow> pc \<Rightarrow> lock_sys \<Rightarrow> lock_sys" where
  "goto t p s = s\<lparr>ls_pc := (ls_pc s)(t := p)\<rparr>"

definition upd_slot :: "nat \<Rightarrow> (readerSlot \<Rightarrow> readerSlot) \<Rightarrow> lock_sys \<Rightarrow> lock_sys" where
  "upd_slot i f s = s\<lparr>ls_slots := (ls_slots s)[i := f (ls_slots s ! i)]\<rparr>"

definition is_free :: "lock_sys \<Rightarrow> nat \<Rightarrow> bool" where
  "is_free s i \<longleftrightarrow> i < length (ls_slots s) \<and> rs_txnid (ls_slots s ! i) = 0"

inductive lk_step :: "(nat \<Rightarrow> u32 \<times> u64) \<Rightarrow> nat \<Rightarrow> lock_sys \<Rightarrow> lock_sys \<Rightarrow> bool" for who where
  Pop: "ls_pc s t = Idle \<Longrightarrow> ls_free s \<noteq> [] \<Longrightarrow>
    lk_step who t s (goto t (CasFree (nat (last (ls_free s)))) (s\<lparr>ls_free := butlast (ls_free s)\<rparr>))"
| PopEmpty: "ls_pc s t = Idle \<Longrightarrow> ls_free s = [] \<Longrightarrow> lk_step who t s (goto t (Scan 0) s)"
| CasFreeOk: "ls_pc s t = CasFree i \<Longrightarrow> is_free s i \<Longrightarrow>
    lk_step who t s (goto t (StorePid i) (upd_slot i (\<lambda>x. x\<lparr>rs_txnid := - 1\<rparr>) s))"
| CasFreeFail: "ls_pc s t = CasFree i \<Longrightarrow> i < length (ls_slots s) \<Longrightarrow> \<not> is_free s i \<Longrightarrow> lk_step who t s (goto t (Scan 0) s)"
| ScanEnd: "ls_pc s t = Scan i \<Longrightarrow> \<not> i < length (ls_slots s) \<Longrightarrow> lk_step who t s (goto t Full s)"
| ScanFree: "ls_pc s t = Scan i \<Longrightarrow> is_free s i \<Longrightarrow> lk_step who t s (goto t (CasScan i) s)"
| ScanTaken: "ls_pc s t = Scan i \<Longrightarrow> i < length (ls_slots s) \<Longrightarrow> \<not> is_free s i \<Longrightarrow> lk_step who t s (goto t (Scan (Suc i)) s)"
| CasScanOk: "ls_pc s t = CasScan i \<Longrightarrow> is_free s i \<Longrightarrow>
    lk_step who t s (goto t (StorePid i) (upd_slot i (\<lambda>x. x\<lparr>rs_txnid := - 1\<rparr>) s))"
| CasScanFail: "ls_pc s t = CasScan i \<Longrightarrow> \<not> is_free s i \<Longrightarrow> lk_step who t s (goto t (Scan (Suc i)) s)"
| SetPid: "ls_pc s t = StorePid i \<Longrightarrow>
    lk_step who t s (goto t (StoreTid i) (upd_slot i (\<lambda>x. x\<lparr>rs_pid := fst (who t)\<rparr>) s))"
| SetTid: "ls_pc s t = StoreTid i \<Longrightarrow>
    lk_step who t s (goto t (Holding i) (upd_slot i (\<lambda>x. x\<lparr>rs_tid := snd (who t)\<rparr>) s))"
| SetTxnid: "ls_pc s t = Holding i \<Longrightarrow> v \<noteq> 0 \<Longrightarrow> lk_step who t s (upd_slot i (\<lambda>x. x\<lparr>rs_txnid := v\<rparr>) s)"
| ClearTxnid: "ls_pc s t = Holding i \<Longrightarrow> lk_step who t s (goto t (ZeroTid i) (upd_slot i (\<lambda>x. x\<lparr>rs_txnid := 0\<rparr>) s))"
| ClearTid: "ls_pc s t = ZeroTid i \<Longrightarrow> lk_step who t s (goto t (ZeroPid i) (upd_slot i (\<lambda>x. x\<lparr>rs_tid := 0\<rparr>) s))"
| ClearPid: "ls_pc s t = ZeroPid i \<Longrightarrow> lk_step who t s (goto t (Push i) (upd_slot i (\<lambda>x. x\<lparr>rs_pid := 0\<rparr>) s))"
| PushFree: "ls_pc s t = Push i \<Longrightarrow> lk_step who t s (goto t Idle (s\<lparr>ls_free := ls_free s @ [int32 i]\<rparr>))"
| GiveUp: "ls_pc s t = Full \<Longrightarrow> lk_step who t s (goto t Idle s)"

inductive lk_reach :: "(nat \<Rightarrow> u32 \<times> u64) \<Rightarrow> nat \<Rightarrow> lock_sys \<Rightarrow> bool" for who n where
  start: "lk_reach who n \<lparr>ls_slots = replicate n free_slot, ls_free = [], ls_pc = (\<lambda>t. Idle)\<rparr>"
| step: "lk_reach who n s \<Longrightarrow> lk_step who t s s' \<Longrightarrow> lk_reach who n s'"

inductive_cases lk_stepE: "lk_step who t s s'"

section \<open>Mutual exclusion\<close>

fun claims :: "pc \<Rightarrow> nat option" where
  "claims (StorePid i) = Some i"
| "claims (StoreTid i) = Some i"
| "claims (Holding i) = Some i"
| "claims _ = None"

definition excl_inv :: "lock_sys \<Rightarrow> bool" where
  "excl_inv s \<longleftrightarrow>
     (\<forall>t i. claims (ls_pc s t) = Some i \<longrightarrow> i < length (ls_slots s) \<and> rs_txnid (ls_slots s ! i) \<noteq> 0) \<and>
     (\<forall>t u i. claims (ls_pc s t) = Some i \<longrightarrow> claims (ls_pc s u) = Some i \<longrightarrow> t = u)"

lemma excl_invD:
  assumes "excl_inv s"
  shows "claims (ls_pc s t) = Some i \<Longrightarrow> i < length (ls_slots s)" "claims (ls_pc s t) = Some i \<Longrightarrow> rs_txnid (ls_slots s ! i) \<noteq> 0"
    "claims (ls_pc s t) = Some i \<Longrightarrow> claims (ls_pc s u) = Some i \<Longrightarrow> t = u"
  using assms unfolding excl_inv_def by blast+

text \<open>A step either keeps the claims of its thread and touches at most other fields, or claims a free slot, or gives one up.\<close>

lemma excl_keep:
  assumes "excl_inv s" "claims p = claims (ls_pc s t)" "length ss = length (ls_slots s)"
    "\<And>i. rs_txnid (ls_slots s ! i) \<noteq> 0 \<Longrightarrow> rs_txnid (ss ! i) \<noteq> 0"
  shows "excl_inv \<lparr>ls_slots = ss, ls_free = fs, ls_pc = (ls_pc s)(t := p)\<rparr>"
proof -
  have c: "claims (((ls_pc s)(t := p)) u) = claims (ls_pc s u)" for u using assms(2) by simp
  show ?thesis unfolding excl_inv_def using excl_invD [OF assms(1)] assms(3,4) by (auto simp: c simp del: fun_upd_apply)
qed

lemma excl_claim:
  assumes "excl_inv s" "claims p = Some i" "is_free s i" "rs_txnid x \<noteq> 0"
  shows "excl_inv \<lparr>ls_slots = (ls_slots s)[i := x], ls_free = fs, ls_pc = (ls_pc s)(t := p)\<rparr>"
  unfolding excl_inv_def using excl_invD [OF assms(1)] assms(2-4) by (auto simp: is_free_def nth_list_update)

lemma excl_drop:
  assumes "excl_inv s" "claims (ls_pc s t) = Some i" "claims p = None"
  shows "excl_inv \<lparr>ls_slots = (ls_slots s)[i := x], ls_free = fs, ls_pc = (ls_pc s)(t := p)\<rparr>"
proof -
  have o: "j \<noteq> i" if "claims (ls_pc s u) = Some j" "u \<noteq> t" for u j using excl_invD(3) [OF assms(1) assms(2), of u] that by auto
  show ?thesis unfolding excl_inv_def using excl_invD [OF assms(1)] assms(2,3) o by (auto simp: nth_list_update)
qed

lemma lock_sys_eqs:
  "goto t p s = \<lparr>ls_slots = ls_slots s, ls_free = ls_free s, ls_pc = (ls_pc s)(t := p)\<rparr>"
  "upd_slot i f s = \<lparr>ls_slots = (ls_slots s)[i := f (ls_slots s ! i)], ls_free = ls_free s, ls_pc = ls_pc s\<rparr>"
  "s\<lparr>ls_free := fs\<rparr> = \<lparr>ls_slots = ls_slots s, ls_free = fs, ls_pc = ls_pc s\<rparr>"
  by (simp_all add: goto_def upd_slot_def)

lemma txnid_upd:
  assumes "\<And>x. rs_txnid x \<noteq> 0 \<Longrightarrow> rs_txnid (f x) \<noteq> 0" "rs_txnid (ss ! j) \<noteq> 0"
  shows "rs_txnid (ss[i := f (ss ! i)] ! j) \<noteq> 0"
proof (cases "i = j \<and> i < length ss")
  case True
  then show ?thesis using assms(1) [OF assms(2)] by simp
next
  case False
  then have "ss[i := f (ss ! i)] ! j = ss ! j" by (cases "i = j") (auto simp: not_less list_update_beyond)
  then show ?thesis using assms(2) by simp
qed

lemma excl_upd:
  assumes "excl_inv s" "claims p = claims (ls_pc s t)" "\<And>x. rs_txnid x \<noteq> 0 \<Longrightarrow> rs_txnid (f x) \<noteq> 0"
  shows "excl_inv \<lparr>ls_slots = (ls_slots s)[i := f (ls_slots s ! i)], ls_free = fs, ls_pc = (ls_pc s)(t := p)\<rparr>"
proof (rule excl_keep [OF assms(1,2)])
  show "length ((ls_slots s)[i := f (ls_slots s ! i)]) = length (ls_slots s)" by simp
  show "rs_txnid ((ls_slots s)[i := f (ls_slots s ! i)] ! j) \<noteq> 0" if "rs_txnid (ls_slots s ! j) \<noteq> 0" for j
    by (rule txnid_upd [OF assms(3) that])
qed

lemma excl_step:
  assumes "lk_step who t s s'" "excl_inv s"
  shows "excl_inv s'"
  using assms
proof (cases rule: lk_step.cases)
  case (SetTxnid i v)
  then have pc: "(ls_pc s)(t := Holding i) = ls_pc s" by (simp add: fun_upd_idem)
  from excl_upd [OF assms(2), of "ls_pc s t" t "\<lambda>x. x\<lparr>rs_txnid := v\<rparr>" i "ls_free s"] SetTxnid
  show ?thesis by (simp add: lock_sys_eqs pc)
next
  case (ClearTxnid i)
  with excl_drop [OF assms(2), of t i "ZeroTid i"] show ?thesis by (simp add: lock_sys_eqs)
next
  case (CasFreeOk i)
  with excl_claim [OF assms(2), of "StorePid i" i] show ?thesis by (simp add: lock_sys_eqs)
next
  case (CasScanOk i)
  with excl_claim [OF assms(2), of "StorePid i" i] show ?thesis by (simp add: lock_sys_eqs)
next
  case (SetPid i)
  with excl_upd [OF assms(2), of "StoreTid i" t "\<lambda>x. x\<lparr>rs_pid := fst (who t)\<rparr>" i "ls_free s"] show ?thesis
    by (simp add: lock_sys_eqs)
next
  case (SetTid i)
  with excl_upd [OF assms(2), of "Holding i" t "\<lambda>x. x\<lparr>rs_tid := snd (who t)\<rparr>" i "ls_free s"] show ?thesis
    by (simp add: lock_sys_eqs)
next
  case (ClearTid i)
  with excl_upd [OF assms(2), of "ZeroPid i" t "\<lambda>x. x\<lparr>rs_tid := 0\<rparr>" i "ls_free s"] show ?thesis
    by (simp add: lock_sys_eqs)
next
  case (ClearPid i)
  with excl_upd [OF assms(2), of "Push i" t "\<lambda>x. x\<lparr>rs_pid := 0\<rparr>" i "ls_free s"] show ?thesis
    by (simp add: lock_sys_eqs)
qed (simp_all add: lock_sys_eqs excl_keep [OF assms(2)])

lemma lk_reach_excl: "lk_reach who n s \<Longrightarrow> excl_inv s"
proof (induction rule: lk_reach.induct)
  case start
  then show ?case by (simp add: excl_inv_def)
next
  case (step s t s')
  then show ?case using excl_step by blast
qed

lemma lk_reach_length: "lk_reach who n s \<Longrightarrow> length (ls_slots s) = n"
proof (induction rule: lk_reach.induct)
  case (step s t s')
  from step.hyps(2) have "length (ls_slots s') = length (ls_slots s)" by cases (simp_all add: lock_sys_eqs)
  with step.IH show ?case by simp
qed simp

section \<open>Schedules\<close>

text \<open>The next access of a thread, where a holder goes on to release.\<close>

definition lk_next :: "(nat \<Rightarrow> u32 \<times> u64) \<Rightarrow> nat \<Rightarrow> lock_sys \<Rightarrow> lock_sys option" where
  "lk_next who t s =
     (case ls_pc s t of
        Idle \<Rightarrow> Some (if ls_free s \<noteq> [] then goto t (CasFree (nat (last (ls_free s)))) (s\<lparr>ls_free := butlast (ls_free s)\<rparr>)
                      else goto t (Scan 0) s)
      | CasFree i \<Rightarrow>
          if \<not> i < length (ls_slots s) then None
          else Some (if is_free s i then goto t (StorePid i) (upd_slot i (\<lambda>x. x\<lparr>rs_txnid := - 1\<rparr>) s) else goto t (Scan 0) s)
      | Scan i \<Rightarrow> Some (if \<not> i < length (ls_slots s) then goto t Full s
                        else if is_free s i then goto t (CasScan i) s else goto t (Scan (Suc i)) s)
      | CasScan i \<Rightarrow> Some (if is_free s i then goto t (StorePid i) (upd_slot i (\<lambda>x. x\<lparr>rs_txnid := - 1\<rparr>) s)
                           else goto t (Scan (Suc i)) s)
      | StorePid i \<Rightarrow> Some (goto t (StoreTid i) (upd_slot i (\<lambda>x. x\<lparr>rs_pid := fst (who t)\<rparr>) s))
      | StoreTid i \<Rightarrow> Some (goto t (Holding i) (upd_slot i (\<lambda>x. x\<lparr>rs_tid := snd (who t)\<rparr>) s))
      | Holding i \<Rightarrow> Some (goto t (ZeroTid i) (upd_slot i (\<lambda>x. x\<lparr>rs_txnid := 0\<rparr>) s))
      | ZeroTid i \<Rightarrow> Some (goto t (ZeroPid i) (upd_slot i (\<lambda>x. x\<lparr>rs_tid := 0\<rparr>) s))
      | ZeroPid i \<Rightarrow> Some (goto t (Push i) (upd_slot i (\<lambda>x. x\<lparr>rs_pid := 0\<rparr>) s))
      | Push i \<Rightarrow> Some (goto t Idle (s\<lparr>ls_free := ls_free s @ [int32 i]\<rparr>))
      | Full \<Rightarrow> Some (goto t Idle s))"

lemma lk_next_step: "lk_next who t s = Some s' \<Longrightarrow> lk_step who t s s'"
  by (auto simp: lk_next_def intro: lk_step.intros split: pc.splits if_splits)

fun run_sched :: "(nat \<Rightarrow> u32 \<times> u64) \<Rightarrow> nat list \<Rightarrow> lock_sys \<Rightarrow> lock_sys option" where
  "run_sched who [] s = Some s"
| "run_sched who (t # ts) s = do { s' \<leftarrow> lk_next who t s; run_sched who ts s' }"

lemma run_sched_reach: "lk_reach who n s \<Longrightarrow> run_sched who ts s = Some s' \<Longrightarrow> lk_reach who n s'"
  by (induction ts arbitrary: s) (auto simp: bind_eq_Some_conv intro: lk_reach.step dest: lk_next_step)

lemma release_race:
  "\<exists>s. lk_reach who 1 s \<and> ls_pc s 1 = Holding 0 \<and> rs_txnid (ls_slots s ! 0) \<noteq> 0 \<and> rs_pid (ls_slots s ! 0) = 0"
proof -
  let ?s0 = "\<lparr>ls_slots = replicate 1 free_slot, ls_free = [], ls_pc = (\<lambda>t. Idle)\<rparr>"
  obtain s where s: "run_sched who [0, 0, 0, 0, 0, 0, 1, 1, 1, 1, 1, 0, 0] ?s0 = Some s"
    "ls_pc s 1 = Holding 0" "rs_txnid (ls_slots s ! 0) \<noteq> 0" "rs_pid (ls_slots s ! 0) = 0"
    by (simp add: lk_next_def lock_sys_eqs is_free_def free_slot_def)
  then show ?thesis using run_sched_reach [OF lk_reach.start] by metis
qed

text \<open>The sequential functions are executions of one thread.\<close>

lemma three_steps: "R a b \<Longrightarrow> R b c \<Longrightarrow> R c d \<Longrightarrow> R\<^sup>*\<^sup>* a d"
  by (meson r_into_rtranclp rtranclp.rtrancl_into_rtrancl)

lemma scan_steps:
  assumes "ls_pc s t = Scan k" "drop k (ls_slots s) = ss"
  shows "case scan_slots k ss of
      None \<Rightarrow> (lk_step who t)\<^sup>*\<^sup>* s (goto t Full s)
    | Some i \<Rightarrow> (lk_step who t)\<^sup>*\<^sup>* s (goto t (CasScan i) s) \<and> is_free s i"
  using assms
proof (induction ss arbitrary: k s)
  case Nil
  then have "lk_step who t s (goto t Full s)" by (intro lk_step.ScanEnd [of s t k]) auto
  then show ?case by simp
next
  case (Cons x xs)
  then have k: "k < length (ls_slots s)" "ls_slots s ! k = x" "drop (Suc k) (ls_slots s) = xs"
    by (auto simp: drop_Suc nth_via_drop tl_drop [symmetric]) (metis drop_all list.discI not_le)
  show ?case
  proof (cases "rs_txnid x = 0")
    case True
    then have "is_free s k" using k by (simp add: is_free_def)
    then show ?thesis using True lk_step.ScanFree [OF Cons.prems(1)] by auto
  next
    case False
    let ?s = "goto t (Scan (Suc k)) s"
    have st: "lk_step who t s ?s" using False k Cons.prems(1) by (intro lk_step.ScanTaken) (auto simp: is_free_def)
    have g: "goto t p ?s = goto t p s" "is_free ?s = is_free s" for p by (auto simp: goto_def is_free_def fun_eq_iff)
    have "ls_pc ?s t = Scan (Suc k)" "drop (Suc k) (ls_slots ?s) = xs" using k by (simp_all add: goto_def)
    from Cons.IH [OF this] show ?thesis using False st
      by (auto simp: g split: option.splits intro: converse_rtranclp_into_rtranclp)
  qed
qed

definition sys_of :: "lockFile \<Rightarrow> (nat \<Rightarrow> pc) \<Rightarrow> lock_sys" where
  "sys_of lf pcs = \<lparr>ls_slots = lf_slots lf, ls_free = freeSlots lf, ls_pc = pcs\<rparr>"

lemma claim_steps:
  assumes "lk_step who t s (goto t (StorePid i) (upd_slot i (\<lambda>x. x\<lparr>rs_txnid := - 1\<rparr>) s))" "i < length (ls_slots s)"
  shows "(lk_step who t)\<^sup>*\<^sup>* s (goto t (Holding i) (upd_slot i (claim_slot (fst (who t)) (snd (who t))) s))"
proof -
  let ?s1 = "goto t (StorePid i) (upd_slot i (\<lambda>x. x\<lparr>rs_txnid := - 1\<rparr>) s)"
  let ?s2 = "goto t (StoreTid i) (upd_slot i (\<lambda>x. x\<lparr>rs_pid := fst (who t)\<rparr>) ?s1)"
  let ?s3 = "goto t (Holding i) (upd_slot i (\<lambda>x. x\<lparr>rs_tid := snd (who t)\<rparr>) ?s2)"
  have "lk_step who t ?s1 ?s2" by (rule lk_step.SetPid) (simp add: goto_def)
  moreover have "lk_step who t ?s2 ?s3" by (rule lk_step.SetTid) (simp add: goto_def)
  ultimately have "(lk_step who t)\<^sup>*\<^sup>* s ?s3" by (rule three_steps [of "lk_step who t", OF assms(1)])
  moreover have "?s3 = goto t (Holding i) (upd_slot i (claim_slot (fst (who t)) (snd (who t))) s)"
    using assms(2) by (simp add: lock_sys_eqs claim_slot_def)
  ultimately show ?thesis by simp
qed

lemma slow_steps:
  assumes "ls_pc s t = Scan 0"
  shows "case scan_slots 0 (ls_slots s) of
      None \<Rightarrow> (lk_step who t)\<^sup>*\<^sup>* s (goto t Full s)
    | Some i \<Rightarrow> (lk_step who t)\<^sup>*\<^sup>* s (goto t (Holding i) (upd_slot i (claim_slot (fst (who t)) (snd (who t))) s))"
proof (cases "scan_slots 0 (ls_slots s)")
  case None
  then show ?thesis using scan_steps [OF assms, of "ls_slots s" who] by simp
next
  case (Some i)
  then have a: "(lk_step who t)\<^sup>*\<^sup>* s (goto t (CasScan i) s)" "is_free s i"
    using scan_steps [OF assms, of "ls_slots s" who] by simp_all
  let ?s = "goto t (CasScan i) s"
  have g: "goto t p (upd_slot i f ?s) = goto t p (upd_slot i f s)" for p f by (simp add: lock_sys_eqs)
  have "i < length (ls_slots ?s)" using a(2) by (simp add: is_free_def goto_def)
  moreover have "lk_step who t ?s (goto t (StorePid i) (upd_slot i (\<lambda>x. x\<lparr>rs_txnid := - 1\<rparr>) ?s))"
    using a(2) by (intro lk_step.CasScanOk) (auto simp: goto_def is_free_def)
  ultimately show ?thesis using Some a(1) claim_steps [of who t ?s i] by (simp add: g)
qed

lemma acquire_exec:
  assumes "lock_inv lf" "pcs t = Idle" "acquireReaderSlot (fst (who t)) (snd (who t)) lf = Some (lf', r)"
  shows "(lk_step who t)\<^sup>*\<^sup>* (sys_of lf pcs) (sys_of lf' (pcs(t := (case r of Inl e \<Rightarrow> Full | Inr i \<Rightarrow> Holding i))))"
proof (cases "freeSlots lf = []")
  case True
  let ?s = "goto t (Scan 0) (sys_of lf pcs)"
  have "lk_step who t (sys_of lf pcs) ?s" by (rule lk_step.PopEmpty) (simp_all add: sys_of_def True assms(2))
  moreover have "(lk_step who t)\<^sup>*\<^sup>* ?s (sys_of lf' (pcs(t := (case r of Inl e \<Rightarrow> Full | Inr i \<Rightarrow> Holding i))))"
    using slow_steps [of ?s t who] assms(3) True
    by (auto simp: acquireReaderSlot_def lock_sys_eqs sys_of_def split: option.splits)
  ultimately show ?thesis by (rule converse_rtranclp_into_rtranclp)
next
  case False
  define i where "i = nat (last (freeSlots lf))"
  have i: "i < length (lf_slots lf)" "0 \<le> last (freeSlots lf)" "last (freeSlots lf) < int (length (lf_slots lf))"
    using assms(1) last_in_set [OF False] by (auto simp: lock_inv_def i_def nat_less_iff)
  let ?s = "goto t (CasFree i) ((sys_of lf pcs)\<lparr>ls_free := butlast (freeSlots lf)\<rparr>)"
  have "ls_pc (sys_of lf pcs) t = Idle" "ls_free (sys_of lf pcs) \<noteq> []" by (simp_all add: sys_of_def False assms(2))
  from lk_step.Pop [OF this, of who] have pop: "lk_step who t (sys_of lf pcs) ?s" by (simp add: sys_of_def i_def)
  show ?thesis
  proof (cases "rs_txnid (lf_slots lf ! i) = 0")
    case True
    have "lk_step who t ?s (goto t (StorePid i) (upd_slot i (\<lambda>x. x\<lparr>rs_txnid := - 1\<rparr>) ?s))"
      by (rule lk_step.CasFreeOk) (simp_all add: sys_of_def goto_def is_free_def i True)
    from claim_steps [OF this] have "(lk_step who t)\<^sup>*\<^sup>* ?s (sys_of lf' (pcs(t := (case r of Inl e \<Rightarrow> Full | Inr i \<Rightarrow> Holding i))))"
      using assms(3) i True False by (auto simp: acquireReaderSlot_def lock_sys_eqs sys_of_def i_def Let_def)
    with pop show ?thesis by (rule converse_rtranclp_into_rtranclp)
  next
    case taken: False
    let ?u = "goto t (Scan 0) ?s"
    have "lk_step who t ?s ?u"
      by (rule lk_step.CasFreeFail [of _ _ i]) (simp_all add: sys_of_def goto_def is_free_def i taken)
    moreover have "(lk_step who t)\<^sup>*\<^sup>* ?u (sys_of lf' (pcs(t := (case r of Inl e \<Rightarrow> Full | Inr i \<Rightarrow> Holding i))))"
      using slow_steps [of ?u t who] assms(3) False i taken
      by (auto simp: acquireReaderSlot_def lock_sys_eqs sys_of_def i_def Let_def split: option.splits)
    ultimately show ?thesis using pop by (meson converse_rtranclp_into_rtranclp)
  qed
qed

lemma release_exec:
  assumes "pcs t = Holding i" "releaseReaderSlot i lf = Some lf'"
  shows "(lk_step who t)\<^sup>*\<^sup>* (sys_of lf pcs) (sys_of lf' (pcs(t := Idle)))"
proof -
  have i: "i < length (lf_slots lf)" using assms(2) by (simp add: releaseReaderSlot_def split: if_splits)
  let ?s0 = "sys_of lf pcs"
  let ?s1 = "goto t (ZeroTid i) (upd_slot i (\<lambda>x. x\<lparr>rs_txnid := 0\<rparr>) ?s0)"
  let ?s2 = "goto t (ZeroPid i) (upd_slot i (\<lambda>x. x\<lparr>rs_tid := 0\<rparr>) ?s1)"
  let ?s3 = "goto t (Push i) (upd_slot i (\<lambda>x. x\<lparr>rs_pid := 0\<rparr>) ?s2)"
  let ?s4 = "goto t Idle (?s3\<lparr>ls_free := ls_free ?s3 @ [int32 i]\<rparr>)"
  have s1: "lk_step who t ?s0 ?s1" by (rule lk_step.ClearTxnid) (simp add: sys_of_def assms(1))
  have s2: "lk_step who t ?s1 ?s2" by (rule lk_step.ClearTid) (simp add: goto_def)
  have s3: "lk_step who t ?s2 ?s3" by (rule lk_step.ClearPid) (simp add: goto_def)
  have s4: "lk_step who t ?s3 ?s4" by (rule lk_step.PushFree) (simp add: goto_def)
  have "(lk_step who t)\<^sup>*\<^sup>* ?s0 ?s4" 
    using three_steps [of "lk_step who t", OF s2 s3 s4] converse_rtranclp_into_rtranclp [of "lk_step who t", OF s1] by blast
  moreover have "?s4 = sys_of lf' (pcs(t := Idle))"
    using assms(2) i by (auto simp: releaseReaderSlot_def lock_sys_eqs sys_of_def)
  ultimately show ?thesis by simp
qed

section \<open>The sequential functions as steps\<close>

text \<open>Threads that run the functions of lock.go as wholes, in any order; a thread that holds a slot may publish its transaction id.\<close>

datatype slot_cmd = AcquireSlot | SetTxn u64 | ReleaseSlot

definition run_cmd :: "(nat \<Rightarrow> u32 \<times> u64) \<Rightarrow> nat \<Rightarrow> slot_cmd \<Rightarrow> lockFile \<Rightarrow> (nat \<Rightarrow> pc) \<Rightarrow> (lockFile \<times> (nat \<Rightarrow> pc)) option" where
  "run_cmd who t c lf pcs =
     (case (c, pcs t) of
        (AcquireSlot, Idle) \<Rightarrow>
          do { (lf, r) \<leftarrow> acquireReaderSlot (fst (who t)) (snd (who t)) lf;
               Some (lf, pcs(t := (case r of Inl err \<Rightarrow> Idle | Inr i \<Rightarrow> Holding i))) }
      | (SetTxn v, Holding i) \<Rightarrow> if v = 0 then None else do { lf \<leftarrow> setReaderTxnid i v lf; Some (lf, pcs) }
      | (ReleaseSlot, Holding i) \<Rightarrow> do { lf \<leftarrow> releaseReaderSlot i lf; Some (lf, pcs(t := Idle)) }
      | _ \<Rightarrow> None)"

fun run_cmds :: "(nat \<Rightarrow> u32 \<times> u64) \<Rightarrow> (nat \<times> slot_cmd) list \<Rightarrow> lockFile \<Rightarrow> (nat \<Rightarrow> pc) \<Rightarrow> (lockFile \<times> (nat \<Rightarrow> pc)) option" where
  "run_cmds who [] lf pcs = Some (lf, pcs)"
| "run_cmds who ((t, c) # cs) lf pcs = do { (lf, pcs) \<leftarrow> run_cmd who t c lf pcs; run_cmds who cs lf pcs }"

text \<open>A step of some thread.\<close>

definition any_step :: "(nat \<Rightarrow> u32 \<times> u64) \<Rightarrow> lock_sys \<Rightarrow> lock_sys \<Rightarrow> bool" where
  "any_step who s s' \<longleftrightarrow> (\<exists>t. lk_step who t s s')"

lemma any_steps: "(lk_step who t)\<^sup>*\<^sup>* s s' \<Longrightarrow> (any_step who)\<^sup>*\<^sup>* s s'"
  by (erule mono_rtranclp [rule_format, rotated]) (auto simp: any_step_def)

lemma acquire_cmd:
  assumes "lock_inv lf" "pcs t = Idle" "acquireReaderSlot (fst (who t)) (snd (who t)) lf = Some (lf', r)"
  shows "(lk_step who t)\<^sup>*\<^sup>* (sys_of lf pcs) (sys_of lf' (pcs(t := (case r of Inl err \<Rightarrow> Idle | Inr i \<Rightarrow> Holding i))))" "lock_inv lf'"
proof -
  note ex = acquire_exec [where who = who and t = t and pcs = pcs, OF assms]
  show "(lk_step who t)\<^sup>*\<^sup>* (sys_of lf pcs) (sys_of lf' (pcs(t := (case r of Inl err \<Rightarrow> Idle | Inr i \<Rightarrow> Holding i))))"
  proof (cases r)
    case (Inl err)
    have "lk_step who t (sys_of lf' (pcs(t := Full))) (goto t Idle (sys_of lf' (pcs(t := Full))))"
      by (rule lk_step.GiveUp) (simp add: sys_of_def)
    then show ?thesis using ex Inl by (simp add: lock_sys_eqs sys_of_def)
  next
    case (Inr i)
    then show ?thesis using ex by simp
  qed
  show "lock_inv lf'" using reader_acquire_ok [OF assms(1), of "fst (who t)" "snd (who t)"] assms(3) by (metis option.inject prod.inject)
qed

lemma publish_cmd:
  assumes "lock_inv lf" "pcs t = Holding i" "v \<noteq> 0" "setReaderTxnid i v lf = Some lf'"
  shows "lk_step who t (sys_of lf pcs) (sys_of lf' pcs)" "lock_inv lf'"
proof -
  have "lk_step who t (sys_of lf pcs) (upd_slot i (\<lambda>x. x\<lparr>rs_txnid := v\<rparr>) (sys_of lf pcs))"
    by (rule lk_step.SetTxnid) (simp_all add: sys_of_def assms(2,3))
  then show "lk_step who t (sys_of lf pcs) (sys_of lf' pcs)" "lock_inv lf'"
    using assms(1,4) by (auto simp: setReaderTxnid_def sys_of_def lock_sys_eqs lock_inv_def split: if_splits)
qed

lemma release_cmd:
  assumes "lock_inv lf" "pcs t = Holding i" "releaseReaderSlot i lf = Some lf'"
  shows "(lk_step who t)\<^sup>*\<^sup>* (sys_of lf pcs) (sys_of lf' (pcs(t := Idle)))" "lock_inv lf'"
proof -
  have "i < length (lf_slots lf)" using assms(3) by (simp add: releaseReaderSlot_def split: if_splits)
  then show "lock_inv lf'" using reader_release_ok [OF assms(1), of i] assms(3) by auto
  show "(lk_step who t)\<^sup>*\<^sup>* (sys_of lf pcs) (sys_of lf' (pcs(t := Idle)))" by (rule release_exec [where t = t and pcs = pcs, OF assms(2,3)])
qed

lemma run_cmd_exec:
  assumes "lock_inv lf" "run_cmd who t c lf pcs = Some (lf', pcs')"
  shows "(any_step who)\<^sup>*\<^sup>* (sys_of lf pcs) (sys_of lf' pcs') \<and> lock_inv lf'"
proof (cases c)
  case AcquireSlot
  with assms(2) obtain r where "pcs t = Idle" "acquireReaderSlot (fst (who t)) (snd (who t)) lf = Some (lf', r)"
    "pcs' = pcs(t := (case r of Inl err \<Rightarrow> Idle | Inr i \<Rightarrow> Holding i))"
    by (auto simp: run_cmd_def bind_eq_Some_conv split: pc.splits)
  with acquire_cmd [where who = who and t = t and pcs = pcs, OF assms(1) this(1,2)]
  show ?thesis by (auto intro: any_steps)
next
  case (SetTxn v)
  with assms(2) obtain i where "pcs t = Holding i" "v \<noteq> 0" "setReaderTxnid i v lf = Some lf'" "pcs' = pcs"
    by (auto simp: run_cmd_def bind_eq_Some_conv split: pc.splits if_splits)
  with publish_cmd(1) [where who = who and t = t and pcs = pcs, OF assms(1) this(1-3)] publish_cmd(2) [where t = t and pcs = pcs, OF assms(1) this(1-3)] show ?thesis
    by (auto simp: any_step_def intro!: r_into_rtranclp)
next
  case ReleaseSlot
  with assms(2) obtain i where "pcs t = Holding i" "releaseReaderSlot i lf = Some lf'" "pcs' = pcs(t := Idle)"
    by (auto simp: run_cmd_def bind_eq_Some_conv split: pc.splits)
  with release_cmd(1) [where who = who and t = t and pcs = pcs, OF assms(1) this(1,2)] release_cmd(2) [where t = t and pcs = pcs, OF assms(1) this(1,2)]
  show ?thesis by (auto intro: any_steps)
qed

text \<open>A command that fits the state of its thread does not fail.\<close>

definition cmd_fits :: "slot_cmd \<Rightarrow> pc \<Rightarrow> bool" where
  "cmd_fits c p \<longleftrightarrow> (case c of AcquireSlot \<Rightarrow> p = Idle | SetTxn v \<Rightarrow> v \<noteq> 0 \<and> (\<exists>i. p = Holding i) | ReleaseSlot \<Rightarrow> \<exists>i. p = Holding i)"

definition holds_slots :: "lockFile \<Rightarrow> (nat \<Rightarrow> pc) \<Rightarrow> bool" where
  "holds_slots lf pcs \<longleftrightarrow> (\<forall>t i. pcs t = Holding i \<longrightarrow> i < length (lf_slots lf))"

lemma run_cmd_holds:
  assumes "lock_inv lf" "holds_slots lf pcs" "run_cmd who t c lf pcs = Some (lf', pcs')"
  shows "holds_slots lf' pcs'"
proof (cases c)
  case AcquireSlot
  with assms(3) obtain r where r: "acquireReaderSlot (fst (who t)) (snd (who t)) lf = Some (lf', r)"
    "pcs' = pcs(t := (case r of Inl err \<Rightarrow> Idle | Inr i \<Rightarrow> Holding i))"
    by (auto simp: run_cmd_def bind_eq_Some_conv split: pc.splits)
  have "i < length (lf_slots lf')" if "r = Inr i" for i
    using reader_acquire_ok [OF assms(1), of "fst (who t)" "snd (who t)"] r(1) that acquire_length [OF r(1)] by auto
  then show ?thesis using assms(2) acquire_length [OF r(1)] r(2) by (auto simp: holds_slots_def split: sum.splits)
next
  case (SetTxn v)
  with assms(2,3) show ?thesis
    by (auto simp: run_cmd_def bind_eq_Some_conv setReaderTxnid_def holds_slots_def split: pc.splits if_splits)
next
  case ReleaseSlot
  with assms(2,3) show ?thesis
    by (auto simp: run_cmd_def bind_eq_Some_conv releaseReaderSlot_def holds_slots_def split: pc.splits if_splits)
qed

lemma run_cmds_exec:
  "lock_inv lf \<Longrightarrow> holds_slots lf pcs \<Longrightarrow> run_cmds who cs lf pcs = Some (lf', pcs') \<Longrightarrow>
    (any_step who)\<^sup>*\<^sup>* (sys_of lf pcs) (sys_of lf' pcs') \<and> lock_inv lf' \<and> holds_slots lf' pcs'"
proof (induction who cs lf pcs rule: run_cmds.induct)
  case (2 who t c cs lf pcs)
  then obtain lf1 pcs1 where 1: "run_cmd who t c lf pcs = Some (lf1, pcs1)" "run_cmds who cs lf1 pcs1 = Some (lf', pcs')"
    by (auto simp: bind_eq_Some_conv)
  from run_cmd_exec [OF 2(2) 1(1)] run_cmd_holds [OF 2(2,3) 1(1)] "2.IH" [OF 1(1) refl _ _ 1(2)] show ?case by auto
qed simp

lemma run_cmd_total:
  assumes "lock_inv lf" "holds_slots lf pcs" "cmd_fits c (pcs t)"
  shows "\<exists>lf' pcs'. run_cmd who t c lf pcs = Some (lf', pcs')"
  using assms reader_acquire_ok [OF assms(1), of "fst (who t)" "snd (who t)"]
  by (auto simp: run_cmd_def cmd_fits_def holds_slots_def setReaderTxnid_def releaseReaderSlot_def split: slot_cmd.splits)

end
