(* ===== verification/Spec2Isabelle.thy ===== *)
theory Spec2Isabelle
  imports Samples TxnSamples Fastmap Spill MetaUpdate PageSplit Errors WriteSamples CursorRun DupSpec PutProps RangeDelete CommitProps TxnOps EnvProps Mmap Compat LockSteps
begin

text \<open>
  gdbx is an embedded key-value store in Go with the file format of libmdbx: a memory-mapped file of
  pages, a B+-tree per table, copy-on-write transactions, one writer, many readers with snapshots, and
  tables whose keys have several sorted values (DUPSORT).  This development models it as functions on
  explicit states and proves what makes the parts correct.

  Conventions.  A computation that can panic, read outside a slice with unsafe pointers, or run for ever
  has an option type, and None stands for all three; the theorems state that Some is returned.
  Errors are values of goerror (errors.go), results are sums goerror + 'a.  Go's int is int, fields of
  files are words of their width.  A byte slice is a list whose capacity is its length, except where the
  source slices the mapping beyond a page.  Results of the operating system, stale memory, random bytes
  are parameters.  Mutexes are taken to serialise; only the reader slots, which use atomics, are
  modelled as interleaved steps.  The model is the little-endian unix build without assembly kernels.

  Theories and source files.
  \<^item> Prelude: words, byte slices, little-endian fields (endian_le.go).  Constants: constants.go.
  \<^item> Errors: errors.go, codes, messages, wrapping and the predicates on errors.
  \<^item> Page, PageEntries, PageOps, PageCompact, PageSplit: page.go.  Page holds the operations on the raw
    bytes; page_ok is the well-formedness invariant, entries the abstraction to the list of nodes.  The
    others prove insertion, update, removal, compaction and the choice of a split point against it.
  \<^item> Node, NodeSpec: node.go, the five families of accessors and their agreement.
  \<^item> KeyOrder, Search: the orders of keys as a locale, binary search, searchPage (cursor.go) and the
    specialised searches (search_other.go).
  \<^item> MapStore, Fastmap: the contract of a map as a locale; fastmap/fastmap.go implements it.
  \<^item> SlotPool, Bitmap, Spill: the contract of an allocator of slots as a locale; spill/bitmap.go and
    spill/spill.go implement it.
  \<^item> Meta, MetaUpdate: meta.go, and the commit point: updateMeta (txn.go), readMeta and initNewDB (env.go).
  \<^item> TxnRead, TreeRead: the state of environments and transactions, the dirty page tracker, the page
    sources, Txn.Get with its three descents (txn.go).  tree_ok is the ordering invariant of a tree,
    leaf_nodes the abstraction of a tree to its leaf nodes from left to right.
  \<^item> PageAlloc, PageAllocSpec, Overflow: allocation of pages and overflow runs, release and update in
    place (cursor_modify.go).  seen is what a write transaction sees, wtxn_ok n its invariant with room
    for n further pages.
  \<^item> Cursor, CursorNav, CursorPairs: cursor.go, the page stack and its refresh, navigation, the position
    within duplicates, searches, Cursor.Get with every operation code.
  \<^item> LockFile, LockSteps: lock.go, the lock file and reader slots as functions, and acquire and release
    taken apart into atomic accesses of interleaving threads.
  \<^item> TreePath, CursorIter, CursorOpen, CursorRun: the pool of cursors and Txn.OpenCursor; a path through a
    tree and the nodes behind it, and First and Next along the leaves of a read-only table.
  \<^item> CursorPut, CursorDup, CursorDel: cursor_modify.go, the search for the place of a key, copy-on-write up
    to the root, insertion with page splits, sub-pages and sub-trees of duplicates, put with its flags,
    deletion.  DupSpec: sub-pages as sorted lists of values.
  \<^item> WTree, PageCopy, CowSpec: the tree a write transaction sees as an abstract tree (abst), the copy of a
    page under a new number, touchPage against the abstract tree.  wtree is the invariant of a cursor
    on a path of such a tree, fresh the pages the transaction has not allocated.
  \<^item> PutPath, PutSpec, PutProps: Cursor.Put on a table without duplicates as a map update (wtable), for a
    leaf with room; splits are modelled in CursorPut and specified page by page in PageSplit.
  \<^item> RangeDelete: range_delete.go.
  \<^item> CursorHandles: cursors as objects with addresses, the cursor cache and the list of a transaction,
    Close, Bind, Renew, Unbind (compat.go), ReleaseAllCursors; an invariant over all sequences of these.
  \<^item> TxnLife: BeginTxn (env.go), Commit and Abort (txn.go) on a database: environment, data file, lock
    file, caches, with the answers of the system as the record kernel.  The mapping shares its bytes
    with the file.
  \<^item> CommitSpec, CommitFail, CommitProps: a commit that succeeds, commits that the system refuses, and the
    readers begun after either; commit_ready is the state a commit starts from, committed the one it
    leaves, old_or_new what the file shows afterwards.
  \<^item> TxnOps: the other operations of a transaction (txn.go, dbi.go, compat.go): reset, renew, park, opening,
    creating and dropping tables, Put, Del, sequences, statistics, functions run in a transaction.
  \<^item> EnvOps, EnvProps: env.go, options, Open and Close, extending the mapping, statistics, the list of
    readers, copying, the cache of page buffers; a new database opens, and transactions begin on it.
    The answers of the system to Open are the record openOS.
  \<^item> Mmap: mmap/, the unix build, with the results of the system calls as parameters.  Compat: hexadecimal
    strings and settings of compat.go.
  \<^item> Samples, TxnSamples, WriteSamples: small concrete states for the witnesses.

  Bounds and fuel.  Loops without a bound of their own (probing, descents) are partial functions, and
  the theorems show that they return.  wtxn_ok n carries room for n pages: below 3 * 2^29 entries in the
  hash tables and fewer live slots than DefaultMaxSegments in the spill buffer, a bound on what one
  transaction may still allocate.  Fewer than 65536 segments and slots per segment are assumed where
  the code truncates to 16 bits.

  Not modelled: the Windows builds of the lock file and the memory maps, assembly search kernels, the rest
  of the mdbx-go compatibility layer and the benchmarks, which are thin wrappers or not logic of the
  store; user contexts and sync.Pool recycling of page structs.
\<close>

section \<open>Lookup through a transaction\<close>



text \<open>C8: The inlined descent of read-only transactions, which reads the mapping at absolute offsets, the
  descent through page slices, and the descent of a write transaction that sees the same pages
  return the same result on every tree that satisfies the ordering invariant.\<close>

theorem descents_agree:
  assumes "tree_ok bytes_compare (rd_map (mapped (mmapData t)) (unat (txnPageSize t))) h pg None None"
  shows "directGetReadOnlyFast e (t # ps) pg k = directGetReadOnly e (t # ps) pg k bytes_compare \<and>
    (rd_txn e (t # ps) = rd_map (mapped (mmapData t)) (unat (txnPageSize t)) \<longrightarrow>
      directGetWrite e (t # ps) pg k bytes_compare = directGetReadOnly e (t # ps) pg k bytes_compare)"
proof -
  have rng: "in_range bytes_compare None None k" by (simp add: in_range_def)
  note fast = directGetReadOnlyFast_ok [OF assms rng] and ro = bytes.directGetReadOnly_ok [OF assms rng]
  show ?thesis
  proof (intro conjI impI)
    show "directGetReadOnlyFast e (t # ps) pg k = directGetReadOnly e (t # ps) pg k bytes_compare" by (simp only: fast ro)
  next
    assume src: "rd_txn e (t # ps) = rd_map (mapped (mmapData t)) (unat (txnPageSize t))"
    then have "tree_ok bytes_compare (rd_txn e (t # ps)) h pg None None" using assms by simp
    from bytes.directGetWrite_ok [OF this rng]
    show "directGetWrite e (t # ps) pg k bytes_compare = directGetReadOnly e (t # ps) pg k bytes_compare"
      by (simp only: src ro)
  qed
qed

theorem descents_agree_witness:
  "directGetReadOnlyFast sample_env [sample_txn] 5 [98] = directGetReadOnly sample_env [sample_txn] 5 [98] bytes_compare"
proof -
  have "page_source sample_env sample_txn [] = rd_map (mapped (mmapData sample_txn)) (unat (txnPageSize sample_txn))"
    by (simp add: page_source_def IsReadOnly_def sample_txn_def TxnReadOnly_def)
  then show ?thesis using descents_agree [of sample_txn 0 5 sample_env "[]" "[98]"] sample_txn_tree by simp
qed

section \<open>Pages\<close>

text \<open>C9: page.insertEntry on a well-formed page succeeds exactly when the node and its pointer fit into the
  free bytes of the page, compaction included.  Then the entries are the old ones with the node at
  the index; otherwise no entry is lost or changed.  The page stays well-formed in both cases.\<close>

theorem page_insert:
  assumes "page_ok p" "i \<le> nents p" "node_wf (brp p) nd"
  shows "\<exists>p'. insertEntry p (int i) nd pool = Some (p', insert_fits p nd) \<and> page_ok p' \<and>
    length (Data p') = length (Data p) \<and> brp p' = brp p \<and>
    entries p' = (if insert_fits p nd then insert_at i nd (entries p) else entries p)"
proof (cases "insert_fits p nd")
  case True
  then show ?thesis using insertEntry_fits [OF assms True, of pool] by (auto simp: insert_at_def)
next
  case False
  then show ?thesis using insertEntry_full [OF assms(1,2) False, of pool] by (auto simp: compacted_def)
qed

theorem page_insert_witness:
  "\<exists>p'. insertEntry sample_leaf 1 (sample_node [99] [119]) [] = Some (p', True) \<and>
    entries p' = [sample_node [98] [120], sample_node [99] [119], sample_node [100] [121, 122]]"
proof -
  have "insert_fits sample_leaf (sample_node [99] [119])"
    by (simp add: insert_fits_def sample_leaf_fields sample_totals)
  then show ?thesis
    using page_insert [of sample_leaf 1 "sample_node [99] [119]" "[]"] sample_leaf_ok sample_node_wf
    by (auto simp: sample_leaf_fields insert_at_def sample_entries)
qed

text \<open>C17: page.updateEntry replaces the entry in place when the new node is not longer than the old one, or
  takes fresh bytes when they fit below upper; otherwise it reports failure and leaves the page as
  it was.  No other entry changes.\<close>

theorem page_update:
  assumes "page_ok p" "i < nents p" "node_wf (brp p) nd"
  defines "fits \<equiv> length nd \<le> length (entries p ! i) \<or> low p + length nd \<le> upp p"
  shows "\<exists>p'. updateEntry p (int i) nd = Some (p', fits) \<and> page_ok p' \<and>
    length (Data p') = length (Data p) \<and> brp p' = brp p \<and>
    entries p' = (if fits then (entries p)[i := nd] else entries p)"
proof -
  have len: "length (entries p ! i) = nsz p i" using assms by simp
  consider "length nd \<le> nsz p i" | "nsz p i < length nd" "low p + length nd \<le> upp p"
    | "nsz p i < length nd" "upp p < low p + length nd" by linarith
  then show ?thesis
  proof cases
    case 1
    then show ?thesis using updateEntry_in_place [OF assms(1,2) 1 assms(3)] by (auto simp: fits_def len)
  next
    case 2
    then show ?thesis using updateEntry_grow [OF assms(1,2) 2 assms(3)] by (auto simp: fits_def len)
  next
    case 3
    then show ?thesis using updateEntry_full [OF assms(1,2) 3] assms(1) by (simp add: fits_def len)
  qed
qed

theorem page_update_witness:
  "\<exists>p'. updateEntry sample_leaf 1 (sample_node [99] [119]) = Some (p', True) \<and>
    entries p' = [sample_node [98] [120], sample_node [99] [119]]"
  using page_update [of sample_leaf 1 "sample_node [99] [119]"] sample_leaf_ok sample_node_wf
  by (auto simp: sample_leaf_fields sample_entries sample_totals)

text \<open>C18: page.removeEntry drops exactly the entry at the index, and page.removeEntriesFrom keeps exactly the
  entries before the start index; the page stays well-formed.\<close>

theorem page_remove:
  assumes "page_ok p" "i < nents p" "0 \<le> j"
  shows "(\<exists>p'. removeEntry p (int i) = Some (p', True) \<and> page_ok p' \<and>
      entries p' = take i (entries p) @ drop (Suc i) (entries p)) \<and>
    (\<exists>p'. removeEntriesFrom p j = Some p' \<and> page_ok p' \<and> entries p' = take (nat j) (entries p))"
  using removeEntry_ok [OF assms(1,2)] removeEntriesFrom_ok [OF assms(1,3)] by blast

theorem page_remove_witness:
  "(\<exists>p'. removeEntry sample_branch 1 = Some (p', True) \<and> entries p' = [sample_child [] 7, sample_child [109] 9]) \<and>
   (\<exists>p'. removeEntriesFrom sample_branch 1 = Some p' \<and> entries p' = [sample_child [] 7])"
  using page_remove [of sample_branch 1 1] sample_branch_ok
  by (auto simp: sample_branch_fields sample_entries)

text \<open>C14: page.compact gathers the nodes without a gap: it returns the number of bytes gained, keeps every entry
  and its index, and leaves free exactly the bytes that no node and no pointer uses.\<close>

theorem page_compact:
  assumes "page_ok p"
  shows "\<exists>p'. compact p pool = Some (p', int (upp p') - int (upp p)) \<and> page_ok p' \<and> entries p' = entries p \<and>
    brp p' = brp p \<and> low p' = low p \<and> length (Data p') = length (Data p) \<and>
    freeSpace p' = int (length (Data p)) - 20 - int (low p) - int (sum_list (map length (entries p)))"
proof -
  obtain p' where p': "compact p pool = Some (p', int (upp p') - int (upp p))" "compacted p p'"
    using compact_ok [OF assms] by blast
  note c = p'(2) [unfolded compacted_def]
  have "freeSpace p' = int (upp p') - int (low p')"
    using page_okD(1) [of p'] c by (simp add: freeSpace_eq)
  moreover have "total p + 20 \<le> length (Data p)" using total_bound [OF assms] page_okD [OF assms] by linarith
  ultimately show ?thesis using p' c by (auto simp: total_entries [OF assms])
qed

theorem page_compact_witness:
  "\<exists>p'. compact sample_leaf [] = Some (p', int (upp p') - 23) \<and> entries p' = entries sample_leaf \<and> freeSpace p' = 19"
  using page_compact [of sample_leaf "[]"] sample_leaf_ok
  by (auto simp: sample_leaf_fields sample_entries sample_totals)

text \<open>C15: page.splitPoint, called for a node that fits into an empty page, always returns a split in which both
  halves, the new node included, fit into a page of that size.\<close>

theorem split_point_fits:
  assumes "page_ok p" "nents p \<noteq> 0" "i \<le> nents p" "22 + length nd \<le> length (Data p)"
  shows "\<exists>k. splitPoint p (int (length nd)) (int i) = Some (int k) \<and> k \<le> nents p \<and>
    fits_page (length (Data p)) (fst (split_halves (entries p) i nd k)) \<and>
    fits_page (length (Data p)) (snd (split_halves (entries p) i nd k))"
  using splitPoint_good [OF assms] by (auto simp: good_split_def)

theorem split_point_fits_witness:
  "\<exists>k. splitPoint sample_leaf (int (length (sample_node [99] [119]))) 1 = Some (int k) \<and> k \<le> 2"
  using split_point_fits [of sample_leaf 1 "sample_node [99] [119]"] sample_leaf_ok
  by (auto simp: sample_leaf_fields sample_totals)

text \<open>C22: page.compactTo copies a page into a page of the same size: same entries in the same order, a header that
  differs at most in its two bounds (same type and flags, page number and transaction id), and the
  result is well-formed.\<close>

theorem page_compact_to:
  assumes "page_ok p" "length (Data dst) = length (Data p)"
  shows "\<exists>d' lower upper. compactTo p dst (of_nat (length (Data p))) pool = Some d' \<and> page_ok d' \<and> entries d' = entries p \<and>
    header d' = map_option (\<lambda>h. h\<lparr>hLower := lower, hUpper := upper\<rparr>) (header p) \<and> length (Data d') = length (Data p)"
proof -
  obtain d' where d: "compactTo p dst (of_nat (length (Data p))) pool = Some d'" "page_ok d'"
    "entries d' = entries p" "length (Data d') = length (Data p)"
    "\<forall>k. k < 12 \<or> 16 \<le> k \<and> k < 20 \<longrightarrow> Data d' ! k = Data p ! k"
    using compactTo_ok [OF assms, of pool] by blast
  have "header d' = map_option (\<lambda>h. h\<lparr>hLower := g16 (Data d') 12, hUpper := g16 (Data d') 14\<rparr>) (header p)"
    using d(4,5) page_okD(1) [OF assms(1)] by (simp add: header_Some g16_def g32_def g64_def)
  then show ?thesis using d by blast
qed

theorem page_compact_to_witness:
  "\<exists>d'. compactTo sample_leaf \<lparr>Data = replicate 64 0\<rparr> 64 [] = Some d' \<and> entries d' = entries sample_leaf"
  using page_compact_to [of sample_leaf "\<lparr>Data = replicate 64 0\<rparr>" "[]"] sample_leaf_ok
  by (auto simp: sample_leaf_fields)

section \<open>Searches\<close>

text \<open>C10: cursor.searchPage with a custom comparator, on a well-formed page whose keys are sorted by it: in a leaf
  the number of smaller keys (the position of the key, or where to insert it), in a branch the last child
  whose separator is not greater than the key, child 0 when there is none.\<close>

theorem search_page_position:
  assumes "key_order cmp" "page_ok p" "keys_sorted cmp p"
  shows "searchPage False cmp p k =
    Some (int (if brp p then branch_pos cmp (keys_of p) k else leaf_pos cmp (keys_of p) k))"
  using key_order.searchPage_cmp_ok [OF assms] by (simp add: search_result_def)

theorem search_page_position_witness:
  "searchPage False bytes_compare sample_branch [104] = Some 1"
  using search_page_position [of bytes_compare sample_branch "[104]", OF bytes.key_order_axioms sample_branch_ok sample_sorted(2)]
  by (simp add: sample_branch_fields branch_pos_def sample_keys bytes_compare_def)

text \<open>C13: for tables with the default order searchPage takes the specialised searches of search_other.go; these
  return the same index as the general binary search with bytes.Compare, for keys of every length.\<close>

theorem search_page_fast_agrees:
  assumes "page_ok p" "keys_sorted bytes_compare p"
  shows "searchPage True cmp p k = searchPage False bytes_compare p k"
  using searchPage_default_ok [OF assms] bytes.searchPage_cmp_ok [OF assms] by simp

theorem search_page_fast_agrees_witness:
  "searchPage True bytes_compare sample_leaf [99] = Some 1"
  using search_page_fast_agrees [OF sample_leaf_ok sample_sorted(1), of bytes_compare "[99]"]
    bytes.searchPage_cmp_ok [OF sample_leaf_ok sample_sorted(1), of "[99]"]
  by (simp add: search_result_def sample_leaf_fields leaf_pos_def sample_keys bytes_compare_def)

text \<open>The checked, the raw, the unchecked and the fast accessor of node.go return the same key, child page
  number and flags for every entry of a well-formed page: those of the entry's bytes.\<close>

theorem accessors_agree:
  assumes "page_ok p" "i < nents p"
  defines "nd \<equiv> entries p ! i"
  shows "nodeGetKeyDirect p (int i) = Some (Some (nd_key nd)) \<and>
    nodeGetKeyRaw (Data p) (int i) = Some (Some (nd_key nd)) \<and>
    nodeGetKeyUnchecked (Data p) (int i) = Some (nd_key nd) \<and> nodeGetKeyFast p (int i) = Some (nd_key nd) \<and>
    nodeGetChildPgnoDirect p (int i) = Some (nd_dsize nd) \<and> nodeGetChildPgnoRaw (Data p) (int i) = Some (nd_dsize nd) \<and>
    nodeGetChildPgnoUnchecked (Data p) (int i) = Some (nd_dsize nd) \<and> nodeGetChildPgnoFast p (int i) = Some (nd_dsize nd) \<and>
    nodeGetFlagsDirect p (int i) = Some (nd_flags nd) \<and> nodeGetFlagsRaw (Data p) (int i) = Some (nd_flags nd) \<and>
    nodeGetFlagsUnchecked (Data p) (int i) = Some (nd_flags nd) \<and> nodeGetFlagsFast p (int i) = Some (nd_flags nd)"
  using key_accessors [OF assms(1,2)] child_accessors [OF assms(1,2)] flag_accessors [OF assms(1,2)]
  by (simp add: nd_def assms(2))

theorem accessors_agree_witness:
  "nodeGetKeyDirect sample_branch 2 = Some (Some [109]) \<and> nodeGetKeyFast sample_branch 2 = Some [109] \<and>
   nodeGetChildPgnoRaw (Data sample_branch) 2 = Some 9"
  using accessors_agree [of sample_branch 2, OF sample_branch_ok]
  by (simp add: sample_branch_fields sample_entries sample_node_eval nd_dsize_def)

section \<open>The dirty page table\<close>

text \<open>C12: Uint32Map.Set followed by Get behaves as a map update, whether the key was there or not and whether the
  table has to grow first; both calls return (the probe loops terminate), for tables of at most 2^31 buckets.\<close>

theorem fastmap_set_get:
  assumes "map_inv m" "length (buckets m) \<le> 2 ^ 31"
  shows "\<exists>m'. Set m k v = Some m' \<and> map_inv m' \<and>
    (\<forall>k'. Get m' k' = (if k' = k then Some v else Get m k')) \<and> Len m' = card (insert k (dom (lookup m)))"
proof -
  obtain m' where m': "Set m k v = Some m'" "map_inv m'" "lookup m' = (lookup m)(k \<mapsto> v)"
    using Set_ok [OF assms] by blast
  show ?thesis
    using m' Get_ok [OF m'(2)] Get_ok [OF assms(1)] Len_ok [OF m'(2)] by auto
qed

theorem fastmap_set_get_witness:
  "\<exists>m'. Set empty_map 7 (Some ''page'') = Some m' \<and> Get m' 7 = Some (Some ''page'') \<and> Get m' 8 = Some None \<and> Len m' = 1"
proof -
  have "length (buckets (empty_map :: string Uint32Map)) \<le> 2 ^ 31" by (simp add: empty_map_def)
  from fastmap_set_get [OF map_inv_empty(1) this, of 7 "Some ''page''"] show ?thesis
    using Get_ok [OF map_inv_empty(1), of 8] by (auto simp: map_inv_empty(2))
qed

text \<open>Uint32Map.ForEach calls its function once for every key of the map and for nothing else.\<close>

theorem fastmap_for_each:
  assumes "map_inv m"
  shows "\<exists>kvs. distinct (map fst kvs) \<and> (\<forall>k v. (k, v) \<in> set kvs \<longleftrightarrow> lookup m k = Some v) \<and>
    (\<forall>fn s. ForEach fn m s = fold (\<lambda>(k, v) s. fn s k v) kvs s)"
  using ForEach_distinct [OF assms] ForEach_entries [of _ m]
  by (intro exI [of _ "entries_of (buckets m)"]) auto

theorem fastmap_for_each_witness:
  "\<exists>kvs. distinct (map fst kvs) \<and> (\<forall>fn s. ForEach fn (empty_map :: nat Uint32Map) s = fold (\<lambda>(k, v) s. fn s k v) kvs s)"
  using fastmap_for_each [OF map_inv_empty(1)] by blast

section \<open>Spill buffer\<close>

text \<open>C20: whatever sequence of Allocate and Free a client runs on a slot bitmap, no slot is handed out while it
  is held, and the slots marked at the end are those held.\<close>

theorem bitmap_exclusive:
  assumes "bm_inv b"
  shows "\<exists>b' ops. run_ops bm_alloc Free b cmds = Some (b', ops) \<and> bm_inv b' \<and>
    exclusive (live_slots b) ops \<and> live_slots b' = held (live_slots b) ops"
proof -
  have "bm.admissible b cmds"
  proof (induction cmds arbitrary: b)
    case (Cons c cmds)
    then show ?case by (cases c) auto
  qed simp
  then show ?thesis using bm.run_exclusive [OF assms] by blast
qed

theorem bitmap_exclusive_witness:
  "\<exists>b' ops. run_ops bm_alloc Free (NewBitmap 2) [None, None, Some 0, None] = Some (b', ops) \<and> exclusive {} ops"
  using bitmap_exclusive [of "NewBitmap 2" "[None, None, Some 0, None]"] NewBitmap_ok [of 2]
  by (auto simp: live_slots_def)

text \<open>Bitmap.Allocate fails only when every slot is taken; otherwise it returns a free slot below the
  capacity and marks it.  Free makes exactly its slot free again.\<close>

theorem bitmap_allocate:
  assumes "bm_inv b"
  shows "(if slots b = {..< unat (numSlots b)} then Allocate b = Some (b, 0, False)
     else \<exists>b' s. Allocate b = Some (b', s, True) \<and> unat s < unat (numSlots b) \<and> unat s \<notin> slots b \<and>
       slots b' = insert (unat s) (slots b) \<and> bm_inv b') \<and>
    (\<exists>b'. Free b t = Some b' \<and> bm_inv b' \<and> slots b' = slots b - {unat t})"
  using Allocate_ok [OF assms] Free_ok [OF assms, of t] by (auto split: if_splits)

theorem bitmap_allocate_witness:
  "\<exists>b' s. Allocate (NewBitmap 3) = Some (b', s, True) \<and> unat s < 3"
proof -
  have ok: "bm_inv (NewBitmap 3)" "slots (NewBitmap 3) = {}" "unat (numSlots (NewBitmap 3)) = 3"
    using NewBitmap_ok [of 3] by simp_all
  have ne: "({} = {..< 3 :: nat}) = False" using lessThan_empty_iff [of "3 :: nat"] by auto
  then show ?thesis
    using bitmap_allocate [OF ok(1), of 0] by (simp only: ok ne if_False) blast
qed

text \<open>C19: Buffer.Allocate returns a region no live slot has and keeps every live slot; it fails only when the
  operating system refuses a new segment or the segment limit is reached with every slot taken.  Get on the
  returned slot gives that region back, below 65536 slots per segment and 65536 segments.\<close>

theorem spill_allocate:
  assumes "buf_inv b" "unat (segmentCap b) < 65536"
  shows "\<exists>b' r e. SpillAllocate os b = Some (b', r, e) \<and> buf_inv b' \<and>
    (case r of
       None \<Rightarrow> e \<noteq> None \<and> live b' = live b \<and> (os \<noteq> None \<or> DefaultMaxSegments \<le> length (segments b)) \<and>
         live b = {..< length (segments b)} \<times> {..< unat (segmentCap b)}
     | Some (reg, sl) \<Rightarrow> e = None \<and> (\<exists>i s. (i, s) \<notin> live b \<and> live b' = insert (i, s) (live b) \<and>
         reg = region_of b i s \<and> (i < 65536 \<longrightarrow> SpillGet b' (Some sl) = Some (Some reg))))"
proof -
  obtain b' r e where a: "SpillAllocate os b = Some (b', r, e)" "buf_inv b'" "segmentCap b' = segmentCap b"
      "pageSize b' = pageSize b"
    and c: "case r of
       Some (reg, sl) \<Rightarrow> e = None \<and> (\<exists>i s. i < length (segments b') \<and> s < unat (segmentCap b) \<and> (i, s) \<notin> live b \<and>
         live b' = insert (i, s) (live b) \<and> reg = region_of b i s \<and> sl = slot_of i s)
     | None \<Rightarrow> e \<noteq> None \<and> live b' = live b \<and> (os \<noteq> None \<or> DefaultMaxSegments \<le> length (segments b)) \<and>
         live b = {..< length (segments b)} \<times> {..< unat (segmentCap b)}"
    using SpillAllocate_ok [OF assms(1), of os] by blast
  have reg: "region_of b' = region_of b" using a(4) by (simp add: region_of_def fun_eq_iff)
  show ?thesis
  proof (cases r)
    case None
    then show ?thesis using a c by auto
  next
    case (Some x)
    obtain rg sl where x: "x = (rg, sl)" by (cases x)
    from c Some x obtain i s where "e = None" "i < length (segments b')" "s < unat (segmentCap b)" "(i, s) \<notin> live b"
      "live b' = insert (i, s) (live b)" "rg = region_of b i s" "sl = slot_of i s" by auto
    then show ?thesis
      using a Some x SpillGet_ok [OF a(2), of i s] assms(2) reg by simp (metis prod.inject)
  qed
qed

theorem spill_allocate_witness:
  "\<exists>b b' r e. New None ''spill'' 4096 16 = Inr b \<and> SpillAllocate None b = Some (b', r, e) \<and> buf_inv b'"
proof -
  obtain b where b: "New None ''spill'' 4096 16 = Inr b" "buf_inv b" "segmentCap b = 16"
    using New_ok [of 16 "''spill''" 4096] by auto
  then show ?thesis using spill_allocate [of b None] by auto
qed

text \<open>The regions of two different slots do not overlap, so two live pages of the spill buffer never share a byte.\<close>

theorem spill_disjoint:
  "case (region_of b i s, region_of b j t) of ((i1, o1, n1), (i2, o2, n2)) \<Rightarrow>
     (i, s) = (j, t) \<or> i1 \<noteq> i2 \<or> o1 + n1 \<le> o2 \<or> o2 + n2 \<le> o1"
  using regions_disjoint [of i s j t b] by (cases "(i, s) = (j, t)") (auto split: prod.splits)

theorem spill_disjoint_witness:
  "\<exists>b. New None ''spill'' 4096 16 = Inr b \<and>
    (case (region_of b 0 0, region_of b 0 1) of ((i1, o1, n1), (i2, o2, n2)) \<Rightarrow> o1 + n1 \<le> o2 \<or> o2 + n2 \<le> o1)"
proof -
  obtain b where b: "New None ''spill'' 4096 16 = Inr b"
    using New_ok [of 16 "''spill''" 4096] by auto
  then show ?thesis using spill_disjoint [where b = b and i = 0 and s = 0 and j = 0 and t = 1] by (auto simp: region_of_def)
qed

section \<open>Overflow pages\<close>

text \<open>C25: a value stored by allocateOverflow in a write transaction, in the spill buffer or in the writable
  mapping, is what getLargeData of the same transaction returns; every page outside the new run keeps its
  content in the view of the transaction, and the large page counter grows by the length of the run.\<close>

theorem overflow_round_trip:
  assumes "world_ok w" "20 < unat (envPageSize e)" "Suc (length data) < 2 ^ 32" "dbi < length (trees t)"
    and "wtxn_ok (overflow_count (uint (envPageSize e)) (int (length data)) + m) e t"
  shows "\<exists>e' t' n. n = overflow_count (uint (envPageSize e)) (int (length data)) \<and>
    allocateOverflow w e t dbi data = Some (e', t', allocatedPg t) \<and> wtxn_ok m e' t' \<and>
    getLargeData e' [t'] (allocatedPg t) (of_nat (length data)) = Some ([t'], Inr data) \<and>
    (\<forall>q. q \<notin> ov_run (allocatedPg t) 0 n \<longrightarrow> seen e' t' q = seen e t q) \<and>
    LargePages (trees t' ! dbi) = LargePages (trees t ! dbi) + of_nat n"
  using allocateOverflow_ok [OF assms(1-3) assms(5,4)] assms(4) by fastforce

theorem overflow_round_trip_witness:
  "\<exists>b e' t'. allocateOverflow sample_world (sample_wenv b) sample_wtxn 2 (replicate 100 7) = Some (e', t', 6) \<and>
    getLargeData e' [t'] 6 100 = Some ([t'], Inr (replicate 100 7))"
proof -
  obtain b where b: "spill_room 1000 b" "pageSize b = 64" using sample_buffer by blast
  have n: "overflow_count (uint (envPageSize (sample_wenv b))) (int (length (replicate 100 7))) = 2"
    by (simp add: overflow_count_def sample_wenv_def sample_env_def pageHeaderSize_def)
  show ?thesis
    using overflow_round_trip [OF sample_world_ok, of "sample_wenv b" "replicate 100 7" 2 sample_wtxn 998]
      sample_wtxn_ok [OF b] unfolding n
    by (auto simp: sample_wenv_def sample_env_def sample_wtxn_def sample_txn_def)
qed

text \<open>C26: with WriteMap a value of the same size is updated inside the shared mapping: a read-only transaction
  that started before the update and reads the value again gets the new bytes.\<close>

theorem overflow_inplace_visible:
  assumes "isWriteMap e" "dataMap e = Some m" "getMmapPageData e pg \<noteq> None"
    and "unat pg * unat (envPageSize e) + 20 + length newData \<le> length m" "length newData < 2 ^ 32"
    and "IsReadOnly r" "mmapData r = dataMap e" "txnPageSize r = envPageSize e"
  shows "\<exists>e' t' v. updateOverflowInPlace w e t dbi pg (of_nat (length newData)) newData = Some (e', t', True) \<and>
    v = take (length newData) (drop (unat pg * unat (envPageSize e) + 20) m) \<and>
    getLargeData e [r] pg (of_nat (length newData)) = Some ([r], Inr v) \<and>
    getLargeData e' [r\<lparr>mmapData := dataMap e'\<rparr>] pg (of_nat (length newData)) =
      Some ([r\<lparr>mmapData := dataMap e'\<rparr>], Inr newData)"
  using inplace_update_visible [OF assms] by auto

theorem overflow_inplace_visible_witness:
  "\<exists>e e' t' r. getLargeData e [r] 2 1 = Some ([r], Inr [0]) \<and>
    updateOverflowInPlace sample_world e sample_wtxn 2 2 1 [9] = Some (e', t', True) \<and>
    getLargeData e' [r\<lparr>mmapData := dataMap e'\<rparr>] 2 1 = Some ([r\<lparr>mmapData := dataMap e'\<rparr>], Inr [9])"
proof -
  let ?e = "sample_env\<lparr>envFlags := WriteMap\<rparr>"
  have "isWriteMap ?e" "dataMap ?e = Some sample_map" "getMmapPageData ?e 2 \<noteq> None" "IsReadOnly sample_txn"
    by (simp_all add: isWriteMap_def WriteMap_def getMmapPageData_def sample_env_def sample_map_def IsReadOnly_def
      sample_txn_def TxnReadOnly_def)
  moreover have "unat (2 :: pgno) * unat (envPageSize ?e) + 20 + length [9 :: u8] \<le> length sample_map"
    "length [9 :: u8] < 2 ^ 32" "mmapData sample_txn = dataMap ?e" "txnPageSize sample_txn = envPageSize ?e"
    by (simp_all add: sample_env_def sample_txn_def sample_map_def)
  moreover have "take (length [9 :: u8]) (drop (unat (2 :: pgno) * unat (envPageSize ?e) + 20) sample_map) = [0]"
    by (simp add: sample_env_def sample_map_def)
  ultimately show ?thesis
    using overflow_inplace_visible [of ?e sample_map 2 "[9]" sample_txn sample_world sample_wtxn 2] by fastforce
qed

text \<open>C27: freeOverflow puts the pages of a committed value on the transaction's free list, and the next allocatePage
  of the same transaction hands the last of them out again for writing, although the snapshot of the last
  commit still refers to it.\<close>

theorem freed_overflow_reused:
  fixes vsz :: u32
  assumes "world_ok w" "wtxn_ok (Suc m) e t" "dbi < length (trees t)"
    and "0 < overflow_count (uint (envPageSize e)) (uint vsz)"
  shows "\<exists>t1 e' t' a p pg'. freeOverflow e t dbi pg vsz = Some t1 \<and>
    pg' = pg + of_nat (overflow_count (uint (envPageSize e)) (uint vsz) - 1) \<and>
    allocatePage w e t1 = Some (e', t', pg', a) \<and> seen e' t' = (seen e t)(pg' \<mapsto> p)"
  using freed_page_reused [OF assms] by blast

theorem freed_overflow_reused_witness:
  "\<exists>b t1 e' t' a. freeOverflow (sample_wenv b) sample_wtxn 2 3 100 = Some t1 \<and>
    allocatePage sample_world (sample_wenv b) t1 = Some (e', t', 4, a)"
proof -
  obtain b where b: "spill_room 1000 b" "pageSize b = 64" using sample_buffer by blast
  have n: "overflow_count (uint (envPageSize (sample_wenv b))) (uint (100 :: u32)) = 2"
    by (simp add: overflow_count_def sample_wenv_def sample_env_def pageHeaderSize_def)
  have "\<exists>t1 e' t' a p pg'. freeOverflow (sample_wenv b) sample_wtxn 2 3 100 = Some t1 \<and> pg' = 3 + of_nat (2 - 1) \<and>
    allocatePage sample_world (sample_wenv b) t1 = Some (e', t', pg', a) \<and> seen e' t' = (seen (sample_wenv b) sample_wtxn)(pg' \<mapsto> p)"
    using freed_overflow_reused [OF sample_world_ok, of 999 "sample_wenv b" sample_wtxn 2 100 3] sample_wtxn_ok [OF b]
    unfolding n by (simp add: sample_wtxn_def sample_txn_def)
  then obtain t1 e' t' a where "freeOverflow (sample_wenv b) sample_wtxn 2 3 100 = Some t1"
    "allocatePage sample_world (sample_wenv b) t1 = Some (e', t', 4, a)" by auto
  then show ?thesis by blast
qed

section \<open>Metas and commit\<close>

text \<open>C23: a tree record written into a buffer of at least 48 bytes and parsed back is the same record, and the
  bytes behind it are untouched; this is the only way tree roots of named tables reach the file.\<close>

theorem tree_codec:
  assumes "48 \<le> length d"
  shows "\<exists>d'. serializeTreeToBuf t d = Some d' \<and> parseTreeFromBytes d' = Some t \<and> drop 48 d' = drop 48 d"
  using serialize_parse [OF assms, of t] by blast

theorem tree_codec_witness:
  "\<exists>d'. serializeTreeToBuf (\<lparr>tFlags = 4, Height = 2, DupfixSize = 0, Root = 17, BranchPages = 1, LeafPages = 3,
      LargePages = 0, Sequence = 5, Items = 40, ModTxnid = 9\<rparr>) (replicate 50 1) = Some d' \<and>
    parseTreeFromBytes d' = Some (\<lparr>tFlags = 4, Height = 2, DupfixSize = 0, Root = 17, BranchPages = 1, LeafPages = 3,
      LargePages = 0, Sequence = 5, Items = 40, ModTxnid = 9\<rparr>)"
  using tree_codec [of "replicate 50 1"] by auto

text \<open>C21: newMetaTriple looks at the three meta pages (of a length that readMeta does not read beyond) and picks, among
  those that validate, the one with the largest transaction id as recent and the steady one with the largest
  id as steady (recent if none is steady); it fails exactly when no page validates with a transaction id
  other than zero.\<close>

theorem meta_triple_choice:
  assumes "length pages = 3" "\<forall>d \<in> set pages. sized d"
  shows "\<exists>res. newMetaTriple pages = Some res \<and>
    (case res of
       Inl e \<Rightarrow> e = errMetaNoValid \<and> (\<forall>d \<in> set pages. tx_of (valid_meta d) = 0)
     | Inr mt \<Rightarrow> (\<exists>m st. recentMeta mt = Some m \<and> steadyMeta mt = Some st \<and> 0 < txnID m \<and>
         Some m \<in> valid_meta ` set pages \<and> Some st \<in> valid_meta ` set pages \<and>
         (\<forall>d \<in> set pages. tx_of (valid_meta d) \<le> txnID m) \<and>
         (if \<exists>d \<in> set pages. 0 < steady_tx_of (valid_meta d)
          then isSteady st \<and> (\<forall>d \<in> set pages. steady_tx_of (valid_meta d) \<le> txnID st) else st = m)))"
proof -
  let ?ms = "map valid_meta pages"
  have eq: "newMetaTriple pages = Some (triple_of ?ms)" using newMetaTriple_eq [of pages] assms by blast
  show ?thesis
  proof (cases "triple_of ?ms")
    case (Inl e)
    then show ?thesis using eq recent_of_choice [of ?ms] by simp
  next
    case (Inr mt)
    obtain m where m: "recentMeta mt = Some m" "0 < txnID m" "Some m \<in> valid_meta ` set pages" "\<forall>d \<in> set pages. tx_of (valid_meta d) \<le> txnID m"
      using recent_of_choice [of ?ms] Inr by auto
    obtain st where st: "steadyMeta mt = Some st" "Some st \<in> valid_meta ` set pages"
      "if \<exists>d \<in> set pages. 0 < steady_tx_of (valid_meta d) then isSteady st \<and> (\<forall>d \<in> set pages. steady_tx_of (valid_meta d) \<le> txnID st)
       else recentMeta mt = Some st"
      using steady_of_choice [OF Inr] by (simp only: set_map bex_simps ball_simps) blast
    moreover have "st = m" if "recentMeta mt = Some st" using that m(1) by simp
    ultimately show ?thesis
      unfolding eq Inr using m by (intro exI [of _ "Inr mt"] conjI refl) (auto split: if_splits simp del: image_iff)
  qed
qed

theorem meta_triple_choice_witness:
  "\<exists>a b mt m st. newMetaTriple [a, b, []] = Some (Inr mt) \<and> recentMeta mt = Some m \<and> steadyMeta mt = Some st \<and>
    \<not> isSteady m \<and> isSteady st \<and> txnID m = 2 \<and> txnID st = 1"
proof -
  define ma where "ma = init_meta_at 4096 (\<lambda>i. replicate 16 7) 0"
  define mb where "mb = setSignWeak (init_meta_at 4096 (\<lambda>i. replicate 16 7) 1)"
  have a: "meta_wf ma" "validate_meta ma = None" "txnID ma = 1" "isSteady ma"
    unfolding ma_def using init_meta_ok [of "\<lambda>i. replicate 16 7" 0 4096] by simp_all
  have b: "meta_wf mb" "validate_meta mb = None" "txnID mb = 2" "\<not> isSteady mb"
    unfolding mb_def using init_meta_ok [of "\<lambda>i. replicate 16 7" 1 4096]
    by (simp_all add: setSignWeak_id)
  note va = meta_bytes_page [OF a(1,2)] and vb = meta_bytes_page [OF b(1,2)]
  have e: "valid_meta [] = None" "sized []" by (simp_all add: valid_meta_def readMeta_def sized_def)
  let ?p = "[meta_bytes ma, meta_bytes mb, []]"
  have "\<forall>d \<in> set ?p. sized d" using va vb e by simp
  from meta_triple_choice [of ?p, OF _ this] obtain res where res: "newMetaTriple ?p = Some res"
    "case res of
       Inl e \<Rightarrow> e = errMetaNoValid \<and> (\<forall>d \<in> set ?p. tx_of (valid_meta d) = 0)
     | Inr mt \<Rightarrow> (\<exists>m st. recentMeta mt = Some m \<and> steadyMeta mt = Some st \<and> 0 < txnID m \<and>
         Some m \<in> valid_meta ` set ?p \<and> Some st \<in> valid_meta ` set ?p \<and>
         (\<forall>d \<in> set ?p. tx_of (valid_meta d) \<le> txnID m) \<and>
         (if \<exists>d \<in> set ?p. 0 < steady_tx_of (valid_meta d)
          then isSteady st \<and> (\<forall>d \<in> set ?p. steady_tx_of (valid_meta d) \<le> txnID st) else st = m))"
    by auto
  have tx: "tx_of (Some ma) = 1" "tx_of (Some mb) = 2" "tx_of None = 0" "steady_tx_of (Some ma) = 1" "steady_tx_of (Some mb) = 0"
    "steady_tx_of None = 0" using a b by (simp_all add: tx_of_def steady_tx_of_def)
  show ?thesis
  proof (cases res)
    case (Inl e)
    then show ?thesis using res(2) va tx by simp
  next
    case (Inr mt)
    then obtain m st where m: "recentMeta mt = Some m" "steadyMeta mt = Some st" "Some m \<in> {Some ma, Some mb, None}"
      "Some st \<in> {Some ma, Some mb, None}" "2 \<le> txnID m" "isSteady st"
      using res(2) by (auto simp: va vb e tx)
    then have "txnID m \<noteq> 1" by (auto simp: word_le_nat_alt)
    then have "m = mb" "st = ma" using m(3,4,6) a(3) b(4) by auto
    then show ?thesis using res(1) Inr m a b by blast
  qed
qed

text \<open>C24: initNewDB, for pages of at least 244 bytes and when the system accepts its writes, writes three meta pages that
  readMeta accepts, with the transaction ids 1, 2 and InitialTxnID: the third is the current one, steady,
  with the configured page size and an empty main tree.\<close>

theorem new_database:
  assumes "244 \<le> unat ps" "0 < sysPageSize" "\<forall>i. length (bootid i) = 16"
  shows "\<exists>f mt m. initNewDB (\<lambda>n. None) now ps sysPageSize bootid = (f, None) \<and>
    env_readMeta f ps = Some (Inr mt) \<and> txnids mt = [1, 2, InitialTxnID] \<and> recent mt = 2 \<and> recentMeta mt = Some m \<and>
    txnID m = InitialTxnID \<and> isSteady m \<and> meta_pageSize m = ps \<and> isEmpty (MainTree m)"
  using initNewDB_ok [OF assms, of now] by (auto simp: InitialTxnID_val)

theorem new_database_witness:
  "\<exists>f mt. initNewDB (\<lambda>n. None) 0 4096 4096 (\<lambda>i. replicate 16 7) = (f, None) \<and> env_readMeta f 4096 = Some (Inr mt)"
  using new_database [of 4096 4096 "\<lambda>i. replicate 16 7" 0] by auto

lemma commit_pre_new_database:
  "\<exists>f mt m c. commit_pre c f mt 2 m \<and> cMain c \<noteq> MainTree m"
proof -
  let ?boot = "\<lambda>i :: nat. replicate 16 (0 :: u8)"
  from initNewDB_ok [of 256 1 ?boot 0] obtain f mt m where
    i: "768 \<le> length f" "env_readMeta f 256 = Some (Inr mt)" "recent mt = 2" "recentMeta mt = Some m" "txnids mt = [1, 2, 3]"
    by auto
  define c where "c = \<lparr>ctxnID = 4, cGC = GCTree m, cMain = (MainTree m)\<lparr>Items := Items (MainTree m) + 1\<rparr>,
    callocatedPg = 3, cpageSize = 256, csysPageSize = 1, cwillSync = True\<rparr>"
  have three: "(\<exists>j < 3. P j) \<longleftrightarrow> P 0 \<or> P (Suc 0) \<or> P 2" "(\<forall>j < 3. P j) \<longleftrightarrow> P 0 \<and> P (Suc 0) \<and> P 2" for P :: "nat \<Rightarrow> bool"
    using less_3_cases by auto
  have "commit_pre c f mt 2 m" unfolding commit_pre_def three by (simp add: c_def i)
  moreover have "Items (cMain c) \<noteq> Items (MainTree m)" by (simp add: c_def)
  ultimately show ?thesis by metis
qed

text \<open>C11: a commit that writes its meta page with WriteAt never leaves a file from which a torn meta is read:
  before the second write readMeta still gives the old meta, after it the complete new one, and the old
  meta's page is not the one written.\<close>

theorem commit_meta_safe:
  assumes "commit_pre c f mt r rm"
  shows "\<exists>f1 f2 mt'. updateMeta False None None None c mt f = Some ([f, f1, f2], Inr mt') \<and>
    recentMeta mt' = Some (committed_meta c rm) \<and> txnID (committed_meta c rm) = ctxnID c \<and>
    (\<exists>mt1. env_readMeta f1 (cpageSize c) = Some (Inr mt1) \<and> recentMeta mt1 = Some rm) \<and>
    env_readMeta f2 (cpageSize c) = Some (Inr mt')"
  using updateMeta_file_safe [OF assms] by (auto simp: updateMeta_def)

theorem commit_meta_safe_witness:
  "\<exists>c f mt f1 f2 mt'. updateMeta False None None None c mt f = Some ([f, f1, f2], Inr mt')"
  using commit_pre_new_database commit_meta_safe by blast

text \<open>C16: with WriteMap the code stores into the mapped meta page in an order that passes through a state which
  readMeta accepts as the newest meta and which has the new transaction id but still the old main tree.  A
  reader that opens the file in that state, or a crash that leaves it, sees the commit without its data.\<close>

theorem commit_meta_writemap_torn:
  assumes "commit_pre c f mt r rm" "cMain c \<noteq> MainTree rm"
  shows "\<exists>states mt' f' mtx m. updateMeta_mmap None c mt f = Some (states, Inr mt') \<and> f' \<in> set states \<and>
    env_readMeta f' (cpageSize c) = Some (Inr mtx) \<and> recentMeta mtx = Some m \<and>
    txnID m = ctxnID c \<and> MainTree m = MainTree rm \<and> MainTree m \<noteq> cMain c"
  using updateMeta_mmap_exposes [OF assms] assms(2) by metis

theorem commit_meta_writemap_torn_witness:
  "\<exists>c f mt states mt' f' mtx m. updateMeta_mmap None c mt f = Some (states, Inr mt') \<and> f' \<in> set states \<and>
    env_readMeta f' (cpageSize c) = Some (Inr mtx) \<and>
    recentMeta mtx = Some m \<and> txnID m = ctxnID c \<and> MainTree m \<noteq> cMain c"
proof -
  from commit_pre_new_database obtain f mt m c where "commit_pre c f mt 2 m" "cMain c \<noteq> MainTree m" by blast
  from commit_meta_writemap_torn [OF this] show ?thesis by blast
qed

section \<open>Reader slots\<close>

text \<open>C34: whatever sequence of acquireReaderSlot and releaseReaderSlot runs on a lock file, no slot is handed out
  while it is held, although the free list may hold a slot twice or a slot that the scan has handed out.\<close>

theorem reader_slots_exclusive:
  assumes "lock_inv lf" "\<forall>i. Some i \<in> set cmds \<longrightarrow> i < length (lf_slots lf)"
  shows "\<exists>lf' ops. run_ops (lk_alloc pid tid) (\<lambda>lf i. releaseReaderSlot i lf) lf cmds = Some (lf', ops) \<and>
    exclusive (held_slots lf) ops \<and> held_slots lf' = held (held_slots lf) ops"
  using lk.run_exclusive [OF assms(1) lk_admissible [OF assms(2)]] by blast

theorem reader_slots_exclusive_witness:
  "\<exists>lf' ops. run_ops (lk_alloc 7 1) (\<lambda>lf i. releaseReaderSlot i lf)
      (openLockFileReadOnly \<lparr>osOpen = None, osOpenRO = None, osStat = None, osTruncate = None, osWriteAt = None,
         osSync = None, osStatMap = None, osMmap = None, strayBytes = []\<rparr> 2) [None, None, Some 0, None] = Some (lf', ops) \<and>
    exclusive {} ops"
proof -
  define lf where "lf = openLockFileReadOnly \<lparr>osOpen = None, osOpenRO = None, osStat = None, osTruncate = None,
    osWriteAt = None, osSync = None, osStatMap = None, osMmap = None, strayBytes = []\<rparr> 2"
  have "lock_inv lf" "length (lf_slots lf) = 2" by (simp_all add: lf_def openLockFileReadOnly_def lock_inv_def)
  moreover have "held_slots lf = {}"
    by (auto simp: lf_def openLockFileReadOnly_def held_slots_def free_slot_def)
  ultimately show ?thesis
    using reader_slots_exclusive [of lf "[None, None, Some 0, None]" 7 1] unfolding lf_def [symmetric] by auto
qed

text \<open>C32: with any number of threads whose acquisitions and releases interleave at every atomic access, no two
  threads hold the same slot, and the transaction id of a held slot is not zero, so that no other
  acquisition takes it.\<close>

theorem reader_slots_mutex:
  assumes "lk_reach who n s" "ls_pc s t = Holding i"
  shows "i < n \<and> rs_txnid (ls_slots s ! i) \<noteq> 0 \<and> {u. ls_pc s u = Holding i} = {t}"
proof -
  have c: "claims (ls_pc s u) = Some i" if "ls_pc s u = Holding i" for u using that by simp
  note D = excl_invD [OF lk_reach_excl [OF assms(1)]]
  have uniq: "{u. ls_pc s u = Holding i} = {t}" using D(3) [OF c [OF assms(2)] c] assms(2) by blast
  show ?thesis
    using D(1,2) [OF c [OF assms(2)]] uniq assms(2) lk_reach_length [OF assms(1)] by simp
qed

theorem reader_slots_mutex_witness:
  "\<exists>s. lk_reach (\<lambda>t. (7, 1)) 1 s \<and> {u. ls_pc s u = Holding 0} = {1}"
proof -
  obtain s where "lk_reach (\<lambda>t. (7, 1)) 1 s" "ls_pc s 1 = Holding 0" using release_race by blast
  then show ?thesis using reader_slots_mutex by blast
qed

text \<open>C33: threads that run acquireReaderSlot (successful or not), setReaderTxnid and releaseReaderSlot as wholes,
  in any order among each other, are executions of the step relation: the sequential functions refine
  the interleaved accesses.  In every state they lead to, a thread without a slot can acquire and a
  thread with a slot can publish and release it without a panic.\<close>

theorem reader_slots_refine:
  assumes "lock_inv lf" "holds_slots lf pcs" "run_cmds who cs lf pcs = Some (lf1, pcs1)"
  shows "(any_step who)\<^sup>*\<^sup>* (sys_of lf pcs) (sys_of lf1 pcs1) \<and>
    (\<forall>t c. cmd_fits c (pcs1 t) \<longrightarrow> run_cmd who t c lf1 pcs1 \<noteq> None)"
  using run_cmds_exec [OF assms] run_cmd_total [of lf1 pcs1] by (metis option.distinct(1))

theorem reader_slots_refine_witness:
  "\<exists>lf1. run_cmds (\<lambda>t. (7, 1)) [(3, AcquireSlot), (4, AcquireSlot), (3, SetTxn 5), (3, ReleaseSlot)]
      \<lparr>lf_file = False, lf_mapped = False, lf_header = new_header, lf_slots = [free_slot], lf_maxReaders = 1, writerLock = False,
       lockless = True, freeSlots = [0]\<rparr> (\<lambda>t. Idle) = Some (lf1, \<lambda>t. Idle) \<and>
    (any_step (\<lambda>t. (7, 1)))\<^sup>*\<^sup>* (sys_of \<lparr>lf_file = False, lf_mapped = False, lf_header = new_header, lf_slots = [free_slot],
       lf_maxReaders = 1, writerLock = False, lockless = True, freeSlots = [0]\<rparr> (\<lambda>t. Idle)) (sys_of lf1 (\<lambda>t. Idle))"
proof -
  define lf where "lf = \<lparr>lf_file = False, lf_mapped = False, lf_header = new_header, lf_slots = [free_slot],
    lf_maxReaders = 1, writerLock = False, lockless = True, freeSlots = [0]\<rparr>"
  let ?cs = "[(3, AcquireSlot), (4, AcquireSlot), (3, SetTxn 5), (3, ReleaseSlot)]"
  have inv: "lock_inv lf" by (simp add: lock_inv_def lf_def)
  obtain lf1 where r: "run_cmds (\<lambda>t. (7, 1)) ?cs lf (\<lambda>t. Idle) = Some (lf1, \<lambda>t. Idle)"
    by (simp add: lf_def run_cmd_def acquireReaderSlot_def setReaderTxnid_def releaseReaderSlot_def free_slot_def claim_slot_def fun_upd_idem)
  have "holds_slots lf (\<lambda>t. Idle)" by (simp add: holds_slots_def)
  from reader_slots_refine [OF inv this r] r show ?thesis unfolding lf_def [symmetric] by blast
qed

text \<open>C35: releaseReaderSlot frees a slot before it clears the owner's ids, so a thread that takes the slot in
  between ends up holding it with process id 0: cleanupStaleReaders skips that slot for ever, even when
  the process of the holder is dead.\<close>

theorem reader_slot_release_race:
  "\<exists>s. lk_reach who 1 s \<and> ls_pc s 1 = Holding 0 \<and> rs_txnid (ls_slots s ! 0) \<noteq> 0 \<and> rs_pid (ls_slots s ! 0) = 0 \<and>
    (\<forall>alive me. \<not> is_stale alive me (ls_slots s ! 0))"
  using release_race [of who] by (auto simp: is_stale_def)

text \<open>OldestReader returns the smallest transaction id among the active slots, the largest 64-bit value when
  no reader is active, and caches it; cleanupStaleReaders frees exactly the slots of other, dead processes.\<close>

theorem oldest_reader:
  "oldestReader lf = (lf', x) \<Longrightarrow>
    x = Min (insert (- 1) {rs_txnid s | s. s \<in> set (lf_slots lf) \<and> rs_txnid s \<noteq> 0}) \<and> cachedOldestReader lf' = x \<and>
    lf_slots lf' = lf_slots lf \<and>
    held_slots (fst (cleanupStaleReaders alive me lf)) = {i \<in> held_slots lf. \<not> is_stale alive me (lf_slots lf ! i)}"
  by (auto simp: oldestReader_def oldest_of_eq Let_def cachedOldestReader_def cleanupStaleReaders_def held_slots_def split: if_splits)

theorem oldest_reader_witness:
  "\<exists>lf lf'. oldestReader lf = (lf', 5) \<and> cachedOldestReader lf' = 5"
proof -
  define lf where "lf = \<lparr>lf_file = False, lf_mapped = False, lf_header = new_header,
    lf_slots = [free_slot\<lparr>rs_txnid := 9\<rparr>, free_slot, free_slot\<lparr>rs_txnid := 5\<rparr>],
    lf_maxReaders = 3, writerLock = False, lockless = True, freeSlots = []\<rparr>"
  have "oldest_of (lf_slots lf) = 5" by (simp add: oldest_of_def lf_def free_slot_def)
  then obtain lf' where "oldestReader lf = (lf', 5)" by (simp add: oldestReader_def Let_def)
  with oldest_reader [OF this] show ?thesis by blast
qed

text \<open>OpenLockFile creates a lock file of the documented size for its number of readers, and maps it with the
  right magic number and every slot free.\<close>

theorem new_lock_file:
  assumes "osOpen os = None" "osStat os = None" "osTruncate os = None" "osWriteAt os = None" "osSync os = None"
      "osStatMap os = None" "osMmap os = None" "80 \<le> length (strayBytes os)" "0 < n"
  shows "\<exists>img lf. openLockFile os [] n True = Some (img, Inr lf) \<and> length img = 256 + 32 * nat n \<and>
    lf_slots lf = replicate (nat n) free_slot \<and> freeSlots lf = [] \<and> \<not> lockless lf \<and> held_slots lf = {}"
  using open_new_lock_file [OF assms] by (auto simp: held_slots_def free_slot_def)

theorem new_lock_file_witness:
  "\<exists>img lf. openLockFile \<lparr>osOpen = None, osOpenRO = None, osStat = None, osTruncate = None, osWriteAt = None,
      osSync = None, osStatMap = None, osMmap = None, strayBytes = replicate 80 3\<rparr> [] 2 True = Some (img, Inr lf) \<and>
    lf_slots lf = [free_slot, free_slot]"
  using new_lock_file [of "\<lparr>osOpen = None, osOpenRO = None, osStat = None, osTruncate = None, osWriteAt = None,
    osSync = None, osStatMap = None, osMmap = None, strayBytes = replicate 80 3\<rparr>" 2]
  by (auto simp: numeral_2_eq_2)

section \<open>Errors\<close>

text \<open>C40: the predicates on errors look through any chain of wrapping at the first gdbx error and decide its
  code: wrapping a not-found error with WrapError or another error type keeps IsNotFound true for the
  latter and replaces the code for the former, and the sentinel value NotFound is not recognised.\<close>

theorem error_predicates:
  "(IsNotFound err \<longleftrightarrow> Code err = ErrNotFound) \<and> (IsKeyExist err \<longleftrightarrow> Code err = ErrKeyExist) \<and>
   (IsMapFull err \<longleftrightarrow> Code err = ErrMapFull) \<and>
   (IsCorrupted err \<longleftrightarrow> Code err = ErrCorrupted \<or> Code err = ErrPageNotFound) \<and>
   Code (Some (NewError c)) = c \<and> Code (Some (WrapError c e)) = c \<and> Code (Some (Wraps m e)) = Code (Some e) \<and>
   Code None = Success \<and> \<not> IsNotFound (Some NotFound)"
  using WrapError_shape [of c e]
  by (auto simp: IsNotFound_iff IsKeyExist_iff IsMapFull_iff IsCorrupted_iff NotFound_not_found) (auto simp: Code_def error_code_defs)

section \<open>Iteration with a cursor\<close>

text \<open>C36: a cursor opened on a non-empty table without duplicates of a read-only transaction, whose tree is in order
  (sorted keys between the separators, no empty page, at most 32 levels) and whose large values can be read,
  moved with Next until Next fails, returns the pair of every leaf node of the tree exactly once, from the
  smallest key to the largest, and then not-found; the iteration ends after one call more than there are
  pairs.\<close>

theorem cursor_iterates:
  assumes "txn_valid t" "dbi < length (trees t)" "IsReadOnly t" "mmapData t \<noteq> None" "txnPageSize t = envPageSize e"
    and "cacheComparator e t dbi = Some t'" "\<forall>c \<in> set cache. cursor_ok c"
    and "tFlags (trees t ! dbi) AND ucast DupSort = 0" "\<not> isEmpty (trees t ! dbi)" "unat (Height (trees t ! dbi)) = Suc h" "h < 32"
    and "rd = rd_map (mapped (mmapData t)) (unat (txnPageSize t))" "nds = leaf_nodes rd h (Root (trees t ! dbi))"
    and "shape_ok rd h (Root (trees t ! dbi))" "key_order cmp" "tree_ok cmp rd h (Root (trees t ! dbi)) None None"
    and "\<forall>nd \<in> set nds. big_ok e t' nd" "length nds < n"
  shows "\<exists>s cache' s'. OpenCursor e t dbi cache = Some (Inr s, cache') \<and>
    drain n s = Some (map (pair_of e t') nds, Some ErrNotFoundError, s') \<and>
    sorted_wrt (\<lambda>a b. cmp a b < 0) (map (fst \<circ> pair_of e t') nds)"
proof -
  obtain s cache' where s: "OpenCursor e t dbi cache = Some (Inr s, cache')" "ro_cursor s" "state (cc s) = cursorUninitialized"
    "ce s = e" "trees (ct s) = trees t" "cdbi (cc s) = dbi" "cmmapData (cc s) = mmapData t" "ccpageSize (cc s) = txnPageSize t"
    "Some t' = Some (ct s)"
    using OpenCursor_ro [OF assms(1-5,8,7)] assms(6) by auto
  have rd: "cur_rd s = rd" using s assms(12) by (simp add: cur_rd_def)
  have "table_ok s h (Root (trees (ct s) ! cdbi (cc s)))" using s rd assms(10,11,13,14,17) by (simp add: table_ok_def)
  from drain_ro [OF s(2,3) _ this, of n] obtain s' where "drain n s = Some (map (pair_of e t') nds, Some ErrNotFoundError, s')"
    using s rd assms(9,13,18) by auto
  moreover have "sorted_wrt (\<lambda>a b. cmp a b < 0) (map (fst \<circ> pair_of e t') nds)"
    using key_order.leaf_nodes_sorted [OF assms(15,16)] assms(13) by (simp add: sorted_wrt_map pair_key)
  ultimately show ?thesis using s(1) by blast
qed

theorem cursor_iterates_witness:
  "\<exists>s s'. OpenCursor sample_env iter_txn 2 [] = Some (Inr s, []) \<and>
    drain 3 s = Some ([([98], [120]), ([100], [121, 122])], Some ErrNotFoundError, s')"
proof -
  note f = iter_txn_facts
  let ?rd = "rd_map (mapped (mmapData iter_txn)) (unat (txnPageSize iter_txn))"
  have ok: "tree_ok bytes_compare ?rd 0 5 None None" "shape_ok ?rd 0 5"
    by (simp_all add: f(1) sample_leaf_ok sample_sorted sample_leaf_fields in_range_def)
       (simp_all add: lfp_def sample_leaf_def g16_def le16_def pageLeaf_def)
  have tr: "trees iter_txn ! 2 = sample_tree\<lparr>Height := 1\<rparr>" "length (trees iter_txn) = 3" by (simp_all add: iter_txn_def)
  have m: "mmapData iter_txn \<noteq> None" "txnPageSize iter_txn = envPageSize sample_env" "tFlags (trees iter_txn ! 2) AND ucast DupSort = 0"
    "\<not> isEmpty (trees iter_txn ! 2)" "unat (Height (trees iter_txn ! 2)) = Suc 0" "Root (trees iter_txn ! 2) = 5" "2 < length (trees iter_txn)"
    by (simp_all add: iter_txn_def sample_txn_def sample_env_def sample_tree_def isEmpty_def invalidPgno_def)
  have nds: "leaf_nodes ?rd 0 5 = [sample_node [98] [120], sample_node [100] [121, 122]]" by (simp add: f(1) sample_entries)
  have big: "\<forall>nd \<in> set (leaf_nodes ?rd 0 5). big_ok sample_env iter_txn nd" unfolding nds using f(5,6) by simp
  obtain s cache' s' where "OpenCursor sample_env iter_txn 2 [] = Some (Inr s, cache')"
    "drain 3 s = Some (map (pair_of sample_env iter_txn) (leaf_nodes ?rd 0 5), Some ErrNotFoundError, s')"
    using cursor_iterates [of iter_txn 2 sample_env iter_txn "[]" 0 ?rd _ bytes_compare 3, OF f(2) _ f(3) m(1,2) f(4) _ m(3,4,5) _ refl refl,
      unfolded m(6), OF m(7) _ _ ok(2) bytes.key_order_axioms ok(1) big] nds by auto
  moreover have "map (pair_of sample_env iter_txn) (leaf_nodes ?rd 0 5) = [([98], [120]), ([100], [121, 122])]"
    unfolding nds by (simp add: pair_of_def sample_node_eval nd_big_def nd_flags_def nd_data_def)
  moreover have "cache' = []" if "OpenCursor sample_env iter_txn 2 [] = Some (r, cache')" for r
    using that by (auto simp: OpenCursor_def newCursorFromCache_def f tr)
  ultimately show ?thesis by metis
qed

end
